(* ===== verification/MtaPrelude.thy ===== *)
theory MtaPrelude
  imports Main "HOL-Library.Multiset"
begin

text \<open>
  Shared vocabulary of the development: byte strings as they occur in the C sources, the
  C view of a NUL-terminated string, reading a byte stream record by record, and the lemmas
  on lists that several components use.

  A byte is a HOL \<open>char\<close> (8 bits). A \<^verbatim>\<open>stralloc\<close> (a growable byte buffer with an explicit
  length) is the list of its \<open>len\<close> bytes, so \<^verbatim>\<open>stralloc_append/cats/catb\<close> are list appends;
  a C string is the list of its bytes without the terminating NUL.
\<close>

named_theorems byte_simps \<open>facts about bytes and C strings\<close>

type_synonym bytes = "char list"

abbreviation NUL :: char where "NUL \<equiv> CHR 0x00"

abbreviation LF :: char where "LF \<equiv> CHR 0x0A"

definition no_nul :: "bytes \<Rightarrow> bool" where
  "no_nul s \<longleftrightarrow> NUL \<notin> set s"

text \<open>\<open>cstr s\<close>: what a C function sees when it is handed a pointer to the bytes \<open>s\<close>.\<close>

definition cstr :: "bytes \<Rightarrow> bytes" where
  "cstr s = takeWhile (\<lambda>c. c \<noteq> NUL) s"

lemma cstr_no_nul [byte_simps]: "no_nul s \<Longrightarrow> cstr s = s"
  by (auto simp: no_nul_def cstr_def takeWhile_eq_all_conv)

lemma cstr_append_nul [byte_simps]: "no_nul s \<Longrightarrow> cstr (s @ NUL # t) = s"
  by (auto simp: no_nul_def cstr_def takeWhile_tail)

lemma no_nul_cstr [simp]: "no_nul (cstr s)"
  by (auto simp: no_nul_def cstr_def dest: set_takeWhileD)

lemma no_nul_simps [simp]:
  "no_nul []" "no_nul (c # s) \<longleftrightarrow> c \<noteq> NUL \<and> no_nul s" "no_nul (s @ t) \<longleftrightarrow> no_nul s \<and> no_nul t"
  by (auto simp: no_nul_def)

text \<open>
  Reading one NUL-terminated record from a byte stream: the record without its terminator and
  the rest of the stream, or nothing when the stream ends before a terminator
  (\<^verbatim>\<open>match\<close> is 0 then).
\<close>

fun read_record :: "bytes \<Rightarrow> (bytes \<times> bytes) option" where
  "read_record [] = None"
| "read_record (c # s) =
     (if c = NUL then Some ([], s)
      else case read_record s of None \<Rightarrow> None | Some (l, r) \<Rightarrow> Some (c # l, r))"

lemma read_record_Some: "read_record s = Some (l, r) \<Longrightarrow> s = l @ NUL # r \<and> no_nul l"
  by (induction s arbitrary: l) (auto split: if_splits option.splits)

lemma read_record_None: "read_record s = None \<longleftrightarrow> no_nul s"
  by (induction s) (auto split: option.splits)

lemma read_record_append [simp]: "no_nul l \<Longrightarrow> read_record (l @ NUL # r) = Some (l, r)"
  by (induction l) auto

lemma read_record_length: "read_record s = Some (l, r) \<Longrightarrow> length r < length s"
  by (drule read_record_Some) simp

text \<open>A plain \<^verbatim>\<open>char\<close> is signed.\<close>

definition schar :: "char \<Rightarrow> int" where
  "schar c = (let n = of_char c in if n \<ge> 128 then n - 256 else n)"

lemma schar_char_of:
  assumes "n < 128"
  shows "schar (char_of n) = int n"
proof -
  have "(of_char (char_of n) :: int) = int (of_char (char_of n))" by (simp only: of_nat_of_char)
  also have "\<dots> = int n" using assms by simp
  finally show ?thesis using assms by (simp add: schar_def Let_def)
qed

text \<open>
  Steps of a handler on a state: each says whether the handler goes on; after a step that does not
  (an early return, \<^verbatim>\<open>goto fail\<close>, \<^verbatim>\<open>_exit\<close>) the next one is not carried out.
\<close>

type_synonym 's step = "'s \<Rightarrow> bool \<times> 's"

definition also_do :: "'s step \<Rightarrow> 's step \<Rightarrow> 's step" where
  "also_do f g s = (case f s of (True, s1) \<Rightarrow> g s1 | (False, s1) \<Rightarrow> (False, s1))"

definition all_do :: "'s step list \<Rightarrow> 's step" where
  "all_do fs = foldr also_do fs (Pair True)"

lemma all_do_simps: "all_do [] = Pair True" "all_do (f # fs) = also_do f (all_do fs)"
  by (simp_all add: all_do_def)

lemma all_do_append: "all_do (fs @ gs) = also_do (all_do fs) (all_do gs)"
proof (induction fs)
  case Nil
  then show ?case by (auto simp: all_do_simps also_do_def)
next
  case (Cons f fs)
  then show ?case by (auto simp: all_do_simps also_do_def split: prod.split bool.split)
qed

text \<open>Lists updated in place.\<close>

lemma mset_list_update: "i < length xs \<Longrightarrow> mset (xs[i := x]) = add_mset x (mset xs - {#xs ! i#})"
  by (rule mset_update)

lemma filter_update_length:
  assumes "i < length xs"
  shows "length (filter P (xs[i := x])) + (if P (xs ! i) then 1 else 0)
       = length (filter P xs) + (if P x then 1 else 0)"
  using assms
proof (induction xs arbitrary: i)
  case Nil
  then show ?case by simp
next
  case (Cons a xs)
  then show ?case by (cases i) auto
qed

lemma filter_length_le: "length (filter P xs) \<le> length xs"
  by (rule length_filter_le)

lemma filter_length_pos: "i < length xs \<Longrightarrow> P (xs ! i) \<Longrightarrow> 0 < length (filter P xs)"
  by (auto simp: filter_empty_conv)

lemma filter_length_zero: "length (filter P xs) = 0 \<longleftrightarrow> (\<forall>i < length xs. \<not> P (xs ! i))"
  by (simp add: filter_empty_conv all_set_conv_all_nth)

end
