(* ===== verification/Prioq.thy ===== *)
theory Prioq
  imports MtaPrelude
begin

text \<open>
  The priority queue of \<^verbatim>\<open>indimail-mta-x/prioq.c\<close>: a binary heap in a growable array, ordered by
  the time stamp \<^verbatim>\<open>dt\<close>, smallest first (\<^verbatim>\<open>min\<close>) or largest first (\<^verbatim>\<open>max\<close>). The array
  \<^verbatim>\<open>pq->p[0..len-1]\<close> is a list. The order is chosen by the insert call, which leaves it in
  the static variable \<^verbatim>\<open>type\<close> for \<^verbatim>\<open>prioq_del\<close>: the variable is passed explicitly. The locale
  \<open>prioq_ops\<close> is the contract the queue manager relies on; it is interpreted for both orders.
\<close>

section \<open>The data and the operations\<close>

record prioq_elt =
  pe_dt :: int
  pe_id :: nat
  pe_delayed :: bool

text \<open>\<open>Pother\<close> stands for an integer that is neither enumeration constant.\<close>

datatype prioq_type = Pmin | Pmax | Pother

definition pq_le :: "prioq_type \<Rightarrow> prioq_elt \<Rightarrow> prioq_elt \<Rightarrow> bool" where
  "pq_le t a b = ((t = Pmin \<and> pe_dt a \<le> pe_dt b) \<or> (t = Pmax \<and> pe_dt a \<ge> pe_dt b))"

text \<open>The loop of \<^verbatim>\<open>prioq_insert\<close>: \<open>j\<close> is the hole that moves towards the root.\<close>

function prioq_up :: "prioq_type \<Rightarrow> prioq_elt list \<Rightarrow> nat \<Rightarrow> prioq_elt \<Rightarrow> prioq_elt list" where
  "prioq_up t p j pe =
     (if j = 0 then p[j := pe]
      else let i = (j - 1) div 2 in
        if t = Pmin \<and> pe_dt (p ! i) \<le> pe_dt pe then p[j := pe]
        else if t = Pmax \<and> pe_dt (p ! i) \<ge> pe_dt pe then p[j := pe]
        else prioq_up t (p[j := p ! i]) i pe)"
  by pat_completeness auto
termination
  by (relation "measure (\<lambda>(t, p, j, pe). j)") auto

declare prioq_up.simps [simp del]

text \<open>
  \<^verbatim>\<open>prioq_insert\<close>: \<open>ready\<close> is the answer of the allocator; the result is the C return value, the
  new value of the static \<^verbatim>\<open>type\<close> and the queue.
\<close>

definition prioq_insert ::
  "bool \<Rightarrow> prioq_type \<Rightarrow> prioq_type \<Rightarrow> prioq_elt list \<Rightarrow> prioq_elt \<Rightarrow> int \<times> prioq_type \<times> prioq_elt list" where
  "prioq_insert ready ty t pq pe =
     (if \<not> ready then (0, ty, pq)
      else if t \<noteq> Pmin \<and> t \<noteq> Pmax then (-1, ty, pq)
      else (1, t, prioq_up t (pq @ [pe]) (length pq) pe))"

definition prioq_get :: "prioq_elt list \<Rightarrow> prioq_elt option" where
  "prioq_get pq = (if pq = [] then None else Some (pq ! 0))"

text \<open>The loop of \<^verbatim>\<open>prioq_del\<close>: \<open>n\<close> is the new length, \<open>p ! n\<close> the element to place.\<close>

function prioq_down :: "prioq_type \<Rightarrow> prioq_elt list \<Rightarrow> nat \<Rightarrow> nat \<Rightarrow> prioq_elt list \<times> nat" where
  "prioq_down ty p i n =
     (let j = i + i + 2 in
      if j > n then (p, i)
      else if ty = Pmin then
        let j' = (if pe_dt (p ! (j - 1)) \<le> pe_dt (p ! j) then j - 1 else j) in
        if pe_dt (p ! n) \<le> pe_dt (p ! j') then (p, i) else prioq_down ty (p[i := p ! j']) j' n
      else
        let j' = (if pe_dt (p ! (j - 1)) \<ge> pe_dt (p ! j) then j - 1 else j) in
        if pe_dt (p ! n) \<ge> pe_dt (p ! j') then (p, i) else prioq_down ty (p[i := p ! j']) j' n)"
  by pat_completeness auto
termination
  by (relation "measure (\<lambda>(ty, p, i, n). n - i)") (auto simp: Let_def split: if_splits)

declare prioq_down.simps [simp del]

definition prioq_del :: "prioq_type \<Rightarrow> prioq_elt list \<Rightarrow> prioq_elt list" where
  "prioq_del ty pq =
     (if pq = [] then pq
      else if ty \<noteq> Pmin \<and> ty \<noteq> Pmax then pq
      else let n = length pq - 1 in
        case prioq_down ty pq 0 n of (p, i) \<Rightarrow> take n (p[i := p ! n]))"


section \<open>The heap invariant\<close>

definition pq_heap :: "prioq_type \<Rightarrow> prioq_elt list \<Rightarrow> bool" where
  "pq_heap t p \<longleftrightarrow> (\<forall>k < length p. 0 < k \<longrightarrow> pq_le t (p ! ((k - 1) div 2)) (p ! k))"

definition pq_ord :: "prioq_type \<Rightarrow> bool" where
  "pq_ord t \<longleftrightarrow> t = Pmin \<or> t = Pmax"

lemma pq_le_refl [simp]: "pq_ord t \<Longrightarrow> pq_le t a a"
  by (auto simp: pq_le_def pq_ord_def)

lemma pq_le_trans: "pq_le t a b \<Longrightarrow> pq_le t b c \<Longrightarrow> pq_le t a c"
  by (auto simp: pq_le_def)

lemma pq_le_total: "pq_ord t \<Longrightarrow> \<not> pq_le t a b \<Longrightarrow> pq_le t b a"
  by (auto simp: pq_le_def pq_ord_def)

text \<open>
  The hole-passing loops keep the heap order except around the hole: above it for the
  sift-up (\<open>heap_but_up\<close>), below it for the sift-down (\<open>heap_but_down\<close>).
\<close>

definition heap_but_up :: "prioq_type \<Rightarrow> prioq_elt list \<Rightarrow> nat \<Rightarrow> bool" where
  "heap_but_up t q j \<longleftrightarrow>
     (\<forall>k < length q. 0 < k \<longrightarrow> k \<noteq> j \<longrightarrow> pq_le t (q ! ((k - 1) div 2)) (q ! k)) \<and>
     (\<forall>k < length q. 0 < k \<longrightarrow> 0 < j \<longrightarrow> (k - 1) div 2 = j \<longrightarrow> pq_le t (q ! ((j - 1) div 2)) (q ! k))"

definition heap_but_down :: "prioq_type \<Rightarrow> prioq_elt list \<Rightarrow> nat \<Rightarrow> bool" where
  "heap_but_down t q i \<longleftrightarrow>
     (\<forall>k < length q. 0 < k \<longrightarrow> (k - 1) div 2 \<noteq> i \<longrightarrow> pq_le t (q ! ((k - 1) div 2)) (q ! k)) \<and>
     (\<forall>k < length q. 0 < k \<longrightarrow> 0 < i \<longrightarrow> (k - 1) div 2 = i \<longrightarrow> pq_le t (q ! ((i - 1) div 2)) (q ! k))"

lemma heap_but_up_root: "heap_but_up t q 0 \<Longrightarrow> pq_heap t q"
  by (auto simp: heap_but_up_def pq_heap_def)

lemma heap_but_up_done:
  "heap_but_up t q j \<Longrightarrow> pq_le t (q ! ((j - 1) div 2)) (q ! j) \<Longrightarrow> pq_heap t q"
  unfolding heap_but_up_def pq_heap_def by metis

lemma heap_but_up_step:
  assumes up: "heap_but_up t (p[j := pe]) j" and j: "0 < j" "j < length p"
    and i: "i = (j - 1) div 2" and gt: "pq_ord t" "\<not> pq_le t (p ! i) pe"
  shows "heap_but_up t (p[j := p ! i, i := pe]) i"
proof -
  have ij: "i < j" "i < length p" using j i by auto
  have le: "pq_le t pe (p ! i)" using gt pq_le_total by blast
  have par: "pq_le t ((p[j := pe]) ! ((k - 1) div 2)) ((p[j := pe]) ! k)"
    if "k < length p" "0 < k" "k \<noteq> j" for k
    using up that unfolding heap_but_up_def by simp
  have gp: "pq_le t (p ! i) ((p[j := pe]) ! k)"
    if "k < length p" "0 < k" "(k - 1) div 2 = j" for k
    using up that j i ij unfolding heap_but_up_def by (auto simp: nth_list_update)
  have A: "pq_le t (p[j := p ! i, i := pe] ! ((k - 1) div 2)) (p[j := p ! i, i := pe] ! k)"
    if k: "k < length p" "0 < k" "k \<noteq> i" for k
  proof (cases "k = j")
    case True
    then show ?thesis using ij j i le by simp
  next
    case False
    consider "(k - 1) div 2 = i" | "(k - 1) div 2 = j" | "(k - 1) div 2 \<noteq> i" "(k - 1) div 2 \<noteq> j"
      by blast
    then show ?thesis
    proof cases
      case 1
      then have "pq_le t (p ! i) (p ! k)" using par [of k] k False ij by simp
      then have "pq_le t pe (p ! k)" using le pq_le_trans by blast
      then show ?thesis using 1 k False ij j by simp
    next
      case 2
      then show ?thesis using gp [of k] k False ij j by simp
    next
      case 3
      then show ?thesis using par [of k] k False ij j by simp
    qed
  qed
  have B: "pq_le t (p[j := p ! i, i := pe] ! ((i - 1) div 2)) (p[j := p ! i, i := pe] ! k)"
    if k: "k < length p" "0 < k" "0 < i" "(k - 1) div 2 = i" for k
  proof -
    have g: "(i - 1) div 2 \<noteq> i" "(i - 1) div 2 \<noteq> j" "(i - 1) div 2 < length p"
      using k ij by auto
    have top: "pq_le t (p ! ((i - 1) div 2)) (p ! i)"
      using par [of i] k(3) ij g by (simp add: nth_list_update)
    show ?thesis
    proof (cases "k = j")
      case True
      then show ?thesis using top g ij j by simp
    next
      case False
      have "k \<noteq> i" using k by auto
      moreover have "pq_le t (p ! i) (p ! k)" using par [of k] k False ij \<open>k \<noteq> i\<close> by simp
      moreover have "p[j := p ! i, i := pe] ! ((i - 1) div 2) = p ! ((i - 1) div 2)" using g by simp
      moreover have "p[j := p ! i, i := pe] ! k = p ! k" using False \<open>k \<noteq> i\<close> by simp
      ultimately show ?thesis using pq_le_trans [OF top] by simp
    qed
  qed
  show ?thesis unfolding heap_but_up_def using A B by simp
qed

lemma prioq_up_root: "prioq_up t p 0 pe = p[0 := pe]"
  by (subst prioq_up.simps) simp

lemma prioq_up_stop:
  "0 < j \<Longrightarrow> pq_le t (p ! ((j - 1) div 2)) pe \<Longrightarrow> prioq_up t p j pe = p[j := pe]"
  by (subst prioq_up.simps) (auto simp: pq_le_def Let_def)

lemma prioq_up_move:
  "0 < j \<Longrightarrow> \<not> pq_le t (p ! ((j - 1) div 2)) pe \<Longrightarrow>
   prioq_up t p j pe = prioq_up t (p[j := p ! ((j - 1) div 2)]) ((j - 1) div 2) pe"
  by (subst prioq_up.simps) (auto simp: pq_le_def Let_def)

text \<open>An induction rule that follows the loop: the root, the break, the move.\<close>

lemma prioq_up_cases_induct:
  assumes root: "\<And>p. P p 0"
    and stop: "\<And>p j. 0 < j \<Longrightarrow> pq_le t (p ! ((j - 1) div 2)) pe \<Longrightarrow> P p j"
    and move: "\<And>p j i. 0 < j \<Longrightarrow> i = (j - 1) div 2 \<Longrightarrow> \<not> pq_le t (p ! i) pe \<Longrightarrow> P (p[j := p ! i]) i \<Longrightarrow> P p j"
  shows "P p j"
proof (induction j arbitrary: p rule: less_induct)
  case (less j)
  show ?case
  proof (cases "j = 0")
    case True
    then show ?thesis using root by simp
  next
    case False
    then have "(j - 1) div 2 < j" by auto
    then show ?thesis using less stop [of j p] move [of j "(j - 1) div 2" p] False by blast
  qed
qed

lemma prioq_up_heap:
  assumes "pq_ord t"
  shows "j < length p \<Longrightarrow> heap_but_up t (p[j := pe]) j \<Longrightarrow> pq_heap t (prioq_up t p j pe)"
proof (induction p j rule: prioq_up_cases_induct [where t = t and pe = pe])
  case (1 p)
  then show ?case by (simp only: prioq_up_root heap_but_up_root)
next
  case (2 p j)
  have "(p[j := pe]) ! ((j - 1) div 2) = p ! ((j - 1) div 2)" using 2(1) by simp
  then have "pq_heap t (p[j := pe])"
    using 2 by (intro heap_but_up_done [OF 2(4)]) simp
  then show ?case by (simp only: prioq_up_stop [OF 2(1,2)])
next
  case (3 p j i)
  have "heap_but_up t (p[j := p ! i, i := pe]) i"
    by (rule heap_but_up_step [OF 3(6) 3(1) 3(5) 3(2) assms 3(3)])
  moreover have "i < length (p[j := p ! i])" using 3(1,2,5) by simp
  ultimately have "pq_heap t (prioq_up t (p[j := p ! i]) i pe)" using 3(4) by blast
  then show ?case using prioq_up_move [of j t p pe] 3(1,2,3) by simp
qed

lemma prioq_up_mset:
  "j < length p \<Longrightarrow> mset (prioq_up t p j pe) = add_mset pe (mset p - {#p ! j#})"
proof (induction p j rule: prioq_up_cases_induct [where t = t and pe = pe])
  case (1 p)
  then show ?case by (simp add: prioq_up_root mset_update)
next
  case (2 p j)
  then show ?case by (simp only: prioq_up_stop mset_update)
next
  case (3 p j i)
  have i: "i < length (p[j := p ! i])" "p[j := p ! i] ! i = p ! i" using 3(1,2,5) by auto
  have "mset (prioq_up t p j pe) = add_mset pe (mset (p[j := p ! i]) - {#p ! i#})"
    using 3(4) [OF i(1)] i(2) prioq_up_move [of j t p pe] 3(1,2,3) by simp
  then show ?case using 3(5) by (simp only: mset_update add_mset_remove_trivial)
qed


section \<open>Sift-down\<close>

lemma child_cases: "0 < k \<Longrightarrow> (k - 1) div 2 = i \<longleftrightarrow> k = i + i + 1 \<or> k = i + i + (2::nat)"
  by linarith

lemma heap_but_down_done:
  "heap_but_down t q i \<Longrightarrow> (\<And>k. k < length q \<Longrightarrow> 0 < k \<Longrightarrow> (k - 1) div 2 = i \<Longrightarrow> pq_le t (q ! i) (q ! k))
   \<Longrightarrow> pq_heap t q"
  unfolding heap_but_down_def pq_heap_def by metis

lemma heap_but_down_step:
  assumes dn: "heap_but_down t q i" and c: "0 < c" "(c - 1) div 2 = i" "c < length q"
    and least: "\<And>k. k < length q \<Longrightarrow> 0 < k \<Longrightarrow> (k - 1) div 2 = i \<Longrightarrow> pq_le t (q ! c) (q ! k)"
    and gt: "pq_ord t" "\<not> pq_le t (q ! i) (q ! c)"
  shows "heap_but_down t (q[i := q ! c, c := q ! i]) c"
proof -
  have ic: "i < c" "i < length q" "i \<noteq> c" using c by auto
  have le: "pq_le t (q ! c) (q ! i)" using gt pq_le_total by blast
  have par: "pq_le t (q ! ((k - 1) div 2)) (q ! k)" if "k < length q" "0 < k" "(k - 1) div 2 \<noteq> i" for k
    using dn that unfolding heap_but_down_def by simp
  have gp: "pq_le t (q ! ((i - 1) div 2)) (q ! k)" if "k < length q" "0 < k" "0 < i" "(k - 1) div 2 = i" for k
    using dn that unfolding heap_but_down_def by simp
  let ?r = "q[i := q ! c, c := q ! i]"
  have other: "?r ! m = q ! m" if "m \<noteq> i" "m \<noteq> c" for m using that by simp
  have ri: "?r ! i = q ! c" and rc: "?r ! c = q ! i" using ic c by simp_all
  have A: "pq_le t (?r ! ((k - 1) div 2)) (?r ! k)" if k: "k < length q" "0 < k" "(k - 1) div 2 \<noteq> c" for k
  proof (cases "(k - 1) div 2 = i")
    case True
    have "k \<noteq> i" using True k(2) by auto
    show ?thesis
    proof (cases "k = c")
      case True
      then show ?thesis using le rc ri c(2) by simp
    next
      case False
      then have "?r ! k = q ! k" using other \<open>k \<noteq> i\<close> by blast
      then show ?thesis using least [OF k(1,2) True] ri True by simp
    qed
  next
    case pi: False
    have kc: "k \<noteq> c" using pi c(2) by blast
    show ?thesis
    proof (cases "k = i")
      case True
      then show ?thesis using gp [OF c(3,1) _ c(2)] k ri other [OF pi k(3)] by simp
    next
      case False
      then show ?thesis using par [OF k(1,2) pi] other [OF pi k(3)] other [OF False kc] by simp
    qed
  qed
  have B: "pq_le t (?r ! ((c - 1) div 2)) (?r ! k)" if k: "k < length q" "0 < k" "(k - 1) div 2 = c" for k
  proof -
    have "k \<noteq> i" "k \<noteq> c" "(k - 1) div 2 \<noteq> i" using k ic by auto
    then show ?thesis using par [OF k(1,2)] other [of k] ri c(2) k(3) by simp
  qed
  show ?thesis unfolding heap_but_down_def length_list_update using A B by blast
qed

text \<open>The child the loop looks at: the left one when it is not larger than the right one.\<close>

definition pq_child :: "prioq_type \<Rightarrow> prioq_elt list \<Rightarrow> nat \<Rightarrow> nat" where
  "pq_child ty p i = (if pq_le ty (p ! (i + i + 1)) (p ! (i + i + 2)) then i + i + 1 else i + i + 2)"

lemma pq_child_least:
  "pq_ord ty \<Longrightarrow> pq_le ty (p ! pq_child ty p i) (p ! (i + i + 1)) \<and> pq_le ty (p ! pq_child ty p i) (p ! (i + i + 2))"
  using pq_le_total [of ty "p ! (i + i + 1)" "p ! (i + i + 2)"] by (auto simp: pq_child_def)

lemma prioq_down_end: "n < i + i + 2 \<Longrightarrow> prioq_down ty p i n = (p, i)"
  by (subst prioq_down.simps) simp

lemma prioq_down_stop:
  "pq_ord ty \<Longrightarrow> i + i + 2 \<le> n \<Longrightarrow> pq_le ty (p ! n) (p ! pq_child ty p i) \<Longrightarrow> prioq_down ty p i n = (p, i)"
  by (subst prioq_down.simps) (auto simp: pq_le_def pq_ord_def pq_child_def Let_def split: if_splits)

lemma prioq_down_move:
  "pq_ord ty \<Longrightarrow> i + i + 2 \<le> n \<Longrightarrow> \<not> pq_le ty (p ! n) (p ! pq_child ty p i) \<Longrightarrow>
   prioq_down ty p i n = prioq_down ty (p[i := p ! pq_child ty p i]) (pq_child ty p i) n"
  by (subst prioq_down.simps) (auto simp: pq_le_def pq_ord_def pq_child_def Let_def split: if_splits)

text \<open>What the loop has placed so far: the first \<open>n\<close> cells with the last element in the hole.\<close>

definition pq_view :: "prioq_elt list \<Rightarrow> nat \<Rightarrow> nat \<Rightarrow> prioq_elt list" where
  "pq_view p i n = take n (p[i := p ! n])"

lemma pq_view_length: "n < length p \<Longrightarrow> length (pq_view p i n) = n"
  by (simp add: pq_view_def)

lemma pq_view_nth: "n < length p \<Longrightarrow> k < n \<Longrightarrow> pq_view p i n ! k = (if k = i then p ! n else p ! k)"
  by (simp add: pq_view_def)

lemma pq_view_move:
  assumes "n < length p" "i < n" "c < n" "i \<noteq> c"
  shows "pq_view (p[i := p ! c]) c n = (pq_view p i n)[i := pq_view p i n ! c, c := pq_view p i n ! i]"
  by (rule nth_equalityI) (use assms in \<open>auto simp: pq_view_length pq_view_nth nth_list_update\<close>)

lemma mset_swap2:
  "i < length q \<Longrightarrow> c < length q \<Longrightarrow> mset (q[i := q ! c, c := q ! i]) = mset q"
  by (rule mset_swap)

lemma prioq_down_correct:
  assumes "pq_ord ty"
  shows "i < n \<or> n = 0 \<Longrightarrow> n < length p \<Longrightarrow> heap_but_down ty (pq_view p i n) i \<Longrightarrow>
    prioq_down ty p i n = (p', i') \<Longrightarrow>
    pq_heap ty (pq_view p' i' n) \<and> mset (pq_view p' i' n) = mset (pq_view p i n)"
proof (induction "n - i" arbitrary: p i rule: less_induct)
  case less
  let ?c = "pq_child ty p i"
  note len = pq_view_length [OF less.prems(2)] and nth = pq_view_nth [OF less.prems(2)]
  show ?case
  proof (cases "n < i + i + 2")
    case True
    then have "pq_heap ty (pq_view p i n)"
      by (intro heap_but_down_done [OF less.prems(3)]) (use len child_cases in \<open>auto\<close>)
    then show ?thesis using less.prems(4) prioq_down_end [OF True] by simp
  next
    case le: False
    then have i: "i < n" "i + i + 2 \<le> n" using less.prems(1) by auto
    have kids: "k = i + i + 1 \<or> k = i + i + 2" if "0 < k" "(k - 1) div 2 = i" for k
      using child_cases [OF that(1)] that(2) by blast
    note child = pq_child_least [OF assms, of p i]
    show ?thesis
    proof (cases "pq_le ty (p ! n) (p ! ?c)")
      case True
      have "pq_heap ty (pq_view p i n)"
      proof (rule heap_but_down_done [OF less.prems(3)])
        fix k assume k: "k < length (pq_view p i n)" "0 < k" "(k - 1) div 2 = i"
        have "pq_le ty (p ! n) (p ! k)" using kids [OF k(2,3)] child True pq_le_trans by blast
        then show "pq_le ty (pq_view p i n ! i) (pq_view p i n ! k)" using k i len nth by auto
      qed
      then show ?thesis using less.prems(4) prioq_down_stop [OF assms i(2) True] by simp
    next
      case False
      then have cn: "?c \<noteq> n" using assms by auto
      then have c: "?c < n" "i < ?c" "0 < ?c" "(?c - 1) div 2 = i" using i by (auto simp: pq_child_def)
      have vi: "pq_view p i n ! i = p ! n" "pq_view p i n ! ?c = p ! ?c" using i c nth by auto
      have "heap_but_down ty ((pq_view p i n)[i := pq_view p i n ! ?c, ?c := pq_view p i n ! i]) ?c"
      proof (rule heap_but_down_step [OF less.prems(3) c(3,4)])
        fix k assume k: "k < length (pq_view p i n)" "0 < k" "(k - 1) div 2 = i"
        then have "pq_view p i n ! k = p ! k" using len nth by auto
        then show "pq_le ty (pq_view p i n ! ?c) (pq_view p i n ! k)" using kids [OF k(2,3)] child vi by auto
      qed (use c len assms False vi in simp_all)
      then have dn: "heap_but_down ty (pq_view (p[i := p ! ?c]) ?c n) ?c"
        using pq_view_move [OF less.prems(2) i(1) c(1)] c(2) by simp
      have "pq_heap ty (pq_view p' i' n) \<and> mset (pq_view p' i' n) = mset (pq_view (p[i := p ! ?c]) ?c n)"
        by (rule less.hyps [OF _ _ _ dn]) (use c i less.prems prioq_down_move [OF assms i(2) False] in auto)
      moreover have "mset (pq_view (p[i := p ! ?c]) ?c n) = mset (pq_view p i n)"
        using pq_view_move [OF less.prems(2) i(1) c(1)] c i len by (simp add: mset_swap2)
      ultimately show ?thesis by simp
    qed
  qed
qed


section \<open>The contract\<close>

text \<open>
  Taking elements out one by one, as the comment of \<^verbatim>\<open>prioq_insert\<close> suggests
  (\<^verbatim>\<open>while (prioq_get(&pq, &pe)) { prioq_del(&pq); ... }\<close>), at most \<open>n\<close> times.
\<close>

primrec pq_drain :: "(prioq_elt list \<Rightarrow> prioq_elt list) \<Rightarrow> nat \<Rightarrow> prioq_elt list \<Rightarrow> prioq_elt list" where
  "pq_drain del 0 q = []"
| "pq_drain del (Suc n) q =
     (case prioq_get q of None \<Rightarrow> [] | Some pe \<Rightarrow> pe # pq_drain del n (del q))"

lemma prioq_get_simps [simp]: "prioq_get [] = None" "q \<noteq> [] \<Longrightarrow> prioq_get q = Some (q ! 0)"
  by (auto simp: prioq_get_def)

text \<open>
  What a client of the queue relies on: a queue is a multiset of elements under an order;
  \<open>get\<close> shows a least element and \<open>del\<close> removes exactly that one.
\<close>

locale prioq_ops =
  fixes le :: "prioq_elt \<Rightarrow> prioq_elt \<Rightarrow> bool"
    and ins :: "prioq_elt \<Rightarrow> prioq_elt list \<Rightarrow> prioq_elt list"
    and del :: "prioq_elt list \<Rightarrow> prioq_elt list"
    and inv :: "prioq_elt list \<Rightarrow> bool"
  assumes inv_empty: "inv []"
    and inv_ins: "inv q \<Longrightarrow> inv (ins e q)"
    and mset_ins: "mset (ins e q) = add_mset e (mset q)"
    and inv_del: "inv q \<Longrightarrow> inv (del q)"
    and mset_del: "inv q \<Longrightarrow> mset (del q) = mset q - {#q ! 0#}"
    and get_least: "inv q \<Longrightarrow> e \<in> set q \<Longrightarrow> le (q ! 0) e"
begin

lemma set_ins: "set (ins e q) = insert e (set q)"
  by (metis mset_ins set_mset_add_mset_insert set_mset_mset)

lemma length_ins: "length (ins e q) = Suc (length q)"
  by (metis mset_ins size_add_mset size_mset)

lemma length_del: "inv q \<Longrightarrow> q \<noteq> [] \<Longrightarrow> length (del q) = length q - 1"
  by (metis length_greater_0_conv mset_del nth_mem set_mset_mset size_Diff_singleton size_mset)

lemma set_del: "inv q \<Longrightarrow> set q \<subseteq> insert (q ! 0) (set (del q))"
  by (metis (no_types, lifting) add_mset_diff_bothsides diff_single_eq_union insert_iff mset_del
      set_mset_add_mset_insert set_mset_mset subsetI diff_single_trivial)

lemma set_del_subset: "inv q \<Longrightarrow> set (del q) \<subseteq> set q"
  by (metis in_diffD mset_del set_mset_mset subsetI)

lemma mset_drain: "inv q \<Longrightarrow> length q \<le> n \<Longrightarrow> mset (pq_drain del n q) = mset q"
proof (induction n arbitrary: q)
  case 0
  then show ?case by simp
next
  case (Suc n)
  show ?case
  proof (cases "q = []")
    case True
    then show ?thesis by simp
  next
    case False
    then have "length (del q) \<le> n" using Suc.prems length_del by simp
    then have "mset (pq_drain del n (del q)) = mset q - {#q ! 0#}"
      using Suc inv_del mset_del by simp
    then show ?thesis using False by simp
  qed
qed

lemma drain_sorted: "inv q \<Longrightarrow> length q \<le> n \<Longrightarrow> sorted_wrt le (pq_drain del n q)"
proof (induction n arbitrary: q)
  case 0
  then show ?case by simp
next
  case (Suc n)
  show ?case
  proof (cases "q = []")
    case True
    then show ?thesis by simp
  next
    case False
    then have l: "length (del q) \<le> n" using Suc.prems length_del by simp
    have "set (pq_drain del n (del q)) \<subseteq> set q"
      using mset_drain [OF inv_del [OF Suc.prems(1)] l] set_del_subset [OF Suc.prems(1)]
      by (metis set_mset_mset)
    then show ?thesis
      using False Suc.IH [OF inv_del [OF Suc.prems(1)] l] get_least [OF Suc.prems(1)] by auto
  qed
qed

end

text \<open>The two operations as the callers use them: \<open>nomem()\<close> loops until the insert succeeds.\<close>

definition pq_ins :: "prioq_type \<Rightarrow> prioq_elt \<Rightarrow> prioq_elt list \<Rightarrow> prioq_elt list" where
  "pq_ins t e q = snd (snd (prioq_insert True t t q e))"

lemma pq_ins_eq: "pq_ord t \<Longrightarrow> pq_ins t e q = prioq_up t (q @ [e]) (length q) e"
  by (auto simp: pq_ins_def prioq_insert_def pq_ord_def)

lemma prioq_insert_min: "prioq_insert True ty Pmin q e = (1, Pmin, pq_ins Pmin e q)"
  by (simp add: pq_ins_def prioq_insert_def)

lemma pq_heap_least: "pq_ord t \<Longrightarrow> pq_heap t q \<Longrightarrow> k < length q \<Longrightarrow> pq_le t (q ! 0) (q ! k)"
proof (induction k rule: less_induct)
  case (less k)
  show ?case
  proof (cases "k = 0")
    case True
    then show ?thesis using less by simp
  next
    case False
    then have i: "(k - 1) div 2 < k" by auto
    then have "pq_le t (q ! 0) (q ! ((k - 1) div 2))" using less by simp
    moreover have "pq_le t (q ! ((k - 1) div 2)) (q ! k)"
      using less.prems False unfolding pq_heap_def by blast
    ultimately show ?thesis by (rule pq_le_trans)
  qed
qed

lemma pq_ins_heap:
  assumes "pq_ord t" "pq_heap t q"
  shows "pq_heap t (pq_ins t e q)"
proof -
  have "heap_but_up t ((q @ [e])[length q := e]) (length q)"
    using assms(2) by (auto simp: heap_but_up_def pq_heap_def nth_append)
  then show ?thesis using prioq_up_heap [OF assms(1)] pq_ins_eq [OF assms(1)] by simp
qed

lemma pq_del_props:
  assumes "pq_ord t" "pq_heap t q" "q \<noteq> []"
  shows "pq_heap t (prioq_del t q) \<and> mset (prioq_del t q) = mset q - {#q ! 0#}"
proof -
  let ?n = "length q - 1"
  obtain p' i' where eq: "prioq_down t q 0 ?n = (p', i')" by force
  have n: "?n < length q" using assms(3) by simp
  have del: "prioq_del t q = pq_view p' i' ?n"
    using assms eq by (auto simp: prioq_del_def pq_view_def pq_ord_def Let_def)
  have "heap_but_down t (pq_view q 0 ?n) 0"
    using assms(2) pq_view_length [OF n] pq_view_nth [OF n]
    by (auto simp: heap_but_down_def pq_heap_def)
  moreover have "0 < ?n \<or> ?n = 0" by blast
  ultimately have "pq_heap t (pq_view p' i' ?n) \<and> mset (pq_view p' i' ?n) = mset (pq_view q 0 ?n)"
    using prioq_down_correct [OF assms(1) _ n _ eq] by blast
  moreover have "mset (pq_view q 0 ?n) = mset q - {#q ! 0#}"
  proof -
    let ?r = "q[0 := q ! ?n]"
    have "take ?n ?r @ [?r ! ?n] = ?r" using n by (simp flip: take_Suc_conv_app_nth)
    moreover have "?r ! ?n = q ! ?n" by (cases "?n = 0") (use n in auto)
    ultimately have "add_mset (q ! ?n) (mset (take ?n ?r)) = mset ?r" by (metis mset.simps mset_append union_mset_add_mset_right add.right_neutral)
    also have "\<dots> = add_mset (q ! ?n) (mset q - {#q ! 0#})" using assms(3) by (simp add: mset_update)
    finally show ?thesis by (simp add: pq_view_def)
  qed
  ultimately show ?thesis by (simp add: del)
qed

lemma pq_ops_ord:
  assumes "pq_ord t"
  shows "prioq_ops (pq_le t) (pq_ins t) (prioq_del t) (pq_heap t)"
proof unfold_locales
  fix q :: "prioq_elt list" and e
  show "pq_heap t []" by (simp add: pq_heap_def)
  show "mset (pq_ins t e q) = add_mset e (mset q)"
    using assms by (simp add: pq_ins_eq prioq_up_mset)
  assume q: "pq_heap t q"
  show "pq_heap t (pq_ins t e q)" by (rule pq_ins_heap [OF assms q])
  show "pq_heap t (prioq_del t q)"
    by (cases "q = []") (use pq_del_props [OF assms q] q in \<open>auto simp: prioq_del_def\<close>)
  show "mset (prioq_del t q) = mset q - {#q ! 0#}"
    by (cases "q = []") (use pq_del_props [OF assms q] in \<open>auto simp: prioq_del_def\<close>)
  show "pq_le t (q ! 0) e" if "e \<in> set q"
    using that pq_heap_least [OF assms q] by (auto simp: in_set_conv_nth)
qed

interpretation pmin: prioq_ops "pq_le Pmin" "pq_ins Pmin" "prioq_del Pmin" "pq_heap Pmin"
  by (rule pq_ops_ord) (simp add: pq_ord_def)

interpretation pmax: prioq_ops "pq_le Pmax" "pq_ins Pmax" "prioq_del Pmax" "pq_heap Pmax"
  by (rule pq_ops_ord) (simp add: pq_ord_def)

end
