(* ===== verification/SendState.thy ===== *)
theory SendState
  imports Prioq
begin

text \<open>
  The state of the queue manager \<^verbatim>\<open>indimail-mta-x/qmail-send.c\<close> and the operating system it runs
  on. The file system is a partial map from the names the queue uses to files. A system call
  takes one step of the world's clock; the world decides, by an arbitrary schedule
  (\<open>w_fault\<close>), which calls fail with an error other than \<open>ENOENT\<close>, what time it is
  (\<open>w_time\<close>), what the other processes answer (\<open>w_answer\<close>, \<open>w_read\<close>) and what the rate limiter says
  (\<open>w_rate\<close>). Everything is proved for every such schedule. The destructive calls leave a trace
  entry (\<open>w_trace\<close>, newest first).
\<close>

section \<open>The world\<close>

text \<open>
  Queue file names (\<^verbatim>\<open>fnmake_info\<close>, \<^verbatim>\<open>fnmake_todo\<close>, \<^verbatim>\<open>fnmake_mess\<close>, \<^verbatim>\<open>fnmake_bounce\<close>,
  \<^verbatim>\<open>fnmake_chanaddr\<close>): directory and message number. Channel 0 is \<^verbatim>\<open>local/\<close>, 1 is
  \<^verbatim>\<open>remote/\<close>. Theory \<open>QueueNames\<close> shows that distinct names are distinct paths.
\<close>

datatype fname = FInfo nat | FTodo nat | FMess nat | FBounce nat | FChan nat nat

record qfile =
  f_data :: bytes
  f_mtime :: int
  f_atime :: int

datatype errno = ENOENT | EIO

datatype sysev =
    SUnlink fname bytes          \<comment> \<open>a file was removed; its contents at that time\<close>
  | SMark nat nat nat            \<comment> \<open>channel, message, offset: the record was marked done\<close>
  | SBounceAppend nat bytes      \<comment> \<open>bytes appended to \<^verbatim>\<open>bounce/id\<close>\<close>
  | SClean nat bool bool         \<comment> \<open>\<^verbatim>\<open>foop\<close> request for a message; were info/todo there\<close>
  | SInject bytes bytes          \<comment> \<open>bounce sent: envelope sender and recipient\<close>

record world =
  w_files :: "fname \<Rightarrow> qfile option"
  w_tick :: nat
  w_fault :: "nat \<Rightarrow> bool"
  w_time :: "nat \<Rightarrow> int"
  w_answer :: "nat \<Rightarrow> nat"
  w_rate :: "nat \<Rightarrow> int \<times> int \<times> bool"
  w_read :: "nat \<Rightarrow> bytes"
  w_trace :: "sysev list"

section \<open>Jobs, deliveries, passes\<close>

text \<open>\<^verbatim>\<open>struct job\<close>; \<^verbatim>\<open>refs\<close> 0 means unused.\<close>

record job =
  j_id :: nat
  j_refs :: int
  j_channel :: nat
  j_numtodo :: int
  j_hiteof :: bool
  j_dying :: bool
  j_retry :: int
  j_sender :: bytes
  j_qqeh :: bytes
  j_envh :: bytes

text \<open>\<^verbatim>\<open>struct DEL\<close>: one slot per concurrent delivery of a channel.\<close>

record delv =
  d_used :: bool
  d_j :: nat
  d_delid :: nat
  d_mpos :: nat
  d_recip :: bytes

text \<open>
  \<^verbatim>\<open>pass[c]\<close>: the message whose recipients are being read; \<open>ps_id\<close> 0 means a new pass is
  needed. The open descriptor with its buffer is the list of the bytes not yet read, taken when the list is opened. The
  code fills its buffer piece by piece; until a record is read its bytes are the same, because a job marks only records
  that it has read, and other programs leave the list of an open job alone.
\<close>

record passr =
  ps_id :: nat
  ps_j :: nat
  ps_mpos :: nat
  ps_rest :: bytes

text \<open>What goes to the log.\<close>

datatype logev =
    LStart nat nat nat bytes      \<comment> \<open>starting delivery: delid, message, channel, recipient\<close>
  | LSuccess nat bytes
  | LDeferral nat bytes
  | LFailure nat bytes
  | LMangled nat
  | LRange nat                    \<comment> \<open>delivery report out of range, on a channel\<close>
  | LNoStat fname
  | LNoUnlink fname
  | LNoOpen fname
  | LNoRead fname
  | LNoUtime fname
  | LUnknownRecord fname
  | LTwice fname                  \<comment> \<open>trouble marking; message will be delivered twice\<close>
  | LNoRate bytes
  | LDialect
  | LTodo bytes
  | LBounceMsg nat
  | LTripleBounce fname
  | LDoubleBounce fname
  | LDeleteBounce fname
  | LInjectTrouble
  | LEndMsg nat
  | LNoClean fname
  | LAlert bytes

text \<open>The static variables of \<^verbatim>\<open>qmail-send.c\<close>, in the order of the file.\<close>

record qsend =
  sw :: world
  conf_split :: nat               \<comment> \<open>\<^verbatim>\<open>fmtqfn.c\<close>\<close>
  lifetime :: int
  bouncelifetime :: int
  mapvdoms :: "bytes \<Rightarrow> bytes option"
  doublebounceto :: bytes
  srs_domain :: bytes
  srsreverse :: "bytes \<Rightarrow> int \<times> bytes"
  do_ratelimit :: bool
  delayed_jobs :: nat
  flagexitsend :: bool
  flagrunasap :: bool
  flagreadasap :: bool
  flagdetached :: nat
  flagtodoalive :: bool
  todoline :: bytes
  todo_out :: bytes               \<comment> \<open>bytes written to todo-proc\<close>
  flagspawnalive :: "nat \<Rightarrow> bool"
  recent :: int
  time_needed :: int
  comm_buf :: "nat \<Rightarrow> bytes"
  comm_pos :: "nat \<Rightarrow> nat"
  comm_out :: "nat \<Rightarrow> bytes"       \<comment> \<open>bytes written to the spawn process of a channel\<close>
  flagcleanup :: bool
  cleanuptime :: int
  pqchan :: "nat \<Rightarrow> prioq_elt list"
  pqdone :: "prioq_elt list"
  pqfail :: "prioq_elt list"
  jo :: "job list"
  orig_recip :: bytes
  masterdelid :: nat
  concurrency :: "nat \<Rightarrow> nat"
  concurrencyused :: "nat \<Rightarrow> nat"
  holdjobs :: "nat \<Rightarrow> bool"
  del :: "nat \<Rightarrow> delv list"
  dline :: "nat \<Rightarrow> bytes"
  pass :: "nat \<Rightarrow> passr"
  logs :: "logev list"
  ub :: bool                      \<comment> \<open>an array was accessed outside its bounds\<close>

abbreviation files :: "qsend \<Rightarrow> fname \<Rightarrow> qfile option" where
  "files s \<equiv> w_files (sw s)"

definition slog :: "logev \<Rightarrow> qsend \<Rightarrow> qsend" where
  "slog e s = s\<lparr>logs := e # logs s\<rparr>"

text \<open>\<^verbatim>\<open>CHANNELS\<close> is 2; the retry skips; the sleeps.\<close>

abbreviation chans :: "nat list" where "chans \<equiv> [0, 1]"

definition chanskip :: "nat \<Rightarrow> int" where
  "chanskip c = (if c = 0 then 10 else 20)"

definition SLEEP_SYSFAIL :: int where "SLEEP_SYSFAIL = 123"
definition SLEEP_CLEANUP :: int where "SLEEP_CLEANUP = 76431"
definition SLEEP_FOREVER :: int where "SLEEP_FOREVER = 86400"
definition SLEEP_FUZZ :: int where "SLEEP_FUZZ = 1"
definition REPORTMAX :: nat where "REPORTMAX = 10000"

section \<open>System calls\<close>

text \<open>The world moves on by one tick per call; \<open>w_upd\<close> is the only place that does so.\<close>

definition tickw :: "qsend \<Rightarrow> qsend" where
  "tickw s = s\<lparr>sw := (sw s)\<lparr>w_tick := Suc (w_tick (sw s))\<rparr>\<rparr>"

definition faulty :: "qsend \<Rightarrow> bool" where
  "faulty s = w_fault (sw s) (w_tick (sw s))"

definition answer :: "qsend \<Rightarrow> nat" where
  "answer s = w_answer (sw s) (w_tick (sw s))"

definition put_file :: "fname \<Rightarrow> qfile option \<Rightarrow> qsend \<Rightarrow> qsend" where
  "put_file f x s = s\<lparr>sw := (sw s)\<lparr>w_files := (w_files (sw s))(f := x)\<rparr>\<rparr>"

definition trace :: "sysev \<Rightarrow> qsend \<Rightarrow> qsend" where
  "trace e s = s\<lparr>sw := (sw s)\<lparr>w_trace := e # w_trace (sw s)\<rparr>\<rparr>"

text \<open>\<^verbatim>\<open>now()\<close>\<close>

definition now :: "qsend \<Rightarrow> int \<times> qsend" where
  "now s = (w_time (sw s) (w_tick (sw s)), tickw s)"

text \<open>\<^verbatim>\<open>stat\<close>, \<^verbatim>\<open>open_read\<close>, \<^verbatim>\<open>open_write\<close> (which does not create): the file or the error.\<close>

definition lookup_file :: "fname \<Rightarrow> qsend \<Rightarrow> errno + qfile" where
  "lookup_file f s =
     (if faulty s then Inl EIO else case files s f of None \<Rightarrow> Inl ENOENT | Some x \<Rightarrow> Inr x)"

definition sys_stat :: "fname \<Rightarrow> qsend \<Rightarrow> (errno + qfile) \<times> qsend" where
  "sys_stat f s = (lookup_file f s, tickw s)"

text \<open>
  \<^verbatim>\<open>unlink\<close> is that of \<^verbatim>\<open>syncdir.c\<close>: when the directory cannot be synced it fails although the file is gone.
\<close>

definition sys_unlink :: "fname \<Rightarrow> qsend \<Rightarrow> errno option \<times> qsend" where
  "sys_unlink f s =
     (case lookup_file f s of
        Inl e \<Rightarrow> (Some e, tickw s)
      | Inr x \<Rightarrow>
          (if answer s = 0 then None else Some EIO, put_file f None (trace (SUnlink f (f_data x)) (tickw s))))"

text \<open>A call that only succeeds or fails (\<^verbatim>\<open>fstat\<close>, \<^verbatim>\<open>lseek\<close>, a read of the next buffer).\<close>

definition sys_ok :: "qsend \<Rightarrow> bool \<times> qsend" where
  "sys_ok s = (\<not> faulty s, tickw s)"

end
