(* ===== verification/SendJobs.thy ===== *)
theory SendJobs
  imports SendState
begin

text \<open>
  Priority queues and jobs of \<^verbatim>\<open>qmail-send.c\<close> (sections INFO, PRIORITY QUEUES, JOBS): putting a
  message into the queue of each of its channels, saving and restoring the schedule across a
  restart, and opening and closing a job. \<^verbatim>\<open>prioq_insert\<close> is always called with \<^verbatim>\<open>min\<close> and its
  callers loop on \<^verbatim>\<open>nomem()\<close>, so it is \<open>pq_ins Pmin\<close>. A \<^verbatim>\<open>struct prioq_elt\<close> on the stack whose
  \<^verbatim>\<open>delayed\<close> member is not set holds whatever the stack held: \<open>junk\<close>.
\<close>

definition junk :: "qsend \<Rightarrow> bool" where
  "junk s = odd (answer s)"

definition insert_chan :: "nat \<Rightarrow> prioq_elt \<Rightarrow> qsend \<Rightarrow> qsend" where
  "insert_chan c e s = s\<lparr>pqchan := (pqchan s)(c := pq_ins Pmin e (pqchan s c))\<rparr>"

definition insert_done :: "prioq_elt \<Rightarrow> qsend \<Rightarrow> qsend" where
  "insert_done e s = s\<lparr>pqdone := pq_ins Pmin e (pqdone s)\<rparr>"

definition insert_fail :: "prioq_elt \<Rightarrow> qsend \<Rightarrow> qsend" where
  "insert_fail e s = s\<lparr>pqfail := pq_ins Pmin e (pqfail s)\<rparr>"

section \<open>getinfo\<close>

text \<open>
  The loop of \<^verbatim>\<open>getinfo\<close> over the NUL-terminated lines of \<^verbatim>\<open>info/id\<close>; each \<^verbatim>\<open>getln\<close> may fail.
  The result is sender, \<^verbatim>\<open>qqeh\<close> and \<^verbatim>\<open>envh\<close>.
\<close>

function getinfo_lines ::
  "bytes \<Rightarrow> bytes \<times> bytes \<times> bytes \<Rightarrow> qsend \<Rightarrow> (bytes \<times> bytes \<times> bytes) option \<times> qsend" where
  "getinfo_lines rest (sa, qh, eh) s =
     (let (ok, s1) = sys_ok s in
      if \<not> ok then (None, s1)
      else case read_record rest of
          None \<Rightarrow> (Some (sa, qh, eh), s1)
        | Some (line, rest') \<Rightarrow>
            (case line of
               [] \<Rightarrow> getinfo_lines rest' (sa, qh, eh) s1
             | t # arg \<Rightarrow>
                 getinfo_lines rest'
                   (if t = CHR ''F'' then arg else sa,
                    if t = CHR ''e'' then arg else qh,
                    if t = CHR ''h'' then arg else eh) s1))"
  by pat_completeness auto
termination
  by (relation "measure (\<lambda>(rest, a, s). length rest)") (auto dest: read_record_length)

declare getinfo_lines.simps [simp del]

definition getinfo :: "nat \<Rightarrow> qsend \<Rightarrow> (bytes \<times> bytes \<times> bytes \<times> int) option \<times> qsend" where
  "getinfo i s =
     (case sys_stat (FInfo i) s of
        (Inl _, s1) \<Rightarrow> (None, s1)
      | (Inr st, s1) \<Rightarrow>
          (let (ok, s2) = sys_ok s1 in
           if \<not> ok then (None, s2)
           else case getinfo_lines (f_data st) ([], [], []) s2 of
               (None, s3) \<Rightarrow> (None, s3)
             | (Some (sa, qh, eh), s3) \<Rightarrow> (Some (sa, qh, eh, f_mtime st), s3)))"

section \<open>pqadd, pqstart, pqfinish, pqrun\<close>

text \<open>
  The loop of \<^verbatim>\<open>pqadd\<close> that looks at \<^verbatim>\<open>local/id\<close> and \<^verbatim>\<open>remote/id\<close>: the elements to insert, or
  the name that could not be examined (\<^verbatim>\<open>goto fail\<close>).
\<close>

fun pqadd_stat :: "nat \<Rightarrow> bool \<Rightarrow> nat list \<Rightarrow> qsend \<Rightarrow> (fname + (nat \<times> prioq_elt) list) \<times> qsend" where
  "pqadd_stat i delayedflag [] s = (Inr [], s)"
| "pqadd_stat i delayedflag (c # cs) s =
     (case sys_stat (FChan c i) s of
        (Inl EIO, s1) \<Rightarrow> (Inl (FChan c i), s1)
      | (Inl ENOENT, s1) \<Rightarrow> pqadd_stat i delayedflag cs s1
      | (Inr st, s1) \<Rightarrow>
          (let s2 = (if recent s1 = 0 then (case now s1 of (t, s') \<Rightarrow> s'\<lparr>recent := t\<rparr>) else s1);
               pe = \<lparr>pe_dt = (if delayedflag then recent s2 else f_mtime st), pe_id = i, pe_delayed = delayedflag\<rparr>
           in case pqadd_stat i delayedflag cs s2 of
                (Inl f, s3) \<Rightarrow> (Inl f, s3)
              | (Inr es, s3) \<Rightarrow> (Inr ((c, pe) # es), s3)))"

definition pqadd_fail :: "nat \<Rightarrow> fname \<Rightarrow> qsend \<Rightarrow> qsend" where
  "pqadd_fail i f s =
     (let s1 = slog (LNoStat f) s; d = junk s1; (t, s2) = now s1 in
      insert_fail \<lparr>pe_dt = t + SLEEP_SYSFAIL, pe_id = i, pe_delayed = d\<rparr> s2)"

definition pqadd :: "nat \<Rightarrow> bool \<Rightarrow> qsend \<Rightarrow> qsend" where
  "pqadd i delayedflag s =
     (case sys_stat (FInfo i) s of
        (Inl EIO, s1) \<Rightarrow> pqadd_fail i (FInfo i) s1
      | (Inl ENOENT, s1) \<Rightarrow> s1
      | (Inr _, s1) \<Rightarrow>
          (case sys_stat (FTodo i) s1 of
             (Inr _, s2) \<Rightarrow> s2
           | (Inl EIO, s2) \<Rightarrow> pqadd_fail i (FTodo i) s2
           | (Inl ENOENT, s2) \<Rightarrow>
               (case pqadd_stat i delayedflag chans s2 of
                  (Inl f, s3) \<Rightarrow> pqadd_fail i f s3
                | (Inr [], s3) \<Rightarrow>
                    (let (t, s4) = now s3 in insert_done \<lparr>pe_dt = t, pe_id = i, pe_delayed = False\<rparr> s4)
                | (Inr es, s3) \<Rightarrow> fold (\<lambda>(c, pe). insert_chan c pe) es s3)))"

definition delayed_job_count :: "qsend \<Rightarrow> nat" where
  "delayed_job_count s = sum_list (map (\<lambda>c. length (filter pe_delayed (pqchan s c))) chans)"

text \<open>
  \<^verbatim>\<open>pqstart\<close>: \<open>entries\<close> is what scanning \<^verbatim>\<open>info/\<close> yields, in that order: a message number, or
  \<open>None\<close> for a name that is no number (\<^verbatim>\<open>readsubdir_next\<close> returns -2).
\<close>

definition pqstart :: "nat option list \<Rightarrow> qsend \<Rightarrow> qsend" where
  "pqstart entries s =
     (let s1 = fold (\<lambda>e s. case e of None \<Rightarrow> s | Some i \<Rightarrow> pqadd i (do_ratelimit s) s) entries s in
      s1\<lparr>delayed_jobs := (if do_ratelimit s1 then delayed_job_count s1 else 0)\<rparr>)"

text \<open>\<^verbatim>\<open>utimes\<close>: both time stamps of the file.\<close>

definition sys_utimes :: "fname \<Rightarrow> int \<Rightarrow> qsend \<Rightarrow> bool \<times> qsend" where
  "sys_utimes f t s =
     (case lookup_file f s of
        Inl _ \<Rightarrow> (False, tickw s)
      | Inr x \<Rightarrow> (True, put_file f (Some (x\<lparr>f_mtime := t, f_atime := t\<rparr>)) (tickw s)))"

text \<open>The loop of \<^verbatim>\<open>pqfinish\<close> for one channel, at most \<open>n\<close> times round.\<close>

fun pqfinish_chan :: "nat \<Rightarrow> nat \<Rightarrow> qsend \<Rightarrow> qsend" where
  "pqfinish_chan 0 c s = s"
| "pqfinish_chan (Suc n) c s =
     (case prioq_get (pqchan s c) of
        None \<Rightarrow> s
      | Some pe \<Rightarrow>
          (let s1 = s\<lparr>pqchan := (pqchan s)(c := prioq_del Pmin (pqchan s c))\<rparr>;
               (ok, s2) = sys_utimes (FChan c (pe_id pe)) (pe_dt pe) s1
           in pqfinish_chan n c (if ok then s2 else slog (LNoUtime (FChan c (pe_id pe))) s2)))"

definition pqfinish :: "qsend \<Rightarrow> qsend" where
  "pqfinish s = fold (\<lambda>c s. pqfinish_chan (length (pqchan s c)) c s) chans s"

definition pqrun :: "qsend \<Rightarrow> qsend" where
  "pqrun s = s\<lparr>pqchan := (\<lambda>c. if c \<in> set chans then map (\<lambda>pe. pe\<lparr>pe_dt := recent s\<rparr>) (pqchan s c) else pqchan s c)\<rparr>"

section \<open>Jobs\<close>

definition upd_job :: "nat \<Rightarrow> (job \<Rightarrow> job) \<Rightarrow> qsend \<Rightarrow> qsend" where
  "upd_job j f s = s\<lparr>jo := (jo s)[j := f (jo s ! j)]\<rparr>"

definition job_avail :: "qsend \<Rightarrow> nat option" where
  "job_avail s = find (\<lambda>j. j_refs (jo s ! j) = 0) [0..<length (jo s)]"

definition job_open :: "nat \<Rightarrow> nat \<Rightarrow> nat \<Rightarrow> qsend \<Rightarrow> qsend" where
  "job_open i c j =
     upd_job j (\<lambda>r. r\<lparr>j_refs := 1, j_id := i, j_channel := c, j_numtodo := 0, j_hiteof := False\<rparr>)"

text \<open>
  The part of \<^verbatim>\<open>job_close\<close> after a successful \<^verbatim>\<open>unlink\<close>: look at the other channels, stop at the
  first that still has its file (\<open>True\<close>: more channels going).
\<close>

fun other_chans :: "nat \<Rightarrow> nat \<Rightarrow> nat list \<Rightarrow> qsend \<Rightarrow> bool \<times> qsend" where
  "other_chans i ch [] s = (False, s)"
| "other_chans i ch (c # cs) s =
     (if c = ch then other_chans i ch cs s
      else case sys_stat (FChan c i) s of
          (Inr _, s1) \<Rightarrow> (True, s1)
        | (Inl ENOENT, s1) \<Rightarrow> other_chans i ch cs s1
        | (Inl EIO, s1) \<Rightarrow> (False, slog (LNoStat (FChan c i)) s1))"

definition requeue :: "nat \<Rightarrow> int \<Rightarrow> qsend \<Rightarrow> qsend" where
  "requeue j t s =
     insert_chan (j_channel (jo s ! j))
       \<lparr>pe_dt = t, pe_id = j_id (jo s ! j), pe_delayed = do_ratelimit s\<rparr> s"

definition job_close :: "nat \<Rightarrow> qsend \<Rightarrow> qsend" where
  "job_close j s =
     (let s1 = upd_job j (\<lambda>r. r\<lparr>j_refs := j_refs r - 1\<rparr>) s; r = jo s1 ! j in
      if 0 < j_refs r then s1
      else if j_hiteof r \<and> j_numtodo r = 0 then
        (case sys_unlink (FChan (j_channel r) (j_id r)) s1 of
           (Some _, s2) \<Rightarrow>
             (let (t, s3) = now (slog (LNoUnlink (FChan (j_channel r) (j_id r))) s2)
              in requeue j (t + SLEEP_SYSFAIL) s3)
         | (None, s2) \<Rightarrow>
             (case other_chans (j_id r) (j_channel r) chans s2 of
                (True, s3) \<Rightarrow> s3
              | (False, s3) \<Rightarrow>
                  (let d = junk s3; (t, s4) = now s3
                   in insert_done \<lparr>pe_dt = t, pe_id = j_id r, pe_delayed = d\<rparr> s4)))
      else requeue j (j_retry r) s1)"

end
