(* ===== verification/LibQmail.thy ===== *)
theory LibQmail
  imports MtaPrelude
begin

text \<open>
  The functions of the external library \<^verbatim>\<open>libqmail\<close> that the modelled programs call and whose
  sources are not in the repository. They are parameters of the model, collected in the record
  \<open>libq\<close> that the definitions take as their first argument; what the code relies on is the
  documented behaviour stated by the locale \<open>libqmail\<close>. The concrete functions at the end
  satisfy it and serve the examples.
\<close>

record libq =
  lq_rchr :: "bytes \<Rightarrow> char \<Rightarrow> nat"                 \<comment> \<open>\<^verbatim>\<open>str_rchr\<close>, \<^verbatim>\<open>byte_rchr\<close>\<close>
  lq_chr :: "bytes \<Rightarrow> char \<Rightarrow> nat"                  \<comment> \<open>\<^verbatim>\<open>str_chr\<close>, \<^verbatim>\<open>byte_chr\<close>\<close>
  lq_fmt_ulong :: "nat \<Rightarrow> bytes"
  lq_scan_ulong :: "bytes \<Rightarrow> nat \<times> nat"            \<comment> \<open>digits read and their value\<close>

definition is_digit :: "char \<Rightarrow> bool" where
  "is_digit c \<longleftrightarrow> 48 \<le> (of_char c :: nat) \<and> (of_char c :: nat) \<le> 57"

text \<open>
  \<^verbatim>\<open>rchr s c\<close> is the position of the last \<open>c\<close> in \<open>s\<close>, or the length of \<open>s\<close>; \<^verbatim>\<open>chr\<close> the first.
  \<^verbatim>\<open>fmt_ulong\<close> writes at least one decimal digit and nothing else, without leading zeros; \<^verbatim>\<open>scan_ulong\<close> reads as many
  digits as there are, and undoes \<^verbatim>\<open>fmt_ulong\<close> when no digit follows.
\<close>

locale libqmail =
  fixes L :: libq
  assumes rchr_none: "c \<notin> set s \<Longrightarrow> lq_rchr L s c = length s"
    and rchr_some: "c \<notin> set t \<Longrightarrow> lq_rchr L (s @ c # t) c = length s"
    and chr_none: "c \<notin> set s \<Longrightarrow> lq_chr L s c = length s"
    and chr_some: "c \<notin> set s \<Longrightarrow> lq_chr L (s @ c # t) c = length s"
    and fmt_ulong_digits: "lq_fmt_ulong L n \<noteq> [] \<and> list_all is_digit (lq_fmt_ulong L n)"
    and fmt_ulong_len: "n < 10 ^ k \<Longrightarrow> 0 < k \<Longrightarrow> length (lq_fmt_ulong L n) \<le> k"
    and scan_ulong_len: "fst (lq_scan_ulong L s) = length (takeWhile is_digit s)"
    and scan_fmt: "(t = [] \<or> \<not> is_digit (hd t)) \<Longrightarrow>
          lq_scan_ulong L (lq_fmt_ulong L n @ t) = (length (lq_fmt_ulong L n), n)"
begin

lemma rchr_le: "lq_rchr L s c \<le> length s"
proof (cases "c \<in> set s")
  case True
  then obtain a t where "s = a @ c # t" "c \<notin> set t" by (metis split_list_last)
  then show ?thesis by (simp add: rchr_some)
qed (simp add: rchr_none)

lemma rchr_found_iff: "lq_rchr L s c < length s \<longleftrightarrow> c \<in> set s"
proof
  assume "c \<in> set s"
  then obtain a t where "s = a @ c # t" "c \<notin> set t" by (metis split_list_last)
  then show "lq_rchr L s c < length s" by (simp add: rchr_some)
qed (use rchr_none in force)

lemma fmt_ulong_inj: "lq_fmt_ulong L m = lq_fmt_ulong L n \<Longrightarrow> m = n"
  using scan_fmt [of "[]" m] scan_fmt [of "[]" n] by simp

lemma fmt_ulong_no_nul: "no_nul (lq_fmt_ulong L n)"
proof -
  have "\<not> is_digit NUL" by (simp add: is_digit_def)
  then show ?thesis using fmt_ulong_digits [of n] by (auto simp: no_nul_def list_all_iff)
qed

lemma scan_fmt_nul: "lq_scan_ulong L (lq_fmt_ulong L n) = (length (lq_fmt_ulong L n), n)"
  using scan_fmt [of "[]" n] by simp

end

section \<open>Concrete functions with the documented behaviour\<close>

definition ref_chr :: "bytes \<Rightarrow> char \<Rightarrow> nat" where
  "ref_chr s c = length (takeWhile (\<lambda>x. x \<noteq> c) s)"

definition ref_rchr :: "bytes \<Rightarrow> char \<Rightarrow> nat" where
  "ref_rchr s c = (if c \<in> set s then length s - 1 - ref_chr (rev s) c else length s)"

fun ref_fmt_ulong :: "nat \<Rightarrow> bytes" where
  "ref_fmt_ulong n = (if n < 10 then [char_of (48 + n)] else ref_fmt_ulong (n div 10) @ [char_of (48 + n mod 10)])"

declare ref_fmt_ulong.simps [simp del]

definition digit_val :: "char \<Rightarrow> nat" where
  "digit_val c = of_char c - 48"

definition ref_scan_ulong :: "bytes \<Rightarrow> nat \<times> nat" where
  "ref_scan_ulong s =
     (let ds = takeWhile is_digit s in (length ds, fold (\<lambda>c v. 10 * v + digit_val c) ds 0))"

definition ref_libq :: libq where
  "ref_libq = \<lparr>lq_rchr = ref_rchr, lq_chr = ref_chr, lq_fmt_ulong = ref_fmt_ulong, lq_scan_ulong = ref_scan_ulong\<rparr>"

lemma ref_fmt_digits: "ref_fmt_ulong n \<noteq> [] \<and> list_all is_digit (ref_fmt_ulong n)"
proof (induction n rule: ref_fmt_ulong.induct)
  case (1 n)
  have "is_digit (char_of (48 + n mod 10))" for n :: nat
    by (simp add: is_digit_def)
  moreover have "n < 10 \<Longrightarrow> is_digit (char_of (48 + n))"
    by (simp add: is_digit_def)
  ultimately show ?case using 1 by (subst (1 2) ref_fmt_ulong.simps) (auto simp del: char_of_nat)
qed

lemma ref_fmt_value: "fold (\<lambda>c v. 10 * v + digit_val c) (ref_fmt_ulong n) 0 = n"
proof (induction n rule: ref_fmt_ulong.induct)
  case (1 n)
  have d: "digit_val (char_of (48 + k)) = k" if "k < 10" for k :: nat
    using that by (simp add: digit_val_def)
  show ?case
  proof (cases "n < 10")
    case True
    then show ?thesis using d by (subst ref_fmt_ulong.simps) simp
  next
    case False
    have "n mod 10 < 10" by simp
    then show ?thesis using 1 False d [of "n mod 10"] by (subst ref_fmt_ulong.simps) simp
  qed
qed

lemma ref_fmt_len: "n < 10 ^ k \<Longrightarrow> 0 < k \<Longrightarrow> length (ref_fmt_ulong n) \<le> k"
proof (induction k arbitrary: n)
  case (Suc k)
  show ?case
  proof (cases "n < 10")
    case True
    then show ?thesis by (subst ref_fmt_ulong.simps) simp
  next
    case False
    then have "0 < k" using Suc.prems by (cases k) auto
    moreover have "n div 10 < 10 ^ k" using Suc.prems(1) by (simp add: less_mult_imp_div_less)
    ultimately have "length (ref_fmt_ulong (n div 10)) \<le> k" using Suc.IH by blast
    then show ?thesis using False by (subst ref_fmt_ulong.simps) simp
  qed
qed simp

interpretation ref: libqmail ref_libq
proof unfold_locales
  have all: "takeWhile (\<lambda>x. x \<noteq> c) u = u" if "c \<notin> set u" for c :: char and u
    using that by (simp add: takeWhile_eq_all_conv) blast
  fix s t :: bytes and c and n :: nat
  show "c \<notin> set s \<Longrightarrow> lq_rchr ref_libq s c = length s"
    by (simp add: ref_libq_def ref_rchr_def)
  show "lq_rchr ref_libq (s @ c # t) c = length s" if "c \<notin> set t"
  proof -
    have "takeWhile (\<lambda>x. x \<noteq> c) (rev t @ c # rev s) = rev t"
      using that by (subst takeWhile_append2) auto
    then show ?thesis by (simp add: ref_libq_def ref_rchr_def ref_chr_def)
  qed
  show "c \<notin> set s \<Longrightarrow> lq_chr ref_libq s c = length s"
    by (simp add: ref_libq_def ref_chr_def all)
  show "c \<notin> set s \<Longrightarrow> lq_chr ref_libq (s @ c # t) c = length s"
    using takeWhile_tail [of "\<lambda>x. x \<noteq> c" c s t] all by (simp add: ref_libq_def ref_chr_def)
  show "lq_fmt_ulong ref_libq n \<noteq> [] \<and> list_all is_digit (lq_fmt_ulong ref_libq n)"
    by (simp add: ref_libq_def ref_fmt_digits)
  show "n < 10 ^ k \<Longrightarrow> 0 < k \<Longrightarrow> length (lq_fmt_ulong ref_libq n) \<le> k" for k
    by (simp add: ref_libq_def ref_fmt_len)
  show "fst (lq_scan_ulong ref_libq s) = length (takeWhile is_digit s)"
    by (simp add: ref_libq_def ref_scan_ulong_def Let_def)
  assume "t = [] \<or> \<not> is_digit (hd t)"
  then have "takeWhile is_digit (ref_fmt_ulong n @ t) = ref_fmt_ulong n"
    using ref_fmt_digits [of n] by (cases t) (auto simp: list_all_iff takeWhile_eq_all_conv takeWhile_tail)
  then show "lq_scan_ulong ref_libq (lq_fmt_ulong ref_libq n @ t) = (length (lq_fmt_ulong ref_libq n), n)"
    by (simp add: ref_libq_def ref_scan_ulong_def ref_fmt_value)
qed

end
