(* ===== verification/QueueNames.thy ===== *)
theory QueueNames
  imports LibQmail SendState
begin

text \<open>
  Paths of the queue files: \<^verbatim>\<open>indimail-mta-x/fmtqfn.c\<close> and the \<^verbatim>\<open>fnmake_*\<close> functions of
  \<^verbatim>\<open>qmail-send.c\<close>. The lemmas justify the structured names of theory \<open>SendState\<close>.
\<close>

text \<open>
  \<^verbatim>\<open>fmtqfn\<close>: the bytes written, with the terminating NUL (the C result is their number). The
  global \<^verbatim>\<open>conf_split\<close> gets its default first.
\<close>

definition fmtqfn :: "libq \<Rightarrow> nat \<Rightarrow> nat \<Rightarrow> bytes \<Rightarrow> nat \<Rightarrow> bool \<Rightarrow> nat \<times> bytes" where
  "fmtqfn L auto_split csplit dirslash i flagsplit =
     (let csplit' = (if csplit = 0 then auto_split else csplit) in
      (csplit',
       dirslash
         @ (if flagsplit then lq_fmt_ulong L (i mod csplit') @ ''/'' else [])
         @ lq_fmt_ulong L i @ [NUL]))"

text \<open>The path of a queue file; \<open>bigtodo\<close> says whether \<^verbatim>\<open>todo/\<close> is split.\<close>

fun fnmake :: "libq \<Rightarrow> nat \<Rightarrow> bool \<Rightarrow> fname \<Rightarrow> bytes" where
  "fnmake L csplit bigtodo (FInfo i) = snd (fmtqfn L csplit csplit ''info/'' i True)"
| "fnmake L csplit bigtodo (FTodo i) = snd (fmtqfn L csplit csplit ''todo/'' i bigtodo)"
| "fnmake L csplit bigtodo (FMess i) = snd (fmtqfn L csplit csplit ''mess/'' i True)"
| "fnmake L csplit bigtodo (FBounce i) = snd (fmtqfn L csplit csplit ''bounce/'' i False)"
| "fnmake L csplit bigtodo (FChan c i) =
     snd (fmtqfn L csplit csplit (if c = 0 then ''local/'' else ''remote/'') i True)"

text \<open>\<^verbatim>\<open>fnmake_split\<close> as the C string that \<^verbatim>\<open>comm_write\<close> sends: \<^verbatim>\<open>split/id\<close>.\<close>

definition fnmake_split :: "libq \<Rightarrow> nat \<Rightarrow> nat \<Rightarrow> bytes" where
  "fnmake_split L csplit i = cstr (snd (fmtqfn L csplit csplit [] i True))"

definition last_part :: "bytes \<Rightarrow> bytes" where
  "last_part p = rev (takeWhile (\<lambda>c. c \<noteq> CHR ''/'') (rev p))"

context libqmail
begin

lemma slash_not_digit: "CHR ''/'' \<notin> set (lq_fmt_ulong L n)"
  using fmt_ulong_digits [of n] by (auto simp: list_all_iff is_digit_def)

lemma last_part_path: "last_part (d @ CHR ''/'' # lq_fmt_ulong L i @ [NUL]) = lq_fmt_ulong L i @ [NUL]"
proof -
  have "takeWhile (\<lambda>c. c \<noteq> CHR ''/'') (rev (lq_fmt_ulong L i @ [NUL]) @ CHR ''/'' # rev d)
      = rev (lq_fmt_ulong L i @ [NUL])"
    using slash_not_digit [of i] by (subst takeWhile_append2) auto
  then show ?thesis by (simp add: last_part_def)
qed

lemma last_part_fnmake:
  "last_part (fnmake L k b f) =
     lq_fmt_ulong L (case f of FInfo i \<Rightarrow> i | FTodo i \<Rightarrow> i | FMess i \<Rightarrow> i | FBounce i \<Rightarrow> i | FChan c i \<Rightarrow> i) @ [NUL]"
proof -
  have "last_part (snd (fmtqfn L k k (d @ ''/'') i fl)) = lq_fmt_ulong L i @ [NUL]" for d i fl
    using last_part_path [of "d @ CHR ''/'' # lq_fmt_ulong L (i mod k)" i] last_part_path [of d i]
    by (simp add: fmtqfn_def Let_def)
  from this [of "''info''"] this [of "''todo''"] this [of "''mess''"] this [of "''bounce''"]
    this [of "''local''"] this [of "''remote''"]
  show ?thesis by (cases f) simp_all
qed

lemma fmt_nul_inj: "lq_fmt_ulong L i @ [NUL] = lq_fmt_ulong L j @ [NUL] \<longleftrightarrow> i = j"
  using fmt_ulong_inj by auto

lemma fnmake_distinct:
  assumes "fnmake L k b f = fnmake L k b g"
    and "\<And>c i. f = FChan c i \<Longrightarrow> c < 2" and "\<And>c i. g = FChan c i \<Longrightarrow> c < 2"
  shows "f = g"
proof -
  have "last_part (fnmake L k b f) = last_part (fnmake L k b g)" using assms(1) by simp
  then have i: "(case f of FInfo i \<Rightarrow> i | FTodo i \<Rightarrow> i | FMess i \<Rightarrow> i | FBounce i \<Rightarrow> i | FChan c i \<Rightarrow> i)
      = (case g of FInfo i \<Rightarrow> i | FTodo i \<Rightarrow> i | FMess i \<Rightarrow> i | FBounce i \<Rightarrow> i | FChan c i \<Rightarrow> i)"
    by (simp only: last_part_fnmake fmt_nul_inj)
  have chan: "c = d \<or> (if c = 0 then ''local/'' else ''remote/'') ! 0 \<noteq> (if d = 0 then ''local/'' else ''remote/'') ! 0"
    if "c < 2" "d < 2" for c d :: nat
    using that by auto
  have hd: "hd (fnmake L k b f) = hd (fnmake L k b g)" using assms(1) by simp
  show ?thesis
    using i hd assms(2,3) chan
    by (cases f; cases g) (auto simp: fmtqfn_def Let_def split: if_splits)
qed

lemma fnmake_split_eq: "0 < k \<Longrightarrow> fnmake_split L k i = lq_fmt_ulong L (i mod k) @ ''/'' @ lq_fmt_ulong L i"
proof -
  assume "0 < k"
  then have "snd (fmtqfn L k k [] i True) = (lq_fmt_ulong L (i mod k) @ ''/'' @ lq_fmt_ulong L i) @ [NUL]"
    by (simp add: fmtqfn_def Let_def)
  moreover have "no_nul (lq_fmt_ulong L (i mod k) @ ''/'' @ lq_fmt_ulong L i)"
    using fmt_ulong_no_nul by simp
  ultimately show ?thesis by (simp only: fnmake_split_def cstr_append_nul)
qed

end

end
