(* ===== verification/SendDeliver.thy ===== *)
theory SendDeliver
  imports SendJobs QueueNames
begin

text \<open>
  Deliveries of \<^verbatim>\<open>qmail-send.c\<close> (sections REWRITING, COMMUNICATION, BOUNCES, DELIVERIES): the
  command written to \<^verbatim>\<open>qmail-lspawn\<close>/\<^verbatim>\<open>qmail-rspawn\<close>, the delivery slots, the reports that come
  back and what they do to the recipient list, the job and the bounce file.
\<close>

section \<open>Rewriting the sender\<close>

text \<open>\<^verbatim>\<open>senderadd\<close>: the bytes appended. \<^verbatim>\<open>owner-@host-@[]\<close> becomes \<^verbatim>\<open>owner-recipbox=reciphost@host\<close>.\<close>

definition senderadd :: "libq \<Rightarrow> bytes \<Rightarrow> bytes \<Rightarrow> bytes" where
  "senderadd L sender recip =
     (let i = length sender in
      if 4 \<le> i \<and> drop (i - 4) sender = ''-@[]'' then
        let j = lq_rchr L (take (i - 4) sender) CHR ''@''; k = lq_rchr L recip CHR ''@'' in
        if k < length recip \<and> j + 5 \<le> i then
          take j sender @ take k recip @ ''='' @ drop (k + 1) recip @ ''@'' @ take (i - 5 - j) (drop (j + 1) sender)
        else sender
      else sender)"

section \<open>Communication with the spawn processes\<close>

definition comm_canwrite :: "nat \<Rightarrow> qsend \<Rightarrow> bool" where
  "comm_canwrite c s = (comm_buf s c = [])"

definition comm_msg :: "libq \<Rightarrow> nat \<Rightarrow> nat \<Rightarrow> nat \<Rightarrow> bytes \<Rightarrow> bytes \<Rightarrow> bytes \<Rightarrow> bytes \<Rightarrow> bytes" where
  "comm_msg L csplit delnum i sender qqeh envh recip =
     [char_of delnum, char_of (delnum div 256)] @ fnmake_split L csplit i @ [NUL]
       @ senderadd L sender recip @ [NUL] @ qqeh @ [NUL] @ envh @ [NUL] @ recip @ [NUL]"

definition comm_write :: "libq \<Rightarrow> nat \<Rightarrow> nat \<Rightarrow> nat \<Rightarrow> bytes \<Rightarrow> bytes \<Rightarrow> bytes \<Rightarrow> bytes \<Rightarrow> qsend \<Rightarrow> qsend" where
  "comm_write L c delnum i sender qqeh envh recip s =
     (if comm_buf s c \<noteq> [] then s
      else s\<lparr>comm_buf := (comm_buf s)(c := comm_msg L (conf_split s) delnum i sender qqeh envh recip),
             comm_pos := (comm_pos s)(c := 0)\<rparr>)"

text \<open>\<^verbatim>\<open>exit_todo\<close> and \<^verbatim>\<open>spawndied\<close>.\<close>

definition exit_todo :: "qsend \<Rightarrow> qsend" where
  "exit_todo s =
     (if \<not> flagtodoalive s then s
      else let r = w_read (sw s) (w_tick (sw s));
               s1 = (tickw s)\<lparr>todo_out := todo_out s @ ''X''\<rparr>;
               s2 = (case r of [] \<Rightarrow> s1 | ch # t \<Rightarrow> if ch = CHR ''L'' then slog (LTodo (cstr t)) s1 else s1)
           in s2\<lparr>flagtodoalive := False\<rparr>)"

definition spawndied :: "nat \<Rightarrow> qsend \<Rightarrow> qsend" where
  "spawndied c s =
     (let s1 = slog (LAlert ''lost spawn connection'') s;
          s2 = s1\<lparr>flagspawnalive := (flagspawnalive s1)(c := False), flagexitsend := True\<rparr>
      in if flagtodoalive s2 then exit_todo s2 else s2)"

text \<open>
  The result of \<^verbatim>\<open>write\<close> on a spawn pipe that \<^verbatim>\<open>select\<close> reported writable: some bytes went out,
  the pipe is broken (\<^verbatim>\<open>EPIPE\<close>), or nothing happened.
\<close>

datatype wres = WSome nat | WPipe | WNothing

definition comm_do_chan :: "nat \<Rightarrow> wres option \<Rightarrow> qsend \<Rightarrow> qsend" where
  "comm_do_chan c wr s =
     (if flagspawnalive s c \<and> comm_buf s c \<noteq> [] then
        case wr of
          None \<Rightarrow> s
        | Some WPipe \<Rightarrow> spawndied c s
        | Some WNothing \<Rightarrow> s
        | Some (WSome n) \<Rightarrow>
            (let len = length (comm_buf s c); n' = min n (len - comm_pos s c);
                 s1 = s\<lparr>comm_out := (comm_out s)(c := comm_out s c @ take n' (drop (comm_pos s c) (comm_buf s c))),
                        comm_pos := (comm_pos s)(c := comm_pos s c + n')\<rparr>
             in if comm_pos s1 c = len then s1\<lparr>comm_buf := (comm_buf s1)(c := [])\<rparr> else s1)
      else s)"

definition comm_do :: "(nat \<Rightarrow> wres option) \<Rightarrow> qsend \<Rightarrow> qsend" where
  "comm_do wr s = fold (\<lambda>c. comm_do_chan c (wr c)) chans s"

section \<open>Bounces\<close>

text \<open>\<^verbatim>\<open>stripvdomprepend\<close>; the positions \<open>is\<close> still to look at.\<close>

fun strip_scan :: "(bytes \<Rightarrow> bytes option) \<Rightarrow> bytes \<Rightarrow> bytes \<Rightarrow> nat list \<Rightarrow> bytes" where
  "strip_scan vd recip domain [] = recip"
| "strip_scan vd recip domain (i # is) =
     (if i = 0 \<or> i = length domain \<or> domain ! i = CHR ''.'' then
        case vd (drop i domain) of
          None \<Rightarrow> strip_scan vd recip domain is
        | Some prepend \<Rightarrow>
            if prepend = [] then recip
            else if take (length prepend) recip \<noteq> prepend then recip
            else if length recip \<le> length prepend \<or> recip ! length prepend \<noteq> CHR ''-'' then recip
            else drop (length prepend + 1) recip
      else strip_scan vd recip domain is)"

definition stripvdomprepend :: "libq \<Rightarrow> (bytes \<Rightarrow> bytes option) \<Rightarrow> bytes \<Rightarrow> bytes" where
  "stripvdomprepend L vd recip =
     (let i = lq_rchr L recip CHR ''@'' in
      if i \<ge> length recip then recip
      else let domain = drop (i + 1) recip in strip_scan vd recip domain [0..<Suc (length domain)])"

text \<open>The loop of \<^verbatim>\<open>addbounce\<close> that breaks up blank lines, from \<open>pos\<close> downwards.\<close>

fun slash_blank :: "nat \<Rightarrow> bytes \<Rightarrow> bytes" where
  "slash_blank 0 b = b"
| "slash_blank (Suc p) b =
     slash_blank p (if b ! Suc p = LF \<and> b ! p = LF then b[Suc p := CHR ''/''] else b)"

definition bounce_head :: "libq \<Rightarrow> (bytes \<Rightarrow> bytes option) \<Rightarrow> bytes \<Rightarrow> bytes" where
  "bounce_head L vd recip =
     map (\<lambda>ch. if ch = LF then CHR ''_'' else ch) (''<'' @ stripvdomprepend L vd recip)"

definition bouncetext :: "libq \<Rightarrow> (bytes \<Rightarrow> bytes option) \<Rightarrow> bytes \<Rightarrow> bytes \<Rightarrow> bytes" where
  "bouncetext L vd recip report =
     (let t = bounce_head L vd recip @ ''>:'' @ [LF] @ report
            @ (if report \<noteq> [] \<and> last report \<noteq> LF then [LF] else [])
      in slash_blank (length t - 2) t @ [LF])"

definition append_file :: "fname \<Rightarrow> bytes \<Rightarrow> qsend \<Rightarrow> qsend" where
  "append_file f b s =
     put_file f (Some (case files s f of
                         None \<Rightarrow> \<lparr>f_data = b, f_mtime = w_time (sw s) (w_tick (sw s)), f_atime = 0\<rparr>
                       | Some x \<Rightarrow> x\<lparr>f_data := f_data x @ b, f_mtime := w_time (sw s) (w_tick (sw s))\<rparr>)) s"

text \<open>
  \<^verbatim>\<open>addbounce\<close>: the two loops that open and write \<^verbatim>\<open>bounce/id\<close> sleep until they succeed.
\<close>

definition addbounce :: "libq \<Rightarrow> nat \<Rightarrow> bytes \<Rightarrow> bytes \<Rightarrow> qsend \<Rightarrow> qsend" where
  "addbounce L i recip report s =
     (let b = bouncetext L (mapvdoms s) recip report;
          s1 = s\<lparr>orig_recip := bounce_head L (mapvdoms s) recip @ ''>'' @ [LF]\<rparr>
      in trace (SBounceAppend i b) (append_file (FBounce i) b (tickw s1)))"

section \<open>Deliveries\<close>

definition del_avail :: "nat \<Rightarrow> qsend \<Rightarrow> bool" where
  "del_avail c s \<longleftrightarrow>
     flagspawnalive s c \<and> comm_canwrite c s \<and> \<not> holdjobs s c \<and> concurrencyused s c < concurrency s c"

definition del_canexit :: "qsend \<Rightarrow> bool" where
  "del_canexit s \<longleftrightarrow> list_all (\<lambda>c. flagspawnalive s c \<and> \<not> holdjobs s c \<longrightarrow> concurrencyused s c = 0) chans"

text \<open>
  The search for a free slot runs up to \<^verbatim>\<open>concurrency[c]\<close>; a position past the end of the array
  that was allocated at start-up is an access out of bounds.
\<close>

definition del_slot :: "nat \<Rightarrow> qsend \<Rightarrow> nat option" where
  "del_slot c s = find (\<lambda>i. length (del s c) \<le> i \<or> \<not> d_used (del s c ! i)) [0..<concurrency s c]"

definition del_start :: "libq \<Rightarrow> nat \<Rightarrow> nat \<Rightarrow> bytes \<Rightarrow> qsend \<Rightarrow> qsend" where
  "del_start L j mpos recip s =
     (let c = j_channel (jo s ! j) in
      if \<not> flagspawnalive s c then s
      else if holdjobs s c then s
      else if \<not> comm_canwrite c s then s
      else case del_slot c s of
          None \<Rightarrow> s
        | Some i \<Rightarrow>
            if length (del s c) \<le> i then s\<lparr>ub := True\<rparr>
            else (let (ok, s1) = sys_ok s in
              if \<not> ok then slog (LAlert ''out of memory'') s1
              else
                let d = \<lparr>d_used = True, d_j = j, d_delid = masterdelid s1, d_mpos = mpos, d_recip = recip\<rparr>;
                    s2 = upd_job j (\<lambda>r. r\<lparr>j_refs := j_refs r + 1\<rparr>) s1;
                    s3 = s2\<lparr>del := (del s2)(c := (del s2 c)[i := d]),
                            masterdelid := masterdelid s2 + 1,
                            concurrencyused := (concurrencyused s2)(c := concurrencyused s2 c + 1)\<rparr>;
                    r = jo s3 ! j;
                    s4 = comm_write L c i (j_id r) (j_sender r) (j_qqeh r) (j_envh r) recip s3
                in slog (LStart (d_delid d) (j_id r) c recip) s4))"

text \<open>
  \<^verbatim>\<open>markdone\<close>: write \<^verbatim>\<open>D\<close> over the type byte of the record; every call in the chain may fail, and
  then the log says that the message will be delivered twice.
\<close>

definition markdone :: "nat \<Rightarrow> nat \<Rightarrow> nat \<Rightarrow> qsend \<Rightarrow> qsend" where
  "markdone c i pos s =
     (case sys_stat (FChan c i) s of
        (Inl _, s1) \<Rightarrow> slog (LTwice (FChan c i)) s1
      | (Inr x, s1) \<Rightarrow>
          (case sys_ok s1 of
             (False, s2) \<Rightarrow> slog (LTwice (FChan c i)) s2
           | (True, s2) \<Rightarrow>
               (case sys_ok s2 of
                  (False, s3) \<Rightarrow> slog (LTwice (FChan c i)) s3
                | (True, s3) \<Rightarrow>
                    (case sys_ok s3 of
                       (False, s4) \<Rightarrow> slog (LTwice (FChan c i)) s4
                     | (True, s4) \<Rightarrow>
                         trace (SMark c i pos)
                           (put_file (FChan c i) (Some (x\<lparr>f_data := (f_data x)[pos := CHR ''D''],
                                                      f_mtime := w_time (sw s4) (w_tick (sw s4))\<rparr>)) s4)))))"

definition report_delnum :: "bytes \<Rightarrow> int" where
  "report_delnum l = of_char (l ! 0) + 256 * schar (l ! 1)"

definition dying_text :: bytes where
  "dying_text = ''I'' @ [CHR 0x27] @ ''m not going to try again; this message has been in the queue too long.'' @ [LF]"

text \<open>A deferral of a message that is too old becomes a failure with a remark.\<close>

definition report_line :: "job \<Rightarrow> bytes \<Rightarrow> bytes" where
  "report_line r l =
     (if l ! 2 = CHR ''Z'' \<and> j_dying r then butlast (l[2 := CHR ''D'']) @ dying_text @ [NUL] else l)"

definition report_act :: "libq \<Rightarrow> nat \<Rightarrow> delv \<Rightarrow> bytes \<Rightarrow> qsend \<Rightarrow> qsend" where
  "report_act L c d l s =
     (let i = j_id (jo s ! d_j d); text = cstr (drop 3 l) in
      if l ! 2 = CHR ''K'' then
        upd_job (d_j d) (\<lambda>r. r\<lparr>j_numtodo := j_numtodo r - 1\<rparr>)
          (markdone c i (d_mpos d) (slog (LSuccess (d_delid d) text) s))
      else if l ! 2 = CHR ''Z'' then slog (LDeferral (d_delid d) text) s
      else if l ! 2 = CHR ''D'' then
        upd_job (d_j d) (\<lambda>r. r\<lparr>j_numtodo := j_numtodo r - 1\<rparr>)
          (markdone c i (d_mpos d)
            (addbounce L i (d_recip d) text (slog (LFailure (d_delid d) text) s)))
      else slog (LMangled (d_delid d)) s)"

text \<open>One complete report \<open>l\<close> of channel \<open>c\<close>.\<close>

definition del_report :: "libq \<Rightarrow> nat \<Rightarrow> bytes \<Rightarrow> qsend \<Rightarrow> qsend" where
  "del_report L c l s =
     (let delnum = report_delnum l; n = nat delnum in
      if delnum < 0 \<or> concurrency s c \<le> n then slog (LRange c) s
      else if length (del s c) \<le> n then s\<lparr>ub := True\<rparr>
      else if \<not> d_used (del s c ! n) then slog (LRange c) s
      else
        let d = del s c ! n;
            s1 = report_act L c d (report_line (jo s ! d_j d) l) s;
            s2 = job_close (d_j d) s1
        in s2\<lparr>del := (del s2)(c := (del s2 c)[n := (del s2 c ! n)\<lparr>d_used := False\<rparr>]),
              concurrencyused := (concurrencyused s2)(c := concurrencyused s2 c - 1)\<rparr>)"

definition del_byte :: "libq \<Rightarrow> nat \<Rightarrow> char \<Rightarrow> qsend \<Rightarrow> qsend" where
  "del_byte L c ch s =
     (let l = take REPORTMAX (dline s c @ [ch]); s1 = s\<lparr>dline := (dline s)(c := l)\<rparr> in
      if ch = NUL \<and> 2 < length l then
        let s2 = del_report L c l s1 in s2\<lparr>dline := (dline s2)(c := [])\<rparr>
      else s1)"

text \<open>\<^verbatim>\<open>del_dochan\<close>: \<open>r\<close> is what \<^verbatim>\<open>read\<close> returned, \<open>None\<close> for an error.\<close>

definition del_dochan :: "libq \<Rightarrow> nat \<Rightarrow> bytes option \<Rightarrow> qsend \<Rightarrow> qsend" where
  "del_dochan L c r s =
     (case r of
        None \<Rightarrow> s
      | Some [] \<Rightarrow> spawndied c s
      | Some b \<Rightarrow> fold (del_byte L c) b s)"

definition del_do :: "libq \<Rightarrow> (nat \<Rightarrow> bytes option option) \<Rightarrow> qsend \<Rightarrow> qsend" where
  "del_do L rd s =
     fold (\<lambda>c s. case rd c of None \<Rightarrow> s | Some r \<Rightarrow> if flagspawnalive s c then del_dochan L c r s else s) chans s"

end
