(* ===== verification/SendPass.thy ===== *)
theory SendPass
  imports SendDeliver
begin

text \<open>
  Passes, the end of a message, cleanups, the dialogue with \<^verbatim>\<open>todo-proc\<close>, signals and the main
  loop of \<^verbatim>\<open>qmail-send.c\<close> (sections PASSES, CLEANUPS, TODO, MAIN).
\<close>

section \<open>The retry schedule\<close>

text \<open>\<^verbatim>\<open>squareroot\<close>: the body of the loop for one \<open>j\<close>, and the loop from \<open>j\<close> down to 0.\<close>

fun squareroot_loop :: "nat \<Rightarrow> int \<Rightarrow> int \<Rightarrow> int \<Rightarrow> int" where
  "squareroot_loop 0 x y yy = y"
| "squareroot_loop (Suc j) x y yy =
     (let y21 = y * 2 ^ (j + 1) + 2 ^ (j + j) in
      if y21 \<le> x - yy then squareroot_loop j x (y + 2 ^ j) (yy + y21) else squareroot_loop j x y yy)"

definition squareroot :: "int \<Rightarrow> int" where
  "squareroot x = squareroot_loop 16 x 0 0"

definition nextretry :: "int \<Rightarrow> int \<Rightarrow> nat \<Rightarrow> int" where
  "nextretry recent_t birth c =
     (let n = (if birth > recent_t then 0 else squareroot (recent_t - birth)) + chanskip c in birth + n * n)"

section \<open>Reading recipients\<close>

definition set_pass :: "nat \<Rightarrow> passr \<Rightarrow> qsend \<Rightarrow> qsend" where
  "set_pass c p s = s\<lparr>pass := (pass s)(c := p)\<rparr>"

definition end_pass :: "nat \<Rightarrow> qsend \<Rightarrow> qsend" where
  "end_pass c s = set_pass c ((pass s c)\<lparr>ps_id := 0\<rparr>) s"

text \<open>
  The first half of \<^verbatim>\<open>pass_dochan\<close>: when no pass is under way, take the first message that is due
  and open a job for it. The result says whether the second half is reached, and the element
  \<^verbatim>\<open>pe\<close> read from the queue if there was one.
\<close>

definition pass_trouble :: "nat \<Rightarrow> prioq_elt \<Rightarrow> fname \<Rightarrow> qsend \<Rightarrow> qsend" where
  "pass_trouble c pe f s =
     (let s1 = slog (LNoOpen f) s in
      insert_chan c (pe\<lparr>pe_dt := recent s1 + SLEEP_SYSFAIL\<rparr>) s1)"

definition pass_open :: "nat \<Rightarrow> nat \<Rightarrow> prioq_elt \<Rightarrow> qsend \<Rightarrow> bool \<times> qsend" where
  "pass_open c j pe s =
     (let s1 = s\<lparr>pqchan := (pqchan s)(c := prioq_del Pmin (pqchan s c)),
                 pass := (pass s)(c := (pass s c)\<lparr>ps_mpos := 0\<rparr>)\<rparr> in
      case sys_stat (FChan c (pe_id pe)) s1 of
        (Inl _, s2) \<Rightarrow> (False, pass_trouble c pe (FChan c (pe_id pe)) s2)
      | (Inr x, s2) \<Rightarrow>
          (case getinfo (pe_id pe) s2 of
             (None, s3) \<Rightarrow> (False, pass_trouble c pe (FInfo (pe_id pe)) s3)
           | (Some (sender, qqeh, envh, birth), s3) \<Rightarrow>
               (let s4 = set_pass c \<lparr>ps_id = pe_id pe, ps_j = j, ps_mpos = 0, ps_rest = f_data x\<rparr> s3;
                    s5 = job_open (pe_id pe) c j s4;
                    dying = (if cstr sender = [] then recent s5 > birth + bouncelifetime s5
                             else recent s5 > birth + lifetime s5)
                in (True, upd_job j (\<lambda>r. r\<lparr>j_retry := nextretry (recent s5) birth c, j_dying := dying,
                                          j_sender := sender, j_qqeh := qqeh, j_envh := envh\<rparr>) s5))))"

definition pass_new :: "nat \<Rightarrow> qsend \<Rightarrow> bool \<times> qsend" where
  "pass_new c s =
     (case job_avail s of
        None \<Rightarrow> (False, s)
      | Some j \<Rightarrow>
          (case prioq_get (pqchan s c) of
             None \<Rightarrow> (False, s)
           | Some pe \<Rightarrow> if pe_dt pe > recent s then (False, s) else pass_open c j pe s))"

text \<open>
  A recipient still to do. The rate limiter (\<open>w_rate\<close>) answers with its code, a time and the
  flag; code 0 closes the job until later.
\<close>

definition pass_recipient :: "libq \<Rightarrow> nat \<Rightarrow> bytes \<Rightarrow> qsend \<Rightarrow> bool \<times> qsend" where
  "pass_recipient L c recip s =
     (let p = pass s c; (i, t, lim) = w_rate (sw s) (w_tick (sw s)); s1 = tickw s in
      if i = 0 then
        let s2 = s1\<lparr>time_needed := (if t \<noteq> 0 \<and> (t < time_needed s1 \<or> time_needed s1 = 0) then t + SLEEP_FUZZ else 0)\<rparr>;
            s3 = end_pass c (job_close (ps_j p) (upd_job (ps_j p) (\<lambda>r. r\<lparr>j_retry := recent s2 + t\<rparr>) s2))
        in (False, s3\<lparr>delayed_jobs := delayed_job_count s3\<rparr>)
      else
        let s2 = (if i = -1 then slog (LNoRate recip) s1
                  else if lim then s1\<lparr>delayed_jobs := delayed_job_count s1\<rparr> else s1);
            s3 = upd_job (ps_j p) (\<lambda>r. r\<lparr>j_numtodo := j_numtodo r + 1\<rparr>) s2
        in (True, del_start L (ps_j p) (ps_mpos p) recip s3))"

text \<open>The second half of \<^verbatim>\<open>pass_dochan\<close>: read one record of the recipient list.\<close>

definition pass_record :: "libq \<Rightarrow> nat \<Rightarrow> qsend \<Rightarrow> qsend" where
  "pass_record L c s =
     (if \<not> del_avail c s then s
      else let p = pass s c; (ok, s1) = sys_ok s in
        if \<not> ok then end_pass c (job_close (ps_j p) (slog (LNoRead (FChan c (ps_id p))) s1))
        else case read_record (ps_rest p) of
            None \<Rightarrow> end_pass c (job_close (ps_j p) (upd_job (ps_j p) (\<lambda>r. r\<lparr>j_hiteof := True\<rparr>) s1))
          | Some (line, rest) \<Rightarrow>
              (let s2 = set_pass c (p\<lparr>ps_rest := rest\<rparr>) s1;
                   advance = (\<lambda>s. set_pass c ((pass s c)\<lparr>ps_mpos := ps_mpos (pass s c) + length line + 1\<rparr>) s)
               in case line of
                    [] \<Rightarrow> end_pass c (job_close (ps_j p) (slog (LUnknownRecord (FChan c (ps_id p))) s2))
                  | t # recip \<Rightarrow>
                      if t = CHR ''T'' then
                        (case pass_recipient L c recip s2 of
                           (False, s3) \<Rightarrow> s3
                         | (True, s3) \<Rightarrow> advance s3)
                      else if t = CHR ''D'' then advance s2
                      else end_pass c (job_close (ps_j p) (slog (LUnknownRecord (FChan c (ps_id p))) s2))))"

definition pass_dochan :: "libq \<Rightarrow> nat \<Rightarrow> qsend \<Rightarrow> qsend" where
  "pass_dochan L c s =
     (if flagexitsend s then s
      else if ps_id (pass s c) = 0 then
        (case pass_new c s of (False, s1) \<Rightarrow> s1 | (True, s1) \<Rightarrow> pass_record L c s1)
      else pass_record L c s)"

section \<open>The end of a message\<close>

text \<open>
  Rewriting of the sender of a message that is about to bounce: \<^verbatim>\<open>owner-@host-@[]\<close> to
  \<^verbatim>\<open>owner-@host\<close>, and \<^verbatim>\<open>sb*-foo\<close> to \<^verbatim>\<open>foo\<close>.
\<close>

definition bounce_sender :: "bytes \<Rightarrow> bytes" where
  "bounce_sender sender =
     (let s1 = (if 4 \<le> length sender \<and> drop (length sender - 4) sender = ''-@[]''
                then take (length sender - 4) sender else sender)
      in if 4 \<le> length s1 \<and> take 4 s1 = ''sb*-'' then drop 4 s1 else s1)"

text \<open>
  When the host of the sender is the SRS domain, \<^verbatim>\<open>srsreverse\<close> (\<^verbatim>\<open>srs.c\<close>, a negative code is a
  failure) gives the address the bounce goes to.
\<close>

definition srs_sender :: "libq \<Rightarrow> bytes \<Rightarrow> qsend \<Rightarrow> bytes option" where
  "srs_sender L sender s =
     (let j = lq_rchr L sender CHR ''@'' in
      if sender \<noteq> [] \<and> srs_domain s \<noteq> [] \<and> j < length sender \<and> drop (j + 1) sender = srs_domain s then
        (case srsreverse s sender of (code, r) \<Rightarrow>
           if code < 0 then None else if code = 1 then Some r else Some sender)
      else Some sender)"

text \<open>
  \<^verbatim>\<open>injectbounce\<close>: the answers of the environment, in order, are: 0 when \<^verbatim>\<open>qmail-queue\<close> could be
  started (environment, rules and controls included), the exit code of the bounce processor
  (0 go on, 1 discard), and 0 when \<^verbatim>\<open>qmail_close\<close> accepted the bounce. The text of the bounce is
  not part of the state.
\<close>

definition inject_unlink :: "nat \<Rightarrow> qsend \<Rightarrow> bool \<times> qsend" where
  "inject_unlink i s =
     (case sys_unlink (FBounce i) s of
        (Some _, s1) \<Rightarrow> (False, slog (LNoUnlink (FBounce i)) s1)
      | (None, s1) \<Rightarrow> (True, s1))"

definition inject_send :: "libq \<Rightarrow> nat \<Rightarrow> bytes \<Rightarrow> qsend \<Rightarrow> bool \<times> qsend" where
  "inject_send L i sender s =
     (let started = (answer s = 0); s1 = tickw s; rev = srs_sender L sender s1 in
      if \<not> started then (False, slog LInjectTrouble s1)
      else
        let bouncerecip = (if sender \<noteq> [] then (case rev of None \<Rightarrow> sender | Some r \<Rightarrow> cstr r) else doublebounceto s1);
            bouncesender = (if sender \<noteq> [] then [] else ''#@[]'');
            proc = (if rev = None then 0 else answer s1); s2 = tickw s1
        in if proc = 1 then
             (case inject_unlink i s2 of
                (False, s3) \<Rightarrow> (False, s3)
              | (True, s3) \<Rightarrow> (True, slog (LDeleteBounce (FBounce i)) s3))
           else
             let closed = (answer s2 = 0 \<and> proc = 0 \<and> rev \<noteq> None); s3 = tickw s2 in
             if \<not> closed then (False, slog LInjectTrouble s3)
             else inject_unlink i (slog (LBounceMsg i) (trace (SInject bouncesender bouncerecip) s3)))"

definition injectbounce :: "libq \<Rightarrow> nat \<Rightarrow> qsend \<Rightarrow> bool \<times> qsend" where
  "injectbounce L i s =
     (case getinfo i s of
        (None, s1) \<Rightarrow> (False, s1)
      | (Some (sender0, qqeh, envh, birth), s1) \<Rightarrow>
          (let sender = bounce_sender (cstr sender0) in
           case sys_stat (FBounce i) s1 of
             (Inl ENOENT, s2) \<Rightarrow> (True, s2)
           | (Inl EIO, s2) \<Rightarrow> (False, slog (LNoStat (FBounce i)) s2)
           | (Inr _, s2) \<Rightarrow>
               if sender = ''#@[]'' then inject_unlink i (slog (LTripleBounce (FBounce i)) s2)
               else if sender = [] \<and> doublebounceto s2 \<noteq> [] \<and> hd (doublebounceto s2) = CHR ''@'' then
                 inject_unlink i (slog (LDoubleBounce (FBounce i)) s2)
               else inject_send L i sender s2))"

text \<open>
  A request \<^verbatim>\<open>foop/id\<close> to \<^verbatim>\<open>qmail-clean\<close>, whose answer is \<^verbatim>\<open>+\<close> (0), another byte (1) or the end
  of the pipe; when it is \<^verbatim>\<open>+\<close> the message file is gone.
\<close>

definition cleandied :: "qsend \<Rightarrow> qsend" where
  "cleandied s =
     (let s1 = (slog (LAlert ''lost qmail-clean connection'') s)\<lparr>flagexitsend := True\<rparr> in
      if flagtodoalive s1 then exit_todo s1 else s1)"

definition ask_clean :: "nat \<Rightarrow> qsend \<Rightarrow> qsend" where
  "ask_clean i s =
     (let a = answer s;
          s1 = trace (SClean i (files s (FInfo i) \<noteq> None) (files s (FTodo i) \<noteq> None)) (tickw s)
      in if a = 0 then put_file (FMess i) None s1
         else if a = 1 then slog (LNoClean (FMess i)) s1
         else cleandied s1)"

definition messdone_fail :: "nat \<Rightarrow> qsend \<Rightarrow> qsend" where
  "messdone_fail i s =
     (let d = junk s; (t, s1) = now s in insert_done \<lparr>pe_dt = t + SLEEP_SYSFAIL, pe_id = i, pe_delayed = d\<rparr> s1)"

fun messdone_chans :: "nat \<Rightarrow> nat list \<Rightarrow> qsend \<Rightarrow> bool option \<times> qsend" where
  "messdone_chans i [] s = (Some True, s)"
| "messdone_chans i (c # cs) s =
     (case sys_stat (FChan c i) s of
        (Inr _, s1) \<Rightarrow> (Some False, s1)
      | (Inl EIO, s1) \<Rightarrow> (None, slog (LNoStat (FChan c i)) s1)
      | (Inl ENOENT, s1) \<Rightarrow> messdone_chans i cs s1)"

definition messdone_end :: "libq \<Rightarrow> nat \<Rightarrow> qsend \<Rightarrow> qsend" where
  "messdone_end L i s =
     (case injectbounce L i s of
        (False, s1) \<Rightarrow> messdone_fail i s1
      | (True, s1) \<Rightarrow>
          (case sys_unlink (FInfo i) (slog (LEndMsg i) s1) of
             (Some _, s2) \<Rightarrow> messdone_fail i (slog (LNoUnlink (FInfo i)) s2)
           | (None, s2) \<Rightarrow> ask_clean i s2))"

definition messdone :: "libq \<Rightarrow> nat \<Rightarrow> qsend \<Rightarrow> qsend" where
  "messdone L i s =
     (case messdone_chans i chans s of
        (None, s1) \<Rightarrow> messdone_fail i s1
      | (Some False, s1) \<Rightarrow> s1
      | (Some True, s1) \<Rightarrow>
          (case sys_stat (FTodo i) s1 of
             (Inr _, s2) \<Rightarrow> s2
           | (Inl EIO, s2) \<Rightarrow> messdone_fail i (slog (LNoStat (FTodo i)) s2)
           | (Inl ENOENT, s2) \<Rightarrow>
               (case sys_stat (FInfo i) s2 of
                  (Inl ENOENT, s3) \<Rightarrow> s3
                | (Inl EIO, s3) \<Rightarrow> messdone_fail i (slog (LNoStat (FInfo i)) s3)
                | (Inr _, s3) \<Rightarrow> messdone_end L i s3)))"

definition pass_do :: "libq \<Rightarrow> qsend \<Rightarrow> qsend" where
  "pass_do L s =
     (let s1 = fold (pass_dochan L) chans s;
          s2 = (case prioq_get (pqfail s1) of
                  Some pe \<Rightarrow> if pe_dt pe \<le> recent s1 then pqadd (pe_id pe) False (s1\<lparr>pqfail := prioq_del Pmin (pqfail s1)\<rparr>) else s1
                | None \<Rightarrow> s1)
      in case prioq_get (pqdone s2) of
           Some pe \<Rightarrow> if pe_dt pe \<le> recent s2 then messdone L (pe_id pe) (s2\<lparr>pqdone := prioq_del Pmin (pqdone s2)\<rparr>) else s2
         | None \<Rightarrow> s2)"

text \<open>\<^verbatim>\<open>pass_selprep\<close>: the new \<^verbatim>\<open>wakeup\<close>.\<close>

definition pass_selprep :: "qsend \<Rightarrow> int \<Rightarrow> int" where
  "pass_selprep s wakeup =
     (if flagexitsend s then wakeup
      else if list_ex (\<lambda>c. ps_id (pass s c) \<noteq> 0 \<and> del_avail c s) chans then 0
      else
        let w1 = (if job_avail s \<noteq> None then
                    fold (\<lambda>c wk. case prioq_get (pqchan s c) of
                        Some pe \<Rightarrow> if ps_id (pass s c) = 0 \<and> wk > pe_dt pe \<and> \<not> pe_delayed pe then pe_dt pe else wk
                      | None \<Rightarrow> wk) chans wakeup
                  else wakeup);
            w2 = (case prioq_get (pqfail s) of Some pe \<Rightarrow> min w1 (pe_dt pe) | None \<Rightarrow> w1)
        in case prioq_get (pqdone s) of Some pe \<Rightarrow> min w2 (pe_dt pe) | None \<Rightarrow> w2)"

section \<open>Cleanups\<close>

text \<open>\<^verbatim>\<open>readsubdir_next\<close>: a message number, the end of the directory, or an invalid name.\<close>

datatype dirent = DirId nat | DirEnd | DirBad

definition cleanup_selprep :: "qsend \<Rightarrow> int \<Rightarrow> int" where
  "cleanup_selprep s wakeup =
     (let w1 = (if flagcleanup s then 0 else wakeup) in if w1 > cleanuptime s then cleanuptime s else w1)"

text \<open>A message file: old enough, and neither \<^verbatim>\<open>info\<close> nor \<^verbatim>\<open>todo\<close> knows it.\<close>

definition cleanup_mess :: "int \<Rightarrow> nat \<Rightarrow> qsend \<Rightarrow> qsend" where
  "cleanup_mess ossified i s =
     (case sys_stat (FMess i) s of
        (Inl _, s1) \<Rightarrow> s1
      | (Inr st, s1) \<Rightarrow>
          if recent s1 \<le> f_atime st + ossified then s1
          else (case sys_stat (FInfo i) s1 of
                  (Inr _, s2) \<Rightarrow> s2
                | (Inl EIO, s2) \<Rightarrow> s2
                | (Inl ENOENT, s2) \<Rightarrow>
                    (case sys_stat (FTodo i) s2 of
                       (Inr _, s3) \<Rightarrow> s3
                     | (Inl EIO, s3) \<Rightarrow> s3
                     | (Inl ENOENT, s3) \<Rightarrow> ask_clean i s3)))"

definition cleanup_do :: "int \<Rightarrow> dirent \<Rightarrow> qsend \<Rightarrow> qsend" where
  "cleanup_do ossified ent s =
     (if \<not> flagcleanup s \<and> recent s < cleanuptime s then s
      else let s1 = s\<lparr>flagcleanup := True\<rparr> in
        case ent of
          DirEnd \<Rightarrow> s1\<lparr>flagcleanup := False, cleanuptime := recent s1 + SLEEP_CLEANUP\<rparr>
        | DirBad \<Rightarrow> s1
        | DirId i \<Rightarrow> cleanup_mess ossified i s1)"

section \<open>The dialogue with todo-proc\<close>

text \<open>\<^verbatim>\<open>tododied\<close>, and a write to \<^verbatim>\<open>todo-proc\<close> of one byte, which may fail.\<close>

definition tododied :: "qsend \<Rightarrow> qsend" where
  "tododied s = (slog (LAlert ''lost todo-proc connection'') s)\<lparr>flagexitsend := True, flagtodoalive := False\<rparr>"

definition todo_write :: "bytes \<Rightarrow> qsend \<Rightarrow> bool \<times> qsend" where
  "todo_write b s =
     (let (ok, s1) = sys_ok s in
      if ok then (True, s1\<lparr>todo_out := todo_out s1 @ b\<rparr>)
      else (False, (slog (LAlert ''unable to write to todo-proc'') s1)\<lparr>flagexitsend := True, flagtodoalive := False\<rparr>))"

definition todo_init :: "qsend \<Rightarrow> qsend" where
  "todo_init s = snd (todo_write ''C'' (s\<lparr>flagtodoalive := True\<rparr>))"

definition todo_selprep :: "qsend \<Rightarrow> qsend" where
  "todo_selprep s =
     (if flagexitsend s \<and> flagtodoalive s then s\<lparr>todo_out := todo_out s @ ''X'', flagtodoalive := False\<rparr> else s)"

text \<open>
  \<^verbatim>\<open>todo_del\<close>: \<open>m\<close> is the message after the \<^verbatim>\<open>D\<close>. The stack element \<^verbatim>\<open>pe\<close> has no \<^verbatim>\<open>delayed\<close>.
\<close>

definition todo_flags :: "char \<Rightarrow> nat list option" where
  "todo_flags ch =
     (if ch = CHR ''L'' then Some [0]
      else if ch = CHR ''R'' then Some [1]
      else if ch = CHR ''B'' then Some [0, 1]
      else if ch = CHR ''X'' then Some []
      else None)"

definition todo_del :: "libq \<Rightarrow> bytes \<Rightarrow> qsend \<Rightarrow> qsend" where
  "todo_del L m s =
     (case (case m of [] \<Rightarrow> None | ch # _ \<Rightarrow> todo_flags ch) of
        None \<Rightarrow> slog LDialect s
      | Some cs \<Rightarrow>
          (let a = tl m; (len, i) = lq_scan_ulong L a in
           if len = 0 \<or> len < length a then slog LDialect s
           else
             let d = junk s; (t, s1) = now s; pe = \<lparr>pe_dt = t, pe_id = i, pe_delayed = d\<rparr> in
             if cs = [] then insert_done pe s1 else fold (\<lambda>c. insert_chan c pe) cs s1))"

definition todo_line :: "libq \<Rightarrow> bytes \<Rightarrow> qsend \<Rightarrow> qsend" where
  "todo_line L l s =
     (if l ! 0 = CHR ''D'' then if flagexitsend s then s else todo_del L (cstr (tl l)) s
      else if l ! 0 = CHR ''L'' then slog (LTodo (cstr (tl l))) s
      else if l ! 0 = CHR ''X'' then if flagexitsend s then s\<lparr>flagtodoalive := False\<rparr> else tododied s
      else slog LDialect s)"

definition todo_byte :: "libq \<Rightarrow> char \<Rightarrow> qsend \<Rightarrow> qsend" where
  "todo_byte L ch s =
     (let l = take REPORTMAX (todoline s @ [ch]); s1 = s\<lparr>todoline := l\<rparr> in
      if ch = NUL \<and> 1 < length l then (todo_line L l s1)\<lparr>todoline := []\<rparr> else s1)"

definition todo_do :: "libq \<Rightarrow> bytes option option \<Rightarrow> qsend \<Rightarrow> qsend" where
  "todo_do L rd s =
     (if \<not> flagtodoalive s then s
      else case rd of
          None \<Rightarrow> s
        | Some None \<Rightarrow> s
        | Some (Some []) \<Rightarrow> if flagexitsend s then s\<lparr>flagtodoalive := False\<rparr> else tododied s
        | Some (Some b) \<Rightarrow> fold (todo_byte L) b s)"

section \<open>Signals\<close>

definition sigterm :: "qsend \<Rightarrow> qsend" where
  "sigterm s = exit_todo ((slog (LAlert ''got TERM'') s)\<lparr>flagexitsend := True\<rparr>)"

definition sigalrm :: "qsend \<Rightarrow> qsend" where
  "sigalrm s = slog (LAlert ''got ALRM'') (s\<lparr>flagrunasap := True\<rparr>)"

definition sighup :: "qsend \<Rightarrow> qsend" where
  "sighup s = slog (LAlert ''got HUP'') (s\<lparr>flagreadasap := True\<rparr>)"

definition sigusr1 :: "qsend \<Rightarrow> qsend" where
  "sigusr1 s =
     (if flagdetached s \<noteq> 0 then s
      else if del_canexit s then
        (case todo_write ''D'' (slog (LAlert ''no pending deliveries'') s) of
           (True, s1) \<Rightarrow> s1\<lparr>flagdetached := 2\<rparr>
         | (False, s1) \<Rightarrow> s1)
      else snd (todo_write ''D'' (s\<lparr>flagdetached := 1\<rparr>)))"

definition sigusr2 :: "nat option list \<Rightarrow> qsend \<Rightarrow> qsend" where
  "sigusr2 entries s =
     (if flagdetached s = 0 then s
      else case todo_write ''A'' (pqstart entries s) of
          (True, s1) \<Rightarrow> s1\<lparr>flagdetached := 0\<rparr>
        | (False, s1) \<Rightarrow> s1)"

end
