(* ===== verification/SendMain.thy ===== *)
theory SendMain
  imports SendPass
begin

text \<open>
  Start-up, re-reading of the controls and the main loop of \<^verbatim>\<open>qmail-send.c\<close>. One iteration of the
  loop is a function of what the outside world offers in that iteration: the result of
  \<^verbatim>\<open>select\<close> and of the reads and writes it announced, a directory entry for the cleanup, the
  contents of the control files if they are to be read again.
\<close>

section \<open>Start-up\<close>

definition empty_job :: job where
  "empty_job = \<lparr>j_id = 0, j_refs = 0, j_channel = 0, j_numtodo = 0, j_hiteof = False, j_dying = False,
                j_retry = 0, j_sender = [], j_qqeh = [], j_envh = []\<rparr>"

definition empty_del :: delv where
  "empty_del = \<lparr>d_used = False, d_j = 0, d_delid = 0, d_mpos = 0, d_recip = []\<rparr>"

definition empty_pass :: passr where
  "empty_pass = \<lparr>ps_id = 0, ps_j = 0, ps_mpos = 0, ps_rest = []\<rparr>"

text \<open>\<^verbatim>\<open>job_init\<close>, \<^verbatim>\<open>del_init\<close>, \<^verbatim>\<open>pass_init\<close>, \<^verbatim>\<open>cleanup_init\<close>.\<close>

definition job_init :: "nat \<Rightarrow> qsend \<Rightarrow> qsend" where
  "job_init numjobs s = s\<lparr>jo := replicate numjobs empty_job\<rparr>"

definition del_init :: "qsend \<Rightarrow> qsend" where
  "del_init s = s\<lparr>flagspawnalive := (\<lambda>_. True), del := (\<lambda>c. replicate (concurrency s c) empty_del), dline := (\<lambda>_. [])\<rparr>"

definition pass_init :: "qsend \<Rightarrow> qsend" where
  "pass_init s = s\<lparr>pass := (\<lambda>_. empty_pass)\<rparr>"

definition cleanup_init :: "qsend \<Rightarrow> qsend" where
  "cleanup_init s = (let (t, s1) = now s in s1\<lparr>flagcleanup := False, cleanuptime := t\<rparr>)"

text \<open>
  The two bytes each spawn process sends first limit the concurrency of its channel.
\<close>

definition read_concurrency :: "nat \<Rightarrow> char \<Rightarrow> char \<Rightarrow> qsend \<Rightarrow> qsend" where
  "read_concurrency c ch1 ch2 s =
     (let u = of_char ch1 + 256 * of_char ch2 in
      s\<lparr>concurrency := (concurrency s)(c := (if concurrency s c > u then u else concurrency s c))\<rparr>)"

definition send_start :: "(nat \<Rightarrow> char \<times> char) \<Rightarrow> nat option list \<Rightarrow> qsend \<Rightarrow> qsend" where
  "send_start spawn entries s =
     (let s1 = fold (\<lambda>c. read_concurrency c (fst (spawn c)) (snd (spawn c))) chans s;
          numjobs = sum_list (map (concurrency s1) chans)
      in cleanup_init (todo_init (pass_init (del_init (job_init numjobs (pqstart entries s1))))))"

section \<open>Re-reading the controls\<close>

text \<open>\<^verbatim>\<open>control_readint\<close>: an error, no such file, a value.\<close>

datatype ctlint = CErr | CNone | CVal nat

record controls =
  ct_locals :: bool                                  \<comment> \<open>\<^verbatim>\<open>locals\<close> could be read\<close>
  ct_vdoms :: "(bytes \<Rightarrow> bytes option) option"       \<comment> \<open>\<^verbatim>\<open>virtualdomains\<close>; \<open>None\<close> on error\<close>
  ct_conc :: "nat \<Rightarrow> ctlint"
  ct_hold :: "nat \<Rightarrow> ctlint"
  ct_rest :: bool                                    \<comment> \<open>\<^verbatim>\<open>envnoathost\<close> and \<^verbatim>\<open>conf-*\<close> could be read\<close>

definition set_conc :: "nat \<Rightarrow> ctlint \<Rightarrow> qsend \<Rightarrow> qsend" where
  "set_conc c v s = (case v of CVal n \<Rightarrow> s\<lparr>concurrency := (concurrency s)(c := n)\<rparr> | _ \<Rightarrow> s)"

definition hold_val :: "ctlint \<Rightarrow> bool" where
  "hold_val v = (case v of CVal n \<Rightarrow> n \<noteq> 0 | _ \<Rightarrow> False)"

definition set_hold :: "controls \<Rightarrow> nat \<Rightarrow> qsend \<Rightarrow> qsend" where
  "set_hold ct c s =
     (let h = hold_val (ct_hold ct c) in
      if holdjobs s c \<noteq> h then
        let s1 = s\<lparr>holdjobs := (holdjobs s)(c := h)\<rparr> in if h then s1 else s1\<lparr>flagrunasap := True\<rparr>
      else s)"

definition regetcontrols :: "controls \<Rightarrow> qsend \<Rightarrow> qsend" where
  "regetcontrols ct s =
     (if \<not> ct_locals ct then s
      else case ct_vdoms ct of
        None \<Rightarrow> s
      | Some vd \<Rightarrow>
          if ct_conc ct 0 = CErr then s
          else let s1 = set_conc 0 (ct_conc ct 0) s in
            if ct_conc ct 1 = CErr then s1
            else let s2 = set_conc 1 (ct_conc ct 1) s1 in
              if ct_hold ct 0 = CErr \<or> ct_hold ct 1 = CErr \<or> \<not> ct_rest ct then s2
              else (fold (set_hold ct) chans s2)\<lparr>mapvdoms := vd\<rparr>)"

text \<open>\<^verbatim>\<open>reread(1)\<close>: \<^verbatim>\<open>chdir\<close>, tell \<^verbatim>\<open>todo-proc\<close>, read.\<close>

definition reread :: "controls \<Rightarrow> qsend \<Rightarrow> qsend" where
  "reread ct s =
     (let (ok, s1) = sys_ok s in
      if \<not> ok then slog (LAlert ''unable to reread controls'') s1
      else let (ok2, s2) = sys_ok s1 in
        if \<not> ok2 then slog (LAlert ''unable to write to todo-proc'') s2
        else regetcontrols ct (s2\<lparr>todo_out := todo_out s2 @ ''H''\<rparr>))"

section \<open>The main loop\<close>

text \<open>
  What one iteration gets from outside: the signals whose handlers run while \<^verbatim>\<open>select\<close> waits, the result of
  \<^verbatim>\<open>select\<close> (\<open>in_select\<close>: it returned; an error otherwise, \<open>in_intr\<close>: \<^verbatim>\<open>EINTR\<close>), the writable and readable
  descriptors with the result of the call on them.
\<close>

datatype sendsig = SigTerm | SigAlrm | SigHup | SigUsr1 | SigUsr2 "nat option list"

fun on_signal :: "sendsig \<Rightarrow> qsend \<Rightarrow> qsend" where
  "on_signal SigTerm s = sigterm s"
| "on_signal SigAlrm s = sigalrm s"
| "on_signal SigHup s = sighup s"
| "on_signal SigUsr1 s = sigusr1 s"
| "on_signal (SigUsr2 es) s = sigusr2 es s"

record input =
  in_signals :: "sendsig list"
  in_select :: bool
  in_intr :: bool
  in_writes :: "nat \<Rightarrow> wres option"
  in_reports :: "nat \<Rightarrow> bytes option option"
  in_todo :: "bytes option option"
  in_dirent :: dirent
  in_ossified :: int
  in_entries :: "nat option list"
  in_controls :: controls

definition loop_top :: "controls \<Rightarrow> qsend \<Rightarrow> qsend" where
  "loop_top ct s =
     (let (t, s1) = now s;
          s2 = s1\<lparr>recent := t\<rparr>;
          s3 = (if flagrunasap s2 then pqrun (s2\<lparr>flagrunasap := False\<rparr>) else s2);
          s4 = (if flagreadasap s3 then reread ct (s3\<lparr>flagreadasap := False\<rparr>) else s3)
      in todo_selprep s4)"

text \<open>The time \<^verbatim>\<open>select\<close> may wait, computed from the state when it is called.\<close>

definition select_wait :: "qsend \<Rightarrow> int" where
  "select_wait s =
     (let w0 = (if time_needed s \<noteq> 0 then recent s + time_needed s else recent s + SLEEP_FOREVER);
          wakeup = cleanup_selprep s (pass_selprep s w0)
      in if wakeup \<le> recent s then (if time_needed s \<noteq> 0 then time_needed s else 0)
         else if time_needed s \<noteq> 0 \<and> time_needed s < wakeup - recent s then time_needed s + SLEEP_FUZZ
         else wakeup - recent s + SLEEP_FUZZ)"

definition loop_work :: "libq \<Rightarrow> input \<Rightarrow> qsend \<Rightarrow> qsend" where
  "loop_work L inp s =
     (let (t, s1) = now s;
          s2 = s1\<lparr>time_needed := 0, recent := t\<rparr>
      in cleanup_do (in_ossified inp) (in_dirent inp)
           (pass_do L (todo_do L (in_todo inp) (del_do L (in_reports inp) (comm_do (in_writes inp) s2)))))"

definition loop_attach :: "nat option list \<Rightarrow> qsend \<Rightarrow> qsend" where
  "loop_attach entries s =
     (if del_canexit s \<and> flagdetached s = 1 then
        (case todo_write ''A'' (pqstart entries s) of
           (True, s1) \<Rightarrow> s1\<lparr>flagdetached := 0\<rparr>
         | (False, s1) \<Rightarrow> s1)
      else s)"

text \<open>
  The state when \<^verbatim>\<open>select\<close> returns, and whether the loop is left there: after a signal when the daemon is to exit, even
  with deliveries under way.
\<close>

definition loop_wait :: "input \<Rightarrow> qsend \<Rightarrow> qsend" where
  "loop_wait inp s = fold on_signal (in_signals inp) (loop_top (in_controls inp) s)"

definition loop_breaks :: "input \<Rightarrow> qsend \<Rightarrow> bool" where
  "loop_breaks inp s \<longleftrightarrow> \<not> in_select inp \<and> in_intr inp \<and> flagexitsend s"

definition send_iter :: "libq \<Rightarrow> input \<Rightarrow> qsend \<Rightarrow> qsend" where
  "send_iter L inp s =
     (let s1 = loop_wait inp s
      in if loop_breaks inp s1 then s1
         else loop_attach (in_entries inp) (if in_select inp then loop_work L inp s1 else s1))"

text \<open>The condition of the loop, and running it over a list of inputs.\<close>

definition send_alive :: "qsend \<Rightarrow> bool" where
  "send_alive s \<longleftrightarrow> \<not> flagexitsend s \<or> \<not> del_canexit s \<or> flagtodoalive s"

fun send_run :: "libq \<Rightarrow> input list \<Rightarrow> qsend \<Rightarrow> qsend" where
  "send_run L [] s = s"
| "send_run L (i # is) s =
     (if \<not> send_alive s then pqfinish s
      else if loop_breaks i (loop_wait i s) then pqfinish (send_iter L i s)
      else send_run L is (send_iter L i s))"

end
