(* ===== verification/SendFrame.thy ===== *)
theory SendFrame
  imports SendMain
begin

text \<open>
  What the operations of the queue manager leave alone. \<open>proj s\<close> collects the jobs, the delivery
  slots, the passes, the concurrency counters, the recipient lists on disk and the record of failed
  marks; every operation that is not one of the few that manage them preserves \<open>proj\<close>.
\<close>

definition cdata :: "qsend \<Rightarrow> nat \<Rightarrow> nat \<Rightarrow> bytes option" where
  "cdata s c i = map_option f_data (files s (FChan c i))"

definition twice :: "qsend \<Rightarrow> (nat \<times> nat) set" where
  "twice s = {(c, i). LTwice (FChan c i) \<in> set (logs s)}"

definition unlinked :: "qsend \<Rightarrow> (nat \<times> nat \<times> bytes) set" where
  "unlinked s = {(c, i, b). SUnlink (FChan c i) b \<in> set (w_trace (sw s))}"

definition proj where
  "proj s = (jo s, del s, pass s, concurrency s, concurrencyused s, ub s, cdata s, twice s, unlinked s)"

named_theorems proj_simps \<open>\<open>proj\<close> is unchanged\<close>
named_theorems proj_dests \<open>\<open>proj\<close> is unchanged by a call that returned a pair\<close>

lemma cdata_cong: "w_files (sw s) = w_files (sw t) \<Longrightarrow> cdata s = cdata t"
  by (auto simp: cdata_def fun_eq_iff)

lemma proj_eqI:
  assumes "jo s = jo t" "del s = del t" "pass s = pass t" "concurrency s = concurrency t"
    "concurrencyused s = concurrencyused t" "ub s = ub t" "w_files (sw s) = w_files (sw t)"
    "twice s = twice t" "w_trace (sw s) = w_trace (sw t)"
  shows "proj s = proj t"
  using assms cdata_cong [of s t] by (simp add: proj_def unlinked_def)

definition not_twice :: "logev \<Rightarrow> bool" where
  "not_twice e = (case e of LTwice (FChan c i) \<Rightarrow> False | _ \<Rightarrow> True)"

lemma twice_slog [simp]: "not_twice e \<Longrightarrow> twice (slog e s) = twice s"
  by (auto simp: twice_def slog_def not_twice_def)

lemma not_twice_simps [simp]:
  "not_twice (LStart a b c d)" "not_twice (LSuccess a d)" "not_twice (LDeferral a d)"
  "not_twice (LFailure a d)" "not_twice (LMangled a)" "not_twice (LRange a)" "not_twice (LNoStat f)"
  "not_twice (LNoUnlink f)" "not_twice (LNoOpen f)" "not_twice (LNoRead f)" "not_twice (LNoUtime f)"
  "not_twice (LUnknownRecord f)" "not_twice (LNoRate d)" "not_twice LDialect" "not_twice (LTodo d)"
  "not_twice (LBounceMsg a)" "not_twice (LTripleBounce f)" "not_twice (LDoubleBounce f)"
  "not_twice (LDeleteBounce f)" "not_twice LInjectTrouble" "not_twice (LEndMsg a)"
  "not_twice (LNoClean f)" "not_twice (LAlert d)"
  by (simp_all add: not_twice_def)

lemma proj_slog [proj_simps]: "not_twice e \<Longrightarrow> proj (slog e s) = proj s"
  by (rule proj_eqI) (simp_all add: slog_def [of e s] twice_slog [unfolded slog_def])

lemma proj_tickw [proj_simps]: "proj (tickw s) = proj s"
  by (rule proj_eqI) (simp_all add: tickw_def twice_def)

lemma proj_put [proj_simps]: "(\<And>c i. f \<noteq> FChan c i) \<Longrightarrow> proj (put_file f x s) = proj s"
  by (auto simp: proj_def put_file_def twice_def cdata_def unlinked_def fun_eq_iff)

lemma proj_trace [proj_simps]: "(\<And>c i b. e \<noteq> SUnlink (FChan c i) b) \<Longrightarrow> proj (trace e s) = proj s"
  by (auto simp: proj_def trace_def twice_def cdata_def unlinked_def fun_eq_iff)

lemma proj_upd [proj_simps]:
  "proj (s\<lparr>delayed_jobs := n\<rparr>) = proj s" "proj (s\<lparr>flagexitsend := x\<rparr>) = proj s"
  "proj (s\<lparr>flagrunasap := x\<rparr>) = proj s" "proj (s\<lparr>flagreadasap := x\<rparr>) = proj s"
  "proj (s\<lparr>flagdetached := n\<rparr>) = proj s" "proj (s\<lparr>flagtodoalive := x\<rparr>) = proj s"
  "proj (s\<lparr>todoline := b\<rparr>) = proj s" "proj (s\<lparr>todo_out := b\<rparr>) = proj s"
  "proj (s\<lparr>flagspawnalive := fl\<rparr>) = proj s" "proj (s\<lparr>recent := t\<rparr>) = proj s"
  "proj (s\<lparr>time_needed := t\<rparr>) = proj s" "proj (s\<lparr>comm_buf := cb\<rparr>) = proj s"
  "proj (s\<lparr>comm_pos := cp\<rparr>) = proj s" "proj (s\<lparr>comm_out := co\<rparr>) = proj s"
  "proj (s\<lparr>flagcleanup := x\<rparr>) = proj s" "proj (s\<lparr>cleanuptime := t\<rparr>) = proj s"
  "proj (s\<lparr>pqchan := pc\<rparr>) = proj s" "proj (s\<lparr>pqdone := pd\<rparr>) = proj s" "proj (s\<lparr>pqfail := pd\<rparr>) = proj s"
  "proj (s\<lparr>orig_recip := b\<rparr>) = proj s" "proj (s\<lparr>dline := dl\<rparr>) = proj s"
  "proj (s\<lparr>mapvdoms := vd\<rparr>) = proj s" "proj (s\<lparr>holdjobs := hj\<rparr>) = proj s"
  by (simp_all add: proj_def cdata_def fun_eq_iff twice_def unlinked_def)

section \<open>Calls that return a pair\<close>

lemma proj_now [proj_dests]: "now s = (t, s') \<Longrightarrow> proj s' = proj s"
  by (auto simp: now_def proj_simps)

lemma proj_stat [proj_dests]: "sys_stat f s = (r, s') \<Longrightarrow> proj s' = proj s"
  by (auto simp: sys_stat_def proj_simps)

lemma proj_ok [proj_dests]: "sys_ok s = (r, s') \<Longrightarrow> proj s' = proj s"
  by (auto simp: sys_ok_def proj_simps)

lemma proj_unlink [proj_dests]: "sys_unlink f s = (r, s') \<Longrightarrow> (\<And>c i. f \<noteq> FChan c i) \<Longrightarrow> proj s' = proj s"
  by (auto simp: sys_unlink_def proj_simps split: sum.splits)

lemma proj_insert [proj_simps]:
  "proj (insert_chan c e s) = proj s" "proj (insert_done e s) = proj s" "proj (insert_fail e s) = proj s"
  by (simp_all add: insert_chan_def insert_done_def insert_fail_def proj_simps)

lemma proj_fold_chan [proj_simps]: "proj (fold (\<lambda>(c, pe). insert_chan c pe) es s) = proj s"
  by (induction es arbitrary: s) (auto simp: proj_simps)

lemma proj_fold_chan' [proj_simps]: "proj (fold (\<lambda>c. insert_chan c pe) cs s) = proj s"
  by (induction cs arbitrary: s) (auto simp: proj_simps)

lemma proj_getinfo_lines [proj_dests]: "getinfo_lines rest a s = (r, s') \<Longrightarrow> proj s' = proj s"
proof (induction rest a s arbitrary: r s' rule: getinfo_lines.induct)
  case (1 rest sa qh eh s)
  obtain ok s1 where ok: "sys_ok s = (ok, s1)" by force
  then have p1: "proj s1 = proj s" by (rule proj_ok)
  show ?case
  proof (cases ok)
    case False
    then show ?thesis using 1(3) ok p1 by (subst (asm) getinfo_lines.simps) auto
  next
    case True
    show ?thesis
    proof (cases "read_record rest")
      case None
      then show ?thesis using 1(3) ok p1 True by (subst (asm) getinfo_lines.simps) auto
    next
      case (Some lr)
      obtain line rest' where lr: "lr = (line, rest')" by force
      show ?thesis
      proof (cases line)
        case Nil
        have "getinfo_lines rest' (sa, qh, eh) s1 = (r, s')"
          using 1(3) ok True Some lr Nil by (subst (asm) getinfo_lines.simps) auto
        then show ?thesis using 1(1) ok True Some lr Nil p1 by metis
      next
        case (Cons t arg)
        have "getinfo_lines rest' (if t = CHR ''F'' then arg else sa, if t = CHR ''e'' then arg else qh,
            if t = CHR ''h'' then arg else eh) s1 = (r, s')"
          using 1(3) ok True Some lr Cons by (subst (asm) getinfo_lines.simps) auto
        then show ?thesis using 1(2) ok True Some lr Cons p1 by metis
      qed
    qed
  qed
qed

lemma proj_getinfo [proj_dests]: "getinfo i s = (r, s') \<Longrightarrow> proj s' = proj s"
  by (auto simp: getinfo_def split: prod.splits sum.splits if_splits option.splits dest!: proj_dests)

lemma proj_pqadd_stat [proj_dests]: "pqadd_stat i d cs s = (r, s') \<Longrightarrow> proj s' = proj s"
proof (induction cs arbitrary: s r s')
  case Nil
  then show ?case by simp
next
  case (Cons c cs)
  then show ?case
    by (auto simp: Let_def proj_simps split: prod.splits sum.splits errno.splits if_splits dest!: proj_dests)
qed

lemma proj_pqadd_fail [proj_simps]: "proj (pqadd_fail i f s) = proj s"
  by (auto simp: pqadd_fail_def Let_def proj_simps split: prod.splits dest!: proj_dests)

lemma proj_pqadd [proj_simps]: "proj (pqadd i d s) = proj s"
  by (auto simp: pqadd_def Let_def proj_simps split: prod.splits sum.splits errno.splits list.splits
      dest!: proj_dests)

lemma proj_pqstart [proj_simps]: "proj (pqstart es s) = proj s"
proof -
  have "proj (fold (\<lambda>e s. case e of None \<Rightarrow> s | Some i \<Rightarrow> pqadd i (do_ratelimit s) s) es s) = proj s" for s
    by (induction es arbitrary: s) (auto simp: proj_simps split: option.splits)
  then show ?thesis by (simp add: pqstart_def Let_def proj_simps)
qed

lemma proj_pqrun [proj_simps]: "proj (pqrun s) = proj s"
  by (simp add: pqrun_def proj_simps)

lemma proj_other_chans [proj_dests]: "other_chans i ch cs s = (r, s') \<Longrightarrow> proj s' = proj s"
proof (induction cs arbitrary: s)
  case (Cons c cs)
  then show ?case
    by (auto simp: proj_simps split: prod.splits sum.splits errno.splits if_splits dest!: proj_dests)
qed (simp add: proj_simps)

lemma proj_requeue [proj_simps]: "proj (requeue j t s) = proj s"
  by (simp add: requeue_def proj_simps)

lemma proj_exit_todo [proj_simps]: "proj (exit_todo s) = proj s"
  by (auto simp: exit_todo_def Let_def proj_simps split: list.splits)

lemma proj_spawndied [proj_simps]: "proj (spawndied c s) = proj s"
  by (auto simp: spawndied_def Let_def proj_simps)

lemma proj_comm [proj_simps]:
  "proj (comm_write L c n i a b d e s) = proj s" "proj (comm_do_chan c wr s) = proj s"
  by (auto simp: comm_write_def comm_do_chan_def Let_def proj_simps split: option.splits wres.splits)

lemma proj_comm_do [proj_simps]: "proj (comm_do wr s) = proj s"
  by (simp add: comm_do_def proj_simps)

lemma proj_addbounce [proj_simps]: "proj (addbounce L i r t s) = proj s"
  by (auto simp: addbounce_def append_file_def Let_def proj_simps)

lemma proj_inject_unlink [proj_dests]: "inject_unlink i s = (r, s') \<Longrightarrow> proj s' = proj s"
  by (auto simp: inject_unlink_def proj_simps split: prod.splits option.splits dest!: proj_dests)

lemma proj_inject_send [proj_dests]: "inject_send L i a s = (r, s') \<Longrightarrow> proj s' = proj s"
  by (auto simp: inject_send_def Let_def proj_simps split: prod.splits option.splits if_splits bool.splits dest!: proj_dests)

lemma proj_injectbounce [proj_dests]: "injectbounce L i s = (r, s') \<Longrightarrow> proj s' = proj s"
  by (auto simp: injectbounce_def Let_def proj_simps
      split: prod.splits option.splits if_splits sum.splits errno.splits dest!: proj_dests)

lemma proj_cleandied [proj_simps]: "proj (cleandied s) = proj s"
  by (auto simp: cleandied_def Let_def proj_simps)

lemma proj_ask_clean [proj_simps]: "proj (ask_clean i s) = proj s"
  by (auto simp: ask_clean_def Let_def proj_simps)

lemma proj_messdone_fail [proj_simps]: "proj (messdone_fail i s) = proj s"
  by (auto simp: messdone_fail_def Let_def proj_simps split: prod.splits dest!: proj_dests)

lemma proj_messdone_chans [proj_dests]: "messdone_chans i cs s = (r, s') \<Longrightarrow> proj s' = proj s"
proof (induction cs arbitrary: s)
  case (Cons c cs)
  then show ?case
    by (auto simp: proj_simps split: prod.splits sum.splits errno.splits if_splits dest!: proj_dests)
qed (simp add: proj_simps)

lemma proj_messdone_end [proj_simps]: "proj (messdone_end L i s) = proj s"
  by (auto simp: messdone_end_def Let_def proj_simps split: prod.splits option.splits bool.splits dest!: proj_dests)

lemma proj_messdone [proj_simps]: "proj (messdone L i s) = proj s"
  by (auto simp: messdone_def Let_def proj_simps
      split: prod.splits option.splits bool.splits sum.splits errno.splits dest!: proj_dests)

lemma proj_cleanup_do [proj_simps]: "proj (cleanup_do o1 ent s) = proj s"
  by (auto simp: cleanup_do_def cleanup_mess_def Let_def proj_simps
      split: prod.splits dirent.splits sum.splits errno.splits if_splits dest!: proj_dests)

lemma proj_todo_write [proj_dests]: "todo_write b s = (r, s') \<Longrightarrow> proj s' = proj s"
  by (auto simp: todo_write_def Let_def proj_simps split: prod.splits if_splits dest!: proj_dests)

lemma proj_todo [proj_simps]:
  "proj (tododied s) = proj s" "proj (todo_selprep s) = proj s" "proj (todo_del L m s) = proj s"
  by (auto simp: tododied_def todo_selprep_def todo_del_def Let_def proj_simps
      split: prod.splits option.splits list.splits if_splits dest!: proj_dests)

lemma proj_todo_do [proj_simps]: "proj (todo_do L rd s) = proj s"
proof -
  have byte: "proj (todo_byte L ch s) = proj s" for ch s
    by (auto simp: todo_byte_def todo_line_def Let_def proj_simps)
  have "proj (fold (todo_byte L) b s) = proj s" for b s
    by (induction b arbitrary: s) (auto simp: byte)
  then show ?thesis by (auto simp: byte todo_do_def proj_simps split: option.splits list.splits)
qed

lemma proj_signals [proj_simps]:
  "proj (sigterm s) = proj s" "proj (sigalrm s) = proj s" "proj (sighup s) = proj s"
  "proj (sigusr1 s) = proj s" "proj (sigusr2 es s) = proj s" "proj (loop_attach es s) = proj s"
  by (auto simp: sigterm_def sigalrm_def sighup_def sigusr1_def sigusr2_def loop_attach_def proj_simps
      split: prod.splits bool.splits dest!: proj_dests)
     (metis proj_todo_write proj_upd(5) prod.collapse proj_slog not_twice_simps(23) proj_pqstart)+

end
