(* ===== verification/SendFiles.thy ===== *)
theory SendFiles
  imports SendFrame
begin

text \<open>
  Recipient lists on disk. \<open>todo_pos b\<close> are the offsets of the complete records of type \<^verbatim>\<open>T\<close> of
  a list \<open>b\<close>: the recipients still to do. Marking a record done replaces \<^verbatim>\<open>T\<close> by \<^verbatim>\<open>D\<close>; \<open>marks\<close>
  relates a list to a later one. \<open>job_ok\<close> is what an open job knows about its list.
\<close>

definition todo_pos :: "bytes \<Rightarrow> nat set" where
  "todo_pos b = {p. p < length b \<and> b ! p = CHR ''T'' \<and> (p = 0 \<or> b ! (p - 1) = NUL) \<and> NUL \<in> set (drop p b)}"

definition mark :: "char \<Rightarrow> char \<Rightarrow> bool" where
  "mark a b \<longleftrightarrow> a = b \<or> (a = CHR ''T'' \<and> b = CHR ''D'')"

abbreviation marks :: "bytes \<Rightarrow> bytes \<Rightarrow> bool" where
  "marks \<equiv> list_all2 mark"

lemma mark_simps [simp]:
  "mark a a" "mark NUL b \<longleftrightarrow> b = NUL" "mark a NUL \<longleftrightarrow> a = NUL" "mark a CHR ''T'' \<longleftrightarrow> a = CHR ''T''"
  by (auto simp: mark_def)

lemma mark_trans: "mark a b \<Longrightarrow> mark b c \<Longrightarrow> mark a c"
  by (auto simp: mark_def)

lemma marks_refl [simp]: "marks b b"
  by (simp add: list_all2_same)

lemma marks_trans: "marks a b \<Longrightarrow> marks b c \<Longrightarrow> marks a c"
  by (rule list_all2_trans [of mark mark mark]) (auto intro: mark_trans)

lemma marks_nth: "marks a b \<Longrightarrow> p < length a \<Longrightarrow> mark (a ! p) (b ! p)"
  by (rule list_all2_nthD)

lemma marks_length: "marks a b \<Longrightarrow> length b = length a"
  by (auto dest: list_all2_lengthD)

lemma marks_nul: "marks a b \<Longrightarrow> NUL \<in> set a \<longleftrightarrow> NUL \<in> set b"
  by (metis in_set_conv_nth mark_simps(2,3) marks_length marks_nth)

lemma marks_drop: "marks a b \<Longrightarrow> marks (drop n a) (drop n b)"
  by (rule list_all2_dropI)

lemma marks_todo: "marks a b \<Longrightarrow> todo_pos b \<subseteq> todo_pos a"
proof
  fix p
  assume m: "marks a b" and "p \<in> todo_pos b"
  then have p: "p < length b" "b ! p = CHR ''T''" "p = 0 \<or> b ! (p - 1) = NUL" "NUL \<in> set (drop p b)"
    by (auto simp: todo_pos_def)
  have "p < length a" "p - 1 < length a" using p marks_length [OF m] by auto
  then have "a ! p = CHR ''T''" "p = 0 \<or> a ! (p - 1) = NUL"
    using marks_nth [OF m, of p] marks_nth [OF m, of "p - 1"] p by auto
  moreover have "NUL \<in> set (drop p a)" using marks_nul [OF marks_drop [OF m]] p by blast
  ultimately show "p \<in> todo_pos a" using p marks_length [OF m] by (auto simp: todo_pos_def)
qed

lemma marks_set: "p < length b \<Longrightarrow> b ! p \<in> {CHR ''T'', CHR ''D''} \<Longrightarrow> marks b (b[p := CHR ''D''])"
  by (auto simp: list_all2_conv_all_nth nth_list_update mark_def)

lemma todo_pos_set: "p \<notin> todo_pos (b[p := CHR ''D''])"
  by (auto simp: todo_pos_def)

text \<open>Reading one record at the offset \<open>m\<close> of a list from a snapshot \<open>rest\<close> of its tail.\<close>

definition reading :: "bytes \<Rightarrow> nat \<Rightarrow> bytes \<Rightarrow> bool" where
  "reading b m rest \<longleftrightarrow> marks rest (drop m b) \<and> (m = 0 \<or> (m \<le> length b \<and> b ! (m - 1) = NUL))"

lemma reading_nth: "reading b m rest \<Longrightarrow> i < length rest \<Longrightarrow> m + i < length b \<and> mark (rest ! i) (b ! (m + i))"
  unfolding reading_def using marks_nth [of rest "drop m b" i] marks_length [of rest "drop m b"] by auto

lemma reading_next:
  assumes r: "reading b m rest" and rr: "read_record rest = Some (line, rest')"
  shows "reading b (m + length line + 1) rest'"
proof -
  have eq: "rest = line @ NUL # rest'" using read_record_Some rr by blast
  have "marks (drop (length line + 1) rest) (drop (length line + 1) (drop m b))"
    using r marks_drop unfolding reading_def by blast
  then have "marks rest' (drop (m + length line + 1) b)" by (simp add: eq add.commute add.left_commute)
  moreover have "m + length line < length b" "b ! (m + length line) = NUL"
    using reading_nth [OF r, of "length line"] by (auto simp: eq)
  ultimately show ?thesis by (simp add: reading_def)
qed

lemma reading_todo:
  assumes r: "reading b m rest" and rr: "read_record rest = Some (line, rest')"
  shows "todo_pos b \<inter> {..<m + length line + 1}
       \<subseteq> (todo_pos b \<inter> {..<m}) \<union> (if line \<noteq> [] \<and> hd line = CHR ''T'' then {m} else {})"
proof
  fix p
  assume p: "p \<in> todo_pos b \<inter> {..<m + length line + 1}"
  have eq: "rest = line @ NUL # rest'" and nn: "no_nul line" using read_record_Some rr by blast+
  show "p \<in> (todo_pos b \<inter> {..<m}) \<union> (if line \<noteq> [] \<and> hd line = CHR ''T'' then {m} else {})"
  proof (cases "p < m")
    case True
    then show ?thesis using p by blast
  next
    case False
    show ?thesis
    proof (cases "p = m")
      case True
      then have "rest ! 0 = CHR ''T''" using reading_nth [OF r, of 0] p by (auto simp: eq todo_pos_def)
      then show ?thesis using True eq by (cases line) auto
    next
      case pm: False
      let ?i = "p - 1 - m"
      have i: "?i < length line" "m + ?i = p - 1" using False pm p by auto
      then have "rest ! ?i = NUL" using reading_nth [OF r, of ?i] p pm False by (auto simp: eq todo_pos_def)
      then have "NUL \<in> set line" using i by (auto simp: eq nth_append in_set_conv_nth split: if_splits)
      then show ?thesis using nn by (simp add: no_nul_def)
    qed
  qed
qed

lemma reading_eof:
  assumes "reading b m rest" "read_record rest = None"
  shows "todo_pos b \<subseteq> {..<m}"
proof
  fix p
  assume p: "p \<in> todo_pos b"
  have "NUL \<notin> set (drop m b)"
    using assms marks_nul read_record_None unfolding reading_def no_nul_def by blast
  moreover have "set (drop p b) \<subseteq> set (drop m b)" if "m \<le> p" using that by (rule set_drop_subset_set_drop)
  ultimately show "p \<in> {..<m}" using p by (auto simp: todo_pos_def not_le [symmetric])
qed

lemma reading_mark:
  "reading b m rest \<Longrightarrow> read_record rest = Some (CHR ''T'' # l, rest') \<Longrightarrow>
   m < length b \<and> b ! m \<in> {CHR ''T'', CHR ''D''}"
  using reading_nth [of b m rest 0] read_record_Some [of rest "CHR ''T'' # l" rest']
  by (auto simp: mark_def)

lemma reading_marks:
  assumes r: "reading b m rest" and m: "marks b b'"
  shows "reading b' m rest"
proof -
  have "marks rest (drop m b')" using r marks_drop [OF m] marks_trans unfolding reading_def by blast
  moreover have "m \<le> length b' \<and> b' ! (m - 1) = NUL" if "m \<noteq> 0"
  proof -
    have b: "m \<le> length b" "b ! (m - 1) = NUL" using r that by (auto simp: reading_def)
    then have "m - 1 < length b" using that by simp
    then show ?thesis using marks_nth [OF m, of "m - 1"] marks_length [OF m] b by simp
  qed
  ultimately show ?thesis by (auto simp: reading_def)
qed

section \<open>A job and its list\<close>

text \<open>
  \<open>M\<close>: the offsets of the deliveries under way; \<open>P\<close>: offset and unread tail if the list is still
  being read; \<open>F\<close>: the list on disk; \<open>n\<close> is \<^verbatim>\<open>numtodo\<close>, \<open>h\<close> is \<^verbatim>\<open>flaghiteof\<close>; \<open>tw\<close>: a mark
  failed. \<open>U\<close> are the recipients read and not yet marked done.
\<close>

definition seen :: "bool \<Rightarrow> (nat \<times> bytes) option \<Rightarrow> nat set" where
  "seen h P = (if h then UNIV else case P of None \<Rightarrow> {} | Some (m, rest) \<Rightarrow> {..<m})"

definition job_todo ::
  "bool \<Rightarrow> nat multiset \<Rightarrow> (nat \<times> bytes) option \<Rightarrow> bytes option \<Rightarrow> bool \<Rightarrow> nat set \<Rightarrow> bool" where
  "job_todo h M P F tw U \<longleftrightarrow>
     finite U \<and> M \<subseteq># mset_set U \<and>
     (\<forall>m rest. P = Some (m, rest) \<longrightarrow> U \<subseteq> {..<m} \<and> (\<forall>b. F = Some b \<longrightarrow> reading b m rest)) \<and>
     (\<forall>b. F = Some b \<longrightarrow>
        (\<forall>p\<in>#M. p < length b \<and> b ! p \<in> {CHR ''T'', CHR ''D''}) \<and>
        (\<not> tw \<longrightarrow> todo_pos b \<inter> seen h P \<subseteq> U))"

definition job_ok ::
  "bool \<Rightarrow> int \<Rightarrow> nat multiset \<Rightarrow> (nat \<times> bytes) option \<Rightarrow> bytes option \<Rightarrow> bool \<Rightarrow> bool" where
  "job_ok h n M P F tw \<longleftrightarrow> (h \<longrightarrow> P = None) \<and> (\<exists>U. int (card U) = n \<and> job_todo h M P F tw U)"

definition file_le :: "bytes option \<Rightarrow> bytes option \<Rightarrow> bool" where
  "file_le F F' \<longleftrightarrow> (\<forall>b'. F' = Some b' \<longrightarrow> (\<exists>b. F = Some b \<and> marks b b'))"

lemma file_le_refl [simp]: "file_le F F" and file_le_None [simp]: "file_le F None"
  by (auto simp: file_le_def)

lemma job_todo_mono:
  assumes U: "job_todo h M P F tw U" and le: "file_le F F'" and tw: "tw \<Longrightarrow> tw'"
  shows "job_todo h M P F' tw' U"
  unfolding job_todo_def
proof (intro conjI allI impI ballI)
  show "finite U" "M \<subseteq># mset_set U" using U by (auto simp: job_todo_def)
  fix m rest
  assume P: "P = Some (m, rest)"
  show "U \<subseteq> {..<m}" using U P by (auto simp: job_todo_def)
  fix b'
  assume "F' = Some b'"
  then obtain b where b: "F = Some b" "marks b b'" using le by (auto simp: file_le_def)
  have "reading b m rest" using U P b unfolding job_todo_def by blast
  then show "reading b' m rest" using b(2) by (rule reading_marks)
next
  fix b'
  assume "F' = Some b'"
  then obtain b where b: "F = Some b" "marks b b'" using le by (auto simp: file_le_def)
  show "p < length b'" "b' ! p \<in> {CHR ''T'', CHR ''D''}" if "p \<in># M" for p
  proof -
    have "p < length b \<and> b ! p \<in> {CHR ''T'', CHR ''D''}" using U b(1) that unfolding job_todo_def by blast
    then show "p < length b'" "b' ! p \<in> {CHR ''T'', CHR ''D''}"
      using marks_nth [OF b(2), of p] marks_length [OF b(2)] by (auto simp: mark_def)
  qed
  assume "\<not> tw'"
  then have "\<not> tw" using tw by blast
  then show "todo_pos b' \<inter> seen h P \<subseteq> U"
    using U b(1) marks_todo [OF b(2)] unfolding job_todo_def by blast
qed

lemma job_ok_mono: "job_ok h n M P F tw \<Longrightarrow> file_le F F' \<Longrightarrow> (tw \<Longrightarrow> tw') \<Longrightarrow> job_ok h n M P F' tw'"
  unfolding job_ok_def using job_todo_mono by metis

lemma job_ok_open: "job_ok False 0 {#} (Some (0, b)) (Some b) tw"
  unfolding job_ok_def by (rule conjI, simp, rule exI [of _ "{}"]) (auto simp: job_todo_def reading_def seen_def)

text \<open>A record read that is not to do (or whose deliveries are all done) moves the offset.\<close>

lemma job_ok_skip:
  assumes ok: "job_ok False n M (Some (m, rest)) F tw"
    and rr: "read_record rest = Some (line, rest')" and nt: "line = [] \<or> hd line \<noteq> CHR ''T''"
  shows "job_ok False n M (Some (m + length line + 1, rest')) F tw"
proof -
  obtain U where U: "int (card U) = n" "job_todo False M (Some (m, rest)) F tw U"
    using ok by (auto simp: job_ok_def)
  have "job_todo False M (Some (m + length line + 1, rest')) F tw U"
  proof -
    have "todo_pos b \<inter> {..<m + length line + 1} \<subseteq> U" if "F = Some b" "\<not> tw" for b
      using U(2) that reading_todo [of b m rest, OF _ rr] nt unfolding job_todo_def seen_def by fastforce
    then show ?thesis
      using U(2) reading_next [OF _ rr] unfolding job_todo_def seen_def by fastforce
  qed
  then show ?thesis using U(1) by (auto simp: job_ok_def)
qed

text \<open>A recipient to do is counted; \<open>new\<close> says whether its delivery was started.\<close>

lemma job_ok_recipient:
  assumes ok: "job_ok False n M (Some (m, rest)) F tw"
    and rr: "read_record rest = Some (CHR ''T'' # recip, rest')"
  shows "job_ok False (n + 1) (if new then add_mset m M else M) (Some (m + length (CHR ''T'' # recip) + 1, rest')) F tw"
proof -
  obtain U where U: "int (card U) = n" "job_todo False M (Some (m, rest)) F tw U"
    using ok by (auto simp: job_ok_def)
  let ?M = "if new then add_mset m M else M" and ?m = "m + length (CHR ''T'' # recip) + 1"
  have fin: "finite U" and M: "M \<subseteq># mset_set U" and Um: "U \<subseteq> {..<m}"
    and rd: "\<And>b. F = Some b \<Longrightarrow> reading b m rest"
    and pos: "\<And>b p. F = Some b \<Longrightarrow> p \<in># M \<Longrightarrow> p < length b \<and> b ! p \<in> {CHR ''T'', CHR ''D''}"
    and td: "\<And>b. F = Some b \<Longrightarrow> \<not> tw \<Longrightarrow> todo_pos b \<inter> {..<m} \<subseteq> U"
    using U(2) by (auto simp: job_todo_def seen_def)
  have mU: "m \<notin> U" using Um by auto
  have "job_todo False ?M (Some (?m, rest')) F tw (insert m U)"
    unfolding job_todo_def
  proof (intro conjI allI impI ballI)
    show "finite (insert m U)" using fin by simp
    have "add_mset m M \<subseteq># mset_set (insert m U)" "M \<subseteq># mset_set (insert m U)"
      using M mU fin by (auto intro: subset_mset.order_trans)
    then show "?M \<subseteq># mset_set (insert m U)" by simp
  next
    fix m' r' b
    assume "Some (?m, rest') = Some (m', r')"
    then have [simp]: "m' = ?m" "r' = rest'" by simp_all
    show "insert m U \<subseteq> {..<m'}" using Um by auto
    show "reading b m' r'" if "F = Some b" using reading_next [OF rd [OF that] rr] by simp
  next
    fix b
    assume F: "F = Some b"
    show "p < length b" "b ! p \<in> {CHR ''T'', CHR ''D''}" if "p \<in># ?M" for p
      using that pos [OF F] reading_mark [OF rd [OF F] rr] by (auto split: if_splits)
    assume "\<not> tw"
    then show "todo_pos b \<inter> seen False (Some (?m, rest')) \<subseteq> insert m U"
      using td [OF F] reading_todo [OF rd [OF F] rr] by (auto simp: seen_def)
  qed
  moreover have "int (card (insert m U)) = n + 1" using U(1) fin mU by simp
  ultimately show ?thesis unfolding job_ok_def by blast
qed

text \<open>The end of the list, and a pass given up.\<close>

lemma job_ok_eof:
  assumes "job_ok False n M (Some (m, rest)) F tw" "read_record rest = None"
  shows "job_ok True n M None F tw"
proof -
  obtain U where U: "int (card U) = n" "job_todo False M (Some (m, rest)) F tw U"
    using assms(1) by (auto simp: job_ok_def)
  have "job_todo True M None F tw U"
    using U(2) reading_eof [OF _ assms(2)] unfolding job_todo_def seen_def by fastforce
  then show ?thesis using U(1) by (auto simp: job_ok_def)
qed

lemma job_ok_giveup: "job_ok False n M P F tw \<Longrightarrow> job_ok False n M None F tw"
  unfolding job_ok_def job_todo_def seen_def by fastforce

text \<open>A delivery ends without success, or its record is marked.\<close>

lemma job_todo_defer: "job_todo h (add_mset p M) P F tw U \<Longrightarrow> job_todo h M P F tw U"
  unfolding job_todo_def by (auto dest: subset_mset.order_trans [OF multi_psub_of_add_self [THEN subset_mset.less_imp_le]])

lemma job_ok_defer: "job_ok h n (add_mset p M) P F tw \<Longrightarrow> job_ok h n M P F tw"
  unfolding job_ok_def using job_todo_defer by metis

definition set_done :: "nat \<Rightarrow> bytes option \<Rightarrow> bytes option" where
  "set_done p F = map_option (\<lambda>b. b[p := CHR ''D'']) F"

lemma job_todo_mark_le: "job_todo h (add_mset p M) P F tw U \<Longrightarrow> file_le F (set_done p F)"
  using marks_set unfolding job_todo_def file_le_def set_done_def by (cases F) auto

lemma mset_set_remove: "finite U \<Longrightarrow> add_mset p M \<subseteq># mset_set U \<Longrightarrow> p \<in> U \<and> M \<subseteq># mset_set (U - {p})"
proof -
  assume f: "finite U" and s: "add_mset p M \<subseteq># mset_set U"
  then have p: "p \<in> U" by (metis finite_set_mset_mset_set insert_subset set_mset_add_mset_insert set_mset_mono)
  then have "mset_set U = add_mset p (mset_set (U - {p}))" using f by (simp add: mset_set.remove)
  then show ?thesis using s p by simp
qed

lemma job_ok_done:
  assumes ok: "job_ok h n (add_mset p M) P F tw"
    and tw: "tw \<Longrightarrow> tw'" and F': "F' = set_done p F \<or> F' = F \<and> tw'"
  shows "job_ok h (n - 1) M P F' tw'"
proof -
  obtain U where U: "int (card U) = n" "job_todo h (add_mset p M) P F tw U"
    using ok by (auto simp: job_ok_def)
  have le: "file_le F F'" using F' job_todo_mark_le [OF U(2)] by auto
  have td: "job_todo h (add_mset p M) P F' tw' U" by (rule job_todo_mono [OF U(2) le tw])
  have fin: "finite U" and s: "add_mset p M \<subseteq># mset_set U" using U(2) by (auto simp: job_todo_def)
  have p: "p \<in> U" and s': "M \<subseteq># mset_set (U - {p})" using mset_set_remove [OF fin s] by blast+
  have np: "p \<notin> todo_pos b" if "F' = Some b" "\<not> tw'" for b
    using F' that todo_pos_set by (cases F) (auto simp: set_done_def)
  have "job_todo h M P F' tw' (U - {p})"
    using job_todo_defer [OF td] s' np fin unfolding job_todo_def by blast
  moreover have "int (card (U - {p})) = n - 1"
    using U(1) fin p by (simp add: card_Diff_singleton) (metis card_0_eq empty_iff of_nat_1 of_nat_diff One_nat_def Suc_leI neq0_conv)
  ultimately show ?thesis using ok unfolding job_ok_def by blast
qed

text \<open>When nothing is left to do, no complete record of the list says otherwise.\<close>

lemma job_ok_zero: "job_ok True 0 M P (Some b) tw \<Longrightarrow> tw \<or> todo_pos b = {}"
  unfolding job_ok_def job_todo_def seen_def by auto

end
