(* ===== verification/SendQueues.thy ===== *)
theory SendQueues
  imports SendFrame
begin

text \<open>
  The priority queues of the queue manager stay heaps in the order \<^verbatim>\<open>min\<close>, and message number 0,
  which \<^verbatim>\<open>pass[c].id\<close> reserves for "no pass", never enters one. The lemmas rest on the
  interpretation \<open>pmin\<close> of the contract of theory \<open>Prioq\<close>.
\<close>

definition pq_good :: "prioq_elt list \<Rightarrow> bool" where
  "pq_good q \<longleftrightarrow> pq_heap Pmin q \<and> (\<forall>pe\<in>set q. pe_id pe \<noteq> 0)"

definition queues_ok :: "qsend \<Rightarrow> bool" where
  "queues_ok s \<longleftrightarrow> (\<forall>c. pq_good (pqchan s c)) \<and> pq_good (pqdone s) \<and> pq_good (pqfail s) \<and>
     (\<forall>j < length (jo s). 0 < j_refs (jo s ! j) \<longrightarrow> j_id (jo s ! j) \<noteq> 0)"

named_theorems q_intros \<open>operations that keep the queues in order\<close>
named_theorems q_dests \<open>calls returning a pair that leave the queues and jobs alone\<close>
named_theorems q_simps \<open>updates that leave the queues and jobs alone\<close>

definition qproj where
  "qproj s = (pqchan s, pqdone s, pqfail s, jo s)"

lemma queues_ok_cong: "qproj s = qproj t \<Longrightarrow> queues_ok s = queues_ok t"
  by (simp add: qproj_def queues_ok_def)

lemma pq_good_nil [simp]: "pq_good []"
  by (simp add: pq_good_def pmin.inv_empty)

lemma pq_good_ins: "pq_good q \<Longrightarrow> pe_id e \<noteq> 0 \<Longrightarrow> pq_good (pq_ins Pmin e q)"
  by (auto simp: pq_good_def pmin.inv_ins pmin.set_ins)

lemma pq_good_del: "pq_good q \<Longrightarrow> pq_good (prioq_del Pmin q)"
  using pmin.inv_del pmin.set_del_subset unfolding pq_good_def by blast

lemma pq_good_get: "pq_good q \<Longrightarrow> prioq_get q = Some pe \<Longrightarrow> pe_id pe \<noteq> 0"
  by (auto simp: pq_good_def prioq_get_def split: if_splits)

lemma pq_good_same_time: "pq_good q \<Longrightarrow> pq_good (map (\<lambda>pe. pe\<lparr>pe_dt := t\<rparr>) q)"
  by (auto simp: pq_good_def pq_heap_def pq_le_def)

section \<open>Updates that do not concern the queues\<close>

lemma q_upd [q_simps]:
  "qproj (slog e s) = qproj s" "qproj (tickw s) = qproj s" "qproj (put_file f x s) = qproj s"
  "qproj (trace ev s) = qproj s" "qproj (set_pass c p s) = qproj s" "qproj (end_pass c s) = qproj s"
  "qproj (s\<lparr>delayed_jobs := n\<rparr>) = qproj s" "qproj (s\<lparr>flagexitsend := x1\<rparr>) = qproj s"
  "qproj (s\<lparr>flagrunasap := x1\<rparr>) = qproj s" "qproj (s\<lparr>flagreadasap := x1\<rparr>) = qproj s"
  "qproj (s\<lparr>flagdetached := n\<rparr>) = qproj s" "qproj (s\<lparr>flagtodoalive := x1\<rparr>) = qproj s"
  "qproj (s\<lparr>todoline := b\<rparr>) = qproj s" "qproj (s\<lparr>todo_out := b\<rparr>) = qproj s"
  "qproj (s\<lparr>flagspawnalive := fl\<rparr>) = qproj s" "qproj (s\<lparr>recent := t\<rparr>) = qproj s"
  "qproj (s\<lparr>time_needed := t\<rparr>) = qproj s" "qproj (s\<lparr>comm_buf := cb\<rparr>) = qproj s"
  "qproj (s\<lparr>comm_pos := cp\<rparr>) = qproj s" "qproj (s\<lparr>comm_out := cb\<rparr>) = qproj s"
  "qproj (s\<lparr>flagcleanup := x1\<rparr>) = qproj s" "qproj (s\<lparr>cleanuptime := t\<rparr>) = qproj s"
  "qproj (s\<lparr>orig_recip := b\<rparr>) = qproj s" "qproj (s\<lparr>dline := dl\<rparr>) = qproj s"
  "qproj (s\<lparr>mapvdoms := vd\<rparr>) = qproj s" "qproj (s\<lparr>holdjobs := hj\<rparr>) = qproj s"
  "qproj (s\<lparr>concurrency := cc\<rparr>) = qproj s" "qproj (s\<lparr>concurrencyused := cc\<rparr>) = qproj s"
  "qproj (s\<lparr>del := dd\<rparr>) = qproj s" "qproj (s\<lparr>pass := pp\<rparr>) = qproj s"
  "qproj (s\<lparr>masterdelid := n\<rparr>) = qproj s" "qproj (s\<lparr>ub := x1\<rparr>) = qproj s" "qproj (s\<lparr>sw := w'\<rparr>) = qproj s"
  by (simp_all add: qproj_def slog_def tickw_def put_file_def trace_def set_pass_def end_pass_def)

lemma q_same [q_intros]: "queues_ok s \<Longrightarrow> qproj s' = qproj s \<Longrightarrow> queues_ok s'"
  using queues_ok_cong by blast

lemma q_calls [q_dests]:
  "now s = (t, s1) \<Longrightarrow> qproj s1 = qproj s"
  "sys_stat f s = (r, s1) \<Longrightarrow> qproj s1 = qproj s"
  "sys_ok s = (b, s1) \<Longrightarrow> qproj s1 = qproj s"
  "sys_unlink f s = (e, s1) \<Longrightarrow> qproj s1 = qproj s"
  by (auto simp: now_def sys_stat_def sys_ok_def sys_unlink_def q_simps split: sum.splits)

lemma q_getinfo_lines [q_dests]: "getinfo_lines rest a s = (r, s') \<Longrightarrow> qproj s' = qproj s"
proof (induction rest a s arbitrary: r s' rule: getinfo_lines.induct)
  case (1 rest sa qh eh s)
  then show ?case
    by (subst (asm) getinfo_lines.simps)
       (auto simp: Let_def split: prod.splits if_splits option.splits list.splits dest!: q_calls)
qed

lemma q_getinfo [q_dests]: "getinfo i s = (r, s') \<Longrightarrow> qproj s' = qproj s"
  by (auto simp: getinfo_def split: prod.splits sum.splits if_splits option.splits dest!: q_dests)

section \<open>Insertions\<close>

lemma queues_ok_insert [q_intros]:
  "queues_ok s \<Longrightarrow> pe_id e \<noteq> 0 \<Longrightarrow> queues_ok (insert_chan c e s)"
  "queues_ok s \<Longrightarrow> pe_id e \<noteq> 0 \<Longrightarrow> queues_ok (insert_done e s)"
  "queues_ok s \<Longrightarrow> pe_id e \<noteq> 0 \<Longrightarrow> queues_ok (insert_fail e s)"
  by (auto simp: queues_ok_def insert_chan_def insert_done_def insert_fail_def pq_good_ins)

lemma queues_ok_del [q_intros]:
  "queues_ok s \<Longrightarrow> queues_ok (s\<lparr>pqchan := (pqchan s)(c := prioq_del Pmin (pqchan s c))\<rparr>)"
  "queues_ok s \<Longrightarrow> queues_ok (s\<lparr>pqdone := prioq_del Pmin (pqdone s)\<rparr>)"
  "queues_ok s \<Longrightarrow> queues_ok (s\<lparr>pqfail := prioq_del Pmin (pqfail s)\<rparr>)"
  by (auto simp: queues_ok_def pq_good_del)

lemma queues_ok_fold_chan [q_intros]:
  "queues_ok s \<Longrightarrow> pe_id pe \<noteq> 0 \<Longrightarrow> queues_ok (fold (\<lambda>c. insert_chan c pe) cs s)"
  by (induction cs arbitrary: s) (auto intro: q_intros)

lemma queues_ok_fold_es [q_intros]:
  "queues_ok s \<Longrightarrow> \<forall>(c, pe)\<in>set es. pe_id pe \<noteq> 0 \<Longrightarrow> queues_ok (fold (\<lambda>(c, pe). insert_chan c pe) es s)"
  by (induction es arbitrary: s) (auto intro: q_intros)

lemma q_pqadd_stat: "pqadd_stat i d cs s = (r, s') \<Longrightarrow>
   qproj s' = qproj s \<and> (\<forall>es. r = Inr es \<longrightarrow> (\<forall>(c, pe)\<in>set es. pe_id pe = i))"
proof (induction cs arbitrary: s r s')
  case Nil
  then have "r = Inr []" "s' = s" by auto
  then show ?case by simp
next
  case (Cons c cs)
  obtain r1 s1 where 1: "sys_stat (FChan c i) s = (r1, s1)" by force
  have p1: "qproj s1 = qproj s" using q_calls(2) [OF 1] .
  show ?case
  proof (cases r1)
    case (Inl e)
    then show ?thesis using Cons 1 p1 by (cases e) auto
  next
    case (Inr x)
    let ?s2 = "if recent s1 = 0 then (case now s1 of (t, s') \<Rightarrow> s'\<lparr>recent := t\<rparr>) else s1"
    have p2: "qproj ?s2 = qproj s" using p1 by (auto simp: now_def q_simps)
    obtain r3 s3 where 3: "pqadd_stat i d cs ?s2 = (r3, s3)" by force
    show ?thesis using Cons.IH [OF 3] Cons.prems 1 Inr 3 p2
      by (cases r3) (auto simp: Let_def)
  qed
qed

lemma queues_ok_pqadd_fail [q_intros]: "queues_ok s \<Longrightarrow> i \<noteq> 0 \<Longrightarrow> queues_ok (pqadd_fail i f s)"
  by (auto simp: pqadd_fail_def Let_def q_simps split: prod.splits intro!: queues_ok_insert dest!: q_dests
      intro: q_same)

lemma queues_ok_pqadd [q_intros]:
  assumes "queues_ok s" "i \<noteq> 0"
  shows "queues_ok (pqadd i d s)"
proof -
  obtain r1 s1 where 1: "sys_stat (FInfo i) s = (r1, s1)" by force
  obtain r2 s2 where 2: "sys_stat (FTodo i) s1 = (r2, s2)" by force
  obtain r3 s3 where 3: "pqadd_stat i d chans s2 = (r3, s3)" by force
  have q1: "queues_ok s1" using q_same [OF assms(1) q_calls(2) [OF 1]] .
  have q2: "queues_ok s2" using q_same [OF q1 q_calls(2) [OF 2]] .
  have q3: "queues_ok s3" and es: "\<And>es. r3 = Inr es \<Longrightarrow> \<forall>(c, pe)\<in>set es. pe_id pe = i"
    using q_same [OF q2] q_pqadd_stat [OF 3] by auto
  show ?thesis
  proof (cases r3)
    case (Inl f)
    then show ?thesis using q1 q2 q3 assms(2) unfolding pqadd_def 1 2 3 prod.case
      by (auto split: sum.splits errno.splits intro: q_intros simp: 2 3)
  next
    case (Inr es)
    then have "queues_ok (fold (\<lambda>(c, pe). insert_chan c pe) es s3)"
      using q3 es assms(2) by (intro queues_ok_fold_es) auto
    moreover have "queues_ok (insert_done \<lparr>pe_dt = t, pe_id = i, pe_delayed = False\<rparr> s4)" if "now s3 = (t, s4)" for t s4
      using q_same [OF q3 q_calls(1) [OF that]] assms(2) by (simp add: q_intros)
    ultimately show ?thesis using q1 q2 assms(2) Inr unfolding pqadd_def 1 2 3 prod.case
      by (auto simp: 2 3 split: sum.splits errno.splits list.splits prod.splits intro: q_intros)
  qed
qed

lemma queues_ok_pqstart [q_intros]:
  assumes "queues_ok s" "Some 0 \<notin> set es"
  shows "queues_ok (pqstart es s)"
proof -
  have "queues_ok (fold (\<lambda>e s. case e of None \<Rightarrow> s | Some i \<Rightarrow> pqadd i (do_ratelimit s) s) es s)"
    using assms
  proof (induction es arbitrary: s)
    case Nil
    then show ?case by simp
  next
    case (Cons e es)
    have nz: "Some 0 \<notin> set es" "e \<noteq> Some 0" using Cons.prems(2) by auto
    show ?case
    proof (cases e)
      case None
      then show ?thesis using Cons.IH [OF Cons.prems(1) nz(1)] by simp
    next
      case (Some i)
      then have "queues_ok (pqadd i (do_ratelimit s) s)" using Cons.prems(1) nz(2) by (intro queues_ok_pqadd) auto
      then show ?thesis using Cons.IH nz(1) Some by simp
    qed
  qed
  then show ?thesis by (auto simp: pqstart_def Let_def q_simps intro: q_same)
qed

lemma queues_ok_pqrun [q_intros]: "queues_ok s \<Longrightarrow> queues_ok (pqrun s)"
  by (auto simp: queues_ok_def pqrun_def intro: pq_good_same_time)

section \<open>Handlers that do not touch the jobs\<close>

lemma q_exit [q_simps]: "qproj (exit_todo s) = qproj s" "qproj (spawndied c s) = qproj s"
proof -
  show "qproj (exit_todo s) = qproj s" for s
    by (auto simp: exit_todo_def Let_def q_simps split: list.splits)
  then show "qproj (spawndied c s) = qproj s" by (simp add: spawndied_def Let_def q_simps)
qed

lemma q_comm [q_simps]:
  "qproj (comm_write L c n i a b d e s) = qproj s" "qproj (comm_do_chan c wr s) = qproj s"
  by (auto simp: comm_write_def comm_do_chan_def Let_def q_simps split: option.splits wres.splits)

lemma q_comm_do [q_simps]: "qproj (comm_do wr s) = qproj s"
  by (simp add: comm_do_def q_simps)

lemma q_addbounce [q_simps]: "qproj (addbounce L i r t s) = qproj s"
  by (simp add: addbounce_def append_file_def Let_def q_simps)

lemma q_markdone [q_simps]: "qproj (markdone c i pos s) = qproj s"
  by (auto simp: markdone_def q_simps split: prod.splits sum.splits bool.splits dest!: q_calls)

lemma q_inject [q_dests]:
  "inject_unlink i s = (r, s') \<Longrightarrow> qproj s' = qproj s"
  "inject_send L i a s = (r, s') \<Longrightarrow> qproj s' = qproj s"
proof -
  show u: "inject_unlink i s = (r, s') \<Longrightarrow> qproj s' = qproj s" for s r s'
    by (auto simp: inject_unlink_def q_simps split: prod.splits option.splits dest!: q_calls)
  show "inject_send L i a s = (r, s') \<Longrightarrow> qproj s' = qproj s"
    by (auto simp: inject_send_def Let_def q_simps split: prod.splits option.splits if_splits bool.splits dest!: u)
qed

lemma q_injectbounce [q_dests]: "injectbounce L i s = (r, s') \<Longrightarrow> qproj s' = qproj s"
  by (auto simp: injectbounce_def Let_def q_simps
      split: prod.splits option.splits if_splits sum.splits errno.splits dest!: q_dests)

lemma q_clean [q_simps]: "qproj (cleandied s) = qproj s" "qproj (ask_clean i s) = qproj s"
  by (auto simp: cleandied_def ask_clean_def Let_def q_simps)

lemma q_cleanup_do [q_simps]: "qproj (cleanup_do o1 ent s) = qproj s"
  by (auto simp: cleanup_do_def cleanup_mess_def Let_def q_simps
      split: prod.splits dirent.splits sum.splits errno.splits if_splits dest!: q_dests)

lemma q_messdone_chans [q_dests]: "messdone_chans i cs s = (r, s') \<Longrightarrow> qproj s' = qproj s"
proof (induction cs arbitrary: s)
  case (Cons c cs)
  then show ?case
    by (auto simp: q_simps split: prod.splits sum.splits errno.splits if_splits dest!: q_calls)
qed simp

lemma queues_ok_messdone_fail [q_intros]: "queues_ok s \<Longrightarrow> i \<noteq> 0 \<Longrightarrow> queues_ok (messdone_fail i s)"
  by (auto simp: messdone_fail_def Let_def split: prod.splits intro!: queues_ok_insert intro: q_same dest!: q_calls)

lemma queues_ok_messdone_end [q_intros]:
  assumes "queues_ok s" "i \<noteq> 0" shows "queues_ok (messdone_end L i s)"
proof -
  obtain ok s1 where 1: "injectbounce L i s = (ok, s1)" by force
  obtain e s2 where 2: "sys_unlink (FInfo i) (slog (LEndMsg i) s1) = (e, s2)" by force
  have q1: "queues_ok s1" by (rule q_same [OF assms(1) q_injectbounce [OF 1]])
  have q2: "queues_ok s2" by (rule q_same [OF q1]) (use q_calls(4) [OF 2] in \<open>simp add: q_simps\<close>)
  show ?thesis
    using q1 q2 assms(2) q_same [OF q2, of "slog x s2" for x] q_same [OF q2, of "ask_clean i s2"]
    by (cases ok; cases e) (simp_all add: messdone_end_def 1 2 q_simps q_intros)
qed

lemma queues_ok_messdone [q_intros]:
  assumes "queues_ok s" "i \<noteq> 0" shows "queues_ok (messdone L i s)"
proof -
  obtain r s1 where 1: "messdone_chans i chans s = (r, s1)" by force
  obtain r2 s2 where 2: "sys_stat (FTodo i) s1 = (r2, s2)" by force
  obtain r3 s3 where 3: "sys_stat (FInfo i) s2 = (r3, s3)" by force
  have q1: "queues_ok s1" by (rule q_same [OF assms(1) q_messdone_chans [OF 1]])
  have q2: "queues_ok s2" by (rule q_same [OF q1 q_calls(2) [OF 2]])
  have q3: "queues_ok s3" by (rule q_same [OF q2 q_calls(2) [OF 3]])
  have l: "queues_ok (slog x s2)" "queues_ok (slog x s3)" for x
    using q2 q3 by (auto intro: q_same simp: q_simps)
  show ?thesis
    unfolding messdone_def 1 using q1 q2 q3 l assms(2)
    by (auto simp: 2 3 split: option.split bool.split sum.split errno.split intro: q_intros)
qed

lemma q_todo [q_simps]: "qproj (tododied s) = qproj s" "qproj (todo_selprep s) = qproj s"
  by (simp_all add: tododied_def todo_selprep_def q_simps)

lemma q_todo_write [q_dests]: "todo_write b s = (r, s') \<Longrightarrow> qproj s' = qproj s"
  by (auto simp: todo_write_def Let_def q_simps split: prod.splits if_splits dest!: q_calls)

lemma q_todo_write_snd [q_simps]: "qproj (snd (todo_write b s)) = qproj s"
  by (rule q_todo_write [of b s "fst (todo_write b s)"]) simp

text \<open>
  The lines \<^verbatim>\<open>todo_do\<close> completes when it reads \<open>b\<close> after \<open>l\<close>, and the assumption that none of them
  announces message number 0.
\<close>

fun todo_lines :: "bytes \<Rightarrow> bytes \<Rightarrow> bytes list" where
  "todo_lines l [] = []"
| "todo_lines l (ch # b) =
     (let l' = take REPORTMAX (l @ [ch]) in
      if ch = NUL \<and> 1 < length l' then l' # todo_lines [] b else todo_lines l' b)"

definition todo_ids_ok :: "libq \<Rightarrow> bytes \<Rightarrow> bytes \<Rightarrow> bool" where
  "todo_ids_ok L l b \<longleftrightarrow>
     (\<forall>x\<in>set (todo_lines l b). x ! 0 = CHR ''D'' \<longrightarrow> snd (lq_scan_ulong L (tl (cstr (tl x)))) \<noteq> 0)"

lemma queues_ok_todo_del [q_intros]:
  assumes "queues_ok s" "snd (lq_scan_ulong L (tl m)) \<noteq> 0"
  shows "queues_ok (todo_del L m s)"
proof -
  obtain t s1 where n: "now s = (t, s1)" by force
  have q1: "queues_ok s1" using q_same [OF assms(1) q_calls(1) [OF n]] .
  have "queues_ok (slog LDialect s)" using assms(1) by (rule q_same) (simp add: q_simps)
  then show ?thesis
    using assms(2) q1 unfolding todo_del_def n
    by (auto simp: Let_def split: option.split prod.split intro: q_intros)
qed

lemma queues_ok_todo_line:
  assumes "queues_ok s" "x ! 0 = CHR ''D'' \<longrightarrow> snd (lq_scan_ulong L (tl (cstr (tl x)))) \<noteq> 0"
  shows "queues_ok (todo_line L x s)"
proof -
  have "queues_ok s'" if "qproj s' = qproj s" for s' using assms(1) that by (rule q_same)
  then show ?thesis using assms(2) queues_ok_todo_del [OF assms(1), of L "cstr (tl x)"] assms(1)
    by (auto simp: todo_line_def q_simps)
qed

lemma todo_line_buf: "todoline (todo_line L x s) = todoline s"
proof -
  have "todoline (todo_del L m s) = todoline s" for m
  proof -
    have "todoline (fold (\<lambda>c. insert_chan c pe) cs s) = todoline s" for pe cs s
      by (induction cs arbitrary: s) (auto simp: insert_chan_def)
    then show ?thesis
      by (auto simp: todo_del_def Let_def now_def tickw_def slog_def insert_done_def split: option.split prod.split)
  qed
  then show ?thesis by (simp add: todo_line_def tododied_def slog_def)
qed

lemma queues_ok_todo_fold:
  "queues_ok s \<Longrightarrow> todo_ids_ok L (todoline s) b \<Longrightarrow> queues_ok (fold (todo_byte L) b s)"
proof (induction b arbitrary: s)
  case Nil
  then show ?case by simp
next
  case (Cons ch b)
  let ?l = "take REPORTMAX (todoline s @ [ch])" and ?s = "s\<lparr>todoline := take REPORTMAX (todoline s @ [ch])\<rparr>"
  have q: "queues_ok ?s" using Cons.prems(1) by (rule q_same) (simp add: q_simps)
  show ?case
  proof (cases "ch = NUL \<and> 1 < length ?l")
    case True
    then have b: "todo_byte L ch s = (todo_line L ?l ?s)\<lparr>todoline := []\<rparr>" by (simp add: todo_byte_def Let_def)
    have "queues_ok (todo_line L ?l ?s)"
      by (rule queues_ok_todo_line [OF q]) (use Cons.prems(2) True in \<open>simp add: todo_ids_ok_def Let_def\<close>)
    then have "queues_ok (todo_byte L ch s)" unfolding b by (rule q_same) (simp add: q_simps)
    moreover have "todo_ids_ok L (todoline (todo_byte L ch s)) b"
      using Cons.prems(2) True b by (simp add: todo_ids_ok_def Let_def)
    ultimately show ?thesis using Cons.IH by simp
  next
    case False
    then have b: "todo_byte L ch s = ?s" by (auto simp: todo_byte_def Let_def)
    moreover have "todo_ids_ok L (todoline ?s) b"
      using Cons.prems(2) False by (auto simp: todo_ids_ok_def Let_def)
    ultimately show ?thesis using Cons.IH [OF q] by simp
  qed
qed

lemma queues_ok_todo_do [q_intros]:
  assumes "queues_ok s" "\<And>b. rd = Some (Some b) \<Longrightarrow> todo_ids_ok L (todoline s) b"
  shows "queues_ok (todo_do L rd s)"
proof -
  have "queues_ok s'" if "qproj s' = qproj s" for s' using assms(1) that by (rule q_same)
  then show ?thesis using queues_ok_todo_fold [OF assms(1)] assms
    by (auto simp: todo_do_def q_simps split: option.split list.split simp del: fold.simps)
qed

lemma queues_ok_signals [q_intros]:
  assumes "queues_ok s"
  shows "queues_ok (sigterm s)" "queues_ok (sigalrm s)" "queues_ok (sighup s)" "queues_ok (sigusr1 s)"
    "Some 0 \<notin> set es \<Longrightarrow> queues_ok (sigusr2 es s)" "Some 0 \<notin> set es \<Longrightarrow> queues_ok (loop_attach es s)"
proof -
  have same: "queues_ok s'" if "qproj s' = qproj s" for s' using assms that by (rule q_same)
  show "queues_ok (sigterm s)" "queues_ok (sigalrm s)" "queues_ok (sighup s)"
    by (auto simp: sigterm_def sigalrm_def sighup_def q_simps intro: same)
  show "queues_ok (sigusr1 s)"
    by (auto simp: sigusr1_def q_simps q_todo_write_snd intro!: same split: prod.split bool.split dest!: q_todo_write)
  assume z: "Some 0 \<notin> set es"
  obtain r s1 where w: "todo_write ''A'' (pqstart es s) = (r, s1)" by force
  have "queues_ok (pqstart es s)" using queues_ok_pqstart [OF assms z] .
  then have q: "queues_ok s1" "queues_ok (s1\<lparr>flagdetached := 0\<rparr>)"
    using q_todo_write [OF w] by (auto intro: q_same simp: q_simps)
  show "queues_ok (sigusr2 es s)" "queues_ok (loop_attach es s)"
    using q assms by (cases r, simp_all add: sigusr2_def loop_attach_def w)+
qed

end
