(* ===== verification/SendInv.thy ===== *)
theory SendInv
  imports SendFiles SendQueues
begin

text \<open>
  The invariant of the queue manager over jobs, deliveries and passes: reference counts are exact,
  every array access is in bounds, the concurrency counters count, every open job knows what is left
  to do in its recipient list, and a list was only ever removed when nothing was left to do.
\<close>

section \<open>Views of the state\<close>

definition outs :: "(nat \<Rightarrow> delv list) \<Rightarrow> nat \<Rightarrow> nat \<Rightarrow> nat multiset" where
  "outs D c j = image_mset d_mpos (filter_mset (\<lambda>d. d_used d \<and> d_j d = j) (mset (D c)))"

definition passof :: "(nat \<Rightarrow> passr) \<Rightarrow> nat \<Rightarrow> nat \<Rightarrow> (nat \<times> bytes) option" where
  "passof Q c j = (if ps_id (Q c) \<noteq> 0 \<and> ps_j (Q c) = j then Some (ps_mpos (Q c), ps_rest (Q c)) else None)"

definition nused :: "(nat \<Rightarrow> delv list) \<Rightarrow> nat \<Rightarrow> nat" where
  "nused D c = length (filter d_used (D c))"

definition nrefs :: "(nat \<Rightarrow> delv list) \<Rightarrow> (nat \<Rightarrow> passr) \<Rightarrow> nat \<Rightarrow> nat \<Rightarrow> int" where
  "nrefs D Q c j = int (size (outs D c j)) + (if passof Q c j = None then 0 else 1)"

lemma outs_update:
  assumes "n < length (D c)"
  shows "outs (D(c := (D c)[n := d])) c j + (if d_used (D c ! n) \<and> d_j (D c ! n) = j then {#d_mpos (D c ! n)#} else {#})
       = outs D c j + (if d_used d \<and> d_j d = j then {#d_mpos d#} else {#})"
proof -
  let ?P = "\<lambda>d. d_used d \<and> d_j d = j"
  have single: "image_mset d_mpos (filter_mset ?P {#x#}) = (if ?P x then {#d_mpos x#} else {#})" for x
    by simp
  have "D c ! n \<in># mset (D c)" using assms by simp
  then have "mset ((D c)[n := d]) + {#D c ! n#} = mset (D c) + {#d#}"
    using assms by (simp add: mset_update)
  then have "image_mset d_mpos (filter_mset ?P (mset ((D c)[n := d]))) + image_mset d_mpos (filter_mset ?P {#D c ! n#})
    = image_mset d_mpos (filter_mset ?P (mset (D c))) + image_mset d_mpos (filter_mset ?P {#d#})"
    by (metis filter_union_mset image_mset_union)
  then show ?thesis unfolding single outs_def by simp
qed

lemma outs_other [simp]: "c' \<noteq> c \<Longrightarrow> outs (D(c := ds)) c' j = outs D c' j"
  by (simp add: outs_def)

lemma passof_other [simp]: "c' \<noteq> c \<Longrightarrow> passof (Q(c := p)) c' j = passof Q c' j"
  by (simp add: passof_def)

lemma outs_mem: "n < length (D c) \<Longrightarrow> d_used (D c ! n) \<Longrightarrow> d_mpos (D c ! n) \<in># outs D c (d_j (D c ! n))"
  by (auto simp: outs_def)

section \<open>The invariant\<close>

definition slots_ok :: "qsend \<Rightarrow> bool" where
  "slots_ok s \<longleftrightarrow> \<not> ub s \<and> (\<forall>c. concurrency s c \<le> length (del s c) \<and> concurrencyused s c = nused (del s) c)"

definition refs_ok :: "qsend \<Rightarrow> bool" where
  "refs_ok s \<longleftrightarrow>
     (\<forall>c j. outs (del s) c j \<noteq> {#} \<or> passof (pass s) c j \<noteq> None \<longrightarrow>
        j < length (jo s) \<and> j_channel (jo s ! j) = c) \<and>
     (\<forall>j < length (jo s). j_refs (jo s ! j) = nrefs (del s) (pass s) (j_channel (jo s ! j)) j)"

definition job_at :: "qsend \<Rightarrow> nat \<Rightarrow> job \<Rightarrow> bool" where
  "job_at s j r \<longleftrightarrow>
     job_ok (j_hiteof r) (j_numtodo r) (outs (del s) (j_channel r) j) (passof (pass s) (j_channel r) j)
       (cdata s (j_channel r) (j_id r)) ((j_channel r, j_id r) \<in> twice s)"

definition jobs_ok :: "qsend \<Rightarrow> bool" where
  "jobs_ok s \<longleftrightarrow> (\<forall>j < length (jo s). 0 < j_refs (jo s ! j) \<longrightarrow> job_at s j (jo s ! j))"

definition unlinks_ok :: "qsend \<Rightarrow> bool" where
  "unlinks_ok s \<longleftrightarrow> (\<forall>(c, i, b) \<in> unlinked s. (c, i) \<in> twice s \<or> todo_pos b = {})"

definition send_inv :: "qsend \<Rightarrow> bool" where
  "send_inv s \<longleftrightarrow> slots_ok s \<and> refs_ok s \<and> jobs_ok s \<and> unlinks_ok s"

lemma proj_fields:
  assumes "proj s = proj t"
  shows "jo s = jo t" "del s = del t" "pass s = pass t" "concurrency s = concurrency t"
    "concurrencyused s = concurrencyused t" "ub s = ub t" "cdata s = cdata t" "twice s = twice t"
    "unlinked s = unlinked t"
  using assms by (simp_all add: proj_def)

lemma send_inv_cong: "proj s = proj t \<Longrightarrow> send_inv s = send_inv t"
  unfolding send_inv_def slots_ok_def refs_ok_def jobs_ok_def job_at_def unlinks_ok_def
  by (simp only: proj_fields [of s t])

text \<open>
  How one step changes the state: only job \<open>j\<close> of channel \<open>c\<close> gets or loses deliveries or its
  pass, lists on disk only get more marks or are removed.
\<close>

lemma send_inv_step:
  assumes inv: "send_inv s"
    and slots: "slots_ok t"
    and j: "j < length (jo s)" "jo t = (jo s)[j := r]" "j_channel r = c"
    and others: "\<And>c' j'. c' \<noteq> c \<or> j' \<noteq> j \<Longrightarrow> outs (del t) c' j' = outs (del s) c' j'"
      "\<And>c' j'. c' \<noteq> c \<or> j' \<noteq> j \<Longrightarrow> passof (pass t) c' j' = passof (pass s) c' j'"
    and free: "\<And>c'. c' \<noteq> c \<Longrightarrow> outs (del s) c' j = {#} \<and> passof (pass s) c' j = None"
    and refs: "j_refs r = nrefs (del t) (pass t) c j"
    and files: "\<And>c' i. file_le (cdata s c' i) (cdata t c' i)"
    and tw: "twice s \<subseteq> twice t"
    and job: "0 < j_refs r \<Longrightarrow> job_at t j r"
    and unl: "unlinked t = unlinked s \<or>
       (\<exists>c' i b. unlinked t = insert (c', i, b) (unlinked s) \<and> ((c', i) \<in> twice t \<or> todo_pos b = {}))"
  shows "send_inv t"
proof -
  have r: "refs_ok s" and jo: "jobs_ok s" and u: "unlinks_ok s" using inv by (auto simp: send_inv_def)
  have nth: "jo t ! j' = (if j' = j then r else jo s ! j')" if "j' < length (jo s)" for j'
    using that j by simp
  have len: "length (jo t) = length (jo s)" using j by simp
  have "refs_ok t"
    unfolding refs_ok_def
  proof (intro conjI allI impI)
    fix c' j'
    assume a: "outs (del t) c' j' \<noteq> {#} \<or> passof (pass t) c' j' \<noteq> None"
    show "j' < length (jo t)" "j_channel (jo t ! j') = c'"
    proof -
      have "j' < length (jo t) \<and> j_channel (jo t ! j') = c'"
      proof (cases "j' = j")
        case True
        have "c' = c"
        proof (rule ccontr)
          assume "c' \<noteq> c"
          then show False using a free [of c'] others [of c' j'] True by simp
        qed
        then show ?thesis using True j by simp
      next
        case False
        then have "outs (del s) c' j' \<noteq> {#} \<or> passof (pass s) c' j' \<noteq> None" using a others [of c' j'] by simp
        then have "j' < length (jo s) \<and> j_channel (jo s ! j') = c'" using r unfolding refs_ok_def by blast
        then show ?thesis using False nth len by simp
      qed
      then show "j' < length (jo t)" "j_channel (jo t ! j') = c'" by simp_all
    qed
  next
    fix j'
    assume a: "j' < length (jo t)"
    show "j_refs (jo t ! j') = nrefs (del t) (pass t) (j_channel (jo t ! j')) j'"
    proof (cases "j' = j")
      case True
      then show ?thesis using refs nth j by simp
    next
      case False
      then have "nrefs (del t) (pass t) ch j' = nrefs (del s) (pass s) ch j'" for ch
        using others [of ch j'] by (simp add: nrefs_def)
      then show ?thesis using r False a nth len by (simp add: refs_ok_def)
    qed
  qed
  moreover have "jobs_ok t"
    unfolding jobs_ok_def
  proof (intro allI impI)
    fix j'
    assume a: "j' < length (jo t)" "0 < j_refs (jo t ! j')"
    show "job_at t j' (jo t ! j')"
    proof (cases "j' = j")
      case True
      then show ?thesis using job a nth j by simp
    next
      case False
      then have eq: "jo t ! j' = jo s ! j'" using a nth len by simp
      then have "job_at s j' (jo s ! j')" using jo a len by (simp add: jobs_ok_def)
      then show ?thesis
        using False others [of "j_channel (jo s ! j')" j'] tw
        unfolding job_at_def eq by (auto elim!: job_ok_mono [OF _ files])
    qed
  qed
  moreover have "unlinks_ok t"
  proof -
    have "(c', i) \<in> twice t \<or> todo_pos b = {}" if "(c', i, b) \<in> unlinked s" for c' i b
      using u tw that unfolding unlinks_ok_def by auto
    then show ?thesis using unl unfolding unlinks_ok_def by fastforce
  qed
  ultimately show ?thesis using slots by (simp add: send_inv_def)
qed

section \<open>What the operations do to the parts of the invariant\<close>

lemma proj_eq_iff:
  "proj s = (a, b, c, d, e, f, g, h, i) \<longleftrightarrow>
     jo s = a \<and> del s = b \<and> pass s = c \<and> concurrency s = d \<and> concurrencyused s = e \<and> ub s = f \<and>
     cdata s = g \<and> twice s = h \<and> unlinked s = i"
  by (simp add: proj_def)

text \<open>\<^verbatim>\<open>markdone\<close>: the record is marked, or the log has the warning.\<close>

lemma proj_markdone:
  "proj (markdone c i pos s) =
     (jo s, del s, pass s, concurrency s, concurrencyused s, ub s, cdata s, insert (c, i) (twice s), unlinked s) \<or>
   proj (markdone c i pos s) =
     (jo s, del s, pass s, concurrency s, concurrencyused s, ub s,
      (cdata s)(c := (cdata s c)(i := set_done pos (cdata s c i))), twice s, unlinked s)"
proof -
  have warn: "proj (slog (LTwice (FChan c i)) t) =
      (jo s, del s, pass s, concurrency s, concurrencyused s, ub s, cdata s, insert (c, i) (twice s), unlinked s)"
    if "proj t = proj s" for t
    using that by (auto simp: proj_def slog_def twice_def cdata_def unlinked_def fun_eq_iff)
  have ok: "proj (trace (SMark c i pos) (put_file (FChan c i) (Some (x\<lparr>f_data := (f_data x)[pos := CHR ''D''], f_mtime := m\<rparr>)) t))
    = (jo s, del s, pass s, concurrency s, concurrencyused s, ub s,
      (cdata s)(c := (cdata s c)(i := set_done pos (cdata s c i))), twice s, unlinked s)"
    if "proj t = proj s" "files t (FChan c i) = Some x" for t x m
  proof -
    have "cdata s c i = cdata t c i" using proj_fields(7) [OF that(1)] by simp
    then have c: "cdata s c i = Some (f_data x)" using that(2) by (simp add: cdata_def)
    have "proj s = (jo s, del s, pass s, concurrency s, concurrencyused s, ub s, cdata s, twice s, unlinked s)"
      by (simp add: proj_def)
    then have t: "proj t = (jo s, del s, pass s, concurrency s, concurrencyused s, ub s, cdata s, twice s, unlinked s)"
      using that(1) by simp
    then show ?thesis
      unfolding proj_eq_iff using c
      by (auto simp: trace_def put_file_def twice_def cdata_def unlinked_def fun_eq_iff set_done_def)
  qed
  obtain r1 s1 where 1: "sys_stat (FChan c i) s = (r1, s1)" by force
  obtain r2 s2 where 2: "sys_ok s1 = (r2, s2)" by force
  obtain r3 s3 where 3: "sys_ok s2 = (r3, s3)" by force
  obtain r4 s4 where 4: "sys_ok s3 = (r4, s4)" by force
  have p: "proj s1 = proj s" "proj s2 = proj s" "proj s3 = proj s" "proj s4 = proj s"
    using proj_stat [OF 1] proj_ok [OF 2] proj_ok [OF 3] proj_ok [OF 4] by simp_all
  have f: "files s4 (FChan c i) = Some x" if "r1 = Inr x" for x
    using 1 2 3 4 that
    by (auto simp: sys_stat_def sys_ok_def lookup_file_def tickw_def split: if_splits option.splits)
  show ?thesis
    unfolding markdone_def using warn [OF p(1)] warn [OF p(2)] warn [OF p(3)] warn [OF p(4)] ok [OF p(4) f]
    by (simp add: 1 2 3 4 split: sum.split bool.split)
qed

lemma proj_rm:
  "proj (put_file (FChan c i) None (trace (SUnlink (FChan c i) b) (tickw t))) =
     (jo t, del t, pass t, concurrency t, concurrencyused t, ub t,
      (cdata t)(c := (cdata t c)(i := None)), twice t, insert (c, i, b) (unlinked t))"
  unfolding proj_eq_iff
  by (auto simp: trace_def put_file_def tickw_def twice_def cdata_def unlinked_def fun_eq_iff)

text \<open>\<^verbatim>\<open>job_close\<close>: one reference less; the last one may remove the finished list.\<close>

lemma proj_job_close:
  assumes "j < length (jo s)" and r: "r = (jo s ! j)\<lparr>j_refs := j_refs (jo s ! j) - 1\<rparr>"
  shows "proj (job_close j s) =
     ((jo s)[j := r], del s, pass s, concurrency s, concurrencyused s, ub s, cdata s, twice s, unlinked s) \<or>
   (\<exists>b. j_refs r \<le> 0 \<and> j_hiteof r \<and> j_numtodo r = 0 \<and> cdata s (j_channel r) (j_id r) = Some b \<and>
     proj (job_close j s) =
     ((jo s)[j := r], del s, pass s, concurrency s, concurrencyused s, ub s,
      (cdata s)(j_channel r := (cdata s (j_channel r))(j_id r := None)), twice s,
      insert (j_channel r, j_id r, b) (unlinked s)))"
proof -
  let ?s1 = "upd_job j (\<lambda>r. r\<lparr>j_refs := j_refs r - 1\<rparr>) s" and ?c = "j_channel r" and ?i = "j_id r"
  have p1: "proj ?s1 = ((jo s)[j := r], del s, pass s, concurrency s, concurrencyused s, ub s, cdata s, twice s, unlinked s)"
    using r by (simp add: upd_job_def proj_def cdata_def fun_eq_iff twice_def unlinked_def)
  have r1: "jo ?s1 ! j = r" using assms by (simp add: upd_job_def)
  obtain e s2 where u: "sys_unlink (FChan ?c ?i) ?s1 = (e, s2)" by force
  have gone: "\<exists>b. cdata s ?c ?i = Some b \<and> proj s2 = ((jo s)[j := r], del s, pass s, concurrency s, concurrencyused s, ub s,
      (cdata s)(?c := (cdata s ?c)(?i := None)), twice s, insert (?c, ?i, b) (unlinked s))"
    if en: "e = None \<or> proj s2 \<noteq> proj ?s1"
  proof -
    obtain x where x: "files ?s1 (FChan ?c ?i) = Some x" "s2 = put_file (FChan ?c ?i) None (trace (SUnlink (FChan ?c ?i) (f_data x)) (tickw ?s1))"
      using u en by (auto simp: sys_unlink_def lookup_file_def proj_simps split: sum.splits if_splits option.splits)
    have "cdata s ?c ?i = cdata ?s1 ?c ?i" using p1 unfolding proj_eq_iff by simp
    then have "cdata s ?c ?i = Some (f_data x)" using x(1) by (simp add: cdata_def)
    moreover have "proj s2 = ((jo s)[j := r], del s, pass s, concurrency s, concurrencyused s, ub s,
      (cdata s)(?c := (cdata s ?c)(?i := None)), twice s, insert (?c, ?i, f_data x) (unlinked s))"
      using p1 unfolding x(2) proj_rm proj_eq_iff by simp
    ultimately show ?thesis by blast
  qed
  have oc: "proj s3 = proj s2" if "other_chans a b l s2 = (x, s3)" for a b l x s3
    using that by (rule proj_other_chans)
  show ?thesis
  proof (cases "0 < j_refs r")
    case True
    then show ?thesis using p1 r1 by (simp add: job_close_def Let_def)
  next
    case ref: False
    show ?thesis
    proof (cases "j_hiteof r \<and> j_numtodo r = 0")
      case False
      then show ?thesis using p1 r1 ref by (auto simp: job_close_def Let_def proj_simps)
    next
      case True
      show ?thesis
      proof (cases e)
        case (Some x)
        then have "proj (job_close j s) = proj s2"
          using r1 ref True u
          by (auto simp: job_close_def Let_def proj_simps split: prod.splits dest!: proj_now)
        then show ?thesis using p1 gone ref True by (cases "proj s2 = proj ?s1") auto
      next
        case None
        obtain b where b: "cdata s ?c ?i = Some b" "proj s2 = ((jo s)[j := r], del s, pass s, concurrency s, concurrencyused s, ub s,
            (cdata s)(?c := (cdata s ?c)(?i := None)), twice s, insert (?c, ?i, b) (unlinked s))"
          using gone None by blast
        obtain x s3 where o: "other_chans ?i ?c chans s2 = (x, s3)" by force
        obtain t s4 where n: "now s3 = (t, s4)" by force
        have "proj (job_close j s) = proj s2"
          using r1 ref True u None o n oc [OF o] proj_now [OF n]
          by (cases x) (simp_all only: job_close_def Let_def r1 ref True u None o n if_False if_True simp_thms
              option.case prod.case bool.case proj_simps split_conv)
        then show ?thesis using b ref True by auto
      qed
    qed
  qed
qed

section \<open>Closing a job\<close>

lemma refs_okD:
  "refs_ok s \<Longrightarrow> outs (del s) c j \<noteq> {#} \<or> passof (pass s) c j \<noteq> None \<Longrightarrow>
   j < length (jo s) \<and> j_channel (jo s ! j) = c"
  by (auto simp: refs_ok_def)

lemma refs_ok_refs:
  "refs_ok s \<Longrightarrow> j < length (jo s) \<Longrightarrow> j_channel (jo s ! j) = c \<Longrightarrow> j_refs (jo s ! j) = nrefs (del s) (pass s) c j"
  by (auto simp: refs_ok_def)

lemma refs_ok_other:
  "refs_ok s \<Longrightarrow> j_channel (jo s ! j) = c \<Longrightarrow> c' \<noteq> c \<Longrightarrow> outs (del s) c' j = {#} \<and> passof (pass s) c' j = None"
  using refs_okD by metis

text \<open>
  A delivery or a pass of job \<open>j\<close> ends: \<open>u\<close> is the state with the job changed to \<open>r\<close> (and a
  record marked, perhaps), \<open>t\<close> the state after \<^verbatim>\<open>job_close\<close> and the release of the slot or pass.
\<close>

lemma send_inv_close:
  assumes inv: "send_inv s" and j: "j < length (jo s)" "jo u = (jo s)[j := r]"
    and r: "j_channel r = c" "j_channel (jo s ! j) = c" "j_refs r = j_refs (jo s ! j)"
    and u: "unlinked u = unlinked s" "twice s \<subseteq> twice u" "\<And>c' i. file_le (cdata s c' i) (cdata u c' i)"
    and t: "jo t = jo (job_close j u)" "cdata t = cdata (job_close j u)" "twice t = twice (job_close j u)"
      "unlinked t = unlinked (job_close j u)" "slots_ok t"
    and others: "\<And>c' j'. c' \<noteq> c \<or> j' \<noteq> j \<Longrightarrow> outs (del t) c' j' = outs (del s) c' j'"
      "\<And>c' j'. c' \<noteq> c \<or> j' \<noteq> j \<Longrightarrow> passof (pass t) c' j' = passof (pass s) c' j'"
    and refs: "nrefs (del t) (pass t) c j = nrefs (del s) (pass s) c j - 1"
    and ok: "job_ok (j_hiteof r) (j_numtodo r) (outs (del t) c j) (passof (pass t) c j)
              (cdata u c (j_id r)) ((c, j_id r) \<in> twice u)"
  shows "send_inv t"
proof -
  let ?r = "r\<lparr>j_refs := j_refs r - 1\<rparr>"
  have ro: "refs_ok s" using inv by (simp add: send_inv_def)
  have ju: "j < length (jo u)" "?r = (jo u ! j)\<lparr>j_refs := j_refs (jo u ! j) - 1\<rparr>" using j by simp_all
  have rr: "j_refs ?r = nrefs (del t) (pass t) c j"
    using refs_ok_refs [OF ro j(1) r(2)] refs r(3) by simp
  note pjc = proj_job_close [OF ju, unfolded proj_eq_iff]
  have files: "file_le (cdata s c' i) (cdata t c' i)" for c' i
    using pjc u(3) [of c' i] unfolding t by auto
  have jot: "jo t = (jo s)[j := ?r]" using pjc j unfolding t by auto
  have tw: "twice t = twice u" using pjc unfolding t by auto
  have unl: "unlinked t = unlinked s \<or>
      (\<exists>c' i b. unlinked t = insert (c', i, b) (unlinked s) \<and> ((c', i) \<in> twice t \<or> todo_pos b = {}))"
  proof (cases "unlinked (job_close j u) = unlinked u")
    case True
    then show ?thesis using u t by simp
  next
    case False
    then obtain b where b: "j_hiteof r" "j_numtodo r = 0" "cdata u c (j_id r) = Some b"
      "unlinked (job_close j u) = insert (c, j_id r, b) (unlinked u)" using pjc r(1) by auto
    then have "(c, j_id r) \<in> twice u \<or> todo_pos b = {}" using ok job_ok_zero by simp
    then show ?thesis using b(4) u(1) tw t by auto
  qed
  have job: "job_at t j ?r" if "0 < j_refs ?r"
  proof -
    have "cdata t = cdata u" using pjc that unfolding t by auto
    then show ?thesis using ok r tw by (simp add: job_at_def)
  qed
  have tws: "twice s \<subseteq> twice t" using tw u(2) by simp
  have rc: "j_channel ?r = c" using r by simp
  show ?thesis
    by (rule send_inv_step [OF inv t(5) j(1) jot rc others refs_ok_other [OF ro r(2)] rr files tws job unl])
qed

text \<open>A pass over the list of job \<open>j\<close> ends.\<close>

lemma send_inv_end_pass:
  assumes inv: "send_inv s" and act: "passof (pass s) c j = Some (m, rest)"
    and u: "proj u = ((jo s)[j := r], del s, (pass s)(c := p), concurrency s, concurrencyused s, ub s, cdata s, twice s, unlinked s)"
    and r: "j_channel r = j_channel (jo s ! j)" "j_refs r = j_refs (jo s ! j)" "j_id r = j_id (jo s ! j)"
    and ok: "job_at s j (jo s ! j) \<Longrightarrow>
       job_ok (j_hiteof r) (j_numtodo r) (outs (del s) c j) None (cdata s c (j_id r)) ((c, j_id r) \<in> twice s)"
  shows "send_inv (end_pass c (job_close j u))"
proof -
  let ?t = "end_pass c (job_close j u)"
  have ro: "refs_ok s" and jok: "jobs_ok s" and sl: "slots_ok s" using inv by (auto simp: send_inv_def)
  have j: "j < length (jo s)" "j_channel (jo s ! j) = c" using refs_okD [OF ro, of c j] act by auto
  have "0 < j_refs (jo s ! j)" using refs_ok_refs [OF ro j] act by (simp add: nrefs_def)
  then have at: "job_at s j (jo s ! j)" using jok j by (simp add: jobs_ok_def)
  note uu = u [unfolded proj_eq_iff]
  have ju: "j < length (jo u)" using uu j by simp
  have keep: "del (job_close j u) = del s" "pass (job_close j u) = (pass s)(c := p)"
     "concurrency (job_close j u) = concurrency s" "concurrencyused (job_close j u) = concurrencyused s"
     "ub (job_close j u) = ub s"
    using proj_job_close [OF ju refl, unfolded proj_eq_iff] uu by auto
  have tf: "jo ?t = jo (job_close j u)" "del ?t = del s" "pass ?t = (pass s)(c := p\<lparr>ps_id := 0\<rparr>)"
    "concurrency ?t = concurrency s" "concurrencyused ?t = concurrencyused s" "ub ?t = ub s"
    "cdata ?t = cdata (job_close j u)" "twice ?t = twice (job_close j u)" "unlinked ?t = unlinked (job_close j u)"
    using keep by (simp_all add: end_pass_def set_pass_def cdata_def fun_eq_iff twice_def unlinked_def)
  have none: "passof (pass ?t) c j' = None" for j' by (simp add: tf passof_def)
  have one: "passof (pass s) c j' = None" if "j' \<noteq> j" for j'
    using act that by (auto simp: passof_def split: if_splits)
  show ?thesis
  proof (rule send_inv_close [OF inv j(1), where u = u and r = r and c = c])
    show "jo u = (jo s)[j := r]" "unlinked u = unlinked s" "twice s \<subseteq> twice u" using uu by auto
    show "file_le (cdata s c' i) (cdata u c' i)" for c' i using uu by simp
    show "slots_ok ?t" using sl unfolding slots_ok_def tf .
    show "outs (del ?t) c' j' = outs (del s) c' j'" for c' j' by (simp add: tf)
    show "passof (pass ?t) c' j' = passof (pass s) c' j'" if "c' \<noteq> c \<or> j' \<noteq> j" for c' j'
      using that none one by (cases "c' = c") (auto simp: tf)
    show "nrefs (del ?t) (pass ?t) c j = nrefs (del s) (pass s) c j - 1"
      using none act by (simp add: nrefs_def tf)
    show "job_ok (j_hiteof r) (j_numtodo r) (outs (del ?t) c j) (passof (pass ?t) c j) (cdata u c (j_id r)) ((c, j_id r) \<in> twice u)"
      using ok [OF at] none uu by (simp add: tf(2))
  qed (use r j in \<open>simp_all add: tf\<close>)
qed

end
