(* ===== verification/SendOpen.thy ===== *)
theory SendOpen
  imports SendInv
begin

text \<open>
  The invariant \<open>mgr_inv\<close> of the queue manager, and the handlers that open a job (\<^verbatim>\<open>pass_dochan\<close>,
  first half) and start a delivery (\<^verbatim>\<open>del_start\<close>).
\<close>

definition mgr_inv :: "qsend \<Rightarrow> bool" where
  "mgr_inv s \<longleftrightarrow> send_inv s \<and> queues_ok s"

named_theorems mgr_intros \<open>operations that keep the invariant\<close>

lemma mgr_invI: "send_inv s \<Longrightarrow> proj s' = proj s \<Longrightarrow> queues_ok s' \<Longrightarrow> mgr_inv s'"
  using send_inv_cong [of s' s] by (simp add: mgr_inv_def)

lemma mgr_inv_frame: "mgr_inv s \<Longrightarrow> proj s' = proj s \<Longrightarrow> (queues_ok s \<Longrightarrow> queues_ok s') \<Longrightarrow> mgr_inv s'"
  unfolding mgr_inv_def using send_inv_cong by blast

lemma mgr_inv_same: "mgr_inv s \<Longrightarrow> proj s' = proj s \<Longrightarrow> qproj s' = qproj s \<Longrightarrow> mgr_inv s'"
  using queues_ok_cong mgr_inv_frame by metis

lemma send_inv_passof:
  assumes "proj t = (jo s, del s, pass t, concurrency s, concurrencyused s, ub s, cdata s, twice s, unlinked s)"
    and "\<And>c j. passof (pass t) c j = passof (pass s) c j"
  shows "send_inv t = send_inv s"
  using assms
  unfolding send_inv_def slots_ok_def refs_ok_def jobs_ok_def job_at_def unlinks_ok_def nrefs_def proj_eq_iff
  by simp

lemma proj_set_pass:
  "proj (set_pass c p s) = (jo s, del s, (pass s)(c := p), concurrency s, concurrencyused s, ub s, cdata s, twice s, unlinked s)"
  by (simp add: set_pass_def proj_def cdata_def fun_eq_iff twice_def unlinked_def)

lemma proj_upd_job:
  "proj (upd_job j f s) = ((jo s)[j := f (jo s ! j)], del s, pass s, concurrency s, concurrencyused s, ub s,
     cdata s, twice s, unlinked s)"
  by (simp add: upd_job_def proj_def cdata_def fun_eq_iff twice_def unlinked_def)

lemma qproj_upd_job: "qproj (upd_job j f s) = (pqchan s, pqdone s, pqfail s, (jo s)[j := f (jo s ! j)])"
  by (simp add: upd_job_def qproj_def)

section \<open>Jobs and the queues\<close>

lemma queues_ok_jobs:
  assumes "queues_ok s" "pqchan t = pqchan s" "pqdone t = pqdone s" "pqfail t = pqfail s"
    "jo t = (jo s)[j := r]" "0 < j_refs r \<Longrightarrow> j_id r \<noteq> 0"
  shows "queues_ok t"
proof -
  have "j_id (jo t ! k) \<noteq> 0" if "k < length (jo t)" "0 < j_refs (jo t ! k)" for k
    using assms that by (cases "k = j") (auto simp: queues_ok_def)
  then show ?thesis using assms by (simp add: queues_ok_def)
qed

lemma queues_ok_upd_job:
  assumes "queues_ok s" "j_id (f (jo s ! j)) = j_id (jo s ! j)"
    "0 < j_refs (f (jo s ! j)) \<Longrightarrow> 0 < j_refs (jo s ! j)" "j < length (jo s)"
  shows "queues_ok (upd_job j f s)"
  by (rule queues_ok_jobs [OF assms(1), of _ j "f (jo s ! j)"])
     (use assms in \<open>auto simp: upd_job_def queues_ok_def\<close>)

lemma queues_ok_requeue: "queues_ok s \<Longrightarrow> j_id (jo s ! j) \<noteq> 0 \<Longrightarrow> queues_ok (requeue j t s)"
  unfolding requeue_def by (rule queues_ok_insert) simp_all

lemma queues_ok_job_close:
  assumes q: "queues_ok s" and j: "j < length (jo s)" "0 < j_refs (jo s ! j)"
  shows "queues_ok (job_close j s)"
proof -
  let ?s1 = "upd_job j (\<lambda>r. r\<lparr>j_refs := j_refs r - 1\<rparr>) s"
  have id: "j_id (jo ?s1 ! j) \<noteq> 0" using q j by (simp add: upd_job_def queues_ok_def)
  have q1: "queues_ok ?s1" by (rule queues_ok_upd_job [OF q]) (use j in auto)
  have keep: "queues_ok s'" if "qproj s' = qproj ?s1" for s' using q1 that by (rule q_same)
  obtain e s2 where u: "sys_unlink (FChan (j_channel (jo ?s1 ! j)) (j_id (jo ?s1 ! j))) ?s1 = (e, s2)" by force
  obtain x s3 where o: "other_chans (j_id (jo ?s1 ! j)) (j_channel (jo ?s1 ! j)) chans s2 = (x, s3)" by force
  have oc: "qproj b = qproj a" if "other_chans i ch cs a = (y, b)" for i ch cs a y b
    using that
    by (induction cs arbitrary: a) (auto simp: q_simps split: prod.splits sum.splits errno.splits if_splits dest!: q_calls)
  have q2: "qproj s2 = qproj ?s1" using q_calls(4) [OF u] .
  have q3: "qproj s3 = qproj ?s1" using q2 oc [OF o] by simp
  obtain t2 s5 where n2: "now (slog (LNoUnlink (FChan (j_channel (jo ?s1 ! j)) (j_id (jo ?s1 ! j)))) s2) = (t2, s5)" by force
  obtain t3 s4 where n3: "now s3 = (t3, s4)" by force
  have q5: "qproj s5 = qproj ?s1" using q_calls(1) [OF n2] q2 by (simp add: q_simps)
  have q4: "qproj s4 = qproj ?s1" using q_calls(1) [OF n3] q3 by simp
  have j5: "jo s5 = jo ?s1" using q5 by (simp add: qproj_def)
  have "queues_ok (requeue j (j_retry (jo ?s1 ! j)) ?s1)" by (rule queues_ok_requeue [OF q1 id])
  moreover have "queues_ok (requeue j (t2 + SLEEP_SYSFAIL) s5)"
    by (rule queues_ok_requeue [OF keep [OF q5]]) (simp add: j5 id)
  moreover have "queues_ok (insert_done \<lparr>pe_dt = t3, pe_id = j_id (jo ?s1 ! j), pe_delayed = junk s3\<rparr> s4)"
    by (rule queues_ok_insert(2) [OF keep [OF q4]]) (simp add: id)
  ultimately show ?thesis
    using q1 keep [OF q3] by (simp add: job_close_def Let_def u o n2 n3 split: option.split bool.split del: other_chans.simps One_nat_def)
qed

section \<open>Taking a message from the queue\<close>

lemma free_job:
  assumes "refs_ok s" "j < length (jo s)" "j_refs (jo s ! j) = 0"
  shows "outs (del s) c j = {#} \<and> passof (pass s) c j = None"
proof (rule ccontr)
  assume "\<not> ?thesis"
  then have a: "outs (del s) c j \<noteq> {#} \<or> passof (pass s) c j \<noteq> None" by auto
  then have "j_channel (jo s ! j) = c" using refs_okD [OF assms(1)] by blast
  then have "nrefs (del s) (pass s) c j = 0" using refs_ok_refs [OF assms(1,2)] assms(3) by simp
  then show False using a by (auto simp: nrefs_def split: if_splits)
qed

lemma job_avail_Some: "job_avail s = Some j \<Longrightarrow> j < length (jo s) \<and> j_refs (jo s ! j) = 0"
  by (auto simp: job_avail_def find_Some_iff)

lemma passof_idle: "ps_id (Q c) = 0 \<Longrightarrow> passof Q c j = None"
  by (simp add: passof_def)

text \<open>The state after a message was opened: a fresh job with one reference.\<close>

lemma send_inv_open:
  assumes inv: "send_inv s" and j: "j < length (jo s)" "j_refs (jo s ! j) = 0" and idle: "ps_id (pass s c) = 0"
    and t: "proj t = ((jo s)[j := r], del s, (pass s)(c := \<lparr>ps_id = i, ps_j = j, ps_mpos = 0, ps_rest = b\<rparr>),
       concurrency s, concurrencyused s, ub s, cdata s, twice s, unlinked s)"
    and r: "j_refs r = 1" "j_id r = i" "j_channel r = c" "j_numtodo r = 0" "\<not> j_hiteof r"
    and i: "i \<noteq> 0" and b: "cdata s c i = Some b"
  shows "send_inv t"
proof -
  have ro: "refs_ok s" and sl: "slots_ok s" using inv by (auto simp: send_inv_def)
  note tt = t [unfolded proj_eq_iff]
  note fr = free_job [OF ro j]
  have pt: "passof (pass t) c j = Some (0, b)" using tt i by (simp add: passof_def)
  have po: "passof (pass t) c' j' = passof (pass s) c' j'" if "c' \<noteq> c \<or> j' \<noteq> j" for c' j'
    using tt that idle by (cases "c' = c") (simp_all add: passof_def)
  show ?thesis
  proof (rule send_inv_step [OF inv _ j(1), where r = r and c = c])
    show "slots_ok t" using sl tt by (simp add: slots_ok_def)
    show "j_refs r = nrefs (del t) (pass t) c j" using r tt fr pt by (simp add: nrefs_def)
    show "job_at t j r" using r tt fr pt b job_ok_open by (simp add: job_at_def)
  qed (use tt r fr po in auto)
qed

lemma mgr_inv_pass_trouble:
  assumes "send_inv s" "queues_ok s" "pe_id pe \<noteq> 0"
  shows "mgr_inv (pass_trouble c pe f s)"
proof -
  have "queues_ok (slog (LNoOpen f) s)" using assms(2) by (rule q_same) (simp add: q_simps)
  then have "queues_ok (pass_trouble c pe f s)"
    unfolding pass_trouble_def Let_def by (rule queues_ok_insert) (use assms in auto)
  moreover have "proj (pass_trouble c pe f s) = proj s"
    by (simp add: pass_trouble_def Let_def proj_simps)
  ultimately show ?thesis using mgr_invI [OF assms(1)] by blast
qed

lemma mgr_inv_pass_open:
  assumes inv: "mgr_inv s" and j: "j < length (jo s)" "j_refs (jo s ! j) = 0"
    and idle: "ps_id (pass s c) = 0" and id: "pe_id pe \<noteq> 0" and po: "pass_open c j pe s = (ok, s')"
  shows "mgr_inv s' \<and> (ok \<longrightarrow> ps_id (pass s' c) \<noteq> 0)"
proof -
  let ?i = "pe_id pe"
  let ?s1 = "s\<lparr>pqchan := (pqchan s)(c := prioq_del Pmin (pqchan s c)), pass := (pass s)(c := (pass s c)\<lparr>ps_mpos := 0\<rparr>)\<rparr>"
  have si: "send_inv s" and qi: "queues_ok s" using inv by (auto simp: mgr_inv_def)
  have p1: "proj ?s1 = (jo s, del s, (pass s)(c := (pass s c)\<lparr>ps_mpos := 0\<rparr>), concurrency s, concurrencyused s, ub s, cdata s, twice s, unlinked s)"
    by (simp add: proj_def cdata_def fun_eq_iff twice_def unlinked_def)
  have si1: "send_inv ?s1"
    by (subst send_inv_passof [of _ s]) (use p1 si idle in \<open>auto simp: proj_eq_iff passof_def\<close>)
  have qi1: "queues_ok ?s1"
    by (rule q_same [OF queues_ok_del(1) [OF qi, of c]]) (simp add: qproj_def)
  obtain e s2 where st: "sys_stat (FChan c ?i) ?s1 = (e, s2)" by force
  have p2: "proj s2 = proj ?s1" "qproj s2 = qproj ?s1" using proj_stat [OF st] q_calls(2) [OF st] by auto
  obtain g s3 where gi: "getinfo ?i s2 = (g, s3)" by force
  have p3: "proj s3 = proj ?s1" "qproj s3 = qproj ?s1" using proj_getinfo [OF gi] q_getinfo [OF gi] p2 by auto
  have bad: "mgr_inv (pass_trouble c pe f s2)" "mgr_inv (pass_trouble c pe f s3)" for f
    using mgr_inv_pass_trouble [OF _ _ id] send_inv_cong [OF p2(1)] send_inv_cong [OF p3(1)]
      queues_ok_cong [OF p2(2)] queues_ok_cong [OF p3(2)] si1 qi1 by blast+
  show ?thesis
  proof (cases e)
    case (Inl x)
    then show ?thesis using po bad by (auto simp: pass_open_def Let_def st)
  next
    case (Inr x)
    show ?thesis
    proof (cases g)
      case None
      then show ?thesis using po bad Inr by (auto simp: pass_open_def Let_def st gi)
    next
      case (Some a)
      obtain sender qqeh envh birth where a: "a = (sender, qqeh, envh, birth)" by (cases a)
      let ?p = "\<lparr>ps_id = ?i, ps_j = j, ps_mpos = 0, ps_rest = f_data x\<rparr>"
      let ?s5 = "job_open ?i c j (set_pass c ?p s3)"
      obtain f where ok: "ok" and s': "s' = upd_job j f ?s5"
        and f: "\<And>r. j_refs (f r) = j_refs r \<and> j_id (f r) = j_id r \<and> j_channel (f r) = j_channel r \<and>
           j_numtodo (f r) = j_numtodo r \<and> j_hiteof (f r) = j_hiteof r"
        using po unfolding pass_open_def Let_def st Inr gi Some a prod.case sum.case option.case
        by (elim Pair_inject) (use that in fastforce)
      let ?r = "f (jo ?s5 ! j)"
      have j3: "jo s3 = jo s" "pass s3 = (pass s)(c := (pass s c)\<lparr>ps_mpos := 0\<rparr>)"
        using p3(1) p1 by (simp_all add: proj_eq_iff)
      have j5: "jo ?s5 ! j = (jo s ! j)\<lparr>j_refs := 1, j_id := ?i, j_channel := c, j_numtodo := 0, j_hiteof := False\<rparr>"
        using j(1) j3 by (simp add: job_open_def upd_job_def set_pass_def)
      have r: "proj s' = ((jo s)[j := ?r], del s, (pass s)(c := ?p), concurrency s, concurrencyused s,
            ub s, cdata s, twice s, unlinked s)" "qproj s' = (pqchan ?s1, pqdone s, pqfail s, (jo s)[j := ?r])"
            "j_refs ?r = 1" "j_id ?r = ?i" "j_channel ?r = c" "j_numtodo ?r = 0" "\<not> j_hiteof ?r"
        subgoal
          using p3(1) p1 proj_upd_job [of j f ?s5] proj_set_pass [of c ?p s3]
          unfolding s' job_open_def by (simp add: proj_eq_iff proj_upd_job [unfolded proj_eq_iff])
        subgoal
          using p3(2) qproj_upd_job [of j f ?s5] unfolding s' job_open_def
          by (simp add: qproj_def set_pass_def upd_job_def)
        using f [of "jo ?s5 ! j"] j5 by simp_all
      have "files ?s1 (FChan c ?i) = Some x"
        using st Inr by (auto simp: sys_stat_def lookup_file_def split: if_splits option.splits)
      then have b: "cdata s c ?i = Some (f_data x)" by (simp add: cdata_def)
      have "send_inv s'" by (rule send_inv_open [OF si j idle r(1) r(3-7) id b])
      moreover have "queues_ok s'"
        by (rule queues_ok_jobs [OF qi1, of _ j ?r]) (use r id in \<open>auto simp: qproj_def\<close>)
      moreover have "ps_id (pass s' c) \<noteq> 0" using r(1) id by (simp add: proj_eq_iff)
      ultimately show ?thesis by (simp add: mgr_inv_def)
    qed
  qed
qed

lemma mgr_inv_pass_new:
  assumes inv: "mgr_inv s" and idle: "ps_id (pass s c) = 0" and pn: "pass_new c s = (ok, s')"
  shows "mgr_inv s' \<and> (ok \<longrightarrow> ps_id (pass s' c) \<noteq> 0)"
proof -
  have g: "pe_id pe \<noteq> 0" if "prioq_get (pqchan s c) = Some pe" for pe
    using inv pq_good_get that unfolding mgr_inv_def queues_ok_def by blast
  show ?thesis
  proof (cases "job_avail s")
    case None
    then show ?thesis using pn inv by (simp add: pass_new_def)
  next
    case (Some j)
    note j = job_avail_Some [OF Some]
    show ?thesis
    proof (cases "prioq_get (pqchan s c)")
      case None
      then show ?thesis using pn inv Some by (simp add: pass_new_def)
    next
      case pe: (Some pe)
      show ?thesis
      proof (cases "pe_dt pe > recent s")
        case True
        then show ?thesis using pn inv Some pe by (simp add: pass_new_def)
      next
        case False
        then have "pass_open c j pe s = (ok, s')" using pn Some pe by (simp add: pass_new_def)
        then show ?thesis using mgr_inv_pass_open [OF inv _ _ idle g [OF pe]] j by blast
      qed
    qed
  qed
qed

section \<open>Starting a delivery\<close>

text \<open>\<^verbatim>\<open>del_start\<close> does nothing, or takes a free slot of the channel.\<close>

lemma proj_del_start:
  assumes sl: "slots_ok s" and j: "j < length (jo s)" and c: "j_channel (jo s ! j) = c"
  shows "proj (del_start L j mpos recip s) = proj s \<or>
    (\<exists>n d. n < length (del s c) \<and> \<not> d_used (del s c ! n) \<and> d_used d \<and> d_j d = j \<and> d_mpos d = mpos \<and>
       proj (del_start L j mpos recip s) =
         ((jo s)[j := (jo s ! j)\<lparr>j_refs := j_refs (jo s ! j) + 1\<rparr>], (del s)(c := (del s c)[n := d]), pass s,
          concurrency s, (concurrencyused s)(c := concurrencyused s c + 1), ub s, cdata s, twice s, unlinked s))"
proof (cases "flagspawnalive s c \<and> \<not> holdjobs s c \<and> comm_canwrite c s")
  case False
  then show ?thesis by (auto simp: del_start_def c)
next
  case can: True
  show ?thesis
  proof (cases "del_slot c s")
    case None
    then show ?thesis using can by (simp add: del_start_def c)
  next
    case (Some n)
    have len: "concurrency s c \<le> length (del s c)" using sl by (simp add: slots_ok_def)
    have n: "n < length (del s c)" "\<not> d_used (del s c ! n)"
      using Some len by (auto simp: del_slot_def find_Some_iff)
    obtain ok s1 where o: "sys_ok s = (ok, s1)" by force
    note p1 = proj_ok [OF o, unfolded proj_def [of s], unfolded proj_eq_iff]
    show ?thesis
    proof (cases ok)
      case False
      have "proj (slog (LAlert ''out of memory'') s1) = proj s" using proj_ok [OF o] by (simp add: proj_simps)
      then show ?thesis using can Some n False by (simp add: del_start_def c o)
    next
      case True
      let ?d = "\<lparr>d_used = True, d_j = j, d_delid = masterdelid s1, d_mpos = mpos, d_recip = recip\<rparr>"
      let ?s2 = "upd_job j (\<lambda>r. r\<lparr>j_refs := j_refs r + 1\<rparr>) s1"
      let ?s3 = "?s2\<lparr>del := (del ?s2)(c := (del ?s2 c)[n := ?d]), masterdelid := masterdelid ?s2 + 1,
                  concurrencyused := (concurrencyused ?s2)(c := concurrencyused ?s2 c + 1)\<rparr>"
      have eq: "del_start L j mpos recip s = slog (LStart (masterdelid s1) (j_id (jo ?s3 ! j)) c recip)
          (comm_write L c n (j_id (jo ?s3 ! j)) (j_sender (jo ?s3 ! j)) (j_qqeh (jo ?s3 ! j)) (j_envh (jo ?s3 ! j)) recip ?s3)"
        using can Some n True c by (auto simp: del_start_def Let_def o)
      have "proj (del_start L j mpos recip s) = proj ?s3" unfolding eq by (simp add: proj_simps)
      also have "\<dots> = ((jo s)[j := (jo s ! j)\<lparr>j_refs := j_refs (jo s ! j) + 1\<rparr>], (del s)(c := (del s c)[n := ?d]), pass s,
          concurrency s, (concurrencyused s)(c := concurrencyused s c + 1), ub s, cdata s, twice s, unlinked s)"
        using p1 proj_upd_job [of j "\<lambda>r. r\<lparr>j_refs := j_refs r + 1\<rparr>" s1, unfolded proj_eq_iff]
        unfolding proj_eq_iff by (simp add: cdata_def fun_eq_iff twice_def unlinked_def)
      finally show ?thesis using n by (intro disjI2 exI [of _ n] exI [of _ ?d]) simp
    qed
  qed
qed

lemma queues_ok_del_start:
  assumes q: "queues_ok s" and j: "j < length (jo s)" "0 < j_refs (jo s ! j)"
  shows "queues_ok (del_start L j mpos recip s)"
proof -
  have keep: "queues_ok s'" if "qproj s' = qproj s" for s' using q that by (rule q_same)
  obtain ok s1 where o: "sys_ok s = (ok, s1)" by force
  have q1: "qproj s1 = qproj s" using q_calls(3) [OF o] .
  then have j1: "jo s1 = jo s" by (simp add: qproj_def)
  have "queues_ok (upd_job j (\<lambda>r. r\<lparr>j_refs := j_refs r + 1\<rparr>) s1)"
    by (rule queues_ok_upd_job [OF keep [OF q1]]) (use j j1 in auto)
  then have up: "queues_ok s'" if "qproj s' = qproj (upd_job j (\<lambda>r. r\<lparr>j_refs := j_refs r + 1\<rparr>) s1)" for s'
    using that by (rule q_same)
  have "qproj (del_start L j mpos recip s) \<in> {qproj s, qproj (upd_job j (\<lambda>r. r\<lparr>j_refs := j_refs r + 1\<rparr>) s1)}"
    unfolding del_start_def Let_def o prod.case
    using q1 by (auto simp: q_simps split: option.split)
  then show ?thesis using keep up by blast
qed

end
