(* ===== verification/SendRead.thy ===== *)
theory SendRead
  imports SendOpen
begin

text \<open>
  The second half of \<^verbatim>\<open>pass_dochan\<close>: every way a record of a recipient list can be read keeps the
  invariant.
\<close>

section \<open>Reading a recipient\<close>

lemma active_pass:
  assumes "send_inv s" "ps_id (pass s c) \<noteq> 0"
  defines "j \<equiv> ps_j (pass s c)"
  shows "passof (pass s) c j = Some (ps_mpos (pass s c), ps_rest (pass s c))" "j < length (jo s)"
    "j_channel (jo s ! j) = c" "0 < j_refs (jo s ! j)" "job_at s j (jo s ! j)"
proof -
  show act: "passof (pass s) c j = Some (ps_mpos (pass s c), ps_rest (pass s c))"
    using assms by (simp add: passof_def)
  have ro: "refs_ok s" "jobs_ok s" using assms(1) by (auto simp: send_inv_def)
  show j: "j < length (jo s)" "j_channel (jo s ! j) = c" using refs_okD [OF ro(1), of c j] act by auto
  show r: "0 < j_refs (jo s ! j)" using refs_ok_refs [OF ro(1) j] act by (simp add: nrefs_def)
  show "job_at s j (jo s ! j)" using ro(2) j(1) r by (simp add: jobs_ok_def)
qed

lemma send_inv_advance:
  assumes inv: "send_inv s" and act: "passof (pass s) c j = Some (m, rest)"
    and t: "jo t = (jo s)[j := r]" "pass t = (pass s)(c := p)" "cdata t = cdata s" "twice t = twice s"
      "unlinked t = unlinked s" "slots_ok t"
    and p: "ps_id p \<noteq> 0" "ps_j p = j"
    and r: "j_channel r = j_channel (jo s ! j)" "j_id r = j_id (jo s ! j)" "j_hiteof r = j_hiteof (jo s ! j)"
      "j_refs r = j_refs (jo s ! j) + int (size (outs (del t) c j)) - int (size (outs (del s) c j))"
    and others: "\<And>c' j'. c' \<noteq> c \<or> j' \<noteq> j \<Longrightarrow> outs (del t) c' j' = outs (del s) c' j'"
    and ok: "\<And>F tw. job_ok False (j_numtodo (jo s ! j)) (outs (del s) c j) (Some (m, rest)) F tw \<Longrightarrow>
       job_ok False (j_numtodo r) (outs (del t) c j) (Some (ps_mpos p, ps_rest p)) F tw"
  shows "send_inv t"
proof -
  have id: "ps_id (pass s c) \<noteq> 0" "ps_j (pass s c) = j" "m = ps_mpos (pass s c)" "rest = ps_rest (pass s c)"
    using act by (auto simp: passof_def split: if_splits)
  note a = active_pass [OF inv id(1), unfolded id(2)]
  have ro: "refs_ok s" using inv by (simp add: send_inv_def)
  have pt: "passof (pass t) c j = Some (ps_mpos p, ps_rest p)" using t p by (simp add: passof_def)
  have po: "passof (pass t) c' j' = passof (pass s) c' j'" if "c' \<noteq> c \<or> j' \<noteq> j" for c' j'
    using that t p id by (cases "c' = c") (auto simp: passof_def)
  have jk: "job_ok (j_hiteof (jo s ! j)) (j_numtodo (jo s ! j)) (outs (del s) c j) (Some (m, rest))
      (cdata s c (j_id (jo s ! j))) ((c, j_id (jo s ! j)) \<in> twice s)"
    using a(5) act unfolding job_at_def a(3) by simp
  then have h: "\<not> j_hiteof (jo s ! j)" by (simp add: job_ok_def)
  have "job_ok False (j_numtodo r) (outs (del t) c j) (Some (ps_mpos p, ps_rest p))
      (cdata s c (j_id (jo s ! j))) ((c, j_id (jo s ! j)) \<in> twice s)"
    by (rule ok) (use jk h in simp)
  then have at: "job_at t j r" using h r a(3) pt t by (simp add: job_at_def)
  show ?thesis
  proof (rule send_inv_step [OF inv t(6) a(2) t(1), where c = c])
    show "j_refs r = nrefs (del t) (pass t) c j"
      using refs_ok_refs [OF ro a(2,3)] r(4) pt act by (simp add: nrefs_def)
    show "outs (del s) c' j = {#} \<and> passof (pass s) c' j = None" if "c' \<noteq> c" for c'
      using refs_ok_other [OF ro a(3) that] .
  qed (use t r a others po at in auto)
qed

lemma job_ok_skip': "read_record rest = Some (line, rest') \<Longrightarrow> line = [] \<or> hd line \<noteq> CHR ''T'' \<Longrightarrow>
   job_ok False n M (Some (m, rest)) F tw \<Longrightarrow> job_ok False n M (Some (m + length line + 1, rest')) F tw"
  by (rule job_ok_skip)

lemma slots_ok_start:
  assumes sl: "slots_ok s" and n: "n < length (del s c)" "\<not> d_used (del s c ! n)" and d: "d_used d"
    and t: "ub t = ub s" "concurrency t = concurrency s" "del t = (del s)(c := (del s c)[n := d])"
      "concurrencyused t = (concurrencyused s)(c := concurrencyused s c + 1)"
  shows "slots_ok t"
  using sl filter_update_length [OF n(1), of d_used d] n(2) d
  unfolding slots_ok_def nused_def t by auto

text \<open>The state after \<^verbatim>\<open>T\<close> was read and \<^verbatim>\<open>del_start\<close> called, and the offset moved.\<close>

lemma mgr_inv_recipient:
  assumes inv: "mgr_inv s" and id: "ps_id (pass s c) \<noteq> 0"
    and rr: "read_record (ps_rest (pass s c)) = Some (CHR ''T'' # recip, rest')"
    and u: "proj u = ((jo s)[j := (jo s ! j)\<lparr>j_numtodo := j_numtodo (jo s ! j) + 1\<rparr>], del s,
       (pass s)(c := (pass s c)\<lparr>ps_rest := rest'\<rparr>), concurrency s, concurrencyused s, ub s, cdata s, twice s, unlinked s)"
    and j: "j = ps_j (pass s c)" and qu: "queues_ok u"
    and v: "v = del_start L j (ps_mpos (pass s c)) recip u"
  shows "mgr_inv (set_pass c ((pass v c)\<lparr>ps_mpos := ps_mpos (pass v c) + length (CHR ''T'' # recip) + 1\<rparr>) v)"
proof -
  define t where "t = set_pass c ((pass v c)\<lparr>ps_mpos := ps_mpos (pass v c) + length (CHR ''T'' # recip) + 1\<rparr>) v"
  let ?m = "ps_mpos (pass s c)" and ?m' = "ps_mpos (pass s c) + length (CHR ''T'' # recip) + 1"
  let ?r = "(jo s ! j)\<lparr>j_numtodo := j_numtodo (jo s ! j) + 1\<rparr>"
  have si: "send_inv s" using inv by (simp add: mgr_inv_def)
  note a = active_pass [OF si id, folded j]
  note uu = u [unfolded proj_eq_iff]
  have sl: "slots_ok s" "slots_ok u" using si uu by (simp_all add: send_inv_def slots_ok_def)
  have ju: "j < length (jo u)" "j_channel (jo u ! j) = c" "0 < j_refs (jo u ! j)" using uu a(2,3,4) by simp_all
  have qv: "queues_ok t"
    unfolding t_def v by (rule q_same [OF queues_ok_del_start [OF qu ju(1,3)]]) (simp add: q_simps)
  have two: "proj v = proj u \<or>
    (\<exists>n d. n < length (del s c) \<and> \<not> d_used (del s c ! n) \<and> d_used d \<and> d_j d = j \<and> d_mpos d = ?m \<and>
       proj v = ((jo s)[j := ?r\<lparr>j_refs := j_refs ?r + 1\<rparr>], (del s)(c := (del s c)[n := d]), pass u,
          concurrency s, (concurrencyused s)(c := concurrencyused s c + 1), ub s, cdata s, twice s, unlinked s))"
    using proj_del_start [OF sl(2) ju(1,2), of L ?m recip, folded v] uu a(2) by auto
  note pt = proj_set_pass [of c "(pass v c)\<lparr>ps_mpos := ps_mpos (pass v c) + length (CHR ''T'' # recip) + 1\<rparr>" v,
      folded t_def, unfolded proj_eq_iff]
  have keep: "pass v = pass u" using two proj_fields(3) [of v u] by (auto simp: proj_eq_iff)
  have pass: "pass t = (pass s)(c := (pass s c)\<lparr>ps_rest := rest', ps_mpos := ?m'\<rparr>)"
    using pt keep uu by simp
  have jk: "job_ok False (n + 1) (if new then add_mset ?m M else M) (Some (?m', rest')) F tw"
    if "job_ok False n M (Some (?m, ps_rest (pass s c))) F tw" for n M F tw new
    using job_ok_recipient [OF that rr] .
  from two show ?thesis
  proof
    assume eq: "proj v = proj u"
    have f: "jo t = (jo s)[j := ?r]" "cdata t = cdata s" "twice t = twice s" "unlinked t = unlinked s" "del t = del s"
      using pt proj_fields [OF eq] uu by simp_all
    have "slots_ok t" using sl(1) pt proj_fields [OF eq] uu by (simp add: slots_ok_def)
    then have "send_inv t"
      using jk [where new = False] id j [symmetric]
      by (intro send_inv_advance [OF si a(1) f(1) pass f(2-4)]) (simp_all add: f(5))
    then show ?thesis using qv unfolding t_def [symmetric] mgr_inv_def by simp
  next
    assume "\<exists>n d. n < length (del s c) \<and> \<not> d_used (del s c ! n) \<and> d_used d \<and> d_j d = j \<and> d_mpos d = ?m \<and>
       proj v = ((jo s)[j := ?r\<lparr>j_refs := j_refs ?r + 1\<rparr>], (del s)(c := (del s c)[n := d]), pass u,
          concurrency s, (concurrencyused s)(c := concurrencyused s c + 1), ub s, cdata s, twice s, unlinked s)"
    then obtain n d where n: "n < length (del s c)" "\<not> d_used (del s c ! n)" and d: "d_used d" "d_j d = j" "d_mpos d = ?m"
      and eq: "proj v = ((jo s)[j := ?r\<lparr>j_refs := j_refs ?r + 1\<rparr>], (del s)(c := (del s c)[n := d]), pass u,
          concurrency s, (concurrencyused s)(c := concurrencyused s c + 1), ub s, cdata s, twice s, unlinked s)" by blast
    have f: "jo t = (jo s)[j := ?r\<lparr>j_refs := j_refs ?r + 1\<rparr>]" "cdata t = cdata s" "twice t = twice s"
      "unlinked t = unlinked s" "del t = (del s)(c := (del s c)[n := d])"
      using pt eq uu by (simp_all add: proj_eq_iff)
    have sl': "slots_ok t"
      by (rule slots_ok_start [OF sl(1) n d(1)]) (use pt eq uu in \<open>simp_all add: proj_eq_iff\<close>)
    have o: "outs (del t) c j = add_mset ?m (outs (del s) c j)"
      using outs_update [of n "del s" c d j, OF n(1)] n(2) d by (simp add: f(5))
    have oo: "outs (del t) c' j' = outs (del s) c' j'" if "c' \<noteq> c \<or> j' \<noteq> j" for c' j'
      using outs_update [of n "del s" c d j', OF n(1)] that n(2) d by (cases "c' = c") (auto simp: f(5))
    have "send_inv t"
      using jk [where new = True] id j [symmetric] oo
      by (intro send_inv_advance [OF si a(1) f(1) pass f(2-4) sl']) (simp_all add: o)
    then show ?thesis using qv unfolding t_def [symmetric] mgr_inv_def by simp
  qed
qed

lemma mgr_inv_end_pass:
  assumes inv: "mgr_inv s" and id: "ps_id (pass s c) \<noteq> 0" and j: "j = ps_j (pass s c)"
    and u: "proj u = ((jo s)[j := r], del s, (pass s)(c := p), concurrency s, concurrencyused s, ub s, cdata s, twice s, unlinked s)"
    and r: "j_channel r = j_channel (jo s ! j)" "j_refs r = j_refs (jo s ! j)" "j_id r = j_id (jo s ! j)"
      "j_numtodo r = j_numtodo (jo s ! j)"
      "j_hiteof r = j_hiteof (jo s ! j) \<or> (j_hiteof r \<and> read_record (ps_rest (pass s c)) = None)"
    and qu: "queues_ok u"
  shows "mgr_inv (end_pass c (job_close j u))"
proof -
  have si: "send_inv s" using inv by (simp add: mgr_inv_def)
  note a = active_pass [OF si id, folded j]
  note uu = u [unfolded proj_eq_iff]
  have "send_inv (end_pass c (job_close j u))"
  proof (rule send_inv_end_pass [OF si a(1) u r(1-3)])
    assume "job_at s j (jo s ! j)"
    then have ok: "job_ok (j_hiteof (jo s ! j)) (j_numtodo r) (outs (del s) c j)
        (Some (ps_mpos (pass s c), ps_rest (pass s c))) (cdata s c (j_id r)) ((c, j_id r) \<in> twice s)"
      using a(1,3) r by (simp add: job_at_def)
    then have "\<not> j_hiteof (jo s ! j)" by (simp add: job_ok_def)
    then show "job_ok (j_hiteof r) (j_numtodo r) (outs (del s) c j) None (cdata s c (j_id r)) ((c, j_id r) \<in> twice s)"
      using ok r(5) job_ok_eof job_ok_giveup by (cases "j_hiteof r") auto
  qed
  moreover have "queues_ok (end_pass c (job_close j u))"
    by (rule q_same [OF queues_ok_job_close [OF qu]]) (use uu a r in \<open>auto simp: q_simps\<close>)
  ultimately show ?thesis by (simp add: mgr_inv_def)
qed

text \<open>The same when the job was not changed.\<close>

lemma mgr_inv_giveup:
  assumes inv: "mgr_inv s" and id: "ps_id (pass s c) \<noteq> 0" and j: "j = ps_j (pass s c)"
    and u: "proj u = (jo s, del s, (pass s)(c := p), concurrency s, concurrencyused s, ub s, cdata s, twice s, unlinked s)"
    and qu: "qproj u = qproj s"
  shows "mgr_inv (end_pass c (job_close j u))"
proof -
  have "queues_ok u" using inv qu q_same by (auto simp: mgr_inv_def)
  then show ?thesis
    by (intro mgr_inv_end_pass [OF inv id j, of u "jo s ! j" p]) (use u in simp_all)
qed

lemma mgr_inv_pass_record:
  assumes inv: "mgr_inv s" and id: "ps_id (pass s c) \<noteq> 0"
  shows "mgr_inv (pass_record L c s)"
proof (cases "del_avail c s")
  case False
  then show ?thesis using inv by (simp add: pass_record_def)
next
  case av: True
  define p where "p = pass s c"
  define j where "j = ps_j p"
  have si: "send_inv s" and qs: "queues_ok s" using inv by (auto simp: mgr_inv_def)
  obtain ok s1 where o: "sys_ok s = (ok, s1)" by force
  have p1: "proj s1 = proj s" "qproj s1 = qproj s" using proj_ok [OF o] q_calls(3) [OF o] by auto
  note f1 = proj_fields [OF p1(1)]
  have j': "j = ps_j (pass s c)" by (simp add: j_def p_def)
  note a = active_pass [OF si id, folded j']
  have noop: "proj s' = (jo s, del s, (pass s)(c := p), concurrency s, concurrencyused s, ub s, cdata s, twice s, unlinked s)"
    if "proj s' = proj s" for s'
    using that by (simp add: proj_def p_def)
  show ?thesis
  proof (cases ok)
    case False
    have "mgr_inv (end_pass c (job_close j (slog (LNoRead (FChan c (ps_id p))) s1)))"
      by (rule mgr_inv_giveup [OF inv id j' noop]) (use p1 in \<open>simp_all add: proj_simps q_simps\<close>)
    then show ?thesis using av False by (simp add: pass_record_def o p_def j_def Let_def)
  next
    case ok: True
    show ?thesis
    proof (cases "read_record (ps_rest p)")
      case None
      have pu: "proj (upd_job j (\<lambda>r. r\<lparr>j_hiteof := True\<rparr>) s1) =
         ((jo s)[j := (jo s ! j)\<lparr>j_hiteof := True\<rparr>], del s, (pass s)(c := p), concurrency s, concurrencyused s, ub s,
          cdata s, twice s, unlinked s)"
        unfolding proj_upd_job using f1 by (simp add: p_def)
      have "queues_ok (upd_job j (\<lambda>r. r\<lparr>j_hiteof := True\<rparr>) s1)"
        by (rule queues_ok_upd_job [OF q_same [OF qs p1(2)]]) (use f1 a(2) in simp_all)
      then have "mgr_inv (end_pass c (job_close j (upd_job j (\<lambda>r. r\<lparr>j_hiteof := True\<rparr>) s1)))"
        by (intro mgr_inv_end_pass [OF inv id j' pu]) (use None in \<open>simp_all add: p_def\<close>)
      then show ?thesis using av ok None by (simp add: pass_record_def o p_def j_def Let_def)
    next
      case (Some lr)
      obtain line rest' where lr: "lr = (line, rest')" by force
      define s2 where "s2 = set_pass c (p\<lparr>ps_rest := rest'\<rparr>) s1"
      have p2: "proj s2 = (jo s, del s, (pass s)(c := p\<lparr>ps_rest := rest'\<rparr>), concurrency s, concurrencyused s, ub s, cdata s, twice s, unlinked s)"
        "qproj s2 = qproj s"
        using f1 p1 by (simp_all add: s2_def proj_set_pass q_simps)
      note f2 = p2(1) [unfolded proj_eq_iff]
      have same2: "proj s' = (jo s, del s, (pass s)(c := p\<lparr>ps_rest := rest'\<rparr>), concurrency s, concurrencyused s, ub s, cdata s, twice s, unlinked s)"
        if "proj s' = proj s2" for s' using that p2 by simp
      have unknown: "mgr_inv (end_pass c (job_close j (slog (LUnknownRecord (FChan c (ps_id p))) s2)))"
        by (rule mgr_inv_giveup [OF inv id j' same2]) (use p2 in \<open>simp_all add: proj_simps q_simps\<close>)
      have skip: "mgr_inv (set_pass c ((pass s2 c)\<lparr>ps_mpos := ps_mpos (pass s2 c) + length line + 1\<rparr>) s2)"
        if nt: "line = [] \<or> hd line \<noteq> CHR ''T''"
      proof -
        define t where "t = set_pass c ((pass s2 c)\<lparr>ps_mpos := ps_mpos (pass s2 c) + length line + 1\<rparr>) s2"
        have ft: "jo t = (jo s)[j := jo s ! j]" "pass t = (pass s)(c := p\<lparr>ps_rest := rest', ps_mpos := ps_mpos p + length line + 1\<rparr>)"
            "cdata t = cdata s" "twice t = twice s" "unlinked t = unlinked s" "del t = del s"
            "ub t = ub s" "concurrency t = concurrency s" "concurrencyused t = concurrencyused s"
          using f2 proj_set_pass [of c "(pass s2 c)\<lparr>ps_mpos := ps_mpos (pass s2 c) + length line + 1\<rparr>" s2, folded t_def, unfolded proj_eq_iff]
          by simp_all
        have "slots_ok t" using si ft by (simp add: send_inv_def slots_ok_def)
        then have "send_inv t"
          using id job_ok_skip [OF _ Some [unfolded lr p_def] nt]
          by (intro send_inv_advance [OF si a(1) ft(1-5)]) (auto simp: ft(6) j_def p_def)
        moreover have "queues_ok t" using qs p2(2) by (auto simp: t_def q_simps intro: q_same)
        ultimately show ?thesis by (simp add: mgr_inv_def t_def)
      qed
      show ?thesis
      proof (cases line)
        case Nil
        then show ?thesis using av ok Some lr unknown by (simp add: pass_record_def o p_def j_def s2_def Let_def)
      next
        case (Cons ch recip)
        show ?thesis
        proof (cases "ch = CHR ''T''")
          case False
          then show ?thesis using av ok Some lr Cons unknown skip
            by (auto simp: pass_record_def o p_def j_def s2_def Let_def)
        next
          case T: True
          have jp: "ps_j (pass s2 c) = j" "ps_mpos (pass s2 c) = ps_mpos p" using f2 by (simp_all add: j_def)
          obtain i t lim where w: "w_rate (sw s2) (w_tick (sw s2)) = (i, t, lim)" by (cases "w_rate (sw s2) (w_tick (sw s2))")
          show ?thesis
          proof (cases "i = 0")
            case True
            define s4 where "s4 = (tickw s2)\<lparr>time_needed := (if t \<noteq> 0 \<and> (t < time_needed (tickw s2) \<or> time_needed (tickw s2) = 0)
                then t + SLEEP_FUZZ else 0)\<rparr>"
            define u where "u = upd_job j (\<lambda>r. r\<lparr>j_retry := recent s4 + t\<rparr>) s4"
            have pr: "pass_recipient L c recip s2 = (False, (end_pass c (job_close j u))\<lparr>delayed_jobs := delayed_job_count (end_pass c (job_close j u))\<rparr>)"
              using True jp w by (simp add: pass_recipient_def Let_def u_def s4_def)
            have pw: "proj s4 = proj s2" "qproj s4 = qproj s" by (simp_all add: s4_def proj_simps q_simps p2)
            have pu: "proj u = ((jo s)[j := (jo s ! j)\<lparr>j_retry := recent s4 + t\<rparr>], del s, (pass s)(c := p\<lparr>ps_rest := rest'\<rparr>), concurrency s, concurrencyused s, ub s, cdata s, twice s, unlinked s)"
              unfolding u_def proj_upd_job using proj_fields [OF pw(1)] f2 by simp
            have "queues_ok u"
              unfolding u_def by (rule queues_ok_upd_job [OF q_same [OF qs pw(2)]]) (use proj_fields [OF pw(1)] f2 a in simp_all)
            then have "mgr_inv (end_pass c (job_close j u))"
              by (intro mgr_inv_end_pass [OF inv id j' pu]) simp_all
            then have "mgr_inv ((end_pass c (job_close j u))\<lparr>delayed_jobs := delayed_job_count (end_pass c (job_close j u))\<rparr>)"
              by (rule mgr_inv_same) (simp_all add: proj_simps q_simps)
            then show ?thesis using av ok Some lr Cons T pr
              by (simp add: pass_record_def o p_def j_def s2_def Let_def)
          next
            case False
            obtain s3 where pr: "pass_recipient L c recip s2 = (True, del_start L j (ps_mpos p) recip (upd_job j (\<lambda>r. r\<lparr>j_numtodo := j_numtodo r + 1\<rparr>) s3))"
                and p3: "proj s3 = proj s2" "qproj s3 = qproj s2"
              using False jp w by (auto simp: pass_recipient_def Let_def proj_simps q_simps)
            let ?u = "upd_job j (\<lambda>r. r\<lparr>j_numtodo := j_numtodo r + 1\<rparr>) s3"
            have pu: "proj ?u = ((jo s)[j := (jo s ! j)\<lparr>j_numtodo := j_numtodo (jo s ! j) + 1\<rparr>], del s,
                (pass s)(c := (pass s c)\<lparr>ps_rest := rest'\<rparr>), concurrency s, concurrencyused s, ub s, cdata s, twice s, unlinked s)"
              unfolding proj_upd_job using proj_fields [OF p3(1)] f2 by (simp add: p_def)
            have qu: "queues_ok ?u"
              by (rule queues_ok_upd_job [OF q_same [OF qs]])
                 (use p3 p2 proj_fields [OF p3(1)] f2 a in simp_all)
            have rr: "read_record (ps_rest (pass s c)) = Some (CHR ''T'' # recip, rest')"
              using Some lr Cons T by (simp add: p_def)
            have "mgr_inv (set_pass c ((pass v c)\<lparr>ps_mpos := ps_mpos (pass v c) + length (CHR ''T'' # recip) + 1\<rparr>) v)"
              if "v = del_start L j (ps_mpos (pass s c)) recip ?u" for v
              by (rule mgr_inv_recipient [OF inv id rr pu j' qu that])
            then show ?thesis using av ok Some lr Cons T pr
              by (simp add: pass_record_def o p_def j_def s2_def Let_def)
          qed
        qed
      qed
    qed
  qed
qed

end
