(* ===== verification/SendReport.thy ===== *)
theory SendReport
  imports SendRead
begin

text \<open>
  Delivery reports: \<^verbatim>\<open>del_dochan\<close> keeps the invariant, whatever bytes the spawn process sends.
\<close>

section \<open>What a report does to the recipient list\<close>

text \<open>The record at offset \<open>p\<close> of list \<open>(c, i)\<close> was marked in \<open>u\<close>, or \<open>u\<close> has the warning.\<close>

definition marked :: "nat \<Rightarrow> nat \<Rightarrow> nat \<Rightarrow> qsend \<Rightarrow> qsend \<Rightarrow> bool" where
  "marked c i p s u \<longleftrightarrow>
     twice u = insert (c, i) (twice s) \<and> cdata u = cdata s \<or>
     twice u = twice s \<and> cdata u = (cdata s)(c := (cdata s c)(i := set_done p (cdata s c i)))"

definition same_but_job :: "nat \<Rightarrow> job \<Rightarrow> qsend \<Rightarrow> qsend \<Rightarrow> bool" where
  "same_but_job j r s u \<longleftrightarrow>
     jo u = (jo s)[j := r] \<and> del u = del s \<and> pass u = pass s \<and> concurrency u = concurrency s \<and>
     concurrencyused u = concurrencyused s \<and> ub u = ub s \<and> unlinked u = unlinked s"

lemma report_done:
  assumes "proj s1 = proj s" "r = jo s ! j"
    and u_def: "u = upd_job j (\<lambda>r. r\<lparr>j_numtodo := j_numtodo r - 1\<rparr>) (markdone c i p s1)"
  shows "same_but_job j (r\<lparr>j_numtodo := j_numtodo r - 1\<rparr>) s u \<and> marked c i p s u"
proof -
  note u = proj_upd_job [of j "\<lambda>r. r\<lparr>j_numtodo := j_numtodo r - 1\<rparr>" "markdone c i p s1", folded u_def, unfolded proj_eq_iff]
  show ?thesis
    using u proj_markdone [of c i p s1, unfolded proj_eq_iff] proj_fields [OF assms(1)] assms(2)
    unfolding same_but_job_def marked_def by auto
qed

lemma report_act_cases:
  assumes "r = jo s ! d_j d" "i = j_id r" "u = report_act L c d l s"
  shows "proj u = proj s \<or>
    (same_but_job (d_j d) (r\<lparr>j_numtodo := j_numtodo r - 1\<rparr>) s u \<and> marked c i (d_mpos d) s u)"
proof -
  have k: "proj (slog (LSuccess a b) s) = proj s" "proj (addbounce L e f g (slog (LFailure a b) s)) = proj s"
    "proj (slog (LDeferral a b) s) = proj s" "proj (slog (LMangled a) s) = proj s" for a b e f g
    by (simp_all add: proj_simps)
  show ?thesis
    using report_done [OF k(1) assms(1) refl] report_done [OF k(2) assms(1) refl] k(3,4) assms
    unfolding report_act_def Let_def by auto
qed

lemma qproj_report_act:
  "qproj (report_act L c d l s) = qproj s \<or>
   qproj (report_act L c d l s) =
     (pqchan s, pqdone s, pqfail s,
      (jo s)[d_j d := (jo s ! d_j d)\<lparr>j_numtodo := j_numtodo (jo s ! d_j d) - 1\<rparr>])"
proof -
  have k: "qproj (upd_job j f (markdone c i p s1)) = (pqchan s, pqdone s, pqfail s, (jo s)[j := f (jo s ! j)])"
    if "qproj s1 = qproj s" for j f i p s1
    using that q_markdone [of c i p s1] unfolding qproj_upd_job by (simp add: qproj_def)
  show ?thesis unfolding report_act_def Let_def by (auto simp: q_simps k)
qed

section \<open>One report\<close>

lemma marked_le:
  assumes "marked c i p s u" and "\<And>b. cdata s c i = Some b \<Longrightarrow> p < length b \<and> b ! p \<in> {CHR ''T'', CHR ''D''}"
  shows "file_le (cdata s c' i') (cdata u c' i')"
proof -
  have "file_le (cdata s c i) (set_done p (cdata s c i))"
    using assms(2) marks_set by (cases "cdata s c i") (auto simp: set_done_def file_le_def)
  then show ?thesis using assms(1) by (auto simp: marked_def)
qed

lemma marked_one:
  assumes "marked c i p s u"
  shows "cdata u c i = set_done p (cdata s c i) \<or> cdata u c i = cdata s c i \<and> (c, i) \<in> twice u"
    and "(c, i) \<in> twice s \<Longrightarrow> (c, i) \<in> twice u"
proof -
  from assms consider "twice u = insert (c, i) (twice s)" "cdata u = cdata s"
    | "twice u = twice s" "cdata u = (cdata s)(c := (cdata s c)(i := set_done p (cdata s c i)))"
    unfolding marked_def by blast
  then show "cdata u c i = set_done p (cdata s c i) \<or> cdata u c i = cdata s c i \<and> (c, i) \<in> twice u"
    and "(c, i) \<in> twice s \<Longrightarrow> (c, i) \<in> twice u" by (cases; simp)+
qed

lemma slots_ok_release:
  assumes sl: "slots_ok s" and n: "n < length (del s c)" "d_used (del s c ! n)"
    and t: "ub t = ub s" "concurrency t = concurrency s" "del t = (del s)(c := (del s c)[n := d])" "\<not> d_used d"
      "concurrencyused t = (concurrencyused s)(c := concurrencyused s c - 1)"
  shows "slots_ok t"
  using sl filter_update_length [OF n(1), of d_used d] n(2) t(4)
  unfolding slots_ok_def nused_def t(1,2,3,5) by auto

lemma used_job:
  assumes ro: "refs_ok s" and n: "n < length (del s c)" "d_used (del s c ! n)" and j: "j = d_j (del s c ! n)"
  shows "d_mpos (del s c ! n) \<in># outs (del s) c j" "j < length (jo s)" "j_channel (jo s ! j) = c" "0 < j_refs (jo s ! j)"
proof -
  show mem: "d_mpos (del s c ! n) \<in># outs (del s) c j" using outs_mem [of n "del s" c] n j by simp
  then have ne: "outs (del s) c j \<noteq> {#}" by auto
  then show jj: "j < length (jo s)" "j_channel (jo s ! j) = c" using refs_okD [OF ro, of c j] by auto
  have "0 < size (outs (del s) c j)" using ne by (simp add: nonempty_has_size)
  then show "0 < j_refs (jo s ! j)" using refs_ok_refs [OF ro jj] by (simp add: nrefs_def)
qed

text \<open>The job, its deliveries and its list after the report of the delivery in slot \<open>n\<close>.\<close>

lemma send_inv_report:
  assumes inv: "send_inv s" and n: "n < length (del s c)" "d_used (del s c ! n)"
    and d_def: "d = del s c ! n" and j_def: "j = d_j d" and u_def: "u = report_act L c d l s"
    and s2_def: "s2 = job_close j u"
    and t_def: "t = s2\<lparr>del := (del s2)(c := (del s2 c)[n := (del s2 c ! n)\<lparr>d_used := False\<rparr>]),
              concurrencyused := (concurrencyused s2)(c := concurrencyused s2 c - 1)\<rparr>"
  shows "send_inv t"
proof -
  have ro: "refs_ok s" and sl: "slots_ok s" and jok: "jobs_ok s" using inv by (auto simp: send_inv_def)
  note uj = used_job [OF ro n j_def [unfolded d_def], folded d_def]
  note mem = uj(1) and j = uj(2,3)
  let ?r = "jo s ! j"
  have at: "job_ok (j_hiteof ?r) (j_numtodo ?r) (outs (del s) c j) (passof (pass s) c j)
      (cdata s c (j_id ?r)) ((c, j_id ?r) \<in> twice s)"
    using jok [unfolded jobs_ok_def, rule_format, OF uj(2,4)] uj(3) by (simp add: job_at_def)
  have keep: "del u = del s" "pass u = pass s" "concurrency u = concurrency s" "concurrencyused u = concurrencyused s"
      "ub u = ub s" "length (jo u) = length (jo s)"
    using report_act_cases [of ?r s d "j_id ?r" u L c l] proj_fields [of u s]
    by (auto simp: u_def j_def same_but_job_def)
  have ju: "j < length (jo u)" using j keep by simp
  have keep2: "del s2 = del s" "pass s2 = pass s" "concurrency s2 = concurrency s"
      "concurrencyused s2 = concurrencyused s" "ub s2 = ub s"
    using proj_job_close [OF ju refl, unfolded proj_eq_iff] keep unfolding s2_def by auto
  have tf: "jo t = jo s2" "cdata t = cdata s2" "twice t = twice s2" "unlinked t = unlinked s2" "pass t = pass s"
      "ub t = ub s" "concurrency t = concurrency s" "del t = (del s)(c := (del s c)[n := d\<lparr>d_used := False\<rparr>])"
      "concurrencyused t = (concurrencyused s)(c := concurrencyused s c - 1)"
    using keep2 by (simp_all add: t_def d_def cdata_def fun_eq_iff twice_def unlinked_def)
  have o1: "outs (del s) c j = add_mset (d_mpos d) (outs (del t) c j)"
    using outs_update [of n "del s" c "d\<lparr>d_used := False\<rparr>" j, OF n(1)] n(2) by (simp add: tf(8) d_def j_def)
  have o2: "outs (del t) c' j' = outs (del s) c' j'" if "c' \<noteq> c \<or> j' \<noteq> j" for c' j'
    using outs_update [of n "del s" c "d\<lparr>d_used := False\<rparr>" j', OF n(1)] that n(2)
    by (cases "c' = c") (auto simp: tf(8) d_def j_def)
  have slt: "slots_ok t" by (rule slots_ok_release [OF sl n tf(6,7,8) _ tf(9)]) simp
  have pos: "d_mpos d < length b \<and> b ! d_mpos d \<in> {CHR ''T'', CHR ''D''}" if "cdata s c (j_id ?r) = Some b" for b
    using at mem that unfolding job_ok_def job_todo_def by blast
  have nr: "nrefs (del t) (pass t) c j = nrefs (del s) (pass s) c j - 1"
    by (simp add: nrefs_def o1 tf(5))
  from report_act_cases [of ?r s d "j_id ?r" u L c l]
  have "proj u = proj s \<or>
    (same_but_job j (?r\<lparr>j_numtodo := j_numtodo ?r - 1\<rparr>) s u \<and> marked c (j_id ?r) (d_mpos d) s u)"
    by (simp add: u_def j_def)
  then show ?thesis
  proof
    assume "proj u = proj s"
    note pu = proj_fields [OF this]
    show ?thesis
    proof (rule send_inv_close [OF inv j(1), where u = u and r = ?r and c = c])
      show "job_ok (j_hiteof ?r) (j_numtodo ?r) (outs (del t) c j) (passof (pass t) c j)
          (cdata u c (j_id ?r)) ((c, j_id ?r) \<in> twice u)"
        using job_ok_defer [OF at [unfolded o1]] pu tf(5) by simp
    qed (use pu j o2 nr slt tf in \<open>simp_all add: s2_def\<close>)
  next
    let ?r' = "?r\<lparr>j_numtodo := j_numtodo ?r - 1\<rparr>"
    assume a: "same_but_job j ?r' s u \<and> marked c (j_id ?r) (d_mpos d) s u"
    then have m: "marked c (j_id ?r) (d_mpos d) s u" and sj: "jo u = (jo s)[j := ?r']" "unlinked u = unlinked s"
      by (auto simp: same_but_job_def)
    show ?thesis
    proof (rule send_inv_close [OF inv j(1) sj(1), where c = c])
      show "twice s \<subseteq> twice u" using m by (auto simp: marked_def)
      show "file_le (cdata s c' i) (cdata u c' i)" for c' i by (rule marked_le [OF m pos])
      have "job_ok (j_hiteof ?r) (j_numtodo ?r - 1) (outs (del t) c j) (passof (pass s) c j)
          (cdata u c (j_id ?r)) ((c, j_id ?r) \<in> twice u)"
        by (rule job_ok_done [OF at [unfolded o1] marked_one(2,1) [OF m]])
      then show "job_ok (j_hiteof ?r') (j_numtodo ?r') (outs (del t) c j) (passof (pass t) c j)
          (cdata u c (j_id ?r')) ((c, j_id ?r') \<in> twice u)" by (simp add: tf(5))
    qed (use j o2 nr slt tf sj in \<open>simp_all add: s2_def\<close>)
  qed
qed

lemma mgr_inv_del_report:
  assumes inv: "mgr_inv s"
  shows "mgr_inv (del_report L c l s)"
proof -
  have si: "send_inv s" and qs: "queues_ok s" using inv by (auto simp: mgr_inv_def)
  have sl: "concurrency s c \<le> length (del s c)" using si by (simp add: send_inv_def slots_ok_def)
  let ?n = "nat (report_delnum l)"
  have range: "mgr_inv (slog (LRange c) s)"
    by (rule mgr_inv_same [OF inv]) (simp_all add: proj_simps q_simps)
  show ?thesis
  proof (cases "report_delnum l < 0 \<or> concurrency s c \<le> ?n")
    case True
    then show ?thesis using range by (auto simp: del_report_def Let_def)
  next
    case False
    then have n: "?n < length (del s c)" using sl by simp
    show ?thesis
    proof (cases "d_used (del s c ! ?n)")
      case unused: False
      then show ?thesis using False n range by (simp add: del_report_def Let_def)
    next
      case used: True
      let ?d = "del s c ! ?n"
      let ?u = "report_act L c ?d (report_line (jo s ! d_j ?d) l) s"
      have eq: "del_report L c l s = (let s2 = job_close (d_j ?d) ?u in
         s2\<lparr>del := (del s2)(c := (del s2 c)[?n := (del s2 c ! ?n)\<lparr>d_used := False\<rparr>]),
              concurrencyused := (concurrencyused s2)(c := concurrencyused s2 c - 1)\<rparr>)"
        using False n used by (simp add: del_report_def Let_def)
      have "send_inv (del_report L c l s)"
        unfolding eq Let_def by (rule send_inv_report [OF si n used refl refl refl refl refl])
      moreover have "queues_ok (del_report L c l s)"
      proof -
        have ro: "refs_ok s" using si by (simp add: send_inv_def)
        note j = used_job(2,3) [OF ro n used refl] and r = used_job(4) [OF ro n used refl]
        have qp: "qproj ?u = qproj s \<or> qproj ?u = (pqchan s, pqdone s, pqfail s,
            (jo s)[d_j ?d := (jo s ! d_j ?d)\<lparr>j_numtodo := j_numtodo (jo s ! d_j ?d) - 1\<rparr>])"
          by (rule qproj_report_act)
        have id: "j_id (jo s ! d_j ?d) \<noteq> 0" using qs r j by (simp add: queues_ok_def)
        have "queues_ok ?u"
          using qp q_same [OF qs] queues_ok_jobs [OF qs, of ?u] id by (auto simp: qproj_def)
        moreover have "d_j ?d < length (jo ?u)" "0 < j_refs (jo ?u ! d_j ?d)"
          using qp j r by (auto simp: qproj_def)
        ultimately have "queues_ok (job_close (d_j ?d) ?u)" by (rule queues_ok_job_close)
        then show ?thesis unfolding eq Let_def by (rule q_same) (simp add: qproj_def)
      qed
      ultimately show ?thesis by (simp add: mgr_inv_def)
    qed
  qed
qed

lemma mgr_inv_del_byte: "mgr_inv s \<Longrightarrow> mgr_inv (del_byte L c ch s)"
proof -
  assume inv: "mgr_inv s"
  have d: "mgr_inv (s'\<lparr>dline := x\<rparr>)" if "mgr_inv s'" for s' x
    by (rule mgr_inv_same [OF that]) (simp_all add: proj_simps q_simps)
  show ?thesis
    using d [OF mgr_inv_del_report [OF d [OF inv]]] d [OF inv] by (simp add: del_byte_def Let_def)
qed

lemma mgr_inv_del_dochan: "mgr_inv s \<Longrightarrow> mgr_inv (del_dochan L c r s)"
proof -
  assume inv: "mgr_inv s"
  have f: "mgr_inv (fold (del_byte L c) b s)" for b
    using inv
  proof (induction b arbitrary: s)
    case (Cons ch b)
    then show ?case using mgr_inv_del_byte by simp
  qed simp
  have "mgr_inv (spawndied c s)" by (rule mgr_inv_same [OF inv]) (simp_all add: proj_simps q_simps)
  then show ?thesis
    using inv f by (auto simp: del_dochan_def split: option.split list.split simp del: fold.simps fold_simps)
qed

lemma mgr_inv_del_do: "mgr_inv s \<Longrightarrow> mgr_inv (del_do L rd s)"
  by (auto simp: del_do_def split: option.split intro: mgr_inv_del_dochan)

end
