(* ===== verification/SendReach.thy ===== *)
theory SendReach
  imports SendReport
begin

text \<open>
  The reachable states of the queue manager and its environment, and the invariant \<open>mgr_inv\<close> in all
  of them. \<open>send_reach\<close> is the inductive closure of start-up, iterations of the main loop, signals,
  and changes the other programs make to the file system.
\<close>

section \<open>The rest of the loop\<close>

lemma mgr_inv_pass_dochan: "mgr_inv s \<Longrightarrow> mgr_inv (pass_dochan L c s)"
  unfolding pass_dochan_def using mgr_inv_pass_new mgr_inv_pass_record
  by (auto split: prod.split bool.split)

lemma mgr_inv_pqadd: "mgr_inv s \<Longrightarrow> i \<noteq> 0 \<Longrightarrow> mgr_inv (pqadd i d s)"
  by (erule mgr_inv_frame) (simp_all add: proj_simps q_intros)

lemma mgr_inv_messdone: "mgr_inv s \<Longrightarrow> i \<noteq> 0 \<Longrightarrow> mgr_inv (messdone L i s)"
  by (erule mgr_inv_frame) (simp_all add: proj_simps q_intros)

lemma mgr_inv_pass_do:
  assumes "mgr_inv s"
  shows "mgr_inv (pass_do L s)"
proof -
  define s1 where "s1 = fold (pass_dochan L) chans s"
  have 1: "mgr_inv s1" using assms mgr_inv_pass_dochan by (simp add: s1_def)
  define s2 where "s2 = (case prioq_get (pqfail s1) of
      Some pe \<Rightarrow> if pe_dt pe \<le> recent s1 then pqadd (pe_id pe) False (s1\<lparr>pqfail := prioq_del Pmin (pqfail s1)\<rparr>) else s1
    | None \<Rightarrow> s1)"
  have del: "mgr_inv (s\<lparr>pqfail := prioq_del Pmin (pqfail s)\<rparr>)" "mgr_inv (s\<lparr>pqdone := prioq_del Pmin (pqdone s)\<rparr>)"
    if "mgr_inv s" for s
    using that by (rule mgr_inv_frame; simp add: proj_simps q_intros)+
  have nz: "pe_id pe \<noteq> 0" if "mgr_inv s" "prioq_get (pqfail s) = Some pe \<or> prioq_get (pqdone s) = Some pe" for s pe
    using that pq_good_get by (auto simp: mgr_inv_def queues_ok_def)
  have 2: "mgr_inv s2"
    unfolding s2_def using 1 nz [OF 1] del(1) [OF 1] mgr_inv_pqadd by (auto split: option.split)
  have "pass_do L s = (case prioq_get (pqdone s2) of
      Some pe \<Rightarrow> if pe_dt pe \<le> recent s2 then messdone L (pe_id pe) (s2\<lparr>pqdone := prioq_del Pmin (pqdone s2)\<rparr>) else s2
    | None \<Rightarrow> s2)"
    by (simp only: pass_do_def Let_def s1_def s2_def)
  then show ?thesis using 2 nz [OF 2] del(2) [OF 2] mgr_inv_messdone by (auto split: option.split)
qed

text \<open>Controls that do not raise the concurrency above the size of the tables.\<close>

definition conc_ok :: "controls \<Rightarrow> qsend \<Rightarrow> bool" where
  "conc_ok ct s \<longleftrightarrow> (\<forall>c n. ct_conc ct c = CVal n \<longrightarrow> n \<le> length (del s c))"

lemma mgr_inv_concurrency:
  assumes "mgr_inv s" "n \<le> length (del s c)"
  shows "mgr_inv (s\<lparr>concurrency := (concurrency s)(c := n)\<rparr>)"
proof -
  have "send_inv (s\<lparr>concurrency := (concurrency s)(c := n)\<rparr>)"
    using assms
    unfolding mgr_inv_def send_inv_def slots_ok_def refs_ok_def jobs_ok_def job_at_def unlinks_ok_def
      cdata_def twice_def unlinked_def by simp
  moreover have "queues_ok (s\<lparr>concurrency := (concurrency s)(c := n)\<rparr>)"
    using assms by (auto simp: mgr_inv_def q_simps intro: q_same)
  ultimately show ?thesis by (simp add: mgr_inv_def)
qed

lemma mgr_inv_set_conc: "mgr_inv s \<Longrightarrow> conc_ok ct s \<Longrightarrow> mgr_inv (set_conc c (ct_conc ct c) s)"
  by (auto simp: set_conc_def conc_ok_def split: ctlint.split intro: mgr_inv_concurrency)

lemma conc_ok_del: "del s = del t \<Longrightarrow> conc_ok ct s = conc_ok ct t"
  by (simp add: conc_ok_def)

lemma mgr_inv_regetcontrols:
  assumes inv: "mgr_inv s" and ok: "conc_ok ct s"
  shows "mgr_inv (regetcontrols ct s)"
proof -
  let ?s1 = "set_conc 0 (ct_conc ct 0) s"
  let ?s2 = "set_conc 1 (ct_conc ct 1) ?s1"
  have d: "del (set_conc c v t) = del t" for c v t by (simp add: set_conc_def split: ctlint.split)
  have 1: "mgr_inv ?s1" by (rule mgr_inv_set_conc [OF inv ok])
  have 2: "mgr_inv ?s2" by (rule mgr_inv_set_conc [OF 1]) (use ok d in \<open>simp add: conc_ok_def\<close>)
  have "mgr_inv (set_hold ct c t)" if "mgr_inv t" for c t
    by (rule mgr_inv_same [OF that]) (simp_all add: set_hold_def Let_def proj_simps q_simps)
  then have "mgr_inv (fold (set_hold ct) chans ?s2)" using 2 by simp
  then have "mgr_inv ((fold (set_hold ct) chans ?s2)\<lparr>mapvdoms := vd\<rparr>)" for vd
    by (rule mgr_inv_same) (simp_all add: proj_simps q_simps)
  then show ?thesis using inv 1 2 by (simp add: regetcontrols_def Let_def split: option.split)
qed

lemma mgr_inv_reread:
  assumes inv: "mgr_inv s" and ok: "conc_ok ct s"
  shows "mgr_inv (reread ct s)"
proof -
  obtain b1 s1 where 1: "sys_ok s = (b1, s1)" by force
  obtain b2 s2 where 2: "sys_ok s1 = (b2, s2)" by force
  have i1: "mgr_inv s1" by (rule mgr_inv_same [OF inv proj_ok [OF 1] q_calls(3) [OF 1]])
  have i2: "mgr_inv s2" by (rule mgr_inv_same [OF i1 proj_ok [OF 2] q_calls(3) [OF 2]])
  have l: "mgr_inv (slog (LAlert x) t)" if "mgr_inv t" for x t
    by (rule mgr_inv_same [OF that]) (simp_all add: proj_simps q_simps)
  have h: "mgr_inv (s2\<lparr>todo_out := b\<rparr>)" for b
    by (rule mgr_inv_same [OF i2]) (simp_all add: proj_simps q_simps)
  have "del s2 = del s" using proj_ok [OF 1] proj_ok [OF 2] proj_fields(2) by metis
  then have "conc_ok ct (s2\<lparr>todo_out := b\<rparr>)" for b using ok by (simp add: conc_ok_def)
  then show ?thesis using i1 i2 l h by (simp add: reread_def 1 2 mgr_inv_regetcontrols)
qed

lemma mgr_inv_loop_top:
  assumes inv: "mgr_inv s" and ok: "flagreadasap s \<Longrightarrow> conc_ok ct s"
  shows "mgr_inv (loop_top ct s)"
proof -
  obtain t s1 where n: "now s = (t, s1)" by force
  have "mgr_inv s1" by (rule mgr_inv_same [OF inv proj_now [OF n] q_calls(1) [OF n]])
  then have 2: "mgr_inv (s1\<lparr>recent := t\<rparr>)"
    by (rule mgr_inv_same) (simp_all add: proj_simps q_simps)
  define s2 where "s2 = s1\<lparr>recent := t\<rparr>"
  define s3 where "s3 = (if flagrunasap s2 then pqrun (s2\<lparr>flagrunasap := False\<rparr>) else s2)"
  have i2: "mgr_inv s2" using 2 by (simp add: s2_def)
  have r: "mgr_inv (s2\<lparr>flagrunasap := False\<rparr>)"
    by (rule mgr_inv_same [OF i2]) (simp_all add: proj_simps q_simps)
  have i3: "mgr_inv s3"
    unfolding s3_def using i2 mgr_inv_frame [OF r, of "pqrun (s2\<lparr>flagrunasap := False\<rparr>)"]
    by (simp add: proj_simps q_intros)
  have "proj s3 = proj s2" by (simp add: s3_def proj_simps)
  moreover have "proj s2 = proj s" using proj_now [OF n] by (simp add: s2_def proj_simps)
  ultimately have d: "del s3 = del s" using proj_fields(2) [of s3 s] by simp
  have f: "flagreadasap s3 = flagreadasap s"
    using n by (auto simp: s3_def s2_def pqrun_def now_def tickw_def)
  have c3: "conc_ok ct (s3\<lparr>flagreadasap := False\<rparr>)" if "flagreadasap s3"
    using ok that f d by (simp add: conc_ok_def)
  have f3: "mgr_inv (s3\<lparr>flagreadasap := False\<rparr>)"
    by (rule mgr_inv_same [OF i3]) (simp_all add: proj_simps q_simps)
  have sp: "mgr_inv (todo_selprep u)" if "mgr_inv u" for u
    by (rule mgr_inv_same [OF that]) (simp_all add: proj_simps q_simps)
  have "loop_top ct s = todo_selprep (if flagreadasap s3 then reread ct (s3\<lparr>flagreadasap := False\<rparr>) else s3)"
    by (simp add: loop_top_def n Let_def s3_def s2_def)
  then show ?thesis using sp i3 mgr_inv_reread [OF f3 c3] by simp
qed

section \<open>One iteration\<close>

text \<open>Message numbers in \<^verbatim>\<open>info/\<close> are not 0.\<close>

definition sig_ok :: "sendsig \<Rightarrow> bool" where
  "sig_ok g \<longleftrightarrow> (case g of SigUsr2 es \<Rightarrow> Some 0 \<notin> set es | _ \<Rightarrow> True)"

lemma mgr_inv_signals:
  assumes "mgr_inv s"
  shows "mgr_inv (sigterm s)" "mgr_inv (sigalrm s)" "mgr_inv (sighup s)" "mgr_inv (sigusr1 s)"
    "Some 0 \<notin> set es \<Longrightarrow> mgr_inv (sigusr2 es s)"
  by (rule mgr_inv_frame [OF assms]; simp add: proj_simps queues_ok_signals)+

lemma mgr_inv_on_signal: "mgr_inv s \<Longrightarrow> sig_ok g \<Longrightarrow> mgr_inv (on_signal g s)"
  by (cases g) (simp_all add: mgr_inv_signals sig_ok_def)

lemma mgr_inv_on_signals: "list_all sig_ok gs \<Longrightarrow> mgr_inv s \<Longrightarrow> mgr_inv (fold on_signal gs s)"
  by (induction gs arbitrary: s) (simp_all add: mgr_inv_on_signal)

text \<open>The state in which \<^verbatim>\<open>todo_do\<close> is called.\<close>

definition before_todo :: "libq \<Rightarrow> input \<Rightarrow> qsend \<Rightarrow> qsend" where
  "before_todo L inp s =
     (let (t, s1) = now (loop_wait inp s) in
      del_do L (in_reports inp) (comm_do (in_writes inp) (s1\<lparr>time_needed := 0, recent := t\<rparr>)))"

text \<open>What is assumed of the input: message numbers, in \<^verbatim>\<open>info/\<close> and from \<^verbatim>\<open>todo-proc\<close>, are not 0.\<close>

definition input_ok :: "libq \<Rightarrow> input \<Rightarrow> qsend \<Rightarrow> bool" where
  "input_ok L inp s \<longleftrightarrow>
     list_all sig_ok (in_signals inp) \<and> Some 0 \<notin> set (in_entries inp) \<and>
     (\<forall>b. in_todo inp = Some (Some b) \<longrightarrow> todo_ids_ok L (todoline (before_todo L inp s)) b)"

text \<open>The iteration re-reads controls that raise a concurrency above the tables allocated at start-up.\<close>

definition overruns :: "input \<Rightarrow> qsend \<Rightarrow> bool" where
  "overruns inp s \<longleftrightarrow> flagreadasap s \<and> \<not> conc_ok (in_controls inp) s"

lemma mgr_inv_iter:
  assumes inv: "mgr_inv s" and ok: "input_ok L inp s" and fits: "\<not> overruns inp s"
  shows "mgr_inv (send_iter L inp s)"
proof -
  define s1 where "s1 = loop_wait inp s"
  have "mgr_inv (loop_top (in_controls inp) s)" using mgr_inv_loop_top [OF inv] fits by (simp add: overruns_def)
  then have 1: "mgr_inv s1" using ok by (simp add: s1_def loop_wait_def input_ok_def mgr_inv_on_signals)
  obtain t s2 where n: "now s1 = (t, s2)" by force
  have 2: "mgr_inv s2" by (rule mgr_inv_same [OF 1 proj_now [OF n] q_calls(1) [OF n]])
  then have 3: "mgr_inv (s2\<lparr>time_needed := 0, recent := t\<rparr>)"
    by (rule mgr_inv_same) (simp_all add: proj_simps q_simps)
  then have "mgr_inv (comm_do (in_writes inp) (s2\<lparr>time_needed := 0, recent := t\<rparr>))"
    by (rule mgr_inv_same) (simp_all add: proj_simps q_simps)
  then have b: "mgr_inv (before_todo L inp s)"
    by (simp add: before_todo_def s1_def [symmetric] n mgr_inv_del_do)
  have "mgr_inv (todo_do L (in_todo inp) (before_todo L inp s))"
    by (rule mgr_inv_frame [OF b]) (use ok in \<open>auto simp: proj_simps input_ok_def intro: q_intros\<close>)
  then have "mgr_inv (pass_do L (todo_do L (in_todo inp) (before_todo L inp s)))"
    by (rule mgr_inv_pass_do)
  then have "mgr_inv (cleanup_do (in_ossified inp) (in_dirent inp)
      (pass_do L (todo_do L (in_todo inp) (before_todo L inp s))))"
    by (rule mgr_inv_same) (simp_all add: proj_simps q_simps)
  then have w: "mgr_inv (loop_work L inp s1)"
    by (simp add: loop_work_def before_todo_def s1_def [symmetric] n Let_def)
  have "mgr_inv (if in_select inp then loop_work L inp s1 else s1)" using w 1 by simp
  then have "mgr_inv (loop_attach (in_entries inp) (if in_select inp then loop_work L inp s1 else s1))"
    by (rule mgr_inv_frame) (use ok in \<open>simp_all add: proj_simps queues_ok_signals(6) input_ok_def\<close>)
  then show ?thesis using 1 unfolding send_iter_def s1_def [symmetric] Let_def by (cases "loop_breaks inp s1") simp_all
qed

section \<open>Reachable states\<close>

text \<open>The static variables before \<^verbatim>\<open>main\<close> starts to work (\<^verbatim>\<open>concurrency\<close> comes from the controls).\<close>

definition fresh :: "qsend \<Rightarrow> bool" where
  "fresh s \<longleftrightarrow> logs s = [] \<and> w_trace (sw s) = [] \<and> \<not> ub s \<and> pqchan s = (\<lambda>_. []) \<and> pqdone s = [] \<and> pqfail s = [] \<and>
     concurrencyused s = (\<lambda>_. 0) \<and> jo s = []"

text \<open>
  The other programs may change any file, except the recipient lists of a message that has an open
  job.
\<close>

definition env_ok :: "(fname \<Rightarrow> qfile option) \<Rightarrow> qsend \<Rightarrow> bool" where
  "env_ok F s \<longleftrightarrow>
     (\<forall>c i. F (FChan c i) \<noteq> files s (FChan c i) \<longrightarrow>
        (\<forall>j < length (jo s). 0 < j_refs (jo s ! j) \<longrightarrow> j_id (jo s ! j) \<noteq> i))"

definition set_files :: "(fname \<Rightarrow> qfile option) \<Rightarrow> qsend \<Rightarrow> qsend" where
  "set_files F s = s\<lparr>sw := (sw s)\<lparr>w_files := F\<rparr>\<rparr>"

text \<open>
  \<open>send_trace L ov s\<close>: the manager can get to \<open>s\<close>; \<open>ov\<close> says whether on the way controls were re-read that overrun the tables.
  \<open>send_reach\<close> are the states of the runs without that. (The relation lets the loop go on after its \<^verbatim>\<open>break\<close>, which
  only adds states.)
\<close>

inductive send_trace :: "libq \<Rightarrow> bool \<Rightarrow> qsend \<Rightarrow> bool" for L where
  start: "fresh s \<Longrightarrow> Some 0 \<notin> set es \<Longrightarrow> send_trace L False (send_start spawn es s)"
| iter: "send_trace L ov s \<Longrightarrow> send_alive s \<Longrightarrow> input_ok L inp s \<Longrightarrow> send_trace L (ov \<or> overruns inp s) (send_iter L inp s)"
| sig: "send_trace L ov s \<Longrightarrow> sig_ok g \<Longrightarrow> send_trace L ov (on_signal g s)"
| env: "send_trace L ov s \<Longrightarrow> env_ok F s \<Longrightarrow> send_trace L ov (set_files F s)"

abbreviation send_reach :: "libq \<Rightarrow> qsend \<Rightarrow> bool" where
  "send_reach L s \<equiv> send_trace L False s"

lemma mgr_inv_set_files:
  assumes "mgr_inv s" "env_ok F s"
  shows "mgr_inv (set_files F s)"
proof -
  let ?t = "set_files F s"
  have f: "jo ?t = jo s" "del ?t = del s" "pass ?t = pass s" "concurrency ?t = concurrency s"
    "concurrencyused ?t = concurrencyused s" "ub ?t = ub s" "twice ?t = twice s" "unlinked ?t = unlinked s"
    by (simp_all add: set_files_def twice_def unlinked_def)
  have c: "cdata ?t c (j_id (jo s ! j)) = cdata s c (j_id (jo s ! j))"
    if "j < length (jo s)" "0 < j_refs (jo s ! j)" for c j
  proof -
    have "F (FChan c (j_id (jo s ! j))) = files s (FChan c (j_id (jo s ! j)))"
      using assms(2) that unfolding env_ok_def by blast
    then show ?thesis by (simp add: cdata_def set_files_def)
  qed
  have "send_inv ?t"
    using assms(1) c
    unfolding mgr_inv_def send_inv_def slots_ok_def refs_ok_def jobs_ok_def job_at_def unlinks_ok_def f by simp
  moreover have "queues_ok ?t"
    using assms(1) by (auto simp: mgr_inv_def set_files_def q_simps intro: q_same)
  ultimately show ?thesis by (simp add: mgr_inv_def)
qed

lemma mgr_inv_start:
  assumes s: "fresh s" and es: "Some 0 \<notin> set es"
  shows "mgr_inv (send_start spawn es s)"
proof -
  define s1 where "s1 = fold (\<lambda>c. read_concurrency c (fst (spawn c)) (snd (spawn c))) chans s"
  have rc: "jo (read_concurrency c a b u) = jo u \<and> logs (read_concurrency c a b u) = logs u \<and>
      sw (read_concurrency c a b u) = sw u \<and> ub (read_concurrency c a b u) = ub u \<and>
      qproj (read_concurrency c a b u) = qproj u \<and> concurrencyused (read_concurrency c a b u) = concurrencyused u" for c a b u
    by (simp add: read_concurrency_def Let_def q_simps)
  have f1: "logs s1 = []" "w_trace (sw s1) = []" "\<not> ub s1" "concurrencyused s1 = (\<lambda>_. 0)" "qproj s1 = qproj s"
    using s by (simp_all add: s1_def rc fresh_def)
  have q1: "queues_ok s1"
    using s by (intro q_same [OF _ f1(5)]) (simp add: fresh_def queues_ok_def)
  define s2 where "s2 = pqstart es s1"
  have p2: "proj s2 = proj s1" by (simp add: s2_def proj_simps)
  note f2 = proj_fields [OF p2]
  have q2: "queues_ok s2" unfolding s2_def by (rule queues_ok_pqstart [OF q1 es])
  define n where "n = sum_list (map (concurrency s1) chans)"
  define s3 where "s3 = pass_init (del_init (job_init n s2))"
  have s3: "jo s3 = replicate n empty_job" "del s3 = (\<lambda>c. replicate (concurrency s1 c) empty_del)"
    "pass s3 = (\<lambda>_. empty_pass)" "concurrency s3 = concurrency s1" "concurrencyused s3 = (\<lambda>_. 0)" "\<not> ub s3"
    "unlinked s3 = {}" "pqchan s3 = pqchan s2" "pqdone s3 = pqdone s2" "pqfail s3 = pqfail s2"
    using f2 f1 by (simp_all add: s3_def pass_init_def del_init_def job_init_def unlinked_def)
  have o: "outs (del s3) c j = {#}" for c j by (auto simp: outs_def s3 empty_del_def)
  have p: "passof (pass s3) c j = None" for c j by (simp add: passof_def s3 empty_pass_def)
  have "slots_ok s3" by (simp add: slots_ok_def s3 nused_def empty_del_def)
  moreover have "refs_ok s3" by (simp add: refs_ok_def o p nrefs_def) (simp add: s3 empty_job_def)
  moreover have "jobs_ok s3" by (simp add: jobs_ok_def s3 empty_job_def)
  moreover have "unlinks_ok s3" by (simp add: unlinks_ok_def s3)
  ultimately have "send_inv s3" by (simp add: send_inv_def)
  moreover have "queues_ok s3" using q2 by (simp add: queues_ok_def s3 empty_job_def)
  ultimately have i3: "mgr_inv s3" by (simp add: mgr_inv_def)
  have ti: "mgr_inv (todo_init u)" if "mgr_inv u" for u
  proof (rule mgr_inv_same [OF that])
    obtain r v where w: "todo_write ''C'' (u\<lparr>flagtodoalive := True\<rparr>) = (r, v)" by force
    show "proj (todo_init u) = proj u" "qproj (todo_init u) = qproj u"
      using proj_todo_write [OF w] q_todo_write [OF w] by (simp_all add: todo_init_def w proj_simps q_simps)
  qed
  have ci: "mgr_inv (cleanup_init u)" if "mgr_inv u" for u
  proof (rule mgr_inv_same [OF that])
    obtain t v where w: "now u = (t, v)" by force
    show "proj (cleanup_init u) = proj u" "qproj (cleanup_init u) = qproj u"
      using proj_now [OF w] q_calls(1) [OF w] by (simp_all add: cleanup_init_def w proj_simps q_simps)
  qed
  have "send_start spawn es s = cleanup_init (todo_init s3)"
    by (simp add: send_start_def Let_def s1_def s2_def s3_def n_def)
  then show ?thesis using ci ti i3 by simp
qed

lemma mgr_inv_trace: "send_trace L ov s \<Longrightarrow> ov \<or> mgr_inv s"
proof (induction rule: send_trace.induct)
  case (start s es spawn)
  then show ?case by (simp add: mgr_inv_start)
next
  case (env ov s F)
  then show ?case by (blast intro: mgr_inv_set_files)
qed (blast intro: mgr_inv_iter mgr_inv_on_signal)+

lemma mgr_inv_reach: "send_reach L s \<Longrightarrow> mgr_inv s"
  using mgr_inv_trace [of L False s] by simp

text \<open>What is still to be read of an open list is what is on disk, but for marks made since it was opened.\<close>

lemma pass_reads_the_list:
  assumes "send_reach L s" "ps_id (pass s c) \<noteq> 0" "0 < j_refs (jo s ! ps_j (pass s c))"
    and "cdata s c (j_id (jo s ! ps_j (pass s c))) = Some b"
  shows "marks (ps_rest (pass s c)) (drop (ps_mpos (pass s c)) b)"
proof -
  let ?j = "ps_j (pass s c)"
  have p: "passof (pass s) c ?j = Some (ps_mpos (pass s c), ps_rest (pass s c))" using assms(2) by (simp add: passof_def)
  note inv = mgr_inv_reach [OF assms(1), unfolded mgr_inv_def send_inv_def]
  then have j: "?j < length (jo s)" "j_channel (jo s ! ?j) = c" using p by (auto simp: refs_ok_def)
  then have "job_at s ?j (jo s ! ?j)" using inv assms(3) by (simp add: jobs_ok_def)
  then show ?thesis using p j assms(4) by (auto simp: job_at_def job_ok_def job_todo_def reading_def)
qed

end
