(* ===== verification/SendExample.thy ===== *)
theory SendExample
  imports SendReach
begin

text \<open>
  A complete run of the queue manager, evaluated step by step: message 12 has one local recipient;
  the daemon starts, opens the job, sends the delivery to \<^verbatim>\<open>qmail-lspawn\<close>, gets the report \<^verbatim>\<open>K\<close>,
  marks the recipient done, reads the end of the list and removes it. The states serve as witnesses.
\<close>

section \<open>The machine and the configuration\<close>

definition ex_files :: "fname \<Rightarrow> qfile option" where
  "ex_files f =
     (if f = FInfo 12 then Some \<lparr>f_data = ''Fjoe@a'' @ [NUL], f_mtime = 1000, f_atime = 1000\<rparr>
      else if f = FChan 0 12 then Some \<lparr>f_data = ''Tamy@b'' @ [NUL], f_mtime = 1000, f_atime = 1000\<rparr>
      else None)"

definition ex_world :: world where
  "ex_world = \<lparr>w_files = ex_files, w_tick = 10, w_fault = (\<lambda>_. False), w_time = (\<lambda>n. 2000 + int n), w_answer = (\<lambda>_. 0),
     w_rate = (\<lambda>_. (1, 0, False)), w_read = (\<lambda>_. []), w_trace = []\<rparr>"

definition ex_init :: qsend where
  "ex_init = \<lparr>sw = ex_world, conf_split = 23, lifetime = 604800, bouncelifetime = 86400, mapvdoms = (\<lambda>_. None),
     doublebounceto = ''postmaster'', srs_domain = [], srsreverse = (\<lambda>a. (0, a)), do_ratelimit = False,
     delayed_jobs = 0, flagexitsend = False, flagrunasap = False, flagreadasap = False, flagdetached = 0,
     flagtodoalive = False, todoline = [], todo_out = [], flagspawnalive = (\<lambda>_. False), recent = 0, time_needed = 0,
     comm_buf = (\<lambda>_. []), comm_pos = (\<lambda>_. 0), comm_out = (\<lambda>_. []), flagcleanup = False, cleanuptime = 0,
     pqchan = (\<lambda>_. []), pqdone = [], pqfail = [], jo = [], orig_recip = [], masterdelid = 1,
     concurrency = (\<lambda>_. 1), concurrencyused = (\<lambda>_. 0), holdjobs = (\<lambda>_. False),
     del = (\<lambda>_. []), dline = (\<lambda>_. []), pass = (\<lambda>_. empty_pass), logs = [], ub = False\<rparr>"

definition ex_controls :: controls where
  "ex_controls = \<lparr>ct_locals = True, ct_vdoms = Some (\<lambda>_. None), ct_conc = (\<lambda>_. CNone), ct_hold = (\<lambda>_. CNone), ct_rest = True\<rparr>"

definition ex_input :: "(nat \<Rightarrow> wres option) \<Rightarrow> (nat \<Rightarrow> bytes option option) \<Rightarrow> input" where
  "ex_input wr rp = \<lparr>in_signals = [], in_select = True, in_intr = False, in_writes = wr, in_reports = rp, in_todo = None, in_dirent = DirEnd,
     in_ossified = 129600, in_entries = [], in_controls = ex_controls\<rparr>"

definition ex_spawn :: "nat \<Rightarrow> char \<times> char" where
  "ex_spawn c = (CHR 0x01, NUL)"

definition ex_report :: "nat \<Rightarrow> bytes option option" where
  "ex_report c = (if c = 0 then Some (Some [NUL, NUL, CHR ''K'', NUL]) else None)"

section \<open>The states of the run\<close>

text \<open>After start-up; then, for each of three iterations, after \<^verbatim>\<open>select\<close> is prepared and at the end.\<close>

definition ex_s0 :: qsend where
  "ex_s0 = ex_init\<lparr>sw := ex_world\<lparr>w_tick := 17\<rparr>, flagtodoalive := True, todo_out := ''C'', flagspawnalive := (\<lambda>_. True),
     recent := 2013, cleanuptime := 2016, pqchan := (\<lambda>_. [])(0 := [\<lparr>pe_dt = 1000, pe_id = 12, pe_delayed = False\<rparr>]),
     jo := [empty_job, empty_job], concurrency := (\<lambda>_. 1)(0 := 1, 1 := 1),
     del := (\<lambda>c. replicate (((\<lambda>_. 1)(0 := 1, 1 := 1)) c) empty_del)\<rparr>"

definition ex_a1 :: qsend where
  "ex_a1 = ex_s0\<lparr>sw := ex_world\<lparr>w_tick := 18\<rparr>, recent := 2017\<rparr>"

definition ex_msg :: bytes where
  "ex_msg = [NUL, NUL] @ ''12/12'' @ [NUL] @ ''joe@a'' @ [NUL, NUL, NUL] @ ''amy@b'' @ [NUL]"

definition ex_job :: job where
  "ex_job = \<lparr>j_id = 12, j_refs = 2, j_channel = 0, j_numtodo = 1, j_hiteof = False, j_dying = False,
     j_retry = 1000 + (squareroot_loop 16 1018 0 0 + 10) * (squareroot_loop 16 1018 0 0 + 10),
     j_sender = ''joe@a'', j_qqeh = [], j_envh = []\<rparr>"

definition ex_s1 :: qsend where
  "ex_s1 = ex_a1\<lparr>sw := ex_world\<lparr>w_tick := 27\<rparr>, recent := 2018, comm_buf := (\<lambda>_. [])(0 := ex_msg), comm_pos := (\<lambda>_. 0)(0 := 0),
     cleanuptime := 78449, pqchan := (\<lambda>_. [])(0 := []), jo := [ex_job, empty_job], masterdelid := 2,
     concurrencyused := (\<lambda>_. 0)(0 := 1),
     del := (del ex_a1)(0 := [\<lparr>d_used = True, d_j = 0, d_delid = 1, d_mpos = 0, d_recip = ''amy@b''\<rparr>]),
     pass := (\<lambda>_. empty_pass)(0 := \<lparr>ps_id = 12, ps_j = 0, ps_mpos = length ''Tamy@b'' + 1, ps_rest = []\<rparr>),
     logs := [LStart 1 12 0 ''amy@b'']\<rparr>"

definition ex_a2 :: qsend where
  "ex_a2 = ex_s1\<lparr>sw := ex_world\<lparr>w_tick := 28\<rparr>, recent := 2027\<rparr>"

definition ex_s2 :: qsend where
  "ex_s2 = ex_a2\<lparr>sw := ex_world\<lparr>w_tick := 29\<rparr>, recent := 2028, comm_buf := (\<lambda>_. [])(0 := []),
     comm_pos := (\<lambda>_. 0)(0 := length ex_msg), comm_out := (\<lambda>_. [])(0 := ex_msg)\<rparr>"

definition ex_a3 :: qsend where
  "ex_a3 = ex_s2\<lparr>sw := ex_world\<lparr>w_tick := 30\<rparr>, recent := 2029\<rparr>"

definition ex_s3 :: qsend where
  "ex_s3 = ex_a3\<lparr>sw := ex_world\<lparr>w_tick := 39, w_files := ex_files(FChan 0 12 := None),
       w_trace := [SUnlink (FChan 0 12) (''Damy@b'' @ [NUL]), SMark 0 12 0]\<rparr>,
     recent := 2030, pqdone := [\<lparr>pe_dt = 2038, pe_id = 12, pe_delayed = False\<rparr>],
     jo := [ex_job\<lparr>j_refs := 0, j_numtodo := 0, j_hiteof := True\<rparr>, empty_job], concurrencyused := (\<lambda>_. 0)(0 := 0),
     del := (del ex_s0)(0 := [\<lparr>d_used = False, d_j = 0, d_delid = 1, d_mpos = 0, d_recip = ''amy@b''\<rparr>]),
     dline := (\<lambda>_. [])(0 := []),
     pass := (\<lambda>_. empty_pass)(0 := \<lparr>ps_id = 0, ps_j = 0, ps_mpos = length ''Tamy@b'' + 1, ps_rest = []\<rparr>),
     logs := [LSuccess 1 [], LStart 1 12 0 ''amy@b'']\<rparr>"

section \<open>Evaluation\<close>

lemma ex_digits: "char_of (49::nat) = CHR ''1''" "char_of (50::nat) = CHR ''2''" "char_of (0::nat) = NUL"
  by code_simp+

lemmas ex_state_defs = ex_s0_def ex_a1_def ex_s1_def ex_a2_def ex_s2_def ex_a3_def ex_s3_def ex_init_def ex_world_def ex_files_def
  ex_job_def ex_msg_def ex_report_def

lemmas ex_run_defs = slog_def chanskip_def SLEEP_SYSFAIL_def SLEEP_CLEANUP_def SLEEP_FOREVER_def SLEEP_FUZZ_def
  REPORTMAX_def tickw_def faulty_def answer_def put_file_def trace_def now_def lookup_file_def
  sys_stat_def sys_unlink_def sys_ok_def junk_def insert_chan_def insert_done_def insert_fail_def
  getinfo_def pqadd_fail_def pqadd_def delayed_job_count_def pqstart_def upd_job_def job_avail_def
  job_open_def requeue_def job_close_def senderadd_def comm_canwrite_def comm_msg_def comm_write_def
  comm_do_chan_def comm_do_def del_avail_def del_canexit_def del_slot_def del_start_def markdone_def
  schar_def report_delnum_def report_line_def report_act_def del_report_def del_byte_def
  del_dochan_def del_do_def squareroot_def nextretry_def set_pass_def end_pass_def pass_trouble_def
  pass_open_def pass_new_def pass_recipient_def pass_record_def pass_dochan_def pass_do_def
  cleanup_do_def todo_write_def todo_init_def todo_selprep_def todo_do_def empty_job_def empty_del_def
  empty_pass_def job_init_def del_init_def pass_init_def cleanup_init_def read_concurrency_def
  send_start_def loop_top_def fmtqfn_def fnmake_split_def is_digit_def ref_chr_def
  ref_rchr_def digit_val_def ref_scan_ulong_def ref_libq_def no_nul_def cstr_def prioq_insert_def
  prioq_get_def prioq_del_def pq_child_def pq_ins_def getinfo_lines.simps prioq_up.simps
  prioq_down.simps ref_fmt_ulong.simps
  Let_def upt_rec find.simps numeral_2_eq_2 ex_digits

text \<open>\<^verbatim>\<open>loop_work\<close> with the clock read.\<close>

lemma loop_work_eq:
  "loop_work L inp s = cleanup_do (in_ossified inp) (in_dirent inp)
     (pass_do L (todo_do L (in_todo inp) (del_do L (in_reports inp) (comm_do (in_writes inp)
       ((tickw s)\<lparr>time_needed := 0, recent := w_time (sw s) (w_tick (sw s))\<rparr>)))))"
  by (simp add: loop_work_def now_def)

lemma ex_start: "send_start ex_spawn [Some 12] ex_init = ex_s0"
  by (simp add: ex_run_defs ex_state_defs ex_spawn_def cong: let_weak_cong)

lemma ex_top1: "loop_top ex_controls ex_s0 = ex_a1"
  by (simp add: ex_run_defs ex_state_defs cong: let_weak_cong)

lemma ex_work1: "loop_work ref_libq (ex_input (\<lambda>_. None) (\<lambda>_. None)) ex_a1 = ex_s1"
  unfolding loop_work_eq ex_input_def input.select_convs
  by (simp add: ex_run_defs ex_state_defs cong: let_weak_cong)

lemma ex_top2: "loop_top ex_controls ex_s1 = ex_a2"
  by (simp add: ex_run_defs ex_state_defs cong: let_weak_cong)

lemma ex_work2: "loop_work ref_libq (ex_input (\<lambda>_. Some (WSome 100)) (\<lambda>_. None)) ex_a2 = ex_s2"
  unfolding loop_work_eq ex_input_def input.select_convs
  by (simp add: ex_run_defs ex_state_defs cong: let_weak_cong)

lemma ex_top3: "loop_top ex_controls ex_s2 = ex_a3"
  by (simp add: ex_run_defs ex_state_defs cong: let_weak_cong)

lemma ex_work3: "loop_work ref_libq (ex_input (\<lambda>_. None) ex_report) ex_a3 = ex_s3"
  unfolding loop_work_eq ex_input_def input.select_convs
  by (simp add: ex_run_defs ex_state_defs cong: let_weak_cong)

lemma ex_attach: "loop_attach [] ex_s1 = ex_s1" "loop_attach [] ex_s2 = ex_s2" "loop_attach [] ex_s3 = ex_s3"
  by (simp_all add: loop_attach_def ex_state_defs)

lemma ex_iter:
  "send_iter ref_libq (ex_input (\<lambda>_. None) (\<lambda>_. None)) ex_s0 = ex_s1"
  "send_iter ref_libq (ex_input (\<lambda>_. Some (WSome 100)) (\<lambda>_. None)) ex_s1 = ex_s2"
  "send_iter ref_libq (ex_input (\<lambda>_. None) ex_report) ex_s2 = ex_s3"
  using ex_work1 ex_work2 ex_work3
  by (simp_all add: send_iter_def loop_wait_def loop_breaks_def Let_def ex_input_def ex_top1 ex_top2 ex_top3 ex_attach)

lemma ex_alive: "send_alive ex_s0" "send_alive ex_s1" "send_alive ex_s2"
  by (simp_all add: send_alive_def ex_state_defs)

lemma ex_input_ok: "input_ok L (ex_input wr rp) s"
  by (simp add: input_ok_def ex_input_def)

lemma ex_fits: "\<not> overruns (ex_input wr rp) s"
  by (simp add: overruns_def ex_input_def ex_controls_def conc_ok_def)

lemma ex_reach: "send_reach ref_libq ex_s0" "send_reach ref_libq ex_s1" "send_reach ref_libq ex_s2" "send_reach ref_libq ex_s3"
proof -
  have "fresh ex_init" by (simp add: fresh_def ex_init_def ex_world_def)
  then show 0: "send_reach ref_libq ex_s0" using send_trace.start [of ex_init "[Some 12]" ref_libq ex_spawn] by (simp add: ex_start)
  show 1: "send_reach ref_libq ex_s1"
    using send_trace.iter [OF 0 ex_alive(1) ex_input_ok] ex_iter(1) ex_fits by (metis (full_types))
  show 2: "send_reach ref_libq ex_s2"
    using send_trace.iter [OF 1 ex_alive(2) ex_input_ok] ex_iter(2) ex_fits by (metis (full_types))
  show "send_reach ref_libq ex_s3"
    using send_trace.iter [OF 2 ex_alive(3) ex_input_ok] ex_iter(3) ex_fits by (metis (full_types))
qed

section \<open>Controls that overrun the tables\<close>

text \<open>
  After \<^verbatim>\<open>SIGHUP\<close> the concurrency of the local channel is read again, 5 where the table has one slot; a report
  for slot 1 then makes the code look outside the table.
\<close>

definition ex_grow :: input where
  "ex_grow = (ex_input (\<lambda>_. None) (\<lambda>c. if c = 0 then Some (Some [CHR 0x01, NUL, CHR ''K'', NUL]) else None))
     \<lparr>in_controls := ex_controls\<lparr>ct_conc := \<lambda>c. if c = 0 then CVal 5 else CNone\<rparr>\<rparr>"

definition ex_grown :: qsend where
  "ex_grown = ex_s0\<lparr>sw := ex_world\<lparr>w_tick := 20\<rparr>, recent := 2017, todo_out := ''CH'', concurrency := (concurrency ex_s0)(0 := 5),
     logs := [LAlert ''got HUP'']\<rparr>"

lemma ex_overrun: "ub (send_iter ref_libq ex_grow (on_signal SigHup ex_s0))"
proof -
  let ?s = "on_signal SigHup ex_s0"
  have w: "loop_wait ex_grow ?s = ex_grown"
    by (simp add: loop_wait_def ex_grow_def ex_input_def ex_controls_def reread_def regetcontrols_def set_conc_def set_hold_def
        hold_val_def sighup_def ex_run_defs ex_state_defs ex_grown_def cong: let_weak_cong)
  have "ub (loop_attach [] (loop_work ref_libq ex_grow ex_grown))"
    unfolding loop_work_eq ex_grow_def ex_input_def
    by (simp add: loop_attach_def ex_run_defs ex_state_defs ex_grown_def ex_controls_def cong: let_weak_cong)
  moreover have "in_entries ex_grow = []" "in_select ex_grow" by (simp_all add: ex_grow_def ex_input_def)
  ultimately show ?thesis unfolding send_iter_def w Let_def by (simp add: loop_breaks_def)
qed

lemma reread_concurrency_overruns: "\<exists>s. send_trace ref_libq True s \<and> ub s"
proof -
  have h: "send_trace ref_libq False (on_signal SigHup ex_s0)"
    by (rule send_trace.sig [OF ex_reach(1)]) (simp add: sig_ok_def)
  have a: "send_alive (on_signal SigHup ex_s0)" by (simp add: send_alive_def sighup_def slog_def ex_state_defs)
  have i: "input_ok ref_libq ex_grow (on_signal SigHup ex_s0)" by (simp add: input_ok_def ex_grow_def ex_input_def)
  have o: "overruns ex_grow (on_signal SigHup ex_s0)"
    by (auto simp: overruns_def conc_ok_def ex_grow_def ex_input_def sighup_def slog_def ex_s0_def intro!: exI [of _ 0])
  from send_trace.iter [OF h a i] show ?thesis using ex_overrun o by (metis (full_types))
qed

end
