(* ===== verification/SendFacts.thy ===== *)
theory SendFacts
  imports SendReach
begin

text \<open>
  Facts about single operations of the queue manager: the retry schedule, the text of a bounce, marking
  a recipient done, the request to remove a message, the dialogue with \<^verbatim>\<open>todo-proc\<close>, the command
  pipe, and the times that \<^verbatim>\<open>pqfinish\<close> saves for the next start.
\<close>

section \<open>The retry schedule\<close>

lemma squareroot_loop_root:
  "0 \<le> y \<Longrightarrow> yy = y * y \<Longrightarrow> y * y \<le> x \<Longrightarrow> x < (y + 2 ^ j) * (y + 2 ^ j) \<Longrightarrow>
   (let r = squareroot_loop j x y yy in 0 \<le> r \<and> r * r \<le> x \<and> x < (r + 1) * (r + 1))"
proof (induction j x y yy rule: squareroot_loop.induct)
  case (1 x y yy)
  then show ?case by simp
next
  case (2 j x y yy)
  let ?p = "2 ^ j :: int"
  have sq: "(y + ?p) * (y + ?p) = y * y + (y * 2 ^ (j + 1) + 2 ^ (j + j))"
    by (simp add: power_add algebra_simps)
  have dbl: "y + 2 ^ Suc j = (y + ?p) + ?p" by simp
  show ?case
  proof (cases "y * 2 ^ (j + 1) + 2 ^ (j + j) \<le> x - yy")
    case True
    have "(let r = squareroot_loop j x (y + ?p) (yy + (y * 2 ^ (j + 1) + 2 ^ (j + j)))
        in 0 \<le> r \<and> r * r \<le> x \<and> x < (r + 1) * (r + 1))"
      by (rule 2(1) [OF refl True]) (use 2(3-6) True sq dbl in \<open>simp_all add: add.commute\<close>)
    then show ?thesis using True by (simp add: Let_def)
  next
    case False
    have "(let r = squareroot_loop j x y yy in 0 \<le> r \<and> r * r \<le> x \<and> x < (r + 1) * (r + 1))"
      by (rule 2(2) [OF refl False]) (use 2(3-6) False sq in \<open>simp_all\<close>)
    then show ?thesis using False by (simp add: Let_def)
  qed
qed

lemma squareroot_root:
  assumes "0 \<le> x" "x < 2 ^ 32"
  shows "0 \<le> squareroot x" "squareroot x * squareroot x \<le> x" "x < (squareroot x + 1) * (squareroot x + 1)"
  using squareroot_loop_root [of 0 0 x 16] assms by (simp_all add: squareroot_def Let_def)

lemma nextretry_later:
  assumes "recent_t - birth < 2 ^ 32"
  shows "recent_t < nextretry recent_t birth c"
proof (cases "birth > recent_t")
  case True
  then show ?thesis by (simp add: nextretry_def chanskip_def)
next
  case False
  let ?r = "squareroot (recent_t - birth)"
  have r: "0 \<le> ?r" "recent_t - birth < (?r + 1) * (?r + 1)" using squareroot_root [of "recent_t - birth"] assms False by simp_all
  have "(?r + 1) * (?r + 1) \<le> (?r + chanskip c) * (?r + chanskip c)"
    by (rule mult_mono) (use r in \<open>simp_all add: chanskip_def\<close>)
  then show ?thesis using r(2) False by (simp add: nextretry_def Let_def)
qed

section \<open>The text of a bounce\<close>

lemma slash_blank_length [simp]: "length (slash_blank p b) = length b"
  by (induction p b rule: slash_blank.induct) auto

lemma slash_blank_nth:
  "slash_blank p b ! k = b ! k \<or> (k \<le> p \<and> b ! k = LF \<and> slash_blank p b ! k = CHR ''/'')"
proof (induction p b rule: slash_blank.induct)
  case (1 b)
  then show ?case by simp
next
  case (2 p b)
  show ?case
  proof (cases "b ! Suc p = LF \<and> b ! p = LF \<and> k = Suc p \<and> k < length b")
    case True
    then show ?thesis using 2 by auto
  next
    case False
    then have "(if b ! Suc p = LF \<and> b ! p = LF then b[Suc p := CHR ''/''] else b) ! k = b ! k"
      by (cases "Suc p < length b") (auto simp: nth_list_update list_update_beyond)
    then show ?thesis using 2 by auto
  qed
qed

lemma slash_blank_pairs:
  "p < length b \<Longrightarrow> k < p \<Longrightarrow> \<not> (slash_blank p b ! k = LF \<and> slash_blank p b ! Suc k = LF)"
proof (induction p b rule: slash_blank.induct)
  case (1 b)
  then show ?case by simp
next
  case (2 p b)
  let ?b = "if b ! Suc p = LF \<and> b ! p = LF then b[Suc p := CHR ''/''] else b"
  show ?case
  proof (cases "k < p")
    case True
    then show ?thesis using 2 by simp
  next
    case False
    then have k: "k = p" using 2(3) by simp
    have "\<not> (?b ! p = LF \<and> ?b ! Suc p = LF)" using 2(2) by auto
    moreover have "slash_blank p ?b ! Suc p = ?b ! Suc p" using slash_blank_nth [of p ?b "Suc p"] by auto
    moreover have "slash_blank p ?b ! p = LF \<Longrightarrow> ?b ! p = LF" using slash_blank_nth [of p ?b p] by auto
    ultimately show ?thesis using k by auto
  qed
qed

text \<open>No line of the paragraph is empty, except that it may end in an empty line.\<close>

lemma bouncetext_no_blank:
  assumes "Suc k + 2 < length (bouncetext L vd recip report)"
  shows "\<not> (bouncetext L vd recip report ! k = LF \<and> bouncetext L vd recip report ! Suc k = LF)"
proof -
  define t where "t = bounce_head L vd recip @ ''>:'' @ [LF] @ report @ (if report \<noteq> [] \<and> last report \<noteq> LF then [LF] else [])"
  have b: "bouncetext L vd recip report = slash_blank (length t - 2) t @ [LF]"
    by (simp add: bouncetext_def t_def Let_def)
  have len: "4 \<le> length t" by (simp add: t_def bounce_head_def)
  have k: "k < length t - 2" using assms by (simp add: b)
  then have "\<not> (slash_blank (length t - 2) t ! k = LF \<and> slash_blank (length t - 2) t ! Suc k = LF)"
    using len by (intro slash_blank_pairs) auto
  moreover have "k < length t" "Suc k < length t" using k by auto
  ultimately show ?thesis by (simp add: b nth_append)
qed

lemma bounce_head_one_line: "LF \<notin> set (bounce_head L vd recip)"
  by (auto simp: bounce_head_def)

section \<open>Marking a recipient done\<close>

lemma markdone_effect:
  "\<exists>w. markdone c i pos s = slog (LTwice (FChan c i)) (s\<lparr>sw := w\<rparr>) \<and> w_files w = files s \<and> w_trace w = w_trace (sw s) \<or>
   markdone c i pos s = s\<lparr>sw := w\<rparr> \<and> w_trace w = SMark c i pos # w_trace (sw s) \<and>
     (\<exists>x t. files s (FChan c i) = Some x \<and>
        w_files w = (files s)(FChan c i \<mapsto> x\<lparr>f_data := (f_data x)[pos := CHR ''D''], f_mtime := t\<rparr>))"
  by (cases "files s (FChan c i)"; cases s)
     (auto simp: markdone_def sys_stat_def lookup_file_def sys_ok_def slog_def tickw_def trace_def put_file_def
           split: if_splits bool.splits)

section \<open>Asking for the removal of a message\<close>

lemma ask_clean_trace:
  "\<exists>a b. w_trace (sw (ask_clean i s)) = SClean i a b # w_trace (sw s) \<and>
     (a \<longleftrightarrow> files s (FInfo i) \<noteq> None) \<and> (b \<longleftrightarrow> files s (FTodo i) \<noteq> None)"
  by (auto simp: ask_clean_def Let_def trace_def tickw_def put_file_def slog_def cleandied_def exit_todo_def
           split: list.split)

text \<open>The requests made so far, and the files the decision rests on.\<close>

definition cleans :: "qsend \<Rightarrow> (nat \<times> bool \<times> bool) list" where
  "cleans s = List.map_filter (\<lambda>e. case e of SClean i a b \<Rightarrow> Some (i, a, b) | _ \<Rightarrow> None) (w_trace (sw s))"

definition cview where
  "cview s = (cleans s, \<lambda>i. (files s (FTodo i), files s (FChan 0 i), files s (FChan 1 i)))"

named_theorems cv_simps \<open>\<open>cview\<close> is unchanged\<close>

lemma cv_upd [cv_simps]:
  "cview (slog e s) = cview s" "cview (tickw s) = cview s" "cview (s\<lparr>recent := t\<rparr>) = cview s"
  "cview (s\<lparr>flagexitsend := b\<rparr>) = cview s" "cview (s\<lparr>flagtodoalive := b\<rparr>) = cview s"
  "cview (s\<lparr>flagcleanup := b\<rparr>) = cview s" "cview (s\<lparr>cleanuptime := t\<rparr>) = cview s"
  "cview (trace (SInject x y) s) = cview s" "cview (insert_done e' s) = cview s" "cview (s\<lparr>todo_out := o1\<rparr>) = cview s"
  by (simp_all add: cview_def cleans_def slog_def tickw_def trace_def insert_done_def map_filter_def)

lemma cv_calls:
  "now s = (t, s1) \<Longrightarrow> cview s1 = cview s"
  "sys_stat f s = (r, s1) \<Longrightarrow> cview s1 = cview s"
  "sys_ok s = (b, s1) \<Longrightarrow> cview s1 = cview s"
  "sys_unlink (FInfo i) s = (e, s1) \<Longrightarrow> cview s1 = cview s"
  "sys_unlink (FBounce i) s = (e, s1) \<Longrightarrow> cview s1 = cview s"
  by (auto simp: now_def sys_stat_def sys_ok_def sys_unlink_def cv_simps split: sum.splits)
     (simp_all add: cview_def cleans_def put_file_def trace_def tickw_def map_filter_def)

lemma cv_getinfo_lines: "getinfo_lines rest a s = (r, s') \<Longrightarrow> cview s' = cview s"
proof (induction rest a s arbitrary: r s' rule: getinfo_lines.induct)
  case (1 rest sa qh eh s)
  then show ?case
    by (subst (asm) getinfo_lines.simps)
       (auto simp: Let_def split: prod.splits if_splits option.splits list.splits dest!: cv_calls)
qed

lemma cv_getinfo: "getinfo i s = (r, s') \<Longrightarrow> cview s' = cview s"
  by (auto simp: getinfo_def split: prod.splits sum.splits if_splits option.splits dest!: cv_calls cv_getinfo_lines)

lemma cv_inject_unlink: "inject_unlink i s = (r, s') \<Longrightarrow> cview s' = cview s"
  by (auto simp: inject_unlink_def cv_simps split: prod.splits option.splits dest!: cv_calls)

lemma cv_inject_send: "inject_send L i a s = (r, s') \<Longrightarrow> cview s' = cview s"
  by (auto simp: inject_send_def Let_def cv_simps split: prod.splits option.splits if_splits bool.splits
      dest!: cv_inject_unlink)

lemma cv_injectbounce: "injectbounce L i s = (r, s') \<Longrightarrow> cview s' = cview s"
  by (auto simp: injectbounce_def Let_def cv_simps
      split: prod.splits option.splits if_splits sum.splits errno.splits
      dest!: cv_calls cv_getinfo cv_inject_unlink cv_inject_send)

lemma cv_messdone_fail [cv_simps]: "cview (messdone_fail i s) = cview s"
  by (auto simp: messdone_fail_def Let_def cv_simps split: prod.splits dest!: cv_calls)

lemma cleans_ask: "cleans (ask_clean i s) = (i, files s (FInfo i) \<noteq> None, files s (FTodo i) \<noteq> None) # cleans s"
  using ask_clean_trace [of i s] by (auto simp: cleans_def map_filter_def)

lemma stat_none: "sys_stat f s = (Inl ENOENT, s1) \<Longrightarrow> files s f = None"
  by (auto simp: sys_stat_def lookup_file_def split: if_splits option.splits)

lemma unlink_gone: "sys_unlink f s = (None, s1) \<Longrightarrow> files s1 f = None"
  by (auto simp: sys_unlink_def put_file_def split: sum.splits)

lemma cleans_cview: "cview s = cview t \<Longrightarrow> cleans s = cleans t"
  and todo_cview: "cview s = cview t \<Longrightarrow> files s (FTodo i) = files t (FTodo i)"
  and chan_cview: "cview s = cview t \<Longrightarrow> files s (FChan 0 i) = files t (FChan 0 i) \<and> files s (FChan 1 i) = files t (FChan 1 i)"
  by (simp_all add: cview_def fun_eq_iff)

lemma stat_files: "sys_stat f s = (r, s1) \<Longrightarrow> files s1 = files s"
  by (auto simp: sys_stat_def tickw_def)

lemma stat_result:
  "sys_stat f s = (r, s1) \<Longrightarrow> cleans s1 = cleans s \<and> files s1 = files s \<and> (r = Inl ENOENT \<longrightarrow> files s f = None)"
  using stat_none stat_files cleans_cview [OF cv_calls(2)] by metis

text \<open>The cleanup scan asks only when neither \<^verbatim>\<open>info\<close> nor \<^verbatim>\<open>todo\<close> knows the message.\<close>

lemma cleanup_mess_cleans:
  "cleans (cleanup_mess o1 i s) = cleans s \<or>
   cleans (cleanup_mess o1 i s) = (i, False, False) # cleans s \<and> files s (FInfo i) = None \<and> files s (FTodo i) = None"
  unfolding cleanup_mess_def
  by (auto split: prod.splits sum.splits errno.splits simp: cleans_ask dest!: stat_result)

lemma cleanup_do_cleans:
  "cleans (cleanup_do o1 ent s) = cleans s \<or>
   (\<exists>i. ent = DirId i \<and> cleans (cleanup_do o1 ent s) = (i, False, False) # cleans s \<and>
      files s (FInfo i) = None \<and> files s (FTodo i) = None)"
  using cleanup_mess_cleans [of o1 _ "s\<lparr>flagcleanup := True\<rparr>"] cleans_cview [OF cv_upd(6)] cleans_cview [OF cv_upd(7)]
  by (cases ent) (auto simp: cleanup_do_def Let_def)

lemma messdone_chans_True:
  "messdone_chans i cs s = (Some True, s1) \<Longrightarrow> (\<forall>c \<in> set cs. files s (FChan c i) = None) \<and> files s1 = files s \<and> cview s1 = cview s"
proof (induction cs arbitrary: s)
  case Nil
  then show ?case by simp
next
  case (Cons c cs)
  then obtain s2 where 2: "sys_stat (FChan c i) s = (Inl ENOENT, s2)" "messdone_chans i cs s2 = (Some True, s1)"
    by (auto split: prod.splits sum.splits errno.splits)
  then show ?case using Cons.IH [OF 2(2)] stat_none [OF 2(1)] stat_files [OF 2(1)] cv_calls(2) [OF 2(1)] by simp
qed

lemma messdone_chans_cview: "messdone_chans i cs s = (r, s1) \<Longrightarrow> cview s1 = cview s"
proof (induction cs arbitrary: s)
  case (Cons c cs)
  then show ?case
    by (auto simp: cv_simps split: prod.splits sum.splits errno.splits dest!: cv_calls)
qed simp

lemma messdone_end_cleans:
  assumes "files s (FTodo i) = None"
  shows "cleans (messdone_end L i s) = cleans s \<or> cleans (messdone_end L i s) = (i, False, False) # cleans s"
proof -
  obtain ok s1 where 1: "injectbounce L i s = (ok, s1)" by force
  have c1: "cview s1 = cview s" by (rule cv_injectbounce [OF 1])
  obtain e s2 where 2: "sys_unlink (FInfo i) (slog (LEndMsg i) s1) = (e, s2)" by force
  have c2: "cview s2 = cview s" using cv_calls(4) [OF 2] c1 by (simp add: cv_simps)
  have "files s2 (FTodo i) = None" using todo_cview [OF c2] assms by simp
  moreover have "files s2 (FInfo i) = None" if "e = None" using unlink_gone 2 that by blast
  ultimately show ?thesis
    using 2 cleans_cview [OF c1] cleans_cview [OF c2] cleans_cview [OF cv_messdone_fail [of i]] cleans_cview [OF cv_upd(1)]
    by (auto simp: messdone_end_def 1 cleans_ask split: bool.split option.split)
qed

text \<open>The end of a message: both lists and \<^verbatim>\<open>todo\<close> are gone, and then \<^verbatim>\<open>info\<close> is removed first.\<close>

lemma messdone_cleans:
  "cleans (messdone L i s) = cleans s \<or>
   cleans (messdone L i s) = (i, False, False) # cleans s \<and>
     files s (FChan 0 i) = None \<and> files s (FChan 1 i) = None \<and> files s (FTodo i) = None"
proof -
  obtain r s1 where 1: "messdone_chans i chans s = (r, s1)" by force
  obtain e s2 where 2: "sys_stat (FTodo i) s1 = (e, s2)" by force
  obtain e' s3 where 3: "sys_stat (FInfo i) s2 = (e', s3)" by force
  have c: "cview s1 = cview s" "cview s2 = cview s" "cview s3 = cview s"
    using messdone_chans_cview [OF 1] cv_calls(2) [OF 2] cv_calls(2) [OF 3] by simp_all
  note cl = c [THEN cleans_cview] cleans_cview [OF cv_messdone_fail [of i]] cleans_cview [OF cv_upd(1)]
  show ?thesis
  proof (cases "r = Some True \<and> e = Inl ENOENT \<and> (\<exists>x. e' = Inr x)")
    case False
    then show ?thesis
      using cl by (auto simp: messdone_def 1 2 3 simp del: messdone_chans.simps One_nat_def split: option.split bool.split sum.split errno.split)
  next
    case True
    then have "messdone_chans i chans s = (Some True, s1)" "sys_stat (FTodo i) s1 = (Inl ENOENT, s2)" using 1 2 by simp_all
    then have n: "files s1 (FTodo i) = None" "files s (FChan 0 i) = None" "files s (FChan 1 i) = None"
      using stat_none messdone_chans_True by fastforce+
    then have t: "files s3 (FTodo i) = None" "files s (FTodo i) = None" using todo_cview c by metis+
    have "messdone L i s = messdone_end L i s3" using True by (auto simp: messdone_def 1 2 3 simp del: messdone_chans.simps One_nat_def)
    then show ?thesis using messdone_end_cleans [OF t(1)] cl(3) n t by simp
  qed
qed

end
