(* ===== verification/SendSchedule.thy ===== *)
theory SendSchedule
  imports SendFacts
begin

text \<open>
  What enters and leaves the queues of the queue manager: messages announced by \<^verbatim>\<open>todo-proc\<close>, commands
  to the spawn processes, and the schedule, which \<^verbatim>\<open>pqfinish\<close> saves in the modification times of the
  recipient lists and \<^verbatim>\<open>pqadd\<close> reads back at the next start.
\<close>

section \<open>Announced messages\<close>

lemma mset_fold_insert:
  "distinct cs \<Longrightarrow> mset (pqchan (fold (\<lambda>c. insert_chan c pe) cs s) c) = mset (pqchan s c) + (if c \<in> set cs then {#pe#} else {#})"
  by (induction cs arbitrary: s) (auto simp: insert_chan_def pmin.mset_ins)

lemma fold_insert_done: "pqdone (fold (\<lambda>c. insert_chan c pe) cs s) = pqdone s"
  by (induction cs arbitrary: s) (auto simp: insert_chan_def)

context libqmail
begin

lemma todo_del_announced:
  fixes s :: qsend and i :: nat
  assumes f: "todo_flags f = Some cs"
  defines "pe \<equiv> \<lparr>pe_dt = w_time (sw s) (w_tick (sw s)), pe_id = i, pe_delayed = junk s\<rparr>"
  shows "mset (pqchan (todo_del L (f # lq_fmt_ulong L i) s) c) = mset (pqchan s c) + (if c \<in> set cs then {#pe#} else {#})"
    and "mset (pqdone (todo_del L (f # lq_fmt_ulong L i) s)) = mset (pqdone s) + (if cs = [] then {#pe#} else {#})"
proof -
  have "lq_fmt_ulong L i \<noteq> []" using fmt_ulong_digits by blast
  then have e: "todo_del L (f # lq_fmt_ulong L i) s =
      (if cs = [] then insert_done pe (tickw s) else fold (\<lambda>c. insert_chan c pe) cs (tickw s))"
    using f by (simp add: todo_del_def scan_fmt_nul now_def Let_def pe_def)
  have d: "distinct cs" using f by (auto simp: todo_flags_def split: if_splits)
  have t: "pqchan (tickw s) = pqchan s" "pqdone (tickw s) = pqdone s" by (simp_all add: tickw_def)
  show "mset (pqchan (todo_del L (f # lq_fmt_ulong L i) s) c) = mset (pqchan s c) + (if c \<in> set cs then {#pe#} else {#})"
    unfolding e using mset_fold_insert [OF d, of pe "tickw s" c] t by (simp add: insert_done_def)
  show "mset (pqdone (todo_del L (f # lq_fmt_ulong L i) s)) = mset (pqdone s) + (if cs = [] then {#pe#} else {#})"
    unfolding e using t by (simp add: fold_insert_done insert_done_def pmin.mset_ins)
qed

end

section \<open>Commands reach the pipe\<close>

text \<open>As long as every \<^verbatim>\<open>write\<close> takes at least one byte, the rest of a command is written once, in order.\<close>

lemma comm_do_chan_step:
  assumes "flagspawnalive s c" "comm_pos s c < length (comm_buf s c)" "0 < n"
  shows "comm_do_chan c (Some (WSome n)) s =
    (let n' = min n (length (comm_buf s c) - comm_pos s c);
         s1 = s\<lparr>comm_out := (comm_out s)(c := comm_out s c @ take n' (drop (comm_pos s c) (comm_buf s c))),
                comm_pos := (comm_pos s)(c := comm_pos s c + n')\<rparr>
     in if comm_pos s c + n' = length (comm_buf s c) then s1\<lparr>comm_buf := (comm_buf s1)(c := [])\<rparr> else s1)"
proof -
  have "comm_buf s c \<noteq> []" using assms(2) by auto
  then show ?thesis using assms by (simp add: comm_do_chan_def Let_def)
qed

lemma comm_do_chan_idle: "comm_buf s c = [] \<Longrightarrow> comm_do_chan c wr s = s"
  by (simp add: comm_do_chan_def)

lemma comm_do_chan_idles: "comm_buf s c = [] \<Longrightarrow> fold (\<lambda>n. comm_do_chan c (Some (WSome n))) ns s = s"
  by (induction ns) (simp_all add: comm_do_chan_idle)

lemma comm_flush:
  assumes "flagspawnalive s c" "comm_pos s c < length (comm_buf s c)" "\<forall>n \<in> set ns. 0 < n"
    "length (comm_buf s c) - comm_pos s c \<le> length ns"
  defines "t \<equiv> fold (\<lambda>n. comm_do_chan c (Some (WSome n))) ns s"
  shows "comm_out t c = comm_out s c @ drop (comm_pos s c) (comm_buf s c) \<and> comm_buf t c = []"
  using assms(1-4) unfolding t_def
proof (induction ns arbitrary: s)
  case Nil
  then show ?case by simp
next
  case (Cons n ns)
  let ?b = "comm_buf s c" and ?p = "comm_pos s c"
  define n' where "n' = min n (length ?b - ?p)"
  define s1 where "s1 = comm_do_chan c (Some (WSome n)) s"
  have n0: "0 < n" using Cons.prems(3) by simp
  note step = comm_do_chan_step [OF Cons.prems(1,2) n0, folded s1_def n'_def]
  show ?case
  proof (cases "?p + n' = length ?b")
    case True
    then have "comm_buf s1 c = []" "comm_out s1 c = comm_out s c @ drop ?p ?b" by (simp_all add: step Let_def)
    then show ?thesis using comm_do_chan_idles [of s1 c ns] by (simp add: s1_def)
  next
    case False
    have le: "0 < n'" "?p + n' \<le> length ?b" using n0 Cons.prems(2) by (auto simp: n'_def)
    have f: "flagspawnalive s1 c" "comm_buf s1 c = ?b" "comm_pos s1 c = ?p + n'"
      "comm_out s1 c = comm_out s c @ take n' (drop ?p ?b)"
      using False Cons.prems(1) by (simp_all add: step Let_def)
    have "comm_out (fold (\<lambda>n. comm_do_chan c (Some (WSome n))) ns s1) c = comm_out s1 c @ drop (comm_pos s1 c) (comm_buf s1 c) \<and>
        comm_buf (fold (\<lambda>n. comm_do_chan c (Some (WSome n))) ns s1) c = []"
      by (rule Cons.IH) (use f le False Cons.prems in auto)
    moreover have "take n' (drop ?p ?b) @ drop (?p + n') ?b = drop ?p ?b"
      by (metis add.commute append_take_drop_id drop_drop)
    ultimately show ?thesis using f by (simp add: s1_def)
  qed
qed

section \<open>Saving and restoring the schedule\<close>

definition faulty_ever :: "qsend \<Rightarrow> bool" where
  "faulty_ever s \<longleftrightarrow> (\<exists>k. w_fault (sw s) k)"

lemma pqfinish_chan_other:
  "d \<noteq> c \<Longrightarrow> files (pqfinish_chan n c s) (FChan d i) = files s (FChan d i) \<and> pqchan (pqfinish_chan n c s) d = pqchan s d"
proof (induction n c s rule: pqfinish_chan.induct)
  case (2 n c s)
  then show ?case
    by (auto split: option.split prod.split simp: Let_def sys_utimes_def put_file_def slog_def tickw_def split: sum.splits if_splits)
qed simp

definition stamped :: "prioq_elt \<Rightarrow> qfile option \<Rightarrow> qfile option" where
  "stamped pe F = map_option (\<lambda>x. x\<lparr>f_mtime := pe_dt pe, f_atime := pe_dt pe\<rparr>) F"

lemma heap_take_out: "pq_heap Pmin q \<Longrightarrow> q \<noteq> [] \<Longrightarrow> mset q = mset (q ! 0 # prioq_del Pmin q)"
  using pmin.mset_del by (simp add: insert_DiffM)

lemma pqfinish_chan_step:
  assumes "\<not> faulty_ever s" "pqchan s c = q" "q \<noteq> []"
  shows "\<exists>s2. pqfinish_chan (Suc n) c s = pqfinish_chan n c s2 \<and> \<not> faulty_ever s2 \<and> pqchan s2 c = prioq_del Pmin q \<and>
      files s2 = (files s)(FChan c (pe_id (q ! 0)) := stamped (q ! 0) (files s (FChan c (pe_id (q ! 0)))))"
  using assms
  by (cases "files s (FChan c (pe_id (q ! 0)))")
     (auto simp: sys_utimes_def lookup_file_def faulty_def faulty_ever_def Let_def
        put_file_def slog_def tickw_def stamped_def fun_upd_idem)

lemma pqfinish_chan_times:
  assumes "\<not> faulty_ever s" "pq_heap Pmin (pqchan s c)" "length (pqchan s c) \<le> n" "distinct (map pe_id (pqchan s c))"
  shows "(\<forall>pe \<in> set (pqchan s c).
      files (pqfinish_chan n c s) (FChan c (pe_id pe)) = stamped pe (files s (FChan c (pe_id pe)))) \<and>
    (\<forall>i. i \<notin> pe_id ` set (pqchan s c) \<longrightarrow> files (pqfinish_chan n c s) (FChan c i) = files s (FChan c i))"
  using assms
proof (induction n arbitrary: s)
  case 0
  then show ?case by simp
next
  case (Suc n)
  define q where "q = pqchan s c"
  define q' where "q' = prioq_del Pmin q"
  show ?case
  proof (cases "q = []")
    case True
    then show ?thesis by (simp add: q_def)
  next
    case False
    let ?x = "q ! 0"
    have h: "pq_heap Pmin q" using Suc.prems(2) by (simp add: q_def)
    obtain s2 where s2: "pqfinish_chan (Suc n) c s = pqfinish_chan n c s2" "\<not> faulty_ever s2" "pqchan s2 c = q'"
      "files s2 = (files s)(FChan c (pe_id ?x) := stamped ?x (files s (FChan c (pe_id ?x))))"
      using pqfinish_chan_step [OF Suc.prems(1) q_def [symmetric] False] unfolding q'_def by blast
    have mq: "mset q = mset (?x # q')" using heap_take_out [OF h False] by (simp add: q'_def)
    have d: "distinct (pe_id ?x # map pe_id q')"
      using Suc.prems(4) mq by (metis list.simps(9) mset_eq_imp_distinct_iff mset_map q_def)
    have l: "length q' \<le> n" using pmin.length_del [OF h False] Suc.prems(3) by (simp add: q'_def q_def)
    have ih: "(\<forall>pe \<in> set q'. files (pqfinish_chan n c s2) (FChan c (pe_id pe)) = stamped pe (files s2 (FChan c (pe_id pe)))) \<and>
      (\<forall>i. i \<notin> pe_id ` set q' \<longrightarrow> files (pqfinish_chan n c s2) (FChan c i) = files s2 (FChan c i))"
      using Suc.IH [of s2] s2(2,3) l d pmin.inv_del [OF h] by (simp add: q'_def)
    have mem: "set q = insert ?x (set q')" using mset_eq_setD [OF mq] by simp
    have nx: "pe_id pe \<noteq> pe_id ?x" if "pe \<in> set q'" for pe using d that by (metis distinct.simps(2) image_eqI list.set_map)
    have nx0: "pe_id ?x \<notin> pe_id ` set q'" using d by simp
    have "files (pqfinish_chan n c s2) (FChan c (pe_id pe)) = stamped pe (files s (FChan c (pe_id pe)))" if "pe \<in> set q" for pe
      using that ih nx nx0 s2(4) mem by (cases "pe = ?x") auto
    moreover have "files (pqfinish_chan n c s2) (FChan c i) = files s (FChan c i)" if "i \<notin> pe_id ` set q" for i
      using that ih s2(4) mem by simp
    ultimately show ?thesis unfolding s2(1) q_def by blast
  qed
qed

lemma pqfinish_chan_faults: "faulty_ever (pqfinish_chan n c s) = faulty_ever s"
proof (induction n c s rule: pqfinish_chan.induct)
  case (2 n c s)
  then show ?case
    by (auto split: option.split prod.split sum.splits if_splits
        simp: Let_def sys_utimes_def put_file_def slog_def tickw_def faulty_ever_def)
qed simp

lemma pqfinish_times:
  assumes "\<not> faulty_ever s" "c \<in> set chans" "pq_heap Pmin (pqchan s c)" "distinct (map pe_id (pqchan s c))" "pe \<in> set (pqchan s c)"
  shows "files (pqfinish s) (FChan c (pe_id pe)) = stamped pe (files s (FChan c (pe_id pe)))"
proof -
  define s1 where "s1 = pqfinish_chan (length (pqchan s 0)) 0 s"
  have e: "pqfinish s = pqfinish_chan (length (pqchan s1 1)) 1 s1" by (simp add: pqfinish_def s1_def)
  show ?thesis
  proof (cases "c = 0")
    case True
    have "files s1 (FChan 0 (pe_id pe)) = stamped pe (files s (FChan 0 (pe_id pe)))"
      using pqfinish_chan_times [of s 0 "length (pqchan s 0)"] assms True by (simp add: s1_def)
    then show ?thesis using pqfinish_chan_other [of 0 1 _ s1] True by (simp add: e)
  next
    case False
    then have c: "c = 1" using assms(2) by simp
    have k: "pqchan s1 1 = pqchan s 1" "files s1 (FChan 1 i) = files s (FChan 1 i)" for i
      using pqfinish_chan_other [of 1 0 _ s] by (simp_all add: s1_def)
    have "\<not> faulty_ever s1" using assms(1) by (simp add: s1_def pqfinish_chan_faults)
    then show ?thesis
      using pqfinish_chan_times [of s1 1 "length (pqchan s1 1)"] assms c k by (simp add: e)
  qed
qed

text \<open>Without failing calls, \<^verbatim>\<open>pqadd\<close> takes the time of every list that exists.\<close>

lemma pqadd_stat_ok:
  "\<not> faulty_ever s \<Longrightarrow> \<exists>es s'. pqadd_stat i False cs s = (Inr es, s') \<and> pqchan s' = pqchan s \<and>
     (\<forall>c st. c \<in> set cs \<longrightarrow> files s (FChan c i) = Some st \<longrightarrow> (c, \<lparr>pe_dt = f_mtime st, pe_id = i, pe_delayed = False\<rparr>) \<in> set es)"
proof (induction cs arbitrary: s)
  case Nil
  then show ?case by simp
next
  case (Cons c cs)
  have nf: "\<not> faulty s" using Cons.prems by (simp add: faulty_def faulty_ever_def)
  define s1 where "s1 = tickw s"
  have f1: "\<not> faulty_ever s1" "files s1 = files s" "pqchan s1 = pqchan s"
    using Cons.prems by (simp_all add: s1_def tickw_def faulty_ever_def)
  show ?case
  proof (cases "files s (FChan c i)")
    case None
    then show ?thesis using Cons.IH [OF f1(1)] f1 nf by (auto simp: sys_stat_def lookup_file_def s1_def)
  next
    case (Some st)
    define s2 where "s2 = (if recent s1 = 0 then (tickw s1)\<lparr>recent := w_time (sw s1) (w_tick (sw s1))\<rparr> else s1)"
    have f2: "\<not> faulty_ever s2" "files s2 = files s" "pqchan s2 = pqchan s"
      using f1 by (simp_all add: s2_def tickw_def faulty_ever_def)
    obtain es s' where e: "pqadd_stat i False cs s2 = (Inr es, s')" "pqchan s' = pqchan s2"
      "\<forall>c st. c \<in> set cs \<longrightarrow> files s2 (FChan c i) = Some st \<longrightarrow> (c, \<lparr>pe_dt = f_mtime st, pe_id = i, pe_delayed = False\<rparr>) \<in> set es"
      using Cons.IH [OF f2(1)] by blast
    have "pqadd_stat i False (c # cs) s = (Inr ((c, \<lparr>pe_dt = f_mtime st, pe_id = i, pe_delayed = False\<rparr>) # es), s')"
      using Some nf e(1) by (cases "recent s1 = 0") (simp_all add: sys_stat_def lookup_file_def now_def Let_def s2_def s1_def)
    then show ?thesis using e(2,3) f2 Some by auto
  qed
qed

lemma insert_chan_mem:
  "set (pqchan (insert_chan c pe s) d) = (if d = c then insert pe (set (pqchan s d)) else set (pqchan s d))"
  by (simp add: insert_chan_def pmin.set_ins)

lemma fold_insert_mem:
  "pe \<in> set (pqchan s c) \<or> (c, pe) \<in> set es \<Longrightarrow> pe \<in> set (pqchan (fold (\<lambda>(c, pe). insert_chan c pe) es s) c)"
proof (induction es arbitrary: s)
  case (Cons e es)
  obtain d x where e: "e = (d, x)" by force
  have "pe \<in> set (pqchan (insert_chan d x s) c) \<or> (c, pe) \<in> set es"
    using Cons.prems by (auto simp: e insert_chan_mem)
  then show ?case using Cons.IH by (simp add: e)
qed simp

lemma pqadd_restores:
  assumes "\<not> faulty_ever s" "files s (FInfo i) \<noteq> None" "files s (FTodo i) = None" "c \<in> set chans"
    "files s (FChan c i) = Some st"
  shows "\<lparr>pe_dt = f_mtime st, pe_id = i, pe_delayed = False\<rparr> \<in> set (pqchan (pqadd i False s) c)"
proof -
  have nf: "\<not> faulty s" "\<not> faulty (tickw s)" using assms(1) by (simp_all add: faulty_def faulty_ever_def tickw_def)
  define s2 where "s2 = tickw (tickw s)"
  have f2: "\<not> faulty_ever s2" "files s2 = files s" "pqchan s2 = pqchan s"
    using assms(1) by (simp_all add: s2_def tickw_def faulty_ever_def)
  obtain es s' where e: "pqadd_stat i False chans s2 = (Inr es, s')"
    "(c, \<lparr>pe_dt = f_mtime st, pe_id = i, pe_delayed = False\<rparr>) \<in> set es"
    using pqadd_stat_ok [OF f2(1), of i chans] f2(2) assms(4,5) by auto
  have "files (tickw s) = files s" by (simp add: tickw_def)
  then have "pqadd i False s = fold (\<lambda>(c, pe). insert_chan c pe) es s'"
    using nf e assms(2,3)
    by (auto simp: pqadd_def sys_stat_def lookup_file_def s2_def [symmetric] simp del: pqadd_stat.simps One_nat_def
        split: option.splits list.splits)
  then show ?thesis using fold_insert_mem e(2) by simp
qed

end
