(* ===== verification/Spawn.thy ===== *)
theory Spawn
  imports LibQmail
begin

text \<open>
  \<^verbatim>\<open>indimail-mta-x/spawn.c\<close>, the common part of \<^verbatim>\<open>qmail-lspawn\<close> and \<^verbatim>\<open>qmail-rspawn\<close>: the state
  machine that reads delivery commands from \<^verbatim>\<open>qmail-send\<close>, the checks before a delivery is
  started, the table of deliveries, the collection of their output and the reports that go back;
  with the two report functions of \<^verbatim>\<open>qmail-lspawn.c\<close> and \<^verbatim>\<open>qmail-rspawn.c\<close>. The answers of the
  operating system to the \<open>n\<close>th command are the record \<open>sp_sys n\<close>.
\<close>

section \<open>Data\<close>

text \<open>The wait status of a child: did it crash, and its exit code.\<close>

record wstat =
  ws_crashed :: bool
  ws_code :: nat

record delivery =
  dv_used :: bool
  dv_pid :: nat             \<comment> \<open>zero if the child is dead\<close>
  dv_wstat :: wstat
  dv_output :: bytes

text \<open>What the system answers while one command is carried out.\<close>

record docenv =
  de_mem :: bool            \<comment> \<open>room for the output\<close>
  de_open :: bool
  de_fstat :: bool
  de_regular :: bool
  de_owner :: bool
  de_pipe :: bool
  de_mem2 :: bool           \<comment> \<open>room for the environment header\<close>
  de_put :: "nat \<Rightarrow> bool"   \<comment> \<open>the \<open>k\<close>th \<^verbatim>\<open>env_put2\<close> succeeds\<close>
  de_unset :: bool
  de_spawn :: int           \<comment> \<open>the result of \<^verbatim>\<open>SPAWN\<close>: a process number or a negative code\<close>

datatype spev =
    SpStart nat bytes bytes bytes bytes "(bytes \<times> bytes) list"
      \<comment> \<open>slot, message, sender, qqeh, recipient, variables\<close>
  | SpOrphan int            \<comment> \<open>a child was started and then forgotten\<close>
  | SpReply int bytes       \<comment> \<open>delivery number and text sent to \<^verbatim>\<open>qmail-send\<close>\<close>

record spawnd =
  sp_d :: "delivery list"
  sp_flagreading :: bool
  sp_flagwriting :: bool
  sp_stage :: nat
  sp_flagabort :: bool
  sp_delnum :: int
  sp_messid :: bytes
  sp_sender :: bytes
  sp_qqeh :: bytes
  sp_envh :: bytes
  sp_recip :: bytes
  sp_out :: bytes           \<comment> \<open>all bytes written to descriptor 1\<close>
  sp_cmds :: nat            \<comment> \<open>commands carried out\<close>
  sp_sys :: "nat \<Rightarrow> docenv"
  sp_mem :: "nat \<Rightarrow> bool"   \<comment> \<open>the \<open>k\<close>th \<^verbatim>\<open>stralloc_append\<close> of \<^verbatim>\<open>getcmd\<close> succeeds\<close>
  sp_appends :: nat
  sp_trunc :: nat           \<comment> \<open>\<^verbatim>\<open>truncreport_SPAWN\<close>\<close>
  sp_events :: "spev list"  \<comment> \<open>newest first\<close>

section \<open>Children that died\<close>

text \<open>\<^verbatim>\<open>sigchld\<close> for one child, and for all that \<^verbatim>\<open>wait_nohang\<close> returns.\<close>

definition sigchld1 :: "nat \<times> wstat \<Rightarrow> spawnd \<Rightarrow> spawnd" where
  "sigchld1 pw s = s\<lparr>sp_d := map (\<lambda>d. if dv_used d \<and> dv_pid d = fst pw then d\<lparr>dv_wstat := snd pw, dv_pid := 0\<rparr> else d) (sp_d s)\<rparr>"

definition sigchld :: "(nat \<times> wstat) list \<Rightarrow> spawnd \<Rightarrow> spawnd" where
  "sigchld ws s = fold sigchld1 (takeWhile (\<lambda>pw. 0 < fst pw) ws) s"

section \<open>Output\<close>

text \<open>
  \<^verbatim>\<open>okwrite\<close>: \<open>w\<close> is the result of \<^verbatim>\<open>write\<close>, \<open>None\<close> for an error other than \<^verbatim>\<open>EINTR\<close>; after such an
  error everything is thrown away.
\<close>

definition okwrite :: "nat option \<Rightarrow> bytes \<Rightarrow> spawnd \<Rightarrow> nat \<times> spawnd" where
  "okwrite w b s =
     (if \<not> sp_flagwriting s then (length b, s)
      else case w of
          Some n \<Rightarrow> (min n (length b), s\<lparr>sp_out := sp_out s @ take n b\<rparr>)
        | None \<Rightarrow> (length b, s\<lparr>sp_flagwriting := False\<rparr>))"

text \<open>A reply: two bytes of delivery number, the text, NUL.\<close>

definition encode_reply :: "int \<Rightarrow> bytes \<Rightarrow> bytes" where
  "encode_reply n text = [char_of n, char_of (n div 256)] @ text @ [NUL]"

definition sp_reply :: "int \<Rightarrow> bytes \<Rightarrow> spawnd \<Rightarrow> spawnd" where
  "sp_reply n text s =
     (if sp_flagwriting s then s\<lparr>sp_out := sp_out s @ encode_reply n text, sp_events := SpReply n text # sp_events s\<rparr>
      else s\<lparr>sp_events := SpReply n text # sp_events s\<rparr>)"

definition sp_err :: "bytes \<Rightarrow> spawnd \<Rightarrow> spawnd" where
  "sp_err text s = sp_reply (sp_delnum s) (text @ [LF]) s"

section \<open>The environment of a delivery\<close>

text \<open>The complete lines of the environment header, up to its NUL.\<close>

fun env_lines :: "bytes \<Rightarrow> bytes \<Rightarrow> bytes list" where
  "env_lines y [] = []"
| "env_lines y (c # z) =
     (if c = NUL then []
      else if c = LF then y # env_lines [] z
      else env_lines (y @ [c]) z)"

definition upcase :: "char \<Rightarrow> char" where
  "upcase c = (let n = of_char c :: nat in if 97 \<le> n \<and> n \<le> 122 then char_of (n - 32) else c)"

text \<open>\<^verbatim>\<open>name: value\<close> becomes the variable \<^verbatim>\<open>NAME\<close>, with \<^verbatim>\<open>-\<close> as \<^verbatim>\<open>_\<close>; a line without colon is none.\<close>

fun env_var :: "bytes \<Rightarrow> bytes \<Rightarrow> (bytes \<times> bytes) option" where
  "env_var n [] = None"
| "env_var n (c # x) =
     (if c = CHR '':'' then Some (n, dropWhile (\<lambda>c. c = CHR '' '') x)
      else env_var (n @ [if c = CHR ''-'' then CHR ''_'' else upcase c]) x)"

definition env_puts :: "bytes \<Rightarrow> bytes \<Rightarrow> (bytes \<times> bytes) list" where
  "env_puts envh messid =
     List.map_filter (env_var []) (env_lines [] envh) @ [(''MESSID'', cstr messid)]"

definition set_env_variables :: "docenv \<Rightarrow> bytes \<Rightarrow> bytes \<Rightarrow> bool" where
  "set_env_variables e envh messid = list_all (de_put e) [0..<length (env_puts envh messid)]"

section \<open>Carrying out a command\<close>

definition bad_messid :: "bytes \<Rightarrow> bool" where
  "bad_messid m =
     list_ex (\<lambda>i. m ! i \<noteq> NUL \<and> (i = 0 \<or> m ! i \<noteq> CHR ''/'') \<and> \<not> is_digit (m ! i)) [0..<length m]"

definition spawn_failed :: "int \<Rightarrow> bytes" where
  "spawn_failed f =
     (if f = -1 then ''Zqmail-spawn out of mem. (#4.3.0)''
      else if f = -2 then ''Zqmail-spawn temporary MySQL error. (#4.3.0)''
      else if f = -3 then ''Zqmail-spawn error loading indimail library. (#4.3.0)''
      else if f = -4 then ''Zqmail-spawn unable to fork. (#4.3.0)''
      else ''Zqmail-spawn unknown error (qmail-lspawn bug). (#4.3.0)'')"

text \<open>The checks of \<^verbatim>\<open>docmd\<close> before the slot is touched, and those after it: the text of the refusal.\<close>

definition docmd_refuse :: "docenv \<Rightarrow> spawnd \<Rightarrow> bytes option" where
  "docmd_refuse e s =
     (if sp_flagabort s then Some ''Zqmail-spawn out of memory. (#4.3.0)''
      else if sp_delnum s < 0 then Some ''ZInternal error: delnum negative. (#4.3.5)''
      else if length (sp_d s) \<le> nat (sp_delnum s) then Some ''ZInternal error: delnum too big. (#4.3.5)''
      else if dv_used (sp_d s ! nat (sp_delnum s)) then Some ''ZInternal error: delnum in use. (#4.3.5)''
      else if bad_messid (sp_messid s) then Some ''DInternal error: messid has nonnumerics. (#5.3.5)''
      else if length (sp_messid s) > 100 then Some ''DInternal error: messid too long. (#5.3.5)''
      else if sp_messid s ! 0 = NUL then Some ''DInternal error: messid too short. (#5.3.5)''
      else if \<not> de_mem e then Some ''Zqmail-spawn out of memory. (#4.3.0)''
      else None)"

definition docmd_trouble :: "libq \<Rightarrow> docenv \<Rightarrow> spawnd \<Rightarrow> bytes option" where
  "docmd_trouble L e s =
     (if lq_rchr L (sp_recip s) CHR ''@'' \<ge> length (sp_recip s) then Some ''DSorry, address must include host name. (#5.1.3)''
      else if \<not> de_open e then Some ''Zqmail-spawn unable to open message. (#4.3.0)''
      else if \<not> de_fstat e then Some ''Zqmail-spawn unable to fstat message. (#4.3.0)''
      else if \<not> de_regular e then Some ''ZSorry, message has wrong type. (#4.3.5)''
      else if \<not> de_owner e then Some ''ZSorry, message has wrong owner. (#4.3.5)''
      else if \<not> de_pipe e then Some ''Zqmail-spawn unable to create pipe. (#4.3.0)''
      else if sp_envh s \<noteq> [] \<and> \<not> de_mem2 e then Some ''Zqmail-spawn out of memory. (#4.3.0)''
      else if \<not> set_env_variables e (sp_envh s) (sp_messid s) then Some ''Zqmail-spawn out of memory. (#4.3.0)''
      else None)"

text \<open>
  \<^verbatim>\<open>docmd\<close>: the variables are set before \<^verbatim>\<open>SPAWN\<close> and unset after it; when that fails the child, if
  there is one, is forgotten.
\<close>

definition docmd :: "libq \<Rightarrow> spawnd \<Rightarrow> spawnd" where
  "docmd L s0 =
     (let e = sp_sys s0 (sp_cmds s0); s = s0\<lparr>sp_cmds := sp_cmds s0 + 1\<rparr>; n = nat (sp_delnum s) in
      case docmd_refuse e s of
        Some t \<Rightarrow> sp_err t s
      | None \<Rightarrow>
          (let s1 = s\<lparr>sp_d := (sp_d s)[n := (sp_d s ! n)\<lparr>dv_output := []\<rparr>]\<rparr> in
           case docmd_trouble L e s1 of
             Some t \<Rightarrow> sp_err t s1
           | None \<Rightarrow>
               if \<not> de_unset e then
                 sp_err ''Zqmail-spawn out of memory. (#4.3.0)''
                   (if de_spawn e < 0 then s1 else s1\<lparr>sp_events := SpOrphan (de_spawn e) # sp_events s1\<rparr>)
               else if de_spawn e < 0 then sp_err (spawn_failed (de_spawn e)) s1
               else s1\<lparr>sp_d := (sp_d s1)[n := (sp_d s1 ! n)\<lparr>dv_pid := nat (de_spawn e), dv_used := True\<rparr>],
                       sp_events := SpStart n (cstr (sp_messid s1)) (cstr (sp_sender s1)) (cstr (sp_qqeh s1)) (cstr (sp_recip s1))
                                      (env_puts (sp_envh s1) (sp_messid s1)) # sp_events s1\<rparr>))"

section \<open>Reading commands\<close>

text \<open>\<^verbatim>\<open>stralloc_append\<close>: on failure nothing is appended and the command is spoilt.\<close>

definition sp_append :: "((bytes \<Rightarrow> bytes) \<Rightarrow> spawnd \<Rightarrow> spawnd) \<Rightarrow> char \<Rightarrow> spawnd \<Rightarrow> spawnd" where
  "sp_append upd ch s =
     (let s1 = s\<lparr>sp_appends := sp_appends s + 1\<rparr> in
      if sp_mem s (sp_appends s) then upd (\<lambda>b. b @ [ch]) s1 else s1\<lparr>sp_flagabort := True\<rparr>)"

definition cmd_byte :: "libq \<Rightarrow> char \<Rightarrow> spawnd \<Rightarrow> spawnd" where
  "cmd_byte L ch s =
     (if sp_stage s = 0 then s\<lparr>sp_delnum := of_char ch, sp_stage := 1\<rparr>
      else if sp_stage s = 1 then
        s\<lparr>sp_delnum := sp_delnum s + 256 * schar ch, sp_messid := [], sp_stage := 2\<rparr>
      else if sp_stage s = 2 then
        (let s1 = sp_append sp_messid_update ch s in
         if ch \<noteq> NUL then s1 else s1\<lparr>sp_sender := [], sp_stage := 3\<rparr>)
      else if sp_stage s = 3 then
        (let s1 = sp_append sp_sender_update ch s in
         if ch \<noteq> NUL then s1 else s1\<lparr>sp_qqeh := [], sp_stage := 4\<rparr>)
      else if sp_stage s = 4 then
        (let s1 = sp_append sp_qqeh_update ch s in
         if ch \<noteq> NUL then s1 else s1\<lparr>sp_envh := [], sp_stage := 5\<rparr>)
      else if sp_stage s = 5 then
        (let s1 = sp_append sp_envh_update ch s in
         if ch \<noteq> NUL then s1 else s1\<lparr>sp_recip := [], sp_stage := 6\<rparr>)
      else if sp_stage s = 6 then
        (let s1 = sp_append sp_recip_update ch s in
         if ch \<noteq> NUL then s1 else (docmd L s1)\<lparr>sp_flagabort := False, sp_stage := 0\<rparr>)
      else s)"

text \<open>The result of a \<^verbatim>\<open>read\<close>: some bytes, end of file, or an error that is \<^verbatim>\<open>EINTR\<close> or not.\<close>

datatype rdres = RData bytes | REof | RErr bool

definition getcmd :: "libq \<Rightarrow> rdres \<Rightarrow> spawnd \<Rightarrow> spawnd" where
  "getcmd L r s =
     (case r of
        REof \<Rightarrow> s\<lparr>sp_flagreading := False\<rparr>
      | RErr intr \<Rightarrow> if intr then s else s\<lparr>sp_flagreading := False\<rparr>
      | RData b \<Rightarrow> fold (cmd_byte L) b s)"

section \<open>Output of the deliveries\<close>

definition trunc_message :: bytes where
  "trunc_message = [LF] @ ''Error report too long, sorry.'' @ [LF]"

definition spawn_slot :: "(wstat \<Rightarrow> bytes \<Rightarrow> bytes) \<Rightarrow> nat \<Rightarrow> rdres \<Rightarrow> spawnd \<Rightarrow> spawnd" where
  "spawn_slot rep i r s =
     (if \<not> dv_used (sp_d s ! i) then s
      else case r of
          RErr _ \<Rightarrow> s
        | REof \<Rightarrow>
            (let d = sp_d s ! i; s1 = sp_reply (int i) (rep (dv_wstat d) (dv_output d)) s
             in s1\<lparr>sp_d := (sp_d s1)[i := (sp_d s1 ! i)\<lparr>dv_used := False\<rparr>]\<rparr>)
        | RData b \<Rightarrow>
            (let o1 = dv_output (sp_d s ! i) @ b;
                 o2 = (if 100 < sp_trunc s \<and> sp_trunc s < length o1
                       then take (sp_trunc s - length trunc_message - 3) o1 @ trunc_message else o1)
             in s\<lparr>sp_d := (sp_d s)[i := (sp_d s ! i)\<lparr>dv_output := o2\<rparr>]\<rparr>))"

text \<open>One round of the loop after \<^verbatim>\<open>select\<close> returned: the command pipe, then the slots in order.\<close>

definition spawn_round ::
  "libq \<Rightarrow> (wstat \<Rightarrow> bytes \<Rightarrow> bytes) \<Rightarrow> rdres option \<Rightarrow> (nat \<Rightarrow> rdres option) \<Rightarrow> spawnd \<Rightarrow> spawnd" where
  "spawn_round L rep cmd slots s =
     (let s1 = (case cmd of Some r \<Rightarrow> if sp_flagreading s then getcmd L r s else s | None \<Rightarrow> s)
      in fold (\<lambda>i s. case slots i of Some r \<Rightarrow> spawn_slot rep i r s | None \<Rightarrow> s) [0..<length (sp_d s1)] s1)"

definition spawn_finished :: "spawnd \<Rightarrow> bool" where
  "spawn_finished s \<longleftrightarrow> \<not> sp_flagreading s \<and> list_all (\<lambda>d. \<not> dv_used d) (sp_d s)"

text \<open>Start-up: the table, and the two bytes that announce its size.\<close>

definition spawn_init :: "nat \<Rightarrow> nat \<Rightarrow> (nat \<Rightarrow> docenv) \<Rightarrow> (nat \<Rightarrow> bool) \<Rightarrow> spawnd" where
  "spawn_init auto_spawn trunc sys mem =
     \<lparr>sp_d = replicate auto_spawn \<lparr>dv_used = False, dv_pid = 0, dv_wstat = \<lparr>ws_crashed = False, ws_code = 0\<rparr>, dv_output = []\<rparr>,
      sp_flagreading = True, sp_flagwriting = True, sp_stage = 0, sp_flagabort = False, sp_delnum = 0, sp_messid = [],
      sp_sender = [], sp_qqeh = [], sp_envh = [], sp_recip = [],
      sp_out = [char_of auto_spawn, char_of (auto_spawn div 256)], sp_cmds = 0, sp_sys = sys, sp_mem = mem,
      sp_appends = 0, sp_trunc = trunc, sp_events = []\<rparr>"

end
