(* ===== verification/SpawnReport.thy ===== *)
theory SpawnReport
  imports Spawn
begin

text \<open>
  The two report functions: \<^verbatim>\<open>report_SPAWN\<close> of \<^verbatim>\<open>qmail-lspawn.c\<close> and of \<^verbatim>\<open>qmail-rspawn.c\<close>. They
  turn the wait status and the output of a delivery process into the text for \<^verbatim>\<open>qmail-send\<close>.
\<close>

section \<open>Local deliveries\<close>

text \<open>\<^verbatim>\<open>qlx.h\<close>\<close>

definition QLX_USAGE :: nat where "QLX_USAGE = 112"
definition QLX_ROOT :: nat where "QLX_ROOT = 113"
definition QLX_NFS :: nat where "QLX_NFS = 115"
definition QLX_NOALIAS :: nat where "QLX_NOALIAS = 116"
definition QLX_CDB :: nat where "QLX_CDB = 117"
definition QLX_SYS :: nat where "QLX_SYS = 118"
definition QLX_NOMEM :: nat where "QLX_NOMEM = 119"
definition QLX_EXECSOFT :: nat where "QLX_EXECSOFT = 120"
definition QLX_EXECPW :: nat where "QLX_EXECPW = 121"
definition QLX_DIR :: nat where "QLX_DIR = 122"
definition QLX_EXECHARD :: nat where "QLX_EXECHARD = 126"
definition QLX_UIDGID :: nat where "QLX_UIDGID = 127"

lemmas qlx_defs = QLX_USAGE_def QLX_ROOT_def QLX_NFS_def QLX_NOALIAS_def QLX_CDB_def QLX_SYS_def QLX_NOMEM_def
  QLX_EXECSOFT_def QLX_EXECPW_def QLX_DIR_def QLX_EXECHARD_def QLX_UIDGID_def

text \<open>\<open>user\<close> is the buffer \<^verbatim>\<open>user\<close> of \<^verbatim>\<open>qmail-lspawn\<close>, with its final NUL.\<close>

definition lspawn_report :: "bytes \<Rightarrow> wstat \<Rightarrow> bytes \<Rightarrow> bytes" where
  "lspawn_report user w s =
     (let x = ws_code w in
      if ws_crashed w then ''Zqmail-local crashed.'' @ [LF]
      else if x = QLX_CDB then ''ZTrouble reading users/cdb in qmail-lspawn.'' @ [LF]
      else if x = QLX_NOMEM then ''ZOut of memory in qmail-lspawn.'' @ [LF]
      else if x = QLX_SYS then ''ZTemporary failure in qmail-lspawn.'' @ [LF]
      else if x = QLX_NOALIAS then ''ZUnable to find alias user!'' @ [LF]
      else if x = QLX_ROOT then ''ZNot allowed to perform deliveries as root.'' @ [LF]
      else if x = QLX_DIR then ''ZUnable to cd to root directory.'' @ [LF]
      else if x = QLX_USAGE then ''ZInternal qmail-lspawn bug.'' @ [LF]
      else if x = QLX_NFS then ''ZNFS failure in qmail-local.'' @ [LF]
      else if x = QLX_EXECHARD then ''DUnable to run qmail-local.'' @ [LF]
      else if x = QLX_EXECSOFT then ''ZUnable to run qmail-local.'' @ [LF]
      else if x = QLX_EXECPW then ''ZUnable to run qmail-getpw.'' @ [LF]
      else if x = QLX_UIDGID then
        ''ZUnable to set proper uid, gid'' @ (if user \<noteq> [] then '' for '' @ butlast user @ ''.'' @ [LF] else ''.'' @ [LF])
      else (if x \<in> {111, 71, 74, 75} then ''Z'' else if x = 0 then ''K'' else ''D'') @ cstr s)"

section \<open>Remote deliveries\<close>

text \<open>
  The first loop of the remote report: \<open>j\<close> is the start of the current NUL-terminated part; the
  result is 1, 0 or -1 for the first part that starts with \<^verbatim>\<open>K\<close>, \<^verbatim>\<open>Z\<close> or \<^verbatim>\<open>D\<close>, and -1 if there is none.
\<close>

fun rspawn_scan :: "bytes \<Rightarrow> nat \<Rightarrow> nat list \<Rightarrow> int" where
  "rspawn_scan s j [] = -1"
| "rspawn_scan s j (k # ks) =
     (if s ! k \<noteq> NUL then rspawn_scan s j ks
      else if s ! j = CHR ''K'' then 1
      else if s ! j = CHR ''Z'' then 0
      else if s ! j = CHR ''D'' then -1
      else rspawn_scan s (k + 1) ks)"

text \<open>
  \<^verbatim>\<open>substdio_puts\<close> from position \<open>k\<close> of the output: the bytes up to a NUL. If there is none in the
  buffer, the C function goes on in the memory \<open>oob\<close> behind it.
\<close>

definition puts_at :: "bytes \<Rightarrow> bytes \<Rightarrow> nat \<Rightarrow> bytes" where
  "puts_at oob s k = cstr (drop k s @ oob)"

definition rspawn_report :: "bytes \<Rightarrow> wstat \<Rightarrow> bytes \<Rightarrow> bytes" where
  "rspawn_report oob w s =
     (if ws_crashed w then ''Zqmail-remote crashed.'' @ [LF]
      else if ws_code w = 111 then ''ZUnable to run qmail-remote.'' @ [LF]
      else if ws_code w \<noteq> 0 then ''DUnable to run qmail-remote.'' @ [LF]
      else if s = [] then ''Zqmail-remote produced no output.'' @ [LF]
      else
        let result = rspawn_scan s 0 [0..<length s];
            orr = (if s ! 0 = CHR ''s'' then 0 else if s ! 0 = CHR ''h'' then -1 else result);
            code = (if orr = 1 then ''K'' else if orr = 0 then ''Z'' else ''D'')
        in code @
          (case find (\<lambda>k. s ! k = NUL) [1..<length s] of
             None \<Rightarrow> []
           | Some k0 \<Rightarrow>
               (let k = k0 + 1 in
                puts_at oob s 1 @
                  (if result \<le> orr \<and> k < length s \<and> s ! k \<in> {CHR ''Z'', CHR ''D'', CHR ''K''}
                   then puts_at oob s (k + 1) else []))))"

section \<open>What a report can say\<close>

text \<open>Success is only reported for a child that ended normally with code 0.\<close>

lemma lspawn_report_K:
  "lspawn_report user w s = CHR ''K'' # t \<longleftrightarrow> \<not> ws_crashed w \<and> ws_code w = 0 \<and> t = cstr s"
  by (auto simp: lspawn_report_def Let_def qlx_defs)

lemma lspawn_report_hd: "\<exists>c t. lspawn_report user w s = c # t \<and> c \<in> {CHR ''K'', CHR ''Z'', CHR ''D''}"
  by (auto simp: lspawn_report_def Let_def)

lemma lspawn_report_no_nul: "no_nul (butlast user) \<Longrightarrow> no_nul (lspawn_report user w s)"
  by (auto simp: lspawn_report_def Let_def)

lemma rspawn_report_hd: "\<exists>c t. rspawn_report oob w s = c # t \<and> c \<in> {CHR ''K'', CHR ''Z'', CHR ''D''}"
  by (auto simp: rspawn_report_def Let_def)

lemma rspawn_report_no_nul: "no_nul (rspawn_report oob w s)"
  by (auto simp: rspawn_report_def Let_def puts_at_def split: option.splits)

text \<open>The parts of the output of \<^verbatim>\<open>qmail-remote\<close>.\<close>

fun parts :: "bytes \<Rightarrow> bytes \<Rightarrow> bytes list" where
  "parts a [] = []"
| "parts a (c # s) = (if c = NUL then a # parts [] s else parts (a @ [c]) s)"

definition verdict_of :: "char \<Rightarrow> int option" where
  "verdict_of c = (if c = CHR ''K'' then Some 1 else if c = CHR ''Z'' then Some 0 else if c = CHR ''D'' then Some (-1) else None)"

definition part_verdict :: "bytes \<Rightarrow> int option" where
  "part_verdict p = (case p of [] \<Rightarrow> None | c # _ \<Rightarrow> verdict_of c)"

text \<open>The scan finds the verdict of the first part that has one.\<close>

lemma rspawn_scan_parts:
  "rspawn_scan (pre @ a @ r) (length pre) [length pre + length a..<length pre + length a + length r]
     = (case List.map_filter part_verdict (parts a r) of [] \<Rightarrow> -1 | v # _ \<Rightarrow> v)" if "no_nul a"
  using that
proof (induction r arbitrary: pre a)
  case Nil
  then show ?case by simp
next
  case (Cons c r)
  have up: "[length pre + length a..<Suc (length pre + length a + length r)]
      = (length pre + length a) # [Suc (length pre + length a)..<Suc (length pre + length a + length r)]"
    by (subst upt_conv_Cons) simp_all
  show ?case
  proof (cases "c = NUL")
    case False
    then have "rspawn_scan (pre @ (a @ [c]) @ r) (length pre)
        [length pre + length (a @ [c])..<length pre + length (a @ [c]) + length r] =
        (case List.map_filter part_verdict (parts (a @ [c]) r) of [] \<Rightarrow> -1 | v # _ \<Rightarrow> v)"
      using Cons by (intro Cons.IH) simp
    then show ?thesis using False by (simp add: up nth_append del: upt.simps upt_Suc)
  next
    case True
    have ih: "rspawn_scan ((pre @ a @ [c]) @ [] @ r) (length (pre @ a @ [c]))
        [length (pre @ a @ [c]) + length ([]::bytes)..<length (pre @ a @ [c]) + length ([]::bytes) + length r] =
        (case List.map_filter part_verdict (parts [] r) of [] \<Rightarrow> -1 | v # _ \<Rightarrow> v)"
      by (rule Cons.IH) simp
    have hd: "(pre @ a @ c # r) ! length pre = (case a of [] \<Rightarrow> NUL | x # _ \<Rightarrow> x)"
      using True by (cases a) (simp_all add: nth_append)
    let ?s = "pre @ a @ c # r" and ?ks = "[Suc (length pre + length a)..<Suc (length pre + length a + length r)]"
    have "rspawn_scan ?s (length pre) ((length pre + length a) # ?ks) =
        (if ?s ! length pre = CHR ''K'' then 1 else if ?s ! length pre = CHR ''Z'' then 0
         else if ?s ! length pre = CHR ''D'' then -1 else rspawn_scan ?s (length pre + length a + 1) ?ks)"
      using True by (simp add: nth_append del: upt_Suc)
    moreover have "rspawn_scan ?s (length pre + length a + 1) ?ks =
        (case List.map_filter part_verdict (parts [] r) of [] \<Rightarrow> -1 | v # _ \<Rightarrow> v)"
      using ih by (simp del: upt_Suc)
    moreover have "part_verdict a = (if ?s ! length pre = CHR ''K'' then Some 1 else if ?s ! length pre = CHR ''Z'' then Some 0
         else if ?s ! length pre = CHR ''D'' then Some (-1) else None)"
      unfolding hd by (cases a) (simp_all add: part_verdict_def verdict_of_def)
    ultimately have "rspawn_scan ?s (length pre) ((length pre + length a) # ?ks) =
        (case List.map_filter part_verdict (a # parts [] r) of [] \<Rightarrow> -1 | v # _ \<Rightarrow> v)"
      by (simp add: map_filter_simps)
    then show ?thesis using True by (simp add: up del: upt_Suc)
  qed
qed

end
