(* ===== verification/SpawnInv.thy ===== *)
theory SpawnInv
  imports SpawnReport
begin

text \<open>
  What the spawn process guarantees: it reads a command exactly as it was written; every command is
  answered once, at once or when its delivery ends; a delivery is only started in a free slot, for a
  message name made of digits and slashes and a recipient with a host.
\<close>

section \<open>Reading a command\<close>

definition encode_cmd :: "nat \<Rightarrow> bytes \<Rightarrow> bytes \<Rightarrow> bytes \<Rightarrow> bytes \<Rightarrow> bytes \<Rightarrow> bytes" where
  "encode_cmd n m sa q e r = [char_of n, char_of (n div 256)] @ m @ [NUL] @ sa @ [NUL] @ q @ [NUL] @ e @ [NUL] @ r @ [NUL]"

definition mem_ok :: "spawnd \<Rightarrow> bool" where
  "mem_ok s \<longleftrightarrow> (\<forall>k. sp_mem s k)"

lemma mem_ok_upd [simp]:
  "mem_ok (s\<lparr>sp_stage := k\<rparr>) = mem_ok s" "mem_ok (s\<lparr>sp_appends := k\<rparr>) = mem_ok s"
  "mem_ok (s\<lparr>sp_delnum := z\<rparr>) = mem_ok s" "mem_ok (s\<lparr>sp_messid := b\<rparr>) = mem_ok s"
  "mem_ok (s\<lparr>sp_sender := b\<rparr>) = mem_ok s" "mem_ok (s\<lparr>sp_qqeh := b\<rparr>) = mem_ok s"
  "mem_ok (s\<lparr>sp_envh := b\<rparr>) = mem_ok s" "mem_ok (s\<lparr>sp_recip := b\<rparr>) = mem_ok s"
  by (simp_all add: mem_ok_def)

lemma fold_two: "fold f (xs @ ys) s = fold f ys (fold f xs s)"
  by simp

text \<open>The field a stage reads into, and reading the bytes of one field.\<close>

definition field_get :: "nat \<Rightarrow> spawnd \<Rightarrow> bytes" where
  "field_get k s = (if k = 2 then sp_messid s else if k = 3 then sp_sender s else if k = 4 then sp_qqeh s
     else if k = 5 then sp_envh s else sp_recip s)"

definition field_set :: "nat \<Rightarrow> bytes \<Rightarrow> spawnd \<Rightarrow> spawnd" where
  "field_set k b s = (if k = 2 then s\<lparr>sp_messid := b\<rparr> else if k = 3 then s\<lparr>sp_sender := b\<rparr> else if k = 4 then s\<lparr>sp_qqeh := b\<rparr>
     else if k = 5 then s\<lparr>sp_envh := b\<rparr> else s\<lparr>sp_recip := b\<rparr>)"

lemma field_simps [simp]:
  "field_get k (field_set k b s) = b" "field_set k b (field_set k b' s) = field_set k b s"
  "sp_stage (field_set k b s) = sp_stage s" "sp_appends (field_set k b s) = sp_appends s"
  "mem_ok (field_set k b s) = mem_ok s" "(field_set k b s)\<lparr>sp_appends := n\<rparr> = field_set k b (s\<lparr>sp_appends := n\<rparr>)"
  "field_get k (s\<lparr>sp_appends := n\<rparr>) = field_get k s"
  by (simp_all add: field_get_def field_set_def)

lemma sp_append_ok:
  assumes "mem_ok s"
  shows "sp_append sp_messid_update ch s = s\<lparr>sp_messid := sp_messid s @ [ch], sp_appends := sp_appends s + 1\<rparr>"
    "sp_append sp_sender_update ch s = s\<lparr>sp_sender := sp_sender s @ [ch], sp_appends := sp_appends s + 1\<rparr>"
    "sp_append sp_qqeh_update ch s = s\<lparr>sp_qqeh := sp_qqeh s @ [ch], sp_appends := sp_appends s + 1\<rparr>"
    "sp_append sp_envh_update ch s = s\<lparr>sp_envh := sp_envh s @ [ch], sp_appends := sp_appends s + 1\<rparr>"
    "sp_append sp_recip_update ch s = s\<lparr>sp_recip := sp_recip s @ [ch], sp_appends := sp_appends s + 1\<rparr>"
  using assms by (cases s; simp add: sp_append_def Let_def mem_ok_def)+

lemma cmd_byte_field:
  assumes "sp_stage s = k" "k \<in> {2, 3, 4, 5, 6}" "mem_ok s" "ch \<noteq> NUL"
  shows "cmd_byte L ch s = field_set k (field_get k s @ [ch]) (s\<lparr>sp_appends := sp_appends s + 1\<rparr>)"
  using assms by (auto simp: cmd_byte_def sp_append_ok field_set_def field_get_def)

lemma cmd_field:
  assumes "sp_stage s = k" "k \<in> {2, 3, 4, 5, 6}" "mem_ok s" "no_nul b"
  shows "fold (cmd_byte L) b s = field_set k (field_get k s @ b) (s\<lparr>sp_appends := sp_appends s + length b\<rparr>)"
  using assms
proof (induction b arbitrary: s)
  case Nil
  then show ?case by (cases s) (simp add: field_get_def field_set_def)
next
  case (Cons ch b)
  let ?s1 = "field_set k (field_get k s @ [ch]) (s\<lparr>sp_appends := sp_appends s + 1\<rparr>)"
  have 1: "cmd_byte L ch s = ?s1" by (rule cmd_byte_field) (use Cons.prems in simp_all)
  have "fold (cmd_byte L) b ?s1 = field_set k (field_get k ?s1 @ b) (?s1\<lparr>sp_appends := sp_appends ?s1 + length b\<rparr>)"
    by (rule Cons.IH) (use Cons.prems in simp_all)
  then show ?case by (simp add: 1)
qed

lemma delnum_bytes:
  assumes "n < 32768"
  shows "(of_char (char_of n :: char) :: int) + 256 * schar (char_of (n div 256)) = int n"
proof -
  have m: "n div 256 < 128" using assms by auto
  have oc: "(of_char c :: int) = int (of_char c)" for c :: char by (rule of_nat_of_char [symmetric])
  have "(of_char (char_of (n div 256) :: char) :: int) = int (n div 256)" using m unfolding oc by simp
  then have "schar (char_of (n div 256)) = int (n div 256)" using m by (simp add: schar_def Let_def)
  moreover have "(of_char (char_of n :: char) :: int) = int (n mod 256)" unfolding oc by simp
  moreover have "int (n mod 256) + 256 * int (n div 256) = int n"
    by (simp add: of_nat_mod of_nat_div)
  ultimately show ?thesis by simp
qed

text \<open>The command as it is when \<^verbatim>\<open>docmd\<close> is called.\<close>

definition with_cmd :: "nat \<Rightarrow> bytes \<Rightarrow> bytes \<Rightarrow> bytes \<Rightarrow> bytes \<Rightarrow> bytes \<Rightarrow> spawnd \<Rightarrow> spawnd" where
  "with_cmd n m sa q e r s =
     s\<lparr>sp_delnum := int n, sp_messid := m @ [NUL], sp_sender := sa @ [NUL], sp_qqeh := q @ [NUL], sp_envh := e @ [NUL],
       sp_recip := r @ [NUL], sp_stage := 6, sp_appends := sp_appends s + length (m @ sa @ q @ e @ r) + 5\<rparr>"

lemma cmd_nul:
  assumes "mem_ok s"
  shows "sp_stage s = 2 \<Longrightarrow> cmd_byte L NUL s = s\<lparr>sp_messid := sp_messid s @ [NUL], sp_appends := sp_appends s + 1, sp_sender := [], sp_stage := 3\<rparr>"
    "sp_stage s = 3 \<Longrightarrow> cmd_byte L NUL s = s\<lparr>sp_sender := sp_sender s @ [NUL], sp_appends := sp_appends s + 1, sp_qqeh := [], sp_stage := 4\<rparr>"
    "sp_stage s = 4 \<Longrightarrow> cmd_byte L NUL s = s\<lparr>sp_qqeh := sp_qqeh s @ [NUL], sp_appends := sp_appends s + 1, sp_envh := [], sp_stage := 5\<rparr>"
    "sp_stage s = 5 \<Longrightarrow> cmd_byte L NUL s = s\<lparr>sp_envh := sp_envh s @ [NUL], sp_appends := sp_appends s + 1, sp_recip := [], sp_stage := 6\<rparr>"
    "sp_stage s = 6 \<Longrightarrow> cmd_byte L NUL s =
       (docmd L (s\<lparr>sp_recip := sp_recip s @ [NUL], sp_appends := sp_appends s + 1\<rparr>))\<lparr>sp_flagabort := False, sp_stage := 0\<rparr>"
  using assms by (simp_all add: cmd_byte_def sp_append_ok)

lemma getcmd_reads:
  assumes st: "sp_stage s = 0" "mem_ok s" and n: "n < 32768"
    and nn: "no_nul m" "no_nul sa" "no_nul q" "no_nul e" "no_nul r"
  shows "fold (cmd_byte L) (encode_cmd n m sa q e r) s =
    (docmd L (with_cmd n m sa q e r s))\<lparr>sp_flagabort := False, sp_stage := 0\<rparr>"
proof -
  let ?s2 = "s\<lparr>sp_delnum := int n, sp_messid := [], sp_stage := 2\<rparr>"
  have s2: "fold (cmd_byte L) [char_of n, char_of (n div 256)] s = ?s2"
    using st delnum_bytes [OF n] by (simp add: cmd_byte_def)
  let ?s3 = "?s2\<lparr>sp_messid := m @ [NUL], sp_appends := sp_appends s + length m + 1, sp_sender := [], sp_stage := 3\<rparr>"
  have s3: "fold (cmd_byte L) (m @ [NUL]) ?s2 = ?s3"
    using cmd_field [of ?s2 2 m L] st nn by (simp add: field_set_def field_get_def cmd_nul)
  let ?s4 = "?s3\<lparr>sp_sender := sa @ [NUL], sp_appends := sp_appends s + length m + length sa + 2, sp_qqeh := [], sp_stage := 4\<rparr>"
  have s4: "fold (cmd_byte L) (sa @ [NUL]) ?s3 = ?s4"
    using cmd_field [of ?s3 3 sa L] st nn by (simp add: field_set_def field_get_def cmd_nul)
  let ?s5 = "?s4\<lparr>sp_qqeh := q @ [NUL], sp_appends := sp_appends s + length m + length sa + length q + 3, sp_envh := [], sp_stage := 5\<rparr>"
  have s5: "fold (cmd_byte L) (q @ [NUL]) ?s4 = ?s5"
    using cmd_field [of ?s4 4 q L] st nn by (simp add: field_set_def field_get_def cmd_nul)
  let ?s6 = "?s5\<lparr>sp_envh := e @ [NUL], sp_appends := sp_appends s + length m + length sa + length q + length e + 4, sp_recip := [], sp_stage := 6\<rparr>"
  have s6: "fold (cmd_byte L) (e @ [NUL]) ?s5 = ?s6"
    using cmd_field [of ?s5 5 e L] st nn by (simp add: field_set_def field_get_def cmd_nul)
  have s7: "fold (cmd_byte L) (r @ [NUL]) ?s6 =
      (docmd L (with_cmd n m sa q e r s))\<lparr>sp_flagabort := False, sp_stage := 0\<rparr>"
  proof -
    let ?x = "?s6\<lparr>sp_recip := r, sp_appends := sp_appends s + length m + length sa + length q + length e + length r + 4\<rparr>"
    have x: "fold (cmd_byte L) r ?s6 = ?x"
      by (subst cmd_field [of ?s6 6 r L]) (use st nn in \<open>simp_all add: field_set_def field_get_def\<close>)+
    have y: "?x\<lparr>sp_recip := sp_recip ?x @ [NUL], sp_appends := sp_appends ?x + 1\<rparr> = with_cmd n m sa q e r s"
      by (cases s) (simp add: with_cmd_def)
    have z: "cmd_byte L NUL ?x = (docmd L (?x\<lparr>sp_recip := sp_recip ?x @ [NUL], sp_appends := sp_appends ?x + 1\<rparr>))
        \<lparr>sp_flagabort := False, sp_stage := 0\<rparr>"
      by (rule cmd_nul(5)) (use st in simp_all)
    show ?thesis by (simp only: fold_append o_apply x fold_simps z y)
  qed
  have "encode_cmd n m sa q e r =
      [char_of n, char_of (n div 256)] @ (m @ [NUL]) @ (sa @ [NUL]) @ (q @ [NUL]) @ (e @ [NUL]) @ (r @ [NUL])"
    by (simp add: encode_cmd_def)
  then show ?thesis
    by (simp only:) (subst fold_two, subst s2, subst fold_two, subst s3, subst fold_two, subst s4, subst fold_two, subst s5,
      subst fold_two, subst s6, rule s7)
qed

section \<open>Every command is answered\<close>

definition replies :: "spev list \<Rightarrow> (int \<times> bytes) list" where
  "replies es = List.map_filter (\<lambda>e. case e of SpReply n t \<Rightarrow> Some (n, t) | _ \<Rightarrow> None) (rev es)"

lemma replies_simps [simp]:
  "replies [] = []" "replies (SpReply n t # es) = replies es @ [(n, t)]"
  "replies (SpStart a b c d e f # es) = replies es" "replies (SpOrphan z # es) = replies es"
  by (simp_all add: replies_def map_filter_def)

definition nbusy :: "spawnd \<Rightarrow> nat" where
  "nbusy s = length (filter dv_used (sp_d s))"

text \<open>The message names and recipients deliveries may be started for.\<close>

definition safe_messid :: "bytes \<Rightarrow> bool" where
  "safe_messid m \<longleftrightarrow> m \<noteq> [] \<and> is_digit (hd m) \<and> list_all (\<lambda>c. is_digit c \<or> c = CHR ''/'') m \<and> length m < 101"

definition start_ok :: "nat \<Rightarrow> spev \<Rightarrow> bool" where
  "start_ok k e = (case e of SpStart n m sa q r v \<Rightarrow> n < k \<and> safe_messid m \<and> CHR ''@'' \<in> set r | _ \<Rightarrow> True)"

definition spawn_inv :: "nat \<Rightarrow> spawnd \<Rightarrow> bool" where
  "spawn_inv k s \<longleftrightarrow>
     length (sp_d s) = k \<and>
     sp_cmds s = length (replies (sp_events s)) + nbusy s \<and>
     (sp_flagwriting s \<longrightarrow> sp_out s = [char_of k, char_of (k div 256)] @ concat (map (\<lambda>(n, t). encode_reply n t) (replies (sp_events s)))) \<and>
     list_all (start_ok k) (sp_events s)"

definition sp_same :: "spawnd \<Rightarrow> spawnd \<Rightarrow> bool" where
  "sp_same s t \<longleftrightarrow> map dv_used (sp_d t) = map dv_used (sp_d s) \<and> sp_cmds t = sp_cmds s \<and> sp_flagwriting t = sp_flagwriting s \<and>
     sp_out t = sp_out s \<and> sp_events t = sp_events s"

lemma nbusy_map: "nbusy s = length (filter id (map dv_used (sp_d s)))"
  unfolding nbusy_def filter_map length_map by (simp add: o_def)

lemma spawn_inv_same: "sp_same s t \<Longrightarrow> spawn_inv k s \<Longrightarrow> spawn_inv k t"
proof -
  assume a: "sp_same s t" and i: "spawn_inv k s"
  have "length (map dv_used (sp_d t)) = length (map dv_used (sp_d s))" using a by (simp add: sp_same_def)
  then have "length (sp_d t) = length (sp_d s)" by simp
  moreover have "nbusy t = nbusy s" using a unfolding nbusy_map sp_same_def by simp
  ultimately show ?thesis using a i unfolding spawn_inv_def sp_same_def by simp
qed

text \<open>A reply settles one command: one that was just read, or a delivery that was under way.\<close>

lemma spawn_inv_reply_cmd:
  assumes "spawn_inv k s" "sp_same (s\<lparr>sp_cmds := sp_cmds s + 1\<rparr>) t"
  shows "spawn_inv k (sp_reply n x t)"
proof -
  have "length (map dv_used (sp_d t)) = length (map dv_used (sp_d s))" using assms by (simp add: sp_same_def)
  then have "length (sp_d t) = length (sp_d s)" by simp
  moreover have "nbusy t = nbusy s" using assms(2) unfolding nbusy_map sp_same_def by simp
  moreover have "nbusy (sp_reply n x t) = nbusy t" by (simp add: sp_reply_def nbusy_def)
  ultimately show ?thesis using assms
    unfolding spawn_inv_def sp_same_def by (auto simp: sp_reply_def start_ok_def)
qed

lemma spawn_inv_err: "spawn_inv k s \<Longrightarrow> sp_same (s\<lparr>sp_cmds := sp_cmds s + 1\<rparr>) t \<Longrightarrow> spawn_inv k (sp_err x t)"
  unfolding sp_err_def by (rule spawn_inv_reply_cmd)

lemma nbusy_update:
  assumes "n < length (sp_d s)" "sp_d t = (sp_d s)[n := d]"
  shows "nbusy t + (if dv_used (sp_d s ! n) then 1 else 0) = nbusy s + (if dv_used d then 1 else 0)"
  using filter_update_length [OF assms(1), of dv_used d] assms(2) by (simp add: nbusy_def)

lemma used_update: "n < length ds \<Longrightarrow> dv_used d = dv_used (ds ! n) \<Longrightarrow> map dv_used (ds[n := d]) = map dv_used ds"
  by (simp add: map_update list_update_same_conv)

text \<open>A message name that passed the checks of \<^verbatim>\<open>docmd\<close> is made of digits and slashes.\<close>

lemma docmd_messid_safe:
  assumes ok: "\<not> bad_messid m" "\<not> 100 < length m" and ne: "m \<noteq> []" "m ! 0 \<noteq> NUL"
  shows "safe_messid (cstr m)"
proof -
  have all: "m ! i = NUL \<or> (i \<noteq> 0 \<and> m ! i = CHR ''/'') \<or> is_digit (m ! i)" if "i < length m" for i
  proof -
    have "\<not> (\<exists>i\<in>set [0..<length m]. m ! i \<noteq> NUL \<and> (i = 0 \<or> m ! i \<noteq> CHR ''/'') \<and> \<not> is_digit (m ! i))"
      using ok(1) unfolding bad_messid_def list_ex_iff .
    then show ?thesis using that by (metis atLeastLessThan_iff le0 set_upt)
  qed
  have "list_all (\<lambda>c. c = NUL \<or> is_digit c \<or> c = CHR ''/'') m"
    unfolding list_all_length using all by metis
  then have "list_all (\<lambda>c. is_digit c \<or> c = CHR ''/'') (cstr m)"
    by (auto simp: list_all_iff cstr_def dest: set_takeWhileD)
  moreover have "cstr m \<noteq> [] \<and> hd (cstr m) = m ! 0" using ne by (cases m) (auto simp: cstr_def)
  moreover have "is_digit (m ! 0)" using all [of 0] ne by auto
  moreover have "length (cstr m) < 101" using ok(2) length_takeWhile_le [of "\<lambda>c. c \<noteq> NUL" m] by (simp add: cstr_def)
  ultimately show ?thesis by (simp add: safe_messid_def)
qed


definition cmd_ready :: "spawnd \<Rightarrow> bool" where
  "cmd_ready s \<longleftrightarrow> sp_flagabort s \<or> (sp_messid s \<noteq> [] \<and> (\<exists>r. sp_recip s = r @ [NUL] \<and> no_nul r))"

context libqmail
begin

lemma spawn_inv_docmd:
  assumes inv: "spawn_inv k s" and rdy: "cmd_ready s"
  shows "spawn_inv k (docmd L s)"
proof -
  define n where "n = nat (sp_delnum s)"
  define s1 where "s1 = s\<lparr>sp_cmds := sp_cmds s + 1\<rparr>"
  define s2 where "s2 = s1\<lparr>sp_d := (sp_d s1)[n := (sp_d s1 ! n)\<lparr>dv_output := []\<rparr>]\<rparr>"
  define e where "e = sp_sys s (sp_cmds s)"
  have len: "length (sp_d s) = k" using inv by (simp add: spawn_inv_def)
  have err1: "spawn_inv k (sp_err x s1)" for x
    by (rule spawn_inv_err [OF inv]) (simp add: sp_same_def s1_def)
  have dc: "docmd L s = (case docmd_refuse e s1 of Some t \<Rightarrow> sp_err t s1 | None \<Rightarrow>
      (case docmd_trouble L e s2 of Some t \<Rightarrow> sp_err t s2 | None \<Rightarrow>
         if \<not> de_unset e then sp_err ''Zqmail-spawn out of memory. (#4.3.0)''
           (if de_spawn e < 0 then s2 else s2\<lparr>sp_events := SpOrphan (de_spawn e) # sp_events s2\<rparr>)
         else if de_spawn e < 0 then sp_err (spawn_failed (de_spawn e)) s2
         else s2\<lparr>sp_d := (sp_d s2)[n := (sp_d s2 ! n)\<lparr>dv_pid := nat (de_spawn e), dv_used := True\<rparr>],
                 sp_events := SpStart n (cstr (sp_messid s)) (cstr (sp_sender s)) (cstr (sp_qqeh s)) (cstr (sp_recip s))
                   (env_puts (sp_envh s) (sp_messid s)) # sp_events s2\<rparr>))"
    unfolding docmd_def Let_def n_def e_def s2_def s1_def by (simp cong: option.case_cong)
  show ?thesis
  proof (cases "docmd_refuse e s1")
    case (Some t)
    then show ?thesis using err1 by (simp add: dc)
  next
    case ok: None
    have pre: "\<not> sp_flagabort s" "0 \<le> sp_delnum s" "n < length (sp_d s)" "\<not> dv_used (sp_d s ! n)"
      "\<not> bad_messid (sp_messid s)" "\<not> 100 < length (sp_messid s)" "sp_messid s ! 0 \<noteq> NUL"
      using ok by (auto simp: docmd_refuse_def s1_def n_def split: if_splits)
    note n = pre(3,4)
    have same2: "sp_same s1 s2" using n by (simp add: sp_same_def s2_def s1_def used_update)
    have err2: "spawn_inv k (sp_err x s2)" for x
      by (rule spawn_inv_err [OF inv]) (use same2 in \<open>simp add: s1_def\<close>)
    have err3: "spawn_inv k (sp_err x (s2\<lparr>sp_events := SpOrphan z # sp_events s2\<rparr>))" for x z
    proof -
      have "spawn_inv k (s\<lparr>sp_events := SpOrphan z # sp_events s\<rparr>)"
        using inv by (simp add: spawn_inv_def start_ok_def nbusy_def)
      then show ?thesis
        by (rule spawn_inv_err) (use same2 in \<open>simp add: sp_same_def s1_def s2_def\<close>)
    qed
    show ?thesis
    proof (cases "docmd_trouble L e s2 \<noteq> None \<or> \<not> de_unset e \<or> de_spawn e < 0")
      case True
      then show ?thesis using ok err2 err3 by (auto simp: dc split: option.split)
    next
      case go: False
      let ?ev = "SpStart n (cstr (sp_messid s)) (cstr (sp_sender s)) (cstr (sp_qqeh s)) (cstr (sp_recip s)) (env_puts (sp_envh s) (sp_messid s))"
      let ?t = "s2\<lparr>sp_d := (sp_d s2)[n := (sp_d s2 ! n)\<lparr>dv_pid := nat (de_spawn e), dv_used := True\<rparr>], sp_events := ?ev # sp_events s2\<rparr>"
      have eq: "docmd L s = ?t" using ok go by (simp add: dc)
      have "\<not> bad_messid (sp_messid s)" "\<not> 100 < length (sp_messid s)" "sp_messid s \<noteq> []" "sp_messid s ! 0 \<noteq> NUL"
        using pre rdy by (auto simp: cmd_ready_def)
      then have m: "safe_messid (cstr (sp_messid s))" by (rule docmd_messid_safe)
      obtain r where r: "sp_recip s = r @ [NUL]" "no_nul r" using pre rdy by (auto simp: cmd_ready_def)
      have "CHR ''@'' \<in> set (sp_recip s)"
        using go rchr_found_iff [of "sp_recip s" "CHR ''@''"]
        by (auto simp: docmd_trouble_def s2_def s1_def split: if_splits)
      then have "CHR ''@'' \<in> set (cstr (sp_recip s))" using r by (simp add: cstr_append_nul [of r "[]"])
      then have "start_ok k ?ev" using m n len by (simp add: start_ok_def)
      moreover have "nbusy ?t = nbusy s + 1"
      proof -
        have "nbusy s2 = nbusy s" using same2 unfolding nbusy_map sp_same_def s1_def by simp
        moreover have "\<not> dv_used (sp_d s2 ! n)" "n < length (sp_d s2)" using n by (simp_all add: s2_def s1_def)
        ultimately show ?thesis using nbusy_update [of n s2 ?t] by simp
      qed
      ultimately show ?thesis using inv unfolding eq
        by (simp add: spawn_inv_def s2_def s1_def)
    qed
  qed
qed

end

text \<open>The fields of the command being read.\<close>

definition cmd_inv :: "spawnd \<Rightarrow> bool" where
  "cmd_inv s \<longleftrightarrow> (\<not> sp_flagabort s \<and> 3 \<le> sp_stage s \<longrightarrow> sp_messid s \<noteq> []) \<and> (sp_stage s = 6 \<longrightarrow> no_nul (sp_recip s)) \<and> sp_stage s \<le> 6"

definition spawn_ok :: "nat \<Rightarrow> spawnd \<Rightarrow> bool" where
  "spawn_ok k s \<longleftrightarrow> spawn_inv k s \<and> cmd_inv s"

context libqmail
begin

lemma spawn_ok_cmd_byte:
  assumes "spawn_ok k s"
  shows "spawn_ok k (cmd_byte L ch s)"
proof -
  have inv: "spawn_inv k s" and c: "cmd_inv s" using assms by (auto simp: spawn_ok_def)
  show ?thesis
  proof (cases "sp_stage s = 6 \<and> ch = NUL")
    case True
    let ?s1 = "sp_append sp_recip_update ch s"
    have i1: "spawn_inv k ?s1"
      by (rule spawn_inv_same [OF _ inv]) (simp add: sp_append_def Let_def sp_same_def)
    have "cmd_ready ?s1" using c True by (auto simp: cmd_ready_def cmd_inv_def sp_append_def Let_def)
    then have "spawn_inv k (docmd L ?s1)" by (rule spawn_inv_docmd [OF i1])
    then have "spawn_inv k ((docmd L ?s1)\<lparr>sp_flagabort := False, sp_stage := 0\<rparr>)"
      by (rule spawn_inv_same [rotated]) (simp add: sp_same_def)
    then show ?thesis using True by (simp add: cmd_byte_def spawn_ok_def cmd_inv_def)
  next
    case False
    have "sp_same s (cmd_byte L ch s)" using False
      by (auto simp: cmd_byte_def sp_append_def Let_def sp_same_def)
    moreover have "cmd_inv (cmd_byte L ch s)" using False c
      by (auto simp: cmd_byte_def sp_append_def Let_def cmd_inv_def)
    ultimately show ?thesis using inv spawn_inv_same by (auto simp: spawn_ok_def)
  qed
qed

lemma spawn_ok_getcmd: "spawn_ok k s \<Longrightarrow> spawn_ok k (getcmd L r s)"
proof -
  assume ok: "spawn_ok k s"
  have "spawn_ok k (fold (cmd_byte L) b s)" for b
    using ok by (induction b arbitrary: s) (simp_all add: spawn_ok_cmd_byte)
  moreover have "spawn_ok k (s\<lparr>sp_flagreading := False\<rparr>)"
    using ok spawn_inv_same [of s "s\<lparr>sp_flagreading := False\<rparr>" k]
    by (simp add: spawn_ok_def sp_same_def cmd_inv_def)
  ultimately show ?thesis using ok by (simp add: getcmd_def split: rdres.split)
qed

end

lemma spawn_ok_slot:
  assumes ok: "spawn_ok k s" and i: "i < length (sp_d s)"
  shows "spawn_ok k (spawn_slot rep i r s)"
proof -
  have inv: "spawn_inv k s" and c: "cmd_inv s" using ok by (auto simp: spawn_ok_def)
  have "cmd_inv (spawn_slot rep i r s)" using c
    by (auto simp: spawn_slot_def Let_def sp_reply_def cmd_inv_def split: rdres.split)
  moreover have "spawn_inv k (spawn_slot rep i r s)"
  proof (cases "dv_used (sp_d s ! i)")
    case False
    then show ?thesis using inv by (simp add: spawn_slot_def)
  next
    case used: True
    show ?thesis
    proof (cases r)
      case (RData b)
      have "sp_same s (spawn_slot rep i r s)" using used RData i
        by (simp add: spawn_slot_def Let_def sp_same_def used_update)
      then show ?thesis using spawn_inv_same inv by blast
    next
      case REof
      let ?t = "spawn_slot rep i r s" and ?x = "rep (dv_wstat (sp_d s ! i)) (dv_output (sp_d s ! i))"
      have d: "sp_d ?t = (sp_d s)[i := (sp_d s ! i)\<lparr>dv_used := False\<rparr>]"
        using used REof by (simp add: spawn_slot_def Let_def sp_reply_def)
      have "nbusy s = nbusy ?t + 1" using nbusy_update [OF i d] used by simp
      moreover have "sp_events ?t = SpReply (int i) ?x # sp_events s" "sp_cmds ?t = sp_cmds s"
        "sp_flagwriting ?t = sp_flagwriting s"
        "sp_out ?t = (if sp_flagwriting s then sp_out s @ encode_reply (int i) ?x else sp_out s)"
        using used REof by (simp_all add: spawn_slot_def Let_def sp_reply_def)
      ultimately show ?thesis using inv d by (simp add: spawn_inv_def start_ok_def)
    next
      case (RErr b)
      then show ?thesis using inv by (simp add: spawn_slot_def)
    qed
  qed
  ultimately show ?thesis by (simp add: spawn_ok_def)
qed

context libqmail
begin

lemma spawn_ok_round: "spawn_ok k s \<Longrightarrow> spawn_ok k (spawn_round L rep cmd slots s)"
proof -
  assume ok: "spawn_ok k s"
  define s1 where "s1 = (case cmd of Some r \<Rightarrow> if sp_flagreading s then getcmd L r s else s | None \<Rightarrow> s)"
  have 1: "spawn_ok k s1" using ok by (simp add: s1_def spawn_ok_getcmd split: option.split)
  have f: "spawn_ok k (fold (\<lambda>i s. case slots i of Some r \<Rightarrow> spawn_slot rep i r s | None \<Rightarrow> s) is t)"
    if "spawn_ok k t" "\<forall>i\<in>set is. i < k" for "is" t
    using that
  proof (induction "is" arbitrary: t)
    case (Cons i "is")
    have "length (sp_d t) = k" using Cons.prems by (simp add: spawn_ok_def spawn_inv_def)
    then have "spawn_ok k (case slots i of Some r \<Rightarrow> spawn_slot rep i r t | None \<Rightarrow> t)"
      using Cons.prems spawn_ok_slot [of k t i rep] by (simp split: option.split)
    then show ?case using Cons by simp
  qed simp
  have "length (sp_d s1) = k" using 1 by (simp add: spawn_ok_def spawn_inv_def)
  then show ?thesis unfolding spawn_round_def Let_def s1_def [symmetric] using f [OF 1] by simp
qed

end

section \<open>Reachable states\<close>

inductive spawn_reach ::
  "libq \<Rightarrow> (wstat \<Rightarrow> bytes \<Rightarrow> bytes) \<Rightarrow> nat \<Rightarrow> spawnd \<Rightarrow> bool" for L rep k where
  init: "spawn_reach L rep k (spawn_init k trunc sys mem)"
| round: "spawn_reach L rep k s \<Longrightarrow> \<not> spawn_finished s \<Longrightarrow> spawn_reach L rep k (spawn_round L rep cmd slots s)"
| child: "spawn_reach L rep k s \<Longrightarrow> spawn_reach L rep k (sigchld ws s)"
| broken: "spawn_reach L rep k s \<Longrightarrow> spawn_reach L rep k (snd (okwrite None b s))"

lemma spawn_ok_sigchld: "spawn_ok k s \<Longrightarrow> spawn_ok k (sigchld ws s)"
proof -
  have one: "spawn_ok k (sigchld1 pw s)" if "spawn_ok k s" for pw s
  proof -
    have "sp_same s (sigchld1 pw s)" by (simp add: sigchld1_def sp_same_def o_def if_distrib cong: if_cong)
    moreover have "cmd_inv (sigchld1 pw s) = cmd_inv s" by (simp add: sigchld1_def cmd_inv_def)
    ultimately show ?thesis using that spawn_inv_same by (auto simp: spawn_ok_def)
  qed
  assume "spawn_ok k s"
  then have "spawn_ok k (fold sigchld1 xs s)" for xs
    by (induction xs arbitrary: s) (simp_all add: one)
  then show ?thesis by (simp add: sigchld_def)
qed

context libqmail
begin

lemma spawn_reach_ok: "spawn_reach L rep k s \<Longrightarrow> spawn_ok k s"
proof (induction rule: spawn_reach.induct)
  case (init trunc sys mem)
  then show ?case by (simp add: spawn_init_def spawn_ok_def spawn_inv_def cmd_inv_def nbusy_def)
next
  case (broken s b)
  then show ?case by (auto simp: okwrite_def spawn_ok_def spawn_inv_def cmd_inv_def nbusy_def)
qed (auto intro: spawn_ok_round spawn_ok_sigchld)

end

end
