(* ===== verification/QmailClean.thy ===== *)
theory QmailClean
  imports QueueNames
begin

text \<open>
  \<^verbatim>\<open>indimail-mta-x/qmail-clean.c\<close>: the process that removes queue files at the request of
  \<^verbatim>\<open>qmail-send\<close> (\<^verbatim>\<open>foop/id\<close>) and \<^verbatim>\<open>todo-proc\<close> (\<^verbatim>\<open>todo/id\<close>), one response byte per request.
\<close>

section \<open>The program\<close>

text \<open>The result of \<^verbatim>\<open>unlink\<close>: removed, no such file, another error.\<close>

datatype unlres = UOk | UNoent | UErr

record cleand =
  cl_responses :: bytes
  cl_unlinks :: "bytes list"       \<comment> \<open>paths handed to \<^verbatim>\<open>unlink\<close>, oldest first\<close>
  cl_sys :: "nat \<Rightarrow> unlres"        \<comment> \<open>the answer to the \<open>n\<close>th \<^verbatim>\<open>unlink\<close>\<close>
  cl_id :: nat                     \<comment> \<open>the variable \<^verbatim>\<open>id\<close>, which keeps its value\<close>
  cl_loop :: nat                   \<comment> \<open>\<^verbatim>\<open>cleanuploop\<close>\<close>
  cl_bigtodo :: bool
  cl_split :: nat                  \<comment> \<open>\<^verbatim>\<open>conf_split\<close>\<close>

definition respond :: "char \<Rightarrow> cleand \<Rightarrow> cleand" where
  "respond c s = s\<lparr>cl_responses := cl_responses s @ [c]\<rparr>"

definition cl_unlink :: "bytes \<Rightarrow> cleand \<Rightarrow> unlres \<times> cleand" where
  "cl_unlink p s = (cl_sys s (length (cl_unlinks s)), s\<lparr>cl_unlinks := cl_unlinks s @ [p]\<rparr>)"

text \<open>
  \<^verbatim>\<open>cleanuppid\<close>: the entries of \<^verbatim>\<open>pid/\<close> with their access time (\<open>None\<close>: \<^verbatim>\<open>stat\<close> failed); old
  ones are removed.
\<close>

definition cleanuppid :: "int \<Rightarrow> int \<Rightarrow> (bytes \<times> int option) list option \<Rightarrow> cleand \<Rightarrow> cleand" where
  "cleanuppid tm ossified dir s =
     (case dir of
        None \<Rightarrow> s
      | Some es \<Rightarrow>
          fold (\<lambda>(name, st) s.
                  if name = ''.'' \<or> name = ''..'' then s
                  else case st of
                      None \<Rightarrow> s
                    | Some atime \<Rightarrow> if tm < atime + ossified then s else snd (cl_unlink (''pid/'' @ name) s)) es s)"

text \<open>
  The loop that looks for the slash, from position \<open>i\<close> down to 5; its \<^verbatim>\<open>continue\<close> after the
  response goes on with this loop. The result is where it stops.
\<close>

fun clean_scan :: "bytes \<Rightarrow> nat \<Rightarrow> cleand \<Rightarrow> nat \<times> cleand" where
  "clean_scan line 0 s = (0, s)"
| "clean_scan line (Suc i) s =
     (if Suc i \<le> 4 then (Suc i, s)
      else if line ! Suc i = CHR ''/'' then (Suc i, s)
      else if \<not> is_digit (line ! Suc i) then clean_scan line i (respond CHR ''x'' s)
      else clean_scan line i s)"

text \<open>The macro \<^verbatim>\<open>U\<close>: \<open>False\<close> when the response has been \<^verbatim>\<open>!\<close>.\<close>

definition clean_U :: "libq \<Rightarrow> bytes \<Rightarrow> bool \<Rightarrow> cleand \<Rightarrow> bool \<times> cleand" where
  "clean_U L prefix flag s =
     (case cl_unlink (snd (fmtqfn L (cl_split s) (cl_split s) prefix (cl_id s) flag)) s of
        (UErr, s1) \<Rightarrow> (False, respond CHR ''!'' s1)
      | (_, s1) \<Rightarrow> (True, s1))"

definition clean_pair :: "libq \<Rightarrow> bytes \<Rightarrow> bool \<Rightarrow> cleand \<Rightarrow> cleand" where
  "clean_pair L prefix flag s =
     (case clean_U L ''intd/'' (cl_bigtodo s) s of
        (False, s1) \<Rightarrow> s1
      | (True, s1) \<Rightarrow>
          (case clean_U L prefix flag s1 of
             (False, s2) \<Rightarrow> s2
           | (True, s2) \<Rightarrow> respond CHR ''+'' s2))"

text \<open>One request: the line with its final NUL.\<close>

definition clean_request :: "libq \<Rightarrow> bytes \<Rightarrow> cleand \<Rightarrow> cleand" where
  "clean_request L line s =
     (if length line < 7 then respond CHR ''x'' s
      else if length line > 100 then respond CHR ''x'' s
      else if line ! (length line - 1) \<noteq> NUL then respond CHR ''x'' s
      else
        let (i, s1) = clean_scan line (length line - 2) s;
            (n, v) = lq_scan_ulong L (drop (i + 1) line) in
        if line ! i = CHR ''/'' \<and> n = 0 then respond CHR ''x'' s1
        else
          let s2 = (if line ! i = CHR ''/'' then s1\<lparr>cl_id := v\<rparr> else s1) in
          if take 5 line = ''foop/'' then clean_pair L ''mess/'' True s2
          else if take 4 line = ''todo'' then clean_pair L ''todo/'' (cl_bigtodo s2) s2
          else respond CHR ''x'' s2)"

text \<open>One round of the main loop: \<^verbatim>\<open>cleanuppid\<close> every 31 rounds, then the request if there is one.\<close>

definition clean_round ::
  "libq \<Rightarrow> int \<Rightarrow> int \<Rightarrow> (bytes \<times> int option) list option \<Rightarrow> bytes option \<Rightarrow> cleand \<Rightarrow> cleand" where
  "clean_round L tm ossified dir req s =
     (let s1 = (if cl_loop s \<noteq> 0 then s\<lparr>cl_loop := cl_loop s - 1\<rparr>
                else (cleanuppid tm ossified dir s)\<lparr>cl_loop := 30\<rparr>)
      in case req of None \<Rightarrow> s1 | Some l \<Rightarrow> clean_request L (l @ [NUL]) s1)"

section \<open>Well-formed requests\<close>

text \<open>The digits of the number are skipped without a response.\<close>

lemma clean_scan_digits:
  assumes "length a = 5" "a ! 4 = CHR ''/''" "list_all is_digit ds"
  shows "clean_scan (a @ ds @ z) (4 + length ds) s = (4, s)"
  using assms(3)
proof (induction ds arbitrary: z rule: rev_induct)
  case Nil
  show ?case by (simp add: numeral_eq_Suc)
next
  case (snoc d ds)
  have d: "is_digit d" using snoc.prems by simp
  then have nd: "d \<noteq> CHR ''/''" by (auto simp: is_digit_def)
  have at: "(a @ ds @ d # z) ! (4 + length (ds @ [d])) = d"
    using assms(1) by (simp add: nth_append)
  have "clean_scan (a @ ds @ (d # z)) (4 + length ds) s = (4, s)" using snoc by simp
  moreover have len: "4 + length (ds @ [d]) = Suc (4 + length ds)" by simp
  ultimately show ?case
    unfolding len using at d nd by (simp only: clean_scan.simps len append.assoc append.simps) simp
qed

text \<open>The two paths of a request.\<close>

definition req_paths :: "libq \<Rightarrow> cleand \<Rightarrow> bytes \<Rightarrow> bool \<Rightarrow> nat \<Rightarrow> bytes list" where
  "req_paths L s prefix flag n =
     [snd (fmtqfn L (cl_split s) (cl_split s) ''intd/'' n (cl_bigtodo s)), snd (fmtqfn L (cl_split s) (cl_split s) prefix n flag)]"

text \<open>What a pair of removals does: one response, and a prefix of the two paths.\<close>

lemma clean_pair_result:
  "\<exists>k r. cl_unlinks (clean_pair L prefix flag s) = cl_unlinks s @ take k (req_paths L s prefix flag (cl_id s)) \<and>
     cl_responses (clean_pair L prefix flag s) = cl_responses s @ [r] \<and>
     (r = CHR ''+'' \<and> k = 2 \<and> cl_sys s (length (cl_unlinks s)) \<noteq> UErr \<and> cl_sys s (Suc (length (cl_unlinks s))) \<noteq> UErr \<or>
      r = CHR ''!'' \<and> (k = 1 \<and> cl_sys s (length (cl_unlinks s)) = UErr \<or>
                     k = 2 \<and> cl_sys s (Suc (length (cl_unlinks s))) = UErr))"
proof -
  let ?u1 = "cl_sys s (length (cl_unlinks s))" and ?u2 = "cl_sys s (Suc (length (cl_unlinks s)))"
  consider "?u1 = UErr" | "?u1 \<noteq> UErr" "?u2 = UErr" | "?u1 \<noteq> UErr" "?u2 \<noteq> UErr" by blast
  then show ?thesis
  proof cases
    case 1
    then show ?thesis
      by (intro exI [of _ 1] exI [of _ "CHR ''!''"])
         (simp add: clean_pair_def clean_U_def cl_unlink_def respond_def req_paths_def)
  next
    case 2
    then show ?thesis
      by (intro exI [of _ 2] exI [of _ "CHR ''!''"])
         (cases ?u1; simp add: clean_pair_def clean_U_def cl_unlink_def respond_def req_paths_def)
  next
    case 3
    then show ?thesis
      by (intro exI [of _ 2] exI [of _ "CHR ''+''"])
         (cases ?u1; cases ?u2; simp add: clean_pair_def clean_U_def cl_unlink_def respond_def req_paths_def)
  qed
qed

context libqmail
begin

lemma clean_request_wellformed:
  assumes p: "p = ''foop/'' \<or> p = ''todo/''" and n: "n < 2 ^ 64"
  shows "clean_request L (p @ lq_fmt_ulong L n @ [NUL]) s =
    (if p = ''foop/'' then clean_pair L ''mess/'' True (s\<lparr>cl_id := n\<rparr>)
     else clean_pair L ''todo/'' (cl_bigtodo s) (s\<lparr>cl_id := n\<rparr>))"
proof -
  let ?d = "lq_fmt_ulong L n" and ?l = "p @ lq_fmt_ulong L n @ [NUL]"
  have lp: "length p = 5" "p ! 4 = CHR ''/''" using p by auto
  have d: "?d \<noteq> []" "list_all is_digit ?d" using fmt_ulong_digits by auto
  have "length ?d \<le> 20" by (rule fmt_ulong_len) (use n in auto)
  then have len: "7 \<le> length ?l" "length ?l \<le> 100" using lp d by (cases ?d; simp)+
  have last: "?l ! (length ?l - 1) = NUL" using lp by (simp add: nth_append)
  have pos: "length ?l - 2 = 4 + length ?d" using lp by simp
  have scan: "clean_scan ?l (length ?l - 2) s = (4, s)"
    unfolding pos by (rule clean_scan_digits [OF lp d(2)])
  have rest: "drop (4 + 1) ?l = ?d @ [NUL]" "?l ! 4 = CHR ''/''" using lp by (auto simp: nth_append)
  have val: "lq_scan_ulong L (?d @ [NUL]) = (length ?d, n)" by (rule scan_fmt) (simp add: is_digit_def)
  have "clean_request L ?l s =
      (if take 5 ?l = ''foop/'' then clean_pair L ''mess/'' True (s\<lparr>cl_id := n\<rparr>)
       else if take 4 ?l = ''todo'' then clean_pair L ''todo/'' (cl_bigtodo s) (s\<lparr>cl_id := n\<rparr>)
       else respond CHR ''x'' (s\<lparr>cl_id := n\<rparr>))"
    unfolding clean_request_def scan prod.case rest Let_def val using len last d(1) by simp
  then show ?thesis using p lp by auto
qed

end

end
