(* ===== verification/QmailClient.thy ===== *)
theory QmailClient
  imports MtaPrelude
begin

text \<open>
  \<^verbatim>\<open>indimail-mta-x/qmail.c\<close>: how programs hand a message to \<^verbatim>\<open>qmail-queue\<close>. The message goes to one
  pipe, the envelope (sender, recipients) to another; \<^verbatim>\<open>qmail_close\<close> turns the exit status of the child
  into a verdict. Which writes fail is given by \<open>qq_fault\<close>.
\<close>

record qmailq =
  qq_flagerr :: bool
  qq_onenv :: bool            \<comment> \<open>the stream now writes to the envelope pipe\<close>
  qq_mess :: bytes
  qq_env :: bytes
  qq_fdc :: bool              \<comment> \<open>there is a pipe for custom errors\<close>
  qq_fault :: "nat \<Rightarrow> bool"
  qq_ops :: nat

definition qmail_opened :: "bool \<Rightarrow> (nat \<Rightarrow> bool) \<Rightarrow> qmailq" where
  "qmail_opened fdc fault =
     \<lparr>qq_flagerr = False, qq_onenv = False, qq_mess = [], qq_env = [], qq_fdc = fdc, qq_fault = fault, qq_ops = 0\<rparr>"

definition qmail_fail :: "qmailq \<Rightarrow> qmailq" where
  "qmail_fail q = q\<lparr>qq_flagerr := True\<rparr>"

definition qmail_put :: "bytes \<Rightarrow> qmailq \<Rightarrow> qmailq" where
  "qmail_put b q =
     (if qq_flagerr q then q
      else let q1 = q\<lparr>qq_ops := qq_ops q + 1\<rparr> in
        if qq_fault q (qq_ops q) then q1\<lparr>qq_flagerr := True\<rparr>
        else if qq_onenv q then q1\<lparr>qq_env := qq_env q @ b\<rparr>
        else q1\<lparr>qq_mess := qq_mess q @ b\<rparr>)"

definition qmail_puts :: "bytes \<Rightarrow> qmailq \<Rightarrow> qmailq" where
  "qmail_puts s q = qmail_put (cstr s) q"

text \<open>\<^verbatim>\<open>substdio_flush\<close>\<close>

definition qmail_flush :: "qmailq \<Rightarrow> bool \<times> qmailq" where
  "qmail_flush q = (\<not> qq_fault q (qq_ops q), q\<lparr>qq_ops := qq_ops q + 1\<rparr>)"

definition qmail_from :: "bytes \<Rightarrow> qmailq \<Rightarrow> qmailq" where
  "qmail_from s q =
     (let (ok, q1) = qmail_flush q;
          q2 = (if ok then q1 else q1\<lparr>qq_flagerr := True\<rparr>);
          q3 = q2\<lparr>qq_onenv := True\<rparr>
      in qmail_put [NUL] (qmail_puts s (qmail_put ''F'' q3)))"

definition qmail_to :: "bytes \<Rightarrow> qmailq \<Rightarrow> qmailq" where
  "qmail_to s q = qmail_put [NUL] (qmail_puts s (qmail_put ''T'' q))"

section \<open>The verdict\<close>

text \<open>\<^verbatim>\<open>qmail.h\<close>: a code for a permanent error.\<close>

definition perm_error :: "nat \<Rightarrow> bool" where
  "perm_error x \<longleftrightarrow> x = 115 \<or> (11 \<le> x \<and> x \<le> 40)"

text \<open>The messages of \<^verbatim>\<open>qmail_close\<close> by exit code; code 0 is reached with \<open>flagerr\<close> set.\<close>

definition qq_message :: "nat \<Rightarrow> bytes" where
  "qq_message x =
     (if x = 115 \<or> x = 11 then ''Dqq envelope address too long (#5.1.3)''
      else if x = 31 then ''Dqq mail server permanently rejected message (#5.3.0)''
      else if x = 32 then ''Dqq spam or junk mail threshold exceeded (#5.7.1)''
      else if x = 33 then ''Dqq message contains virus (#5.7.1)''
      else if x = 34 then ''Dqq message contains banned attachment (#5.7.1)''
      else if x = 35 then ''Dqq private key file does not exist (#5.3.5)''
      else if x = 50 then ''Zqq unable to get privilege to run virus scanner (#4.3.0)''
      else if x = 51 then ''Zqq out of memory (#4.3.0)''
      else if x = 52 then ''Zqq timeout (#4.3.0)''
      else if x = 41 then ''Zqq trouble duplicating file descriptors (#4.3.0)''
      else if x = 53 then ''Zqq write error or disk full (#4.3.0)''
      else if x = 0 \<or> x = 54 then ''Zqq read error (#4.3.0)''
      else if x = 55 then ''Zqq unable to read configuration (#4.3.0)''
      else if x = 56 then ''Zqq trouble making network connection (#4.3.0)''
      else if x = 57 then ''Zqq unable to open shared object/plugin (#4.3.0)''
      else if x = 58 then ''Zqq unable to resolve symbol in shared object/plugin (#4.3.0)''
      else if x = 59 then ''Zqq unable to close shared object/plugin (#4.3.0)''
      else if x = 60 then ''Zqq trouble creating pipes/sockets (#4.3.0)''
      else if x = 61 then ''Zqq trouble in home directory (#4.3.0)''
      else if x = 62 then ''Zqq unable to access mess file (#4.3.0)''
      else if x = 63 then ''Zqq trouble doing cd to root directory (#4.3.0)''
      else if x = 64 then ''Zqq trouble syncing message to disk (#4.3.0)''
      else if x = 65 then ''Zqq trouble creating files in intd. (#4.3.0)''
      else if x = 66 then ''Zqq trouble linking todofn to intdfn (#4.3.0)''
      else if x = 67 then ''Zqq trouble linking messfn to pidfn (#4.3.0)''
      else if x = 68 then ''Zqq trouble creating temporary files (#4.3.0)''
      else if x = 69 then ''Zqq trouble syncing dir to disk (#4.3.0)''
      else if x = 70 then ''Zqq trouble with pid file (#4.3.0)''
      else if x = 71 then ''Zqq mail server temporarily rejected message (#4.3.0)''
      else if x = 72 then ''Zqq connection to mail server timed out (#4.4.1)''
      else if x = 73 then ''Zqq connection to mail server rejected (#4.4.1)''
      else if x = 74 then ''Zqq communication with mail server failed (#4.4.2)''
      else if x = 75 then ''Zqq unable to exec (#4.3.0)''
      else if x = 76 then ''Zqq temporary problem with SPAM filter (#4.3.0)''
      else if x = 77 then ''Zqq unable to run QHPSI scanner (#4.3.0)''
      else if x = 78 then ''Zqq trouble getting uids/gids (#4.3.0)''
      else if x = 79 then ''Zqq envelope format error (#4.3.0)''
      else if x = 80 then ''Zqq trouble removing intdfn''
      else if x = 91 \<or> x = 81 then ''Zqq internal bug (#4.3.0)''
      else if x = 87 then ''Zqq mail system incorrectly configured. (#4.3.5)''
      else if x = 82 \<or> x = 120 then ''Zqq unable to exec qq (#4.3.0)''
      else if x = 121 then ''Zqq unable to fork (#4.3.0)''
      else if x = 122 then ''Zqq waitpid surprise (#4.3.0)''
      else if x = 123 then ''Zqq crashed (#4.3.0)''
      else if perm_error x then ''Dqq permanent problem (#5.3.0)''
      else ''Zqq temporary problem (#4.3.0)'')"

text \<open>
  \<^verbatim>\<open>qmail_close\<close>: \<open>custom\<close> is what the child wrote to the error pipe, \<open>waited\<close> says that
  \<^verbatim>\<open>wait_pid\<close> returned the child. The static buffer \<^verbatim>\<open>errstr\<close> takes 1023 bytes and is read as a C string.
\<close>

definition qmail_close :: "bytes \<Rightarrow> bool \<Rightarrow> bool \<Rightarrow> nat \<Rightarrow> qmailq \<Rightarrow> bytes \<times> qmailq" where
  "qmail_close custom waited crashed code q =
     (let q1 = qmail_put [NUL] q;
          q2 = (if qq_flagerr q1 then q1
                else case qmail_flush q1 of (True, q') \<Rightarrow> q' | (False, q') \<Rightarrow> q'\<lparr>qq_flagerr := True\<rparr>);
          err = (if qq_fdc q2 then take 1023 custom else [])
      in (if \<not> waited then ''Zqq waitpid surprise (#4.3.0)''
          else if crashed then ''Zqq crashed (#4.3.0)''
          else if code = 0 \<and> \<not> qq_flagerr q2 then []
          else if code = 88 then (if qq_fdc q2 \<and> 2 < length err then cstr err else ''Zqq temporary problem (#4.3.0)'')
          else qq_message code, q2))"

section \<open>What the verdict means\<close>

lemma qq_message_kind: "\<exists>c t. qq_message x = c # t \<and> (c = CHR ''D'' \<and> perm_error x \<or> c = CHR ''Z'' \<and> \<not> perm_error x)"
proof (cases "perm_error x")
  case True
  then show ?thesis by (auto simp: qq_message_def perm_error_def)
next
  case False
  then have "x \<notin> {115, 11, 31, 32, 33, 34, 35}" by (auto simp: perm_error_def)
  then show ?thesis using False by (simp add: qq_message_def)
qed

text \<open>The message is accepted exactly when the child says so and no write failed.\<close>

lemma qmail_close_accepts:
  assumes "cstr (take 1023 custom) \<noteq> []"
  shows "fst (qmail_close custom waited crashed code q) = [] \<longleftrightarrow>
    waited \<and> \<not> crashed \<and> code = 0 \<and> \<not> qq_flagerr (snd (qmail_close custom waited crashed code q))"
proof -
  have "qq_message x \<noteq> []" for x using qq_message_kind [of x] by auto
  then show ?thesis using assms by (auto simp: qmail_close_def Let_def)
qed

lemma qmail_put_sticky: "qq_flagerr q \<Longrightarrow> qq_flagerr (qmail_put b q)"
  by (simp add: qmail_put_def)

lemma qmail_put_ok:
  "\<not> qq_flagerr q \<Longrightarrow> \<forall>n. \<not> qq_fault q n \<Longrightarrow>
   qmail_put b q = (if qq_onenv q then q\<lparr>qq_ops := qq_ops q + 1, qq_env := qq_env q @ b\<rparr>
                    else q\<lparr>qq_ops := qq_ops q + 1, qq_mess := qq_mess q @ b\<rparr>)"
  by (simp add: qmail_put_def)

text \<open>The envelope that arrives, and reading it back.\<close>

definition envelope :: "bytes \<Rightarrow> bytes list \<Rightarrow> bytes" where
  "envelope s rs = ''F'' @ s @ [NUL] @ concat (map (\<lambda>r. ''T'' @ r @ [NUL]) rs) @ [NUL]"

fun read_recipients :: "nat \<Rightarrow> bytes \<Rightarrow> bytes list option" where
  "read_recipients 0 b = None"
| "read_recipients (Suc n) b =
     (case read_record b of
        None \<Rightarrow> None
      | Some ([], _) \<Rightarrow> Some []
      | Some (t # r, b') \<Rightarrow> if t = CHR ''T'' then map_option (Cons r) (read_recipients n b') else None)"

definition read_envelope :: "bytes \<Rightarrow> (bytes \<times> bytes list) option" where
  "read_envelope b =
     (case read_record b of
        Some (f # s, b') \<Rightarrow> if f = CHR ''F'' then map_option (Pair s) (read_recipients (length b') b') else None
      | _ \<Rightarrow> None)"

lemma read_recipients_envelope:
  "list_all no_nul rs \<Longrightarrow> length rs < n \<Longrightarrow>
   read_recipients n (concat (map (\<lambda>r. ''T'' @ r @ [NUL]) rs) @ [NUL]) = Some rs"
proof (induction rs arbitrary: n)
  case Nil
  then show ?case by (cases n) auto
next
  case (Cons r rs)
  then obtain m where n: "n = Suc m" by (cases n) auto
  have "read_record (CHR ''T'' # r @ NUL # (concat (map (\<lambda>r. ''T'' @ r @ [NUL]) rs) @ [NUL])) =
      Some (CHR ''T'' # r, concat (map (\<lambda>r. ''T'' @ r @ [NUL]) rs) @ [NUL])"
    using read_record_append [of "CHR ''T'' # r"] Cons.prems(1) by simp
  then show ?case using Cons n by simp
qed

lemma concat_recipients_length: "length rs \<le> length (concat (map (\<lambda>r. ''T'' @ r @ [NUL]) rs))"
  by (induction rs) auto

lemma read_envelope_inverse:
  assumes "no_nul s" "list_all no_nul rs"
  shows "read_envelope (envelope s rs) = Some (s, rs)"
proof -
  let ?b = "concat (map (\<lambda>r. ''T'' @ r @ [NUL]) rs) @ [NUL]"
  have "read_record (CHR ''F'' # s @ NUL # ?b) = Some (CHR ''F'' # s, ?b)"
    using read_record_append [of "CHR ''F'' # s"] assms(1) by simp
  moreover have "read_recipients (length ?b) ?b = Some rs"
    by (rule read_recipients_envelope [OF assms(2)]) (use concat_recipients_length [of rs] in simp)
  ultimately show ?thesis by (simp add: read_envelope_def envelope_def)
qed

lemma qmail_to_ok:
  "\<not> qq_flagerr q \<Longrightarrow> \<forall>n. \<not> qq_fault q n \<Longrightarrow> qq_onenv q \<Longrightarrow>
   \<exists>n. qmail_to r q = q\<lparr>qq_ops := n, qq_env := qq_env q @ ''T'' @ cstr r @ [NUL]\<rparr>"
  by (rule exI [of _ "qq_ops q + 3"]) (simp add: qmail_to_def qmail_puts_def qmail_put_ok)

lemma qmail_tos_ok:
  "\<not> qq_flagerr q \<Longrightarrow> \<forall>n. \<not> qq_fault q n \<Longrightarrow> qq_onenv q \<Longrightarrow>
   \<exists>n. fold qmail_to rs q = q\<lparr>qq_ops := n, qq_env := qq_env q @ concat (map (\<lambda>r. ''T'' @ cstr r @ [NUL]) rs)\<rparr>"
proof (induction rs arbitrary: q)
  case Nil
  show ?case by (rule exI [of _ "qq_ops q"]) simp
next
  case (Cons r rs)
  obtain n where n: "qmail_to r q = q\<lparr>qq_ops := n, qq_env := qq_env q @ ''T'' @ cstr r @ [NUL]\<rparr>"
    using qmail_to_ok Cons.prems by blast
  have "\<exists>m. fold qmail_to rs (qmail_to r q) = (qmail_to r q)\<lparr>qq_ops := m,
      qq_env := qq_env (qmail_to r q) @ concat (map (\<lambda>r. ''T'' @ cstr r @ [NUL]) rs)\<rparr>"
    by (rule Cons.IH) (use Cons.prems n in simp_all)
  then show ?case using n by simp
qed

lemma qmail_session_envelope:
  assumes "\<not> qq_flagerr q" "\<forall>n. \<not> qq_fault q n" "qq_env q = []"
  shows "qq_env (snd (qmail_close custom waited crashed code (fold qmail_to rs (qmail_from s q)))) =
    envelope (cstr s) (map cstr rs)"
proof -
  have "qmail_from s q = q\<lparr>qq_ops := qq_ops q + 4, qq_onenv := True, qq_env := ''F'' @ cstr s @ [NUL]\<rparr>"
    using assms by (cases q) (simp add: qmail_from_def qmail_flush_def qmail_puts_def qmail_put_ok)
  then obtain n where f: "qmail_from s q = q\<lparr>qq_ops := n, qq_onenv := True, qq_env := ''F'' @ cstr s @ [NUL]\<rparr>" ..
  obtain m where t: "fold qmail_to rs (qmail_from s q) = q\<lparr>qq_onenv := True, qq_ops := m,
      qq_env := (''F'' @ cstr s @ [NUL]) @ concat (map (\<lambda>r. ''T'' @ cstr r @ [NUL]) rs)\<rparr>"
    using qmail_tos_ok [of "qmail_from s q" rs] assms unfolding f by auto
  show ?thesis
    unfolding t qmail_close_def using assms
    by (simp add: Let_def qmail_flush_def qmail_put_ok envelope_def o_def)
qed

end
