(* ===== verification/Tcpto.thy ===== *)
theory Tcpto
  imports MtaPrelude
begin

text \<open>
  \<^verbatim>\<open>indimail-mta-x/tcpto.c\<close>: the table of hosts that recently timed out, in the file
  \<^verbatim>\<open>lock/tcpto\<close>: at most 64 records of 32 bytes, each with the address family at 0, a counter
  at 4, a 32-bit little-endian time at 8 and the address at 16. The build with \<^verbatim>\<open>IPV6\<close> is
  modelled. A missing or unreadable file is \<open>None\<close>; of \<^verbatim>\<open>tcpto_err\<close> the result is the record
  that it writes and its index.
\<close>

section \<open>The code\<close>

record ipmx =
  ix_af :: nat          \<comment> \<open>\<^verbatim>\<open>AF_INET\<close> is 2\<close>
  ix_addr :: bytes      \<comment> \<open>the 16 bytes of the union \<^verbatim>\<open>addr\<close>\<close>

definition TCPTO_BUFSIZ :: nat where "TCPTO_BUFSIZ = 2048"
definition MIN_PENALTY :: int where "MIN_PENALTY = 3600"

definition getbuf :: "bytes option \<Rightarrow> bytes \<times> nat" where
  "getbuf file =
     (case file of
        None \<Rightarrow> ([], 0)
      | Some f \<Rightarrow> let b = take TCPTO_BUFSIZ f in (b, length b div 32))"

definition trec :: "bytes \<Rightarrow> nat \<Rightarrow> bytes" where
  "trec b i = take 32 (drop (32 * i) b)"

definition af_len :: "nat \<Rightarrow> nat" where
  "af_len af = (if af = 2 then 4 else 16)"

definition tcp_match :: "ipmx \<Rightarrow> bytes \<Rightarrow> bool" where
  "tcp_match ix r \<longleftrightarrow> int (ix_af ix) = schar (r ! 0) \<and>
     take (af_len (ix_af ix)) (ix_addr ix) = take (af_len (ix_af ix)) (drop 16 r)"

definition tcp_when :: "bytes \<Rightarrow> int" where
  "tcp_when r = ((of_char (r ! 11) * 256 + of_char (r ! 10)) * 256 + of_char (r ! 9)) * 256 + of_char (r ! 8)"

definition tcp_stamp :: "int \<Rightarrow> bytes \<Rightarrow> bytes" where
  "tcp_stamp t r = r[8 := char_of t, 9 := char_of (t div 256), 10 := char_of (t div 256 div 256),
                     11 := char_of (t div 256 div 256 div 256)]"

text \<open>The loop over the records stops at the first match.\<close>

definition tcp_find :: "ipmx \<Rightarrow> bytes \<Rightarrow> nat \<Rightarrow> nat option" where
  "tcp_find ix b n = find (\<lambda>i. tcp_match ix (trec b i)) [0..<n]"

text \<open>The result of \<^verbatim>\<open>tcpto\<close>, and the flag \<^verbatim>\<open>flagwasthere\<close> that it leaves for \<^verbatim>\<open>tcpto_err\<close>.\<close>

definition min_wait :: "int \<Rightarrow> nat \<Rightarrow> int" where
  "min_wait min_backoff pid =
     (if 0 < min_backoff then min_backoff + ((60 + int (pid mod 32)) * 64 - MIN_PENALTY) else - min_backoff)"

definition tcpto :: "ipmx \<Rightarrow> int \<Rightarrow> int \<Rightarrow> nat \<Rightarrow> bytes option \<Rightarrow> bool \<times> bool" where
  "tcpto ix min_backoff tm pid file =
     (case getbuf file of (b, n) \<Rightarrow>
        case tcp_find ix b n of
          None \<Rightarrow> (False, False)
        | Some i \<Rightarrow> let r = trec b i in
            (2 \<le> schar (r ! 4) \<and> tm - tcp_when r < min_wait min_backoff pid, True))"

text \<open>\<^verbatim>\<open>++record[4] > 10\<close> on a signed \<^verbatim>\<open>char\<close>\<close>

definition bump :: "char \<Rightarrow> char" where
  "bump c = (let c' = char_of (of_char c + 1 :: nat) in if schar c' > 10 then CHR 0x0A else c')"

text \<open>The record to replace when none is free: the first with the least time plus 1024 per count.\<close>

definition tcp_weight :: "bytes \<Rightarrow> int" where
  "tcp_weight r = tcp_when r + schar (r ! 4) * 1024"

fun tcp_oldest :: "bytes \<Rightarrow> nat list \<Rightarrow> nat option \<times> int \<Rightarrow> nat option \<times> int" where
  "tcp_oldest b [] best = best"
| "tcp_oldest b (i # is) best =
     (let w = tcp_weight (trec b i) in
      tcp_oldest b is (if fst best = None \<or> w < snd best then (Some i, w) else best))"

definition tcp_slot :: "bytes \<Rightarrow> nat \<Rightarrow> nat option" where
  "tcp_slot b n =
     (case find (\<lambda>i. trec b i ! 4 = NUL) [0..<n] of
        Some i \<Rightarrow> Some i
      | None \<Rightarrow> fst (tcp_oldest b [0..<n] (None, 0)))"

definition tcp_fill :: "ipmx \<Rightarrow> bytes \<Rightarrow> bytes" where
  "tcp_fill ix r =
     (let r1 = r[0 := char_of (ix_af ix)]
      in take 16 r1 @ take (af_len (ix_af ix)) (ix_addr ix) @ drop (16 + af_len (ix_af ix)) r1)"

definition tcpto_err :: "ipmx \<Rightarrow> bool \<Rightarrow> int \<Rightarrow> int \<Rightarrow> bool \<Rightarrow> bytes option \<Rightarrow> (nat \<times> bytes) option" where
  "tcpto_err ix flagerr max_tolerance tm flagwasthere file =
     (if \<not> flagerr \<and> \<not> flagwasthere then None
      else case getbuf file of (b, n) \<Rightarrow>
        case tcp_find ix b n of
          Some i \<Rightarrow> let r = trec b i in
            if \<not> flagerr then Some (i, r[4 := NUL])
            else if r ! 4 \<noteq> NUL \<and> tm < max_tolerance + tcp_when r then None
            else Some (i, tcp_stamp tm (r[4 := bump (r ! 4)]))
        | None \<Rightarrow>
            if \<not> flagerr then None
            else map_option (\<lambda>i. (i, (tcp_stamp tm (tcp_fill ix (trec b i)))[4 := CHR 0x01])) (tcp_slot b n))"

text \<open>The file after the write.\<close>

definition tcp_put :: "(nat \<times> bytes) option \<Rightarrow> bytes \<Rightarrow> bytes" where
  "tcp_put w f = (case w of None \<Rightarrow> f | Some (i, r) \<Rightarrow> take (32 * i) f @ r @ drop (32 * i + 32) f)"

section \<open>Records\<close>

text \<open>The number of records in use, and what the table says of a host: its counter and its time.\<close>

definition tcp_size :: "bytes \<Rightarrow> nat" where
  "tcp_size f = min 2048 (length f) div 32"

definition tcp_view :: "bytes \<Rightarrow> ipmx \<Rightarrow> (int \<times> int) option" where
  "tcp_view f ix = map_option (\<lambda>i. (schar (trec f i ! 4), tcp_when (trec f i))) (tcp_find ix f (tcp_size f))"

definition ix_ok :: "ipmx \<Rightarrow> bool" where
  "ix_ok ix \<longleftrightarrow> ix_af ix < 128 \<and> length (ix_addr ix) = 16"

text \<open>Two hosts have the same records.\<close>

definition same_host :: "ipmx \<Rightarrow> ipmx \<Rightarrow> bool" where
  "same_host x y \<longleftrightarrow> ix_af x = ix_af y \<and> take (af_len (ix_af x)) (ix_addr x) = take (af_len (ix_af y)) (ix_addr y)"

lemma tcp_size_bound: "i < tcp_size f \<Longrightarrow> 32 * i + 32 \<le> length f \<and> 32 * i + 32 \<le> 2048"
proof -
  assume "i < tcp_size f"
  then have "Suc i * 32 \<le> min 2048 (length f) div 32 * 32" unfolding tcp_size_def by (intro mult_le_mono1) simp
  also have "\<dots> \<le> min 2048 (length f)" by (rule div_times_less_eq_dividend)
  finally have "Suc i * 32 \<le> min 2048 (length f)" by simp
  then show ?thesis by simp
qed

lemma trec_length: "i < tcp_size f \<Longrightarrow> length (trec f i) = 32"
  by (drule tcp_size_bound) (auto simp: trec_def min_def)

lemma trec_take: "i < tcp_size f \<Longrightarrow> trec (take TCPTO_BUFSIZ f) i = trec f i"
  by (drule tcp_size_bound) (auto simp: trec_def TCPTO_BUFSIZ_def drop_take min_def)

lemma getbuf_Some: "getbuf (Some f) = (take TCPTO_BUFSIZ f, tcp_size f)"
  by (simp add: getbuf_def tcp_size_def TCPTO_BUFSIZ_def min.commute)

lemma find_cong_set: "(\<And>x. x \<in> set xs \<Longrightarrow> P x = Q x) \<Longrightarrow> find P xs = find Q xs"
  by (induction xs) auto

lemma tcp_find_take: "tcp_find ix (take TCPTO_BUFSIZ f) (tcp_size f) = tcp_find ix f (tcp_size f)"
  unfolding tcp_find_def by (rule find_cong_set) (simp add: trec_take)

lemma find_upt_Some:
  "find P [0..<n] = Some i \<longleftrightarrow> i < n \<and> P i \<and> (\<forall>j < i. \<not> P j)"
  by (auto simp: find_Some_iff)

lemma find_upt_None: "find P [0..<n] = None \<longleftrightarrow> (\<forall>j < n. \<not> P j)"
  by (auto simp: find_None_iff)

lemma tcp_find_Some:
  "tcp_find ix f n = Some i \<longleftrightarrow> i < n \<and> tcp_match ix (trec f i) \<and> (\<forall>j < i. \<not> tcp_match ix (trec f j))"
  by (simp add: tcp_find_def find_upt_Some)

lemma tcp_find_None: "tcp_find ix f n = None \<longleftrightarrow> (\<forall>j < n. \<not> tcp_match ix (trec f j))"
  by (simp add: tcp_find_def find_upt_None)

lemma tcp_put_length: "i < tcp_size f \<Longrightarrow> length r = 32 \<Longrightarrow> length (tcp_put (Some (i, r)) f) = length f"
  by (drule tcp_size_bound) (simp add: tcp_put_def)

lemma tcp_put_size: "i < tcp_size f \<Longrightarrow> length r = 32 \<Longrightarrow> tcp_size (tcp_put (Some (i, r)) f) = tcp_size f"
  using tcp_put_length [of i f r] by (simp add: tcp_size_def)

lemma trec_put:
  assumes "i < tcp_size f" "length r = 32"
  shows "trec (tcp_put (Some (i, r)) f) j = (if j = i then r else trec f j)"
proof -
  have len: "32 * i + 32 \<le> length f" using tcp_size_bound [OF assms(1)] by simp
  consider "j = i" | "j < i" | "i < j" by linarith
  then show ?thesis
  proof cases
    case 1
    then show ?thesis using len assms(2) by (simp add: trec_def tcp_put_def)
  next
    case 2
    then have "32 * j + 32 \<le> 32 * i" by simp
    then have "take 32 (drop (32 * j) (take (32 * i) f)) = take 32 (drop (32 * j) f)"
      by (simp add: drop_take min_def)
    then show ?thesis using 2 len \<open>32 * j + 32 \<le> 32 * i\<close> by (simp add: trec_def tcp_put_def)
  next
    case 3
    let ?g = "tcp_put (Some (i, r)) f"
    have j: "32 * j = (32 * i + 32) + 32 * (j - i - 1)" using 3 by simp
    have "drop (32 * i + 32) ?g = drop (32 * i + 32) f" using len assms(2) by (simp add: tcp_put_def)
    then have "drop (32 * j) ?g = drop (32 * j) f" unfolding j by (metis drop_drop add.commute)
    then show ?thesis using 3 by (simp add: trec_def)
  qed
qed

section \<open>Matching\<close>

lemma tcp_when_stamp:
  assumes "length r = 32" "0 \<le> t" "t < 2 ^ 32"
  shows "tcp_when (tcp_stamp t r) = t"
proof -
  have "t div 256 div 256 div 256 mod 256 = t div 256 div 256 div 256" using assms(2,3) by simp
  then show ?thesis using assms(1) by (simp add: tcp_when_def tcp_stamp_def)
qed

lemma tcp_stamp_nth [simp]: "tcp_stamp t r ! 4 = r ! 4" "tcp_stamp t r ! 0 = r ! 0"
  by (simp_all add: tcp_stamp_def)

lemma tcp_stamp_length [simp]: "length (tcp_stamp t r) = length r"
  by (simp add: tcp_stamp_def)

lemma tcp_stamp_drop [simp]: "drop 16 (tcp_stamp t r) = drop 16 r"
  by (simp add: tcp_stamp_def)

lemma tcp_when_set4 [simp]: "tcp_when (r[4 := c]) = tcp_when r"
  by (simp add: tcp_when_def)

lemma tcp_match_stamp [simp]: "tcp_match ix (tcp_stamp t r) = tcp_match ix r"
  by (simp add: tcp_match_def)

lemma tcp_match_set4 [simp]: "tcp_match ix (r[4 := c]) = tcp_match ix r"
  by (simp add: tcp_match_def)

lemma tcp_fill_length: "ix_ok ix \<Longrightarrow> length r = 32 \<Longrightarrow> length (tcp_fill ix r) = 32"
  by (auto simp: tcp_fill_def ix_ok_def af_len_def)

lemma tcp_match_fill:
  assumes "ix_ok ix" "ix_ok y" "length r = 32"
  shows "tcp_match y (tcp_fill ix r) = same_host y ix"
proof -
  have "schar (tcp_fill ix r ! 0) = int (ix_af ix)"
    using assms by (simp add: tcp_fill_def ix_ok_def schar_char_of nth_append)
  moreover have "take (af_len (ix_af ix)) (drop 16 (tcp_fill ix r)) = take (af_len (ix_af ix)) (ix_addr ix)"
    using assms by (simp add: tcp_fill_def ix_ok_def af_len_def)
  ultimately show ?thesis by (auto simp: tcp_match_def same_host_def)
qed

lemma tcp_match_same: "same_host x y \<Longrightarrow> tcp_match x r = tcp_match y r"
  by (auto simp: tcp_match_def same_host_def)

lemma tcp_match_other:
  assumes "tcp_match x r" "tcp_match y r"
  shows "same_host x y"
proof -
  have "ix_af x = ix_af y" using assms by (simp add: tcp_match_def flip: of_nat_eq_iff)
  then show ?thesis using assms by (simp add: tcp_match_def same_host_def)
qed

section \<open>The slot that is replaced\<close>

lemma tcp_oldest_none: "fst (tcp_oldest b is best) = None \<longleftrightarrow> fst best = None \<and> is = []"
  by (induction "is" arbitrary: best) (auto simp: Let_def)

lemma tcp_oldest_mem: "fst (tcp_oldest b is best) = Some k \<Longrightarrow> k \<in> set is \<or> fst best = Some k"
proof (induction "is" arbitrary: best)
  case Nil
  then show ?case by simp
next
  case (Cons j js)
  show ?case using Cons.prems
    by (simp add: Let_def del: fst_conv split: if_splits) (drule Cons.IH, auto)+
qed

lemma tcp_oldest_least:
  "(fst best \<noteq> None \<Longrightarrow> snd best = tcp_weight (trec b (the (fst best)))) \<Longrightarrow>
   fst (tcp_oldest b is best) = Some k \<Longrightarrow>
   (\<forall>j \<in> set is. tcp_weight (trec b k) \<le> tcp_weight (trec b j)) \<and>
   (fst best \<noteq> None \<longrightarrow> tcp_weight (trec b k) \<le> snd best)"
proof (induction "is" arbitrary: best)
  case Nil
  then show ?case by auto
next
  case (Cons j js)
  let ?w = "tcp_weight (trec b j)"
  let ?best = "if fst best = None \<or> ?w < snd best then (Some j, ?w) else best"
  have "(\<forall>j \<in> set js. tcp_weight (trec b k) \<le> tcp_weight (trec b j)) \<and>
        (fst ?best \<noteq> None \<longrightarrow> tcp_weight (trec b k) \<le> snd ?best)"
    by (rule Cons.IH) (use Cons.prems in \<open>auto simp: Let_def split: if_splits\<close>)
  then show ?case by (auto split: if_splits)
qed

lemma tcp_slot_Some:
  assumes "0 < n"
  shows "\<exists>i < n. tcp_slot b n = Some i"
proof (cases "find (\<lambda>i. trec b i ! 4 = NUL) [0..<n]")
  case None
  obtain k where k: "fst (tcp_oldest b [0..<n] (None, 0)) = Some k"
    using tcp_oldest_none [of b "[0..<n]" "(None, 0)"] assms by fastforce
  then show ?thesis using None tcp_oldest_mem [OF k] by (simp add: tcp_slot_def)
next
  case (Some k)
  then have "k < n" by (simp add: find_upt_Some)
  then show ?thesis using Some by (simp add: tcp_slot_def)
qed

text \<open>A free slot when there is one; else one of least weight.\<close>

lemma tcp_slot_choice:
  assumes "tcp_slot b n = Some i"
  shows "(\<exists>j < n. trec b j ! 4 = NUL) \<and> trec b i ! 4 = NUL \<or>
         (\<forall>j < n. trec b j ! 4 \<noteq> NUL \<and> tcp_weight (trec b i) \<le> tcp_weight (trec b j))"
proof (cases "find (\<lambda>i. trec b i ! 4 = NUL) [0..<n]")
  case None
  have "fst (tcp_oldest b [0..<n] (None, 0)) = Some i" using None assms by (simp add: tcp_slot_def)
  then have "\<forall>j < n. tcp_weight (trec b i) \<le> tcp_weight (trec b j)"
    using tcp_oldest_least [of "(None, 0)" b "[0..<n]" i] by simp
  then show ?thesis using None by (simp add: find_upt_None)
next
  case (Some k)
  then have "k = i" using assms by (simp add: tcp_slot_def)
  then show ?thesis using Some by (auto simp: find_upt_Some)
qed

section \<open>The table as a map from hosts to counts and times\<close>

text \<open>What \<^verbatim>\<open>tcpto\<close> decides depends on the entry of the host only.\<close>

lemma tcpto_view:
  "tcpto ix mb tm pid (Some f) =
     (case tcp_view f ix of None \<Rightarrow> (False, False) | Some (c, l) \<Rightarrow> (2 \<le> c \<and> tm - l < min_wait mb pid, True))"
proof (cases "tcp_find ix f (tcp_size f)")
  case None
  then show ?thesis by (simp add: tcpto_def getbuf_Some tcp_find_take tcp_view_def)
next
  case (Some i)
  then have "i < tcp_size f" by (simp add: tcp_find_Some)
  then show ?thesis using Some by (simp add: tcpto_def getbuf_Some tcp_find_take tcp_view_def trec_take Let_def)
qed

text \<open>The entry of a host after a report: the abstract operation.\<close>

definition bump_count :: "int \<Rightarrow> int" where
  "bump_count c = (if c = 127 then - 128 else min 10 (c + 1))"

definition tcp_report :: "bool \<Rightarrow> int \<Rightarrow> int \<Rightarrow> (int \<times> int) option \<Rightarrow> (int \<times> int) option" where
  "tcp_report flagerr tol tm v =
     (case v of
        None \<Rightarrow> if flagerr then Some (1, tm) else None
      | Some (c, l) \<Rightarrow>
          if \<not> flagerr then Some (0, l)
          else if c \<noteq> 0 \<and> tm < tol + l then Some (c, l)
          else Some (bump_count c, tm))"

lemma schar_of_nat: "n < 256 \<Longrightarrow> schar (char_of n) = (if n \<ge> 128 then int n - 256 else int n)"
proof -
  assume n: "n < 256"
  have "(of_char (char_of n) :: int) = int (of_char (char_of n))" by (simp only: of_nat_of_char)
  also have "\<dots> = int n" using n by simp
  finally show ?thesis by (simp add: schar_def Let_def)
qed

lemma schar_nat: "schar c = (if (of_char c :: nat) \<ge> 128 then int (of_char c) - 256 else int (of_char c))"
  using schar_of_nat [of "of_char c"] by simp

lemma schar_bump: "schar (bump c) = bump_count (schar c)"
proof -
  define n :: nat where "n = of_char c"
  have n: "n < 256" unfolding n_def by simp
  have ten: "schar (CHR 0x0A) = 10" by (simp add: schar_def)
  show ?thesis
  proof (cases "n = 255")
    case True
    have "schar (char_of (0::nat)) = 0" using schar_of_nat [of 0] by simp
    moreover have "(char_of (256::nat) :: char) = char_of (0::nat)" by (simp only: char_of_eq_iff) simp
    ultimately have "schar (char_of (256::nat)) = 0" by (simp only:)
    then show ?thesis
      using True by (simp add: bump_def bump_count_def schar_nat [of c] Let_def flip: n_def)
  next
    case False
    then have "schar (char_of (n + 1)) = (if n + 1 \<ge> 128 then int (n + 1) - 256 else int (n + 1))"
      using n schar_of_nat [of "n + 1"] by simp
    then show ?thesis
      using n ten by (auto simp: bump_def bump_count_def schar_nat [of c] Let_def min_def simp flip: n_def)
  qed
qed

text \<open>A write puts a record of the host in the slot of the host, or in one that is replaced.\<close>

lemma tcp_view_written:
  assumes "i < tcp_size f" "length r = 32" "tcp_match ix r" "\<forall>j < i. \<not> tcp_match ix (trec f j)"
  shows "tcp_view (tcp_put (Some (i, r)) f) ix = Some (schar (r ! 4), tcp_when r)"
proof -
  have "tcp_find ix (tcp_put (Some (i, r)) f) (tcp_size f) = Some i"
    using assms by (simp add: tcp_find_Some trec_put)
  then show ?thesis using assms(1,2) by (simp add: tcp_view_def tcp_put_size trec_put)
qed

lemma tcp_view_kept:
  assumes "i < tcp_size f" "length r = 32" "\<not> tcp_match y r" "tcp_find y f (tcp_size f) \<noteq> Some i"
  shows "tcp_view (tcp_put (Some (i, r)) f) y = tcp_view f y"
proof (cases "tcp_find y f (tcp_size f)")
  case None
  then have "tcp_find y (tcp_put (Some (i, r)) f) (tcp_size f) = None"
    using assms(1-3) by (simp add: tcp_find_None trec_put)
  then show ?thesis using None assms(1,2) by (simp add: tcp_view_def tcp_put_size)
next
  case (Some j)
  then have "j \<noteq> i" using assms(4) by simp
  then have "tcp_find y (tcp_put (Some (i, r)) f) (tcp_size f) = Some j"
    using Some assms(1-3) by (auto simp: tcp_find_Some trec_put)
  then show ?thesis using Some \<open>j \<noteq> i\<close> assms(1,2) by (simp add: tcp_view_def tcp_put_size trec_put)
qed

lemma tcpto_err_cases:
  assumes "flagerr \<or> there"
  obtains (none) "tcp_find ix f (tcp_size f) = None" "\<not> flagerr" "tcpto_err ix flagerr tol tm there (Some f) = None"
    | (new) "tcp_find ix f (tcp_size f) = None" "flagerr"
        "tcpto_err ix flagerr tol tm there (Some f) =
           map_option (\<lambda>i. (i, (tcp_stamp tm (tcp_fill ix (trec (take TCPTO_BUFSIZ f) i)))[4 := CHR 0x01]))
             (tcp_slot (take TCPTO_BUFSIZ f) (tcp_size f))"
    | (old) i where "tcp_find ix f (tcp_size f) = Some i" "i < tcp_size f"
        "tcpto_err ix flagerr tol tm there (Some f) =
           (if \<not> flagerr then Some (i, (trec f i)[4 := NUL])
            else if trec f i ! 4 \<noteq> NUL \<and> tm < tol + tcp_when (trec f i) then None
            else Some (i, tcp_stamp tm ((trec f i)[4 := bump (trec f i ! 4)])))"
proof (cases "tcp_find ix f (tcp_size f)")
  case None
  then show thesis
    using none new assms by (cases flagerr) (simp_all add: tcpto_err_def getbuf_Some tcp_find_take)
next
  case (Some i)
  then have i: "i < tcp_size f" by (simp add: tcp_find_Some)
  show thesis
    by (rule old [OF Some i]) (use Some i assms in \<open>auto simp: tcpto_err_def getbuf_Some tcp_find_take trec_take Let_def\<close>)
qed

lemma schar_eq_zero: "schar c = 0 \<longleftrightarrow> c = NUL"
proof -
  define n :: nat where "n = of_char c"
  have "n < 256" unfolding n_def by simp
  moreover have "n = 0 \<longleftrightarrow> c = NUL" unfolding n_def using of_char_eq_iff [of c NUL, where 'a = nat] by simp
  moreover have "schar c = (if n \<ge> 128 then int n - 256 else int n)" unfolding n_def by (rule schar_nat)
  ultimately show ?thesis by auto
qed

text \<open>The report changes the entry of its host as the abstract operation says.\<close>

lemma tcpto_err_view:
  assumes "ix_ok ix" "0 \<le> tm" "tm < 2 ^ 32" "0 < tcp_size f" "flagerr \<or> there"
  shows "tcp_view (tcp_put (tcpto_err ix flagerr tol tm there (Some f)) f) ix = tcp_report flagerr tol tm (tcp_view f ix)"
  using assms(5)
proof (cases rule: tcpto_err_cases [where f = f and ix = ix and tol = tol and tm = tm])
  case none
  then show ?thesis by (simp add: tcp_put_def tcp_report_def tcp_view_def)
next
  case new
  obtain i where i: "i < tcp_size f" "tcp_slot (take TCPTO_BUFSIZ f) (tcp_size f) = Some i"
    using tcp_slot_Some assms(4) by blast
  let ?r = "(tcp_stamp tm (tcp_fill ix (trec f i)))[4 := CHR 0x01]"
  have len: "length (tcp_fill ix (trec f i)) = 32" using assms(1) i(1) by (simp add: tcp_fill_length trec_length)
  have "tcpto_err ix flagerr tol tm there (Some f) = Some (i, ?r)" using new i by (simp add: trec_take)
  moreover have "tcp_view (tcp_put (Some (i, ?r)) f) ix = Some (schar (?r ! 4), tcp_when ?r)"
    by (rule tcp_view_written)
       (use i(1) len new assms(1) in \<open>auto simp: tcp_match_fill trec_length tcp_find_None same_host_def\<close>)
  moreover have "schar (CHR 0x01) = 1" by (simp add: schar_def)
  ultimately show ?thesis
    using new len assms(2,3) by (simp add: tcp_report_def tcp_view_def tcp_when_stamp)
next
  case (old i)
  have first: "\<forall>j < i. \<not> tcp_match ix (trec f j)" "tcp_match ix (trec f i)" using old by (simp_all add: tcp_find_Some)
  have len: "length (trec f i) = 32" using trec_length old(2) .
  have v: "tcp_view f ix = Some (schar (trec f i ! 4), tcp_when (trec f i))" using old by (simp add: tcp_view_def)
  have wr: "tcp_view (tcp_put (Some (i, r)) f) ix = Some (schar (r ! 4), tcp_when r)"
    if "length r = 32" "tcp_match ix r" for r
    by (rule tcp_view_written [OF old(2) that first(1)])
  show ?thesis
  proof (cases "flagerr")
    case False
    then show ?thesis
      using old(3) v len first(2) schar_eq_zero [of NUL] by (simp add: wr tcp_report_def)
  next
    case True
    let ?busy = "trec f i ! 4 \<noteq> NUL \<and> tm < tol + tcp_when (trec f i)"
    show ?thesis
    proof (cases ?busy)
      case True
      then show ?thesis using old(3) v \<open>flagerr\<close> by (simp add: tcp_put_def tcp_report_def schar_eq_zero)
    next
      case False
      then show ?thesis
        using old(3) v \<open>flagerr\<close> len first(2) assms(2,3)
        by (auto simp: wr tcp_report_def schar_eq_zero tcp_when_stamp schar_bump)
    qed
  qed
qed

text \<open>
  Every other host keeps its entry, unless a host without one takes a slot: then one slot is replaced, which counted no
  timeout, or than which none weighs less while every slot counts some, and only a host found in that slot is concerned.
\<close>

definition tcp_others :: "ipmx \<Rightarrow> bytes \<Rightarrow> bytes \<Rightarrow> nat option \<Rightarrow> bool" where
  "tcp_others ix f g j \<longleftrightarrow>
     (\<forall>y. ix_ok y \<longrightarrow> \<not> same_host y ix \<longrightarrow> j = None \<or> tcp_find y f (tcp_size f) \<noteq> j \<longrightarrow> tcp_view g y = tcp_view f y)"

lemma tcpto_err_others:
  assumes "ix_ok ix" "0 < tcp_size f" "flagerr \<or> there"
    and g_def: "g = tcp_put (tcpto_err ix flagerr tol tm there (Some f)) f"
  shows "tcp_others ix f g None \<or>
    tcp_view f ix = None \<and> flagerr \<and>
    (\<exists>j < tcp_size f. tcp_others ix f g (Some j) \<and>
       (trec f j ! 4 = NUL \<or> (\<forall>k < tcp_size f. trec f k ! 4 \<noteq> NUL \<and> tcp_weight (trec f j) \<le> tcp_weight (trec f k))))"
  using assms(3)
proof (cases rule: tcpto_err_cases [where f = f and ix = ix and tol = tol and tm = tm])
  case none
  then show ?thesis by (simp add: tcp_put_def g_def tcp_others_def)
next
  case new
  obtain i where i: "i < tcp_size f" "tcp_slot (take TCPTO_BUFSIZ f) (tcp_size f) = Some i"
    using tcp_slot_Some assms(2) by blast
  let ?r = "(tcp_stamp tm (tcp_fill ix (trec f i)))[4 := CHR 0x01]"
  have len: "length (tcp_fill ix (trec f i)) = 32" using assms(1) i(1) by (simp add: tcp_fill_length trec_length)
  have w: "g = tcp_put (Some (i, ?r)) f" unfolding g_def using new i by (simp add: trec_take)
  have "tcp_view g y = tcp_view f y" if "ix_ok y" "\<not> same_host y ix" "tcp_find y f (tcp_size f) \<noteq> Some i" for y
  proof -
    have "\<not> tcp_match y ?r" using assms(1) that i(1) by (simp add: tcp_match_fill trec_length)
    then show ?thesis unfolding w using tcp_view_kept [OF i(1)] len that(3) by simp
  qed
  then have "tcp_others ix f g (Some i)" by (simp add: tcp_others_def)
  moreover have "trec f i ! 4 = NUL \<or> (\<forall>k < tcp_size f. trec f k ! 4 \<noteq> NUL \<and> tcp_weight (trec f i) \<le> tcp_weight (trec f k))"
    using tcp_slot_choice [OF i(2)] i(1) by (auto simp: trec_take)
  ultimately show ?thesis using i(1) new by (auto simp: tcp_view_def)
next
  case (old i)
  have m: "tcp_match ix (trec f i)" using old(1) by (simp add: tcp_find_Some)
  have "tcp_view g y = tcp_view f y" if "\<not> same_host y ix" for y
  proof -
    have "\<not> tcp_match y (trec f i)" using m tcp_match_other [of y "trec f i" ix] that by auto
    moreover from this have "tcp_find y f (tcp_size f) \<noteq> Some i" by (auto simp: tcp_find_Some)
    ultimately have "tcp_view (tcp_put (Some (i, r)) f) y = tcp_view f y"
      if "length r = 32" "tcp_match y r = tcp_match y (trec f i)" for r
      using tcp_view_kept [OF old(2) that(1)] that by simp
    then show ?thesis unfolding g_def using old(3) trec_length [OF old(2)] by (simp add: tcp_put_def [of None])
  qed
  then show ?thesis by (simp add: tcp_others_def)
qed

end
