(* ===== verification/QmailQueue.thy ===== *)
theory QmailQueue
  imports QmailClient LibQmail
begin

text \<open>
  \<^verbatim>\<open>indimail-mta-x/qmail-queue.c\<close>: how a message and its envelope become files of the queue. The message is
  written to \<^verbatim>\<open>mess/\<close>, the envelope to \<^verbatim>\<open>intd/\<close>, and the link \<^verbatim>\<open>todo/\<close> to the latter announces them.
  The state holds the sequence of the changes made to the file system, oldest first; \<open>qs_fail n\<close> says
  that the \<open>n\<close>-th call fails, \<open>qs_part n\<close> how far it came before it failed, \<open>qs_spill n\<close> how much of the buffer of
  \<^verbatim>\<open>substdio\<close> a \<^verbatim>\<open>put\<close> has to write out, \<open>qs_alarm\<close> after how many changes the timer expires, if it does.
  Header rewriting (\<^verbatim>\<open>removeheaders\<close>, \<^verbatim>\<open>envheaders\<close>, \<^verbatim>\<open>logheaders\<close>), virus scanning, archiving and \<^verbatim>\<open>X-Originating-IP\<close> are
  not configured, memory suffices, and the writes of \<^verbatim>\<open>custom_error\<close> do not fail.
\<close>

section \<open>The file system as a sequence of changes\<close>

datatype qname = QPid nat | QMess | QIntd | QTodo | QInfo | QChan nat

datatype qop = QOpen qname | QLink qname qname | QUnlink qname | QAppend qname bytes | QFsync qname | QTrunc qname | QTrigger
  | QAsk qname   \<comment> \<open>\<^verbatim>\<open>todo-proc\<close> asks \<^verbatim>\<open>qmail-clean\<close> to remove the file\<close>
  | QUnsynced    \<comment> \<open>the directory of the change just made could not be synced, the call failed\<close>

text \<open>What a process sees of the operating system; each process adds its own variables.\<close>

record osys =
  qs_fail :: "nat \<Rightarrow> bool"
  qs_part :: "nat \<Rightarrow> nat"
  qs_spill :: "nat \<Rightarrow> nat"
  qs_calls :: nat
  qs_trace :: "qop list"

record qqs = osys +
  qs_out :: qname             \<comment> \<open>the file of \<^verbatim>\<open>ssout\<close>\<close>
  qs_buf :: bytes             \<comment> \<open>what \<^verbatim>\<open>ssout\<close> holds back\<close>
  qs_mademess :: bool
  qs_madeintd :: bool
  qs_extra :: bytes           \<comment> \<open>\<^verbatim>\<open>qqehextra\<close>\<close>
  qs_exit :: "nat option"
  qs_custom :: bytes          \<comment> \<open>what \<^verbatim>\<open>custom_error\<close> wrote\<close>
  qs_alarm :: "nat option"    \<comment> \<open>the timer expires after so many changes\<close>

text \<open>
  What a call that fails leaves behind, \<open>k\<close> saying how far it came. \<^verbatim>\<open>open\<close>, \<^verbatim>\<open>link\<close> and \<^verbatim>\<open>unlink\<close> are those of
  \<^verbatim>\<open>syncdir.c\<close>, which sync the directory after the change (with \<^verbatim>\<open>USE_SYNCDIR\<close> in the environment) and return -1 when this
  fails, although the change has been made. A write may have written some of its bytes.
\<close>

definition failed_op :: "nat \<Rightarrow> qop \<Rightarrow> qop list" where
  "failed_op k op =
     (if k = 0 then []
      else case op of
             QOpen n \<Rightarrow> [op, QUnsynced]
           | QLink n m \<Rightarrow> [op, QUnsynced]
           | QUnlink n \<Rightarrow> [op, QUnsynced]
           | QAppend n b \<Rightarrow> [QAppend n (take k b)]
           | _ \<Rightarrow> [])"

text \<open>A system call that changes the file system when it succeeds.\<close>

definition sys :: "qop \<Rightarrow> 'a osys_scheme \<Rightarrow> bool \<times> 'a osys_scheme" where
  "sys op s =
     (let s1 = s\<lparr>qs_calls := qs_calls s + 1\<rparr>
      in if qs_fail s (qs_calls s) then (False, s1\<lparr>qs_trace := qs_trace s1 @ failed_op (qs_part s (qs_calls s)) op\<rparr>)
         else (True, s1\<lparr>qs_trace := qs_trace s1 @ [op]\<rparr>))"

text \<open>Once the process has exited nothing happens any more.\<close>

definition alive :: "qqs \<Rightarrow> bool" where
  "alive s \<longleftrightarrow> qs_exit s = None"

definition steps :: "(qqs \<Rightarrow> qqs) list \<Rightarrow> qqs \<Rightarrow> qqs" where
  "steps fs = fold (\<lambda>f s. if alive s then f s else s) fs"

section \<open>Configuration\<close>

record qqconf =
  qc_uid :: nat
  qc_pid :: nat
  qc_received :: bytes
  qc_customerr :: bool
  qc_errno :: bytes                \<comment> \<open>the text of the system error, empty when there is none\<close>
  qc_extraqueue :: "bytes list"
  qc_quarantine :: bytes
  qc_qqeh :: bytes                 \<comment> \<open>empty: not set\<close>
  qc_sync :: bool                  \<comment> \<open>\<^verbatim>\<open>USE_FSYNC\<close> or \<^verbatim>\<open>USE_FDATASYNC\<close> in the environment\<close>

definition ADDR :: nat where "ADDR = 1003"
definition QQ_ENVELOPE_TOO_LONG :: nat where "QQ_ENVELOPE_TOO_LONG = 11"
definition QQ_TIMEOUT :: nat where "QQ_TIMEOUT = 52"
definition QQ_WRITE_ERR :: nat where "QQ_WRITE_ERR = 53"
definition QQ_READ_ERR :: nat where "QQ_READ_ERR = 54"
definition QQ_MESS_FILE :: nat where "QQ_MESS_FILE = 62"
definition QQ_FSYNC_ERR :: nat where "QQ_FSYNC_ERR = 64"
definition QQ_INTD_FILE :: nat where "QQ_INTD_FILE = 65"
definition QQ_LINK_TODO_INTD :: nat where "QQ_LINK_TODO_INTD = 66"
definition QQ_LINK_MESS_PID :: nat where "QQ_LINK_MESS_PID = 67"
definition QQ_PID_FILE :: nat where "QQ_PID_FILE = 70"
definition QQ_ENVELOPE_FMT_ERR :: nat where "QQ_ENVELOPE_FMT_ERR = 79"
definition QQ_REMOVE_PID_ERR :: nat where "QQ_REMOVE_PID_ERR = 83"
definition QQ_CUSTOM_ERR :: nat where "QQ_CUSTOM_ERR = 88"

lemmas qq_codes = QQ_ENVELOPE_TOO_LONG_def QQ_WRITE_ERR_def QQ_READ_ERR_def QQ_MESS_FILE_def QQ_FSYNC_ERR_def
  QQ_INTD_FILE_def QQ_LINK_TODO_INTD_def QQ_LINK_MESS_PID_def QQ_PID_FILE_def QQ_ENVELOPE_FMT_ERR_def
  QQ_REMOVE_PID_ERR_def QQ_CUSTOM_ERR_def QQ_TIMEOUT_def

section \<open>The end of the process\<close>

text \<open>\<^verbatim>\<open>custom_error\<close> of \<^verbatim>\<open>custom_error.c\<close>, its text; \<open>code\<close> is e.g. \<^verbatim>\<open>X.3.0\<close>.\<close>

definition custom_error :: "bytes \<Rightarrow> bytes \<Rightarrow> bytes \<Rightarrow> bytes \<Rightarrow> bytes \<Rightarrow> bytes" where
  "custom_error program typ message extra code =
     take 1 typ @ program @ '': '' @ message @ (if extra \<noteq> [] then '': '' @ extra else [])
     @ '' (#'' @ (if take 1 typ = ''D'' then ''5'' else ''4'') @ take 4 (drop 1 code) @ '')''"

definition cleanup :: "qqs \<Rightarrow> qqs" where
  "cleanup s =
     (let s1 = (if qs_madeintd s then snd (sys (QUnlink QIntd) (snd (sys (QTrunc QIntd) s))) else s)
      in if qs_mademess s1 then snd (sys (QUnlink QMess) (snd (sys (QTrunc QMess) s1))) else s1)"

definition die :: "qqconf \<Rightarrow> nat \<Rightarrow> bool \<Rightarrow> bytes \<Rightarrow> qqs \<Rightarrow> qqs" where
  "die cf e do_cleanup str s =
     (let s1 = (if do_cleanup then cleanup s else s)
      in if qc_customerr cf then
           s1\<lparr>qs_exit := Some QQ_CUSTOM_ERR,
              qs_custom := custom_error ''qmail-queue'' ''Z'' str (qc_errno cf) ''X.3.0''\<rparr>
         else s1\<lparr>qs_exit := Some e\<rparr>)"

text \<open>A call whose failure ends the process.\<close>

definition must :: "qqconf \<Rightarrow> nat \<Rightarrow> bool \<Rightarrow> bytes \<Rightarrow> qop \<Rightarrow> qqs \<Rightarrow> qqs" where
  "must cf e do_cleanup str op s =
     (case sys op s of (True, s1) \<Rightarrow> s1 | (False, s1) \<Rightarrow> die cf e do_cleanup str s1)"

section \<open>Buffered output\<close>

text \<open>
  \<^verbatim>\<open>substdio_bput\<close> and \<^verbatim>\<open>substdio_put\<close>: the bytes go to the buffer, of which the call may write out the
  first bytes. \<^verbatim>\<open>substdio_flush\<close> writes out the rest.
\<close>

definition bput :: "qqconf \<Rightarrow> bytes \<Rightarrow> bytes \<Rightarrow> qqs \<Rightarrow> qqs" where
  "bput cf str b s =
     (let d = qs_buf s @ b; k = qs_spill s (qs_calls s)
      in case sys (QAppend (qs_out s) (take k d)) s of
           (True, s1) \<Rightarrow> s1\<lparr>qs_buf := drop k d\<rparr>
         | (False, s1) \<Rightarrow> die cf QQ_WRITE_ERR True str s1)"

definition bflush :: "qqconf \<Rightarrow> bytes \<Rightarrow> qqs \<Rightarrow> qqs" where
  "bflush cf str s =
     (case sys (QAppend (qs_out s) (qs_buf s)) s of
        (True, s1) \<Rightarrow> s1\<lparr>qs_buf := []\<rparr>
      | (False, s1) \<Rightarrow> die cf QQ_WRITE_ERR True str s1)"

abbreviation wmsg :: bytes where "wmsg \<equiv> ''trouble writing message''"
abbreviation wenv :: bytes where "wenv \<equiv> ''trouble writing envelope''"

section \<open>The files\<close>

text \<open>\<^verbatim>\<open>pidopen\<close>: nine names are tried.\<close>

fun pidopen_loop :: "qqconf \<Rightarrow> nat \<Rightarrow> nat \<Rightarrow> qqs \<Rightarrow> nat \<times> qqs" where
  "pidopen_loop cf 0 seq s = (seq, die cf QQ_PID_FILE False ''trouble creating pid file'' s)"
| "pidopen_loop cf (Suc n) seq s =
     (case sys (QOpen (QPid seq)) s of
        (True, s1) \<Rightarrow> (seq, s1)
      | (False, s1) \<Rightarrow> pidopen_loop cf n (seq + 1) s1)"

text \<open>
  From \<^verbatim>\<open>pidopen\<close> to the name under \<^verbatim>\<open>mess/\<close>. The \<^verbatim>\<open>fstat\<close> changes nothing; it is a call that can fail
  (\<open>qs_fail\<close> is asked).
\<close>

definition fstat_ok :: "qqs \<Rightarrow> bool \<times> qqs" where
  "fstat_ok s = (\<not> qs_fail s (qs_calls s), s\<lparr>qs_calls := qs_calls s + 1\<rparr>)"

definition link_mess :: "qqconf \<Rightarrow> nat \<Rightarrow> qqs \<Rightarrow> qqs" where
  "link_mess cf seq s =
     (case sys (QLink (QPid seq) QMess) s of
        (False, s1) \<Rightarrow>
          die cf QQ_LINK_MESS_PID False ''trouble linking messfn to pidfn'' (snd (sys (QUnlink (QPid seq)) s1))
      | (True, s1) \<Rightarrow>
          (case sys (QUnlink (QPid seq)) s1 of
             (False, s2) \<Rightarrow>
               die cf QQ_REMOVE_PID_ERR False ''trouble unlinking pid file'' (snd (sys (QUnlink QMess) s2))
           | (True, s2) \<Rightarrow> s2\<lparr>qs_mademess := True, qs_out := QMess, qs_buf := []\<rparr>))"

definition open_mess :: "qqconf \<Rightarrow> qqs \<Rightarrow> qqs" where
  "open_mess cf s =
     (case pidopen_loop cf 9 1 s of (seq, s1) \<Rightarrow>
        if \<not> alive s1 then s1
        else case fstat_ok s1 of
               (False, s2) \<Rightarrow> die cf QQ_MESS_FILE False ''unable to stat messfn'' s2
             | (True, s2) \<Rightarrow> link_mess cf seq s2)"

text \<open>The message: \<open>None\<close> is a failed \<^verbatim>\<open>read\<close> (\<^verbatim>\<open>substdio_copy\<close> is -2).\<close>

fun copy_body :: "qqconf \<Rightarrow> bytes option list \<Rightarrow> qqs \<Rightarrow> qqs" where
  "copy_body cf [] s = s"
| "copy_body cf (r # rs) s =
     (if \<not> alive s then s
      else case r of
             None \<Rightarrow> die cf QQ_READ_ERR True ''trouble reading message'' s
           | Some b \<Rightarrow> copy_body cf rs (bput cf wmsg b s))"

definition open_intd :: "qqconf \<Rightarrow> qqs \<Rightarrow> qqs" where
  "open_intd cf s =
     (case sys (QOpen QIntd) s of
        (False, s1) \<Rightarrow> die cf QQ_INTD_FILE True ''trouble creating files in intd'' s1
      | (True, s1) \<Rightarrow> s1\<lparr>qs_madeintd := True, qs_out := QIntd, qs_buf := []\<rparr>)"

section \<open>The envelope\<close>

text \<open>
  One address: \<open>n\<close> bytes are left of \<^verbatim>\<open>ADDR\<close>. \<open>quar\<close> tells that the recipients go to \<^verbatim>\<open>qqehextra\<close>
  instead of the file. The rest of the stream is returned.
\<close>

fun copy_addr :: "qqconf \<Rightarrow> bool \<Rightarrow> nat \<Rightarrow> bytes \<Rightarrow> qqs \<Rightarrow> bytes \<times> qqs" where
  "copy_addr cf quar 0 inp s = (inp, die (cf\<lparr>qc_errno := []\<rparr>) QQ_ENVELOPE_TOO_LONG True ''envelope address too long'' s)"
| "copy_addr cf quar (Suc n) [] s = ([], die cf QQ_READ_ERR True ''trouble reading envelope'' s)"
| "copy_addr cf quar (Suc n) (ch # inp) s =
     (let s1 = (if quar then (if ch \<noteq> NUL then s\<lparr>qs_extra := qs_extra s @ [ch]\<rparr> else s) else bput cf wenv [ch] s)
      in if \<not> alive s1 \<or> ch = NUL then (inp, s1) else copy_addr cf quar n inp s1)"

lemma copy_addr_rest: "length (fst (copy_addr cf quar n inp s)) \<le> length inp"
  by (induction cf quar n inp s rule: copy_addr.induct) (auto simp: Let_def le_SucI)

function copy_rcpts :: "qqconf \<Rightarrow> bool \<Rightarrow> bytes \<Rightarrow> qqs \<Rightarrow> qqs" where
  "copy_rcpts cf quar [] s = die cf QQ_READ_ERR True ''trouble reading envelope'' s"
| "copy_rcpts cf quar (ch # inp) s =
     (if ch = NUL \<or> ch = CHR ''Q'' then s
      else if ch \<noteq> CHR ''T'' then die (cf\<lparr>qc_errno := []\<rparr>) QQ_ENVELOPE_FMT_ERR True ''envelope format error'' s
      else
        let s1 = (if quar then s\<lparr>qs_extra := qs_extra s @ '',''\<rparr> else bput cf wenv [ch] s);
            r = copy_addr cf quar ADDR inp s1
        in if \<not> alive s1 then s1
           else if \<not> alive (snd r) then snd r
           else copy_rcpts cf quar (fst r) (snd r))"
  by pat_completeness auto
termination
  by (relation "measure (\<lambda>(cf, quar, inp, s). length inp)") (auto simp: le_imp_less_Suc copy_addr_rest case_prod_beta)

definition copy_sender :: "qqconf \<Rightarrow> bytes \<Rightarrow> qqs \<Rightarrow> bytes \<times> qqs" where
  "copy_sender cf env s =
     (case env of
        [] \<Rightarrow> ([], die cf QQ_READ_ERR True ''trouble reading envelope'' s)
      | ch # inp \<Rightarrow>
          if ch \<noteq> CHR ''F'' then (inp, die (cf\<lparr>qc_errno := []\<rparr>) QQ_ENVELOPE_FMT_ERR True ''envelope format error'' s)
          else
            let s1 = bput cf wenv [ch] s
            in if \<not> alive s1 then (inp, s1) else copy_addr cf False ADDR inp s1)"

definition put_record :: "qqconf \<Rightarrow> bytes \<Rightarrow> bytes \<Rightarrow> qqs \<Rightarrow> qqs" where
  "put_record cf letter b = steps [bput cf wenv letter, bput cf wenv b, bput cf wenv [NUL]]"

text \<open>The extra recipients, the quarantine address, and the header for \<^verbatim>\<open>qmail-remote\<close>.\<close>

definition put_extra :: "qqconf \<Rightarrow> qqs \<Rightarrow> qqs" where
  "put_extra cf = steps (map (\<lambda>r. put_record cf ''T'' r) (qc_extraqueue cf))"

definition put_quarantine :: "qqconf \<Rightarrow> qqs \<Rightarrow> qqs" where
  "put_quarantine cf s =
     (if qc_quarantine cf = [] then s
      else steps [put_record cf ''T'' (qc_quarantine cf),
                  \<lambda>s. s\<lparr>qs_extra := qs_extra s @ ''X-Quarantine-ID: '' @ qc_quarantine cf\<rparr>] s)"

definition qqeh_text :: "qqconf \<Rightarrow> bytes" where
  "qqeh_text cf = (let q = cstr (qc_qqeh cf) in if q = [] then [] else if last q = LF then q else q @ [LF])"

definition put_qqeh :: "qqconf \<Rightarrow> qqs \<Rightarrow> qqs" where
  "put_qqeh cf s =
     (let s1 = (if qc_quarantine cf \<noteq> [] then s\<lparr>qs_extra := qs_extra s @ [LF]\<rparr> else s)
      in if qqeh_text cf = [] \<and> qs_extra s1 = [] then s1
         else steps [bput cf wenv ''e'', bput cf wenv (qs_extra s1), bput cf wenv (qqeh_text cf), bput cf wenv [NUL]] s1)"

section \<open>The whole\<close>

definition sync_files :: "qqconf \<Rightarrow> qqs \<Rightarrow> qqs" where
  "sync_files cf =
     (if qc_sync cf then
        steps [must cf QQ_FSYNC_ERR True ''trouble syncing message to disk'' (QFsync QMess),
               must cf QQ_FSYNC_ERR True ''trouble syncing message to disk'' (QFsync QIntd)]
      else id)"

definition write_mess :: "qqconf \<Rightarrow> bytes option list \<Rightarrow> qqs \<Rightarrow> qqs" where
  "write_mess cf body = steps
     [open_mess cf, bput cf wmsg (qc_received cf), copy_body cf body, bflush cf wmsg]"

definition write_intd :: "libq \<Rightarrow> qqconf \<Rightarrow> bytes \<Rightarrow> qqs \<Rightarrow> qqs" where
  "write_intd L cf env s =
     (let s1 = steps [open_intd cf, put_record cf ''u'' (lq_fmt_ulong L (qc_uid cf)),
                      put_record cf ''p'' (lq_fmt_ulong L (qc_pid cf))] s;
          (rest, s2) = (if alive s1 then copy_sender cf env s1 else ([], s1))
      in steps [put_extra cf, put_quarantine cf, copy_rcpts cf (qc_quarantine cf \<noteq> []) rest, put_qqeh cf, bflush cf wenv] s2)"

text \<open>\<^verbatim>\<open>sigalrm\<close>: the process ends where the timer finds it, between two changes or inside a call, and removes nothing.\<close>

definition timer :: "qqconf \<Rightarrow> nat option \<Rightarrow> qqs \<Rightarrow> qqs" where
  "timer cf alarm r =
     (case alarm of
        None \<Rightarrow> r
      | Some k \<Rightarrow>
          if length (qs_trace r) < k then r
          else die (cf\<lparr>qc_errno := []\<rparr>) QQ_TIMEOUT False ''timer expired'' (r\<lparr>qs_trace := take k (qs_trace r)\<rparr>))"

text \<open>
  \<open>body\<close> is what the reads of the message return, \<open>env\<close> the envelope up to the end of the stream. The run without the timer is
  \<open>queue_run\<close>.
\<close>

definition queue_run :: "libq \<Rightarrow> qqconf \<Rightarrow> bytes option list \<Rightarrow> bytes \<Rightarrow> qqs \<Rightarrow> qqs" where
  "queue_run L cf body env = steps
     [write_mess cf body, write_intd L cf env, sync_files cf,
      must cf QQ_LINK_TODO_INTD True ''trouble linking todofn to intdfn'' (QLink QIntd QTodo),
      \<lambda>s. (snd (sys QTrigger s))\<lparr>qs_exit := Some 0\<rparr>]"

definition qmail_queue :: "libq \<Rightarrow> qqconf \<Rightarrow> bytes option list \<Rightarrow> bytes \<Rightarrow> qqs \<Rightarrow> qqs" where
  "qmail_queue L cf body env s = timer cf (qs_alarm s) (queue_run L cf body env s)"

definition qq_start :: "(nat \<Rightarrow> bool) \<Rightarrow> (nat \<Rightarrow> nat) \<Rightarrow> (nat \<Rightarrow> nat) \<Rightarrow> nat option \<Rightarrow> qqs" where
  "qq_start fail part spill alarm =
     \<lparr>qs_fail = fail, qs_part = part, qs_spill = spill, qs_calls = 0, qs_trace = [], qs_out = QMess, qs_buf = [], qs_mademess = False,
      qs_madeintd = False, qs_extra = [], qs_exit = None, qs_custom = [], qs_alarm = alarm\<rparr>"

end
