(* ===== verification/TodoProc.thy ===== *)
theory TodoProc
  imports QmailQueue
begin

text \<open>
  \<^verbatim>\<open>indimail-mta-x/todo-proc.c\<close>: how a message announced by \<^verbatim>\<open>qmail-queue\<close> is taken over. The envelope in
  \<^verbatim>\<open>todo/id\<close> (the file that \<^verbatim>\<open>qmail-queue\<close> wrote as \<^verbatim>\<open>intd/id\<close>) is split into \<^verbatim>\<open>info/id\<close> (sender, extra
  headers), \<^verbatim>\<open>local/id\<close> and \<^verbatim>\<open>remote/id\<close> (recipients, rewritten); then \<^verbatim>\<open>qmail-clean\<close> is asked to remove the
  envelope, and the message is announced to \<^verbatim>\<open>qmail-send\<close>. Memory suffices.
\<close>

section \<open>rewrite\<close>

text \<open>
  The control files: \<^verbatim>\<open>constmap\<close> is a lookup of the external library. The domains of \<^verbatim>\<open>locals\<close> and
  \<^verbatim>\<open>percenthack\<close>, and \<^verbatim>\<open>virtualdomains\<close> with its strings.
\<close>

record routes =
  rt_locals :: "bytes \<Rightarrow> bool"
  rt_hack :: "bytes \<Rightarrow> bool"
  rt_vdoms :: "bytes \<Rightarrow> bytes option"
  rt_noathost :: bytes                  \<comment> \<open>\<^verbatim>\<open>envnoathost\<close>\<close>

text \<open>
  The loop of the percent hack: \<^verbatim>\<open>i\<close> is the position of the at sign. \<^verbatim>\<open>byte_rchr\<close> answers \<^verbatim>\<open>i\<close> when there
  is no percent sign before it, and never more.
\<close>

function percent_hack :: "libq \<Rightarrow> (bytes \<Rightarrow> bool) \<Rightarrow> bytes \<Rightarrow> nat \<Rightarrow> bytes" where
  "percent_hack L hack addr i =
     (if hack (drop (i + 1) addr) then
        let j = lq_rchr L (take i addr) (CHR ''%'')
        in if j < i then percent_hack L hack ((take i addr)[j := CHR ''@'']) j else addr
      else addr)"
  by pat_completeness auto
termination
  by (relation "measure (\<lambda>(L, hack, addr, i). i)") auto

declare percent_hack.simps [simp del]

text \<open>The loop over the suffixes of the address: the first that \<^verbatim>\<open>virtualdomains\<close> knows decides.\<close>

definition vdom_at :: "bytes \<Rightarrow> nat \<Rightarrow> nat \<Rightarrow> bool" where
  "vdom_at addr at i \<longleftrightarrow> i = 0 \<or> i = at + 1 \<or> i = length addr \<or> (at < i \<and> addr ! i = CHR ''.'')"

fun vdom_find :: "(bytes \<Rightarrow> bytes option) \<Rightarrow> bytes \<Rightarrow> nat \<Rightarrow> nat list \<Rightarrow> bytes option" where
  "vdom_find vdoms addr at [] = None"
| "vdom_find vdoms addr at (i # is) =
     (if vdom_at addr at i then
        (case vdoms (drop i addr) of
           Some x \<Rightarrow> if x = [] then None else Some x
         | None \<Rightarrow> vdom_find vdoms addr at is)
      else vdom_find vdoms addr at is)"

text \<open>1 by land, 2 by sea, and \<^verbatim>\<open>rwline\<close>.\<close>

definition rewrite :: "libq \<Rightarrow> routes \<Rightarrow> bytes \<Rightarrow> nat \<times> bytes" where
  "rewrite L rt recip =
     (let addr0 = cstr recip;
          i = lq_rchr L addr0 (CHR ''@'');
          addr1 = (if i = length addr0 then addr0 @ ''@'' @ rt_noathost rt else addr0);
          addr = percent_hack L (rt_hack rt) addr1 i;
          at = lq_rchr L addr (CHR ''@'')
      in if rt_locals rt (drop (at + 1) addr) then (1, ''T'' @ addr @ [NUL])
         else case vdom_find (rt_vdoms rt) addr at [0..<length addr + 1] of
                Some x \<Rightarrow> (1, ''T'' @ x @ ''-'' @ addr @ [NUL])
              | None \<Rightarrow> (2, ''T'' @ addr @ [NUL]))"

section \<open>State\<close>

record todop = osys +
  tp_bufs :: "qname \<Rightarrow> bytes"      \<comment> \<open>what \<^verbatim>\<open>ssinfo\<close> and \<^verbatim>\<open>sschan\<close> hold back\<close>
  tp_open :: "nat \<Rightarrow> bool"         \<comment> \<open>\<^verbatim>\<open>fdchan[c] != -1\<close>\<close>
  tp_flag :: "nat \<Rightarrow> bool"         \<comment> \<open>\<^verbatim>\<open>flagchan\<close>\<close>
  tp_uid :: nat
  tp_pid :: nat
  tp_mailfrom :: bytes
  tp_mailto :: bytes
  tp_comm :: bytes                 \<comment> \<open>\<^verbatim>\<open>comm_buf\<close>\<close>
  tp_count :: nat                  \<comment> \<open>\<^verbatim>\<open>comm_count\<close>\<close>
  tp_logs :: "(bool \<times> bytes \<times> bytes) list"  \<comment> \<open>lines of \<^verbatim>\<open>log_stat\<close>: local, sender, recipient\<close>
  tp_exit :: bool                  \<comment> \<open>\<^verbatim>\<open>flagexittodo\<close>\<close>

record todoconf =
  tc_routes :: routes
  tc_desc :: bytes                 \<comment> \<open>\<^verbatim>\<open>queuedesc\<close>\<close>
  tc_sync :: bool                  \<comment> \<open>\<^verbatim>\<open>USE_FSYNC\<close> or \<^verbatim>\<open>USE_FDATASYNC\<close> in the environment\<close>
  tc_detached :: bool              \<comment> \<open>\<^verbatim>\<open>flagdetached\<close>\<close>

text \<open>Operations that may \<^verbatim>\<open>goto fail\<close>.\<close>

type_synonym tstep = "todop step"

text \<open>A call that can fail and changes no file.\<close>

definition t_try :: tstep where
  "t_try s = (\<not> qs_fail s (qs_calls s), s\<lparr>qs_calls := qs_calls s + 1\<rparr>)"

definition t_put :: "qname \<Rightarrow> bytes \<Rightarrow> tstep" where
  "t_put n b s =
     (let d = tp_bufs s n @ b; k = qs_spill s (qs_calls s)
      in case sys (QAppend n (take k d)) s of
           (True, s1) \<Rightarrow> (True, s1\<lparr>tp_bufs := (tp_bufs s1)(n := drop k d)\<rparr>)
         | (False, s1) \<Rightarrow> (False, s1))"

definition t_flush :: "qname \<Rightarrow> tstep" where
  "t_flush n s =
     (case sys (QAppend n (tp_bufs s n)) s of
        (True, s1) \<Rightarrow> (True, s1\<lparr>tp_bufs := (tp_bufs s1)(n := [])\<rparr>)
      | (False, s1) \<Rightarrow> (False, s1))"

section \<open>What is told to qmail-send\<close>

definition todo_issafe :: "char \<Rightarrow> bool" where
  "todo_issafe ch \<longleftrightarrow> \<not> (ch = CHR ''%'' \<or> schar ch < 33 \<or> schar ch > 126)"

definition todo_letter :: "bool \<Rightarrow> bool \<Rightarrow> char" where
  "todo_letter local remote =
     (if local \<and> remote then CHR ''B'' else if local then CHR ''L'' else if remote then CHR ''R'' else CHR ''X'')"

definition todo_comm_write :: "libq \<Rightarrow> todoconf \<Rightarrow> nat \<Rightarrow> todop \<Rightarrow> todop" where
  "todo_comm_write L cf i s =
     (if tc_detached cf then s
      else s\<lparr>tp_comm := tp_comm s @ ''D'' @ [todo_letter (tp_flag s 0) (tp_flag s 1)] @ lq_fmt_ulong L i @ [NUL]\<rparr>)"

definition todo_comm_info :: "libq \<Rightarrow> todoconf \<Rightarrow> nat \<Rightarrow> nat \<Rightarrow> bytes \<Rightarrow> todop \<Rightarrow> todop" where
  "todo_comm_info L cf i sz from s =
     s\<lparr>tp_count := tp_count s + 1,
       tp_comm := tp_comm s @ ''Linfo msg '' @ lq_fmt_ulong L i @ '': bytes '' @ lq_fmt_ulong L sz @ '' from <''
         @ map (\<lambda>ch. if ch = LF then CHR ''/'' else if \<not> todo_issafe ch then CHR ''_'' else ch) (cstr from)
         @ ''> qp '' @ lq_fmt_ulong L (tp_pid s) @ '' uid '' @ lq_fmt_ulong L (tp_uid s) @ '' '' @ cstr (tc_desc cf) @ [LF, NUL]\<rparr>"

text \<open>\<^verbatim>\<open>mailto\<close> is a sequence of \<^verbatim>\<open>L\<close> or \<^verbatim>\<open>R\<close>, the record and a NUL.\<close>

function log_lines :: "bytes \<Rightarrow> bytes \<Rightarrow> (bool \<times> bytes \<times> bytes) list" where
  "log_lines from [] = []"
| "log_lines from (c # m) =
     (let l = cstr (c # m)
      in (c = CHR ''L'', from, if drop 2 l = [] then ''<>'' else drop 2 l) # log_lines from (drop (length l + 1) (c # m)))"
  by pat_completeness auto
termination
  by (relation "measure (\<lambda>(from, m). length m)") auto

definition log_stat :: "todop \<Rightarrow> todop" where
  "log_stat s =
     s\<lparr>tp_logs := tp_logs s @ log_lines (if length (tp_mailfrom s) > 3 then cstr (tl (tp_mailfrom s)) else ''<>'') (tp_mailto s),
       tp_mailfrom := [], tp_mailto := []\<rparr>"

section \<open>The records of the envelope\<close>

definition open_chan :: "nat \<Rightarrow> tstep" where
  "open_chan c s =
     (if tp_open s c then (True, s)
      else case sys (QOpen (QChan c)) s of
             (False, s1) \<Rightarrow> (False, s1)
           | (True, s1) \<Rightarrow> (True, s1\<lparr>tp_open := (tp_open s1)(c := True), tp_flag := (tp_flag s1)(c := True),
                                  tp_bufs := (tp_bufs s1)(QChan c := [])\<rparr>))"

definition todo_rcpt :: "libq \<Rightarrow> todoconf \<Rightarrow> bytes \<Rightarrow> tstep" where
  "todo_rcpt L cf l s =
     (let (code, rwline) = rewrite L (tc_routes cf) (tl l);
          c = (if code = 2 then 1 else 0)
      in all_do [open_chan c, t_put (QChan c) rwline]
           (s\<lparr>tp_mailto := tp_mailto s @ (if c = 1 then ''R'' else ''L'') @ l @ [NUL]\<rparr>))"

text \<open>\<open>l\<close> is the record without its NUL, \<open>sz\<close> the size of the message.\<close>

definition todo_record :: "libq \<Rightarrow> todoconf \<Rightarrow> nat \<Rightarrow> nat \<Rightarrow> bytes \<Rightarrow> tstep" where
  "todo_record L cf i sz l s =
     (case l of
        [] \<Rightarrow> (False, s)
      | t # arg \<Rightarrow>
          if t = CHR ''u'' then (True, s\<lparr>tp_uid := snd (lq_scan_ulong L arg)\<rparr>)
          else if t = CHR ''p'' then (True, s\<lparr>tp_pid := snd (lq_scan_ulong L arg)\<rparr>)
          else if t = CHR ''h'' \<or> t = CHR ''e'' then t_put QInfo (l @ [NUL]) s
          else if t = CHR ''F'' then
            (case t_put QInfo (l @ [NUL]) s of
               (False, s1) \<Rightarrow> (False, s1)
             | (True, s1) \<Rightarrow> (True, todo_comm_info L cf i sz arg (s1\<lparr>tp_mailfrom := l @ [NUL, NUL]\<rparr>)))
          else if t = CHR ''T'' then todo_rcpt L cf l s
          else (False, s))"

function todo_records :: "libq \<Rightarrow> todoconf \<Rightarrow> nat \<Rightarrow> nat \<Rightarrow> bytes \<Rightarrow> tstep" where
  "todo_records L cf i sz d s =
     (case t_try s of
        (False, s1) \<Rightarrow> (False, s1)
      | (True, s1) \<Rightarrow>
          (case read_record d of
             None \<Rightarrow> (True, s1)
           | Some (l, d') \<Rightarrow>
               (case todo_record L cf i sz l s1 of
                  (False, s2) \<Rightarrow> (False, s2)
                | (True, s2) \<Rightarrow> todo_records L cf i sz d' s2)))"
  by pat_completeness auto
termination
  by (relation "measure (\<lambda>(L, cf, i, sz, d, s). length d)") (auto dest: read_record_length)

declare todo_records.simps [simp del]

section \<open>The whole\<close>

text \<open>\<^verbatim>\<open>unlink\<close>, which may also find nothing to remove.\<close>

definition t_sys :: "qop \<Rightarrow> tstep" where
  "t_sys op s = sys op s"

definition flush_chan :: "nat \<Rightarrow> tstep" where
  "flush_chan c s = (if tp_open s c then t_flush (QChan c) s else (True, s))"

definition sync_chan :: "bool \<Rightarrow> nat \<Rightarrow> tstep" where
  "sync_chan sync c s =
     (if tp_open s c then
        (case (if sync then t_sys (QFsync (QChan c)) s else (True, s)) of
           (False, s1) \<Rightarrow> (False, s1)
         | (True, s1) \<Rightarrow> (True, s1\<lparr>tp_open := (tp_open s1)(c := False)\<rparr>))
      else (True, s))"

text \<open>
  The answer of \<^verbatim>\<open>qmail-clean\<close>; \<open>None\<close> when a call failed or the pipe was closed. The request and its answer are one
  call that may fail.
\<close>

definition todo_cleandied :: "todop \<Rightarrow> todop" where
  "todo_cleandied s = s\<lparr>tp_exit := True, tp_comm := tp_comm s @ ''X'' @ [NUL]\<rparr>"

definition ask_removal :: "char option \<Rightarrow> tstep" where
  "ask_removal ans s =
     (case sys (QAsk QTodo) s of
        (False, s1) \<Rightarrow> (False, todo_cleandied s1)
      | (True, s1) \<Rightarrow>
          (case ans of
             None \<Rightarrow> (False, todo_cleandied s1)
           | Some ch \<Rightarrow> (ch = CHR ''+'', s1)))"

definition todo_prepare :: tstep where
  "todo_prepare s =
     all_do [t_try, t_try, t_sys (QUnlink (QChan 0)), t_sys (QUnlink (QChan 1)), t_sys (QUnlink QInfo), t_sys (QOpen QInfo)]
       (s\<lparr>tp_open := \<lambda>_. False\<rparr>)"

definition todo_split :: "libq \<Rightarrow> todoconf \<Rightarrow> nat \<Rightarrow> nat \<Rightarrow> bytes \<Rightarrow> tstep" where
  "todo_split L cf i sz d =
     all_do [todo_prepare,
       \<lambda>s. todo_records L cf i sz d
             (s\<lparr>tp_flag := \<lambda>_. False, tp_bufs := (tp_bufs s)(QInfo := []), tp_uid := 0, tp_pid := 0\<rparr>),
       t_flush QInfo, flush_chan 0, flush_chan 1,
       if tc_sync cf then t_sys (QFsync QInfo) else Pair True,
       sync_chan (tc_sync cf) 0, sync_chan (tc_sync cf) 1]"

text \<open>
  \<open>i\<close>: the message, \<open>sz\<close>: its size, \<open>d\<close>: the contents of \<^verbatim>\<open>todo/id\<close>. The result says whether the message was taken over;
  it is then announced unless the process is detached from \<^verbatim>\<open>qmail-send\<close> (\<open>todo_comm_write\<close>).
\<close>

definition todo_proc_do :: "libq \<Rightarrow> todoconf \<Rightarrow> nat \<Rightarrow> nat \<Rightarrow> bytes \<Rightarrow> char option \<Rightarrow> tstep" where
  "todo_proc_do L cf i sz d ans s =
     (case all_do [todo_split L cf i sz d, ask_removal ans] s of
        (False, s1) \<Rightarrow> (False, s1)
      | (True, s1) \<Rightarrow> (True, log_stat (todo_comm_write L cf i s1)))"

definition tp_start :: "(nat \<Rightarrow> bool) \<Rightarrow> (nat \<Rightarrow> nat) \<Rightarrow> (nat \<Rightarrow> nat) \<Rightarrow> todop" where
  "tp_start fail part spill =
     \<lparr>qs_fail = fail, qs_part = part, qs_spill = spill, qs_calls = 0, qs_trace = [], tp_bufs = (\<lambda>_. []), tp_open = (\<lambda>_. False),
      tp_flag = (\<lambda>_. False), tp_uid = 0, tp_pid = 0, tp_mailfrom = [], tp_mailto = [], tp_comm = [], tp_count = 0,
      tp_logs = [], tp_exit = False\<rparr>"

end
