(* ===== verification/QmailQueueFacts.thy ===== *)
theory QmailQueueFacts
  imports QmailQueue
begin

text \<open>
  What \<^verbatim>\<open>qmail-queue\<close> leaves behind: replaying the changes gives the contents of the files and tells
  what is safe on disk; a message is announced only when both of its files are complete.
\<close>

section \<open>Replay\<close>

fun content_step :: "qname \<Rightarrow> qop \<Rightarrow> bytes \<Rightarrow> bytes" where
  "content_step n (QAppend m b) c = (if m = n then c @ b else c)"
| "content_step n (QTrunc m) c = (if m = n then [] else c)"
| "content_step n (QOpen m) c = (if m = n then [] else c)"
| "content_step n (QLink m m') c = c"
| "content_step n (QUnlink m) c = c"
| "content_step n (QFsync m) c = c"
| "content_step n QTrigger c = c"
| "content_step n (QAsk m) c = c"
| "content_step n QUnsynced c = c"

definition content :: "qname \<Rightarrow> qop list \<Rightarrow> bytes" where
  "content n tr = fold (content_step n) tr []"

fun sync_step :: "qname \<Rightarrow> qop \<Rightarrow> bool \<Rightarrow> bool" where
  "sync_step n (QAppend m b) f = (f \<and> m \<noteq> n)"
| "sync_step n (QTrunc m) f = (f \<and> m \<noteq> n)"
| "sync_step n (QOpen m) f = (f \<and> m \<noteq> n)"
| "sync_step n (QFsync m) f = (f \<or> m = n)"
| "sync_step n (QLink m m') f = f"
| "sync_step n (QUnlink m) f = f"
| "sync_step n QTrigger f = f"
| "sync_step n (QAsk m) f = f"
| "sync_step n QUnsynced f = f"

definition synced :: "qname \<Rightarrow> qop list \<Rightarrow> bool" where
  "synced n tr = fold (sync_step n) tr False"

definition announced :: "qop list \<Rightarrow> bool" where
  "announced tr \<longleftrightarrow> QLink QIntd QTodo \<in> set tr"

lemma replay_snoc [simp]:
  "content n (tr @ [op]) = content_step n op (content n tr)"
  "synced n (tr @ [op]) = sync_step n op (synced n tr)"
  "announced (op # tr) \<longleftrightarrow> op = QLink QIntd QTodo \<or> announced tr"
  "content n (tr @ [op, op']) = content_step n op' (content_step n op (content n tr))"
  "synced n (tr @ [op, op']) = sync_step n op' (sync_step n op (synced n tr))"
  "content n [] = []" "\<not> announced []"
  by (auto simp: content_def synced_def announced_def)

text \<open>A failed call makes at most its own change.\<close>

lemma failed_op_mem [simp]:
  "QLink a b \<in> set (failed_op k op) \<longleftrightarrow> k \<noteq> 0 \<and> op = QLink a b"
  "QAsk n \<notin> set (failed_op k op)"
  by (auto simp: failed_op_def split: qop.splits)

lemma announced_append [simp]: "announced (a @ b) \<longleftrightarrow> announced a \<or> announced b"
  by (auto simp: announced_def)

lemma announced_failed [simp]: "announced (failed_op k op) \<longleftrightarrow> k \<noteq> 0 \<and> op = QLink QIntd QTodo"
  by (simp add: announced_def)

lemma content_failed: "op \<noteq> QOpen n \<Longrightarrow> \<forall>b. op \<noteq> QAppend n b \<Longrightarrow> content n (tr @ failed_op k op) = content n tr"
  by (auto simp: content_def failed_op_def split: qop.splits)

text \<open>The bytes given to \<^verbatim>\<open>ssout\<close>, written or not.\<close>

definition given :: "qqs \<Rightarrow> bytes" where
  "given s = content (qs_out s) (qs_trace s) @ qs_buf s"

section \<open>Steps that write to the current file\<close>

text \<open>Until the link is made the process neither announces the message nor exits with 0.\<close>

definition calm :: "qqs \<Rightarrow> bool" where
  "calm s \<longleftrightarrow> \<not> announced (qs_trace s) \<and> qs_exit s \<noteq> Some 0"

definition gave :: "bytes \<Rightarrow> qqs \<Rightarrow> qqs \<Rightarrow> bool" where
  "gave b s s' \<longleftrightarrow> qs_out s' = qs_out s \<and> given s' = given s @ b \<and> qs_extra s' = qs_extra s
     \<and> (\<forall>n. n \<noteq> qs_out s \<longrightarrow> content n (qs_trace s') = content n (qs_trace s))"

definition gives :: "bytes \<Rightarrow> (qqs \<Rightarrow> qqs) \<Rightarrow> bool" where
  "gives b f \<longleftrightarrow> (\<forall>s. alive s \<longrightarrow> calm s \<longrightarrow> calm (f s) \<and> (alive (f s) \<longrightarrow> gave b s (f s)))"

lemma gave_refl: "gave [] s s"
  by (simp add: gave_def)

lemma gave_trans: "gave a s t \<Longrightarrow> gave b t u \<Longrightarrow> gave (a @ b) s u"
  by (simp add: gave_def)

lemma sys_fields [simp]:
  fixes s :: qqs
  shows "qs_exit (snd (sys op s)) = qs_exit s" "qs_out (snd (sys op s)) = qs_out s" "qs_buf (snd (sys op s)) = qs_buf s"
  "qs_extra (snd (sys op s)) = qs_extra s" "qs_mademess (snd (sys op s)) = qs_mademess s"
  "qs_madeintd (snd (sys op s)) = qs_madeintd s" "qs_custom (snd (sys op s)) = qs_custom s"
  "qs_alarm (snd (sys op s)) = qs_alarm s"
  "qs_trace (snd (sys op s)) = qs_trace s @ (if fst (sys op s) then [op] else failed_op (qs_part s (qs_calls s)) op)"
  by (simp_all add: sys_def Let_def)

lemma content_sys:
  fixes s :: qqs
  assumes "sys op s = (ok, s')" "op \<noteq> QOpen n" "\<forall>b. op \<noteq> QAppend n b" "op \<noteq> QTrunc n"
  shows "content n (qs_trace s') = content n (qs_trace s)"
proof -
  have "content_step n op c = c" for c using assms(2-4) by (cases op) auto
  then show ?thesis
    using sys_fields(9) [of op s] assms(1) content_failed [OF assms(2,3)] by (cases ok) simp_all
qed

lemma extra_sys:
  fixes s :: qqs
  shows "sys op s = (ok, s') \<Longrightarrow> qs_extra s' = qs_extra s"
  using sys_fields(4) [of op s] by simp

lemma calm_sys: "calm s \<Longrightarrow> op \<noteq> QLink QIntd QTodo \<Longrightarrow> calm (snd (sys op s))"
  by (simp add: calm_def)

lemma calm_sysE: "sys op s = (b, s') \<Longrightarrow> calm s \<Longrightarrow> op \<noteq> QLink QIntd QTodo \<Longrightarrow> calm s'"
  using calm_sys [of s op] by simp

lemma calm_cleanup: "calm s \<Longrightarrow> calm (cleanup s)"
  by (simp add: cleanup_def Let_def calm_sys)

lemma calm_die: "calm s \<Longrightarrow> e \<noteq> 0 \<Longrightarrow> calm (die cf e c str s)"
  using calm_cleanup [of s] by (auto simp: die_def Let_def calm_def qq_codes)

lemma dead_die [simp]: "\<not> alive (die cf e c str s)"
  by (simp add: alive_def die_def Let_def)

lemma gives_bput: "gives b (bput cf str b)"
proof -
  have "calm (bput cf str b s) \<and> (alive (bput cf str b s) \<longrightarrow> gave b s (bput cf str b s))"
    if a: "alive s" and c: "calm s" for s
  proof -
    obtain d k where d: "d = qs_buf s @ b" "k = qs_spill s (qs_calls s)" by blast
    let ?op = "QAppend (qs_out s) (take k d)"
    obtain ok s1 where r: "sys ?op s = (ok, s1)" by (metis surj_pair)
    have c1: "calm s1" using calm_sysE [OF r c] by simp
    show ?thesis
    proof (cases ok)
      case True
      have "bput cf str b s = s1\<lparr>qs_buf := drop k d\<rparr>"
        using r True by (simp add: bput_def Let_def flip: d)
      moreover have "qs_trace s1 = qs_trace s @ [?op]" "qs_out s1 = qs_out s" "qs_extra s1 = qs_extra s" "qs_exit s1 = qs_exit s"
        using sys_fields [of ?op s] unfolding r by (simp_all add: True)
      ultimately have f: "qs_out (bput cf str b s) = qs_out s" "qs_extra (bput cf str b s) = qs_extra s"
          "qs_exit (bput cf str b s) = qs_exit s" "qs_trace (bput cf str b s) = qs_trace s @ [?op]"
          "qs_buf (bput cf str b s) = drop k d"
        by simp_all
      have "given (bput cf str b s) = content (qs_out s) (qs_trace s) @ take k d @ drop k d"
        by (simp add: given_def f)
      also have "\<dots> = given s @ b" by (simp only: append_take_drop_id) (simp add: d(1) given_def)
      finally have "given (bput cf str b s) = given s @ b" .
      then show ?thesis using c by (simp add: gave_def calm_def f)
    next
      case False
      then show ?thesis using r c1 by (simp add: bput_def Let_def calm_die qq_codes flip: d)
    qed
  qed
  then show ?thesis by (simp add: gives_def)
qed

lemma bflush_calm:
  assumes "calm s"
  shows "calm (bflush cf str s)"
    "alive (bflush cf str s) \<Longrightarrow> gave [] s (bflush cf str s) \<and> qs_buf (bflush cf str s) = []"
proof -
  let ?op = "QAppend (qs_out s) (qs_buf s)"
  obtain ok s1 where r: "sys ?op s = (ok, s1)" by (metis surj_pair)
  have c1: "calm s1" using calm_sysE [OF r assms] by simp
  show "calm (bflush cf str s)"
  proof (cases ok)
    case True
    then show ?thesis using r c1 by (simp add: bflush_def calm_def)
  next
    case False
    then show ?thesis using r calm_die [OF c1] by (simp add: bflush_def qq_codes)
  qed
  assume "alive (bflush cf str s)"
  then have ok using r by (cases ok) (simp_all add: bflush_def)
  moreover have "qs_trace s1 = qs_trace s @ [?op]" "qs_out s1 = qs_out s" "qs_extra s1 = qs_extra s"
    using sys_fields [of ?op s] \<open>ok\<close> unfolding r by simp_all
  ultimately show "gave [] s (bflush cf str s) \<and> qs_buf (bflush cf str s) = []"
    using r by (simp add: bflush_def gave_def given_def)
qed

lemma gives_bflush: "gives [] (bflush cf str)"
  using bflush_calm by (auto simp: gives_def)

lemma gives_id: "gives [] (\<lambda>s. s)"
  by (simp add: gives_def gave_refl)

lemma gives_comp: "gives a f \<Longrightarrow> gives b g \<Longrightarrow> gives (a @ b) (\<lambda>s. if alive (f s) then g (f s) else f s)"
  unfolding gives_def using gave_trans by simp blast

lemma steps_simps [simp]:
  "steps [] s = s"
  "alive s \<Longrightarrow> steps (f # fs) s = steps fs (f s)"
  by (simp_all add: steps_def)

lemma steps_dead: "\<not> alive s \<Longrightarrow> steps fs s = s"
  by (induction fs) (simp_all add: steps_def)

lemma gives_steps: "list_all2 gives bs fs \<Longrightarrow> gives (concat bs) (steps fs)"
proof (induction rule: list_all2_induct)
  case Nil
  then show ?case using gives_id by (simp add: steps_def id_def)
next
  case (Cons b bs f fs)
  have "alive s \<Longrightarrow> steps (f # fs) s = (if alive (f s) then steps fs (f s) else f s)" for s
    using steps_dead by simp
  then show ?case using gives_comp [OF Cons(1,3)] unfolding gives_def by simp
qed

lemma gives_record: "gives (l @ b @ [NUL]) (put_record cf l b)"
  using gives_steps [of "[l, b, [NUL]]" "[bput cf wenv l, bput cf wenv b, bput cf wenv [NUL]]"]
  by (simp add: put_record_def gives_bput)

lemma gives_extra: "gives (concat (map (\<lambda>r. ''T'' @ r @ [NUL]) (qc_extraqueue cf))) (put_extra cf)"
  unfolding put_extra_def
  using gives_record [of "''T''"] by (intro gives_steps) (simp add: list_all2_conv_all_nth)

section \<open>The message and the envelope\<close>

definition body_bytes :: "bytes option list \<Rightarrow> bytes" where
  "body_bytes rs = concat (map (\<lambda>r. case r of None \<Rightarrow> [] | Some b \<Rightarrow> b) rs)"

lemma copy_body_effect:
  "alive s \<Longrightarrow> calm s \<Longrightarrow> calm (copy_body cf rs s) \<and>
   (alive (copy_body cf rs s) \<longrightarrow> None \<notin> set rs \<and> gave (body_bytes rs) s (copy_body cf rs s))"
proof (induction rs arbitrary: s)
  case Nil
  then show ?case by (simp add: body_bytes_def gave_refl)
next
  case (Cons r rs)
  show ?case
  proof (cases r)
    case None
    then show ?thesis using Cons.prems by (simp add: calm_die qq_codes)
  next
    case (Some b)
    have p: "calm (bput cf wmsg b s)" "alive (bput cf wmsg b s) \<Longrightarrow> gave b s (bput cf wmsg b s)"
      using gives_bput [of b cf wmsg] Cons.prems by (auto simp: gives_def)
    show ?thesis
    proof (cases "alive (bput cf wmsg b s)")
      case True
      then show ?thesis
        using Cons.IH [OF True p(1)] p(2) Cons.prems Some gave_trans [of b s "bput cf wmsg b s" "body_bytes rs"]
        by (auto simp: body_bytes_def)
    next
      case False
      then have "copy_body cf rs (bput cf wmsg b s) = bput cf wmsg b s" by (cases rs) auto
      then show ?thesis using False p Cons.prems Some by simp
    qed
  qed
qed

text \<open>One address of fewer than \<open>n\<close> bytes.\<close>

lemma copy_addr_effect:
  "alive s \<Longrightarrow> calm s \<Longrightarrow> calm (snd (copy_addr cf False n inp s)) \<and>
   (alive (snd (copy_addr cf False n inp s)) \<longrightarrow>
     (\<exists>a. inp = a @ NUL # fst (copy_addr cf False n inp s) \<and> no_nul a \<and> length a < n \<and>
          gave (a @ [NUL]) s (snd (copy_addr cf False n inp s))))"
proof (induction cf "False" n inp s rule: copy_addr.induct)
  case (3 cf n ch inp s)
  have p: "calm (bput cf wenv [ch] s)" "alive (bput cf wenv [ch] s) \<Longrightarrow> gave [ch] s (bput cf wenv [ch] s)"
    using gives_bput [of "[ch]" cf wenv] 3(2,3) by (auto simp: gives_def)
  show ?case
  proof (cases "\<not> alive (bput cf wenv [ch] s) \<or> ch = NUL")
    case True
    then show ?thesis using p by (auto simp: Let_def intro: exI [of _ "[]"])
  next
    case False
    then have r: "copy_addr cf False (Suc n) (ch # inp) s = copy_addr cf False n inp (bput cf wenv [ch] s)"
      by (simp add: Let_def)
    have IH: "calm (snd (copy_addr cf False n inp (bput cf wenv [ch] s))) \<and>
        (alive (snd (copy_addr cf False n inp (bput cf wenv [ch] s))) \<longrightarrow>
         (\<exists>a. inp = a @ NUL # fst (copy_addr cf False n inp (bput cf wenv [ch] s)) \<and> no_nul a \<and> length a < n \<and>
          gave (a @ [NUL]) (bput cf wenv [ch] s) (snd (copy_addr cf False n inp (bput cf wenv [ch] s)))))"
      using 3(1) [of "bput cf wenv [ch] s"] False p by simp
    show ?thesis unfolding r
    proof (intro conjI impI)
      show "calm (snd (copy_addr cf False n inp (bput cf wenv [ch] s)))" using IH by blast
      assume "alive (snd (copy_addr cf False n inp (bput cf wenv [ch] s)))"
      then obtain a where "inp = a @ NUL # fst (copy_addr cf False n inp (bput cf wenv [ch] s))" "no_nul a" "length a < n"
          "gave (a @ [NUL]) (bput cf wenv [ch] s) (snd (copy_addr cf False n inp (bput cf wenv [ch] s)))"
        using IH by blast
      then show "\<exists>a. ch # inp = a @ NUL # fst (copy_addr cf False n inp (bput cf wenv [ch] s)) \<and> no_nul a \<and>
          length a < Suc n \<and> gave (a @ [NUL]) s (snd (copy_addr cf False n inp (bput cf wenv [ch] s)))"
        using False p gave_trans [of "[ch]" s] by (intro exI [of _ "ch # a"]) auto
    qed
  qed
qed (simp_all add: calm_die qq_codes)

definition rcpt_records :: "bytes list \<Rightarrow> bytes" where
  "rcpt_records rs = concat (map (\<lambda>r. ''T'' @ r @ [NUL]) rs)"

lemma copy_rcpts_effect:
  "alive s \<Longrightarrow> calm s \<Longrightarrow> calm (copy_rcpts cf False inp s) \<and>
   (alive (copy_rcpts cf False inp s) \<longrightarrow>
     (\<exists>rs c t. inp = rcpt_records rs @ c # t \<and> c \<in> {NUL, CHR ''Q''} \<and> (\<forall>r \<in> set rs. no_nul r \<and> length r < ADDR) \<and>
        gave (rcpt_records rs) s (copy_rcpts cf False inp s)))"
proof (induction cf "False" inp s rule: copy_rcpts.induct)
  case (2 cf ch inp s)
  let ?s1 = "bput cf wenv [ch] s"
  let ?r = "copy_addr cf False ADDR inp ?s1"
  have p: "calm ?s1" "alive ?s1 \<Longrightarrow> gave [ch] s ?s1"
    using gives_bput [of "[ch]" cf wenv] 2(2,3) by (auto simp: gives_def)
  consider "ch = NUL \<or> ch = CHR ''Q''" | "ch \<noteq> NUL" "ch \<noteq> CHR ''Q''" "ch \<noteq> CHR ''T''" | "ch = CHR ''T''" "\<not> alive ?s1"
    | "ch = CHR ''T''" "alive ?s1" "\<not> alive (snd ?r)" | "ch = CHR ''T''" "alive ?s1" "alive (snd ?r)"
    by blast
  then show ?case
  proof cases
    case 1
    then show ?thesis using 2(3) by (auto simp: rcpt_records_def gave_refl intro!: exI [of _ "[]"])
  next
    case 2
    then show ?thesis using \<open>calm s\<close> by (simp add: calm_die qq_codes)
  next
    case 3
    then show ?thesis using p by (simp add: Let_def)
  next
    case 4
    then show ?thesis using copy_addr_effect [OF 4(2) p(1), of cf ADDR inp] by (simp add: Let_def)
  next
    case 5
    obtain a where a: "inp = a @ NUL # fst ?r" "no_nul a" "length a < ADDR" "gave (a @ [NUL]) ?s1 (snd ?r)"
      and c: "calm (snd ?r)"
      using copy_addr_effect [OF 5(2) p(1), of cf ADDR inp] 5(3) by auto
    have e: "copy_rcpts cf False (ch # inp) s = copy_rcpts cf False (fst ?r) (snd ?r)"
      using 5 by (simp add: Let_def)
    have IH: "calm (copy_rcpts cf False (fst ?r) (snd ?r)) \<and>
       (alive (copy_rcpts cf False (fst ?r) (snd ?r)) \<longrightarrow>
         (\<exists>rs c t. fst ?r = rcpt_records rs @ c # t \<and> c \<in> {NUL, CHR ''Q''} \<and> (\<forall>r \<in> set rs. no_nul r \<and> length r < ADDR) \<and>
            gave (rcpt_records rs) (snd ?r) (copy_rcpts cf False (fst ?r) (snd ?r))))"
      using 2(1) [of ?s1 ?r] 5 c by simp
    have g: "gave (ch # a @ [NUL]) s (snd ?r)"
      using gave_trans [OF p(2) a(4)] 5 by simp
    show ?thesis
      unfolding e
    proof (intro conjI impI)
      show "calm (copy_rcpts cf False (fst ?r) (snd ?r))" using IH by blast
      assume "alive (copy_rcpts cf False (fst ?r) (snd ?r))"
      then obtain rs c t where "fst ?r = rcpt_records rs @ c # t" "c \<in> {NUL, CHR ''Q''}"
          "\<forall>r \<in> set rs. no_nul r \<and> length r < ADDR" "gave (rcpt_records rs) (snd ?r) (copy_rcpts cf False (fst ?r) (snd ?r))"
        using IH by blast
      then show "\<exists>rs c t. ch # inp = rcpt_records rs @ c # t \<and> c \<in> {NUL, CHR ''Q''} \<and>
          (\<forall>r \<in> set rs. no_nul r \<and> length r < ADDR) \<and> gave (rcpt_records rs) s (copy_rcpts cf False (fst ?r) (snd ?r))"
        using gave_trans [OF g] a 5
        by (intro exI [of _ "a # rs"] exI [of _ c] exI [of _ t]) (simp add: rcpt_records_def)
    qed
  qed
qed (simp add: calm_die qq_codes)


lemma copy_sender_effect:
  assumes "alive s" "calm s"
  shows "calm (snd (copy_sender cf env s)) \<and>
   (alive (snd (copy_sender cf env s)) \<longrightarrow>
     (\<exists>a. env = CHR ''F'' # a @ NUL # fst (copy_sender cf env s) \<and> no_nul a \<and> length a < ADDR \<and>
          gave (CHR ''F'' # a @ [NUL]) s (snd (copy_sender cf env s))))"
proof (cases env)
  case Nil
  then show ?thesis using assms by (simp add: copy_sender_def calm_die qq_codes)
next
  case (Cons ch inp)
  let ?s1 = "bput cf wenv [ch] s"
  have p: "calm ?s1" "alive ?s1 \<Longrightarrow> gave [ch] s ?s1"
    using gives_bput [of "[ch]" cf wenv] assms by (auto simp: gives_def)
  consider "ch \<noteq> CHR ''F''" | "ch = CHR ''F''" "\<not> alive ?s1" | "ch = CHR ''F''" "alive ?s1" by blast
  then show ?thesis
  proof cases
    case 1
    then show ?thesis using Cons assms by (simp add: copy_sender_def calm_die qq_codes)
  next
    case 2
    then show ?thesis using Cons p by (simp add: copy_sender_def Let_def)
  next
    case 3
    then have r: "copy_sender cf env s = copy_addr cf False ADDR inp ?s1" using Cons by (simp add: copy_sender_def Let_def)
    have "calm (snd (copy_addr cf False ADDR inp ?s1))" using copy_addr_effect [OF 3(2) p(1)] by blast
    moreover have "\<exists>a. env = CHR ''F'' # a @ NUL # fst (copy_addr cf False ADDR inp ?s1) \<and> no_nul a \<and> length a < ADDR \<and>
        gave (CHR ''F'' # a @ [NUL]) s (snd (copy_addr cf False ADDR inp ?s1))" if al: "alive (snd (copy_addr cf False ADDR inp ?s1))"
    proof -
      obtain a where a: "inp = a @ NUL # fst (copy_addr cf False ADDR inp ?s1)" "no_nul a" "length a < ADDR"
          "gave (a @ [NUL]) ?s1 (snd (copy_addr cf False ADDR inp ?s1))"
        using copy_addr_effect [OF 3(2) p(1), of cf ADDR inp] al by blast
      have "gave (CHR ''F'' # a @ [NUL]) s (snd (copy_addr cf False ADDR inp ?s1))"
        using gave_trans [OF p(2) [OF 3(2)] a(4)] 3(1) by simp
      then show ?thesis using a(1-3) Cons 3(1) by (metis append_Cons)
    qed
    ultimately show ?thesis by (simp add: r)
  qed
qed

text \<open>The header for \<^verbatim>\<open>qmail-remote\<close>; without a quarantine nothing else is in the record.\<close>

definition qqeh_record :: "qqconf \<Rightarrow> bytes" where
  "qqeh_record cf = (if qqeh_text cf = [] then [] else ''e'' @ qqeh_text cf @ [NUL])"

lemma put_qqeh_effect:
  assumes "alive s" "calm s" "qs_extra s = []" "qc_quarantine cf = []"
  shows "calm (put_qqeh cf s) \<and> (alive (put_qqeh cf s) \<longrightarrow> gave (qqeh_record cf) s (put_qqeh cf s))"
proof (cases "qqeh_text cf = []")
  case True
  then show ?thesis using assms by (simp add: put_qqeh_def qqeh_record_def gave_refl)
next
  case False
  let ?f = "steps [bput cf wenv ''e'', bput cf wenv [], bput cf wenv (qqeh_text cf), bput cf wenv [NUL]]"
  have "gives (concat [''e'', [], qqeh_text cf, [NUL]]) ?f"
    by (rule gives_steps) (simp add: gives_bput)
  moreover have "put_qqeh cf s = ?f s" using False assms by (simp add: put_qqeh_def Let_def)
  ultimately show ?thesis using False assms by (simp add: gives_def qqeh_record_def)
qed

section \<open>The files\<close>

text \<open>\<open>filling n b m s\<close>: \<^verbatim>\<open>ssout\<close> is the file \<open>n\<close>, it has been given \<open>b\<close>; the file \<^verbatim>\<open>mess/\<close> has been given \<open>m\<close>.\<close>

definition filling :: "qname \<Rightarrow> bytes \<Rightarrow> bytes \<Rightarrow> qqs \<Rightarrow> bool" where
  "filling n b m s \<longleftrightarrow> calm s \<and> qs_out s = n \<and> given s = b \<and> qs_extra s = [] \<and>
     (n \<noteq> QMess \<longrightarrow> content QMess (qs_trace s) = m)"

lemma filling_gave: "filling n b m s \<Longrightarrow> gave c s s' \<Longrightarrow> calm s' \<Longrightarrow> filling n (b @ c) m s'"
  by (simp add: filling_def gave_def)

lemma filling_gives: "gives c f \<Longrightarrow> filling n b m s \<Longrightarrow> alive s \<Longrightarrow> alive (f s) \<Longrightarrow> filling n (b @ c) m (f s)"
  using filling_gave [of n b m s c "f s"] unfolding gives_def filling_def by blast

lemma pidopen_loop_effect:
  "calm s \<Longrightarrow> calm (snd (pidopen_loop cf n seq s)) \<and>
   (alive (snd (pidopen_loop cf n seq s)) \<longrightarrow>
      content QMess (qs_trace (snd (pidopen_loop cf n seq s))) = content QMess (qs_trace s) \<and>
      qs_extra (snd (pidopen_loop cf n seq s)) = qs_extra s)"
proof (induction cf n seq s rule: pidopen_loop.induct)
  case (2 cf n seq s)
  obtain ok s1 where r: "sys (QOpen (QPid seq)) s = (ok, s1)" by (metis surj_pair)
  have c: "calm s1" using calm_sysE [OF r 2(2)] by simp
  have f: "content QMess (qs_trace s1) = content QMess (qs_trace s)" "qs_extra s1 = qs_extra s"
    by (simp_all add: content_sys [OF r] extra_sys [OF r])
  show ?case using 2(1) [OF r [symmetric]] c f r by (cases ok) simp_all
qed (simp add: calm_die qq_codes)

lemma link_mess_effect:
  assumes "calm s"
  shows "calm (link_mess cf seq s) \<and> (alive (link_mess cf seq s) \<longrightarrow>
     qs_out (link_mess cf seq s) = QMess \<and> given (link_mess cf seq s) = content QMess (qs_trace s) \<and>
     qs_extra (link_mess cf seq s) = qs_extra s)"
proof -
  obtain ok s1 where r: "sys (QLink (QPid seq) QMess) s = (ok, s1)" by (metis surj_pair)
  obtain ok' s2 where r': "sys (QUnlink (QPid seq)) s1 = (ok', s2)" by (metis surj_pair)
  have c: "calm s1" "calm s2" using calm_sysE [OF r assms] calm_sysE [OF r'] by simp_all
  have f: "content QMess (qs_trace s1) = content QMess (qs_trace s)" "qs_extra s1 = qs_extra s"
    "content QMess (qs_trace s2) = content QMess (qs_trace s1)" "qs_extra s2 = qs_extra s1"
    by (simp_all add: content_sys [OF r] content_sys [OF r'] extra_sys [OF r] extra_sys [OF r'])
  have d: "calm (die cf QQ_LINK_MESS_PID False m (snd (sys (QUnlink (QPid seq)) s1)))"
    "calm (die cf QQ_REMOVE_PID_ERR False m (snd (sys (QUnlink QMess) s2)))" for m
    using calm_sys [OF c(1)] calm_sys [OF c(2)] by (simp_all add: calm_die qq_codes)
  consider "\<not> ok" | "ok" "\<not> ok'" | "ok" "ok'" by blast
  then show ?thesis
  proof cases
    case 3
    then have "link_mess cf seq s = s2\<lparr>qs_mademess := True, qs_out := QMess, qs_buf := []\<rparr>" using r r' by (simp add: link_mess_def)
    then show ?thesis using c f by (simp add: given_def calm_def)
  qed (use r r' d in \<open>simp_all add: link_mess_def\<close>)
qed

lemma open_mess_effect:
  assumes "calm s" "qs_extra s = []" "content QMess (qs_trace s) = []"
  shows "calm (open_mess cf s) \<and> (alive (open_mess cf s) \<longrightarrow> filling QMess [] m (open_mess cf s))"
proof -
  obtain seq s1 where p: "pidopen_loop cf 9 1 s = (seq, s1)" by (metis surj_pair)
  have c: "calm s1" "alive s1 \<Longrightarrow> content QMess (qs_trace s1) = [] \<and> qs_extra s1 = []"
    using pidopen_loop_effect [OF assms(1), of cf 9 1] assms unfolding p by auto
  let ?s2 = "s1\<lparr>qs_calls := qs_calls s1 + 1\<rparr>"
  have c2: "calm ?s2" using c(1) by (simp add: calm_def)
  consider "\<not> alive s1" | "alive s1" "qs_fail s1 (qs_calls s1)" | "alive s1" "\<not> qs_fail s1 (qs_calls s1)" by blast
  then show ?thesis
  proof cases
    case 1
    then show ?thesis using p c by (simp add: open_mess_def)
  next
    case 2
    then show ?thesis using p c2 by (simp add: open_mess_def fstat_ok_def calm_die qq_codes)
  next
    case 3
    then have e: "open_mess cf s = link_mess cf seq ?s2" using p by (simp add: open_mess_def fstat_ok_def)
    show ?thesis using link_mess_effect [OF c2] c(2) [OF 3(1)] unfolding e by (simp add: filling_def)
  qed
qed


lemma alive_chain: "alive (if alive s then f s else s) \<longleftrightarrow> alive s \<and> alive (f s)"
  by simp

text \<open>Running a list of writers one by one keeps \<open>filling\<close>, with what they gave.\<close>

definition writer :: "bytes \<Rightarrow> (qqs \<Rightarrow> qqs) \<Rightarrow> bool" where
  "writer c f \<longleftrightarrow> (\<forall>s. alive s \<longrightarrow> calm s \<longrightarrow> qs_extra s = [] \<longrightarrow> calm (f s) \<and> (alive (f s) \<longrightarrow> gave c s (f s)))"

lemma writer_gives: "gives c f \<Longrightarrow> writer c f"
  by (simp add: gives_def writer_def)

lemma steps_cons: "steps (f # fs) s = steps fs (if alive s then f s else s)"
  using steps_dead by simp

text \<open>\<open>goes n b m s\<close>: calm, and filling unless the process has ended.\<close>

definition goes :: "qname \<Rightarrow> bytes \<Rightarrow> bytes \<Rightarrow> qqs \<Rightarrow> bool" where
  "goes n b m s \<longleftrightarrow> calm s \<and> (alive s \<longrightarrow> filling n b m s)"

lemma goes_writer:
  assumes "writer c f" "goes n b m s"
  shows "goes n (b @ c) m (if alive s then f s else s)"
proof (cases "alive s")
  case True
  then have f: "filling n b m s" using assms(2) by (simp add: goes_def)
  then have w: "calm (f s)" "alive (f s) \<Longrightarrow> gave c s (f s)"
    using assms(1) True unfolding writer_def by (simp_all add: filling_def)
  show ?thesis using filling_gave [OF f w(2) w(1)] w(1) True by (simp add: goes_def)
next
  case False
  then show ?thesis using assms(2) by (simp add: goes_def)
qed

lemma goes_writers:
  "list_all2 writer cs fs \<Longrightarrow> goes n b m s \<Longrightarrow> goes n (b @ concat cs) m (steps fs s)"
proof (induction arbitrary: b s rule: list_all2_induct)
  case Nil
  then show ?case by simp
next
  case (Cons c cs f fs)
  show ?case using Cons.IH [OF goes_writer [OF Cons.hyps(1) Cons.prems]] by (simp add: steps_cons)
qed

lemma write_mess_effect:
  assumes "alive s" "calm s" "qs_extra s = []" "content QMess (qs_trace s) = []"
  shows "calm (write_mess cf body s) \<and> (alive (write_mess cf body s) \<longrightarrow> None \<notin> set body \<and>
     qs_extra (write_mess cf body s) = [] \<and> content QMess (qs_trace (write_mess cf body s)) = qc_received cf @ body_bytes body)"
proof -
  obtain s1 where s1: "s1 = open_mess cf s" by blast
  obtain s2 where s2: "s2 = (if alive s1 then bput cf wmsg (qc_received cf) s1 else s1)" by blast
  obtain s3 where s3: "s3 = (if alive s2 then copy_body cf body s2 else s2)" by blast
  have e: "write_mess cf body s = (if alive s3 then bflush cf wmsg s3 else s3)"
    using assms(1) by (simp add: write_mess_def steps_cons s1 s2 s3)
  have "goes QMess [] [] s1" using open_mess_effect [OF assms(2-4)] by (simp add: goes_def s1)
  then have g2: "goes QMess (qc_received cf) [] s2"
    using goes_writer [OF writer_gives [OF gives_bput]] by (simp add: s2) fastforce
  have b: "calm s3" "alive s3 \<Longrightarrow> None \<notin> set body \<and> filling QMess (qc_received cf @ body_bytes body) [] s3"
  proof -
    have c: "alive s2 \<Longrightarrow> calm s3 \<and> (alive s3 \<longrightarrow> None \<notin> set body \<and> gave (body_bytes body) s2 s3)"
      using copy_body_effect [of s2 cf body] g2 by (simp add: goes_def s3)
    show "calm s3" using c g2 by (cases "alive s2") (simp_all add: goes_def s3)
    show "None \<notin> set body \<and> filling QMess (qc_received cf @ body_bytes body) [] s3" if al: "alive s3"
    proof -
      have a2: "alive s2" using al s3 by (auto split: if_splits)
      then show ?thesis using c al g2 filling_gave [of QMess "qc_received cf" "[]" s2 "body_bytes body" s3] by (simp add: goes_def)
    qed
  qed
  show ?thesis
  proof (cases "alive s3")
    case True
    then show ?thesis
      using bflush_calm [OF b(1), of cf wmsg] b(2) by (auto simp: e filling_def gave_def given_def)
  next
    case False
    then show ?thesis using b by (simp add: e)
  qed
qed

lemma open_intd_effect:
  assumes "calm s" "qs_extra s = []" "content QMess (qs_trace s) = m"
  shows "calm (open_intd cf s) \<and> (alive (open_intd cf s) \<longrightarrow> filling QIntd [] m (open_intd cf s))"
proof -
  obtain ok s1 where r: "sys (QOpen QIntd) s = (ok, s1)" by (metis surj_pair)
  have c: "calm s1" using calm_sysE [OF r assms(1)] by simp
  show ?thesis
  proof (cases ok)
    case True
    have "qs_trace s1 = qs_trace s @ [QOpen QIntd]" "qs_extra s1 = qs_extra s"
      using sys_fields [of "QOpen QIntd" s] unfolding r by (simp_all add: True)
    then show ?thesis using r True c assms by (simp add: open_intd_def filling_def given_def calm_def)
  next
    case False
    then show ?thesis using r c by (simp add: open_intd_def calm_die qq_codes)
  qed
qed

section \<open>The envelope on disk\<close>

definition env_records :: "libq \<Rightarrow> qqconf \<Rightarrow> bytes \<Rightarrow> bytes list \<Rightarrow> bytes" where
  "env_records L cf sender rcpts =
     ''u'' @ lq_fmt_ulong L (qc_uid cf) @ [NUL] @ ''p'' @ lq_fmt_ulong L (qc_pid cf) @ [NUL] @ ''F'' @ sender @ [NUL]
     @ rcpt_records (qc_extraqueue cf) @ rcpt_records rcpts @ qqeh_record cf"

text \<open>The stream of the client, as a sender and recipients; \<open>c\<close> ends it.\<close>

definition env_stream :: "bytes \<Rightarrow> bytes list \<Rightarrow> char \<Rightarrow> bytes \<Rightarrow> bytes" where
  "env_stream sender rcpts c rest = ''F'' @ sender @ [NUL] @ rcpt_records rcpts @ c # rest"

definition good_addr :: "bytes \<Rightarrow> bool" where
  "good_addr a \<longleftrightarrow> no_nul a \<and> length a < ADDR"

text \<open>From the recipients on, \<open>e\<close> having been written.\<close>

lemma intd_tail_effect:
  fixes inp :: bytes
  assumes "goes QIntd e m s" "qc_quarantine cf = []"
  defines "r \<equiv> steps [put_extra cf, put_quarantine cf, copy_rcpts cf False inp, put_qqeh cf, bflush cf wenv] s"
  shows "calm r \<and> (alive r \<longrightarrow> (\<exists>rs c t. inp = rcpt_records rs @ c # t \<and> c \<in> {NUL, CHR ''Q''} \<and> (\<forall>r \<in> set rs. good_addr r) \<and>
     content QMess (qs_trace r) = m \<and>
     content QIntd (qs_trace r) = e @ rcpt_records (qc_extraqueue cf) @ rcpt_records rs @ qqeh_record cf))"
proof -
  let ?x = "rcpt_records (qc_extraqueue cf)"
  obtain s1 where s1: "s1 = (if alive s then put_extra cf s else s)" by blast
  obtain s2 where s2: "s2 = (if alive s1 then copy_rcpts cf False inp s1 else s1)" by blast
  obtain s3 where s3: "s3 = (if alive s2 then put_qqeh cf s2 else s2)" by blast
  have q: "(if alive t then put_quarantine cf t else t) = t" for t by (simp add: put_quarantine_def assms(2))
  have r: "r = (if alive s3 then bflush cf wenv s3 else s3)"
    by (simp only: r_def steps_cons q steps_simps flip: s1 s2 s3)
  have g1: "goes QIntd (e @ ?x) m s1"
    unfolding s1 rcpt_records_def by (rule goes_writer [OF writer_gives [OF gives_extra] assms(1)])
  have 2: "calm s2" "alive s2 \<Longrightarrow> \<exists>rs c t. inp = rcpt_records rs @ c # t \<and> c \<in> {NUL, CHR ''Q''} \<and> (\<forall>r \<in> set rs. good_addr r) \<and>
      goes QIntd ((e @ ?x) @ rcpt_records rs) m s2"
  proof -
    have c: "alive s1 \<Longrightarrow> calm s2 \<and> (alive s2 \<longrightarrow> (\<exists>rs c t. inp = rcpt_records rs @ c # t \<and> c \<in> {NUL, CHR ''Q''} \<and>
        (\<forall>r \<in> set rs. good_addr r) \<and> gave (rcpt_records rs) s1 s2))"
      using copy_rcpts_effect [of s1 cf inp] g1 unfolding goes_def good_addr_def s2 by simp
    show c2: "calm s2" using c g1 by (cases "alive s1") (simp_all add: goes_def s2)
    assume al: "alive s2"
    then have a1: "alive s1" using s2 by (auto split: if_splits)
    then obtain rs c t where "inp = rcpt_records rs @ c # t" "c \<in> {NUL, CHR ''Q''}" "\<forall>r \<in> set rs. good_addr r"
        "gave (rcpt_records rs) s1 s2"
      using c al by blast
    then show "\<exists>rs c t. inp = rcpt_records rs @ c # t \<and> c \<in> {NUL, CHR ''Q''} \<and> (\<forall>r \<in> set rs. good_addr r) \<and>
        goes QIntd ((e @ ?x) @ rcpt_records rs) m s2"
      using filling_gave [of QIntd "e @ ?x" m s1 "rcpt_records rs" s2] g1 a1 c2 unfolding goes_def by blast
  qed
  have w: "writer (qqeh_record cf) (put_qqeh cf)" using put_qqeh_effect assms(2) by (simp add: writer_def)
  show ?thesis
  proof (cases "alive s3")
    case True
    then have a2: "alive s2" using s3 by (auto split: if_splits)
    obtain rs c t where rs: "inp = rcpt_records rs @ c # t" "c \<in> {NUL, CHR ''Q''}" "\<forall>r \<in> set rs. good_addr r"
        "goes QIntd ((e @ ?x) @ rcpt_records rs) m s2"
      using 2(2) [OF a2] by blast
    have f: "filling QIntd (((e @ ?x) @ rcpt_records rs) @ qqeh_record cf) m s3" "calm s3"
      using goes_writer [OF w rs(4)] True by (simp_all add: goes_def flip: s3)
    show ?thesis
    proof (intro conjI impI)
      show "calm r" using bflush_calm(1) [OF f(2)] True by (simp add: r)
      assume "alive r"
      then have "content QMess (qs_trace r) = m" "content QIntd (qs_trace r) = ((e @ ?x) @ rcpt_records rs) @ qqeh_record cf"
        using bflush_calm(2) [OF f(2), of cf wenv] f(1) True by (auto simp: r filling_def gave_def given_def)
      then show "\<exists>rs c t. inp = rcpt_records rs @ c # t \<and> c \<in> {NUL, CHR ''Q''} \<and> (\<forall>r \<in> set rs. good_addr r) \<and>
          content QMess (qs_trace r) = m \<and> content QIntd (qs_trace r) = e @ ?x @ rcpt_records rs @ qqeh_record cf"
        using rs(1-3) by (metis append_assoc)
    qed
  next
    case False
    have "calm s3"
    proof (cases "alive s2")
      case True
      obtain rs where "goes QIntd ((e @ ?x) @ rcpt_records rs) m s2" using 2(2) [OF True] by blast
      from goes_writer [OF w this] show ?thesis by (simp add: goes_def flip: s3)
    next
      case False
      then show ?thesis using 2(1) by (simp add: s3)
    qed
    then show ?thesis using False by (simp add: r)
  qed
qed

lemma write_intd_effect:
  assumes "alive s" "calm s" "qs_extra s = []" "content QMess (qs_trace s) = m" "qc_quarantine cf = []"
  shows "calm (write_intd L cf env s) \<and> (alive (write_intd L cf env s) \<longrightarrow>
     (\<exists>sender rcpts c rest. env = env_stream sender rcpts c rest \<and> c \<in> {NUL, CHR ''Q''} \<and>
        good_addr sender \<and> (\<forall>r \<in> set rcpts. good_addr r) \<and>
        content QMess (qs_trace (write_intd L cf env s)) = m \<and>
        content QIntd (qs_trace (write_intd L cf env s)) = env_records L cf sender rcpts))"
proof -
  let ?u = "''u'' @ lq_fmt_ulong L (qc_uid cf) @ [NUL]" and ?p = "''p'' @ lq_fmt_ulong L (qc_pid cf) @ [NUL]"
  obtain s1 where s1: "s1 = steps [put_record cf ''u'' (lq_fmt_ulong L (qc_uid cf)), put_record cf ''p'' (lq_fmt_ulong L (qc_pid cf))]
    (open_intd cf s)" by blast
  obtain s2 inp where s2: "copy_sender cf env s1 = (inp, s2)" by (metis surj_pair)
  have "goes QIntd [] m (open_intd cf s)" using open_intd_effect [OF assms(2-4)] by (simp add: goes_def)
  then have g1: "goes QIntd (?u @ ?p) m s1"
    using goes_writers [of "[?u, ?p]"] writer_gives [OF gives_record] unfolding s1 by fastforce
  have w: "write_intd L cf env s = (if alive s1
      then steps [put_extra cf, put_quarantine cf, copy_rcpts cf False inp, put_qqeh cf, bflush cf wenv] s2 else s1)"
    using assms(1,5) s2 by (simp add: write_intd_def Let_def steps_dead flip: s1)
  show ?thesis
  proof (cases "alive s1 \<and> alive s2")
    case True
    then obtain a where a: "env = CHR ''F'' # a @ NUL # inp" "good_addr a" "gave (CHR ''F'' # a @ [NUL]) s1 s2" and c: "calm s2"
      using copy_sender_effect [of s1 cf env] g1 s2 by (auto simp: goes_def good_addr_def)
    have "goes QIntd ((?u @ ?p) @ CHR ''F'' # a @ [NUL]) m s2"
      using filling_gave [of QIntd "?u @ ?p" m s1 _ s2, OF _ a(3) c] g1 True c unfolding goes_def by blast
    from intd_tail_effect [OF this assms(5), of inp] show ?thesis
      using True a(1,2) unfolding w env_records_def env_stream_def by fastforce
  next
    case False
    then show ?thesis using copy_sender_effect [of s1 cf env] g1 s2 by (auto simp: w goes_def steps_dead)
  qed
qed


lemma must_effect:
  assumes "calm s" "op \<noteq> QLink QIntd QTodo" "e \<noteq> 0"
  shows "calm (must cf e dc str op s) \<and> (alive (must cf e dc str op s) \<longrightarrow> qs_trace (must cf e dc str op s) = qs_trace s @ [op])"
proof -
  obtain ok s1 where r: "sys op s = (ok, s1)" by (metis surj_pair)
  then show ?thesis
    using calm_sysE [OF r assms(1,2)] sys_fields(9) [of op s] by (cases ok) (simp_all add: must_def calm_die assms(3))
qed

lemma sync_files_effect:
  assumes "alive s" "calm s"
  shows "calm (sync_files cf s) \<and> (alive (sync_files cf s) \<longrightarrow>
     (\<forall>n. content n (qs_trace (sync_files cf s)) = content n (qs_trace s)) \<and>
     (qc_sync cf \<longrightarrow> synced QMess (qs_trace (sync_files cf s)) \<and> synced QIntd (qs_trace (sync_files cf s))))"
proof (cases "qc_sync cf")
  case True
  let ?m = "must cf QQ_FSYNC_ERR True ''trouble syncing message to disk''"
  have m: "calm t \<Longrightarrow> calm (?m (QFsync n) t) \<and> (alive (?m (QFsync n) t) \<longrightarrow> qs_trace (?m (QFsync n) t) = qs_trace t @ [QFsync n])" for t n
    by (rule must_effect) (simp_all add: qq_codes)
  have "sync_files cf s = (if alive (?m (QFsync QMess) s) then ?m (QFsync QIntd) (?m (QFsync QMess) s) else ?m (QFsync QMess) s)"
    using True assms(1) by (simp add: sync_files_def steps_cons)
  then show ?thesis using m [OF assms(2), of QMess] m [of "?m (QFsync QMess) s" QIntd] by (auto split: if_splits)
qed (simp add: sync_files_def assms(2))

section \<open>The whole\<close>

text \<open>What is on disk at the moment the message is announced.\<close>

definition stored :: "libq \<Rightarrow> qqconf \<Rightarrow> bytes option list \<Rightarrow> bytes \<Rightarrow> qop list \<Rightarrow> bool" where
  "stored L cf body env pre \<longleftrightarrow>
     None \<notin> set body \<and> content QMess pre = qc_received cf @ body_bytes body \<and>
     (\<exists>sender rcpts c rest. env = env_stream sender rcpts c rest \<and> c \<in> {NUL, CHR ''Q''} \<and>
        good_addr sender \<and> (\<forall>r \<in> set rcpts. good_addr r) \<and> content QIntd pre = env_records L cf sender rcpts) \<and>
     (qc_sync cf \<longrightarrow> synced QMess pre \<and> synced QIntd pre)"

lemma calm_start: "calm (qq_start fail part spill alarm)" "alive (qq_start fail part spill alarm)"
  by (simp_all add: calm_def alive_def qq_start_def)

text \<open>What may follow the link: the end of the process, or the attempt to undo everything.\<close>

definition closing :: "qop list \<Rightarrow> bool" where
  "closing post \<longleftrightarrow> post \<in> {[], [QTrigger]}"

definition undoing :: "qop list \<Rightarrow> bool" where
  "undoing post \<longleftrightarrow>
     (\<exists>t. post = QUnsynced # t \<and> set t \<subseteq> {QTrunc QIntd, QTrunc QMess, QUnlink QIntd, QUnlink QMess, QUnsynced})"

lemma failed_remove: "set (failed_op k (QTrunc n)) \<subseteq> {QTrunc n, QUnsynced}" "set (failed_op k (QUnlink n)) \<subseteq> {QUnlink n, QUnsynced}"
  by (auto simp: failed_op_def)

definition undid :: "qqs \<Rightarrow> qqs \<Rightarrow> bool" where
  "undid s s' \<longleftrightarrow>
     (\<exists>t. qs_trace s' = qs_trace s @ t \<and> set t \<subseteq> {QTrunc QIntd, QTrunc QMess, QUnlink QIntd, QUnlink QMess, QUnsynced})"

lemma undid_refl: "undid s s"
  by (simp add: undid_def)

lemma undid_trans: "undid a b \<Longrightarrow> undid b c \<Longrightarrow> undid a c"
  unfolding undid_def by (metis Un_least append_assoc set_append)

lemma undid_remove:
  assumes "n \<in> {QIntd, QMess}"
  shows "undid s (snd (sys (QUnlink n) (snd (sys (QTrunc n) s))))"
proof -
  have "undid u (snd (sys op u))" if "op = QTrunc n \<or> op = QUnlink n" for op u
    using that assms failed_remove [of "qs_part u (qs_calls u)" n] sys_fields(9) [of op u]
    by (cases "fst (sys op u)") (auto simp: undid_def)
  then show ?thesis using undid_trans by blast
qed

lemma cleanup_trace: "undid s (cleanup s)"
  unfolding cleanup_def Let_def using undid_trans [OF undid_remove undid_remove] undid_remove undid_refl
  by (auto simp del: sys_fields)

lemma die_trace: "e \<noteq> 0 \<Longrightarrow> qs_exit (die cf e c str s) \<noteq> Some 0"
  "undid s (die cf e c str s)"
  using cleanup_trace [of s] by (auto simp: die_def Let_def qq_codes undid_def)

text \<open>The run without the timer.\<close>

lemma queue_run_effect:
  assumes "qc_quarantine cf = []" and r_def: "r = queue_run L cf body env (qq_start fail part spill alarm)"
  shows "calm r \<or>
    (\<exists>pre post. qs_trace r = pre @ QLink QIntd QTodo # post \<and> \<not> announced pre \<and> stored L cf body env pre \<and>
       (qs_exit r = Some 0 \<and> closing post \<or> qs_exit r \<noteq> Some 0 \<and> undoing post))"
proof -
  let ?op = "QLink QIntd QTodo" and ?m = "''trouble linking todofn to intdfn''"
  obtain s1 where s1: "s1 = write_mess cf body (qq_start fail part spill alarm)" by blast
  obtain s2 where s2: "s2 = (if alive s1 then write_intd L cf env s1 else s1)" by blast
  obtain s3 where s3: "s3 = (if alive s2 then sync_files cf s2 else s2)" by blast
  obtain ok s4 where s4: "sys ?op s3 = (ok, s4)" by (metis surj_pair)
  have c1: "calm s1 \<and> (alive s1 \<longrightarrow> None \<notin> set body \<and> qs_extra s1 = [] \<and> content QMess (qs_trace s1) = qc_received cf @ body_bytes body)"
    unfolding s1 by (rule write_mess_effect) (simp_all add: calm_start, simp_all add: qq_start_def)
  have c2: "calm s2" using c1 write_intd_effect [of s1 _ cf L env] assms(1) by (simp add: s2)
  have c3: "calm s3" using c2 sync_files_effect [of s2 cf] by (simp add: s3)
  have re: "r = steps [must cf QQ_LINK_TODO_INTD True ?m ?op, \<lambda>s. (snd (sys QTrigger s))\<lparr>qs_exit := Some 0\<rparr>] s3"
    by (simp add: r_def queue_run_def steps_cons [of "write_mess cf body"] calm_start steps_cons [of "write_intd L cf env"]
          steps_cons [of "sync_files cf"] flip: s1 s2 s3)
  show ?thesis
  proof (cases "alive s3")
    case True
    then have a: "alive s1" "alive s2" "alive s3" using s2 s3 by (auto split: if_splits)
    have st: "stored L cf body env (qs_trace s3)"
      using c1 a write_intd_effect [of s1 _ cf L env] sync_files_effect [OF a(2) c2, of cf] assms(1)
      unfolding stored_def s2 s3 by fastforce
    have t4: "qs_trace s4 = qs_trace s3 @ (if ok then [?op] else failed_op (qs_part s3 (qs_calls s3)) ?op)"
      and x4: "qs_exit s4 = qs_exit s3"
      using sys_fields(1,9) [of ?op s3] by (simp_all add: s4)
    show ?thesis
    proof (cases ok)
      case True
      have rr: "r = (snd (sys QTrigger s4))\<lparr>qs_exit := Some 0\<rparr>"
        using a x4 s4 True by (simp add: re must_def alive_def)
      have "qs_trace r = qs_trace s3 @ ?op # (if fst (sys QTrigger s4) then [QTrigger] else [])"
        using sys_fields(9) [of QTrigger s4] True by (simp add: rr t4 failed_op_def)
      then show ?thesis using c3 st
        by (intro disjI2 exI [of _ "qs_trace s3"] exI [of _ "if fst (sys QTrigger s4) then [QTrigger] else []"])
           (simp add: rr calm_def closing_def)
    next
      case False
      then have rr: "r = die cf QQ_LINK_TODO_INTD True ?m s4"
        using a s4 by (simp add: re must_def steps_dead)
      show ?thesis
      proof (cases "qs_part s3 (qs_calls s3) = 0")
        case True
        then have "calm s4" using c3 t4 x4 False by (simp add: calm_def failed_op_def)
        then show ?thesis by (simp add: rr calm_die qq_codes)
      next
        case late: False
        obtain t where t: "qs_trace r = qs_trace s4 @ t" "set t \<subseteq> {QTrunc QIntd, QTrunc QMess, QUnlink QIntd, QUnlink QMess, QUnsynced}"
          using die_trace(2) [of s4 cf QQ_LINK_TODO_INTD True ?m] unfolding rr undid_def by blast
        have "qs_trace r = qs_trace s3 @ ?op # QUnsynced # t" using t(1) t4 False late by (simp add: failed_op_def)
        moreover have "qs_exit r \<noteq> Some 0" using die_trace(1) rr by (simp add: qq_codes)
        ultimately show ?thesis using c3 st t(2) unfolding calm_def undoing_def by blast
      qed
    qed
  next
    case False
    then show ?thesis using c3 by (simp add: re steps_dead)
  qed
qed

text \<open>The timer rang, and what it left.\<close>

definition rang :: "nat option \<Rightarrow> qqs \<Rightarrow> bool" where
  "rang alarm r \<longleftrightarrow> alarm = Some (length (qs_trace r))"

lemma timer_cases:
  obtains "\<not> rang alarm (timer cf alarm r)" "timer cf alarm r = r"
  | k where "rang alarm (timer cf alarm r)" "qs_trace (timer cf alarm r) = take k (qs_trace r)" "qs_exit (timer cf alarm r) \<noteq> Some 0"
proof (cases "\<exists>k. alarm = Some k \<and> k \<le> length (qs_trace r)")
  case True
  then obtain k where k: "alarm = Some k" "k \<le> length (qs_trace r)" by blast
  let ?s = "r\<lparr>qs_trace := take k (qs_trace r)\<rparr>"
  have "timer cf alarm r = die (cf\<lparr>qc_errno := []\<rparr>) QQ_TIMEOUT False ''timer expired'' ?s"
    using k by (simp add: timer_def)
  then have "qs_trace (timer cf alarm r) = take k (qs_trace r)" "qs_exit (timer cf alarm r) \<noteq> Some 0"
    using die_trace(1) [of QQ_TIMEOUT] by (simp_all add: die_def Let_def qq_codes)
  then show thesis using that(2) k by (simp add: rang_def)
next
  case False
  then have "timer cf alarm r = r" by (auto simp: timer_def split: option.split)
  then show thesis using that(1) False by (auto simp: rang_def)
qed

lemma qmail_queue_effect:
  assumes "qc_quarantine cf = []" and r_def: "r = qmail_queue L cf body env (qq_start fail part spill alarm)"
  shows "calm r \<or>
    (\<exists>pre post. qs_trace r = pre @ QLink QIntd QTodo # post \<and> \<not> announced pre \<and> \<not> announced post \<and> stored L cf body env pre \<and>
       (closing post \<and> (qs_exit r = Some 0 \<longleftrightarrow> \<not> rang alarm r) \<or> undoing post \<and> qs_exit r \<noteq> Some 0))"
proof -
  let ?r = "queue_run L cf body env (qq_start fail part spill alarm)"
  have r: "r = timer cf alarm ?r" by (simp add: r_def qmail_queue_def) (simp add: qq_start_def)
  have post: "\<not> announced post" if "closing post \<or> undoing post" for post
    using that by (auto simp: closing_def undoing_def announced_def)
  note eff = queue_run_effect [OF assms(1) refl, of L body env fail part spill alarm]
  show ?thesis
  proof (cases rule: timer_cases [of alarm cf ?r])
    case 1
    then have nr: "\<not> rang alarm r" "r = ?r" by (simp_all add: r)
    show ?thesis using eff post nr(1) unfolding nr(2) [symmetric] by blast
  next
    case (2 k)
    then have k: "rang alarm r" "qs_trace r = take k (qs_trace ?r)" "qs_exit r \<noteq> Some 0" by (simp_all add: r)
    show ?thesis
    proof (cases "announced (qs_trace r)")
      case False
      then show ?thesis using k(3) by (simp add: calm_def)
    next
      case True
      then have "announced (qs_trace ?r)" unfolding k(2) announced_def by (meson in_set_takeD)
      then obtain pre post where e: "qs_trace ?r = pre @ QLink QIntd QTodo # post" "\<not> announced pre" "stored L cf body env pre"
          "closing post \<or> undoing post"
        using eff unfolding calm_def by blast
      have "length pre < k"
      proof (rule ccontr)
        assume "\<not> length pre < k"
        then have "qs_trace r = take k pre" by (simp add: k(2) e(1))
        then show False using True e(2) by (metis announced_def in_set_takeD)
      qed
      then have t: "qs_trace r = pre @ QLink QIntd QTodo # take (k - Suc (length pre)) post"
        by (simp add: k(2) e(1) take_Cons')
      have "closing (take j post) \<or> undoing (take j post)" for j
        using e(4) by (cases j) (auto simp: closing_def undoing_def dest!: in_set_takeD)
      then show ?thesis using t e(2,3) k(1,3) post by blast
    qed
  qed
qed

text \<open>The link, and what is there when it is made.\<close>

lemma link_complete:
  assumes "qc_quarantine cf = []" "r = qmail_queue L cf body env (qq_start fail part spill alarm)"
  shows "(qs_exit r = Some 0 \<longleftrightarrow> (\<exists>pre post. qs_trace r = pre @ QLink QIntd QTodo # post \<and> closing post) \<and> \<not> rang alarm r) \<and>
    (\<forall>pre post. qs_trace r = pre @ QLink QIntd QTodo # post \<longrightarrow> stored L cf body env pre \<and> (closing post \<or> undoing post))"
proof -
  consider "calm r" | pre post where "qs_trace r = pre @ QLink QIntd QTodo # post"
      "\<not> announced pre" "\<not> announced post" "stored L cf body env pre"
      "closing post \<and> (qs_exit r = Some 0 \<longleftrightarrow> \<not> rang alarm r) \<or> undoing post \<and> qs_exit r \<noteq> Some 0"
    using qmail_queue_effect [OF assms] by blast
  then show ?thesis
  proof cases
    case 1
    then show ?thesis by (auto simp: calm_def announced_def)
  next
    case 2
    have u: "pre' = pre \<and> post' = post" if "qs_trace r = pre' @ QLink QIntd QTodo # post'" for pre' post'
    proof -
      have "QLink QIntd QTodo \<notin> set pre" "QLink QIntd QTodo \<notin> set post" using 2(2,3) by (auto simp: announced_def)
      then show ?thesis using that unfolding 2(1) by (metis append_Cons_eq_iff)
    qed
    have "\<not> (closing post \<and> undoing post)" by (auto simp: closing_def undoing_def)
    then show ?thesis using 2 u by blast
  qed
qed

end
