(* ===== verification/TodoFacts.thy ===== *)
theory TodoFacts
  imports TodoProc QmailQueueFacts
begin

text \<open>
  What \<^verbatim>\<open>todo-proc\<close> has moved when it asks for the removal of an envelope.
\<close>

section \<open>The records of a file\<close>

function records_of :: "bytes \<Rightarrow> bytes list" where
  "records_of d = (case read_record d of None \<Rightarrow> [] | Some (l, d') \<Rightarrow> l # records_of d')"
  by pat_completeness auto
termination
  by (relation "measure length") (auto dest: read_record_length)

declare records_of.simps [simp del]

lemma records_of_append: "no_nul l \<Longrightarrow> records_of (l @ NUL # d) = l # records_of d"
  by (subst records_of.simps) simp

lemma records_of_none: "read_record d = None \<Longrightarrow> records_of d = []"
  by (subst records_of.simps) simp

definition known :: "bytes \<Rightarrow> bool" where
  "known l \<longleftrightarrow> l \<noteq> [] \<and> hd l \<in> set ''upheFT''"

definition chan_of :: "libq \<Rightarrow> routes \<Rightarrow> bytes \<Rightarrow> nat" where
  "chan_of L rt a = (if fst (rewrite L rt a) = 2 then 1 else 0)"

text \<open>What goes to \<^verbatim>\<open>info/id\<close>, and to the list of a channel.\<close>

definition info_part :: "bytes list \<Rightarrow> bytes" where
  "info_part ls = concat (map (\<lambda>l. l @ [NUL]) (filter (\<lambda>l. hd l \<in> set ''heF'') ls))"

definition chan_part :: "libq \<Rightarrow> routes \<Rightarrow> nat \<Rightarrow> bytes list \<Rightarrow> bytes" where
  "chan_part L rt c ls =
     concat (map (\<lambda>l. snd (rewrite L rt (tl l))) (filter (\<lambda>l. hd l = CHR ''T'' \<and> chan_of L rt (tl l) = c) ls))"

lemma part_simps [simp]:
  "info_part [] = []" "chan_part L rt c [] = []"
  "info_part (l # ls) = (if hd l \<in> set ''heF'' then l @ [NUL] else []) @ info_part ls"
  "chan_part L rt c (l # ls) = (if hd l = CHR ''T'' \<and> chan_of L rt (tl l) = c then snd (rewrite L rt (tl l)) else []) @ chan_part L rt c ls"
  by (simp_all add: info_part_def chan_part_def)

lemma rewrite_nonempty: "snd (rewrite L rt a) \<noteq> []" "fst (rewrite L rt a) = 2 \<or> fst (rewrite L rt a) = 1"
  by (auto simp: rewrite_def Let_def split: option.split)

section \<open>Steps\<close>

text \<open>Whether a file exists; what was there at the start is not known.\<close>

fun present_step :: "qname \<Rightarrow> qop \<Rightarrow> bool \<Rightarrow> bool" where
  "present_step n (QOpen m) p = (p \<or> m = n)"
| "present_step n (QUnlink m) p = (p \<and> m \<noteq> n)"
| "present_step n (QLink m m') p = (p \<or> m' = n)"
| "present_step n (QAppend m b) p = p"
| "present_step n (QFsync m) p = p"
| "present_step n (QTrunc m) p = p"
| "present_step n QTrigger p = p"
| "present_step n (QAsk m) p = p"
| "present_step n QUnsynced p = p"

definition present :: "qname \<Rightarrow> qop list \<Rightarrow> bool" where
  "present n tr = fold (present_step n) tr True"

lemma present_snoc [simp]: "present n (tr @ [op]) = present_step n op (present n tr)"
  by (simp add: present_def)

text \<open>The lines for \<^verbatim>\<open>qmail-send\<close> so far are log lines.\<close>

definition only_info :: "bytes \<Rightarrow> bool" where
  "only_info cm \<longleftrightarrow> (\<exists>ts. cm = concat (map (\<lambda>t. ''L'' @ t @ [NUL]) ts) \<and> (\<forall>t \<in> set ts. no_nul t \<and> t \<noteq> []))"

text \<open>No removal has been asked for, nothing but log lines has been sent, and the process goes on.\<close>

definition quiet :: "todop \<Rightarrow> bool" where
  "quiet s \<longleftrightarrow> QAsk QTodo \<notin> set (qs_trace s) \<and> only_info (tp_comm s) \<and> \<not> tp_exit s"

declare quiet_def [simp]

definition tgiven :: "qname \<Rightarrow> todop \<Rightarrow> bytes" where
  "tgiven n s = content n (qs_trace s) @ tp_bufs s n"

text \<open>\<open>iv\<close> has been given to \<^verbatim>\<open>info/id\<close>, \<open>g c\<close> to the list of the channel \<open>c\<close>, which is open if this is not empty.\<close>

definition taken :: "bytes \<Rightarrow> (nat \<Rightarrow> bytes) \<Rightarrow> todop \<Rightarrow> bool" where
  "taken iv g s \<longleftrightarrow> tgiven QInfo s = iv \<and>
     (\<forall>c. (tp_open s c \<longleftrightarrow> g c \<noteq> []) \<and> (tp_flag s c \<longleftrightarrow> g c \<noteq> []) \<and> (g c \<noteq> [] \<longrightarrow> tgiven (QChan c) s = g c)) \<and>
     (\<forall>c < 2. present (QChan c) (qs_trace s) \<longleftrightarrow> g c \<noteq> []) \<and> quiet s"

text \<open>A system call: what it leaves behind when it fails, and otherwise.\<close>

definition after_fail :: "qop \<Rightarrow> todop \<Rightarrow> todop" where
  "after_fail op s = s\<lparr>qs_calls := qs_calls s + 1, qs_trace := qs_trace s @ failed_op (qs_part s (qs_calls s)) op\<rparr>"

lemma after_fail_fields [simp]:
  "qs_trace (after_fail op s) = qs_trace s @ failed_op (qs_part s (qs_calls s)) op" "qs_fail (after_fail op s) = qs_fail s"
  "tp_comm (after_fail op s) = tp_comm s" "tp_exit (after_fail op s) = tp_exit s"
  by (simp_all add: after_fail_def)

lemma sys_eq:
  "sys op s = (if qs_fail s (qs_calls s) then (False, after_fail op s)
     else (True, s\<lparr>qs_calls := qs_calls s + 1, qs_trace := qs_trace s @ [op]\<rparr>))"
  by (simp add: sys_def Let_def after_fail_def)

text \<open>
  From \<open>P\<close> the step leads to \<open>Q\<close> unless it fails, and stays \<open>quiet\<close> in any case; it cannot fail when no call fails, provided that \<open>k\<close>.
\<close>

definition does :: "bool \<Rightarrow> (todop \<Rightarrow> bool) \<Rightarrow> tstep \<Rightarrow> (todop \<Rightarrow> bool) \<Rightarrow> bool" where
  "does k P f Q \<longleftrightarrow> (\<forall>s. P s \<longrightarrow> quiet (snd (f s)) \<and> (fst (f s) \<longrightarrow> Q (snd (f s))) \<and>
     (k \<longrightarrow> (\<forall>n. \<not> qs_fail s n) \<longrightarrow> fst (f s) \<and> (\<forall>n. \<not> qs_fail (snd (f s)) n)))"

lemma doesD:
  assumes "does k P f Q" "P s" "f s = (ok, s')"
  shows "quiet s'" "ok \<Longrightarrow> Q s'" "k \<Longrightarrow> \<forall>n. \<not> qs_fail s n \<Longrightarrow> ok \<and> (\<forall>n. \<not> qs_fail s' n)"
  using assms by (auto simp: does_def)

lemma doesI:
  assumes "\<And>s ok s'. P s \<Longrightarrow> f s = (ok, s') \<Longrightarrow>
    quiet s' \<and> (ok \<longrightarrow> Q s') \<and> (k \<longrightarrow> (\<forall>n. \<not> qs_fail s n) \<longrightarrow> ok \<and> (\<forall>n. \<not> qs_fail s' n))"
  shows "does k P f Q"
  using assms unfolding does_def by (metis prod.collapse)

lemma does_also:
  assumes "does k P f Q" "does k Q g R"
  shows "does k P (also_do f g) R"
proof (rule doesI)
  fix s ok s'
  assume s: "P s" "also_do f g s = (ok, s')"
  obtain ok1 s1 where f: "f s = (ok1, s1)" by (metis surj_pair)
  show "quiet s' \<and> (ok \<longrightarrow> R s') \<and> (k \<longrightarrow> (\<forall>n. \<not> qs_fail s n) \<longrightarrow> ok \<and> (\<forall>n. \<not> qs_fail s' n))"
  proof (cases ok1)
    case True
    then have "g s1 = (ok, s')" "Q s1" using s(2) f doesD(2) [OF assms(1) s(1) f] by (simp_all add: also_do_def)
    then show ?thesis using doesD [OF assms(2)] doesD(3) [OF assms(1) s(1) f] by blast
  next
    case False
    then show ?thesis using s(2) f doesD [OF assms(1) s(1) f] by (auto simp: also_do_def)
  qed
qed

lemma does_done: "(\<And>s. P s \<Longrightarrow> quiet s) \<Longrightarrow> does k P (Pair True) P"
  by (simp add: does_def)

lemma does_weaken: "does k P f Q \<Longrightarrow> (\<And>s. P' s \<Longrightarrow> P s) \<Longrightarrow> (\<And>s. Q s \<Longrightarrow> Q' s) \<Longrightarrow> (k' \<Longrightarrow> k) \<Longrightarrow> does k' P' f Q'"
  unfolding does_def by blast

lemma does_pre:
  assumes "does k P f Q" "\<And>s. P' s \<Longrightarrow> P (h s)" "\<And>s. qs_fail (h s) = qs_fail s"
  shows "does k P' (\<lambda>s. f (h s)) Q"
  using assms by (simp add: does_def)

text \<open>A system call, followed by an update when it succeeds.\<close>

lemma does_sys:
  assumes "\<And>s s1. P s \<Longrightarrow> sys op s = (True, s1) \<Longrightarrow> qs_trace s1 = qs_trace s @ [op] \<Longrightarrow>
      s1 = s\<lparr>qs_calls := qs_calls s + 1, qs_trace := qs_trace s @ [op]\<rparr> \<Longrightarrow> Q (h s1)"
    and "\<And>s. P s \<Longrightarrow> quiet s" "op \<noteq> QAsk QTodo"
    and "\<And>s. qs_trace (h s) = qs_trace s" "\<And>s. qs_fail (h s) = qs_fail s" "\<And>s. tp_comm (h s) = tp_comm s" "\<And>s. tp_exit (h s) = tp_exit s"
  shows "does k P (\<lambda>s. case sys op s of (True, s1) \<Rightarrow> (True, h s1) | (False, s1) \<Rightarrow> (False, s1)) Q"
proof (rule doesI)
  fix s ok s'
  assume s: "P s" "(case sys op s of (True, s1) \<Rightarrow> (True, h s1) | (False, s1) \<Rightarrow> (False, s1)) = (ok, s')"
  let ?s1 = "s\<lparr>qs_calls := qs_calls s + 1, qs_trace := qs_trace s @ [op]\<rparr>"
  have y: "sys op s = (if qs_fail s (qs_calls s) then (False, after_fail op s) else (True, ?s1))"
    by (simp add: sys_eq)
  show "quiet s' \<and> (ok \<longrightarrow> Q s') \<and> (k \<longrightarrow> (\<forall>n. \<not> qs_fail s n) \<longrightarrow> ok \<and> (\<forall>n. \<not> qs_fail s' n))"
  proof (cases "qs_fail s (qs_calls s)")
    case True
    then show ?thesis using s y assms(2) [OF s(1)] by auto
  next
    case False
    then have "ok" "s' = h ?s1" using s y by auto
    moreover have "Q (h ?s1)" using assms(1) [OF s(1), of ?s1] y False by simp
    ultimately show ?thesis using assms(2) [OF s(1)] assms(3-7) by simp
  qed
qed

lemma does_t_sys:
  assumes "\<And>s. P s \<Longrightarrow> Q (s\<lparr>qs_calls := qs_calls s + 1, qs_trace := qs_trace s @ [op]\<rparr>)"
    and "\<And>s. P s \<Longrightarrow> quiet s" "op \<noteq> QAsk QTodo"
  shows "does k P (t_sys op) Q"
proof -
  have "(\<lambda>s. case sys op s of (True, s1) \<Rightarrow> (True, s1) | (False, s1) \<Rightarrow> (False, s1)) = t_sys op"
    by (auto simp: t_sys_def fun_eq_iff split: prod.split bool.split)
  then show ?thesis using does_sys [of P op Q "\<lambda>s. s" k] assms by simp
qed

lemma does_try: "does k (taken iv g) t_try (taken iv g)"
  by (simp add: does_def t_try_def taken_def tgiven_def)

lemma taken_quiet: "taken iv g s \<Longrightarrow> quiet s"
  by (simp add: taken_def)

section \<open>Writing\<close>

text \<open>Another file or another stream is not affected.\<close>

lemma tgiven_put:
  "tgiven n (s\<lparr>qs_calls := i, qs_trace := qs_trace s @ [QAppend m (take k (tp_bufs s m @ b))],
      tp_bufs := (tp_bufs s)(m := drop k (tp_bufs s m @ b))\<rparr>) = tgiven n s @ (if n = m then b else [])"
  by (cases "n = m") (simp_all add: tgiven_def del: take_append drop_append)

lemma t_put_info: "does k (taken iv g) (t_put QInfo b) (taken (iv @ b) g)"
proof (rule doesI)
  fix s ok s'
  assume s: "taken iv g s" "t_put QInfo b s = (ok, s')"
  let ?k = "qs_spill s (qs_calls s)" and ?d = "tp_bufs s QInfo @ b"
  let ?s1 = "s\<lparr>qs_calls := qs_calls s + 1, qs_trace := qs_trace s @ [QAppend QInfo (take ?k ?d)], tp_bufs := (tp_bufs s)(QInfo := drop ?k ?d)\<rparr>"
  have e: "(ok, s') = (if qs_fail s (qs_calls s) then (False, after_fail (QAppend QInfo (take ?k ?d)) s) else (True, ?s1))"
    using s(2) by (simp add: t_put_def sys_eq Let_def split: if_splits)
  have "taken (iv @ b) g ?s1"
    using s(1) tgiven_put [where s = s and m = QInfo and k = ?k and b = b] unfolding taken_def by simp
  then show "quiet s' \<and> (ok \<longrightarrow> taken (iv @ b) g s') \<and> (k \<longrightarrow> (\<forall>n. \<not> qs_fail s n) \<longrightarrow> ok \<and> (\<forall>n. \<not> qs_fail s' n))"
    using e s(1) by (auto simp: taken_def split: if_splits)
qed

text \<open>The list of a channel: opened when first used.\<close>

definition opened :: "nat \<Rightarrow> bytes \<Rightarrow> (nat \<Rightarrow> bytes) \<Rightarrow> todop \<Rightarrow> bool" where
  "opened c iv g s \<longleftrightarrow> tp_open s c \<and> tp_flag s c \<and> tgiven (QChan c) s = g c \<and> tgiven QInfo s = iv \<and>
     (\<forall>c'. c' \<noteq> c \<longrightarrow> (tp_open s c' \<longleftrightarrow> g c' \<noteq> []) \<and> (tp_flag s c' \<longleftrightarrow> g c' \<noteq> []) \<and> (g c' \<noteq> [] \<longrightarrow> tgiven (QChan c') s = g c')) \<and>
     (\<forall>c' < 2. present (QChan c') (qs_trace s) \<longleftrightarrow> c' = c \<or> g c' \<noteq> []) \<and> quiet s"

lemma does_open_chan: "does k (taken iv g) (open_chan c) (opened c iv g)"
proof (rule doesI)
  fix s ok s'
  assume s: "taken iv g s" "open_chan c s = (ok, s')"
  let ?s1 = "s\<lparr>qs_calls := qs_calls s + 1, qs_trace := qs_trace s @ [QOpen (QChan c)],
     tp_open := (tp_open s)(c := True), tp_flag := (tp_flag s)(c := True), tp_bufs := (tp_bufs s)(QChan c := [])\<rparr>"
  show "quiet s' \<and> (ok \<longrightarrow> opened c iv g s') \<and> (k \<longrightarrow> (\<forall>n. \<not> qs_fail s n) \<longrightarrow> ok \<and> (\<forall>n. \<not> qs_fail s' n))"
  proof (cases "tp_open s c")
    case True
    then have "opened c iv g s" using s(1) by (auto simp: taken_def opened_def)
    then show ?thesis using True s by (auto simp: open_chan_def taken_def)
  next
    case False
    then have e: "(ok, s') = (if qs_fail s (qs_calls s) then (False, after_fail (QOpen (QChan c)) s) else (True, ?s1))"
      using s(2) by (simp add: open_chan_def sys_eq Let_def split: if_splits)
    have "g c = []" using False s(1) by (simp add: taken_def)
    then have "opened c iv g ?s1" using s(1) by (auto simp: opened_def taken_def tgiven_def)
    then show ?thesis using e s(1) by (auto simp: taken_def split: if_splits)
  qed
qed

lemma t_put_chan:
  assumes "b \<noteq> []"
  shows "does k (opened c iv g) (t_put (QChan c) b) (taken iv (g(c := g c @ b)))"
proof (rule doesI)
  fix s ok s'
  assume s: "opened c iv g s" "t_put (QChan c) b s = (ok, s')"
  let ?k = "qs_spill s (qs_calls s)" and ?d = "tp_bufs s (QChan c) @ b"
  let ?s1 = "s\<lparr>qs_calls := qs_calls s + 1, qs_trace := qs_trace s @ [QAppend (QChan c) (take ?k ?d)],
     tp_bufs := (tp_bufs s)(QChan c := drop ?k ?d)\<rparr>"
  have e: "(ok, s') = (if qs_fail s (qs_calls s) then (False, after_fail (QAppend (QChan c) (take ?k ?d)) s) else (True, ?s1))"
    using s(2) by (simp add: t_put_def sys_eq Let_def split: if_splits)
  have "taken iv (g(c := g c @ b)) ?s1"
    using s(1) assms tgiven_put [where s = s and m = "QChan c" and k = ?k and b = b] unfolding taken_def opened_def by auto
  then show "quiet s' \<and> (ok \<longrightarrow> taken iv (g(c := g c @ b)) s') \<and>
      (k \<longrightarrow> (\<forall>n. \<not> qs_fail s n) \<longrightarrow> ok \<and> (\<forall>n. \<not> qs_fail s' n))"
    using e s(1) by (auto simp: opened_def split: if_splits)
qed

section \<open>The loop over the records\<close>

lemma taken_vars [simp]:
  "taken iv g (s\<lparr>tp_mailto := x\<rparr>) = taken iv g s" "taken iv g (s\<lparr>tp_mailfrom := x\<rparr>) = taken iv g s"
  "taken iv g (s\<lparr>tp_uid := n\<rparr>) = taken iv g s" "taken iv g (s\<lparr>tp_pid := n\<rparr>) = taken iv g s"
  by (simp_all add: taken_def tgiven_def)

lemma does_rcpt:
  assumes "c = chan_of L (tc_routes cf) (tl l)"
  shows "does k (taken iv g) (todo_rcpt L cf l) (taken iv (g(c := g c @ snd (rewrite L (tc_routes cf) (tl l)))))"
proof -
  let ?w = "snd (rewrite L (tc_routes cf) (tl l))"
  let ?fs = "[open_chan c, t_put (QChan c) ?w]"
  have d: "does k (taken iv g) (all_do ?fs) (taken iv (g(c := g c @ ?w)))"
    unfolding all_do_simps
    by (rule does_also [OF does_open_chan does_also [OF t_put_chan [OF rewrite_nonempty(1)]]]) (rule does_done [OF taken_quiet])
  have "todo_rcpt L cf l s = all_do ?fs (s\<lparr>tp_mailto := tp_mailto s @ (if c = 1 then ''R'' else ''L'') @ l @ [NUL]\<rparr>)" for s
    by (simp add: todo_rcpt_def assms chan_of_def case_prod_beta Let_def)
  then show ?thesis using d unfolding does_def by simp
qed

lemma only_info_line:
  assumes "libqmail L" "only_info (tp_comm s)"
  shows "only_info (tp_comm (todo_comm_info L cf i sz from s))"
proof -
  obtain ts where ts: "tp_comm s = concat (map (\<lambda>t. ''L'' @ t @ [NUL]) ts)" "\<forall>t \<in> set ts. no_nul t \<and> t \<noteq> []"
    using assms(2) unfolding only_info_def by blast
  let ?f = "map (\<lambda>ch. if ch = LF then CHR ''/'' else if \<not> todo_issafe ch then CHR ''_'' else ch) (cstr from)"
  let ?t = "''info msg '' @ lq_fmt_ulong L i @ '': bytes '' @ lq_fmt_ulong L sz @ '' from <'' @ ?f
         @ ''> qp '' @ lq_fmt_ulong L (tp_pid s) @ '' uid '' @ lq_fmt_ulong L (tp_uid s) @ '' '' @ cstr (tc_desc cf) @ [LF]"
  have "no_nul ?f" by (auto simp: no_nul_def todo_issafe_def schar_def cstr_def dest: set_takeWhileD split: if_splits)
  then have "no_nul ?t" using libqmail.fmt_ulong_no_nul [OF assms(1)] by simp
  moreover have "tp_comm (todo_comm_info L cf i sz from s) = concat (map (\<lambda>t. ''L'' @ t @ [NUL]) (ts @ [?t]))"
    by (simp add: todo_comm_info_def ts(1))
  ultimately show ?thesis unfolding only_info_def using ts(2) by (intro exI [of _ "ts @ [?t]"]) auto
qed

lemma does_record:
  assumes "libqmail L"
  shows "does (known l) (taken iv g) (todo_record L cf i sz l)
    (\<lambda>s. known l \<and> taken (iv @ (if hd l \<in> set ''heF'' then l @ [NUL] else []))
       (\<lambda>c. g c @ (if hd l = CHR ''T'' \<and> chan_of L (tc_routes cf) (tl l) = c then snd (rewrite L (tc_routes cf) (tl l)) else [])) s)"
    (is "does _ _ _ (\<lambda>s. _ \<and> taken ?iv ?g s)")
proof (cases l)
  case Nil
  then show ?thesis by (auto simp: does_def todo_record_def known_def dest: taken_quiet)
next
  case (Cons t arg)
  consider "t = CHR ''u'' \<or> t = CHR ''p''" | "t = CHR ''h'' \<or> t = CHR ''e''" | "t = CHR ''F''" | "t = CHR ''T''"
    | "t \<notin> set ''upheFT''" by auto
  then show ?thesis
  proof cases
    case 1
    then show ?thesis using Cons by (auto simp: does_def todo_record_def known_def taken_quiet [simplified])
  next
    case 2
    then have "todo_record L cf i sz l = t_put QInfo (l @ [NUL])" "known l" "?iv = iv @ l @ [NUL]" "?g = g"
      using Cons by (auto simp: fun_eq_iff todo_record_def known_def)
    then show ?thesis using t_put_info by simp
  next
    case 3
    let ?h = "\<lambda>s1. todo_comm_info L cf i sz arg (s1\<lparr>tp_mailfrom := l @ [NUL, NUL]\<rparr>)"
    have p: "known l" "?iv = iv @ l @ [NUL]" "?g = g" using 3 Cons by (auto simp: known_def)
    have r: "todo_record L cf i sz l s = (case t_put QInfo (l @ [NUL]) s of (False, s1) \<Rightarrow> (False, s1) | (True, s1) \<Rightarrow> (True, ?h s1))" for s
      using 3 Cons by (simp add: todo_record_def split: prod.split bool.split)
    have h: "taken v g (?h s)" if "taken v g s" for v s
      using that only_info_line [OF assms, of "s\<lparr>tp_mailfrom := l @ [NUL, NUL]\<rparr>" cf i sz arg]
      by (simp add: taken_def tgiven_def todo_comm_info_def)
    have f: "qs_trace (?h s) = qs_trace s" "qs_fail (?h s) = qs_fail s" "tp_exit (?h s) = tp_exit s" for s
      by (simp_all add: todo_comm_info_def)
    have oi: "only_info (tp_comm s) \<Longrightarrow> only_info (tp_comm (?h s))" for s
      using only_info_line [OF assms, of "s\<lparr>tp_mailfrom := l @ [NUL, NUL]\<rparr>" cf i sz arg] by simp
    show ?thesis unfolding p(2,3)
    proof (rule doesI)
      fix s ok s'
      assume s: "taken iv g s" "todo_record L cf i sz l s = (ok, s')"
      obtain ok1 s1 where 1: "t_put QInfo (l @ [NUL]) s = (ok1, s1)" by (metis surj_pair)
      note d = doesD [OF t_put_info s(1) 1]
      show "quiet s' \<and> (ok \<longrightarrow> known l \<and> taken (iv @ l @ [NUL]) g s') \<and>
          (known l \<longrightarrow> (\<forall>n. \<not> qs_fail s n) \<longrightarrow> ok \<and> (\<forall>n. \<not> qs_fail s' n))"
        using s(2) 1 r d(1,2) d(3) [OF TrueI] h p(1) f oi by (cases ok1) auto
    qed
  next
    case 4
    let ?c = "chan_of L (tc_routes cf) (tl l)"
    have "known l" "?iv = iv" "?g = g(?c := g ?c @ snd (rewrite L (tc_routes cf) (tl l)))"
      "todo_record L cf i sz l = todo_rcpt L cf l"
      using 4 Cons by (auto simp: fun_eq_iff todo_record_def known_def)
    then show ?thesis using does_rcpt [OF refl] by simp
  next
    case 5
    then show ?thesis using Cons by (auto simp: does_def todo_record_def known_def dest: taken_quiet)
  qed
qed

lemma does_records:
  assumes "libqmail L"
  shows "does (list_all known (records_of d)) (taken iv g) (todo_records L cf i sz d)
    (\<lambda>s. list_all known (records_of d) \<and>
       taken (iv @ info_part (records_of d)) (\<lambda>c. g c @ chan_part L (tc_routes cf) c (records_of d)) s)"
proof (induction "length d" arbitrary: d iv g rule: less_induct)
  case less
  let ?k = "list_all known (records_of d)"
  have t: "todo_records L cf i sz d = also_do t_try (case read_record d of None \<Rightarrow> Pair True
      | Some (l, d') \<Rightarrow> also_do (todo_record L cf i sz l) (todo_records L cf i sz d'))"
    by (rule ext, subst todo_records.simps) (auto simp: also_do_def split: option.split prod.split bool.split)
  show ?case
  proof (cases "read_record d")
    case None
    then show ?thesis unfolding t using records_of_none [OF None] by (simp add: does_also [OF does_try does_done [OF taken_quiet]])
  next
    case (Some a)
    obtain l d' where a: "a = (l, d')" by (cases a)
    have d: "d = l @ NUL # d'" "no_nul l" "length d' < length d" "records_of d = l # records_of d'"
      using read_record_Some [OF Some [unfolded a]] records_of_append by auto
    let ?g = "\<lambda>c. g c @ (if hd l = CHR ''T'' \<and> chan_of L (tc_routes cf) (tl l) = c then snd (rewrite L (tc_routes cf) (tl l)) else [])"
    let ?iv = "iv @ (if hd l \<in> set ''heF'' then l @ [NUL] else [])"
    have r: "does ?k (taken iv g) (todo_record L cf i sz l) (\<lambda>s. known l \<and> taken ?iv ?g s)"
      by (rule does_weaken [OF does_record [OF assms]]) (auto simp: d(4))
    have n: "does ?k (\<lambda>s. known l \<and> taken ?iv ?g s) (todo_records L cf i sz d')
        (\<lambda>s. list_all known (records_of d) \<and> taken (iv @ info_part (records_of d)) (\<lambda>c. g c @ chan_part L (tc_routes cf) c (records_of d)) s)"
    proof (cases "known l")
      case True
      show ?thesis
        by (rule does_weaken [OF less [OF d(3)]]) (auto simp: d(4) True)
    next
      case False
      then show ?thesis by (simp add: does_def)
    qed
    show ?thesis unfolding t Some a using does_also [OF does_try does_also [OF r n]] by simp
  qed
qed

section \<open>Flushing and syncing\<close>

text \<open>The files that have to be there.\<close>

definition needed :: "(nat \<Rightarrow> bytes) \<Rightarrow> qname \<Rightarrow> bool" where
  "needed g n \<longleftrightarrow> (case n of QChan c \<Rightarrow> g c \<noteq> [] | _ \<Rightarrow> True)"

text \<open>The files in \<open>fl\<close> are flushed, those in \<open>sy\<close> synced; the channels in \<open>op\<close> are still open if used.\<close>

definition held :: "bytes \<Rightarrow> (nat \<Rightarrow> bytes) \<Rightarrow> qname set \<Rightarrow> qname set \<Rightarrow> nat set \<Rightarrow> todop \<Rightarrow> bool" where
  "held iv g fl sy op s \<longleftrightarrow> tgiven QInfo s = iv \<and>
     (\<forall>c. (tp_flag s c \<longleftrightarrow> g c \<noteq> []) \<and> (g c \<noteq> [] \<longrightarrow> tgiven (QChan c) s = g c)) \<and>
     (\<forall>c < 2. present (QChan c) (qs_trace s) \<longleftrightarrow> g c \<noteq> []) \<and> quiet s \<and>
     (\<forall>n \<in> fl. needed g n \<longrightarrow> tp_bufs s n = []) \<and> (\<forall>n \<in> sy. needed g n \<longrightarrow> synced n (qs_trace s)) \<and>
     (\<forall>c \<in> op. tp_open s c \<longleftrightarrow> g c \<noteq> [])"

lemma held_taken: "taken iv g s \<Longrightarrow> held iv g {} {} UNIV s"
  by (simp add: held_def taken_def)

lemma held_quiet: "held iv g fl sy op s \<Longrightarrow> quiet s"
  by (simp add: held_def)

lemma does_flush: "does k (held iv g fl {} op) (t_flush n) (held iv g (insert n fl) {} op)"
proof (rule doesI)
  fix s ok s'
  assume s: "held iv g fl {} op s" "t_flush n s = (ok, s')"
  let ?s1 = "s\<lparr>qs_calls := qs_calls s + 1, qs_trace := qs_trace s @ [QAppend n (tp_bufs s n)], tp_bufs := (tp_bufs s)(n := [])\<rparr>"
  have e: "(ok, s') = (if qs_fail s (qs_calls s) then (False, after_fail (QAppend n (tp_bufs s n)) s) else (True, ?s1))"
    using s(2) by (simp add: t_flush_def sys_eq Let_def split: if_splits)
  have "tgiven m ?s1 = tgiven m s" for m by (simp add: tgiven_def)
  then have "held iv g (insert n fl) {} op ?s1" using s(1) by (simp add: held_def)
  then show "quiet s' \<and> (ok \<longrightarrow> held iv g (insert n fl) {} op s') \<and>
      (k \<longrightarrow> (\<forall>n. \<not> qs_fail s n) \<longrightarrow> ok \<and> (\<forall>n. \<not> qs_fail s' n))"
    using e s(1) by (auto simp: held_def split: if_splits)
qed

lemma does_flush_chan:
  assumes "c \<in> op"
  shows "does k (held iv g fl {} op) (flush_chan c) (held iv g (insert (QChan c) fl) {} op)"
proof (rule doesI)
  fix s ok s'
  assume s: "held iv g fl {} op s" "flush_chan c s = (ok, s')"
  show "quiet s' \<and> (ok \<longrightarrow> held iv g (insert (QChan c) fl) {} op s') \<and>
      (k \<longrightarrow> (\<forall>n. \<not> qs_fail s n) \<longrightarrow> ok \<and> (\<forall>n. \<not> qs_fail s' n))"
  proof (cases "tp_open s c")
    case True
    then show ?thesis using s doesD [OF does_flush [where k = k and n = "QChan c"] s(1)] by (simp add: flush_chan_def)
  next
    case False
    then have "g c = []" using s(1) assms by (auto simp: held_def)
    then have "held iv g (insert (QChan c) fl) {} op s" using s(1) by (simp add: held_def needed_def)
    then show ?thesis using False s by (auto simp: flush_chan_def held_def)
  qed
qed

lemma does_sync: "does k (held iv g fl sy op) (t_sys (QFsync n)) (held iv g fl (insert n sy) op)"
proof (rule does_t_sys)
  fix s
  assume s: "held iv g fl sy op s"
  let ?s1 = "s\<lparr>qs_calls := qs_calls s + 1, qs_trace := qs_trace s @ [QFsync n]\<rparr>"
  have "tgiven m ?s1 = tgiven m s" for m by (simp add: tgiven_def)
  then show "held iv g fl (insert n sy) op ?s1" using s by (simp add: held_def)
qed (simp_all add: held_quiet [simplified])

lemma does_sync_info:
  "does k (held iv g fl sy op) (if b then t_sys (QFsync QInfo) else Pair True) (held iv g fl (if b then insert QInfo sy else sy) op)"
  using does_sync does_done [OF held_quiet] by simp

lemma does_sync_chan:
  assumes "c \<in> op"
  shows "does k (held iv g fl sy op) (sync_chan b c) (held iv g fl (if b then insert (QChan c) sy else sy) (op - {c}))"
proof (rule doesI)
  fix s ok s'
  let ?sy = "if b then insert (QChan c) sy else sy"
  assume s: "held iv g fl sy op s" "sync_chan b c s = (ok, s')"
  have close: "held iv g fl ?sy (op - {c}) (t\<lparr>tp_open := (tp_open t)(c := False)\<rparr>)" if "held iv g fl ?sy op t" for t
    using that by (auto simp: held_def tgiven_def)
  show "quiet s' \<and> (ok \<longrightarrow> held iv g fl ?sy (op - {c}) s') \<and>
      (k \<longrightarrow> (\<forall>n. \<not> qs_fail s n) \<longrightarrow> ok \<and> (\<forall>n. \<not> qs_fail s' n))"
  proof (cases "tp_open s c")
    case True
    obtain ok1 s1 where 1: "(if b then t_sys (QFsync (QChan c)) s else (True, s)) = (ok1, s1)" by (metis surj_pair)
    have "does k (held iv g fl sy op) (\<lambda>s. if b then t_sys (QFsync (QChan c)) s else (True, s)) (held iv g fl ?sy op)"
      using does_sync does_done [OF held_quiet] by (cases b) simp_all
    note d = doesD [OF this s(1), of ok1 s1]
    show ?thesis
      using s(2) 1 True d close by (cases ok1) (auto simp: sync_chan_def)
  next
    case False
    then have "g c = []" using s(1) assms by (auto simp: held_def)
    then have "held iv g fl ?sy (op - {c}) s" using s(1) by (auto simp: held_def needed_def)
    then show ?thesis using False s by (auto simp: sync_chan_def held_def)
  qed
qed

section \<open>The whole\<close>

definition fresh_todo :: "todop \<Rightarrow> bool" where
  "fresh_todo s \<longleftrightarrow> QAsk QTodo \<notin> set (qs_trace s) \<and> tp_comm s = [] \<and> \<not> tp_exit s"

lemma only_info_Nil [simp]: "only_info []"
  by (auto simp: only_info_def intro: exI [of _ "[]"])

lemma does_prepare:
  "does k fresh_todo todo_prepare (\<lambda>s. fresh_todo s \<and> (\<forall>c. \<not> tp_open s c) \<and> content QInfo (qs_trace s) = [] \<and>
     (\<forall>c < 2. \<not> present (QChan c) (qs_trace s)))"
proof -
  let ?P = "\<lambda>N s. fresh_todo s \<and> (\<forall>c. \<not> tp_open s c) \<and> (\<forall>c \<in> N. \<not> present (QChan c) (qs_trace s))"
  have q: "?P N s \<Longrightarrow> quiet s" for N s by (simp add: fresh_todo_def)
  have t: "does k (?P {}) t_try (?P {})" by (simp add: does_def t_try_def fresh_todo_def)
  have u: "does k (?P N) (t_sys (QUnlink (QChan c))) (?P (insert c N))" for N c
    by (rule does_t_sys) (auto simp: fresh_todo_def)
  have i: "does k (?P N) (t_sys (QUnlink QInfo)) (?P N)" for N
    by (rule does_t_sys) (auto simp: fresh_todo_def)
  have o: "does k (?P N) (t_sys (QOpen QInfo)) (\<lambda>s. ?P N s \<and> content QInfo (qs_trace s) = [])" for N
    by (rule does_t_sys) (auto simp: fresh_todo_def)
  have d: "does k (\<lambda>s. ?P N s \<and> content QInfo (qs_trace s) = []) (Pair True) (\<lambda>s. ?P N s \<and> content QInfo (qs_trace s) = [])" for N
    by (rule does_done) (simp add: fresh_todo_def)
  let ?fs = "[t_try, t_try, t_sys (QUnlink (QChan 0)), t_sys (QUnlink (QChan 1)), t_sys (QUnlink QInfo), t_sys (QOpen QInfo)]"
  have "does k (?P {}) (all_do ?fs) (\<lambda>s. ?P {1, 0} s \<and> content QInfo (qs_trace s) = [])"
    unfolding all_do_simps by (intro does_also [OF t] does_also [OF u] does_also [OF i] does_also [OF o] d)
  then have a: "does k (?P {}) (all_do ?fs) (\<lambda>s. fresh_todo s \<and> (\<forall>c. \<not> tp_open s c) \<and> content QInfo (qs_trace s) = [] \<and>
     (\<forall>c < 2. \<not> present (QChan c) (qs_trace s)))"
    by (rule does_weaken) (auto simp: less_2_cases_iff)
  have "todo_prepare s = all_do ?fs (s\<lparr>tp_open := \<lambda>_. False\<rparr>)" for s
    unfolding todo_prepare_def ..
  then show ?thesis using a unfolding does_def by (simp add: fresh_todo_def)
qed

lemma does_split:
  fixes d :: bytes
  assumes "libqmail L"
  defines "ls \<equiv> records_of d"
  shows "does (list_all known ls) fresh_todo (todo_split L cf i sz d)
    (\<lambda>s. list_all known ls \<and> held (info_part ls) (\<lambda>c. chan_part L (tc_routes cf) c ls) {QInfo, QChan 0, QChan 1}
       (if tc_sync cf then {QInfo, QChan 0, QChan 1} else {}) {} s)"
proof -
  let ?k = "list_all known ls" and ?g = "\<lambda>c. chan_part L (tc_routes cf) c ls" and ?b = "tc_sync cf"
  let ?H = "\<lambda>fl sy op s. ?k \<and> held (info_part ls) ?g fl sy op s"
  let ?P = "\<lambda>s. fresh_todo s \<and> (\<forall>c. \<not> tp_open s c) \<and> content QInfo (qs_trace s) = [] \<and> (\<forall>c < 2. \<not> present (QChan c) (qs_trace s))"
  let ?init = "\<lambda>s. s\<lparr>tp_flag := \<lambda>_. False, tp_bufs := (tp_bufs s)(QInfo := []), tp_uid := 0, tp_pid := 0\<rparr>"
  have init: "taken [] (\<lambda>_. []) (?init s)" if "?P s" for s
  proof -
    have "only_info (tp_comm (?init s))" using that by (auto simp: only_info_def fresh_todo_def intro: exI [of _ "[]"])
    then show ?thesis using that by (simp add: taken_def tgiven_def fresh_todo_def)
  qed
  have r: "does ?k ?P (\<lambda>s. todo_records L cf i sz d (?init s)) (?H {} {} UNIV)"
  proof -
    have "does ?k (taken [] (\<lambda>_. [])) (todo_records L cf i sz d) (?H {} {} UNIV)"
      by (rule does_weaken [OF does_records [OF assms(1)]]) (auto simp: ls_def intro: held_taken)
    then show ?thesis by (rule does_pre) (use init in simp_all)
  qed
  have w: "does ?k (?H fl sy op) f (?H fl' sy' op')" if "does ?k (held (info_part ls) ?g fl sy op) f (held (info_part ls) ?g fl' sy' op')"
    for fl sy op f fl' sy' op' using that unfolding does_def by blast
  let ?si = "if ?b then insert QInfo {} else {}" 
  let ?s0 = "if ?b then insert (QChan 0) ?si else ?si"
  let ?s1 = "if ?b then insert (QChan 1) ?s0 else ?s0"
  let ?fl = "insert (QChan 1) (insert (QChan 0) (insert QInfo {}))"
  have fin: "does ?k (?H ?fl ?s1 (UNIV - {0} - {1})) (Pair True) (?H ?fl ?s1 (UNIV - {0} - {1}))"
    by (rule does_done) (blast dest: held_quiet)
  have "does ?k fresh_todo (todo_split L cf i sz d) (?H ?fl ?s1 (UNIV - {0} - {1}))"
    unfolding todo_split_def all_do_simps
    by (rule does_also [OF does_prepare does_also [OF r does_also [OF w [OF does_flush] does_also [OF w [OF does_flush_chan]
        does_also [OF w [OF does_flush_chan] does_also [OF w [OF does_sync_info] does_also [OF w [OF does_sync_chan]
        does_also [OF w [OF does_sync_chan] fin]]]]]]]]) simp_all
  then show ?thesis by (rule does_weaken) (auto simp: held_def)
qed

end
