(* ===== verification/SmtpData.thy ===== *)
theory SmtpData
  imports QmailClient LibQmail "HOL-Library.Word"
begin

text \<open>
  The transfer of a message body over SMTP, both ends: \<^verbatim>\<open>blast\<close> of \<^verbatim>\<open>indimail-mta-x/smtpd.c\<close> reads
  the lines a client sends after DATA, undoes the dot stuffing, counts hops and hands the bytes to
  \<^verbatim>\<open>qmail-queue\<close> through \<^verbatim>\<open>put\<close>; \<^verbatim>\<open>blast\<close> of \<^verbatim>\<open>indimail-mta-x/qmail-remote.c\<close> sends a stored message to a
  remote host. The tests on signatures and content (\<^verbatim>\<open>sigsok\<close>, \<^verbatim>\<open>bodyok\<close>) are off, as by default.
  \<^verbatim>\<open>unsigned long\<close> has 64 bits.
\<close>

abbreviation CR :: char where "CR \<equiv> CHR 0x0D"

abbreviation CRLF :: bytes where "CRLF \<equiv> [CR, LF]"

section \<open>The server: header lines that count\<close>

text \<open>The locals of \<^verbatim>\<open>blast\<close> that watch the header.\<close>

record hdr =
  h_in :: bool            \<comment> \<open>\<^verbatim>\<open>flaginheader\<close>\<close>
  h_pos :: nat
  h_w :: bool             \<comment> \<open>the line might match RETURN-RECEIPT\<close>
  h_x :: bool             \<comment> \<open>the line might match RECEIVED\<close>
  h_y :: bool             \<comment> \<open>the line might match CR LF\<close>
  h_z :: bool             \<comment> \<open>the line might match DELIVERED\<close>
  h_hops :: nat
  h_dsn :: bool

definition hdr_init :: hdr where
  "hdr_init = \<lparr>h_in = True, h_pos = 0, h_w = True, h_x = True, h_y = True, h_z = True, h_hops = 0, h_dsn = False\<rparr>"

text \<open>\<open>at_either p low up ch\<close>: \<^verbatim>\<open>ch == low[p] || ch == up[p]\<close>.\<close>

definition at_either :: "nat \<Rightarrow> bytes \<Rightarrow> bytes \<Rightarrow> char \<Rightarrow> bool" where
  "at_either p low up ch \<longleftrightarrow> ch = low ! p \<or> ch = up ! p"

definition hdr_return_receipt :: "char \<Rightarrow> hdr \<Rightarrow> hdr" where
  "hdr_return_receipt ch h =
     (if 8 < h_pos h \<and> h_pos h < 14 then
        (let w = h_w h \<and> at_either (h_pos h) ''return-receipt'' ''RETURN-RECEIPT'' ch
         in h\<lparr>h_w := w, h_dsn := h_dsn h \<or> w \<and> h_pos h = 13\<rparr>)
      else h)"

definition hdr_trace :: "char \<Rightarrow> hdr \<Rightarrow> hdr" where
  "hdr_trace ch h =
     (if h_pos h < 9 then
        (let z = h_z h \<and> at_either (h_pos h) ''delivered'' ''DELIVERED'' ch;
             x = h_x h \<and> (h_pos h < 8 \<longrightarrow> at_either (h_pos h) ''received'' ''RECEIVED'' ch);
             y = h_y h \<and> (h_pos h < 2 \<longrightarrow> ch = CRLF ! h_pos h)
         in h\<lparr>h_in := \<not> (y \<and> h_pos h = 1), h_x := x, h_y := y, h_z := z,
              h_hops := h_hops h + (if z \<and> h_pos h = 8 then 1 else 0) + (if x \<and> h_pos h = 7 then 1 else 0)\<rparr>)
      else h)"

definition hdr_step :: "char \<Rightarrow> hdr \<Rightarrow> hdr" where
  "hdr_step ch h =
     (if \<not> h_in h then h
      else
        let h1 = hdr_trace ch (hdr_return_receipt ch h);
            h2 = (if h_pos h1 < 14 then h1\<lparr>h_pos := h_pos h1 + 1\<rparr> else h1)
        in if ch = LF then h2\<lparr>h_pos := 0, h_w := True, h_x := True, h_y := True, h_z := True\<rparr> else h2)"

section \<open>The server: the bytes of the message\<close>

record smtpd =
  sd_over :: "64 word"      \<comment> \<open>\<^verbatim>\<open>BytesToOverflow\<close>\<close>
  sd_size :: "64 word"      \<comment> \<open>\<^verbatim>\<open>msg_size\<close>\<close>
  sd_qq :: qmailq           \<comment> \<open>\<^verbatim>\<open>qqt\<close>\<close>

definition smtp_put :: "char \<Rightarrow> smtpd \<Rightarrow> smtpd" where
  "smtp_put ch s =
     (let over = (if sd_over s \<noteq> 0 then sd_over s - 1 else 0);
          q = (if sd_over s \<noteq> 0 \<and> over = 0 then qmail_fail (sd_qq s) else sd_qq s)
      in \<lparr>sd_over = over, sd_size = sd_size s + 1, sd_qq = qmail_put [ch] q\<rparr>)"

text \<open>
  The switch of \<^verbatim>\<open>blast\<close>: a bare line feed, the end of the message, or the bytes handed to \<^verbatim>\<open>put\<close> and
  the next state. States: 0 inside a line, 1 after CR LF, 2 after CR LF dot, 3 after CR LF dot CR, 4 after CR.
\<close>

datatype switch = SwStray | SwEnd | SwPut bytes nat

definition blast_switch :: "nat \<Rightarrow> char \<Rightarrow> switch" where
  "blast_switch state ch =
     (if state = 0 then
        (if ch = LF then SwStray else if ch = CR then SwPut [] 4 else SwPut [ch] 0)
      else if state = 1 then
        (if ch = LF then SwStray else if ch = CHR ''.'' then SwPut [] 2 else if ch = CR then SwPut [] 4
         else SwPut [ch] 0)
      else if state = 2 then
        (if ch = LF then SwStray else if ch = CR then SwPut [] 3 else SwPut [ch] 0)
      else if state = 3 then
        (if ch = LF then SwEnd else if ch = CR then SwPut [CHR ''.'', CR] 4 else SwPut [CHR ''.'', CR, ch] 0)
      else
        (if ch = LF then SwPut [ch] 1 else if ch \<noteq> CR then SwPut [CR, ch] 0 else SwPut [ch] state))"

text \<open>How reading ends: the stream ends (\<^verbatim>\<open>return 1\<close>), a bare line feed, or the end of the message and what follows.\<close>

datatype data_end = DataEof | DataStray | DataDone bytes

text \<open>
  The loop. With \<^verbatim>\<open>convertbarelf\<close> a bare LF is replaced by CR and read again
  (\<^verbatim>\<open>substdio_seek(&ssin, -1)\<close> un-reads one byte).
\<close>

definition bare_lf :: "bool \<Rightarrow> bool \<Rightarrow> char \<Rightarrow> bool" where
  "bare_lf conv seencr c \<longleftrightarrow> conv \<and> c = LF \<and> \<not> seencr"

function blast_loop :: "bool \<Rightarrow> bool \<Rightarrow> nat \<Rightarrow> bytes \<Rightarrow> hdr \<Rightarrow> smtpd \<Rightarrow> data_end \<times> hdr \<times> smtpd" where
  "blast_loop conv seencr state [] h s = (DataEof, h, s)"
| "blast_loop conv seencr state (c # inp) h s =
     (let ch = (if bare_lf conv seencr c then CR else c);
          rest = (if bare_lf conv seencr c then c # inp else inp);
          seen = (if conv then ch = CR else seencr);
          h' = hdr_step ch h
      in case blast_switch state ch of
           SwStray \<Rightarrow> (DataStray, h', s)
         | SwEnd \<Rightarrow> (DataDone rest, h', s)
         | SwPut bs state' \<Rightarrow> blast_loop conv seen state' rest h' (fold smtp_put bs s))"
  by pat_completeness auto
termination
  by (relation "measure (\<lambda>(conv, seencr, state, inp, h, s). 2 * length inp + (if seencr then 0 else 1))")
     (auto simp: bare_lf_def)

definition smtpd_blast :: "bool \<Rightarrow> bytes \<Rightarrow> smtpd \<Rightarrow> data_end \<times> hdr \<times> smtpd" where
  "smtpd_blast conv inp s = blast_loop conv False 1 inp hdr_init (s\<lparr>sd_size := 0\<rparr>)"

section \<open>The client\<close>

text \<open>The inner loop: bytes up to and including the next line feed. Output, \<^verbatim>\<open>eom\<close>, the rest of \<^verbatim>\<open>inbuf\<close>.\<close>

fun remote_line :: "bytes \<Rightarrow> bytes \<times> bool \<times> bytes" where
  "remote_line [] = ([], False, [])"
| "remote_line (c # inp) =
     (if c = LF then (CRLF, True, inp)
      else case remote_line inp of (out, eom, rest) \<Rightarrow> (c # out, eom, rest))"

lemma remote_line_rest: "length (snd (snd (remote_line inp))) \<le> length inp"
  by (induction inp) (auto split: prod.splits)

lemma remote_line_shorter: "inp \<noteq> [] \<Longrightarrow> length (snd (snd (remote_line inp))) < length inp"
proof (cases inp)
  case (Cons c t)
  then show ?thesis using remote_line_rest [of t] by (auto split: prod.splits)
qed simp

text \<open>The loop over one buffer of input.\<close>

function remote_chunk :: "bool \<Rightarrow> bytes \<Rightarrow> bytes \<times> bool" where
  "remote_chunk eom [] = ([], eom)"
| "remote_chunk eom (c # inp) =
     (let dot = eom \<and> c = CHR ''.'';
          line = remote_line (if dot then inp else c # inp);
          next = remote_chunk (fst (snd line)) (snd (snd line))
      in ((if dot then [CHR ''.'', c] else []) @ fst line @ fst next, snd next))"
  by pat_completeness auto
termination
proof (relation "measure (\<lambda>(eom, inp). length inp)", simp)
  fix eom :: bool and c :: char and inp :: bytes and dot line
  assume "dot = (eom \<and> c = CHR ''.'')" "line = remote_line (if dot then inp else c # inp)"
  then have "length (snd (snd line)) < length (c # inp)"
    using remote_line_rest [of inp] remote_line_shorter [of "c # inp"] by (cases dot) auto
  then show "((fst (snd line), snd (snd line)), (eom, c # inp)) \<in> measure (\<lambda>(eom, inp). length inp)"
    by (cases line) auto
qed

text \<open>One \<^verbatim>\<open>substdio_get\<close>: some bytes or an error; the end of the file is the end of the list.\<close>

datatype reading = Got bytes | ReadFailed

datatype remote_end = Sent | TempRead | TempWrite | PartialLine

text \<open>
  \<open>wfail n\<close> says that the \<open>n\<close>-th \<^verbatim>\<open>substdio_put\<close> fails. Each exit of the function is a value; the
  second component is what has been handed to the connection.
\<close>

fun qqeh_out :: "(nat \<Rightarrow> bool) \<Rightarrow> nat \<Rightarrow> bytes \<Rightarrow> bytes \<Rightarrow> bool \<times> nat \<times> bytes" where
  "qqeh_out wfail n [] out = (True, n, out)"
| "qqeh_out wfail n (c # qqeh) out =
     (if c = LF then
        (if wfail n then (False, n, out)
         else if wfail (n + 1) then (False, n, out @ [CR])
         else qqeh_out wfail (n + 2) qqeh (out @ [CR, c]))
      else if wfail n then (False, n, out)
      else qqeh_out wfail (n + 1) qqeh (out @ [c]))"

fun remote_loop :: "(nat \<Rightarrow> bool) \<Rightarrow> nat \<Rightarrow> bool \<Rightarrow> reading list \<Rightarrow> bytes \<Rightarrow> remote_end \<times> bytes" where
  "remote_loop wfail n eom [] out =
     (if \<not> eom then (PartialLine, out)
      else if wfail n then (TempWrite, out)
      else (Sent, out @ [CHR ''.'', CR, LF]))"
| "remote_loop wfail n eom (ReadFailed # rs) out = (TempRead, out)"
| "remote_loop wfail n eom (Got b # rs) out =
     (case remote_chunk eom b of (o1, eom') \<Rightarrow>
        if wfail n then (TempWrite, out) else remote_loop wfail (n + 1) eom' rs (out @ o1))"

definition remote_blast :: "(nat \<Rightarrow> bool) \<Rightarrow> bytes \<Rightarrow> reading list \<Rightarrow> remote_end \<times> bytes" where
  "remote_blast wfail qqeh rs =
     (case qqeh_out wfail 0 qqeh [] of
        (False, n, out) \<Rightarrow> (TempWrite, out)
      | (True, n, out) \<Rightarrow> remote_loop wfail n True rs out)"

section \<open>The server without the header: which bytes are put, and how reading ends\<close>

fun unst :: "nat \<Rightarrow> bytes \<Rightarrow> bytes \<times> data_end" where
  "unst st [] = ([], DataEof)"
| "unst st (c # inp) =
     (case blast_switch st c of
        SwStray \<Rightarrow> ([], DataStray)
      | SwEnd \<Rightarrow> ([], DataDone inp)
      | SwPut bs st' \<Rightarrow> (case unst st' inp of (m, e) \<Rightarrow> (bs @ m, e)))"

lemma blast_loop_unst:
  "\<exists>h'. blast_loop False sc st inp h s = (snd (unst st inp), h', fold smtp_put (fst (unst st inp)) s)"
  by (induction "False" sc st inp h s rule: blast_loop.induct)
     (auto simp: bare_lf_def split: switch.splits prod.splits)

lemma blast_loop_header:
  "fst (blast_loop False sc st inp h s) = DataDone rest \<Longrightarrow>
   \<exists>p. inp = p @ rest \<and> fst (snd (blast_loop False sc st inp h s)) = fold hdr_step p h"
proof (induction "False" sc st inp h s rule: blast_loop.induct)
  case (2 sc st c inp h s)
  show ?case
  proof (cases "blast_switch st c")
    case SwEnd
    then show ?thesis using 2(2) by (intro exI [of _ "[c]"]) (simp add: bare_lf_def)
  next
    case (SwPut bs st')
    have "\<exists>p. inp = p @ rest \<and>
        fst (snd (blast_loop False sc st' inp (hdr_step c h) (fold smtp_put bs s))) = fold hdr_step p (hdr_step c h)"
      using 2(2) SwPut 2(1) [OF refl _ _ _ _ _] by (simp add: bare_lf_def)
    then obtain p where "inp = p @ rest"
        "fst (snd (blast_loop False sc st' inp (hdr_step c h) (fold smtp_put bs s))) = fold hdr_step p (hdr_step c h)"
      by blast
    then show ?thesis using SwPut by (intro exI [of _ "c # p"]) (simp add: bare_lf_def)
  qed (use 2(2) in \<open>simp add: bare_lf_def\<close>)
qed simp

section \<open>Dot stuffing and back\<close>

text \<open>What the client sends, byte by byte.\<close>

fun stuff :: "bool \<Rightarrow> bytes \<Rightarrow> bytes" where
  "stuff eom [] = []"
| "stuff eom (c # m) =
     (if c = LF then CRLF else if eom \<and> c = CHR ''.'' then [c, c] else [c]) @ stuff (c = LF) m"

definition ends_line :: "bool \<Rightarrow> bytes \<Rightarrow> bool" where
  "ends_line eom m = (if m = [] then eom else last m = LF)"

lemma ends_line_simps [simp]:
  "ends_line eom [] = eom"
  "ends_line eom (c # m) = ends_line (c = LF) m"
  by (auto simp: ends_line_def)

lemma ends_line_append: "ends_line eom (a @ b) = ends_line (ends_line eom a) b"
  by (induction a arbitrary: eom) auto

lemma stuff_append: "stuff eom (a @ b) = stuff eom a @ stuff (ends_line eom a) b"
  by (induction a arbitrary: eom) auto

lemma remote_line_stuff:
  "remote_line inp = (out, eom, rest) \<Longrightarrow>
   stuff False inp = out @ stuff eom rest \<and> ends_line False inp = ends_line eom rest"
  by (induction inp arbitrary: out) (auto split: if_splits prod.splits)

lemma remote_line_start:
  "\<not> (eom \<and> c = CHR ''.'') \<Longrightarrow> stuff eom (c # inp) = stuff False (c # inp)"
  by auto

lemma remote_chunk_stuff: "remote_chunk eom inp = (stuff eom inp, ends_line eom inp)"
proof (induction eom inp rule: remote_chunk.induct)
  case (2 eom c inp)
  let ?dot = "eom \<and> c = CHR ''.''"
  let ?line = "remote_line (if ?dot then inp else c # inp)"
  obtain out e r where l: "?line = (out, e, r)" by (metis prod_cases3)
  have "remote_chunk (fst (snd ?line)) (snd (snd ?line)) = (stuff (fst (snd ?line)) (snd (snd ?line)),
      ends_line (fst (snd ?line)) (snd (snd ?line)))"
    by (rule 2 [OF refl refl])
  then have "remote_chunk e r = (stuff e r, ends_line e r)" unfolding l by simp
  then have "remote_chunk eom (c # inp) =
      ((if ?dot then [CHR ''.'', c] else []) @ out @ stuff e r, ends_line e r)"
    by (simp only: remote_chunk.simps Let_def l fst_conv snd_conv)
  then show ?case using remote_line_stuff [OF l] by (auto split: if_splits)
qed simp

text \<open>The server undoes it.\<close>

lemma unst_stuff:
  "ends_line (st = 1) m \<Longrightarrow> st = 0 \<or> st = 1 \<or> st = 4 \<Longrightarrow>
   unst st (stuff (st = 1) m @ ''.'' @ CRLF @ rest) = ((if st = 4 then [CR] else []) @ m, DataDone rest)"
proof (induction m arbitrary: st)
  case (Cons c m)
  have IH: "\<And>st. ends_line (st = 1) m \<Longrightarrow> st = 0 \<or> st = 1 \<or> st = 4 \<Longrightarrow>
      unst st (stuff (st = 1) m @ ''.'' @ CRLF @ rest) = ((if st = 4 then [CR] else []) @ m, DataDone rest)"
    by (rule Cons.IH)
  show ?case
    using Cons.prems IH [of 0] IH [of 1] IH [of 4]
    by (auto simp: blast_switch_def)
qed (auto simp: blast_switch_def)

section \<open>Where a message ends\<close>

definition at_line :: "bytes \<Rightarrow> bool" where
  "at_line p \<longleftrightarrow> p = [] \<or> (\<exists>q. p = q @ CRLF)"

definition dot_line :: "bytes \<Rightarrow> bool" where
  "dot_line p \<longleftrightarrow> (\<exists>q. p = q @ ''.'' \<and> at_line q)"

definition dot_cr_line :: "bytes \<Rightarrow> bool" where
  "dot_cr_line p \<longleftrightarrow> (\<exists>q. p = q @ [CR] \<and> dot_line q)"

definition ends_cr :: "bytes \<Rightarrow> bool" where
  "ends_cr p \<longleftrightarrow> (\<exists>q. p = q @ [CR])"

lemma line_snoc [simp]:
  "at_line (q @ [c]) \<longleftrightarrow> c = LF \<and> ends_cr q"
  "dot_line (q @ [c]) \<longleftrightarrow> c = CHR ''.'' \<and> at_line q"
  "dot_cr_line (q @ [c]) \<longleftrightarrow> c = CR \<and> dot_line q"
  "ends_cr (q @ [c]) \<longleftrightarrow> c = CR"
  by (auto simp: at_line_def dot_line_def dot_cr_line_def ends_cr_def append_eq_append_conv2
        append_eq_Cons_conv)

lemma line_nil [simp]: "at_line []" "\<not> dot_line []" "\<not> dot_cr_line []" "\<not> ends_cr []"
  by (simp_all add: at_line_def dot_line_def dot_cr_line_def ends_cr_def)

lemma dot_line_excludes:
  "dot_line p \<Longrightarrow> \<not> at_line p \<and> \<not> ends_cr p"
  "at_line p \<Longrightarrow> \<not> ends_cr p"
  by (induction p rule: rev_induct) auto

text \<open>The automaton alone.\<close>

fun sw_run :: "nat \<Rightarrow> bytes \<Rightarrow> nat option" where
  "sw_run st [] = Some st"
| "sw_run st (c # p) = (case blast_switch st c of SwPut bs st' \<Rightarrow> sw_run st' p | _ \<Rightarrow> None)"

lemma sw_run_snoc:
  "sw_run st (p @ [c]) =
     (case sw_run st p of None \<Rightarrow> None
      | Some s \<Rightarrow> (case blast_switch s c of SwPut bs st' \<Rightarrow> Some st' | _ \<Rightarrow> None))"
  by (induction p arbitrary: st) (auto split: switch.splits)

lemma blast_switch_end: "blast_switch st c = SwEnd \<longleftrightarrow> st = 3 \<and> c = LF"
  by (simp add: blast_switch_def)

lemma unst_done_iff:
  "snd (unst st inp) = DataDone rest \<longleftrightarrow> (\<exists>p. inp = p @ LF # rest \<and> sw_run st p = Some 3)"
proof (induction inp arbitrary: st)
  case (Cons c inp)
  show ?case
  proof (cases "blast_switch st c")
    case SwStray
    then have "\<And>p. c # inp = p @ LF # rest \<Longrightarrow> sw_run st p \<noteq> Some 3"
      by (auto simp: Cons_eq_append_conv blast_switch_def)
    then show ?thesis using SwStray by auto
  next
    case SwEnd
    then have "sw_run st p = Some 3 \<Longrightarrow> c # inp = p @ LF # rest \<Longrightarrow> p = []" for p
      by (auto simp: Cons_eq_append_conv)
    then have "(\<exists>p. c # inp = p @ LF # rest \<and> sw_run st p = Some 3) \<longleftrightarrow> inp = rest"
      using SwEnd unfolding blast_switch_end
      by (metis append_Nil list.inject sw_run.simps(1))
    then show ?thesis using SwEnd by simp
  next
    case (SwPut bs st')
    then have "\<not> (st = 3 \<and> c = LF)" by (auto simp: blast_switch_def)
    then show ?thesis using SwPut Cons.IH [of st']
      by (auto simp: Cons_eq_append_conv split: prod.splits)
  qed
qed simp

text \<open>Every line feed follows a CR and does not end a line with a lone dot.\<close>

definition lfs_ok :: "bytes \<Rightarrow> bool" where
  "lfs_ok p \<longleftrightarrow> (\<forall>a b. p = a @ LF # b \<longrightarrow> ends_cr a \<and> \<not> dot_cr_line a)"

lemma snoc_split: "p @ [c] = a @ x # b \<longleftrightarrow> (b = [] \<and> a = p \<and> c = x) \<or> (\<exists>b'. b = b' @ [c] \<and> p = a @ x # b')"
  by (cases b rule: rev_cases) auto

lemma lfs_ok_simps [simp]:
  "lfs_ok []"
  "lfs_ok (p @ [c]) \<longleftrightarrow> lfs_ok p \<and> (c = LF \<longrightarrow> ends_cr p \<and> \<not> dot_cr_line p)"
  by (auto simp: lfs_ok_def snoc_split)

text \<open>The state tells how the bytes read so far end.\<close>

definition state_of :: "bytes \<Rightarrow> nat" where
  "state_of p = (if at_line p then 1 else if dot_line p then 2 else if dot_cr_line p then 3
     else if ends_cr p then 4 else 0)"

lemma dot_cr_ends: "dot_cr_line p \<Longrightarrow> ends_cr p"
  by (auto simp: dot_cr_line_def ends_cr_def)

lemma state_of_snoc:
  "blast_switch (state_of p) c = SwPut bs st \<Longrightarrow> st = state_of (p @ [c])"
  using dot_line_excludes [of p] dot_cr_ends [of p]
  by (auto simp: state_of_def blast_switch_def split: if_splits)

lemma state_of_stops:
  "(\<exists>bs st. blast_switch (state_of p) c = SwPut bs st) \<longleftrightarrow> \<not> (c = LF \<and> (\<not> ends_cr p \<or> dot_cr_line p))"
  using dot_line_excludes [of p] dot_cr_ends [of p]
  by (auto simp: state_of_def blast_switch_def)

lemma sw_run_state: "sw_run 1 p = (if lfs_ok p then Some (state_of p) else None)"
proof (induction p rule: rev_induct)
  case Nil
  show ?case by (simp add: state_of_def)
next
  case (snoc c p)
  show ?case
    unfolding sw_run_snoc snoc.IH lfs_ok_simps
    using state_of_snoc [of p c] state_of_stops [of p c]
    by (auto split: switch.splits)
qed

lemma unst_end_exact:
  "snd (unst 1 inp) = DataDone rest \<longleftrightarrow> (\<exists>p. inp = p @ ''.'' @ CRLF @ rest \<and> at_line p \<and> lfs_ok p)"
proof -
  have three: "state_of q = 3 \<longleftrightarrow> dot_cr_line q" for q
    using dot_line_excludes [of q] dot_cr_ends [of q] by (auto simp: state_of_def)
  have shape: "dot_cr_line q \<longleftrightarrow> (\<exists>p. q = (p @ ''.'') @ [CR] \<and> at_line p)" for q
    by (auto simp: dot_cr_line_def dot_line_def)
  have run: "sw_run 1 q = Some 3 \<longleftrightarrow> lfs_ok q \<and> dot_cr_line q" for q
    by (simp add: sw_run_state three del: One_nat_def)
  have lf: "lfs_ok ((p @ ''.'') @ [CR]) \<longleftrightarrow> lfs_ok p" for p
    by (simp only: lfs_ok_simps) simp
  show ?thesis
    unfolding unst_done_iff run shape using lf by force
qed

end
