(* ===== verification/SmtpFacts.thy ===== *)
theory SmtpFacts
  imports SmtpData
begin

text \<open>
  Facts about the transfer of a message body: the size limit, the count of hops as a count of header
  lines, the conversion of bare line feeds, the verdict on a message (the tail of \<^verbatim>\<open>smtp_data\<close>) and
  the \<^verbatim>\<open>Received\<close> lines put in front of it.
\<close>

section \<open>The size limit\<close>

definition accepting :: "smtpd \<Rightarrow> bool" where
  "accepting s \<longleftrightarrow> \<not> qq_flagerr (sd_qq s) \<and> \<not> qq_onenv (sd_qq s) \<and> (\<forall>n. \<not> qq_fault (sd_qq s) n)"

lemma put_flagged: "qq_flagerr (sd_qq s) \<Longrightarrow> qq_flagerr (sd_qq (fold smtp_put m s))"
  by (induction m arbitrary: s) (auto simp: smtp_put_def Let_def qmail_put_def qmail_fail_def)

lemma puts_size: "sd_size (fold smtp_put m s) = sd_size s + of_nat (length m)"
  by (induction m arbitrary: s) (auto simp: smtp_put_def Let_def)

lemma unat_minus_one_word: "w \<noteq> 0 \<Longrightarrow> unat (w - 1) = unat w - 1" for w :: "'a::len word"
  by (metis unat_minus_one)

lemma puts_over: "unat (sd_over (fold smtp_put m s)) = unat (sd_over s) - length m"
proof (induction m arbitrary: s)
  case (Cons c m)
  show ?case
    unfolding fold.simps comp_def Cons.IH
    by (cases "sd_over s = 0") (auto simp: smtp_put_def Let_def unat_minus_one_word)
qed simp

text \<open>\<open>passed m s s'\<close>: the bytes \<open>m\<close> reached the message pipe and nothing else changed there.\<close>

definition passed :: "bytes \<Rightarrow> smtpd \<Rightarrow> smtpd \<Rightarrow> bool" where
  "passed m s s' \<longleftrightarrow> sd_qq s' =
     (sd_qq s)\<lparr>qq_mess := qq_mess (sd_qq s) @ m, qq_ops := qq_ops (sd_qq s) + length m\<rparr>"

lemma passed_accepting: "passed m s s' \<Longrightarrow> accepting s \<Longrightarrow> accepting s'"
  by (simp add: passed_def accepting_def)

lemma passed_Nil: "passed [] s s"
  by (simp add: passed_def)

lemma passed_trans: "passed a s t \<Longrightarrow> passed b t u \<Longrightarrow> passed (a @ b) s u"
  by (simp add: passed_def)

lemma put_below: "accepting s \<Longrightarrow> sd_over s \<noteq> 1 \<Longrightarrow> passed [c] s (smtp_put c s)"
  by (cases "sd_qq s") (auto simp: accepting_def passed_def smtp_put_def Let_def qmail_put_def)

text \<open>Below the limit every byte reaches the message pipe; at the limit the message is condemned.\<close>

lemma puts_below:
  "accepting s \<Longrightarrow> sd_over s = 0 \<or> length m < unat (sd_over s) \<Longrightarrow> passed m s (fold smtp_put m s)"
proof (induction m arbitrary: s)
  case (Cons c m)
  then have "sd_over s \<noteq> 1" by auto
  then have p: "passed [c] s (smtp_put c s)" using put_below Cons.prems by blast
  have "sd_over (smtp_put c s) = 0 \<or> length m < unat (sd_over (smtp_put c s))"
    using Cons.prems puts_over [of "[c]" s] by (auto simp: smtp_put_def Let_def)
  then have "passed m (smtp_put c s) (fold smtp_put m (smtp_put c s))"
    using Cons.IH passed_accepting [OF p] Cons.prems by blast
  then show ?case using passed_trans [OF p] by simp
qed (simp add: passed_Nil)

lemma puts_above:
  "sd_over s \<noteq> 0 \<Longrightarrow> unat (sd_over s) \<le> length m \<Longrightarrow> qq_flagerr (sd_qq (fold smtp_put m s))"
proof (induction m arbitrary: s)
  case (Cons c m)
  show ?case
  proof (cases "sd_over s = 1")
    case True
    then have "qq_flagerr (sd_qq (smtp_put c s))"
      by (simp add: smtp_put_def Let_def qmail_fail_def qmail_put_def)
    then show ?thesis by (simp add: put_flagged)
  next
    case False
    have "sd_over (smtp_put c s) = sd_over s - 1" using Cons.prems by (simp add: smtp_put_def Let_def)
    moreover from False Cons.prems have "sd_over s - 1 \<noteq> 0" by auto
    moreover have "unat (sd_over s - 1) \<le> length m"
      using Cons.prems by (simp add: unat_minus_one_word)
    ultimately show ?thesis using Cons.IH [of "smtp_put c s"] by simp
  qed
qed (auto simp: unat_eq_0)

section \<open>Bare line feeds\<close>

text \<open>What \<^verbatim>\<open>convertbarelf\<close> makes of the stream: every bare LF becomes CR LF.\<close>

fun crlf_fix :: "bool \<Rightarrow> bytes \<Rightarrow> bytes" where
  "crlf_fix cr [] = []"
| "crlf_fix cr (c # m) = (if c = LF \<and> \<not> cr then CRLF else [c]) @ crlf_fix (c = CR) m"

fun map_rest :: "(bytes \<Rightarrow> bytes) \<Rightarrow> data_end \<Rightarrow> data_end" where
  "map_rest f (DataDone r) = DataDone (f r)"
| "map_rest f e = e"

lemma blast_loop_plain:
  "\<not> bare_lf conv cr c \<Longrightarrow> blast_loop conv cr st (c # inp) h s =
     (case blast_switch st c of
        SwStray \<Rightarrow> (DataStray, hdr_step c h, s)
      | SwEnd \<Rightarrow> (DataDone inp, hdr_step c h, s)
      | SwPut bs st' \<Rightarrow> blast_loop conv (if conv then c = CR else cr) st' inp (hdr_step c h) (fold smtp_put bs s))"
  by (simp add: Let_def)

lemma blast_loop_bare:
  "bare_lf conv cr c \<Longrightarrow> blast_loop conv cr st (c # inp) h s =
     (case blast_switch st CR of
        SwStray \<Rightarrow> (DataStray, hdr_step CR h, s)
      | SwEnd \<Rightarrow> (DataDone (c # inp), hdr_step CR h, s)
      | SwPut bs st' \<Rightarrow> blast_loop conv True st' (c # inp) (hdr_step CR h) (fold smtp_put bs s))"
  by (auto simp: Let_def bare_lf_def split: switch.split)

lemma blast_loop_convert:
  "blast_loop False sc' st (crlf_fix cr inp) h s =
   (case blast_loop True cr st inp h s of (e, h', s') \<Rightarrow> (map_rest (crlf_fix False) e, h', s'))"
proof (induction "True" cr st inp h s rule: blast_loop.induct)
  case (2 cr st c inp h s)
  show ?case
  proof (cases "bare_lf True cr c")
    case True
    then have c: "c = LF" "\<not> cr" by (auto simp: bare_lf_def)
    then have cf: "crlf_fix cr (c # inp) = CR # crlf_fix True (c # inp)" by simp
    have IH: "blast_switch st CR = SwPut bs st' \<Longrightarrow>
        blast_loop False sc' st' (crlf_fix True (c # inp)) (hdr_step CR h) (fold smtp_put bs s) =
        (case blast_loop True True st' (c # inp) (hdr_step CR h) (fold smtp_put bs s) of
           (e, h', s') \<Rightarrow> (map_rest (crlf_fix False) e, h', s'))" for bs st'
      using 2 [of CR "c # inp" True "hdr_step CR h" bs st'] True by simp
    show ?thesis
      unfolding cf blast_loop_bare [OF True] using IH
      by (auto simp: blast_loop_plain bare_lf_def blast_switch_end split: switch.splits
          simp del: blast_loop.simps crlf_fix.simps)
  next
    case False
    then have cf: "crlf_fix cr (c # inp) = c # crlf_fix (c = CR) inp" by (auto simp: bare_lf_def)
    have IH: "blast_switch st c = SwPut bs st' \<Longrightarrow>
        blast_loop False sc' st' (crlf_fix (c = CR) inp) (hdr_step c h) (fold smtp_put bs s) =
        (case blast_loop True (c = CR) st' inp (hdr_step c h) (fold smtp_put bs s) of
           (e, h', s') \<Rightarrow> (map_rest (crlf_fix False) e, h', s'))" for bs st'
      using 2 [of c inp "c = CR" "hdr_step c h" bs st'] False by simp
    show ?thesis
      unfolding cf blast_loop_plain [OF False] using IH
      using blast_switch_end [of st c]
      by (auto simp: blast_loop_plain bare_lf_def split: switch.splits
          simp del: blast_loop.simps)
  qed
qed simp

section \<open>Hops are header lines\<close>

text \<open>
  The reference: cut the bytes read at the line feeds, keep the lines before the first one that is
  just CR, and count those that begin with the field name (each letter in either case).
\<close>

fun lines_of :: "bytes \<Rightarrow> bytes list" where
  "lines_of [] = [[]]"
| "lines_of (c # p) = (if c = LF then [] # lines_of p else (c # hd (lines_of p)) # tl (lines_of p))"

definition begins :: "bytes \<Rightarrow> bytes \<Rightarrow> bytes \<Rightarrow> bool" where
  "begins low up l \<longleftrightarrow> length low \<le> length l \<and> (\<forall>i < length low. at_either i low up (l ! i))"

definition hop_lines :: "bytes list \<Rightarrow> nat" where
  "hop_lines ls = length (filter (begins ''received'' ''RECEIVED'') ls)
     + length (filter (begins ''delivered'' ''DELIVERED'') ls)"

definition hop_count :: "bytes \<Rightarrow> nat" where
  "hop_count p = hop_lines (takeWhile (\<lambda>l. l \<noteq> [CR]) (lines_of p))"

lemma lines_of_line: "LF \<notin> set l \<Longrightarrow> lines_of l = [l]"
  by (induction l) auto

lemma lines_of_append: "LF \<notin> set l \<Longrightarrow> lines_of (l @ LF # p) = l # lines_of p"
  by (induction l) auto

lemma hop_lines_simps [simp]:
  "hop_lines [] = 0"
  "hop_lines (l # ls) = (if begins ''received'' ''RECEIVED'' l then 1 else 0)
     + (if begins ''delivered'' ''DELIVERED'' l then 1 else 0) + hop_lines ls"
  by (simp_all add: hop_lines_def)

text \<open>The first bytes of a line agree with a field name as far as they go.\<close>

definition agree :: "nat \<Rightarrow> bytes \<Rightarrow> bytes \<Rightarrow> bytes \<Rightarrow> bool" where
  "agree k low up l \<longleftrightarrow> (\<forall>i < min k (length l). at_either i low up (l ! i))"

lemma agree_Nil [simp]: "agree k low up []"
  by (simp add: agree_def)

lemma agree_snoc [simp]:
  "agree k low up (l @ [c]) \<longleftrightarrow> agree k low up l \<and> (length l < k \<longrightarrow> at_either (length l) low up c)"
  by (auto simp: agree_def nth_append less_Suc_eq)

lemma begins_agree: "begins low up l \<longleftrightarrow> length low \<le> length l \<and> agree (length low) low up l"
  by (auto simp: begins_def agree_def)

definition fresh :: "hdr \<Rightarrow> bool" where
  "fresh h \<longleftrightarrow> h_in h \<and> h_pos h = 0 \<and> h_w h \<and> h_x h \<and> h_y h \<and> h_z h"

definition in_line :: "hdr \<Rightarrow> bytes \<Rightarrow> hdr \<Rightarrow> bool" where
  "in_line h l h' \<longleftrightarrow> h_in h' \<and> h_pos h' = min 14 (length l)
     \<and> (h_x h' \<longleftrightarrow> agree 8 ''received'' ''RECEIVED'' l) \<and> (h_y h' \<longleftrightarrow> agree 2 CRLF CRLF l)
     \<and> (h_z h' \<longleftrightarrow> agree 9 ''delivered'' ''DELIVERED'' l)
     \<and> h_hops h' = h_hops h + hop_lines [l]"

lemma hdr_return_receipt_sel [simp]:
  "h_in (hdr_return_receipt c h) = h_in h" "h_pos (hdr_return_receipt c h) = h_pos h"
  "h_x (hdr_return_receipt c h) = h_x h" "h_y (hdr_return_receipt c h) = h_y h"
  "h_z (hdr_return_receipt c h) = h_z h" "h_hops (hdr_return_receipt c h) = h_hops h"
  by (simp_all add: hdr_return_receipt_def Let_def)

lemma hdr_trace_sel:
  assumes "h_in h"
  shows "h_pos (hdr_trace c h) = h_pos h"
    "h_x (hdr_trace c h) \<longleftrightarrow> h_x h \<and> (h_pos h < 8 \<longrightarrow> at_either (h_pos h) ''received'' ''RECEIVED'' c)"
    "h_y (hdr_trace c h) \<longleftrightarrow> h_y h \<and> (h_pos h < 2 \<longrightarrow> at_either (h_pos h) CRLF CRLF c)"
    "h_z (hdr_trace c h) \<longleftrightarrow> h_z h \<and> (h_pos h < 9 \<longrightarrow> at_either (h_pos h) ''delivered'' ''DELIVERED'' c)"
    "h_hops (hdr_trace c h) = h_hops h + (if h_z (hdr_trace c h) \<and> h_pos h = 8 then 1 else 0)
       + (if h_x (hdr_trace c h) \<and> h_pos h = 7 then 1 else 0)"
    "h_in (hdr_trace c h) \<longleftrightarrow> \<not> (h_y (hdr_trace c h) \<and> h_pos h = 1)"
  using assms by (auto simp: hdr_trace_def Let_def at_either_def)

lemma hdr_step_sel:
  assumes "h_in h" "c \<noteq> LF"
  shows "h_pos (hdr_step c h) = min 14 (h_pos h + 1) \<or> 14 < h_pos h"
    "h_x (hdr_step c h) = h_x (hdr_trace c (hdr_return_receipt c h))"
    "h_y (hdr_step c h) = h_y (hdr_trace c (hdr_return_receipt c h))"
    "h_z (hdr_step c h) = h_z (hdr_trace c (hdr_return_receipt c h))"
    "h_hops (hdr_step c h) = h_hops (hdr_trace c (hdr_return_receipt c h))"
    "h_in (hdr_step c h) = h_in (hdr_trace c (hdr_return_receipt c h))"
  using assms by (auto simp: hdr_step_def Let_def hdr_trace_sel)

lemma begins_snoc:
  "begins low up (l @ [c]) \<longleftrightarrow>
   (if length l < length low then length l + 1 = length low \<and> agree (length low) low up (l @ [c]) else begins low up l)"
  by (auto simp: begins_agree)

lemma begins_names:
  "begins ''received'' ''RECEIVED'' l \<longleftrightarrow> 8 \<le> length l \<and> agree 8 ''received'' ''RECEIVED'' l"
  "begins ''delivered'' ''DELIVERED'' l \<longleftrightarrow> 9 \<le> length l \<and> agree 9 ''delivered'' ''DELIVERED'' l"
  by (simp_all add: begins_agree numeral_eq_Suc)

lemma agree_long: "k \<le> length l \<Longrightarrow> agree k low up (l @ [c]) = agree k low up l"
  by simp

lemma hops_snoc:
  "h + hop_lines [l @ [c]] = h + hop_lines [l]
      + (if agree 9 ''delivered'' ''DELIVERED'' (l @ [c]) \<and> length l = 8 then 1 else 0)
      + (if agree 8 ''received'' ''RECEIVED'' (l @ [c]) \<and> length l = 7 then 1 else 0)"
proof -
  consider "length l < 7" | "length l = 7" | "length l = 8" | "9 \<le> length l" by linarith
  then show ?thesis
    by cases (simp_all add: begins_names agree_long del: agree_snoc)
qed

lemma hop_lines_cr: "hop_lines [[CR]] = 0"
  by (simp add: begins_names)

lemma agree_crlf: "agree 2 CRLF CRLF (l @ [c]) \<Longrightarrow> length l = 1 \<Longrightarrow> c = LF"
  by (simp add: at_either_def)

lemma in_line_step:
  assumes "in_line h l h'" "c \<noteq> LF"
  shows "in_line h (l @ [c]) (hdr_step c h')"
proof -
  have i: "h_in h'" and p: "h_pos h' = min 14 (length l)" using assms by (auto simp: in_line_def)
  let ?r = "hdr_return_receipt c h'"
  have r: "h_in ?r" "h_pos ?r = min 14 (length l)" using i p by auto
  note sel = hdr_step_sel [OF i assms(2)] hdr_trace_sel [OF r(1), of c]
  have small: "min 14 (length l) < k \<longleftrightarrow> length l < k" "min 14 (length l) = k' \<longleftrightarrow> length l = k'"
    "length l < k \<Longrightarrow> min 14 (length l) = length l" if "k < 14" "k' < 14" for k k' :: nat
    using that by auto
  have x: "h_x (hdr_step c h') \<longleftrightarrow> agree 8 ''received'' ''RECEIVED'' (l @ [c])"
    using assms(1) r small [of 8 0] by (auto simp: sel in_line_def)
  have y: "h_y (hdr_step c h') \<longleftrightarrow> agree 2 CRLF CRLF (l @ [c])"
    using assms(1) r small [of 2 0] by (auto simp: sel in_line_def)
  have z: "h_z (hdr_step c h') \<longleftrightarrow> agree 9 ''delivered'' ''DELIVERED'' (l @ [c])"
    using assms(1) r small [of 9 0] by (auto simp: sel in_line_def)
  have pos: "h_pos (hdr_step c h') = min 14 (length (l @ [c]))"
    using sel(1) p by auto
  have inn: "h_in (hdr_step c h')"
    using y agree_crlf [of l c] assms(2) r by (auto simp: sel min_def)
  have eight: "h_pos ?r = 8 \<longleftrightarrow> length l = 8" "h_pos ?r = 7 \<longleftrightarrow> length l = 7"
    using r by auto
  have "h_hops (hdr_step c h') = h_hops h + hop_lines [l]
      + (if agree 9 ''delivered'' ''DELIVERED'' (l @ [c]) \<and> length l = 8 then 1 else 0)
      + (if agree 8 ''received'' ''RECEIVED'' (l @ [c]) \<and> length l = 7 then 1 else 0)"
    using assms(1) x z unfolding sel eight by (simp add: in_line_def)
  also have "\<dots> = h_hops h + hop_lines [l @ [c]]"
    by (rule hops_snoc [symmetric])
  finally show ?thesis using x y z pos inn by (simp only: in_line_def)
qed

lemma in_line_fold:
  "fresh h \<Longrightarrow> LF \<notin> set l \<Longrightarrow> in_line h l (fold hdr_step l h)"
proof (induction l rule: rev_induct)
  case Nil
  then show ?case by (simp add: in_line_def fresh_def begins_def)
next
  case (snoc c l)
  then have "in_line h l (fold hdr_step l h)" "c \<noteq> LF" by auto
  then show ?case using in_line_step by simp
qed

text \<open>A line feed ends the line; the line CR LF ends the header.\<close>

lemma hdr_step_lf:
  assumes "fresh h" "in_line h l h'"
  shows "h_hops (hdr_step LF h') = h_hops h + hop_lines [l]"
    "if l = [CR] then \<not> h_in (hdr_step LF h') else fresh (hdr_step LF h')"
proof -
  have i: "h_in h'" and p: "h_pos h' = min 14 (length l)" using assms by (auto simp: in_line_def)
  let ?r = "hdr_return_receipt LF h'"
  have r: "h_in ?r" "h_pos ?r = min 14 (length l)" using i p by auto
  note sel = hdr_trace_sel [OF r(1), of LF]
  have no: "h_pos ?r = 8 \<Longrightarrow> \<not> h_z (hdr_trace LF ?r)" "h_pos ?r = 7 \<Longrightarrow> \<not> h_x (hdr_trace LF ?r)"
    by (simp_all add: sel(2,4) at_either_def)
  have cr: "h_y (hdr_trace LF ?r) \<and> h_pos ?r = 1 \<longleftrightarrow> l = [CR]"
  proof (cases "length l = 1")
    case True
    then obtain x where x: "l = [x]" by (metis One_nat_def length_0_conv length_Suc_conv)
    have "h_y ?r \<longleftrightarrow> x = CR" using assms(2) by (simp add: x in_line_def agree_def at_either_def)
    moreover have "at_either 1 CRLF CRLF LF" by (simp add: at_either_def)
    ultimately show ?thesis using r(2) by (simp add: sel x)
  next
    case False
    then show ?thesis using r(2) by auto
  qed
  show "h_hops (hdr_step LF h') = h_hops h + hop_lines [l]"
    using i no assms(2) by (auto simp: hdr_step_def Let_def sel(5) in_line_def)
  show "if l = [CR] then \<not> h_in (hdr_step LF h') else fresh (hdr_step LF h')"
    using i cr by (auto simp: hdr_step_def Let_def sel(6) fresh_def)
qed

lemma hdr_out: "\<not> h_in h \<Longrightarrow> fold hdr_step p h = h"
  by (induction p) (auto simp: hdr_step_def)

lemma hops_fold: "fresh h \<Longrightarrow> h_hops (fold hdr_step p h) = h_hops h + hop_count p"
proof (induction "length p" arbitrary: p h rule: less_induct)
  case less
  show ?case
  proof (cases "LF \<in> set p")
    case False
    then show ?thesis
      using in_line_fold [OF less.prems False] hop_lines_cr
      by (auto simp: in_line_def hop_count_def lines_of_line simp del: hop_lines_simps(2))
  next
    case True
    then obtain l q where p: "p = l @ LF # q" and l: "LF \<notin> set l" by (metis split_list_first)
    let ?h = "hdr_step LF (fold hdr_step l h)"
    note step = hdr_step_lf [OF less.prems in_line_fold [OF less.prems l]]
    show ?thesis
    proof (cases "l = [CR]")
      case True
      then have "\<not> h_in ?h" using step(2) by simp
      then show ?thesis using True step(1) l hop_lines_cr
        by (simp add: p hdr_out hop_count_def lines_of_append del: hop_lines_simps(2))
    next
      case False
      then have "fresh ?h" using step(2) by simp
      then have "h_hops (fold hdr_step q ?h) = h_hops ?h + hop_count q" using less.hyps [of q] by (simp add: p)
      then show ?thesis using False step(1) l by (simp add: p hop_count_def lines_of_append)
    qed
  qed
qed

end
