(* ===== verification/SmtpSession.thy ===== *)
theory SmtpSession
  imports SmtpFacts
begin

text \<open>
  What \<^verbatim>\<open>smtp_data\<close> of \<^verbatim>\<open>indimail-mta-x/smtpd.c\<close> does with one message, from the opened
  \<^verbatim>\<open>qmail-queue\<close> to the verdict: the \<^verbatim>\<open>Received\<close> line of \<^verbatim>\<open>received.c\<close>, the SPF line, the body, the
  envelope, and the reply to the client. Plugins and the tests on the content are not configured.
\<close>

section \<open>The Received line\<close>

definition issafe :: "char \<Rightarrow> bool" where
  "issafe ch \<longleftrightarrow> ch \<in> set ''.@%+/=:-_[] '' \<or>
     (let n = schar ch in (97 \<le> n \<and> n \<le> 122) \<or> (65 \<le> n \<and> n \<le> 90) \<or> (48 \<le> n \<and> n \<le> 57))"

definition safeput :: "bytes \<Rightarrow> qmailq \<Rightarrow> qmailq" where
  "safeput s = fold (\<lambda>ch. qmail_put [if issafe ch then ch else CHR ''?'']) (cstr s)"

text \<open>Statements executed one after the other; \<open>unless_null\<close> is an \<^verbatim>\<open>if\<close> on a pointer.\<close>

definition in_order :: "('a \<Rightarrow> 'a) list \<Rightarrow> 'a \<Rightarrow> 'a" where
  "in_order fs = fold (\<lambda>f. f) fs"

definition unless_null :: "'b option \<Rightarrow> ('b \<Rightarrow> ('a \<Rightarrow> 'a) list) \<Rightarrow> 'a \<Rightarrow> 'a" where
  "unless_null x f = (case x of None \<Rightarrow> id | Some y \<Rightarrow> in_order (f y))"

text \<open>
  The caller's view of the peer. A pointer that may be null is an option; the process id is printed
  with \<^verbatim>\<open>fmt_ulong\<close>; \<open>pe_date\<close> is the output of \<^verbatim>\<open>date822fmt\<close> for the current time.
\<close>

record peer =
  pe_program :: bytes
  pe_protocol :: bytes
  pe_local :: "bytes option"
  pe_ip :: "bytes option"
  pe_host :: "bytes option"
  pe_info :: "bytes option"
  pe_helo :: "bytes option"
  pe_hide :: bool
  pe_pid :: nat
  pe_date :: bytes

definition received :: "libq \<Rightarrow> peer \<Rightarrow> qmailq \<Rightarrow> qmailq" where
  "received L p = in_order
    [qmail_puts ''Received: indimail-mta '',
     qmail_puts (pe_program p),
     qmail_puts '' '',
     qmail_put (lq_fmt_ulong L (pe_pid p)),
     (if pe_hide p then id else unless_null (pe_host p) (\<lambda>h. [qmail_puts '' from '', safeput h])),
     (if pe_hide p then id else unless_null (pe_helo p) (\<lambda>h. [qmail_puts '' (HELO '', safeput h, qmail_puts '')''])),
     (if pe_hide p then id else unless_null (pe_info p) (\<lambda>i. [unless_null (pe_ip p) (\<lambda>ip.
        [qmail_puts '' ('', safeput i, qmail_puts ''@'', safeput ip, qmail_puts ('')'' @ [LF])])])),
     (if pe_hide p then id else unless_null (pe_local p) (\<lambda>l. [qmail_puts ''  by '', safeput l])),
     qmail_puts '' with '',
     qmail_puts (pe_protocol p),
     qmail_puts ''; '',
     qmail_put (pe_date p)]"

section \<open>The SPF line and the body\<close>

text \<open>\<open>None\<close>: SPF is off or the client may relay. The subtraction wraps, as \<^verbatim>\<open>BytesToOverflow\<close> is unsigned.\<close>

definition spfreceived :: "bytes option \<Rightarrow> smtpd \<Rightarrow> smtpd" where
  "spfreceived info s =
     (case info of None \<Rightarrow> s
      | Some sa \<Rightarrow>
        let rcvd_spf = ''Received-SPF: '' @ sa @ [LF];
            over = (if sd_over s \<noteq> 0 then sd_over s - of_nat (length rcvd_spf) else 0);
            q = (if sd_over s \<noteq> 0 \<and> over = 0 then qmail_fail (sd_qq s) else sd_qq s)
        in s\<lparr>sd_over := over, sd_qq := qmail_put rcvd_spf q\<rparr>)"

text \<open>The configuration and the state of the session that \<^verbatim>\<open>smtp_data\<close> reads.\<close>

record data_env =
  de_databytes :: "64 word"
  de_maxhops :: int
  de_barelf :: bool          \<comment> \<open>\<^verbatim>\<open>convertbarelf\<close>\<close>
  de_peer :: peer
  de_spf :: "bytes option"
  de_mailfrom :: bytes
  de_rcptto :: bytes         \<comment> \<open>a record \<^verbatim>\<open>T<address>\0\<close> for each recipient\<close>

text \<open>How the child ended, as \<^verbatim>\<open>qmail_close\<close> sees it.\<close>

record child =
  ch_custom :: bytes
  ch_waited :: bool
  ch_crashed :: bool
  ch_code :: nat

datatype data_verdict = Accepted | TooManyHops | TooBig | QueueSays bytes | BareLfRefused

definition data_start :: "libq \<Rightarrow> data_env \<Rightarrow> 64 word \<Rightarrow> qmailq \<Rightarrow> smtpd" where
  "data_start L e over q =
     spfreceived (de_spf e)
       \<lparr>sd_over = (if 0 < de_databytes e then de_databytes e + 1 else over), sd_size = 0,
        sd_qq = received L (de_peer e) q\<rparr>"

definition data_close :: "data_env \<Rightarrow> child \<Rightarrow> qmailq \<Rightarrow> bytes \<times> qmailq" where
  "data_close e c q =
     qmail_close (ch_custom c) (ch_waited c) (ch_crashed c) (ch_code c)
       (qmail_put (de_rcptto e) (qmail_from (de_mailfrom e) q))"

definition smtp_data :: "libq \<Rightarrow> data_env \<Rightarrow> 64 word \<Rightarrow> qmailq \<Rightarrow> child \<Rightarrow> bytes \<Rightarrow> data_verdict \<times> qmailq" where
  "smtp_data L e over q c inp =
     (case smtpd_blast (de_barelf e) inp (data_start L e over q) of (end, h, s) \<Rightarrow>
        if end = DataStray then (BareLfRefused, sd_qq s)
        else
          let (hops, q1) = (if end = DataEof then (h_hops h \<noteq> 0, qmail_fail (sd_qq s))
                else let looped = int (h_hops h) \<ge> de_maxhops e
                     in (looped, if looped then qmail_fail (sd_qq s) else sd_qq s));
              (qqx, q2) = data_close e c q1
          in (if qqx = [] then Accepted
              else if hops then TooManyHops
              else if 0 < de_databytes e \<and> sd_over s = 0 then TooBig
              else QueueSays qqx, q2))"

text \<open>The reply to the client for a verdict of \<^verbatim>\<open>qmail-queue\<close>.\<close>

definition queue_reply :: "libq \<Rightarrow> bytes \<Rightarrow> bytes" where
  "queue_reply L qqx =
     (let t = cstr qqx; j = lq_rchr L t LF
      in if j < length t \<and> j + 1 < length t then
           (if t ! (j + 1) = CHR ''D'' then ''554 '' @ drop (j + 2) t @ CRLF
            else if t ! (j + 1) = CHR ''Z'' then ''451 '' @ drop (j + 2) t @ CRLF
            else ''451 '' @ drop (j + 1) t @ CRLF) @ take j t @ CRLF
         else
           let t = take j t
           in (if t \<noteq> [] \<and> hd t = CHR ''D'' then ''554 '' else ''451 '') @ drop 1 t @ CRLF)"

section \<open>What is written in front of the message\<close>

definition openq :: "qmailq \<Rightarrow> bool" where
  "openq q \<longleftrightarrow> \<not> qq_flagerr q \<and> \<not> qq_onenv q \<and> (\<forall>n. \<not> qq_fault q n)"

lemma accepting_openq: "accepting s \<longleftrightarrow> openq (sd_qq s)"
  by (simp add: accepting_def openq_def)

definition wrote :: "bytes \<Rightarrow> qmailq \<Rightarrow> qmailq \<Rightarrow> bool" where
  "wrote b q q' \<longleftrightarrow> (\<exists>n. q' = q\<lparr>qq_mess := qq_mess q @ b, qq_ops := n\<rparr>)"

lemma wrote_openq: "wrote b q q' \<Longrightarrow> openq q \<Longrightarrow> openq q'"
  by (auto simp: wrote_def openq_def)

lemma wrote_env: "wrote b q q' \<Longrightarrow> qq_env q' = qq_env q \<and> qq_mess q' = qq_mess q @ b \<and> qq_fdc q' = qq_fdc q"
  by (auto simp: wrote_def)

text \<open>\<open>emits b f\<close>: on an open stream, \<open>f\<close> writes exactly \<open>b\<close> to the message.\<close>

definition emits :: "bytes \<Rightarrow> (qmailq \<Rightarrow> qmailq) \<Rightarrow> bool" where
  "emits b f \<longleftrightarrow> (\<forall>q. openq q \<longrightarrow> wrote b q (f q))"

lemma emits_put: "emits b (qmail_put b)"
proof -
  have "wrote b q (qmail_put b q)" if "openq q" for q
    using that by (cases q) (auto simp: openq_def wrote_def qmail_put_ok)
  then show ?thesis by (simp add: emits_def)
qed

lemma emits_puts: "emits (cstr b) (qmail_puts b)"
  using emits_put [of "cstr b"] by (simp add: emits_def qmail_puts_def)

lemma wrote_refl: "wrote [] q q"
  unfolding wrote_def by (rule exI [of _ "qq_ops q"]) simp

lemma emits_id: "emits [] id" "emits [] (\<lambda>q. q)"
  by (simp_all add: emits_def wrote_refl)

lemma emits_comp: "emits a f \<Longrightarrow> emits b g \<Longrightarrow> emits (a @ b) (\<lambda>q. g (f q))"
proof -
  assume a: "emits a f" and b: "emits b g"
  have "wrote (a @ b) q (g (f q))" if "openq q" for q
  proof -
    have f: "wrote a q (f q)" using a that by (simp add: emits_def)
    then have "wrote b (f q) (g (f q))" using b wrote_openq that by (auto simp: emits_def)
    with f show ?thesis by (auto simp: wrote_def)
  qed
  then show ?thesis by (simp add: emits_def)
qed

lemma emits_in_order: "list_all2 emits bs fs \<Longrightarrow> emits (concat bs) (in_order fs)"
proof (induction rule: list_all2_induct)
  case Nil
  then show ?case using emits_id by (simp add: in_order_def)
next
  case (Cons b bs f fs)
  then show ?case using emits_comp [of b f "concat bs" "in_order fs"] by (simp add: in_order_def)
qed

lemma emits_safeput:
  "emits (map (\<lambda>ch. if issafe ch then ch else CHR ''?'') (cstr s)) (safeput s)"
proof -
  have "emits (map (\<lambda>ch. if issafe ch then ch else CHR ''?'') t)
      (fold (\<lambda>ch. qmail_put [if issafe ch then ch else CHR ''?'']) t)" for t
  proof (induction t)
    case (Cons c t)
    then show ?case
      using emits_comp [OF emits_put [of "[if issafe c then c else CHR ''?'']"] Cons.IH] by (simp add: comp_def)
  qed (use emits_id in simp)
  then show ?thesis by (simp add: safeput_def)
qed

definition safe_text :: "bytes \<Rightarrow> bytes" where
  "safe_text s = map (\<lambda>ch. if issafe ch then ch else CHR ''?'') (cstr s)"

text \<open>The text of the line.\<close>

definition shown :: "bool \<Rightarrow> bytes option \<Rightarrow> (bytes \<Rightarrow> bytes) \<Rightarrow> bytes" where
  "shown hide x f = (case x of Some y \<Rightarrow> if hide then [] else f y | None \<Rightarrow> [])"

definition received_text :: "libq \<Rightarrow> peer \<Rightarrow> bytes" where
  "received_text L p = concat
    [''Received: indimail-mta '', cstr (pe_program p), '' '', lq_fmt_ulong L (pe_pid p),
     shown (pe_hide p) (pe_host p) (\<lambda>h. '' from '' @ safe_text h),
     shown (pe_hide p) (pe_helo p) (\<lambda>h. '' (HELO '' @ safe_text h @ '')''),
     shown (pe_hide p) (pe_info p) (\<lambda>i. shown False (pe_ip p)
       (\<lambda>ip. '' ('' @ safe_text i @ ''@'' @ safe_text ip @ '')'' @ [LF])),
     shown (pe_hide p) (pe_local p) (\<lambda>l. ''  by '' @ safe_text l),
     '' with '', cstr (pe_protocol p), ''; '', pe_date p]"

lemma emits_lit: "no_nul b \<Longrightarrow> emits b (qmail_puts b)"
  using emits_puts [of b] by (simp add: cstr_no_nul)

lemma emits_safe: "emits (safe_text s) (safeput s)"
  unfolding safe_text_def by (rule emits_safeput)

lemma emits_shown:
  "(\<And>y. list_all2 emits (bs y) (f y)) \<Longrightarrow> (\<And>y. concat (bs y) = g y) \<Longrightarrow>
   emits (shown hide x g) (if hide then id else unless_null x f)"
  using emits_in_order emits_id
  by (auto simp: shown_def unless_null_def split: option.split) (metis)

lemma received_emits: "emits (received_text L p) (received L p)"
  unfolding received_text_def received_def
proof (rule emits_in_order, simp only: list.rel_inject list.rel_intros simp_thms, intro conjI)
  show "emits (shown (pe_hide p) (pe_host p) (\<lambda>h. '' from '' @ safe_text h))
      (if pe_hide p then id else unless_null (pe_host p) (\<lambda>h. [qmail_puts '' from '', safeput h]))"
    by (rule emits_shown [where bs = "\<lambda>h. ['' from '', safe_text h]"]) (simp_all add: emits_lit emits_safe)
  show "emits (shown (pe_hide p) (pe_helo p) (\<lambda>h. '' (HELO '' @ safe_text h @ '')''))
      (if pe_hide p then id else unless_null (pe_helo p) (\<lambda>h. [qmail_puts '' (HELO '', safeput h, qmail_puts '')'']))"
    by (rule emits_shown [where bs = "\<lambda>h. ['' (HELO '', safe_text h, '')'']"]) (simp_all add: emits_lit emits_safe)
  let ?ip = "\<lambda>i ip. '' ('' @ safe_text i @ ''@'' @ safe_text ip @ '')'' @ [LF]"
  let ?put_ip = "\<lambda>i ip. [qmail_puts '' ('', safeput i, qmail_puts ''@'', safeput ip, qmail_puts ('')'' @ [LF])]"
  have "emits (shown False (pe_ip p) (?ip i)) (if False then id else unless_null (pe_ip p) (?put_ip i))" for i
    by (rule emits_shown [where bs = "\<lambda>ip. ['' ('', safe_text i, ''@'', safe_text ip, '')'' @ [LF]]"])
       (simp_all add: emits_lit emits_safe)
  then have "list_all2 emits [shown False (pe_ip p) (?ip i)] [unless_null (pe_ip p) (?put_ip i)]" for i
    by simp
  then show "emits (shown (pe_hide p) (pe_info p) (\<lambda>i. shown False (pe_ip p) (?ip i)))
      (if pe_hide p then id else unless_null (pe_info p) (\<lambda>i. [unless_null (pe_ip p) (?put_ip i)]))"
    by (rule emits_shown) simp
  show "emits (shown (pe_hide p) (pe_local p) (\<lambda>l. ''  by '' @ safe_text l))
      (if pe_hide p then id else unless_null (pe_local p) (\<lambda>l. [qmail_puts ''  by '', safeput l]))"
    by (rule emits_shown [where bs = "\<lambda>l. [''  by '', safe_text l]"]) (simp_all add: emits_lit emits_safe)
qed (simp_all add: emits_lit emits_safe emits_puts emits_put)

section \<open>The line is one header field\<close>

text \<open>Every line feed inside is followed by a space: a folded field, RFC 5322.\<close>

fun folded :: "bytes \<Rightarrow> bool" where
  "folded [] = True"
| "folded (c # t) \<longleftrightarrow> (c = LF \<longrightarrow> t \<noteq> [] \<and> hd t = CHR '' '') \<and> folded t"

lemma folded_append: "folded a \<Longrightarrow> folded b \<Longrightarrow> folded (a @ b)"
  by (induction a) auto

lemma folded_no_lf: "LF \<notin> set a \<Longrightarrow> folded (a @ b) = folded b"
  by (induction a) auto

lemma issafe_lf: "\<not> issafe LF"
  by (simp add: issafe_def schar_def Let_def)

lemma safe_text_no_lf: "LF \<notin> set (safe_text s)"
  by (auto simp: safe_text_def issafe_lf split: if_splits)

lemma shown_no_lf: "(\<And>y. LF \<notin> set (f y)) \<Longrightarrow> LF \<notin> set (shown hide x f)"
  by (auto simp: shown_def split: option.split)

lemma digits_no_lf: "list_all is_digit ds \<Longrightarrow> LF \<notin> set ds"
  by (auto simp: list_all_iff is_digit_def)

lemma received_text_folded:
  assumes "libqmail L" "LF \<notin> set (pe_program p)" "folded (cstr (pe_protocol p))" "pe_date p = d @ [LF]" "LF \<notin> set d"
  shows "\<exists>t. received_text L p = ''Received: '' @ t @ [LF] \<and> folded t"
proof -
  let ?tail = "'' with '' @ cstr (pe_protocol p) @ ''; '' @ d"
  let ?by = "shown (pe_hide p) (pe_local p) (\<lambda>l. ''  by '' @ safe_text l)"
  let ?info = "shown (pe_hide p) (pe_info p) (\<lambda>i. shown False (pe_ip p)
       (\<lambda>ip. '' ('' @ safe_text i @ ''@'' @ safe_text ip @ '')'' @ [LF]))"
  let ?front = "''indimail-mta '' @ cstr (pe_program p) @ '' '' @ lq_fmt_ulong L (pe_pid p) @
     shown (pe_hide p) (pe_host p) (\<lambda>h. '' from '' @ safe_text h) @
     shown (pe_hide p) (pe_helo p) (\<lambda>h. '' (HELO '' @ safe_text h @ '')'')"
  have tail: "folded ?tail" using assms(3,5) folded_no_lf [of d "[]"] by (simp add: folded_append)
  have "LF \<notin> set ?by" by (rule shown_no_lf) (simp add: safe_text_no_lf)
  then have rest: "folded (?by @ ?tail)" using tail by (rule folded_no_lf [THEN iffD2])
  have hd: "?by @ ?tail \<noteq> []" "hd (?by @ ?tail) = CHR '' ''"
    by (auto simp: shown_def split: option.split)
  have "folded ([LF] @ ?by @ ?tail)" using rest hd by simp
  then have mid: "folded (a @ [LF] @ ?by @ ?tail)" if "LF \<notin> set a" for a
    using that by (rule folded_no_lf [THEN iffD2, rotated])
  have info: "folded (?info @ ?by @ ?tail)"
  proof (cases "pe_hide p \<or> pe_info p = None \<or> pe_ip p = None")
    case True
    then have "?info = []" by (auto simp: shown_def split: option.splits)
    then show ?thesis using rest by simp
  next
    case False
    then obtain i ip where "?info = ('' ('' @ safe_text i @ ''@'' @ safe_text ip @ '')'') @ [LF]"
      by (auto simp: shown_def split: option.splits)
    then show ?thesis using mid [of "'' ('' @ safe_text i @ ''@'' @ safe_text ip @ '')''"]
      by (simp add: safe_text_no_lf)
  qed
  have "LF \<notin> set (cstr (pe_program p))" using assms(2) by (auto simp: cstr_def dest: set_takeWhileD)
  moreover have "LF \<notin> set (lq_fmt_ulong L (pe_pid p))"
    using libqmail.fmt_ulong_digits [OF assms(1)] digits_no_lf by blast
  moreover have "LF \<notin> set (shown (pe_hide p) (pe_host p) (\<lambda>h. '' from '' @ safe_text h))"
      "LF \<notin> set (shown (pe_hide p) (pe_helo p) (\<lambda>h. '' (HELO '' @ safe_text h @ '')''))"
    by (rule shown_no_lf; simp add: safe_text_no_lf)+
  ultimately have "LF \<notin> set ?front" by simp
  then have "folded (?front @ ?info @ ?by @ ?tail)" using info by (rule folded_no_lf [THEN iffD2])
  moreover have "received_text L p = ''Received: '' @ (?front @ ?info @ ?by @ ?tail) @ [LF]"
    by (simp add: received_text_def assms(4))
  ultimately show ?thesis by blast
qed

section \<open>From the opened queue to the body\<close>

definition spf_text :: "data_env \<Rightarrow> bytes" where
  "spf_text e = (case de_spf e of None \<Rightarrow> [] | Some sa \<Rightarrow> ''Received-SPF: '' @ sa @ [LF])"

text \<open>The limit is not exceeded; \<open>limit_ok\<close>: adding one to it and subtracting the SPF line do not wrap.\<close>

definition fits :: "data_env \<Rightarrow> bytes \<Rightarrow> bool" where
  "fits e m \<longleftrightarrow> de_databytes e = 0 \<or> length (spf_text e) + length m \<le> unat (de_databytes e)"

definition limit_ok :: "data_env \<Rightarrow> 64 word \<Rightarrow> bool" where
  "limit_ok e over \<longleftrightarrow> (de_databytes e = 0 \<longrightarrow> over = 0) \<and> de_databytes e \<noteq> - 1 \<and> fits e []"

lemma unat_plus_one_word: "w \<noteq> - 1 \<Longrightarrow> unat (w + 1) = unat w + 1" for w :: "'a::len word"
  using unatSuc [of w] by (metis Suc_eq_plus1 add.commute add_eq_0_iff2 add_eq_0_iff)

lemma unat_minus_small: "n \<le> unat w \<Longrightarrow> unat (w - of_nat n) = unat w - n" for w :: "'a::len word"
  by (metis le_unat_uoi unat_sub word_le_nat_alt)

definition spf_line :: "bytes option \<Rightarrow> bytes" where
  "spf_line info = (case info of None \<Rightarrow> [] | Some sa \<Rightarrow> ''Received-SPF: '' @ sa @ [LF])"

lemma spf_text_line: "spf_text e = spf_line (de_spf e)"
  by (simp add: spf_text_def spf_line_def)

lemma spfreceived_spec:
  assumes q: "openq (sd_qq s)" and lim: "sd_over s = 0 \<or> length (spf_line info) < unat (sd_over s)"
  shows "wrote (spf_line info) (sd_qq s) (sd_qq (spfreceived info s)) \<and>
    unat (sd_over (spfreceived info s)) = unat (sd_over s) - length (spf_line info)"
proof (cases info)
  case None
  then show ?thesis by (simp add: spfreceived_def spf_line_def wrote_refl)
next
  case (Some sa)
  obtain t where t: "t = ''Received-SPF: '' @ sa @ [LF]" by blast
  have line: "spf_line info = t" by (simp add: spf_line_def Some t)
  have sub: "unat (sd_over s - of_nat (length t)) = unat (sd_over s) - length t" if "sd_over s \<noteq> 0"
    using that lim line by (intro unat_minus_small) simp
  then have pos: "sd_over s - of_nat (length t) \<noteq> 0" if "sd_over s \<noteq> 0"
    using that lim line by (metis unat_0 zero_less_diff less_irrefl)
  have "wrote t (sd_qq s) (qmail_put t (sd_qq s))" using emits_put q by (simp add: emits_def)
  then show ?thesis
    using sub pos line unfolding spfreceived_def Some option.case Let_def t [symmetric]
    by auto
qed

lemma data_start_spec:
  assumes q: "openq q" and lim: "limit_ok e over"
  shows "wrote (received_text L (de_peer e) @ spf_text e) q (sd_qq (data_start L e over q))"
    and "unat (sd_over (data_start L e over q)) =
      (if de_databytes e = 0 then 0 else unat (de_databytes e) + 1 - length (spf_text e))"
proof -
  let ?r = "received L (de_peer e) q"
  let ?s = "\<lparr>sd_over = if 0 < de_databytes e then de_databytes e + 1 else over, sd_size = 0, sd_qq = ?r\<rparr>"
  have r: "wrote (received_text L (de_peer e)) q ?r" using received_emits q by (simp add: emits_def)
  have o: "unat (sd_over ?s) = (if de_databytes e = 0 then 0 else unat (de_databytes e) + 1)"
    using lim by (auto simp: limit_ok_def unat_plus_one_word word_gt_0)
  have "sd_over ?s = 0 \<or> length (spf_line (de_spf e)) < unat (sd_over ?s)"
    using lim o by (auto simp: limit_ok_def fits_def spf_text_line split: if_splits)
  then have "wrote (spf_text e) ?r (sd_qq (data_start L e over q)) \<and>
      unat (sd_over (data_start L e over q)) = unat (sd_over ?s) - length (spf_text e)"
    using spfreceived_spec [of ?s] wrote_openq [OF r q] by (simp add: data_start_def spf_text_line)
  then show "wrote (received_text L (de_peer e) @ spf_text e) q (sd_qq (data_start L e over q))"
    "unat (sd_over (data_start L e over q)) =
      (if de_databytes e = 0 then 0 else unat (de_databytes e) + 1 - length (spf_text e))"
    using r o by (auto simp: wrote_def)
qed

section \<open>The verdict\<close>

lemma qmail_from_flagged: "qq_flagerr q \<Longrightarrow> qq_flagerr (qmail_from m q)"
  by (auto simp: qmail_from_def qmail_flush_def qmail_puts_def qmail_put_def Let_def)

lemma data_close_flagged:
  assumes "qq_flagerr q" "cstr (take 1023 (ch_custom c)) \<noteq> []"
  shows "fst (data_close e c q) \<noteq> []"
proof -
  have "qq_flagerr (qmail_put b q')" if "qq_flagerr q'" for b q' using that by (simp add: qmail_put_def)
  then have "qq_flagerr (snd (data_close e c q))"
    using qmail_from_flagged [OF assms(1)]
    by (auto simp: data_close_def qmail_close_def Let_def qmail_flush_def)
  then show ?thesis using qmail_close_accepts [OF assms(2)] by (simp add: data_close_def)
qed

lemma data_close_open:
  assumes "openq q"
  shows "\<not> qq_flagerr (snd (data_close e c q))" "qq_mess (snd (data_close e c q)) = qq_mess q"
    "qq_env (snd (data_close e c q)) = qq_env q @ ''F'' @ cstr (de_mailfrom e) @ [NUL] @ de_rcptto e @ [NUL]"
  using assms
  by (simp_all add: openq_def data_close_def qmail_close_def qmail_from_def qmail_flush_def qmail_puts_def
      qmail_put_ok Let_def)

lemma data_close_closed:
  assumes "qq_flagerr q"
  shows "qq_env (snd (data_close e c q)) = qq_env q"
proof -
  have p: "qq_flagerr q' \<Longrightarrow> qmail_put b q' = q'" for b q' by (simp add: qmail_put_def)
  have "qq_flagerr (qmail_from (de_mailfrom e) q) \<and> qq_env (qmail_from (de_mailfrom e) q) = qq_env q"
    using assms by (simp add: qmail_from_def qmail_flush_def qmail_puts_def p Let_def)
  then show ?thesis by (simp add: data_close_def qmail_close_def p Let_def)
qed

lemma puts_env: "\<not> qq_onenv (sd_qq s) \<Longrightarrow> qq_env (sd_qq (fold smtp_put m s)) = qq_env (sd_qq s)"
proof (induction m arbitrary: s)
  case (Cons b m)
  have "\<not> qq_onenv (sd_qq (smtp_put b s)) \<and> qq_env (sd_qq (smtp_put b s)) = qq_env (sd_qq s)"
    using Cons.prems by (simp add: smtp_put_def qmail_put_def qmail_fail_def Let_def)
  then show ?case using Cons.IH [of "smtp_put b s"] by simp
qed simp

definition queued :: "child \<Rightarrow> bool" where
  "queued c \<longleftrightarrow> ch_waited c \<and> \<not> ch_crashed c \<and> ch_code c = 0"

lemma data_close_verdict:
  "openq q \<Longrightarrow> cstr (take 1023 (ch_custom c)) \<noteq> [] \<Longrightarrow> fst (data_close e c q) = [] \<longleftrightarrow> queued c"
  using qmail_close_accepts [of "ch_custom c"] data_close_open [of q e c]
  by (simp add: data_close_def queued_def)

text \<open>What the client sends for a message, and what the server makes of it.\<close>

definition wire :: "bytes \<Rightarrow> bytes" where
  "wire m = stuff True m @ ''.'' @ CRLF"

lemma crlf_fix_stuff:
  "crlf_fix cr (stuff eom m @ ''.'' @ CRLF @ rest) = stuff eom m @ ''.'' @ CRLF @ crlf_fix False rest"
  by (induction eom m arbitrary: cr rule: stuff.induct) auto

lemma blast_wire:
  assumes "m = [] \<or> last m = LF"
  shows "\<exists>r h. smtpd_blast conv (wire m @ rest) s = (DataDone r, h, fold smtp_put m (s\<lparr>sd_size := 0\<rparr>))
    \<and> h_hops h = hop_count (wire m)"
proof -
  have plain: "\<exists>h. smtpd_blast False (wire m @ rest) s = (DataDone rest, h, fold smtp_put m (s\<lparr>sd_size := 0\<rparr>))
      \<and> h_hops h = hop_count (wire m)" for rest
  proof -
    have u: "unst 1 (wire m @ rest) = (m, DataDone rest)"
      using unst_stuff [of 1 m rest] assms by (auto simp: wire_def ends_line_def)
    obtain h where b: "smtpd_blast False (wire m @ rest) s = (DataDone rest, h, fold smtp_put m (s\<lparr>sd_size := 0\<rparr>))"
      using blast_loop_unst [of False 1 "wire m @ rest" hdr_init "s\<lparr>sd_size := 0\<rparr>"]
      unfolding u smtpd_blast_def by auto
    obtain p where "wire m @ rest = p @ rest" "h = fold hdr_step p hdr_init"
      using blast_loop_header [of False 1 "wire m @ rest" hdr_init "s\<lparr>sd_size := 0\<rparr>" rest] b
      unfolding smtpd_blast_def by auto
    then have "h_hops h = hop_count (wire m)"
      using hops_fold [of hdr_init p] by (simp add: fresh_def hdr_init_def)
    with b show ?thesis by blast
  qed
  show ?thesis
  proof (cases conv)
    case False
    then have "conv = False" by simp
    then show ?thesis using plain [of rest] by blast
  next
    case True
    have "crlf_fix False (wire m @ rest) = wire m @ crlf_fix False rest"
      using crlf_fix_stuff [of False True m rest] by (simp add: wire_def)
    then have "(case smtpd_blast True (wire m @ rest) s of (e, h', s') \<Rightarrow> (map_rest (crlf_fix False) e, h', s'))
        = smtpd_blast False (wire m @ crlf_fix False rest) s"
      using blast_loop_convert [of False 1 False "wire m @ rest"] by (simp add: smtpd_blast_def)
    moreover obtain h where "smtpd_blast False (wire m @ crlf_fix False rest) s =
        (DataDone (crlf_fix False rest), h, fold smtp_put m (s\<lparr>sd_size := 0\<rparr>))" "h_hops h = hop_count (wire m)"
      using plain by blast
    moreover obtain e h' s' where b: "smtpd_blast True (wire m @ rest) s = (e, h', s')" by (metis prod_cases3)
    ultimately have "map_rest (crlf_fix False) e = DataDone (crlf_fix False rest)" "h' = h"
        "s' = fold smtp_put m (s\<lparr>sd_size := 0\<rparr>)" "h_hops h = hop_count (wire m)"
      by simp_all
    then show ?thesis using b True by (cases e) auto
  qed
qed

text \<open>The verdict on a body that was read to its end.\<close>

definition data_outcome :: "data_env \<Rightarrow> child \<Rightarrow> nat \<Rightarrow> bytes \<Rightarrow> data_verdict \<Rightarrow> bool" where
  "data_outcome e c hops m v \<longleftrightarrow>
     (if int hops \<ge> de_maxhops e then v = TooManyHops
      else if \<not> fits e m then v = TooBig
      else if queued c then v = Accepted
      else \<exists>x. x \<noteq> [] \<and> v = QueueSays x)"

lemma smtp_data_done:
  assumes q: "openq q" and lim: "limit_ok e over" and c: "cstr (take 1023 (ch_custom c)) \<noteq> []"
    and b: "smtpd_blast (de_barelf e) inp (data_start L e over q) =
      (DataDone r, h, fold smtp_put m ((data_start L e over q)\<lparr>sd_size := 0\<rparr>))"
  shows "data_outcome e c (h_hops h) m (fst (smtp_data L e over q c inp))"
    and "int (h_hops h) < de_maxhops e \<Longrightarrow> fits e m \<Longrightarrow>
      qq_mess (snd (smtp_data L e over q c inp)) = qq_mess q @ received_text L (de_peer e) @ spf_text e @ m \<and>
      qq_env (snd (smtp_data L e over q c inp)) =
        qq_env q @ ''F'' @ cstr (de_mailfrom e) @ [NUL] @ de_rcptto e @ [NUL]"
    and "\<not> (int (h_hops h) < de_maxhops e \<and> fits e m) \<Longrightarrow> qq_env (snd (smtp_data L e over q c inp)) = qq_env q"
proof -
  let ?s = "(data_start L e over q)\<lparr>sd_size := 0\<rparr>"
  let ?f = "fold smtp_put m ?s"
  have w: "wrote (received_text L (de_peer e) @ spf_text e) q (sd_qq ?s)"
    using data_start_spec(1) [OF q lim] by simp
  have o: "unat (sd_over ?s) = (if de_databytes e = 0 then 0 else unat (de_databytes e) + 1 - length (spf_text e))"
    using data_start_spec(2) [OF q lim] by simp
  have acc: "accepting ?s" using wrote_openq [OF w q] by (simp add: accepting_openq)
  have len: "de_databytes e = 0 \<or> length (spf_text e) \<le> unat (de_databytes e)"
    using lim by (simp add: limit_ok_def fits_def)
  have below: "passed m ?s ?f" if "fits e m"
    using that o len by (intro puts_below [OF acc]) (auto simp: fits_def unat_eq_0 split: if_splits)
  have above: "qq_flagerr (sd_qq ?f) \<and> sd_over ?f = 0 \<and> de_databytes e \<noteq> 0" if "\<not> fits e m"
  proof -
    have nz: "de_databytes e \<noteq> 0" "unat (sd_over ?s) \<le> length m" "sd_over ?s \<noteq> 0"
      using that o len by (auto simp: fits_def unat_eq_0 [symmetric])
    have "unat (sd_over ?f) = 0" using puts_over [of m ?s] nz by simp
    then show ?thesis using puts_above [OF nz(3,2)] nz by (simp add: unat_eq_0)
  qed
  have over: "sd_over ?f = 0 \<longleftrightarrow> de_databytes e = 0 \<or> \<not> fits e m"
    using puts_over [of m ?s] o len by (auto simp: fits_def unat_eq_0 [symmetric] split: if_splits)
  have ok: "openq (sd_qq ?f)" if "fits e m"
    using passed_accepting [OF below [OF that] acc] by (simp add: accepting_openq)
  have sd: "smtp_data L e over q c inp =
      (let looped = int (h_hops h) \<ge> de_maxhops e;
           (qqx, q2) = data_close e c (if looped then qmail_fail (sd_qq ?f) else sd_qq ?f)
       in (if qqx = [] then Accepted else if looped then TooManyHops
           else if 0 < de_databytes e \<and> sd_over ?f = 0 then TooBig else QueueSays qqx, q2))"
    by (simp add: smtp_data_def b Let_def)
  show "data_outcome e c (h_hops h) m (fst (smtp_data L e over q c inp))"
  proof (cases "int (h_hops h) \<ge> de_maxhops e")
    case True
    then have "fst (data_close e c (qmail_fail (sd_qq ?f))) \<noteq> []"
      using data_close_flagged [OF _ c] by (simp add: qmail_fail_def)
    then show ?thesis using True by (auto simp: sd data_outcome_def Let_def split: prod.split)
  next
    case False
    show ?thesis
    proof (cases "fits e m")
      case True
      then show ?thesis
        using False over data_close_verdict [OF ok [OF True] c, of e]
        by (auto simp: sd data_outcome_def Let_def word_gt_0 split: prod.split)
    next
      case nofit: False
      then have "fst (data_close e c (sd_qq ?f)) \<noteq> []" using above data_close_flagged [OF _ c] by blast
      then show ?thesis
        using False nofit above by (auto simp: sd data_outcome_def Let_def word_gt_0 split: prod.split)
    qed
  qed
  show "qq_mess (snd (smtp_data L e over q c inp)) = qq_mess q @ received_text L (de_peer e) @ spf_text e @ m \<and>
      qq_env (snd (smtp_data L e over q c inp)) =
        qq_env q @ ''F'' @ cstr (de_mailfrom e) @ [NUL] @ de_rcptto e @ [NUL]"
    if "int (h_hops h) < de_maxhops e" "fits e m"
  proof -
    have "snd (smtp_data L e over q c inp) = snd (data_close e c (sd_qq ?f))"
      using that by (simp add: sd Let_def split: prod.split)
    then show ?thesis
      using data_close_open [OF ok [OF that(2)], of e c] below [OF that(2)] wrote_env [OF w]
      by (simp add: passed_def)
  qed
  show "qq_env (snd (smtp_data L e over q c inp)) = qq_env q" if "\<not> (int (h_hops h) < de_maxhops e \<and> fits e m)"
  proof -
    let ?q1 = "if int (h_hops h) \<ge> de_maxhops e then qmail_fail (sd_qq ?f) else sd_qq ?f"
    have "qq_flagerr ?q1" using that above by (auto simp: qmail_fail_def)
    moreover have "qq_env ?q1 = qq_env (sd_qq ?s)"
      using puts_env [of ?s m] acc by (simp add: accepting_def qmail_fail_def)
    moreover have "snd (smtp_data L e over q c inp) = snd (data_close e c ?q1)"
      by (simp add: sd Let_def split: prod.split)
    ultimately show ?thesis using wrote_env [OF w] data_close_closed by simp
  qed
qed

section \<open>The client\<close>

lemma stuff_length: "length (stuff eom m) \<le> 2 * length m"
  by (induction eom m rule: stuff.induct) auto

lemma remote_loop_good:
  assumes "\<forall>n. \<not> wfail n"
  shows "remote_loop wfail n eom (map Got bs) out =
    (if ends_line eom (concat bs) then (Sent, out @ stuff eom (concat bs) @ ''.'' @ CRLF)
     else (PartialLine, out @ stuff eom (concat bs)))"
proof (induction bs arbitrary: n eom out)
  case (Cons b bs)
  show ?case
    using assms Cons.IH [of "n + 1" "ends_line eom b" "out @ stuff eom b"]
    by (simp add: remote_chunk_stuff ends_line_append stuff_append)
qed (use assms in simp)

definition crlf :: "bytes \<Rightarrow> bytes" where
  "crlf h = concat (map (\<lambda>c. if c = LF then CRLF else [c]) h)"

lemma qqeh_out_good: "\<forall>n. \<not> wfail n \<Longrightarrow> \<exists>n'. qqeh_out wfail n h out = (True, n', out @ crlf h)"
proof (induction h arbitrary: n out)
  case (Cons c h)
  then show ?case
    using Cons.IH [of "n + 2" "out @ CRLF"] Cons.IH [of "n + 1" "out @ [c]"] by (auto simp: crlf_def)
qed (simp add: crlf_def)

text \<open>A header in front that needs no dot stuffing and ends its lines is stuffed by \<^verbatim>\<open>crlf\<close> alone.\<close>

fun dotless :: "bool \<Rightarrow> bytes \<Rightarrow> bool" where
  "dotless eom [] = True"
| "dotless eom (c # h) \<longleftrightarrow> \<not> (eom \<and> c = CHR ''.'') \<and> dotless (c = LF) h"

lemma crlf_stuff: "dotless eom h \<Longrightarrow> stuff eom h = crlf h"
  by (induction eom h rule: stuff.induct) (auto simp: crlf_def)

lemma remote_blast_sends:
  assumes "\<forall>n. \<not> wfail n" "dotless True qqeh" "qqeh = [] \<or> last qqeh = LF"
    and "concat bs = [] \<or> last (concat bs) = LF"
  shows "remote_blast wfail qqeh (map Got bs) = (Sent, wire (qqeh @ concat bs))"
proof -
  obtain n where n: "qqeh_out wfail 0 qqeh [] = (True, n, crlf qqeh)"
    using qqeh_out_good [OF assms(1), of 0 qqeh "[]"] by auto
  have "ends_line True qqeh" "ends_line True (concat bs)" using assms(3,4) by (auto simp: ends_line_def)
  then show ?thesis
    using remote_loop_good [OF assms(1), of n True bs "crlf qqeh"] crlf_stuff [OF assms(2)]
    by (simp add: remote_blast_def n wire_def stuff_append)
qed

end
