(* ===== verification/QmailRemote.thy ===== *)
theory QmailRemote
  imports SmtpData
begin

text \<open>
  The SMTP client \<^verbatim>\<open>indimail-mta-x/qmail-remote.c\<close> after its greeting: reading replies
  (\<^verbatim>\<open>get1\<close>, \<^verbatim>\<open>get3\<close>, \<^verbatim>\<open>smtpcode\<close>), the keywords of an EHLO reply, the dialogue from MAIL FROM to
  the end of the message, and the report for \<^verbatim>\<open>qmail-rspawn\<close>. What the server sends is one stream of
  bytes; when it ends the connection has died (\<^verbatim>\<open>saferead\<close> calls \<^verbatim>\<open>dropped\<close>). Writes
  to the server succeed (a failed one ends in \<^verbatim>\<open>dropped\<close> as well). TLS, AUTH, SMTPUTF8 and the
  scripts after a delivery are not configured.
\<close>

section \<open>Replies\<close>

definition HUGESMTPTEXT :: nat where "HUGESMTPTEXT = 5000"

text \<open>\<^verbatim>\<open>get1\<close>: the byte, the rest of the stream and \<^verbatim>\<open>smtptext\<close>; \<open>None\<close> when the connection died.\<close>

definition keep_text :: "char \<Rightarrow> bytes \<Rightarrow> bytes" where
  "keep_text ch t = (if ch \<noteq> CR \<and> length t < HUGESMTPTEXT then t @ [ch] else t)"

fun get1 :: "bytes \<Rightarrow> bytes \<Rightarrow> (char \<times> bytes \<times> bytes) option" where
  "get1 [] t = None"
| "get1 (ch # s) t = Some (ch, s, keep_text ch t)"

definition get3 :: "libq \<Rightarrow> bytes \<Rightarrow> bytes \<Rightarrow> (nat \<times> bytes \<times> bytes) option" where
  "get3 L s t =
     (case get1 s t of None \<Rightarrow> None | Some (a, s1, t1) \<Rightarrow>
      case get1 s1 t1 of None \<Rightarrow> None | Some (b, s2, t2) \<Rightarrow>
      case get1 s2 t2 of None \<Rightarrow> None | Some (c, s3, t3) \<Rightarrow>
        Some (snd (lq_scan_ulong L (cstr [a, b, c])), s3, t3))"

text \<open>\<^verbatim>\<open>while (ch != '\n') get1(&ch)\<close>\<close>

fun to_lf :: "char \<Rightarrow> bytes \<Rightarrow> bytes \<Rightarrow> (bytes \<times> bytes) option" where
  "to_lf ch [] t = (if ch = LF then Some ([], t) else None)"
| "to_lf ch (c # s) t = (if ch = LF then Some (c # s, t) else to_lf c s (keep_text c t))"

lemma to_lf_shorter: "to_lf ch s t = Some (s', t') \<Longrightarrow> length s' \<le> length s"
  by (induction ch s t rule: to_lf.induct) (auto split: if_splits)

lemma get1_shorter: "get1 s t = Some (c, s', t') \<Longrightarrow> length s' < length s"
  by (cases s) auto

lemma get3_shorter: "get3 L s t = Some (n, s', t') \<Longrightarrow> length s' < length s"
  by (auto simp: get3_def split: option.splits dest!: get1_shorter)

text \<open>The lines of a reply after its first three bytes: \<^verbatim>\<open>err\<close>, the rest of the stream, \<^verbatim>\<open>smtptext\<close>.\<close>

function reply_lines :: "libq \<Rightarrow> bytes \<Rightarrow> bytes \<Rightarrow> bool \<Rightarrow> (bool \<times> bytes \<times> bytes) option" where
  "reply_lines L s t err =
     (case get1 s t of None \<Rightarrow> None
      | Some (ch, s1, t1) \<Rightarrow>
        let err1 = err \<or> (ch \<noteq> CHR '' '' \<and> ch \<noteq> CHR ''-'')
        in case to_lf ch s1 t1 of None \<Rightarrow> None
           | Some (s2, t2) \<Rightarrow>
             if ch \<noteq> CHR ''-'' then Some (err1, s2, t2)
             else case get3 L s2 t2 of None \<Rightarrow> None
                  | Some (n, s3, t3) \<Rightarrow> reply_lines L s3 t3 err1)"
  by pat_completeness auto
termination
proof (relation "measure (\<lambda>(L, s, t, err). length s)", simp, goal_cases)
  case (1 L s t err p ch q s1 t1 err1 r s2 t2 u n v s3 t3)
  then have "length s3 < length s2" "length s2 \<le> length s1" "length s1 < length s"
    using get3_shorter to_lf_shorter get1_shorter by auto
  then show ?case by simp
qed

definition smtpcode :: "libq \<Rightarrow> bytes \<Rightarrow> (nat \<times> bytes \<times> bytes) option" where
  "smtpcode L s =
     (case get3 L s [] of None \<Rightarrow> None
      | Some (code, s1, t1) \<Rightarrow>
        case reply_lines L s1 t1 (code < 200) of None \<Rightarrow> None
        | Some (err, s2, t2) \<Rightarrow> Some (if err then 400 else code, s2, t2))"

section \<open>The keywords of an EHLO reply\<close>

text \<open>
  The loop over one line: \<open>w\<close> is the word that began at \<^verbatim>\<open>s\<close>, \<open>sa\<close> the words stored so far, each with a NUL.
  Reading past the end of \<^verbatim>\<open>smtptext\<close> is the value \<open>None\<close>.
\<close>

fun ehlo_words :: "bytes \<Rightarrow> bool \<Rightarrow> bytes \<Rightarrow> bytes \<Rightarrow> (bytes \<times> bytes) option" where
  "ehlo_words w wasspace sa [] = None"
| "ehlo_words w wasspace sa (c # r) =
     (if c \<in> {LF, CHR '' '', CHR 0x09} then
        (let sa' = (if wasspace then sa else sa @ w @ [NUL])
         in if c = LF then Some (sa', r) else ehlo_words w True sa' r)
      else if wasspace then ehlo_words [c] False sa r
      else ehlo_words (w @ [c]) False sa r)"

text \<open>\<^verbatim>\<open>for (p = saptr->s; *p; ++p) if (*p == '=') ...\<close>\<close>

fun cut_equal :: "bytes \<Rightarrow> bytes" where
  "cut_equal [] = []"
| "cut_equal (c # s) = (if c = NUL then c # s else if c = CHR ''='' then NUL # s else c # cut_equal s)"

lemma ehlo_words_shorter: "ehlo_words w b sa s = Some (sa', r) \<Longrightarrow> length r < length s"
  by (induction w b sa s rule: ehlo_words.induct) (fastforce split: if_splits simp: Let_def)+

text \<open>\<^verbatim>\<open>while (s <= e)\<close>: at least the six bytes of \<^verbatim>\<open>250-?\n\<close> are left.\<close>

function ehlo_lines :: "bytes \<Rightarrow> bytes list option" where
  "ehlo_lines s =
     (if length s < 6 then Some []
      else case ehlo_words [] False [] (drop 4 s) of None \<Rightarrow> None
           | Some (sa, r) \<Rightarrow> map_option ((#) (cut_equal sa)) (ehlo_lines r))"
  by pat_completeness auto
termination
  by (relation "measure length") (auto dest!: ehlo_words_shorter)

text \<open>\<^verbatim>\<open>while (*s++ != '\n')\<close>: skip the first line.\<close>

fun after_lf :: "bytes \<Rightarrow> bytes option" where
  "after_lf [] = None"
| "after_lf (c # s) = (if c = LF then Some s else after_lf s)"

definition ehlo_keywords :: "bytes \<Rightarrow> bytes list option" where
  "ehlo_keywords smtptext = (case after_lf smtptext of None \<Rightarrow> None | Some s \<Rightarrow> ehlo_lines s)"

section \<open>The report\<close>

definition outsafe :: "bytes \<Rightarrow> bytes" where
  "outsafe sa = map (\<lambda>ch. if schar ch < 33 \<or> schar ch > 126 then CHR ''?'' else ch) sa"

definition outsmtptext :: "bytes \<Rightarrow> bytes" where
  "outsmtptext smtptext =
     (if smtptext \<noteq> [] then ''Remote host said: '' @ map (\<lambda>ch. if ch = NUL then CHR ''?'' else ch) smtptext else [])"

text \<open>The final parts of the report; \<open>partner\<close> is the text of \<^verbatim>\<open>outhost\<close>. \<^verbatim>\<open>zerodie\<close> adds the last NUL.\<close>

definition quit_report :: "bytes \<Rightarrow> bytes \<Rightarrow> bytes \<Rightarrow> bytes \<Rightarrow> bytes" where
  "quit_report partner prepend str smtptext =
     prepend @ partner @ str @ ''.'' @ [LF] @ outsmtptext smtptext @ [NUL]"

definition dropped_report :: "bytes \<Rightarrow> bool \<Rightarrow> bytes" where
  "dropped_report partner flagcritical =
     ''ZConnected to '' @ partner @ '' but connection died. ''
     @ (if flagcritical then ''Possible duplicate! '' else []) @ ''(#4.4.2)'' @ [LF] @ [NUL]"

definition temp_write_report :: bytes where
  "temp_write_report = ''ZUnable to write message. (#4.3.0)'' @ [LF] @ [NUL]"

definition temp_read_report :: bytes where
  "temp_read_report = ''ZUnable to read message. (#4.3.0)'' @ [LF] @ [NUL]"

definition perm_partialline_report :: bytes where
  "perm_partialline_report = ''DSMTP cannot transfer messages with partial final lines. (#5.6.2)'' @ [LF] @ [NUL]"

section \<open>The dialogue\<close>

record remote_env =
  re_sender :: bytes          \<comment> \<open>\<^verbatim>\<open>smtp_sender\<close>, quoted\<close>
  re_rcpts :: "bytes list"    \<comment> \<open>\<^verbatim>\<open>smtp_reciplist\<close>, quoted\<close>
  re_partner :: bytes
  re_size :: "bytes option"   \<comment> \<open>\<^verbatim>\<open>msgsize\<close> when \<^verbatim>\<open>use_size\<close>\<close>
  re_qqeh :: bytes
  re_body :: "reading list"

definition mailfrom :: "remote_env \<Rightarrow> bytes" where
  "mailfrom e = ''MAIL FROM:<'' @ re_sender e @
     (case re_size e of None \<Rightarrow> ''>'' | Some n \<Rightarrow> ''> SIZE='' @ cstr n) @ CRLF"

definition rcpt_line :: "remote_env \<Rightarrow> bytes \<Rightarrow> char \<Rightarrow> bytes" where
  "rcpt_line e r letter = letter # ''From: <'' @ outsafe (re_sender e) @ ''> RCPT: <'' @ outsafe r @ ''> ''"

text \<open>
  The loop over the recipients: the report, the bytes sent, and unless the connection died
  \<^verbatim>\<open>flagbother\<close>, the last code, \<^verbatim>\<open>smtptext\<close> and the rest of the stream.
\<close>

fun rcpt_loop :: "libq \<Rightarrow> remote_env \<Rightarrow> bytes list \<Rightarrow> bool \<Rightarrow> bytes \<Rightarrow> bytes \<Rightarrow>
    bytes \<times> bytes \<times> (bool \<times> bytes \<times> bytes) option" where
  "rcpt_loop L e [] bother text s = ([], [], Some (bother, text, s))"
| "rcpt_loop L e (r # rs) bother text s =
     (let cmd = ''RCPT TO:<'' @ r @ ''>'' @ CRLF
      in case smtpcode L s of
           None \<Rightarrow> (dropped_report (re_partner e) False, cmd, None)
         | Some (code, s1, t1) \<Rightarrow>
           let (part, bother', text') =
             (if code \<ge> 500 then
                (rcpt_line e r (CHR ''h'') @ re_partner e @ '' does not like recipient.'' @ [LF] @ outsmtptext t1 @ [NUL], bother, [])
              else if code \<ge> 400 then
                (rcpt_line e r (CHR ''s'') @ re_partner e @ '' does not like recipient.'' @ [LF] @ outsmtptext t1 @ [NUL], bother, [])
              else (rcpt_line e r (CHR ''r'') @ [NUL], True, t1));
             (rep, sent, res) = rcpt_loop L e rs bother' text' s1
           in (part @ rep, cmd @ sent, res))"

text \<open>The end of the message: \<^verbatim>\<open>blast\<close>, its reply, and the verdict.\<close>

definition smtp_body :: "libq \<Rightarrow> remote_env \<Rightarrow> bytes \<Rightarrow> bytes \<times> bytes" where
  "smtp_body L e s =
     (case remote_blast (\<lambda>_. False) (re_qqeh e) (re_body e) of (fin, sent) \<Rightarrow>
        ((case fin of
            TempRead \<Rightarrow> temp_read_report
          | TempWrite \<Rightarrow> temp_write_report
          | PartialLine \<Rightarrow> perm_partialline_report
          | Sent \<Rightarrow>
            case smtpcode L s of
              None \<Rightarrow> dropped_report (re_partner e) True
            | Some (code, s1, t1) \<Rightarrow>
              if code \<ge> 500 then quit_report (re_partner e) ''D'' '' failed after I sent the message'' t1
              else if code \<ge> 400 then quit_report (re_partner e) ''Z'' '' failed after I sent the message'' t1
              else quit_report (re_partner e) ''K'' '' accepted message - Protocol SMTP'' t1),
         sent))"

text \<open>\<^verbatim>\<open>smtp\<close> from \<^verbatim>\<open>mailfrom\<close> on: the report, and the commands and the message sent (\<^verbatim>\<open>QUIT\<close> apart).\<close>

definition smtp :: "libq \<Rightarrow> remote_env \<Rightarrow> bytes \<Rightarrow> bytes \<times> bytes" where
  "smtp L e s =
     (case smtpcode L s of
        None \<Rightarrow> (dropped_report (re_partner e) False, mailfrom e)
      | Some (code, s1, t1) \<Rightarrow>
        if code \<ge> 500 then (quit_report (re_partner e) ''DConnected to '' '' but sender was rejected'' t1, mailfrom e)
        else if code \<ge> 400 then (quit_report (re_partner e) ''ZConnected to '' '' but sender was rejected'' t1, mailfrom e)
        else
          (case rcpt_loop L e (re_rcpts e) False t1 s1 of
             (rep, sent, None) \<Rightarrow> (rep, mailfrom e @ sent)
           | (rep, sent, Some (bother, t2, s2)) \<Rightarrow>
             if \<not> bother then (rep @ quit_report (re_partner e) ''DGiving up on '' [] t2, mailfrom e @ sent)
             else
               let cmds = mailfrom e @ sent @ ''DATA'' @ CRLF
               in case smtpcode L s2 of
                    None \<Rightarrow> (rep @ dropped_report (re_partner e) False, cmds)
                  | Some (code, s3, t3) \<Rightarrow>
                    if code \<ge> 500 then (rep @ quit_report (re_partner e) ''D'' '' failed on DATA command'' t3, cmds)
                    else if code \<ge> 400 then (rep @ quit_report (re_partner e) ''Z'' '' failed on DATA command'' t3, cmds)
                    else (case smtp_body L e s3 of (fin, body) \<Rightarrow> (rep @ fin, cmds @ body))))"

text \<open>\<^verbatim>\<open>err_authprot\<close>: said when AUTH is configured and the server offers no method; the dialogue goes on.\<close>

definition err_authprot :: bytes where
  "err_authprot = ''Kno supported AUTH method found, continuing without authentication.'' @ [LF] @ [NUL]"

end
