(* ===== verification/QmailRemoteFacts.thy ===== *)
theory QmailRemoteFacts
  imports QmailRemote SpawnReport
begin

text \<open>
  Facts about the SMTP client: what a reply is parsed to, when the EHLO parser stays inside
  \<^verbatim>\<open>smtptext\<close>, and what \<^verbatim>\<open>qmail-rspawn\<close> makes of the report of \<^verbatim>\<open>qmail-remote\<close>.
\<close>

section \<open>Replies\<close>

lemma keep_texts:
  "length t \<le> HUGESMTPTEXT \<Longrightarrow>
   fold keep_text bs t = take HUGESMTPTEXT (t @ filter (\<lambda>c. c \<noteq> CR) bs)"
proof (induction bs arbitrary: t)
  case (Cons b bs)
  show ?case
  proof (cases "b \<noteq> CR \<and> length t < HUGESMTPTEXT")
    case True
    then have "keep_text b t = t @ [b]" "length (t @ [b]) \<le> HUGESMTPTEXT" by (simp_all add: keep_text_def)
    then show ?thesis using Cons.IH [of "t @ [b]"] True by simp
  next
    case False
    then have "keep_text b t = t" by (auto simp: keep_text_def)
    then show ?thesis using Cons False by auto
  qed
qed simp

lemma to_lf_line:
  "LF \<notin> set l \<Longrightarrow> to_lf c (l @ LF # s) t = (if c = LF then Some (l @ LF # s, t) else Some (s, fold keep_text (l @ [LF]) t))"
proof (induction l arbitrary: c t)
  case Nil
  show ?case by (cases s) auto
next
  case (Cons a l)
  then show ?case by auto
qed

text \<open>A line of a reply: three bytes, a separator, text without a line feed.\<close>

definition reply_line :: "char \<Rightarrow> bytes \<times> bytes \<Rightarrow> bytes" where
  "reply_line sep = (\<lambda>(code, text). code @ sep # text @ [LF])"

definition line_ok :: "bytes \<times> bytes \<Rightarrow> bool" where
  "line_ok = (\<lambda>(code, text). length code = 3 \<and> LF \<notin> set text)"

definition reply :: "(bytes \<times> bytes) list \<Rightarrow> bytes \<times> bytes \<Rightarrow> bytes" where
  "reply conts fin = concat (map (reply_line (CHR ''-'')) conts) @ reply_line (CHR '' '') fin"

lemma get3_code:
  "length code = 3 \<Longrightarrow> get3 L (code @ s) t = Some (snd (lq_scan_ulong L (cstr code)), s, fold keep_text code t)"
  by (auto simp: get3_def numeral_3_eq_3 length_Suc_conv)

definition reply_tail :: "bytes \<Rightarrow> (bytes \<times> bytes) list \<Rightarrow> bytes \<times> bytes \<Rightarrow> bytes" where
  "reply_tail text conts fin =
     CHR ''-'' # text @ LF # concat (map (reply_line (CHR ''-'')) conts) @ reply_line (CHR '' '') fin"

lemma reply_last_parse:
  "LF \<notin> set x \<Longrightarrow> reply_lines L (CHR '' '' # x @ LF # rest) t err =
     Some (err, rest, fold keep_text (CHR '' '' # x @ [LF]) t)"
  by (subst reply_lines.simps) (simp add: to_lf_line)

lemma reply_lines_parse:
  assumes "LF \<notin> set x" "\<forall>l \<in> set conts. line_ok l" "line_ok fin"
  shows "reply_lines L (reply_tail x conts fin @ rest) t err =
    Some (err, rest, fold keep_text (reply_tail x conts fin) t)"
  using assms(1,2)
proof (induction conts arbitrary: x t)
  case Nil
  obtain c y where e: "fin = (c, y)" "length c = 3" "LF \<notin> set y"
    using assms(3) by (auto simp: line_ok_def)
  show ?case
    using Nil e by (subst reply_lines.simps)
      (simp add: to_lf_line reply_line_def get3_code reply_last_parse reply_tail_def del: reply_lines.simps)
next
  case (Cons k conts)
  obtain c y where k: "k = (c, y)" "length c = 3" "LF \<notin> set y"
    using Cons.prems by (auto simp: line_ok_def)
  show ?case
    using Cons.prems Cons.IH [of y] k
    by (subst reply_lines.simps)
      (simp add: to_lf_line reply_line_def get3_code reply_tail_def del: reply_lines.simps)
qed

lemma smtpcode_parse:
  fixes L :: libq
  assumes "\<forall>l \<in> set conts. line_ok l" "line_ok fin"
  defines "code \<equiv> snd (lq_scan_ulong L (cstr (take 3 (reply conts fin))))"
  shows "smtpcode L (reply conts fin @ rest) =
    Some (if code < 200 then 400 else code, rest, take HUGESMTPTEXT (filter (\<lambda>c. c \<noteq> CR) (reply conts fin)))"
proof -
  have keep: "fold keep_text bs [] = take HUGESMTPTEXT (filter (\<lambda>c. c \<noteq> CR) bs)" for bs
    using keep_texts [of "[]" bs] by simp
  show ?thesis
  proof (cases conts)
    case Nil
    obtain c x where e: "fin = (c, x)" "length c = 3" "LF \<notin> set x"
      using assms(2) by (auto simp: line_ok_def)
    show ?thesis
      using e keep [of "reply conts fin"] Nil reply_last_parse [OF e(3), of L rest]
      by (simp add: smtpcode_def reply_def reply_line_def get3_code code_def reply_tail_def del: reply_lines.simps)
  next
    case (Cons k ks)
    obtain c x where k: "k = (c, x)" "length c = 3" "LF \<notin> set x"
      using assms(1) Cons by (auto simp: line_ok_def)
    have "reply_lines L (reply_tail x ks fin @ rest) t err =
        Some (err, rest, fold keep_text (reply_tail x ks fin) t)" for t err
      by (rule reply_lines_parse) (use assms(1,2) Cons k in auto)
    then show ?thesis
      using k keep [of "reply conts fin"] Cons
      by (simp add: smtpcode_def reply_def reply_line_def get3_code code_def reply_tail_def del: reply_lines.simps)
  qed
qed

section \<open>The EHLO parser stays inside the reply\<close>

lemma ehlo_words_inside:
  "s \<noteq> [] \<Longrightarrow> last s = LF \<Longrightarrow> \<exists>sa' r. ehlo_words w b sa s = Some (sa', r) \<and> (r = [] \<or> last r = LF)"
  by (induction w b sa s rule: ehlo_words.induct) (auto simp: Let_def split: if_splits)

lemma ehlo_words_outside: "LF \<notin> set s \<Longrightarrow> ehlo_words w b sa s = None"
  by (induction w b sa s rule: ehlo_words.induct) (auto simp: Let_def)

lemma ehlo_lines_inside: "s = [] \<or> last s = LF \<Longrightarrow> ehlo_lines s \<noteq> None"
proof (induction s rule: ehlo_lines.induct)
  case (1 s)
  show ?case
  proof (cases "length s < 6")
    case False
    then have "drop 4 s \<noteq> []" "last (drop 4 s) = LF" using 1(2) by (auto simp: last_drop)
    then obtain sa r where "ehlo_words [] False [] (drop 4 s) = Some (sa, r)" "r = [] \<or> last r = LF"
      using ehlo_words_inside by blast
    then show ?thesis using 1(1) [OF False] False by (subst ehlo_lines.simps) auto
  qed (simp add: ehlo_lines.simps)
qed

lemma after_lf_inside: "s \<noteq> [] \<Longrightarrow> last s = LF \<Longrightarrow> \<exists>r. after_lf s = Some r \<and> (r = [] \<or> last r = LF)"
  by (induction s) (auto split: if_splits)

lemma ehlo_keywords_inside: "s \<noteq> [] \<Longrightarrow> last s = LF \<Longrightarrow> ehlo_keywords s \<noteq> None"
  using after_lf_inside [of s] ehlo_lines_inside by (force simp: ehlo_keywords_def)

section \<open>What qmail-rspawn makes of a report\<close>

lemma parts_split: "no_nul p \<Longrightarrow> parts a (p @ NUL # s) = (a @ p) # parts [] s"
  by (induction p arbitrary: a) auto

lemma rspawn_scan_all:
  "rspawn_scan s 0 [0..<length s] = (case List.map_filter part_verdict (parts [] s) of [] \<Rightarrow> -1 | v # _ \<Rightarrow> v)"
  using rspawn_scan_parts [of "[]" "[]" s] by simp

definition ended_well :: "wstat \<Rightarrow> bool" where
  "ended_well w \<longleftrightarrow> \<not> ws_crashed w \<and> ws_code w = 0"

lemma rspawn_letter:
  "ended_well w \<Longrightarrow> s \<noteq> [] \<Longrightarrow> hd (rspawn_report oob w s) =
     (let result = rspawn_scan s 0 [0..<length s];
          orr = (if s ! 0 = CHR ''s'' then 0 else if s ! 0 = CHR ''h'' then -1 else result)
      in if orr = 1 then CHR ''K'' else if orr = 0 then CHR ''Z'' else CHR ''D'')"
  by (simp add: rspawn_report_def ended_well_def Let_def)

lemma letter_parts:
  "ended_well w \<Longrightarrow> s \<noteq> [] \<Longrightarrow> hd (rspawn_report oob w s) =
     (let result = (case List.map_filter part_verdict (parts [] s) of [] \<Rightarrow> -1 | v # _ \<Rightarrow> v);
          orr = (if s ! 0 = CHR ''s'' then 0 else if s ! 0 = CHR ''h'' then -1 else result)
      in if orr = 1 then CHR ''K'' else if orr = 0 then CHR ''Z'' else CHR ''D'')"
  unfolding rspawn_letter rspawn_scan_all ..

text \<open>The letter of a report is decided by its first part, or by the second when the first says \<open>r\<close>.\<close>

lemma letter_verdict:
  assumes "ended_well w" "no_nul p" "c \<in> {CHR ''K'', CHR ''Z'', CHR ''D''}"
  shows "hd (rspawn_report oob w ((c # p) @ NUL # s)) = c"
proof -
  have "parts [] ((c # p) @ NUL # s) = (c # p) # parts [] s"
    using parts_split [of "c # p" "[]" s] assms by auto
  then show ?thesis
    using assms by (subst letter_parts) (auto simp: part_verdict_def verdict_of_def map_filter_simps)
qed

lemma letter_soft:
  "ended_well w \<Longrightarrow> hd (rspawn_report oob w (CHR ''s'' # s)) = CHR ''Z''"
  "ended_well w \<Longrightarrow> hd (rspawn_report oob w (CHR ''h'' # s)) = CHR ''D''"
  by (simp_all add: rspawn_letter Let_def)

lemma letter_second:
  assumes "ended_well w" "no_nul p" "no_nul p'" "c \<in> {CHR ''K'', CHR ''Z'', CHR ''D''}"
  shows "hd (rspawn_report oob w ((CHR ''r'' # p) @ NUL # (c # p') @ NUL # s)) = c"
proof -
  have "parts [] ((CHR ''r'' # p) @ NUL # (c # p') @ NUL # s) = (CHR ''r'' # p) # (c # p') # parts [] s"
    using parts_split [of "CHR ''r'' # p" "[]"] parts_split [of "c # p'" "[]" s] assms by auto
  then show ?thesis
    using assms by (subst letter_parts) (auto simp: part_verdict_def verdict_of_def map_filter_simps)
qed

section \<open>The verdict of a session with one recipient\<close>

text \<open>One NUL-terminated part that begins with the letter \<open>c\<close>.\<close>

definition one_part :: "char \<Rightarrow> bytes \<Rightarrow> bool" where
  "one_part c rep \<longleftrightarrow> (\<exists>p. no_nul p \<and> rep = (c # p) @ [NUL])"

lemma one_part_letter:
  "ended_well w \<Longrightarrow> one_part c rep \<Longrightarrow> c \<in> {CHR ''K'', CHR ''Z'', CHR ''D''} \<Longrightarrow>
   hd (rspawn_report oob w rep) = c"
  using letter_verdict [of w _ c oob "[]"] by (auto simp: one_part_def)

lemma two_parts_letter:
  "ended_well w \<Longrightarrow> one_part (CHR ''r'') part \<Longrightarrow> one_part c rep \<Longrightarrow> c \<in> {CHR ''K'', CHR ''Z'', CHR ''D''} \<Longrightarrow>
   hd (rspawn_report oob w (part @ rep)) = c"
  using letter_second [of w _ _ c oob "[]"] by (auto simp: one_part_def)

lemma no_nul_outsafe: "no_nul (outsafe s)"
proof -
  have "schar NUL = 0" by (simp add: schar_def Let_def)
  then show ?thesis by (auto simp: no_nul_def outsafe_def split: if_splits)
qed

lemma no_nul_outsmtptext: "no_nul (outsmtptext t)"
  by (auto simp: no_nul_def outsmtptext_def)

lemma quit_part: "no_nul partner \<Longrightarrow> no_nul pre \<Longrightarrow> no_nul str \<Longrightarrow> one_part c (quit_report partner (c # pre) str t)"
  by (auto simp: one_part_def quit_report_def no_nul_outsmtptext)

lemma end_parts:
  "no_nul partner \<Longrightarrow> one_part (CHR ''Z'') (dropped_report partner b)"
  "one_part (CHR ''Z'') temp_write_report" "one_part (CHR ''Z'') temp_read_report"
  "one_part (CHR ''D'') perm_partialline_report"
  by (simp_all add: one_part_def dropped_report_def temp_write_report_def temp_read_report_def
      perm_partialline_report_def)

lemma rcpt_part: "no_nul partner \<Longrightarrow> one_part (CHR ''r'') (rcpt_line e r (CHR ''r'') @ [NUL])"
  by (auto simp: one_part_def rcpt_line_def no_nul_outsafe)

lemma rcpt_line_hd: "\<exists>p. rcpt_line e r c = c # p"
  by (simp add: rcpt_line_def)

text \<open>
  The specification: each reply decides in turn, above 500 for good, above 400 for now; a lost
  connection and a local error are temporary, except for a message that does not end a line.
\<close>

definition stage :: "libq \<Rightarrow> bytes \<Rightarrow> (bytes \<Rightarrow> char) \<Rightarrow> char" where
  "stage L s k =
     (case smtpcode L s of None \<Rightarrow> CHR ''Z''
      | Some (code, s', t) \<Rightarrow> if code \<ge> 500 then CHR ''D'' else if code \<ge> 400 then CHR ''Z'' else k s')"

definition body_verdict :: "libq \<Rightarrow> remote_env \<Rightarrow> bytes \<Rightarrow> char" where
  "body_verdict L e s =
     (case fst (remote_blast (\<lambda>_. False) (re_qqeh e) (re_body e)) of
        Sent \<Rightarrow> stage L s (\<lambda>_. CHR ''K'')
      | PartialLine \<Rightarrow> CHR ''D''
      | _ \<Rightarrow> CHR ''Z'')"

definition remote_verdict :: "libq \<Rightarrow> remote_env \<Rightarrow> bytes \<Rightarrow> char" where
  "remote_verdict L e s = stage L s (\<lambda>s1. stage L s1 (\<lambda>s2. stage L s2 (body_verdict L e)))"

lemma body_part:
  assumes "no_nul (re_partner e)"
  shows "one_part (body_verdict L e s) (fst (smtp_body L e s))"
    "body_verdict L e s \<in> {CHR ''K'', CHR ''Z'', CHR ''D''}"
proof -
  obtain fin sent where b: "remote_blast (\<lambda>_. False) (re_qqeh e) (re_body e) = (fin, sent)" by (metis surj_pair)
  note quits = quit_part [OF assms(1), of "[]", simplified]
  show "one_part (body_verdict L e s) (fst (smtp_body L e s))"
    "body_verdict L e s \<in> {CHR ''K'', CHR ''Z'', CHR ''D''}"
    using end_parts(1) [OF assms(1)] end_parts(2-4)
    by (cases fin; auto simp: body_verdict_def b smtp_body_def stage_def quits split: option.split)+
qed

text \<open>The two parts of a dialogue: MAIL and RCPT, and what follows an accepted recipient.\<close>

definition smtp_message :: "libq \<Rightarrow> remote_env \<Rightarrow> bytes \<Rightarrow> bytes" where
  "smtp_message L e s =
     (case smtpcode L s of None \<Rightarrow> dropped_report (re_partner e) False
      | Some (code, s3, t3) \<Rightarrow>
        if code \<ge> 500 then quit_report (re_partner e) ''D'' '' failed on DATA command'' t3
        else if code \<ge> 400 then quit_report (re_partner e) ''Z'' '' failed on DATA command'' t3
        else fst (smtp_body L e s3))"

lemma message_part:
  assumes "no_nul (re_partner e)"
  shows "one_part (stage L s (body_verdict L e)) (smtp_message L e s)"
    "stage L s (body_verdict L e) \<in> {CHR ''K'', CHR ''Z'', CHR ''D''}"
  using end_parts(1) [OF assms] body_part [OF assms, of L] quit_part [OF assms, of "[]", simplified]
  by (auto simp: smtp_message_def stage_def split: option.split)

lemma smtp_accepted_recipient:
  assumes "smtpcode L s = Some (c1, s1, t1)" "c1 < 400" "smtpcode L s1 = Some (c2, s2, t2)" "c2 < 400" "re_rcpts e = [r]"
  shows "fst (smtp L e s) = (rcpt_line e r (CHR ''r'') @ [NUL]) @ smtp_message L e s2"
  using assms by (auto simp: smtp_def smtp_message_def split: option.split prod.split)

lemma smtp_one_recipient:
  assumes n: "no_nul (re_partner e)" and r: "re_rcpts e = [r]" and w: "ended_well w"
  shows "hd (rspawn_report oob w (fst (smtp L e s))) = remote_verdict L e s"
proof -
  note single = one_part_letter [OF w, of _ _ oob]
  note ends = single [OF end_parts(1) [OF n]] single [OF quit_part [OF n]]
  have rcpt: "hd (rspawn_report oob w (rcpt_line e r (CHR ''s'') @ x)) = CHR ''Z''"
    "hd (rspawn_report oob w (rcpt_line e r (CHR ''h'') @ x)) = CHR ''D''" for x
    using letter_soft [OF w] rcpt_line_hd [of e r] by (metis append_Cons)+
  consider "smtpcode L s = None" | c1 s1 t1 where "smtpcode L s = Some (c1, s1, t1)" "400 \<le> c1"
    | c1 s1 t1 where "smtpcode L s = Some (c1, s1, t1)" "c1 < 400" "smtpcode L s1 = None"
    | c1 s1 t1 c2 s2 t2 where "smtpcode L s = Some (c1, s1, t1)" "c1 < 400"
        "smtpcode L s1 = Some (c2, s2, t2)" "400 \<le> c2"
    | c1 s1 t1 c2 s2 t2 where "smtpcode L s = Some (c1, s1, t1)" "c1 < 400"
        "smtpcode L s1 = Some (c2, s2, t2)" "c2 < 400"
    by (metis not_le option.exhaust prod_cases3)
  then show ?thesis
  proof cases
    case 1
    then show ?thesis using ends by (simp add: smtp_def remote_verdict_def stage_def)
  next
    case 2
    then show ?thesis using ends by (simp add: smtp_def remote_verdict_def stage_def)
  next
    case 3
    then show ?thesis using ends by (simp add: smtp_def remote_verdict_def stage_def r)
  next
    case 4
    then show ?thesis using rcpt by (simp add: smtp_def remote_verdict_def stage_def r)
  next
    case 5
    then have "remote_verdict L e s = stage L s2 (body_verdict L e)" by (simp add: remote_verdict_def stage_def)
    then show ?thesis
      using two_parts_letter [OF w rcpt_part [OF n] message_part [OF n]] smtp_accepted_recipient [OF 5 r] by simp
  qed
qed

text \<open>With the notice of \<^verbatim>\<open>err_authprot\<close> in front, every report reads as a success.\<close>

lemma auth_notice_is_success: "ended_well w \<Longrightarrow> hd (rspawn_report oob w (err_authprot @ rep)) = CHR ''K''"
  using letter_verdict [of w "''no supported AUTH method found, continuing without authentication.'' @ [LF]" "CHR ''K''" oob rep]
  by (simp add: err_authprot_def)

end
