(* ===== verification/SmtpProps.thy ===== *)
theory SmtpProps
  imports SmtpSession QmailRemoteFacts
begin

text \<open>
  The properties of the SMTP transfer (\<^verbatim>\<open>smtpd.c\<close>, \<^verbatim>\<open>qmail-remote.c\<close>, \<^verbatim>\<open>received.c\<close>), and the places
  where the code departs from what its authors intend.
\<close>

section \<open>A concrete session\<close>

definition ex_peer :: peer where
  "ex_peer = \<lparr>pe_program = ''smtpd'', pe_protocol = ''ESMTP'', pe_local = Some ''mx.a'', pe_ip = Some ''1.2.3.4'',
     pe_host = None, pe_info = Some [CHR ''x'', LF, CHR ''y''], pe_helo = Some ''h(b)'', pe_hide = False, pe_pid = 7,
     pe_date = ''1 Jan 2024 00:00:00 -0000'' @ [LF]\<rparr>"

definition ex_env :: data_env where
  "ex_env = \<lparr>de_databytes = 8, de_maxhops = 5, de_barelf = False, de_peer = ex_peer, de_spf = None,
     de_mailfrom = ''s'', de_rcptto = ''Tr'' @ [NUL]\<rparr>"

definition ex_child :: child where
  "ex_child = \<lparr>ch_custom = ''Zx'', ch_waited = True, ch_crashed = False, ch_code = 0\<rparr>"

definition ex_queue :: qmailq where
  "ex_queue = qmail_opened True (\<lambda>_. False)"

lemma ex_ok: "openq ex_queue" "limit_ok ex_env 0" "cstr (take 1023 (ch_custom ex_child)) \<noteq> []" "queued ex_child"
  by (simp_all add: openq_def ex_queue_def qmail_opened_def limit_ok_def fits_def spf_text_def ex_env_def
      ex_child_def cstr_def queued_def)

definition ex_mail :: bytes where
  "ex_mail = ''.a'' @ [LF] @ ''.'' @ [LF]"

lemma ex_mail_line: "ex_mail = [] \<or> last ex_mail = LF"
  by (simp add: ex_mail_def)

lemma ex_wire: "wire ex_mail = ''..a'' @ CRLF @ ''..'' @ CRLF @ ''.'' @ CRLF" "hop_count (wire ex_mail) = 0"
  by (simp_all add: wire_def ex_mail_def hop_count_def begins_def)

section \<open>Properties\<close>





text \<open>
  C27. No smuggling: unless bare line feeds are converted, the server takes the message to end exactly at the first
  line with a lone dot, the line ended by CR LF and preceded by CR LF (or the start), and only if every
  line feed before it follows a CR.
\<close>

theorem data_end_exact:
  "fst (smtpd_blast False inp s) = DataDone rest \<longleftrightarrow>
   (\<exists>p. inp = p @ ''.'' @ CRLF @ rest \<and> (p = [] \<or> (\<exists>q. p = q @ CRLF)) \<and>
        (\<forall>a b. p = a @ LF # b \<longrightarrow> (\<exists>l. a = l @ [CR] \<and> \<not> (\<exists>q. l = q @ ''.'' \<and> (q = [] \<or> (\<exists>k. q = k @ CRLF))))))"
proof -
  obtain h where "smtpd_blast False inp s = (snd (unst 1 inp), h, fold smtp_put (fst (unst 1 inp)) (s\<lparr>sd_size := 0\<rparr>))"
    using blast_loop_unst [of False 1 inp hdr_init "s\<lparr>sd_size := 0\<rparr>"] unfolding smtpd_blast_def by blast
  then have "fst (smtpd_blast False inp s) = DataDone rest \<longleftrightarrow>
      (\<exists>p. inp = p @ ''.'' @ CRLF @ rest \<and> at_line p \<and> lfs_ok p)"
    using unst_end_exact [of inp rest] by simp
  moreover have "ends_cr a \<and> \<not> dot_cr_line a \<longleftrightarrow> (\<exists>l. a = l @ [CR] \<and> \<not> dot_line l)" for a
    by (auto simp: ends_cr_def dot_cr_line_def)
  ultimately show ?thesis by (simp only: lfs_ok_def dot_line_def at_line_def)
qed

lemma data_end_exact_witness:
  "fst (smtpd_blast False (''a'' @ CRLF @ ''.'' @ CRLF @ ''x'') (data_start ref_libq ex_env 0 ex_queue)) = DataDone ''x''"
proof -
  have "\<forall>a b. ''a'' @ CRLF = a @ LF # b \<longrightarrow> a = ''a'' @ [CR]"
    by (simp add: Cons_eq_append_conv)
  then show ?thesis
    unfolding data_end_exact by (intro exI [of _ "''a'' @ CRLF"]) (fastforce simp: append_eq_Cons_conv)
qed

text \<open>
  Converting bare line feeds (\<^verbatim>\<open>ALLOW_BARELF\<close>) is reading a corrected stream: the server with the option
  behaves as the strict server on the stream in which every bare LF is replaced by CR LF.
\<close>

theorem bare_lf_conversion:
  "smtpd_blast False (crlf_fix False inp) s =
   (case smtpd_blast True inp s of (e, h, s') \<Rightarrow> (map_rest (crlf_fix False) e, h, s'))"
  unfolding smtpd_blast_def by (rule blast_loop_convert)

text \<open>
  Hops are header lines: when a message was read to its end, the count the incremental matcher arrives at is the
  number of lines before the first empty line that begin with \<^verbatim>\<open>Received\<close> or \<^verbatim>\<open>Delivered\<close> in either case.
\<close>

theorem hops_are_header_lines:
  assumes "fst (smtpd_blast False inp s) = DataDone rest"
  shows "\<exists>p. inp = p @ rest \<and> h_hops (fst (snd (smtpd_blast False inp s))) = hop_count p"
proof -
  obtain p where p: "inp = p @ rest" "fst (snd (smtpd_blast False inp s)) = fold hdr_step p hdr_init"
    using blast_loop_header assms unfolding smtpd_blast_def by blast
  then show ?thesis using hops_fold [of hdr_init p] by (simp add: fresh_def hdr_init_def)
qed

lemma hops_are_header_lines_witness:
  "\<exists>p. ''reCEived'' @ CRLF @ ''.'' @ CRLF = p @ [] \<and>
     h_hops (fst (snd (smtpd_blast False (''reCEived'' @ CRLF @ ''.'' @ CRLF) (data_start ref_libq ex_env 0 ex_queue)))) = hop_count p"
  by (rule hops_are_header_lines) (simp add: smtpd_blast_def Let_def bare_lf_def blast_switch_def)

text \<open>
  C30. The \<^verbatim>\<open>Received\<close> line is one header field, whatever a client says in HELO, in its host name or in the
  answer of its ident server: every line feed in it is followed by a space, so no header and no body can be injected.
\<close>

theorem received_is_one_field:
  assumes "libqmail L" "openq q" "LF \<notin> set (pe_program p)" "folded (cstr (pe_protocol p))"
    "pe_date p = d @ [LF]" "LF \<notin> set d"
  shows "\<exists>t. qq_mess (received L p q) = qq_mess q @ ''Received: '' @ t @ [LF] \<and> folded t"
proof -
  have "wrote (received_text L p) q (received L p q)" using received_emits assms(2) by (simp add: emits_def)
  then show ?thesis using received_text_folded [OF assms(1,3-6)] wrote_env by fastforce
qed

lemma received_is_one_field_witness:
  "\<exists>t. qq_mess (received ref_libq ex_peer ex_queue) = qq_mess ex_queue @ ''Received: '' @ t @ [LF] \<and> folded t"
  by (rule received_is_one_field [of _ _ _ "''1 Jan 2024 00:00:00 -0000''"])
     (use ref.libqmail_axioms ex_ok in \<open>simp_all add: ex_peer_def cstr_def\<close>)

text \<open>
  The buffer of \<^verbatim>\<open>qmail-remote\<close> is large enough: one read of \<open>n\<close> bytes makes at most \<open>2 * n\<close> bytes, and
  \<^verbatim>\<open>out\<close> has room for \<^verbatim>\<open>BUFSIZE_REMOTE * 2 + 1\<close>; the flag \<^verbatim>\<open>eom\<close> tells whether the read ended a line.
\<close>

theorem remote_buffer_bound:
  "length (fst (remote_chunk eom b)) \<le> 2 * length b \<and>
   snd (remote_chunk eom b) = (if b = [] then eom else last b = LF)"
  using stuff_length [of eom b] by (simp add: remote_chunk_stuff ends_line_def)

text \<open>
  C32. \<^verbatim>\<open>qmail-rspawn\<close> reports of a session with one recipient exactly what the dialogue decided: each reply in turn
  (MAIL, RCPT, DATA, end of message) decides, from 500 on a permanent, from 400 on a temporary failure; a lost connection
  and local trouble are temporary, an unfinished last line is permanent; K only when all four replies were positive and
  the whole message was sent. Nothing the server says can forge another verdict.
\<close>

theorem remote_verdict_reaches_spawn:
  assumes "no_nul (re_partner e)" "re_rcpts e = [r]" "\<not> ws_crashed w" "ws_code w = 0"
  shows "hd (rspawn_report oob w (fst (smtp L e s))) = remote_verdict L e s"
  using smtp_one_recipient [OF assms(1,2)] assms(3,4) by (simp add: ended_well_def)

definition ex_remote :: remote_env where
  "ex_remote = \<lparr>re_sender = ''a'', re_rcpts = [''b''], re_partner = ''1.2.3.4'', re_size = None,
     re_qqeh = [], re_body = [Got (''x'' @ [LF])]\<rparr>"

lemma remote_verdict_reaches_spawn_witness:
  "hd (rspawn_report [] \<lparr>ws_crashed = False, ws_code = 0\<rparr>
     (fst (smtp ref_libq ex_remote (''250 ok'' @ CRLF @ ''550 K'' @ [NUL] @ ''K'' @ CRLF)))) = CHR ''D''"
proof -
  have one: "smtpcode ref_libq (reply [] (''250'', ''ok'' @ [CR]) @ reply [] (''550'', ''K'' @ [NUL] @ ''K'' @ [CR])) =
      Some (250, reply [] (''550'', ''K'' @ [NUL] @ ''K'' @ [CR]), ''250 ok'' @ [LF])"
    by (subst smtpcode_parse) (simp_all add: line_ok_def reply_def reply_line_def ref_libq_def ref_scan_ulong_def cstr_def
        is_digit_def digit_val_def HUGESMTPTEXT_def Let_def)
  have two: "\<exists>t. smtpcode ref_libq (reply [] (''550'', ''K'' @ [NUL] @ ''K'' @ [CR])) = Some (550, [], t)"
    using smtpcode_parse [of "[]" "(''550'', ''K'' @ [NUL] @ ''K'' @ [CR])" ref_libq "[]"]
    by (simp add: line_ok_def reply_def reply_line_def ref_libq_def ref_scan_ulong_def cstr_def
        is_digit_def digit_val_def Let_def)
  have "remote_verdict ref_libq ex_remote (reply [] (''250'', ''ok'' @ [CR]) @ reply [] (''550'', ''K'' @ [NUL] @ ''K'' @ [CR]))
      = CHR ''D''"
    using one two by (auto simp: remote_verdict_def stage_def)
  then show ?thesis
    using remote_verdict_reaches_spawn [of ex_remote "''b''" "\<lparr>ws_crashed = False, ws_code = 0\<rparr>" "[]" ref_libq
        "reply [] (''250'', ''ok'' @ [CR]) @ reply [] (''550'', ''K'' @ [NUL] @ ''K'' @ [CR])"]
    by (simp add: ex_remote_def reply_def reply_line_def)
qed

text \<open>
  A reply of any number of lines is read to its end and no further: the code is the number the first line begins
  with (below 200 counts as 400), what follows stays in the stream, and \<^verbatim>\<open>smtptext\<close> holds the reply without its CRs,
  up to 5000 bytes.
\<close>

theorem replies_are_parsed:
  fixes L :: libq
  assumes "\<forall>(code, msg) \<in> set conts. length code = 3 \<and> LF \<notin> set msg" "length code = 3" "LF \<notin> set msg"
  defines "r \<equiv> concat (map (\<lambda>(code, msg). code @ ''-'' @ msg @ [LF]) conts) @ code @ '' '' @ msg @ [LF]"
  defines "n \<equiv> snd (lq_scan_ulong L (cstr (take 3 r)))"
  shows "smtpcode L (r @ rest) = Some (if n < 200 then 400 else n, rest, take 5000 (filter (\<lambda>c. c \<noteq> CR) r))"
proof -
  have r: "r = reply conts (code, msg)" by (simp add: r_def reply_def reply_line_def)
  have "\<forall>l \<in> set conts. line_ok l" "line_ok (code, msg)" using assms(1-3) by (auto simp: line_ok_def)
  from smtpcode_parse [OF this, of L rest] show ?thesis
    by (simp add: r [symmetric] n_def [symmetric] HUGESMTPTEXT_def)
qed

lemma replies_are_parsed_witness:
  "smtpcode ref_libq ((''250-a'' @ CRLF @ ''250 b'' @ CRLF) @ ''354'') =
     Some (250, ''354'', ''250-a'' @ [LF] @ ''250 b'' @ [LF])"
  using replies_are_parsed [of "[(''250'', ''a'' @ [CR])]" "''250''" "''b'' @ [CR]" ref_libq "''354''"]
  by (simp add: ref_libq_def ref_scan_ulong_def cstr_def is_digit_def digit_val_def Let_def)

text \<open>
  The parser of an EHLO reply stays inside \<^verbatim>\<open>smtptext\<close>, as its comment claims, when the text ends in a line feed.
\<close>

theorem ehlo_stays_inside:
  assumes "smtptext \<noteq> []" "last smtptext = LF"
  shows "\<exists>kws. ehlo_keywords smtptext = Some kws"
  using ehlo_keywords_inside [OF assms] by auto

lemma ehlo_stays_inside_witness: "\<exists>kws. ehlo_keywords (''250-a'' @ [LF] @ ''250 SIZE 5'' @ [LF]) = Some kws"
  by (rule ehlo_stays_inside) simp_all

section \<open>Where the code departs from its intention\<close>

text \<open>
  The SPF line is subtracted from the unsigned \<^verbatim>\<open>BytesToOverflow\<close> and the test \<^verbatim>\<open><= 0\<close> only sees zero: a limit
  smaller than the line wraps to almost \<open>2 ^ 64\<close> and is gone.
\<close>

lemma spf_line_disables_limit:
  "let s = spfreceived (Some ''pass (mx.example.org: domain of a)'') \<lparr>sd_over = 11, sd_size = 0, sd_qq = ex_queue\<rparr>
   in sd_over s = - 38 \<and> \<not> qq_flagerr (sd_qq s)"
  by (simp add: spfreceived_def Let_def ex_queue_def qmail_opened_def qmail_put_def)

text \<open>Only bytes 9 to 13 of a line are compared with \<^verbatim>\<open>return-receipt\<close>.\<close>

lemma receipt_matches_any_prefix: "h_dsn (fold hdr_step ''Subject: ceipt'' hdr_init)"
  by (simp add: hdr_init_def hdr_step_def hdr_return_receipt_def hdr_trace_def at_either_def Let_def)

text \<open>A custom error of several lines becomes two lines of SMTP, the second without a code.\<close>

lemma custom_error_second_line:
  "queue_reply ref_libq (''Zfirst'' @ [LF] @ ''Dsecond'') = ''554 second'' @ CRLF @ ''Zfirst'' @ CRLF"
  by (simp add: queue_reply_def ref_libq_def ref_rchr_def ref_chr_def cstr_def Let_def)

text \<open>With \<^verbatim>\<open>ALLOW_BARELF\<close> a lone dot between bare line feeds ends the message.\<close>

lemma bare_lf_smuggles:
  "fst (smtpd_blast True (''a'' @ [LF] @ ''.'' @ [LF] @ ''MAIL'') s) = DataDone ''MAIL''"
  by (simp add: smtpd_blast_def Let_def bare_lf_def blast_switch_def)

text \<open>
  \<^verbatim>\<open>smtptext\<close> stops at 5000 bytes, so a long reply does not end in a line feed there, and the parser runs past it.
\<close>

lemma long_ehlo_runs_outside:
  assumes "LF \<notin> set x" "5000 \<le> length x"
  shows "\<exists>t. smtpcode ref_libq (''250-a'' @ [LF] @ ''250 '' @ x @ [LF]) = Some (250, [], t) \<and>
    (CR \<notin> set x \<longrightarrow> ehlo_keywords t = None)"
proof -
  have f: "filter (\<lambda>c. c \<noteq> CR) x = x" if "CR \<notin> set x" using that by (auto simp: filter_id_conv)
  have d: "LF \<notin> set (take k x)" for k using assms(1) by (meson in_set_takeD)
  have "smtpcode ref_libq (''250-a'' @ [LF] @ ''250 '' @ x @ [LF]) = Some (250, [],
      take 5000 (filter (\<lambda>c. c \<noteq> CR) (''250-a'' @ [LF] @ ''250 '' @ x @ [LF])))"
    using smtpcode_parse [of "[(''250'', ''a'')]" "(''250'', x)" ref_libq "[]"] assms(1)
    by (simp add: line_ok_def reply_def reply_line_def ref_libq_def ref_scan_ulong_def cstr_def
        is_digit_def digit_val_def HUGESMTPTEXT_def Let_def)
  moreover have "ehlo_keywords (take 5000 (filter (\<lambda>c. c \<noteq> CR) (''250-a'' @ [LF] @ ''250 '' @ x @ [LF]))) = None"
    if "CR \<notin> set x"
    using assms f [OF that] d
    by (simp add: ehlo_keywords_def ehlo_lines.simps ehlo_words_outside)
  ultimately show ?thesis by blast
qed

text \<open>
  \<^verbatim>\<open>err_authprot\<close> writes a part that begins with K and goes on with the dialogue: whatever the dialogue
  decides, \<^verbatim>\<open>qmail-rspawn\<close> reports a success.
\<close>

lemma auth_notice_hides_failure:
  "hd (rspawn_report oob \<lparr>ws_crashed = False, ws_code = 0\<rparr> (err_authprot @ fst (smtp L e s))) = CHR ''K''"
  by (rule auth_notice_is_success) (simp add: ended_well_def)

end
