(* ===== verification/QmailQueueLive.thy ===== *)
theory QmailQueueLive
  imports QmailQueueFacts
begin

text \<open>
  When no call fails and the client sends a well-formed envelope, \<^verbatim>\<open>qmail-queue\<close> comes to its end with
  exit code 0.
\<close>

definition smooth :: "qqs \<Rightarrow> bool" where
  "smooth s \<longleftrightarrow> alive s \<and> (\<forall>n. \<not> qs_fail s n)"

definition keeps :: "(qqs \<Rightarrow> qqs) \<Rightarrow> bool" where
  "keeps f \<longleftrightarrow> (\<forall>s. smooth s \<longrightarrow> smooth (f s))"

lemma keepsD: "keeps f \<Longrightarrow> smooth s \<Longrightarrow> smooth (f s)"
  by (simp add: keeps_def)

text \<open>The call succeeds.\<close>

lemma smooth_sys: "smooth s \<Longrightarrow> \<exists>s1. sys op s = (True, s1) \<and> smooth s1"
  by (simp add: smooth_def alive_def sys_def Let_def)

lemma keeps_must: "keeps (must cf e c str op)"
  using smooth_sys [of _ op] by (fastforce simp: keeps_def must_def)

lemma keeps_bput: "keeps (bput cf str b)"
proof -
  have "smooth (bput cf str b s)" if "smooth s" for s
    using smooth_sys [OF that, of "QAppend (qs_out s) (take (qs_spill s (qs_calls s)) (qs_buf s @ b))"]
    by (auto simp: bput_def Let_def smooth_def alive_def)
  then show ?thesis by (simp add: keeps_def)
qed

lemma keeps_bflush: "keeps (bflush cf str)"
proof -
  have "smooth (bflush cf str s)" if "smooth s" for s
    using smooth_sys [OF that, of "QAppend (qs_out s) (qs_buf s)"] by (auto simp: bflush_def smooth_def alive_def)
  then show ?thesis by (simp add: keeps_def)
qed

lemma keeps_steps: "list_all keeps fs \<Longrightarrow> keeps (steps fs)"
proof (induction fs)
  case (Cons f fs)
  then show ?case unfolding keeps_def by (simp add: steps_cons)
qed (simp add: keeps_def)

lemma keeps_record: "keeps (put_record cf l b)"
  unfolding put_record_def by (rule keeps_steps) (simp add: keeps_bput)

lemma keeps_extra: "keeps (put_extra cf)"
  unfolding put_extra_def by (rule keeps_steps) (simp add: list_all_iff keeps_record)

lemma keeps_quarantine: "keeps (put_quarantine cf)"
proof -
  have "keeps (\<lambda>s. s\<lparr>qs_extra := qs_extra s @ ''X-Quarantine-ID: '' @ qc_quarantine cf\<rparr>)"
    by (simp add: keeps_def smooth_def alive_def)
  then have "keeps (steps [put_record cf ''T'' (qc_quarantine cf),
      \<lambda>s. s\<lparr>qs_extra := qs_extra s @ ''X-Quarantine-ID: '' @ qc_quarantine cf\<rparr>])"
    by (intro keeps_steps) (simp add: keeps_record)
  then show ?thesis unfolding put_quarantine_def keeps_def by (simp del: steps_simps)
qed

lemma keeps_qqeh: "keeps (put_qqeh cf)"
proof -
  have "keeps (steps [bput cf wenv ''e'', bput cf wenv x, bput cf wenv y, bput cf wenv [NUL]])" for x y
    by (rule keeps_steps) (simp add: keeps_bput)
  then have k: "smooth s \<Longrightarrow> smooth (steps [bput cf wenv ''e'', bput cf wenv x, bput cf wenv y, bput cf wenv [NUL]] s)" for x y s
    by (rule keepsD)
  have "smooth (s\<lparr>qs_extra := z\<rparr>)" if "smooth s" for s z using that by (simp add: smooth_def alive_def)
  then show ?thesis using k unfolding keeps_def put_qqeh_def Let_def by (simp del: steps_simps)
qed

lemma keeps_sync: "keeps (sync_files cf)"
proof (cases "qc_sync cf")
  case True
  then show ?thesis unfolding sync_files_def by (simp only: if_True) (intro keeps_steps, simp add: keeps_must)
qed (simp add: sync_files_def keeps_def)

section \<open>The files\<close>

lemma keeps_open_mess: "keeps (open_mess cf)"
proof -
  have "smooth (open_mess cf s)" if s: "smooth s" for s
  proof -
    obtain s1 where s1: "sys (QOpen (QPid 1)) s = (True, s1)" "smooth s1" using smooth_sys [OF s] by blast
    have p: "pidopen_loop cf 9 1 s = (1, s1)" using s1(1) by (simp add: eval_nat_numeral)
    obtain s2 where s2: "fstat_ok s1 = (True, s2)" "smooth s2"
      using s1(2) by (simp add: fstat_ok_def smooth_def alive_def)
    obtain s3 where s3: "sys (QLink (QPid 1) QMess) s2 = (True, s3)" "smooth s3" using smooth_sys [OF s2(2)] by blast
    obtain s4 where s4: "sys (QUnlink (QPid 1)) s3 = (True, s4)" "smooth s4" using smooth_sys [OF s3(2)] by blast
    show ?thesis using p s1(2) s2 s3 s4 by (simp add: open_mess_def link_mess_def smooth_def alive_def)
  qed
  then show ?thesis by (simp add: keeps_def)
qed

lemma keeps_open_intd: "keeps (open_intd cf)"
proof -
  have "smooth (open_intd cf s)" if "smooth s" for s
    using smooth_sys [OF that, of "QOpen QIntd"] by (auto simp: open_intd_def smooth_def alive_def)
  then show ?thesis by (simp add: keeps_def)
qed

lemma keeps_body: "None \<notin> set rs \<Longrightarrow> keeps (copy_body cf rs)"
proof (induction rs)
  case (Cons r rs)
  then show ?case using keepsD [OF keeps_bput] by (auto simp: keeps_def split: option.split)
qed (simp add: keeps_def)

lemma copy_addr_live:
  "smooth s \<Longrightarrow> no_nul a \<Longrightarrow> length a < n \<Longrightarrow>
   fst (copy_addr cf quar n (a @ NUL # rest) s) = rest \<and> smooth (snd (copy_addr cf quar n (a @ NUL # rest) s))"
proof (induction a arbitrary: n s)
  case Nil
  then show ?case using keepsD [OF keeps_bput] by (cases n) (simp_all add: Let_def)
next
  case (Cons c a)
  obtain k where k: "n = Suc k" "length a < k" using Cons.prems(3) by (cases n) auto
  let ?s1 = "if quar then s\<lparr>qs_extra := qs_extra s @ [c]\<rparr> else bput cf wenv [c] s"
  have s1: "smooth ?s1" using Cons.prems(1) keepsD [OF keeps_bput] by (simp add: smooth_def alive_def)
  then have "alive ?s1" by (simp add: smooth_def)
  then have "copy_addr cf quar n ((c # a) @ NUL # rest) s = copy_addr cf quar k (a @ NUL # rest) ?s1"
    using Cons.prems(2) by (cases quar) (simp_all add: k(1) Let_def)
  then show ?case using Cons.IH [OF s1 _ k(2)] Cons.prems(2) by simp
qed

lemma copy_rcpts_live:
  "smooth s \<Longrightarrow> \<forall>r \<in> set rs. good_addr r \<Longrightarrow> c \<in> {NUL, CHR ''Q''} \<Longrightarrow>
   smooth (copy_rcpts cf quar (rcpt_records rs @ c # rest) s)"
proof (induction rs arbitrary: s)
  case Nil
  then show ?case by (auto simp: rcpt_records_def)
next
  case (Cons r rs)
  let ?s1 = "if quar then s\<lparr>qs_extra := qs_extra s @ '',''\<rparr> else bput cf wenv ''T'' s"
  let ?tail = "rcpt_records rs @ c # rest"
  let ?r = "copy_addr cf quar ADDR (r @ NUL # ?tail) ?s1"
  have s1: "smooth ?s1" using Cons.prems(1) keepsD [OF keeps_bput] by (simp add: smooth_def alive_def)
  have r: "fst ?r = ?tail" "smooth (snd ?r)"
    using copy_addr_live [OF s1, of r ADDR cf quar ?tail] Cons.prems(2) by (auto simp: good_addr_def)
  have "copy_rcpts cf quar (rcpt_records (r # rs) @ c # rest) s = copy_rcpts cf quar ?tail (snd ?r)"
    using s1 r by (simp add: rcpt_records_def Let_def smooth_def)
  then show ?case using Cons.IH [OF r(2)] Cons.prems by simp
qed

lemma copy_sender_live:
  assumes "smooth s" "good_addr a"
  shows "fst (copy_sender cf (''F'' @ a @ NUL # rest) s) = rest \<and> smooth (snd (copy_sender cf (''F'' @ a @ NUL # rest) s))"
proof -
  have s1: "smooth (bput cf wenv ''F'' s)" by (rule keepsD [OF keeps_bput assms(1)])
  then show ?thesis using copy_addr_live [OF s1, of a ADDR cf False rest] assms(2)
    by (simp add: copy_sender_def Let_def good_addr_def smooth_def)
qed

lemma write_intd_live:
  assumes "smooth s" "good_addr a" "\<forall>r \<in> set rs. good_addr r" "c \<in> {NUL, CHR ''Q''}"
  shows "smooth (write_intd L cf (env_stream a rs c rest) s)"
proof -
  let ?fs = "[open_intd cf, put_record cf ''u'' (lq_fmt_ulong L (qc_uid cf)), put_record cf ''p'' (lq_fmt_ulong L (qc_pid cf))]"
  obtain s1 where s1: "s1 = steps ?fs s" by blast
  have "keeps (steps ?fs)" by (rule keeps_steps) (simp add: keeps_record keeps_open_intd)
  then have k1: "smooth s1" using assms(1) s1 by (simp add: keepsD del: steps_simps)
  obtain inp s2 where s2: "copy_sender cf (env_stream a rs c rest) s1 = (inp, s2)" by (metis surj_pair)
  have k2: "smooth s2" "inp = rcpt_records rs @ c # rest"
    using copy_sender_live [OF k1 assms(2), of cf "rcpt_records rs @ c # rest"] s2 by (simp_all add: env_stream_def)
  obtain s3 where s3: "s3 = put_quarantine cf (put_extra cf s2)" by blast
  have k3: "smooth (put_extra cf s2)" "smooth s3"
    using keepsD [OF keeps_extra k2(1)] keepsD [OF keeps_quarantine] by (simp_all add: s3)
  obtain s4 where s4: "s4 = copy_rcpts cf (qc_quarantine cf \<noteq> []) inp s3" by blast
  have k4: "smooth s4" unfolding s4 k2(2) by (rule copy_rcpts_live [OF k3(2) assms(3,4)])
  have k5: "smooth (put_qqeh cf s4)" by (rule keepsD [OF keeps_qqeh k4])
  have w: "write_intd L cf (env_stream a rs c rest) s = bflush cf wenv (put_qqeh cf s4)"
    using k1 k2(1) k3 k4 k5 s2 unfolding write_intd_def s1 [symmetric]
    by (simp add: smooth_def Let_def flip: s3 s4)
  show ?thesis unfolding w by (rule keepsD [OF keeps_bflush k5])
qed

lemma qmail_queue_live:
  assumes "\<forall>n. \<not> fail n" "None \<notin> set body" "good_addr a" "\<forall>r \<in> set rs. good_addr r" "c \<in> {NUL, CHR ''Q''}"
  shows "qs_exit (qmail_queue L cf body (env_stream a rs c rest) (qq_start fail part spill None)) = Some 0"
proof -
  have k0: "smooth (qq_start fail part spill None)" using assms(1) by (simp add: smooth_def alive_def qq_start_def)
  have "keeps (write_mess cf body)"
    unfolding write_mess_def by (rule keeps_steps) (simp add: keeps_open_mess keeps_bput keeps_body keeps_bflush assms(2))
  note k1 = keepsD [OF this k0]
  note k2 = write_intd_live [OF k1 assms(3-5), of L cf rest]
  note k3 = keepsD [OF keeps_sync k2, of cf]
  note k4 = keepsD [OF keeps_must k3, of cf QQ_LINK_TODO_INTD True "''trouble linking todofn to intdfn''" "QLink QIntd QTodo"]
  have "qmail_queue L cf body (env_stream a rs c rest) (qq_start fail part spill None) =
      queue_run L cf body (env_stream a rs c rest) (qq_start fail part spill None)"
    by (simp add: qmail_queue_def timer_def) (simp add: qq_start_def)
  then show ?thesis using k0 k1 k2 k3 k4 by (simp add: queue_run_def smooth_def)
qed

end
