(* ===== verification/QueueProps.thy ===== *)
theory QueueProps
  imports SmtpProps QmailQueueLive
begin

text \<open>
  Properties of \<^verbatim>\<open>qmail-queue\<close>, and of its composition with the SMTP server.
\<close>

section \<open>An example\<close>

definition ex_qq :: qqconf where
  "ex_qq = \<lparr>qc_uid = 7, qc_pid = 42, qc_received = ''R'' @ [LF], qc_customerr = False, qc_errno = [], qc_extraqueue = [],
     qc_quarantine = [], qc_qqeh = [], qc_sync = True\<rparr>"

lemma ex_qq_run:
  "qs_trace (qmail_queue ref_libq ex_qq [Some ''hi''] (env_stream ''a'' [''b''] NUL []) (qq_start (\<lambda>_. False) (\<lambda>_. 0) (\<lambda>_. 100) None)) =
   [QOpen (QPid 1), QLink (QPid 1) QMess, QUnlink (QPid 1), QAppend QMess (''R'' @ [LF]), QAppend QMess ''hi'', QAppend QMess [],
    QOpen QIntd, QAppend QIntd ''u'', QAppend QIntd ''7'', QAppend QIntd [NUL], QAppend QIntd ''p'', QAppend QIntd ''42'', QAppend QIntd [NUL],
    QAppend QIntd ''F'', QAppend QIntd ''a'', QAppend QIntd [NUL], QAppend QIntd ''T'', QAppend QIntd ''b'', QAppend QIntd [NUL], QAppend QIntd [],
    QFsync QMess, QFsync QIntd, QLink QIntd QTodo, QTrigger]"
  by code_simp

section \<open>Properties\<close>

text \<open>
  C38. A message is announced to the queue manager only when it is complete: at the moment \<^verbatim>\<open>todo/\<close> is linked, whatever
  calls failed, the message file holds the trace line and everything that was read, no read failed, the envelope file holds the
  sender and all recipients of a well-formed envelope, and both are on disk if that is configured. The process
  exits with 0 exactly when it made the link, the directory could be synced (\<open>closing\<close>: nothing but the trigger follows the link)
  and the timer did not ring before the end. Otherwise the link may still be there: when the sync of the directory fails after
  the link was made, the process undoes what it can (\<open>undoing\<close>) and ends with an error. No quarantine address is configured,
  and no virus scanner (which may drop a message and exit with 0).
\<close>

theorem todo_link_is_complete:
  assumes "qc_quarantine cf = []" "r = qmail_queue L cf body env (qq_start fail part spill alarm)"
  shows "(qs_exit r = Some 0 \<longleftrightarrow> (\<exists>pre post. qs_trace r = pre @ QLink QIntd QTodo # post \<and> closing post) \<and> \<not> rang alarm r) \<and>
    (\<forall>pre post. qs_trace r = pre @ QLink QIntd QTodo # post \<longrightarrow> stored L cf body env pre \<and> (closing post \<or> undoing post))"
  by (rule link_complete [OF assms])

lemma todo_link_is_complete_witness:
  "stored ref_libq ex_qq [Some ''hi''] (env_stream ''a'' [''b''] NUL [])
     [QOpen (QPid 1), QLink (QPid 1) QMess, QUnlink (QPid 1), QAppend QMess (''R'' @ [LF]), QAppend QMess ''hi'', QAppend QMess [],
      QOpen QIntd, QAppend QIntd ''u'', QAppend QIntd ''7'', QAppend QIntd [NUL], QAppend QIntd ''p'', QAppend QIntd ''42'', QAppend QIntd [NUL],
      QAppend QIntd ''F'', QAppend QIntd ''a'', QAppend QIntd [NUL], QAppend QIntd ''T'', QAppend QIntd ''b'', QAppend QIntd [NUL], QAppend QIntd [],
      QFsync QMess, QFsync QIntd]"
  using todo_link_is_complete [OF _ refl, of ex_qq ref_libq "[Some ''hi'']" "env_stream ''a'' [''b''] NUL []" "\<lambda>_. False" "\<lambda>_. 0" "\<lambda>_. 100" None]
  unfolding ex_qq_run by (simp add: ex_qq_def)

text \<open>
  The directory of \<^verbatim>\<open>todo/\<close> cannot be synced after the link was made: the envelope, which is the same file under two names,
  and the message are truncated and their names in \<^verbatim>\<open>intd/\<close> and \<^verbatim>\<open>mess/\<close> are removed; \<^verbatim>\<open>todo/\<close> stays, with an empty envelope.
\<close>

lemma failed_sync_leaves_todo:
  "(let r = qmail_queue ref_libq ex_qq [Some ''hi''] (env_stream ''a'' [''b''] NUL [])
       (qq_start (\<lambda>n. n = 23) (\<lambda>_. 1) (\<lambda>_. 100) None)
    in (qs_exit r, drop 22 (qs_trace r))) =
   (Some QQ_LINK_TODO_INTD,
    [QLink QIntd QTodo, QUnsynced, QTrunc QIntd, QUnlink QIntd, QTrunc QMess, QUnlink QMess])"
  by code_simp

text \<open>
  When no call fails and no read fails, a well-formed envelope, its addresses shorter than \<^verbatim>\<open>ADDR\<close>, is queued: exit code 0.
\<close>

theorem good_mail_is_queued:
  assumes "\<forall>n. \<not> fail n" "None \<notin> set body" "good_addr sender" "\<forall>r \<in> set rcpts. good_addr r" "c \<in> {NUL, CHR ''Q''}"
  shows "qs_exit (qmail_queue L cf body (env_stream sender rcpts c rest) (qq_start fail part spill None)) = Some 0"
  using qmail_queue_live [OF assms] .

lemma good_mail_is_queued_witness:
  "qs_exit (qmail_queue ref_libq ex_qq [Some ''hi''] (env_stream ''a'' [''b''] NUL []) (qq_start (\<lambda>_. False) (\<lambda>_. 0) (\<lambda>_. 100) None)) = Some 0"
  by (rule good_mail_is_queued) (simp_all add: good_addr_def ADDR_def)

section \<open>The server and the queue\<close>

lemma split_nul: "no_nul a \<Longrightarrow> no_nul b \<Longrightarrow> a @ NUL # x = b @ NUL # y \<longleftrightarrow> a = b \<and> x = y"
  using read_record_append [of a x] read_record_append [of b y] by (metis Pair_inject option.inject)

lemma rcpt_records_inj:
  "rcpt_records rs @ c # x = rcpt_records rs' @ c' # x' \<Longrightarrow> c \<noteq> CHR ''T'' \<Longrightarrow> c' \<noteq> CHR ''T'' \<Longrightarrow>
   \<forall>r \<in> set rs \<union> set rs'. no_nul r \<Longrightarrow> rs = rs'"
proof (induction rs arbitrary: rs')
  case Nil
  then show ?case by (cases rs') (auto simp: rcpt_records_def)
next
  case (Cons r rs)
  then obtain r' rs'' where r: "rs' = r' # rs''" by (cases rs') (auto simp: rcpt_records_def)
  have "r @ NUL # (rcpt_records rs @ c # x) = r' @ NUL # (rcpt_records rs'' @ c' # x')"
    using Cons.prems(1) by (simp add: r rcpt_records_def)
  then show ?case using Cons.IH [of rs''] Cons.prems split_nul [of r r'] by (simp add: r)
qed

lemma env_stream_inj:
  assumes "env_stream s rs c x = env_stream s' rs' c' x'" "c \<in> {NUL, CHR ''Q''}" "c' \<in> {NUL, CHR ''Q''}"
    "good_addr s" "good_addr s'" "\<forall>r \<in> set rs \<union> set rs'. good_addr r"
  shows "s = s' \<and> rs = rs'"
proof -
  have "s @ NUL # (rcpt_records rs @ c # x) = s' @ NUL # (rcpt_records rs' @ c' # x')"
    using assms(1) by (simp add: env_stream_def)
  then have "s = s' \<and> rcpt_records rs @ c # x = rcpt_records rs' @ c' # x'"
    using split_nul [of s s'] assms(4,5) by (simp add: good_addr_def)
  then show ?thesis using rcpt_records_inj [of rs c x rs' c' x'] assms(2,3,6) by (auto simp: good_addr_def)
qed



end
