(* ===== verification/TodoProps.thy ===== *)
theory TodoProps
  imports TodoFacts SendSchedule SendExample QueueProps
begin

text \<open>
  Properties of \<^verbatim>\<open>todo-proc\<close>: an envelope is removed only when all of it has been moved, and the messages that
  \<^verbatim>\<open>qmail-queue\<close> announced reach the queues of \<^verbatim>\<open>qmail-send\<close>.
\<close>

section \<open>What was moved\<close>

definition handed_over :: "libq \<Rightarrow> todoconf \<Rightarrow> bytes list \<Rightarrow> qop list \<Rightarrow> bool" where
  "handed_over L cf ls tr \<longleftrightarrow> list_all known ls \<and> content QInfo tr = info_part ls \<and> (tc_sync cf \<longrightarrow> synced QInfo tr) \<and>
     (\<forall>c < 2. (present (QChan c) tr \<longleftrightarrow> chan_part L (tc_routes cf) c ls \<noteq> []) \<and>
        (present (QChan c) tr \<longrightarrow> content (QChan c) tr = chan_part L (tc_routes cf) c ls \<and> (tc_sync cf \<longrightarrow> synced (QChan c) tr)))"

lemma held_handed_over:
  assumes "list_all known ls" "held (info_part ls) (\<lambda>c. chan_part L (tc_routes cf) c ls) {QInfo, QChan 0, QChan 1}
       (if tc_sync cf then {QInfo, QChan 0, QChan 1} else {}) {} s"
  shows "handed_over L cf ls (qs_trace s)"
proof -
  let ?g = "\<lambda>c. chan_part L (tc_routes cf) c ls"
  have h: "tgiven QInfo s = info_part ls" "\<And>c. ?g c \<noteq> [] \<Longrightarrow> tgiven (QChan c) s = ?g c"
    "\<And>c. c < 2 \<Longrightarrow> present (QChan c) (qs_trace s) \<longleftrightarrow> ?g c \<noteq> []"
    "\<And>n. n \<in> {QInfo, QChan 0, QChan 1} \<Longrightarrow> needed ?g n \<Longrightarrow> tp_bufs s n = []"
    "\<And>n. tc_sync cf \<Longrightarrow> n \<in> {QInfo, QChan 0, QChan 1} \<Longrightarrow> needed ?g n \<Longrightarrow> synced n (qs_trace s)"
    using assms(2) by (simp_all add: held_def) auto
  have c: "QChan c \<in> {QInfo, QChan 0, QChan 1}" if "c < 2" for c using that by (auto simp: less_2_cases_iff)
  have n: "needed ?g QInfo" "needed ?g (QChan c) \<longleftrightarrow> ?g c \<noteq> []" for c by (simp_all add: needed_def)
  have "content (QChan c) (qs_trace s) = ?g c" if "c < 2" "?g c \<noteq> []" for c
    using h(2) [OF that(2)] h(4) [OF c [OF that(1)]] that(2) n(2) by (simp add: tgiven_def)
  moreover have "content QInfo (qs_trace s) = info_part ls" using h(1) h(4) [of QInfo] n(1) by (simp add: tgiven_def)
  ultimately show ?thesis using assms(1) h(3) h(5) c n by (simp add: handed_over_def)
qed

definition announcement :: "libq \<Rightarrow> todoconf \<Rightarrow> nat \<Rightarrow> bytes list \<Rightarrow> bytes" where
  "announcement L cf i ls =
     (if tc_detached cf then []
      else ''D'' @ [todo_letter (chan_part L (tc_routes cf) 0 ls \<noteq> []) (chan_part L (tc_routes cf) 1 ls \<noteq> [])] @ lq_fmt_ulong L i @ [NUL])"

text \<open>What \<^verbatim>\<open>qmail-send\<close> is told at the end of an attempt: the announcement, that the process ends, or nothing.\<close>

definition told :: "libq \<Rightarrow> todoconf \<Rightarrow> nat \<Rightarrow> bytes list \<Rightarrow> bool \<Rightarrow> bool \<Rightarrow> bytes" where
  "told L cf i ls ok exiting = (if ok then announcement L cf i ls else if exiting then ''X'' @ [NUL] else [])"

lemma todo_proc_effect:
  fixes d :: bytes
  assumes "libqmail L" "fresh_todo s" "todo_proc_do L cf i sz d ans s = (ok, r)"
  defines "ls \<equiv> records_of d"
  shows "ok \<longleftrightarrow> QAsk QTodo \<in> set (qs_trace r) \<and> ans = Some (CHR ''+'')"
    and "qs_trace r = pre @ QAsk QTodo # post \<Longrightarrow> post = [] \<and> handed_over L cf ls pre"
    and "\<exists>cm. only_info cm \<and> tp_comm r = cm @ told L cf i ls ok (tp_exit r)"
    and "list_all known ls \<Longrightarrow> \<forall>n. \<not> qs_fail s n \<Longrightarrow> ans = Some (CHR ''+'') \<Longrightarrow> ok"
proof -
  let ?g = "\<lambda>c. chan_part L (tc_routes cf) c ls"
  let ?Y = "if tc_sync cf then {QInfo, QChan 0, QChan 1} else {}"
  obtain ok1 s1 where s1: "todo_split L cf i sz d s = (ok1, s1)" by (metis surj_pair)
  note sp = doesD [OF does_split [OF assms(1)] assms(2) s1, folded ls_def]
  obtain ok2 s2 where s2: "sys (QAsk QTodo) s1 = (ok2, s2)" by (metis surj_pair)
  have y: "(ok2, s2) = (if qs_fail s1 (qs_calls s1) then (False, after_fail (QAsk QTodo) s1)
      else (True, s1\<lparr>qs_calls := qs_calls s1 + 1, qs_trace := qs_trace s1 @ [QAsk QTodo]\<rparr>))"
    unfolding s2 [symmetric] by (simp add: sys_eq)
  let ?fin = "log_stat (todo_comm_write L cf i s2)"
  have r: "(ok, r) = (if \<not> ok1 then (False, s1) else if \<not> ok2 then (False, todo_cleandied s2) else
      case ans of None \<Rightarrow> (False, todo_cleandied s2) | Some ch \<Rightarrow> if ch = CHR ''+'' then (True, ?fin) else (False, s2))"
    using assms(3) s1 s2
    by (auto simp: todo_proc_do_def all_do_simps also_do_def ask_removal_def split: bool.splits option.splits prod.splits if_splits)
  have t: "qs_trace (todo_cleandied s2) = qs_trace s2" "qs_trace ?fin = qs_trace s2"
    by (simp_all add: todo_cleandied_def log_stat_def todo_comm_write_def)
  show "ok \<longleftrightarrow> QAsk QTodo \<in> set (qs_trace r) \<and> ans = Some (CHR ''+'')"
    using r y t sp(1) by (cases ok1; cases ok2; cases ans) (auto split: if_splits)
  show "post = [] \<and> handed_over L cf ls pre" if tr: "qs_trace r = pre @ QAsk QTodo # post"
  proof -
    have a: "QAsk QTodo \<in> set (qs_trace r)" by (simp add: tr)
    then have o: "ok1" "ok2" using r y t sp(1) by (cases ok1; cases ok2; auto split: if_splits)+
    then have "qs_trace r = qs_trace s1 @ [QAsk QTodo]" using r y t by (auto split: option.splits if_splits)
    moreover have "QAsk QTodo \<notin> set (qs_trace s1)" using sp(1) by simp
    ultimately have "pre = qs_trace s1 \<and> post = []" using tr append_Cons_eq_iff [of "QAsk QTodo" "qs_trace s1" "[]" pre post] by auto
    then show ?thesis using held_handed_over sp(2) [OF o(1)] by blast
  qed
  have c: "only_info (tp_comm s1)" "tp_comm s2 = tp_comm s1" "\<not> tp_exit s2" "tp_flag s2 = tp_flag s1"
    using sp(1) y by (auto simp: after_fail_def split: if_splits)
  show "\<exists>cm. only_info cm \<and> tp_comm r = cm @ told L cf i ls ok (tp_exit r)"
  proof (cases ok)
    case True
    then have "ok1" "r = ?fin" using r by (auto split: option.splits if_splits)
    then show ?thesis using sp(2) [OF \<open>ok1\<close>] c True
      by (auto simp: log_stat_def todo_comm_write_def announcement_def held_def told_def intro!: exI [of _ "tp_comm s1"])
  next
    case False
    then have "r = s1 \<or> r = s2 \<or> r = todo_cleandied s2" using r by (auto split: option.splits if_splits)
    then show ?thesis using False c sp(1) by (intro exI [of _ "tp_comm s1"]) (auto simp: told_def todo_cleandied_def)
  qed
  show "ok" if "list_all known ls" "\<forall>n. \<not> qs_fail s n" "ans = Some (CHR ''+'')"
    using sp(3) [OF that(1,2)] y r that(3) by (auto split: if_splits)
qed

section \<open>The envelope that qmail-queue wrote\<close>

definition qq_ok :: "qqconf \<Rightarrow> bool" where
  "qq_ok q \<longleftrightarrow> (\<forall>r \<in> set (qc_extraqueue q). no_nul r)"

lemma records_of_rcpts: "\<forall>r \<in> set rs. no_nul r \<Longrightarrow> records_of (rcpt_records rs @ d) = map (\<lambda>r. ''T'' @ r) rs @ records_of d"
proof (induction rs)
  case (Cons r rs)
  then show ?case using records_of_append [of "CHR ''T'' # r" "rcpt_records rs @ d"] by (simp add: rcpt_records_def)
qed (simp add: rcpt_records_def)

lemma records_of_envelope:
  assumes "libqmail L" "qq_ok q" "good_addr sender" "\<forall>r \<in> set rcpts. good_addr r"
  shows "records_of (env_records L q sender rcpts) =
    [''u'' @ lq_fmt_ulong L (qc_uid q), ''p'' @ lq_fmt_ulong L (qc_pid q), ''F'' @ sender]
    @ map (\<lambda>r. ''T'' @ r) (qc_extraqueue q @ rcpts) @ (if qqeh_text q = [] then [] else [''e'' @ qqeh_text q])"
proof -
  have n: "no_nul (lq_fmt_ulong L k)" for k by (rule libqmail.fmt_ulong_no_nul [OF assms(1)])
  have t: "no_nul (qqeh_text q)"
    by (auto simp: qqeh_text_def Let_def)
  have e: "records_of [] = []" by (rule records_of_none) simp
  have q: "records_of (qqeh_record q) = (if qqeh_text q = [] then [] else [''e'' @ qqeh_text q])"
    using records_of_append [of "CHR ''e'' # qqeh_text q" "[]"] t by (simp add: qqeh_record_def e)
  have r: "\<forall>r \<in> set (qc_extraqueue q). no_nul r" "\<forall>r \<in> set rcpts. no_nul r" using assms(2,4) by (auto simp: qq_ok_def good_addr_def)
  have "env_records L q sender rcpts = (CHR ''u'' # lq_fmt_ulong L (qc_uid q)) @ NUL # (CHR ''p'' # lq_fmt_ulong L (qc_pid q)) @ NUL #
      (CHR ''F'' # sender) @ NUL # rcpt_records (qc_extraqueue q) @ rcpt_records rcpts @ qqeh_record q"
    by (simp add: env_records_def)
  moreover have "no_nul (CHR ''u'' # lq_fmt_ulong L (qc_uid q))" "no_nul (CHR ''p'' # lq_fmt_ulong L (qc_pid q))" "no_nul (CHR ''F'' # sender)"
    using n assms(3) by (simp_all add: good_addr_def)
  ultimately show ?thesis by (simp only: records_of_append records_of_rcpts [OF r(1)] records_of_rcpts [OF r(2)] q) simp
qed

lemma parts_of_rcpts:
  "info_part (map (\<lambda>r. ''T'' @ r) rs) = []"
  "chan_part L rt c (map (\<lambda>r. ''T'' @ r) rs) = concat (map (\<lambda>r. snd (rewrite L rt r)) (filter (\<lambda>r. chan_of L rt r = c) rs))"
  by (induction rs) simp_all

lemma part_append: "info_part (a @ b) = info_part a @ info_part b" "chan_part L rt c (a @ b) = chan_part L rt c a @ chan_part L rt c b"
  by (simp_all add: info_part_def chan_part_def)

lemma envelope_parts:
  fixes q :: qqconf
  assumes "libqmail L" "qq_ok q" "good_addr sender" "\<forall>r \<in> set rcpts. good_addr r"
  defines "ls \<equiv> records_of (env_records L q sender rcpts)"
  shows "list_all known ls" "info_part ls = ''F'' @ sender @ [NUL] @ qqeh_record q"
    "chan_part L rt c ls = concat (map (\<lambda>r. snd (rewrite L rt r)) (filter (\<lambda>r. chan_of L rt r = c) (qc_extraqueue q @ rcpts)))"
  unfolding ls_def records_of_envelope [OF assms(1-4)] part_append parts_of_rcpts
  by (auto simp: known_def list_all_iff qqeh_record_def)

lemma chan_part_empty:
  "concat (map (\<lambda>r. snd (rewrite L rt r)) (filter (\<lambda>r. chan_of L rt r = c) rs)) = [] \<longleftrightarrow> (\<forall>r \<in> set rs. chan_of L rt r \<noteq> c)"
  using rewrite_nonempty by (auto simp: concat_eq_Nil_conv)

section \<open>What qmail-send reads\<close>

lemma take_again: "take n (take n l @ [c]) = take n (l @ [c])"
  by (cases "n \<le> length l") simp_all

lemma take_reportmax: "take REPORTMAX (c # x) = c # take (REPORTMAX - 1) x"
  by (subst take_Cons') (simp add: REPORTMAX_def)

lemma todo_bytes_line:
  "no_nul b \<Longrightarrow> fold (todo_byte L) b (s\<lparr>todoline := take REPORTMAX l\<rparr>) = s\<lparr>todoline := take REPORTMAX (l @ b)\<rparr>"
proof (induction b arbitrary: l)
  case (Cons ch b)
  have "todo_byte L ch (s\<lparr>todoline := take REPORTMAX l\<rparr>) = s\<lparr>todoline := take REPORTMAX (l @ [ch])\<rparr>"
    using Cons.prems by (simp add: todo_byte_def Let_def take_again del: take_append)
  then show ?case using Cons.IH [of "l @ [ch]"] Cons.prems by simp
qed simp

lemma todo_bytes_record:
  assumes "no_nul b" "b \<noteq> []" "todoline s = []"
  shows "fold (todo_byte L) (b @ [NUL]) s = (todo_line L (take REPORTMAX (b @ [NUL])) (s\<lparr>todoline := take REPORTMAX (b @ [NUL])\<rparr>))\<lparr>todoline := []\<rparr>"
proof -
  have s: "s\<lparr>todoline := take REPORTMAX []\<rparr> = s" using assms(3) by simp
  have b: "fold (todo_byte L) b s = s\<lparr>todoline := take REPORTMAX b\<rparr>"
    using todo_bytes_line [OF assms(1), where s = s and l = "[]"] unfolding s by simp
  have "1 < length (take REPORTMAX (b @ [NUL]))" using assms(2) by (cases b) (simp_all add: REPORTMAX_def)
  then show ?thesis by (simp only: fold_append comp_apply b fold_simps) (simp add: todo_byte_def Let_def take_again del: take_append)
qed

text \<open>Log lines only change the log.\<close>

lemma todoline_same: "todoline s = [] \<Longrightarrow> s\<lparr>logs := x, todoline := []\<rparr> = s\<lparr>logs := x\<rparr>"
  by (cases s) simp

lemma todo_bytes_info:
  assumes "only_info cm" "todoline s = []"
  shows "\<exists>lg. fold (todo_byte L) cm s = s\<lparr>logs := lg\<rparr>"
proof -
  obtain ts where ts: "cm = concat (map (\<lambda>t. ''L'' @ t @ [NUL]) ts)" "\<forall>t \<in> set ts. no_nul t \<and> t \<noteq> []"
    using assms(1) unfolding only_info_def by blast
  have "\<exists>lg. fold (todo_byte L) (concat (map (\<lambda>t. ''L'' @ t @ [NUL]) ts)) s = s\<lparr>logs := lg\<rparr>"
    if "\<forall>t \<in> set ts. no_nul t \<and> t \<noteq> []" "todoline s = []" for ts s
    using that
  proof (induction ts arbitrary: s)
    case Nil
    show ?case by (intro exI [of _ "logs s"]) simp
  next
    case (Cons t ts)
    have "fold (todo_byte L) ((CHR ''L'' # t) @ [NUL]) s =
        (todo_line L (take REPORTMAX ((CHR ''L'' # t) @ [NUL])) (s\<lparr>todoline := take REPORTMAX ((CHR ''L'' # t) @ [NUL])\<rparr>))\<lparr>todoline := []\<rparr>"
      by (rule todo_bytes_record) (use Cons.prems in auto)
    also have "\<exists>lg. \<dots> = s\<lparr>logs := lg\<rparr>"
      using todoline_same [OF Cons.prems(2)] by (auto simp: take_reportmax todo_line_def slog_def)
    finally obtain lg where lg: "fold (todo_byte L) ((CHR ''L'' # t) @ [NUL]) s = s\<lparr>logs := lg\<rparr>" by blast
    obtain lg' where "fold (todo_byte L) (concat (map (\<lambda>t. ''L'' @ t @ [NUL]) ts)) (s\<lparr>logs := lg\<rparr>) = s\<lparr>logs := lg\<rparr>\<lparr>logs := lg'\<rparr>"
      using Cons.IH [of "s\<lparr>logs := lg\<rparr>"] Cons.prems by auto
    then show ?case using lg by (auto intro: exI [of _ lg'])
  qed
  from this [OF ts(2) assms(2)] show ?thesis by (simp add: ts(1))
qed

text \<open>The announcement puts the message into the queues of the channels that have recipients.\<close>

definition scheduled :: "nat \<Rightarrow> bool \<Rightarrow> bool \<Rightarrow> qsend \<Rightarrow> qsend \<Rightarrow> bool" where
  "scheduled i local remote s s' \<longleftrightarrow> (\<exists>pe. pe_id pe = i \<and>
     mset (pqchan s' 0) = mset (pqchan s 0) + (if local then {#pe#} else {#}) \<and>
     mset (pqchan s' 1) = mset (pqchan s 1) + (if remote then {#pe#} else {#}) \<and>
     mset (pqdone s') = mset (pqdone s) + (if local \<or> remote then {#} else {#pe#}))"

lemma todo_flags_letter: "todo_flags (todo_letter a b) = Some ((if a then [0] else []) @ (if b then [1] else []))"
  by (simp add: todo_flags_def todo_letter_def)

lemma announcement_read:
  assumes "libqmail L" "only_info cm" "todoline s = []" "\<not> flagexitsend s" "flagtodoalive s" "i < 10 ^ 20"
  shows "scheduled i a b s (todo_do L (Some (Some (cm @ ''D'' @ [todo_letter a b] @ lq_fmt_ulong L i @ [NUL]))) s)"
proof -
  let ?f = "todo_letter a b" and ?n = "lq_fmt_ulong L i"
  let ?b = "CHR ''D'' # ?f # ?n"
  obtain lg where lg: "fold (todo_byte L) cm s = s\<lparr>logs := lg\<rparr>" using todo_bytes_info [OF assms(2,3)] by blast
  have n: "no_nul ?n" "length ?n \<le> 20"
    using libqmail.fmt_ulong_no_nul [OF assms(1)] libqmail.fmt_ulong_len [OF assms(1,6)] by auto
  have f: "?f \<noteq> NUL" by (simp add: todo_letter_def)
  have t: "take REPORTMAX (?b @ [NUL]) = ?b @ [NUL]" using n(2) by (intro take_all) (simp add: REPORTMAX_def)
  let ?u = "s\<lparr>logs := lg, todoline := ?b @ [NUL]\<rparr>"
  have "fold (todo_byte L) (?b @ [NUL]) (s\<lparr>logs := lg\<rparr>) = (todo_line L (?b @ [NUL]) ?u)\<lparr>todoline := []\<rparr>"
    using todo_bytes_record [of ?b "s\<lparr>logs := lg\<rparr>" L] n(1) f assms(3) unfolding t by simp
  also have "todo_line L (?b @ [NUL]) ?u = todo_del L (?f # ?n) ?u"
    using n(1) f assms(4) by (simp add: todo_line_def cstr_append_nul [of "?f # ?n" "[]", simplified])
  finally have e: "todo_do L (Some (Some (cm @ ''D'' @ [?f] @ ?n @ [NUL]))) s = (todo_del L (?f # ?n) ?u)\<lparr>todoline := []\<rparr>"
    using assms(5) lg by (cases cm) (simp_all add: todo_do_def)
  let ?pe = "\<lparr>pe_dt = w_time (sw ?u) (w_tick (sw ?u)), pe_id = i, pe_delayed = junk ?u\<rparr>"
  show ?thesis
    unfolding e scheduled_def
    using libqmail.todo_del_announced [OF assms(1) todo_flags_letter [of a b], where i = i and s = ?u] by (intro exI [of _ ?pe]) auto
qed

section \<open>Properties\<close>

text \<open>
  C37. An envelope is removed only when all of it has been moved: when \<^verbatim>\<open>qmail-clean\<close> is asked to remove \<^verbatim>\<open>todo/id\<close>,
  whatever calls failed before, every record of it was known, \<^verbatim>\<open>info/id\<close> holds the records of the sender and the extra headers
  in their order, \<^verbatim>\<open>local/id\<close> and \<^verbatim>\<open>remote/id\<close> exist exactly if they have recipients and hold all of them, rewritten,
  each in the list of its channel, and all are synced if that is configured. The attempt succeeds exactly when the request was made
  and answered with \<open>+\<close>. Besides log lines \<^verbatim>\<open>qmail-send\<close> is then told of the message, with the letter of the channels that
  have recipients (nothing when \<^verbatim>\<open>todo-proc\<close> is detached); when the attempt fails it is told of no message, only of the end of
  \<^verbatim>\<open>todo-proc\<close> if the connection to \<^verbatim>\<open>qmail-clean\<close> is lost.
\<close>

theorem envelope_removed_when_moved:
  assumes "libqmail L" "fresh_todo s" "todo_proc_do L cf i sz d ans s = (ok, r)"
  shows "(ok \<longleftrightarrow> QAsk QTodo \<in> set (qs_trace r) \<and> ans = Some (CHR ''+'')) \<and>
    (\<forall>pre post. qs_trace r = pre @ QAsk QTodo # post \<longrightarrow> post = [] \<and> handed_over L cf (records_of d) pre) \<and>
    (\<exists>cm. only_info cm \<and> tp_comm r = cm @
       (if ok \<and> \<not> tc_detached cf then
          ''D'' @ [todo_letter (chan_part L (tc_routes cf) 0 (records_of d) \<noteq> []) (chan_part L (tc_routes cf) 1 (records_of d) \<noteq> [])]
          @ lq_fmt_ulong L i @ [NUL]
        else if \<not> ok \<and> tp_exit r then ''X'' @ [NUL] else []))"
proof -
  let ?t = "told L cf i (records_of d) ok (tp_exit r)"
  have e: "?t = (if ok \<and> \<not> tc_detached cf then
          ''D'' @ [todo_letter (chan_part L (tc_routes cf) 0 (records_of d) \<noteq> []) (chan_part L (tc_routes cf) 1 (records_of d) \<noteq> [])]
          @ lq_fmt_ulong L i @ [NUL]
        else if \<not> ok \<and> tp_exit r then ''X'' @ [NUL] else [])"
    by (simp add: told_def announcement_def)
  show ?thesis unfolding e [symmetric] using todo_proc_effect(1-3) [OF assms] by blast
qed

text \<open>An example.\<close>

definition ex_routes :: routes where
  "ex_routes = \<lparr>rt_locals = (\<lambda>d. d = ''l''), rt_hack = (\<lambda>_. False), rt_vdoms = (\<lambda>d. if d = ''.v'' then Some ''w'' else None), rt_noathost = ''l''\<rparr>"

definition ex_todo :: todoconf where
  "ex_todo = \<lparr>tc_routes = ex_routes, tc_desc = ''q1'', tc_sync = True, tc_detached = False\<rparr>"

definition ex_run :: "bool \<times> todop" where
  "ex_run = todo_proc_do ref_libq ex_todo 77 5 (env_records ref_libq ex_qq ''s'' [''b@x.v'', ''c@r'']) (Some (CHR ''+''))
     (tp_start (\<lambda>_. False) (\<lambda>_. 0) (\<lambda>_. 1000))"

definition ex_moved :: "qop list" where
  "ex_moved = [QUnlink (QChan 0), QUnlink (QChan 1), QUnlink QInfo, QOpen QInfo, QAppend QInfo (''Fs'' @ [NUL]),
     QOpen (QChan 0), QAppend (QChan 0) (''Tw-b@x.v'' @ [NUL]),
     QOpen (QChan 1), QAppend (QChan 1) (''Tc@r'' @ [NUL]), QAppend QInfo [], QAppend (QChan 0) [], QAppend (QChan 1) [],
     QFsync QInfo, QFsync (QChan 0), QFsync (QChan 1)]"

lemma ex_run_value: "(case ex_run of (ok, r) \<Rightarrow> (ok, qs_trace r)) = (True, ex_moved @ [QAsk QTodo])"
  by code_simp

lemma ex_run_trace: "fst ex_run" "qs_trace (snd ex_run) = ex_moved @ [QAsk QTodo]"
  using ex_run_value by (simp_all add: case_prod_beta)

lemma ex_fresh: "fresh_todo (tp_start fail part spill)" "qs_fail (tp_start fail part spill) = fail"
  by (simp_all add: fresh_todo_def tp_start_def)

lemma envelope_removed_when_moved_witness:
  "handed_over ref_libq ex_todo (records_of (env_records ref_libq ex_qq ''s'' [''b@x.v'', ''c@r''])) ex_moved"
  using envelope_removed_when_moved [OF ref.libqmail_axioms ex_fresh(1), of ex_todo 77 5
      "env_records ref_libq ex_qq ''s'' [''b@x.v'', ''c@r'']" "Some (CHR ''+'')" "\<lambda>_. False" "\<lambda>_. 0" "\<lambda>_. 1000" "fst ex_run" "snd ex_run"]
    ex_run_trace
  by (simp add: ex_run_def)

text \<open>What \<^verbatim>\<open>qmail-queue\<close> has written when it ends with success.\<close>

lemma queued_envelope:
  assumes "qc_quarantine q = []" "good_addr sender" "\<forall>r \<in> set rcpts. good_addr r" "c \<in> {NUL, CHR ''Q''}"
    "w = qmail_queue L q body (env_stream sender rcpts c rest) (qq_start fail part spill alarm)" "qs_exit w = Some 0"
  shows "content QIntd (qs_trace w) = env_records L q sender rcpts"
proof -
  obtain pre post where tr: "qs_trace w = pre @ QLink QIntd QTodo # post" "closing post"
      "stored L q body (env_stream sender rcpts c rest) pre"
    using link_complete [OF assms(1,5)] assms(6) by blast
  have "content QIntd (qs_trace w) = content QIntd pre"
    using tr(2) by (auto simp: tr(1) closing_def content_def)
  moreover obtain s rs c' x where "env_stream sender rcpts c rest = env_stream s rs c' x" "c' \<in> {NUL, CHR ''Q''}" "good_addr s"
      "\<forall>r \<in> set rs. good_addr r" "content QIntd pre = env_records L q s rs"
    using tr(3) unfolding stored_def by blast
  moreover from this have "sender = s \<and> rcpts = rs"
    using env_stream_inj [of sender rcpts c rest s rs c' x] assms(2-4) by auto
  ultimately show ?thesis by simp
qed

text \<open>
  C11. From the pipe to the schedule: when \<^verbatim>\<open>qmail-queue\<close>, given a sender and recipients on its pipe, ends with success, the
  envelope file it wrote is understood by \<^verbatim>\<open>todo-proc\<close>, which moves sender and extra header to \<^verbatim>\<open>info/id\<close> and every recipient,
  rewritten, to the list of its channel; the bytes it then sends make \<^verbatim>\<open>qmail-send\<close> put the message into the queue of
  exactly the channels that have recipients, or into the queue of finished messages when there are none. No quarantine address is
  configured (\<open>quarantined_mail_is_stuck\<close> shows what happens with one), no call of \<^verbatim>\<open>todo-proc\<close> fails, it is attached to
  \<^verbatim>\<open>qmail-send\<close>, \<^verbatim>\<open>qmail-clean\<close> answers \<open>+\<close>, and \<^verbatim>\<open>qmail-send\<close> is not about to exit.
\<close>

theorem queued_mail_is_scheduled:
  assumes "libqmail L" "qq_ok q" "good_addr sender" "\<forall>r \<in> set rcpts. good_addr r" "c \<in> {NUL, CHR ''Q''}" "qc_quarantine q = []"
    and "w = qmail_queue L q body (env_stream sender rcpts c rest) (qq_start fail part spill alarm)" "qs_exit w = Some 0"
    and "fresh_todo t" "\<forall>n. \<not> qs_fail t n" "\<not> tc_detached cf"
    and "todo_proc_do L cf i sz (content QIntd (qs_trace w)) (Some (CHR ''+'')) t = (ok, r)"
    and "todoline s = []" "\<not> flagexitsend s" "flagtodoalive s" "i < 10 ^ 20"
  shows "ok \<and> (\<exists>pre. qs_trace r = pre @ [QAsk QTodo] \<and>
       content QInfo pre = ''F'' @ sender @ [NUL] @ qqeh_record q \<and>
       (\<forall>c < 2. present (QChan c) pre \<longrightarrow> content (QChan c) pre =
          concat (map (\<lambda>a. snd (rewrite L (tc_routes cf) a)) (filter (\<lambda>a. chan_of L (tc_routes cf) a = c) (qc_extraqueue q @ rcpts))))) \<and>
    scheduled i (\<exists>a \<in> set (qc_extraqueue q @ rcpts). chan_of L (tc_routes cf) a = 0)
      (\<exists>a \<in> set (qc_extraqueue q @ rcpts). chan_of L (tc_routes cf) a = 1) s (todo_do L (Some (Some (tp_comm r))) s)"
proof -
  let ?ls = "records_of (env_records L q sender rcpts)"
  let ?some = "\<lambda>c. \<exists>a \<in> set (qc_extraqueue q @ rcpts). chan_of L (tc_routes cf) a = c"
  have run: "todo_proc_do L cf i sz (env_records L q sender rcpts) (Some (CHR ''+'')) t = (ok, r)"
    using assms(12) unfolding queued_envelope [OF assms(6,3-5,7,8)] .
  note e = todo_proc_effect [OF assms(1,9) run] and p = envelope_parts [OF assms(1-4)]
  have ok: "ok" using e(4) [OF p(1) assms(10)] by simp
  obtain pre post where tr: "qs_trace r = pre @ QAsk QTodo # post" using e(1) ok by (metis split_list)
  have h: "post = []" "handed_over L cf ?ls pre" using e(2) [OF tr] by simp_all
  obtain cm where cm: "only_info cm" "tp_comm r = cm @ announcement L cf i ?ls" using e(3) ok by (auto simp: told_def)
  have c: "chan_part L (tc_routes cf) c ?ls \<noteq> [] \<longleftrightarrow> ?some c" for c
    unfolding p(3) chan_part_empty by blast
  have a: "announcement L cf i ?ls = ''D'' @ [todo_letter (?some 0) (?some 1)] @ lq_fmt_ulong L i @ [NUL]"
    using assms(11) unfolding announcement_def c by simp
  have "scheduled i (?some 0) (?some 1) s (todo_do L (Some (Some (tp_comm r))) s)"
    unfolding cm(2) a by (rule announcement_read [OF assms(1) cm(1) assms(13-16)])
  then show ?thesis using ok tr h unfolding handed_over_def p(2,3) by blast
qed

definition ex_queued :: qqs where
  "ex_queued = qmail_queue ref_libq ex_qq [Some ''hi''] (env_stream ''s'' [''b@x.v'', ''c@r''] NUL [])
     (qq_start (\<lambda>_. False) (\<lambda>_. 0) (\<lambda>_. 100) None)"

lemma ex_queued_value: "qs_exit ex_queued = Some 0" "content QIntd (qs_trace ex_queued) = env_records ref_libq ex_qq ''s'' [''b@x.v'', ''c@r'']"
  by code_simp+

lemma queued_mail_is_scheduled_witness:
  "scheduled 77 True True ex_s0 (todo_do ref_libq (Some (Some (tp_comm (snd ex_run)))) ex_s0)"
proof -
  have c: "chan_of ref_libq (tc_routes ex_todo) ''b@x.v'' = 0" "chan_of ref_libq (tc_routes ex_todo) ''c@r'' = 1"
    by code_simp+
  have s: "todoline ex_s0 = []" "\<not> flagexitsend ex_s0" "flagtodoalive ex_s0"
    by (simp_all add: ex_s0_def ex_init_def)
  have g: "qq_ok ex_qq" "good_addr ''s''" "\<forall>r \<in> set [''b@x.v'', ''c@r'']. good_addr r" "qc_quarantine ex_qq = []" "qc_extraqueue ex_qq = []"
    by (simp_all add: qq_ok_def ex_qq_def good_addr_def ADDR_def)
  have d: "\<not> tc_detached ex_todo" by (simp add: ex_todo_def)
  have run: "todo_proc_do ref_libq ex_todo 77 5 (content QIntd (qs_trace ex_queued)) (Some (CHR ''+''))
      (tp_start (\<lambda>_. False) (\<lambda>_. 0) (\<lambda>_. 1000)) = (fst ex_run, snd ex_run)"
    by (simp add: ex_run_def ex_queued_value)
  show ?thesis
    using queued_mail_is_scheduled [OF ref.libqmail_axioms g(1-3) _ g(4) ex_queued_def ex_queued_value(1) ex_fresh(1) _ d run s] c g(5)
    by (simp add: ex_fresh)
qed

section \<open>Where the code departs from its intention\<close>

text \<open>
  \<^verbatim>\<open>control_readfile\<close> ends each line with a NUL. \<^verbatim>\<open>qmail-queue\<close> copies the contents of \<^verbatim>\<open>control/quarantine\<close> with this NUL
  and adds its own, so that the envelope has an empty record, which \<^verbatim>\<open>todo-proc\<close> does not know: it fails on the
  message in every run.
\<close>

definition ex_quarantined :: bytes where
  "ex_quarantined = content QIntd (qs_trace (qmail_queue ref_libq (ex_qq\<lparr>qc_quarantine := ''q'' @ [NUL]\<rparr>) [Some ''hi'']
     (env_stream ''a'' [''b''] NUL []) (qq_start (\<lambda>_. False) (\<lambda>_. 0) (\<lambda>_. 100) None)))"

lemma ex_quarantined_value: "ex_quarantined = ''u7'' @ [NUL] @ ''p42'' @ [NUL] @ ''Fa'' @ [NUL] @ ''Tq'' @ [NUL, NUL]
    @ ''eX-Quarantine-ID: q'' @ [NUL] @ '',b'' @ [LF, NUL]"
  by code_simp

lemma quarantined_mail_is_stuck:
  assumes "libqmail L" "fresh_todo s"
  shows "\<not> fst (todo_proc_do L cf i sz ex_quarantined ans s)"
proof
  obtain ok r where t: "todo_proc_do L cf i sz ex_quarantined ans s = (ok, r)" by (metis surj_pair)
  assume "fst (todo_proc_do L cf i sz ex_quarantined ans s)"
  then have "QAsk QTodo \<in> set (qs_trace r)" using todo_proc_effect(1) [OF assms t] t by simp
  then obtain pre post where "qs_trace r = pre @ QAsk QTodo # post" by (metis split_list)
  then have k: "list_all known (records_of ex_quarantined)"
    using todo_proc_effect(2) [OF assms t] by (simp add: handed_over_def)
  have "records_of (''u7'' @ NUL # ''p42'' @ NUL # ''Fa'' @ NUL # ''Tq'' @ NUL # [] @ NUL # d) =
      [''u7'', ''p42'', ''Fa'', ''Tq'', []] @ records_of d" for d
    by (simp only: records_of_append no_nul_simps simp_thms char.inject) simp
  then have "[] \<in> set (records_of ex_quarantined)" by (simp add: ex_quarantined_value)
  then show False using k by (auto simp: list_all_iff known_def)
qed

end
