(* ===== verification/Ip4.thy ===== *)
theory Ip4
  imports LibQmail
begin

text \<open>
  IPv4 addresses as text: \<^verbatim>\<open>ip4_fmt\<close>, \<^verbatim>\<open>ip4_scan\<close> and \<^verbatim>\<open>ip4_scanbracket\<close> of \<^verbatim>\<open>indimail-mta-x/ip.c\<close>.
  A pointer into a C string is the list of the bytes up to its NUL; a scanner returns the number of bytes
  it read, 0 for failure.
\<close>

type_synonym ip4 = "nat list"     \<comment> \<open>the four bytes \<^verbatim>\<open>d[]\<close>\<close>

definition ip4_ok :: "ip4 \<Rightarrow> bool" where
  "ip4_ok ip \<longleftrightarrow> length ip = 4 \<and> (\<forall>d \<in> set ip. d \<le> 255)"

definition ip4_fmt :: "libq \<Rightarrow> ip4 \<Rightarrow> bytes" where
  "ip4_fmt L ip =
     lq_fmt_ulong L (ip ! 0) @ ''.'' @ lq_fmt_ulong L (ip ! 1) @ ''.'' @
     lq_fmt_ulong L (ip ! 2) @ ''.'' @ lq_fmt_ulong L (ip ! 3)"

text \<open>One number: \<^verbatim>\<open>if (!(i = scan_ulong(s, &u))) return 0; if (u > 255) return 0;\<close> and the rest of the string.\<close>

definition scan_octet :: "libq \<Rightarrow> bytes \<Rightarrow> (nat \<times> nat \<times> bytes) option" where
  "scan_octet L s =
     (let (i, u) = lq_scan_ulong L s
      in if i = 0 \<or> u > 255 then None else Some (i, u, drop i s))"

definition scan_dot :: "bytes \<Rightarrow> bytes option" where
  "scan_dot s = (case s of [] \<Rightarrow> None | c # r \<Rightarrow> if c = CHR ''.'' then Some r else None)"

definition ip4_scan :: "libq \<Rightarrow> bytes \<Rightarrow> (nat \<times> ip4) option" where
  "ip4_scan L s =
     (case scan_octet L s of None \<Rightarrow> None | Some (i0, d0, s) \<Rightarrow>
      case scan_dot s of None \<Rightarrow> None | Some s \<Rightarrow>
      case scan_octet L s of None \<Rightarrow> None | Some (i1, d1, s) \<Rightarrow>
      case scan_dot s of None \<Rightarrow> None | Some s \<Rightarrow>
      case scan_octet L s of None \<Rightarrow> None | Some (i2, d2, s) \<Rightarrow>
      case scan_dot s of None \<Rightarrow> None | Some s \<Rightarrow>
      case scan_octet L s of None \<Rightarrow> None | Some (i3, d3, s) \<Rightarrow>
        Some (i0 + 1 + i1 + 1 + i2 + 1 + i3, [d0, d1, d2, d3]))"

definition ip4_scanbracket :: "libq \<Rightarrow> bytes \<Rightarrow> (nat \<times> ip4) option" where
  "ip4_scanbracket L s =
     (case s of [] \<Rightarrow> None
      | c # r \<Rightarrow>
        if c \<noteq> CHR ''['' then None
        else case ip4_scan L r of None \<Rightarrow> None
             | Some (len, ip) \<Rightarrow>
               if drop len r = [] \<or> hd (drop len r) \<noteq> CHR '']'' then None else Some (len + 2, ip))"

section \<open>Printing and reading\<close>

context libqmail
begin

lemma scan_octet_fmt:
  "n \<le> 255 \<Longrightarrow> t = [] \<or> \<not> is_digit (hd t) \<Longrightarrow>
   scan_octet L (lq_fmt_ulong L n @ t) = Some (length (lq_fmt_ulong L n), n, t)"
  using scan_fmt [of t n] fmt_ulong_digits [of n] by (simp add: scan_octet_def)

lemma fmt_octet_len: "n \<le> 255 \<Longrightarrow> length (lq_fmt_ulong L n) \<le> 3"
  using fmt_ulong_len [of n 3] by simp

lemma ip4_scan_fmt:
  assumes "ip4_ok ip" "t = [] \<or> \<not> is_digit (hd t)"
  shows "ip4_scan L (ip4_fmt L ip @ t) = Some (length (ip4_fmt L ip), ip)"
proof -
  obtain a b c d where ip: "ip = [a, b, c, d]" "a \<le> 255" "b \<le> 255" "c \<le> 255" "d \<le> 255"
    using assms(1) by (auto simp: ip4_ok_def numeral_eq_Suc length_Suc_conv)
  have dot: "\<not> is_digit (CHR ''.'')" by (simp add: is_digit_def)
  show ?thesis
    using ip dot assms(2) by (simp add: ip4_scan_def ip4_fmt_def scan_octet_fmt scan_dot_def)
qed

lemma ip4_fmt_len:
  assumes "ip4_ok ip"
  shows "length (ip4_fmt L ip) \<le> 15"
proof -
  obtain a b c d where ip: "ip = [a, b, c, d]" "a \<le> 255" "b \<le> 255" "c \<le> 255" "d \<le> 255"
    using assms by (auto simp: ip4_ok_def numeral_eq_Suc length_Suc_conv)
  then show ?thesis
    using fmt_octet_len [of a] fmt_octet_len [of b] fmt_octet_len [of c] fmt_octet_len [of d]
    by (simp add: ip4_fmt_def)
qed

lemma ip4_scanbracket_fmt:
  assumes "ip4_ok ip"
  shows "ip4_scanbracket L (''['' @ ip4_fmt L ip @ '']'' @ t) = Some (length (ip4_fmt L ip) + 2, ip)"
  using ip4_scan_fmt [OF assms, of "'']'' @ t"] by (simp add: ip4_scanbracket_def is_digit_def)

end

lemma scan_octet_bound: "scan_octet L s = Some (i, d, r) \<Longrightarrow> d \<le> 255"
  by (auto simp: scan_octet_def Let_def split: prod.splits if_splits)

lemma ip4_scan_ok: "ip4_scan L s = Some (n, ip) \<Longrightarrow> ip4_ok ip"
  by (auto simp: ip4_scan_def ip4_ok_def split: option.splits dest!: scan_octet_bound)

end
