(* ===== verification/Address.thy ===== *)
theory Address
  imports Ip4
begin

text \<open>
  Mail addresses on the wire: the quoting of \<^verbatim>\<open>indimail-mta-x/quote.c\<close> (used by \<^verbatim>\<open>qmail-remote\<close>,
  \<^verbatim>\<open>qmail-send\<close>, \<^verbatim>\<open>qmail-inject\<close>) and the parsing of the argument of MAIL and RCPT by \<^verbatim>\<open>addrparse\<close> of
  \<^verbatim>\<open>smtpd.c\<close>. The compile-time option \<^verbatim>\<open>STRIPSINGLEQUOTES\<close> is off. The environment has the
  memory that \<^verbatim>\<open>stralloc\<close> asks for; \<^verbatim>\<open>unsigned int\<close> has 32 bits.
\<close>

section \<open>Quoting\<close>

text \<open>The table \<^verbatim>\<open>ok\<close> of the bytes below 128.\<close>

definition ok_table :: "nat list" where
  "ok_table =
    [0, 0, 0, 0, 0, 0, 0, 0, 0, 0, 0, 0, 0, 0, 0, 0,
     0, 0, 0, 0, 0, 0, 0, 0, 0, 0, 0, 0, 0, 0, 0, 0,
     0, 7, 0, 7, 7, 7, 7, 7, 0, 0, 7, 7, 0, 7, 7, 7,
     7, 7, 7, 7, 7, 7, 7, 7, 7, 7, 0, 0, 0, 7, 0, 7,
     0, 7, 7, 7, 7, 7, 7, 7, 7, 7, 7, 7, 7, 7, 7, 7,
     7, 7, 7, 7, 7, 7, 7, 7, 7, 7, 7, 0, 0, 0, 7, 7,
     7, 7, 7, 7, 7, 7, 7, 7, 7, 7, 7, 7, 7, 7, 7, 7,
     7, 7, 7, 7, 7, 7, 7, 7, 7, 7, 7, 7, 7, 7, 7, 0]"

text \<open>The loop of \<^verbatim>\<open>doit\<close>: what is written for one byte.\<close>

definition quote_byte :: "char \<Rightarrow> bytes" where
  "quote_byte ch = (if ch = CHR 0x0D \<or> ch = LF \<or> ch = CHR 0x22 \<or> ch = CHR 0x5C then [CHR 0x5C, ch] else [ch])"

text \<open>\<^verbatim>\<open>doit\<close>: fails when \<open>2 * len + 2\<close> does not fit an \<^verbatim>\<open>unsigned int\<close>.\<close>

definition doit :: "bytes \<Rightarrow> bytes option" where
  "doit sain =
     (if 2 * length sain \<ge> 2 ^ 32 \<or> 2 * length sain + 2 \<ge> 2 ^ 32 then None
      else Some (CHR 0x22 # concat (map quote_byte sain) @ [CHR 0x22]))"

definition quote_need :: "bytes \<Rightarrow> bool" where
  "quote_need s =
     (if s = [] then True
      else if \<exists>c \<in> set s. (of_char c :: nat) \<ge> 128 \<or> ok_table ! of_char c = 0 then True
      else if hd s = CHR ''.'' then True
      else if last s = CHR ''.'' then True
      else \<exists>i \<in> {0..<length s - 1}. s ! i = CHR ''.'' \<and> s ! (i + 1) = CHR ''.'')"

definition quote :: "bytes \<Rightarrow> bytes option" where
  "quote sain = (if quote_need sain then doit sain else Some sain)"

definition quote2 :: "libq \<Rightarrow> bytes \<Rightarrow> bytes option" where
  "quote2 L s =
     (if s = [] then Some s
      else
        let j = lq_rchr L s (CHR ''@'')
        in if j = length s then quote s
           else map_option (\<lambda>q. q @ drop j s) (quote (take j s)))"

text \<open>
  \<^verbatim>\<open>addrmangle\<close> of \<^verbatim>\<open>qmail-remote.c\<close>: the address with its box quoted and its host made canonical; \<open>cname\<close> is
  \<^verbatim>\<open>dns_cname\<close>, which may replace the host or fail temporarily.
\<close>

datatype cname = CnameIs bytes | CnameSame bytes | CnameHard bytes | CnameMem | CnameSoft

datatype mangled = Mangled bytes bool | TempNomem | TempDnscanon

definition addrmangle :: "libq \<Rightarrow> (bytes \<Rightarrow> cname) \<Rightarrow> bytes \<Rightarrow> bool \<Rightarrow> bool \<Rightarrow> mangled" where
  "addrmangle L cname sender flagcname flagquote =
     (let j = lq_rchr L sender (CHR ''@'')
      in if j = length sender then
           (case (if flagquote then quote2 L sender else Some sender) of
              None \<Rightarrow> TempNomem | Some sa \<Rightarrow> Mangled sa flagcname)
         else
           case (if flagquote then quote (take j sender) else Some (take j sender)) of
             None \<Rightarrow> TempNomem
           | Some box \<Rightarrow>
             (let host = drop (j + 1) sender
              in if \<not> flagcname then Mangled (box @ ''@'' @ host) flagcname
                 else case cname host of
                        CnameSame h \<Rightarrow> Mangled (box @ ''@'' @ h) False
                      | CnameIs h \<Rightarrow> Mangled (box @ ''@'' @ h) flagcname
                      | CnameHard h \<Rightarrow> Mangled (box @ ''@'' @ h) flagcname
                      | CnameMem \<Rightarrow> TempNomem
                      | CnameSoft \<Rightarrow> TempDnscanon))"

section \<open>Parsing\<close>

text \<open>The part of the argument that holds the address, and its terminator.\<close>

definition addr_start :: "libq \<Rightarrow> bytes \<Rightarrow> (bytes \<times> char) option" where
  "addr_start L arg =
     (let i = lq_chr L arg (CHR ''<'')
      in if i < length arg then Some (drop (i + 1) arg, CHR ''>'')
         else
           let a = drop (lq_chr L arg (CHR '':'')) arg;
               a = (if a \<noteq> [] \<and> hd a = CHR '':'' then tl a else a)
           in if a = [] then None else Some (dropWhile (\<lambda>c. c = CHR '' '') a, CHR '' ''))"

text \<open>The source route \<^verbatim>\<open>@a,@b:\<close>.\<close>

definition skip_route :: "bytes \<Rightarrow> bytes" where
  "skip_route arg =
     (if arg \<noteq> [] \<and> hd arg = CHR ''@'' then tl (dropWhile (\<lambda>c. c \<noteq> CHR '':'') arg) else arg)"

text \<open>The loop that copies the address, stripping quotes.\<close>

fun addr_copy :: "char \<Rightarrow> bool \<Rightarrow> bool \<Rightarrow> bytes \<Rightarrow> bytes" where
  "addr_copy terminator flagesc flagquoted [] = []"
| "addr_copy terminator flagesc flagquoted (ch # arg) =
     (if flagesc then ch # addr_copy terminator False flagquoted arg
      else if \<not> flagquoted \<and> ch = terminator then []
      else if ch = CHR 0x5C then addr_copy terminator True flagquoted arg
      else if ch = CHR 0x22 then addr_copy terminator False (\<not> flagquoted) arg
      else ch # addr_copy terminator False flagquoted arg)"

text \<open>
  The whole: \<open>liphost\<close> is the name of \<^verbatim>\<open>control/localiphost\<close>, if any, and \<open>ipme\<close> tells the addresses of
  this host. The result is the answer and \<^verbatim>\<open>addr\<close> without its final NUL, \<open>None\<close> when it was not touched.
\<close>

definition local_ip :: "libq \<Rightarrow> bytes option \<Rightarrow> (ip4 \<Rightarrow> bool) \<Rightarrow> bytes \<Rightarrow> bytes" where
  "local_ip L liphost ipme addr =
     (case liphost of None \<Rightarrow> addr
      | Some lip \<Rightarrow>
        let i = lq_rchr L (addr @ [NUL]) (CHR ''@'')
        in if i < length (addr @ [NUL]) \<and> (addr @ [NUL]) ! (i + 1) = CHR ''['' then
             (case ip4_scanbracket L (drop (i + 1) addr) of
                Some (len, ip) \<Rightarrow>
                  if drop (i + 1 + len) addr = [] \<and> ipme ip then take (i + 1) addr @ lip else addr
              | None \<Rightarrow> addr)
           else addr)"

definition addrparse :: "libq \<Rightarrow> bytes option \<Rightarrow> (ip4 \<Rightarrow> bool) \<Rightarrow> bytes \<Rightarrow> bool \<times> bytes option" where
  "addrparse L liphost ipme arg =
     (case addr_start L arg of None \<Rightarrow> (False, None)
      | Some (a, terminator) \<Rightarrow>
        let addr = local_ip L liphost ipme (addr_copy terminator False False (skip_route a))
        in (length addr + 1 \<le> 900, Some addr))"

end
