(* ===== verification/AddressFacts.thy ===== *)
theory AddressFacts
  imports Address
begin

text \<open>
  Quoting and parsing of addresses undo each other; the test \<^verbatim>\<open>quote_need\<close> is the grammar of RFC 821;
  properties of the IPv4 text format.
\<close>

section \<open>Copying undoes quoting\<close>

lemma copy_quoted:
  "addr_copy t False True (concat (map quote_byte s) @ CHR 0x22 # r) = s @ addr_copy t False False r"
  by (induction s) (auto simp: quote_byte_def)

lemma copy_doit: "doit s = Some q \<Longrightarrow> t \<noteq> CHR 0x22 \<Longrightarrow> addr_copy t False False (q @ r) = s @ addr_copy t False False r"
  using copy_quoted [of t s r] by (auto simp: doit_def split: if_splits)

definition plain :: "char \<Rightarrow> bytes \<Rightarrow> bool" where
  "plain t s \<longleftrightarrow> (\<forall>c \<in> set s. c \<noteq> t \<and> c \<noteq> CHR 0x22 \<and> c \<noteq> CHR 0x5C)"

lemma copy_plain: "plain t s \<Longrightarrow> addr_copy t False False (s @ r) = s @ addr_copy t False False r"
  by (induction s) (auto simp: plain_def)

definition ok_byte :: "char \<Rightarrow> bool" where
  "ok_byte c \<longleftrightarrow> (of_char c :: nat) < 128 \<and> ok_table ! of_char c \<noteq> 0"

lemma ok_byte_not:
  "ok_byte c \<Longrightarrow> c \<noteq> CHR ''>'' \<and> c \<noteq> CHR 0x22 \<and> c \<noteq> CHR 0x5C \<and> c \<noteq> CHR ''@''"
  by (auto simp: ok_byte_def ok_table_def)

lemma quote_need_ok: "\<not> quote_need s \<Longrightarrow> s \<noteq> [] \<and> (\<forall>c \<in> set s. ok_byte c)"
  by (auto simp: quote_need_def ok_byte_def not_le split: if_splits)

lemma copy_quote: "quote s = Some q \<Longrightarrow> addr_copy (CHR ''>'') False False (q @ r) = s @ addr_copy (CHR ''>'') False False r"
  using copy_doit [of s q "CHR ''>''" r] copy_plain [of "CHR ''>''" s r] quote_need_ok [of s] ok_byte_not
  by (auto simp: quote_def plain_def split: if_splits)

lemma quote_hd: "quote s = Some q \<Longrightarrow> q \<noteq> [] \<and> hd q \<noteq> CHR ''@''"
proof (cases "quote_need s")
  case True
  then show "quote s = Some q \<Longrightarrow> q \<noteq> [] \<and> hd q \<noteq> CHR ''@''" by (auto simp: quote_def doit_def split: if_splits)
next
  case False
  then have "s \<noteq> []" "ok_byte (hd s)" using quote_need_ok by auto
  then show "quote s = Some q \<Longrightarrow> q \<noteq> [] \<and> hd q \<noteq> CHR ''@''" using False ok_byte_not by (auto simp: quote_def)
qed

lemma quote_some: "length s < 2 ^ 31 - 1 \<Longrightarrow> \<exists>q. quote s = Some q"
  by (auto simp: quote_def doit_def)

lemma skip_route_none: "a = [] \<or> hd a \<noteq> CHR ''@'' \<Longrightarrow> skip_route a = a"
  by (auto simp: skip_route_def)

lemma quote2_copy:
  assumes "libqmail L" "quote2 L s = Some q" "plain (CHR ''>'') (drop (lq_rchr L s (CHR ''@'')) s)"
  shows "addr_copy (CHR ''>'') False False (skip_route (q @ CHR ''>'' # rest)) = s"
proof (cases "s = []")
  case True
  then show ?thesis using assms(2) by (simp add: quote2_def skip_route_def)
next
  case False
  let ?j = "lq_rchr L s (CHR ''@'')"
  show ?thesis
  proof (cases "?j = length s")
    case True
    then have q: "quote s = Some q" using False assms(2) by (simp add: quote2_def)
    then show ?thesis using quote_hd [OF q] copy_quote [OF q] by (simp add: skip_route_none)
  next
    case at: False
    then obtain b where b: "quote (take ?j s) = Some b" "q = b @ drop ?j s"
      using False assms(2) by (auto simp: quote2_def Let_def)
    then have "skip_route (q @ CHR ''>'' # rest) = b @ drop ?j s @ CHR ''>'' # rest"
      using quote_hd [OF b(1)] by (simp add: skip_route_none)
    then show ?thesis using copy_quote [OF b(1)] copy_plain [OF assms(3)] by simp
  qed
qed

lemma addr_start_angle:
  "libqmail L \<Longrightarrow> CHR ''<'' \<notin> set pre \<Longrightarrow> addr_start L (pre @ CHR ''<'' # a) = Some (a, CHR ''>'')"
  by (simp add: addr_start_def libqmail.chr_some)

section \<open>When quoting is needed\<close>

text \<open>The dot-string of RFC 821: atoms of ordinary characters, joined by single dots.\<close>

definition atom_char :: "char \<Rightarrow> bool" where
  "atom_char c \<longleftrightarrow> ok_byte c \<and> c \<noteq> CHR ''.''"

definition atom :: "bytes \<Rightarrow> bool" where
  "atom a \<longleftrightarrow> a \<noteq> [] \<and> (\<forall>c \<in> set a. atom_char c)"

fun join_dots :: "bytes list \<Rightarrow> bytes" where
  "join_dots [] = []"
| "join_dots [a] = a"
| "join_dots (a # as) = a @ CHR ''.'' # join_dots as"

lemma join_dots_Cons: "as \<noteq> [] \<Longrightarrow> join_dots (a # as) = a @ CHR ''.'' # join_dots as"
  by (cases as) auto

text \<open>The test, byte by byte: \<open>prev\<close> says that the previous byte is not part of an atom.\<close>

fun dot_scan :: "bool \<Rightarrow> bytes \<Rightarrow> bool" where
  "dot_scan prev [] = (\<not> prev)"
| "dot_scan prev (c # s) = (if c = CHR ''.'' then \<not> prev \<and> dot_scan True s else ok_byte c \<and> dot_scan False s)"

lemma ok_dot: "ok_byte (CHR ''.'')"
  by (simp add: ok_byte_def ok_table_def)

definition dots_apart :: "bytes \<Rightarrow> bool" where
  "dots_apart s \<longleftrightarrow> (\<forall>i. i + 1 < length s \<longrightarrow> \<not> (s ! i = CHR ''.'' \<and> s ! (i + 1) = CHR ''.''))"

lemma dots_apart_simps [simp]:
  "dots_apart []" "dots_apart [c]"
  "dots_apart (c # d # s) \<longleftrightarrow> \<not> (c = CHR ''.'' \<and> d = CHR ''.'') \<and> dots_apart (d # s)"
  by (auto simp: dots_apart_def nth_Cons split: nat.splits)

lemma dot_scan_iff:
  "dot_scan prev s \<longleftrightarrow>
     (if s = [] then \<not> prev
      else (\<forall>c \<in> set s. ok_byte c) \<and> (prev \<longrightarrow> hd s \<noteq> CHR ''.'') \<and> last s \<noteq> CHR ''.'' \<and> dots_apart s)"
proof (induction s arbitrary: prev)
  case (Cons c s)
  then show ?case using ok_dot by (cases s) auto
qed simp

lemma quote_need_scan: "\<not> quote_need s \<longleftrightarrow> dot_scan True s"
proof -
  have neg: "of_char c \<ge> (128 :: nat) \<or> ok_table ! of_char c = 0 \<longleftrightarrow> \<not> ok_byte c" for c
    by (auto simp: ok_byte_def)
  have "(\<exists>i \<in> {0..<length s - 1}. s ! i = CHR ''.'' \<and> s ! (i + 1) = CHR ''.'') \<longleftrightarrow> \<not> dots_apart s"
    by (simp add: dots_apart_def Bex_def less_diff_conv)
  then show ?thesis by (simp add: quote_need_def dot_scan_iff neg)
qed

lemma dot_scan_atom: "\<forall>c \<in> set a. atom_char c \<Longrightarrow> dot_scan prev (a @ s) = dot_scan (prev \<and> a = []) s"
  by (induction a arbitrary: prev) (auto simp: atom_char_def)

lemma dot_scan_join: "as \<noteq> [] \<Longrightarrow> \<forall>a \<in> set as. atom a \<Longrightarrow> dot_scan True (join_dots as)"
proof (induction as)
  case (Cons a as)
  have a: "a \<noteq> []" "\<forall>c \<in> set a. atom_char c" using Cons.prems by (auto simp: atom_def)
  show ?case
  proof (cases "as = []")
    case True
    then show ?thesis using a dot_scan_atom [of a True "[]"] by simp
  next
    case False
    then show ?thesis using a Cons dot_scan_atom [of a True "CHR ''.'' # join_dots as"]
      by (simp add: join_dots_Cons)
  qed
qed simp

lemma dot_scan_split:
  "dot_scan False s \<Longrightarrow> \<exists>a as. (\<forall>c \<in> set a. atom_char c) \<and> (\<forall>b \<in> set as. atom b) \<and> s = join_dots (a # as)"
  "dot_scan True s \<Longrightarrow> \<exists>as. as \<noteq> [] \<and> (\<forall>b \<in> set as. atom b) \<and> s = join_dots as"
proof (induction s)
  case Nil
  {
    case 1
    show ?case by (intro exI [of _ "[]"]) simp
  next
    case 2
    then show ?case by simp
  }
next
  case (Cons c s)
  {
    case 1
    show ?case
    proof (cases "c = CHR ''.''")
      case True
      then obtain as where "as \<noteq> []" "\<forall>b \<in> set as. atom b" "s = join_dots as" using 1 Cons by auto
      then show ?thesis using True by (intro exI [of _ "[]"] exI [of _ as]) (simp add: join_dots_Cons)
    next
      case False
      then obtain a as where "\<forall>c \<in> set a. atom_char c" "\<forall>b \<in> set as. atom b" "s = join_dots (a # as)"
        using 1 Cons by auto
      then show ?thesis using False 1
        by (intro exI [of _ "c # a"] exI [of _ as]) (cases as; auto simp: atom_char_def)
    qed
  next
    case 2
    then have c: "c \<noteq> CHR ''.''" "ok_byte c" "dot_scan False s" by (auto split: if_splits)
    then obtain a as where "\<forall>c \<in> set a. atom_char c" "\<forall>b \<in> set as. atom b" "s = join_dots (a # as)"
      using Cons by auto
    then show ?case using c
      by (intro exI [of _ "(c # a) # as"]) (cases as; auto simp: atom_char_def atom_def)
  }
qed

lemma quote_need_dot_string:
  "\<not> quote_need s \<longleftrightarrow> (\<exists>as. as \<noteq> [] \<and> (\<forall>a \<in> set as. atom a) \<and> s = join_dots as)"
  unfolding quote_need_scan using dot_scan_join dot_scan_split(2) by blast

section \<open>Properties\<close>

text \<open>The replacement of an address literal of this host, the only change \<^verbatim>\<open>addrparse\<close> makes to an address.\<close>

lemma local_ip_cases:
  assumes "libqmail L"
  shows "local_ip L liphost ipme s = s \<or>
    (\<exists>u lit len ip lip. s = u @ CHR ''@'' # lit \<and> CHR ''@'' \<notin> set lit \<and> lit \<noteq> [] \<and> hd lit = CHR ''['' \<and>
       ip4_scanbracket L lit = Some (len, ip) \<and> length lit \<le> len \<and> ipme ip \<and> liphost = Some lip \<and>
       local_ip L liphost ipme s = u @ CHR ''@'' # lip)"
proof (cases "CHR ''@'' \<in> set s")
  case False
  then have "lq_rchr L (s @ [NUL]) (CHR ''@'') = length (s @ [NUL])" by (intro libqmail.rchr_none [OF assms]) simp
  then show ?thesis by (simp add: local_ip_def split: option.split)
next
  case True
  then obtain u lit where s: "s = u @ CHR ''@'' # lit" "CHR ''@'' \<notin> set lit" using split_list_last by metis
  have r: "lq_rchr L (s @ [NUL]) (CHR ''@'') = length u"
    using libqmail.rchr_some [OF assms, of "CHR ''@''" "lit @ [NUL]" u] s by simp
  have n: "(s @ [NUL]) ! (length u + 1) = (if lit = [] then NUL else hd lit)"
    using s(1) by (cases lit) (simp_all add: nth_append)
  show ?thesis
  proof (cases "\<exists>lip len ip. liphost = Some lip \<and> lit \<noteq> [] \<and> hd lit = CHR ''['' \<and> ip4_scanbracket L lit = Some (len, ip) \<and>
      length lit \<le> len \<and> ipme ip")
    case True
    then obtain lip len ip where l: "liphost = Some lip" "lit \<noteq> []" "hd lit = CHR ''[''" "ip4_scanbracket L lit = Some (len, ip)"
      "length lit \<le> len" "ipme ip" by blast
    then have "local_ip L liphost ipme s = u @ CHR ''@'' # lip" using r n s(1) by (simp add: local_ip_def)
    then show ?thesis using l s by blast
  next
    case False
    then have "local_ip L liphost ipme s = s" using r n s(1)
      by (auto simp: local_ip_def Let_def split: option.split)
    then show ?thesis by simp
  qed
qed

text \<open>
  C35. An address survives the wire: what \<^verbatim>\<open>quote2\<close> makes of it, put between angle brackets in a MAIL or RCPT
  command with anything after it, is parsed by \<^verbatim>\<open>addrparse\<close> as the address, whatever bytes its local part has,
  provided its host contains no angle bracket, quote or backslash (\<^verbatim>\<open>quote2\<close> does not quote the host). The one change: a host
  that is an address literal of the receiving machine becomes the name in \<^verbatim>\<open>control/localiphost\<close> (by default \<^verbatim>\<open>control/me\<close>).
  The result is refused exactly when it is longer than 899 bytes.
\<close>

theorem address_roundtrip:
  assumes "libqmail L" "CHR ''<'' \<notin> set pre" "quote2 L s = Some q"
    and "\<forall>c \<in> set (drop (lq_rchr L s (CHR ''@'')) s). c \<noteq> CHR ''>'' \<and> c \<noteq> CHR 0x22 \<and> c \<noteq> CHR 0x5C"
  shows "\<exists>a. addrparse L liphost ipme (pre @ ''<'' @ q @ ''>'' @ rest) = (length a \<le> 899, Some a) \<and>
    (a = s \<or>
     (\<exists>u lit len ip lip. s = u @ CHR ''@'' # lit \<and> CHR ''@'' \<notin> set lit \<and> lit \<noteq> [] \<and> hd lit = CHR ''['' \<and>
        ip4_scanbracket L lit = Some (len, ip) \<and> length lit \<le> len \<and> ipme ip \<and> liphost = Some lip \<and> a = u @ CHR ''@'' # lip))"
proof -
  have "plain (CHR ''>'') (drop (lq_rchr L s (CHR ''@'')) s)" using assms(4) by (simp add: plain_def)
  then have "addrparse L liphost ipme (pre @ ''<'' @ q @ ''>'' @ rest) =
      (length (local_ip L liphost ipme s) \<le> 899, Some (local_ip L liphost ipme s))"
    using quote2_copy [OF assms(1,3)] addr_start_angle [OF assms(1,2)]
    by (auto simp: addrparse_def Let_def)
  then show ?thesis using local_ip_cases [OF assms(1), of liphost ipme s]
    by (intro exI [of _ "local_ip L liphost ipme s"] conjI)
qed

lemma address_roundtrip_witness:
  "addrparse ref_libq (Some ''me'') (\<lambda>_. True) (''TO:'' @ ''<'' @ (CHR 0x22 # ''a>b'' @ [CHR 0x22] @ ''@c'') @ ''>'' @ '' SIZE=5'')
     = (True, Some ''a>b@c'')"
proof -
  have q: "quote2 ref_libq ''a>b@c'' = Some (CHR 0x22 # ''a>b'' @ [CHR 0x22] @ ''@c'')"
    by (simp add: quote2_def quote_def quote_need_def doit_def quote_byte_def ref_libq_def ref_rchr_def ref_chr_def
        ok_table_def Let_def)
  have l: "hd lit \<noteq> CHR ''[''" if "''a>b@c'' = u @ CHR ''@'' # lit" for u lit
    using that by (auto simp: Cons_eq_append_conv)
  show ?thesis
    using address_roundtrip [OF ref.libqmail_axioms _ q, of "''TO:''" "Some ''me''" "\<lambda>_. True" "'' SIZE=5''"] l
    by (auto simp: ref_libq_def ref_rchr_def ref_chr_def)
qed

text \<open>
  Quoting is minimal: a box is written without quotes exactly when it is a dot-string, that is atoms of one or more
  ordinary characters joined by single dots.
\<close>

theorem quotes_exactly_when_needed:
  "quote s = Some s \<longleftrightarrow> (\<exists>as. as \<noteq> [] \<and> (\<forall>a \<in> set as. atom a) \<and> s = join_dots as)"
proof -
  have "doit s \<noteq> Some s"
  proof
    assume "doit s = Some s"
    then have s: "s = CHR 0x22 # concat (map quote_byte s) @ [CHR 0x22]" by (auto simp: doit_def split: if_splits)
    have "length (concat (map quote_byte s)) \<ge> length s" by (induction s) (auto simp: quote_byte_def)
    then show False using arg_cong [OF s, of length] by simp
  qed
  then show ?thesis unfolding quote_need_dot_string [symmetric] by (auto simp: quote_def)
qed

lemma quotes_exactly_when_needed_witness: "quote ''a.b'' = Some ''a.b''"
  by (subst quotes_exactly_when_needed) (intro exI [of _ "[''a'', ''b'']"], simp add: atom_def atom_char_def ok_byte_def ok_table_def)

text \<open>
  The buffer \<^verbatim>\<open>doit\<close> asks for is never exceeded and its computation never wraps: quoting needs at most
  \<open>2 * len + 2\<close> bytes, and fails when this does not fit 32 bits.
\<close>

theorem quote_buffer_bound:
  "case doit s of Some q \<Rightarrow> length q \<le> 2 * length s + 2 \<and> 2 * length s + 2 < 2 ^ 32
     | None \<Rightarrow> 2 ^ 32 \<le> 2 * length s + 2"
proof -
  have "length (concat (map quote_byte s)) \<le> 2 * length s" by (induction s) (auto simp: quote_byte_def)
  then show ?thesis by (auto simp: doit_def)
qed

end
