(* ===== verification/AccessLists.thy ===== *)
theory AccessLists
  imports LibQmail
begin

text \<open>
  The lists that decide who may send and to whom: \<^verbatim>\<open>address_match\<close> of \<^verbatim>\<open>indimail-mta-x/qregex.c\<close> with its two
  kinds of patterns, \<^verbatim>\<open>rcpthosts\<close> of \<^verbatim>\<open>rcpthosts.c\<close>, the access list of \<^verbatim>\<open>mail_acl.c\<close> and the table of
  domains and hosts of \<^verbatim>\<open>tablematch.c\<close>. The build without SQL (\<^verbatim>\<open>USE_SQL\<close> undefined); memory suffices,
  except where an answer of the library says otherwise.
\<close>

section \<open>What the lists rest on\<close>

text \<open>
  The functions outside the repository: \<^verbatim>\<open>case_lowerb\<close>, \<^verbatim>\<open>scan_int\<close>, the matchers, the files of the
  control directory and the \<^verbatim>\<open>cdb\<close> files beside them.
\<close>

datatype amres = AmNo | AmYes | AmMemory | AmFile | AmSeek | AmRegex

datatype cdbres = CdbMissing | CdbUnreadable | CdbError | CdbAbsent | CdbFound

record matchlib =
  ml_lower :: "char \<Rightarrow> char"
  ml_scan_int :: "bytes \<Rightarrow> int"
  ml_wildmat :: "bytes \<Rightarrow> bytes \<Rightarrow> bool"        \<comment> \<open>text, pattern\<close>
  ml_regex :: "bytes \<Rightarrow> bytes \<Rightarrow> int"           \<comment> \<open>\<^verbatim>\<open>matchregex\<close>: -1 for a pattern that does not compile\<close>
  ml_fnmatch :: "bytes \<Rightarrow> bytes \<Rightarrow> int"         \<comment> \<open>pattern, text; 0, \<^verbatim>\<open>FNM_NOMATCH\<close> as 1, or another\<close>
  ml_cdb :: "bytes \<Rightarrow> bytes \<Rightarrow> cdbres"          \<comment> \<open>file, key\<close>
  ml_readfile :: "bytes \<Rightarrow> bytes option option" \<comment> \<open>\<^verbatim>\<open>control_readfile\<close>: an error, no file, the lines\<close>
  ml_constmap :: "bytes \<Rightarrow> bytes \<Rightarrow> bool"      \<comment> \<open>the lines, looked up by \<^verbatim>\<open>constmap\<close>\<close>
  ml_inet :: "bytes \<Rightarrow> bool"                    \<comment> \<open>\<^verbatim>\<open>inet_addr\<close> accepts the text\<close>

type_synonym environ = "bytes \<Rightarrow> bytes option"

text \<open>The file that is open while a daemon runs and the flag \<^verbatim>\<open>ok\<close> of its reading.\<close>

type_synonym strmap = "bytes \<Rightarrow> bool"

section \<open>qregex.c and do_match.c\<close>

definition do_match :: "matchlib \<Rightarrow> environ \<Rightarrow> bool \<Rightarrow> bytes \<Rightarrow> bytes \<Rightarrow> int" where
  "do_match M env use_regex txt regex =
     (if use_regex then ml_regex M txt regex
      else case env ''USE_FNMATCH'' of
        Some _ \<Rightarrow> (let r = ml_fnmatch M regex txt in if r = 0 then 1 else if r = 1 then 0 else -1)
      | None \<Rightarrow> if ml_wildmat M txt regex then 1 else 0)"

definition cdbmatch :: "matchlib \<Rightarrow> bytes option \<Rightarrow> bytes \<Rightarrow> bool \<Rightarrow> amres" where
  "cdbmatch M fn addr maprh =
     (case fn of None \<Rightarrow> AmNo
      | Some f \<Rightarrow>
        if addr = [] \<or> hd addr = NUL then AmNo
        else (case ml_cdb M f addr of
          CdbMissing \<Rightarrow>
            (if \<not> maprh then AmNo
             else case ml_readfile M f of
               None \<Rightarrow> AmFile
             | Some None \<Rightarrow> AmNo
             | Some (Some t) \<Rightarrow> if ml_constmap M t addr then AmYes else AmNo)
        | CdbUnreadable \<Rightarrow> AmFile
        | CdbError \<Rightarrow> AmSeek
        | CdbAbsent \<Rightarrow> AmNo
        | CdbFound \<Rightarrow> AmYes))"

text \<open>
  The patterns of a control file, one after the other: \<^verbatim>\<open>k\<close> is the verdict so far. An address with its
  terminator is \<open>addr\<close>.
\<close>

function wild_loop :: "matchlib \<Rightarrow> bytes \<Rightarrow> bool \<Rightarrow> bytes \<Rightarrow> bool" where
  "wild_loop M addr k ws =
     (case read_record ws of
        None \<Rightarrow> k
      | Some (p, rest) \<Rightarrow>
          let subvalue = \<not> (p \<noteq> [] \<and> hd p = CHR ''!'');
              pat = (if subvalue then p else tl p)
          in wild_loop M addr
               (if k \<noteq> subvalue \<and> ml_wildmat M (cstr addr) pat then subvalue else k) rest)"
  by pat_completeness auto
termination
  by (relation "measure (\<lambda>(M, addr, k, ws). length ws)") (auto dest: read_record_length)

declare wild_loop.simps [simp del]

definition wildmat_match :: "libq \<Rightarrow> matchlib \<Rightarrow> char \<Rightarrow> bytes \<Rightarrow> strmap option \<Rightarrow> bytes option \<Rightarrow> amres" where
  "wildmat_match L M dotChar addr ptrmap wildcard =
     (let j = lq_rchr L addr dotChar;
          found = (case ptrmap of None \<Rightarrow> False
            | Some m \<Rightarrow> m (butlast addr) \<or> (j < length addr \<and> m (butlast (drop j addr))))
      in if found then AmYes
         else case wildcard of
           None \<Rightarrow> AmNo
         | Some ws \<Rightarrow> if wild_loop M addr False ws then AmYes else AmNo)"

function regex_loop :: "matchlib \<Rightarrow> char \<Rightarrow> bytes \<Rightarrow> bool \<Rightarrow> bytes \<Rightarrow> amres" where
  "regex_loop M dotChar addr match s =
     (if s = [] then (if match then AmYes else AmNo)
      else
        let seg = takeWhile (\<lambda>c. c \<noteq> NUL) s;
            negate = (seg \<noteq> [] \<and> hd seg = CHR ''!'');
            r = (if negate then tl seg else seg);
            curregex = (if r \<noteq> [] \<and> hd r = dotChar then ''.*'' @ r else r);
            k = ml_regex M (cstr addr) curregex
        in if k = -1 then AmRegex
           else regex_loop M dotChar addr (match \<or> (if negate then k = 0 else k \<noteq> 0)) (drop (length seg + 1) s))"
  by pat_completeness auto
termination
  by (relation "measure (\<lambda>(M, d, addr, m, s). length s)") (auto simp: Let_def)

declare regex_loop.simps [simp del]

definition regex_match :: "matchlib \<Rightarrow> char \<Rightarrow> bytes \<Rightarrow> bytes option \<Rightarrow> amres" where
  "regex_match M dotChar addr mp =
     (case mp of None \<Rightarrow> AmNo | Some s \<Rightarrow> regex_loop M dotChar addr False s)"

text \<open>The address is left in lower case.\<close>

definition address_match ::
  "libq \<Rightarrow> matchlib \<Rightarrow> environ \<Rightarrow> char \<Rightarrow> bytes option \<Rightarrow> bytes \<Rightarrow> bytes option \<Rightarrow> strmap option \<Rightarrow> bytes option
     \<Rightarrow> amres \<times> bytes" where
  "address_match L M env dotChar fn addr0 bhf mapbhf wildcard =
     (let addr = map (ml_lower M) addr0;
          x = cdbmatch M fn (butlast addr) False
      in (if x \<noteq> AmNo then x
          else if (case env ''QREGEX'' of None \<Rightarrow> False | Some v \<Rightarrow> ml_scan_int M v \<noteq> 0)
          then regex_match M dotChar addr bhf
          else wildmat_match L M dotChar addr mapbhf (case wildcard of None \<Rightarrow> bhf | Some w \<Rightarrow> Some w), addr))"

section \<open>rcpthosts.c\<close>

text \<open>
  What \<^verbatim>\<open>rcpthosts_init\<close> has left: the list (none: the file does not exist) and, where there is one,
  \<^verbatim>\<open>morercpthosts.cdb\<close>. \<^verbatim>\<open>cdb_seek\<close> answers 1, 0 or -1; it includes the second try on a file that was
  closed meanwhile.
\<close>

record rhosts =
  rh_map :: "strmap option"
  rh_more :: "(bytes \<Rightarrow> int) option"

definition label_start :: "bytes \<Rightarrow> nat \<Rightarrow> bool" where
  "label_start b j \<longleftrightarrow> j = 0 \<or> b ! j = CHR ''.''"

fun more_loop :: "(bytes \<Rightarrow> int) \<Rightarrow> bytes \<Rightarrow> nat list \<Rightarrow> int" where
  "more_loop seek b [] = 0"
| "more_loop seek b (j # js) =
     (if label_start b j \<and> seek (drop j b) \<noteq> 0 then seek (drop j b) else more_loop seek b js)"

definition rcpthosts :: "libq \<Rightarrow> matchlib \<Rightarrow> rhosts \<Rightarrow> bytes \<Rightarrow> bool \<Rightarrow> int" where
  "rcpthosts L M rh buf nolocal =
     (case rh_map rh of
        None \<Rightarrow> if nolocal then 0 else 1
      | Some maprh \<Rightarrow>
        let at = lq_rchr L buf (CHR ''@'')
        in if at \<ge> length buf \<and> \<not> nolocal then 1
           else
             let b = map (ml_lower M) (if at \<ge> length buf then buf else drop (at + 1) buf)
             in if list_ex (\<lambda>j. label_start b j \<and> maprh (drop j b)) [0..<length b] then 1
                else case rh_more rh of
                  None \<Rightarrow> 0
                | Some seek \<Rightarrow> more_loop seek b [0..<length b])"

end
