(* ===== verification/AccessRules.thy ===== *)
theory AccessRules
  imports AccessLists
begin

text \<open>
  The access list of \<^verbatim>\<open>indimail-mta-x/mail_acl.c\<close> (who may write to whom) and the table of
  \<^verbatim>\<open>tablematch.c\<close> (which domains come from which addresses). Both walk over the lines of a control file,
  each ended by a NUL, and cut a line in two by writing a NUL over its colon; the buffer is part of the state
  where the code does not put the colon back.
\<close>

section \<open>mail_acl.c\<close>

text \<open>The rule at \<open>p\<close> has its sender at \<open>p + 5\<close>, behind \<^verbatim>\<open>rcpt:\<close> or \<^verbatim>\<open>from:\<close>, up to the colon at \<open>acl_colon\<close>.\<close>

definition acl_colon :: "bytes \<Rightarrow> nat \<Rightarrow> nat" where
  "acl_colon buf p = p + 5 + length (takeWhile (\<lambda>c. c \<noteq> NUL \<and> c \<noteq> CHR '':'') (drop (p + 5) buf))"

definition str_at :: "bytes \<Rightarrow> nat \<Rightarrow> bytes" where
  "str_at buf p = cstr (drop p buf)"

definition acl_match :: "matchlib \<Rightarrow> environ \<Rightarrow> bool \<Rightarrow> bytes \<Rightarrow> bytes \<Rightarrow> int" where
  "acl_match M env qregex txt pat = (if txt = pat then 1 else do_match M env qregex txt pat)"

text \<open>The first loop. It ends the function with a value, or tells whether a rule has rejected.\<close>

function acl_rcpt :: "matchlib \<Rightarrow> environ \<Rightarrow> bool \<Rightarrow> bytes \<Rightarrow> bytes \<Rightarrow> bytes \<Rightarrow> nat \<Rightarrow> bool \<Rightarrow> (int + bool) \<times> bytes" where
  "acl_rcpt M env qregex sender recipient buf p reject =
     (if p \<ge> length buf then (Inr reject, buf)
      else
        let nextp = p + length (str_at buf p) + 1;
            c = acl_colon buf p
        in if \<not> (c < length buf \<and> buf ! c = CHR '':'')
           then acl_rcpt M env qregex sender recipient buf nextp reject
           else
             let b1 = buf[c := NUL];
                 r = acl_match M env qregex recipient (str_at b1 (c + 1))
             in if r < 0 then (Inl r, b1)
                else if r \<noteq> 1 then acl_rcpt M env qregex sender recipient buf nextp reject
                else
                  let reject' = (reject \<or> take 5 (drop p b1) = ''rcpt:'')
                  in if \<not> reject' then acl_rcpt M env qregex sender recipient buf nextp False
                     else
                       let f = acl_match M env qregex sender (str_at b1 (p + 5))
                       in if f < 0 then (Inl f, buf)
                          else if f = 1 then (Inl 0, b1)
                          else acl_rcpt M env qregex sender recipient buf nextp True)"
  by pat_completeness auto
termination
  by (relation "measure (\<lambda>(M, env, q, s, r, buf, p, rej). length buf - p)") auto

text \<open>The second loop.\<close>

function acl_from :: "matchlib \<Rightarrow> environ \<Rightarrow> bool \<Rightarrow> bytes \<Rightarrow> bytes \<Rightarrow> bytes \<Rightarrow> nat \<Rightarrow> bool \<Rightarrow> (int + bool) \<times> bytes" where
  "acl_from M env qregex sender recipient buf p reject =
     (if p \<ge> length buf then (Inr reject, buf)
      else
        let nextp = p + length (str_at buf p) + 1;
            c = acl_colon buf p
        in if \<not> (c < length buf \<and> buf ! c = CHR '':'')
           then acl_from M env qregex sender recipient buf nextp reject
           else
             let b1 = buf[c := NUL];
                 f = acl_match M env qregex sender (str_at b1 (p + 5))
             in if f < 0 then (Inl f, buf)
                else if f \<noteq> 1 then acl_from M env qregex sender recipient buf nextp reject
                else
                  let reject' = (reject \<or> take 5 (drop p b1) = ''from:'')
                  in if \<not> reject' then acl_from M env qregex sender recipient buf nextp False
                     else
                       let r = acl_match M env qregex recipient (str_at b1 (c + 1))
                       in if r < 0 then (Inl r, buf)
                          else if r = 1 then (Inl 0, b1)
                          else acl_from M env qregex sender recipient buf nextp True)"
  by pat_completeness auto
termination
  by (relation "measure (\<lambda>(M, env, q, s, r, buf, p, rej). length buf - p)") auto

declare acl_rcpt.simps [simp del] acl_from.simps [simp del]

text \<open>0: allowed, 1: denied, negative: an error; and the buffer as it is left. \<^verbatim>\<open>verb\<close> is 0.\<close>

definition acl_exempt :: "bytes \<Rightarrow> bytes \<Rightarrow> bool" where
  "acl_exempt sender recipient \<longleftrightarrow> sender = [] \<or> sender = ''#@[]''
     \<or> take 11 recipient = ''postmaster@'' \<or> recipient = ''postmaster''
     \<or> take 6 recipient = ''abuse@'' \<or> recipient = ''abuse''"

definition mail_acl :: "matchlib \<Rightarrow> environ \<Rightarrow> bytes \<Rightarrow> bool \<Rightarrow> bytes \<Rightarrow> bytes \<Rightarrow> int \<times> bytes" where
  "mail_acl M env acclist qregex sender recipient =
     (if acl_exempt sender recipient then (0, acclist)
      else case acl_rcpt M env qregex sender recipient acclist 0 False of
        (Inl r, b) \<Rightarrow> (r, b)
      | (Inr rcpt_reject, b) \<Rightarrow>
          (case acl_from M env qregex sender recipient b 0 False of
             (Inl r, b') \<Rightarrow> (r, b')
           | (Inr from_reject, b') \<Rightarrow> (if rcpt_reject \<or> from_reject then 1 else 0, b')))"

section \<open>tablematch.c\<close>

text \<open>
  \<^verbatim>\<open>matchinet\<close> copies one field of the address and one of the token into arrays of eight bytes. \<open>None\<close>: the
  field does not fit, or the field is read behind the end of the text; both are outside what C defines.
\<close>

definition octet :: "bytes \<Rightarrow> (bytes \<times> bytes) option" where
  "octet p =
     (let f = takeWhile (\<lambda>c. c \<noteq> NUL \<and> c \<noteq> CHR ''.'') p
      in if p = [] \<or> length f \<ge> 8 then None else Some (f, drop (length f + 1) p))"

text \<open>Every question mark becomes the byte at its place in \<^verbatim>\<open>field2\<close>, which may be left from an earlier field.\<close>

definition fill_marks :: "bytes \<Rightarrow> bytes \<Rightarrow> bytes" where
  "fill_marks f1 buf2 = cstr (map (\<lambda>(c, d). if c = CHR ''?'' then d else c) (zip f1 buf2))"

definition in_range :: "libq \<Rightarrow> matchlib \<Rightarrow> bytes \<Rightarrow> bytes \<Rightarrow> bool" where
  "in_range L M g f2 =
     (let i = lq_chr L g (CHR ''-'')
      in i < length g \<and> ml_scan_int M (take i g) \<le> ml_scan_int M f2
         \<and> ml_scan_int M f2 \<le> (if i + 1 = length g then 256 else ml_scan_int M (drop (i + 1) g)))"

fun inet_loop :: "libq \<Rightarrow> matchlib \<Rightarrow> nat \<Rightarrow> bytes \<Rightarrow> bytes \<Rightarrow> bytes \<Rightarrow> bool option" where
  "inet_loop L M 0 buf2 p1 p2 = Some True"
| "inet_loop L M (Suc n) buf2 p1 p2 =
     (case octet p1 of None \<Rightarrow> None
      | Some (f1, r1) \<Rightarrow>
        (case octet p2 of None \<Rightarrow> None
         | Some (f2, r2) \<Rightarrow>
           let buf = f2 @ NUL # drop (length f2 + 1) buf2;
               g = fill_marks f1 buf
           in if f1 = ''*'' \<or> g = f2 \<or> in_range L M g f2 then inet_loop L M n buf r1 r2 else Some False))"

text \<open>\<open>token\<close> is the memory from the token on; \<open>buf2\<close> is what \<^verbatim>\<open>field2\<close> holds at first. \<^verbatim>\<open>flag\<close> is 0.\<close>

definition matchinet :: "libq \<Rightarrow> matchlib \<Rightarrow> bytes \<Rightarrow> bytes \<Rightarrow> bytes \<Rightarrow> bool option" where
  "matchinet L M buf2 ip token =
     (if cstr token = ip then Some True
      else if ml_inet M (cstr token) then Some False
      else inet_loop L M 4 buf2 token (ip @ [NUL]))"

text \<open>
  The loop over the lines: \<open>ptr\<close> is where it reads and \<open>len\<close> how far it thinks it is; a line without a
  colon moves only the second.
\<close>

function table_loop ::
  "libq \<Rightarrow> matchlib \<Rightarrow> bytes \<Rightarrow> bytes \<Rightarrow> bytes \<Rightarrow> bytes \<Rightarrow> nat \<Rightarrow> nat \<Rightarrow> bool \<times> bool \<Rightarrow> (bool + bool \<times> bool) option" where
  "table_loop L M buf2 ip dmn acc ptr len ex =
     (if len \<ge> length acc then Some (Inr ex)
      else
        let len' = len + length (str_at acc ptr) + 1;
            c = ptr + length (takeWhile (\<lambda>c. c \<noteq> NUL \<and> c \<noteq> CHR '':'') (drop ptr acc))
        in if \<not> (c < length acc \<and> acc ! c = CHR '':'') then table_loop L M buf2 ip dmn acc ptr len' ex
           else
             let name = take (c - ptr) (drop ptr acc);
                 token = str_at acc (c + 1);
                 nullflag = (name = ''<>'' \<and> dmn = []);
                 dmatch = (nullflag \<or> (dmn \<noteq> [] \<and> (name = ''*'' \<or> tl dmn = name)));
                 wild = (token = ''*'' \<or> token = ''*.*.*.*'');
                 ed = (if dmatch then name \<noteq> ''*'' else fst ex)
             in (case (if wild then Some True else matchinet L M buf2 ip (drop (c + 1) acc)) of
                   None \<Rightarrow> None
                 | Some imatch \<Rightarrow>
                   if imatch \<and> dmatch then Some (Inl True)
                   else table_loop L M buf2 ip dmn acc len' len' (ed, if imatch then \<not> wild else snd ex)))"
  by pat_completeness auto
termination
  by (relation "measure (\<lambda>(L, M, b, ip, d, acc, ptr, len, ex). length acc - len)") auto

declare table_loop.simps [simp del]

text \<open>1, 0 or -1. \<open>dmn\<close> is empty or starts with the at sign.\<close>

definition tablematch :: "libq \<Rightarrow> matchlib \<Rightarrow> environ \<Rightarrow> bytes \<Rightarrow> bytes \<Rightarrow> bytes \<Rightarrow> bytes \<Rightarrow> int option" where
  "tablematch L M env buf2 filename ip dmn =
     (case ml_readfile M (case env ''HOSTACCESS'' of Some x \<Rightarrow> x | None \<Rightarrow> filename) of
        None \<Rightarrow> Some (-1)
      | Some None \<Rightarrow> Some 1
      | Some (Some acc) \<Rightarrow>
        (case table_loop L M buf2 ip dmn acc 0 0 (False, False) of
           None \<Rightarrow> None
         | Some (Inl b) \<Rightarrow> Some (if b then 1 else 0)
         | Some (Inr (exact_domain_match, exact_ip_match)) \<Rightarrow>
             if exact_domain_match \<and> env ''PARANOID'' \<noteq> None then Some 0
             else if exact_ip_match \<and> env ''DOMAIN_MASQUERADE'' = None then Some 0
             else Some 1))"

end
