(* ===== verification/SmtpSess.thy ===== *)
theory SmtpSess
  imports Address AccessRules "HOL-Library.Word"
begin

text \<open>
  The state of an SMTP session of \<^verbatim>\<open>indimail-mta-x/smtpd.c\<close>, its configuration, and the pieces that the
  handlers of the commands share: replies, early returns, the lists, the lookups. The session is in plain
  text (\<^verbatim>\<open>ssl\<close> is null), \<^verbatim>\<open>BATV\<close> and the plugins are off, and neither \<^verbatim>\<open>from.envrules\<close> nor \<^verbatim>\<open>domainqueue\<close>
  has a rule for the addresses of the session. Memory suffices. A reply is modelled by its code; the lines in
  front of the last one of a reply (\<^verbatim>\<open>250-\<close>) are part of it.
\<close>

section \<open>Configuration\<close>

text \<open>A control file with addresses: its name, the flag of its reading, its lines; and the file of patterns.\<close>

record clist =
  cl_fn :: bytes
  cl_ok :: bool
  cl_text :: bytes
  cl_pok :: bool
  cl_pats :: bytes

datatype dnsres = DnsFine | DnsHard | DnsSoft | DnsMem

datatype pwdres = PwdNotFound | PwdError | PwdUser bool bool  \<comment> \<open>inactive, \<^verbatim>\<open>NO_SMTP\<close>\<close>

datatype srsres = SrsError | SrsMemory | SrsControl | SrsOff | SrsAddr bytes

text \<open>
  What a method of \<^verbatim>\<open>AUTH\<close> leaves: its value, the user, the new \<^verbatim>\<open>authd\<close>, the replies it sent.
\<close>

record authres =
  au_ret :: int
  au_user :: bytes
  au_method :: nat
  au_replies :: "nat list"

record policy =
  po_lib :: libq
  po_match :: matchlib
  po_setup :: nat                        \<comment> \<open>\<^verbatim>\<open>setup_state\<close>\<close>
  po_restore :: "environ \<Rightarrow> environ"      \<comment> \<open>\<^verbatim>\<open>restore_env\<close>\<close>
  po_remoteip :: bytes
  po_remotehost :: bytes
  po_localip :: bytes
  po_localhost :: bytes
  po_liphost :: "bytes option"
  po_ipme :: "ip4 \<Rightarrow> bool"
  po_stale :: bytes                      \<comment> \<open>what the stack holds where \<^verbatim>\<open>matchinet\<close> has \<^verbatim>\<open>field2\<close>\<close>
  po_rhosts :: rhosts
  po_locals :: strmap
  po_hasvirtual :: bool
  po_symbol :: "bytes \<Rightarrow> bool"           \<comment> \<open>\<^verbatim>\<open>getlibObject\<close> finds the symbol\<close>
  po_pwd :: "bytes \<Rightarrow> pwdres"            \<comment> \<open>\<^verbatim>\<open>inquery\<close> with \<^verbatim>\<open>PWD_QUERY\<close>\<close>
  po_user :: "bytes \<Rightarrow> int option"       \<comment> \<open>\<^verbatim>\<open>USER_QUERY\<close>\<close>
  po_relay :: "bytes \<Rightarrow> int option"      \<comment> \<open>\<^verbatim>\<open>RELAY_QUERY\<close> for this client\<close>
  po_domain :: "bytes \<Rightarrow> bytes option"   \<comment> \<open>\<^verbatim>\<open>DOMAIN_QUERY\<close>\<close>
  po_passwd :: "bytes list option"       \<comment> \<open>the lines of \<^verbatim>\<open>/etc/passwd\<close>\<close>
  po_recipients :: "bytes \<Rightarrow> int"        \<comment> \<open>\<^verbatim>\<open>recipients\<close> of \<^verbatim>\<open>recipients.c\<close>\<close>
  po_nodns :: bool                       \<comment> \<open>\<^verbatim>\<open>nodnscheck\<close>\<close>
  po_nodnschecks :: "strmap option"
  po_mxip :: "bytes \<Rightarrow> dnsres"
  po_helocheck :: bool
  po_badhelo :: clist
  po_bhsndr :: clist
  po_bmf :: clist
  po_spsndr :: clist
  po_rmf :: clist
  po_chkdom :: clist
  po_chkrcpt :: clist
  po_chksndr :: clist
  po_gdrcpt :: clist
  po_badrcpt :: clist
  po_bhrcpt :: clist
  po_acclistok :: bool
  po_qregex :: bool
  po_spfbehavior :: int
  po_spf :: "bytes \<Rightarrow> nat"              \<comment> \<open>\<^verbatim>\<open>spfcheck\<close>, from \<^verbatim>\<open>SPF_OK\<close> 0 to \<^verbatim>\<open>SPF_NOMEM\<close> 7\<close>
  po_spfexp :: "bytes option"            \<comment> \<open>\<^verbatim>\<open>spfexplanation\<close>\<close>
  po_srs_domain :: bytes
  po_srsreverse :: "bytes \<Rightarrow> srsres"
  po_databytes :: "64 word"
  po_maxrcptcount :: int
  po_authok :: bool                      \<comment> \<open>\<^verbatim>\<open>hostname\<close> and \<^verbatim>\<open>childargs\<close> are given\<close>
  po_auth :: "bytes \<Rightarrow> authres"
  po_grey :: "(bytes \<Rightarrow> bytes \<Rightarrow> int) option"  \<comment> \<open>\<^verbatim>\<open>greylist\<close>, where \<^verbatim>\<open>greyip\<close> is given\<close>
  po_novrfy :: bool

section \<open>State\<close>

text \<open>\<^verbatim>\<open>remoteinfo\<close> points to nothing, to the environment or to \<^verbatim>\<open>user\<close>.\<close>

datatype rinfo = NoInfo | EnvInfo bytes | UserInfo

record sess =
  se_env :: environ
  se_seenhelo :: bool
  se_seenmail :: bool
  se_mailfrom :: bytes                   \<comment> \<open>with its NUL, as \<^verbatim>\<open>addr\<close>\<close>
  se_rcptto :: bytes
  se_addr :: bytes
  se_rcptcount :: int
  se_errcount :: int                     \<comment> \<open>\<^verbatim>\<open>rcpt_errcount\<close>\<close>
  se_maxerr :: int                       \<comment> \<open>\<^verbatim>\<open>max_rcpt_errcount\<close>\<close>
  se_flagsize :: bool
  se_msgsize :: "64 word"
  se_relayclient :: "bytes option"
  se_authd :: nat
  se_authenticated :: int
  se_info :: rinfo
  se_user :: bytes
  se_proto :: bytes
  se_utf8ok :: bool                      \<comment> \<open>\<^verbatim>\<open>smtputf8_enable\<close>\<close>
  se_utf8 :: bool
  se_mfmem :: "bytes option"             \<comment> \<open>the memory of \<^verbatim>\<open>mfparms\<close>\<close>
  se_mflen :: nat
  se_chkdomok :: bool
  se_chkrcptok :: bool
  se_chksndrok :: bool
  se_acclist :: bytes
  se_helohost :: bytes
  se_fakehelo :: bool
  se_barelf :: bool
  se_replies :: "nat list"
  se_ended :: bool                       \<comment> \<open>the process has exited (or crashed)\<close>

definition remote_info :: "sess \<Rightarrow> bytes option" where
  "remote_info s = (case se_info s of NoInfo \<Rightarrow> None | EnvInfo b \<Rightarrow> Some b | UserInfo \<Rightarrow> Some (cstr (se_user s)))"

section \<open>Replies and early returns\<close>

type_synonym cmd = "sess step"

definition send_code :: "nat \<Rightarrow> sess \<Rightarrow> sess" where
  "send_code c s = s\<lparr>se_replies := se_replies s @ [c]\<rparr>"

definition refuse :: "nat \<Rightarrow> cmd" where
  "refuse c s = (False, send_code c s)"

definition die_with :: "nat \<Rightarrow> cmd" where
  "die_with c s = (False, (send_code c s)\<lparr>se_ended := True\<rparr>)"

text \<open>What C leaves undefined ends the process.\<close>

definition crash :: cmd where
  "crash s = (False, s\<lparr>se_ended := True\<rparr>)"

definition go :: cmd where
  "go s = (True, s)"

definition change :: "(sess \<Rightarrow> sess) \<Rightarrow> cmd" where
  "change f s = (True, f s)"

definition put_env :: "bytes \<Rightarrow> bytes \<Rightarrow> sess \<Rightarrow> sess" where
  "put_env n v s = s\<lparr>se_env := (se_env s)(n \<mapsto> v)\<rparr>"

definition unset_env :: "bytes \<Rightarrow> sess \<Rightarrow> sess" where
  "unset_env n s = s\<lparr>se_env := (se_env s)(n := None)\<rparr>"

definition has_env :: "bytes \<Rightarrow> sess \<Rightarrow> bool" where
  "has_env n s \<longleftrightarrow> se_env s n \<noteq> None"

text \<open>\<^verbatim>\<open>if\<close> on the state.\<close>

definition if_do :: "(sess \<Rightarrow> bool) \<Rightarrow> cmd \<Rightarrow> cmd \<Rightarrow> cmd" where
  "if_do b f g s = (if b s then f s else g s)"

abbreviation when_do :: "(sess \<Rightarrow> bool) \<Rightarrow> cmd \<Rightarrow> cmd" where
  "when_do b f \<equiv> if_do b f go"

text \<open>The switch on \<^verbatim>\<open>setup_state\<close> in front of every handler.\<close>

definition setup_guard :: "policy \<Rightarrow> cmd" where
  "setup_guard P =
     (case po_setup P of
        0 \<Rightarrow> go
      | Suc 0 \<Rightarrow> refuse 503
      | Suc (Suc n) \<Rightarrow> if n < 4 then refuse 553 else if n = 4 then refuse 421 else go)"

section \<open>Lists\<close>

definition list_match :: "policy \<Rightarrow> clist \<Rightarrow> environ \<Rightarrow> bytes \<Rightarrow> amres \<times> bytes" where
  "list_match P cl env a =
     address_match (po_lib P) (po_match P) env (CHR ''@'') (Some (cl_fn cl)) a
       (if cl_ok cl then Some (cl_text cl) else None)
       (if cl_ok cl then Some (ml_constmap (po_match P) (cl_text cl)) else None)
       (if cl_pok cl then Some (cl_pats cl) else None)"

text \<open>A list that is searched without a file of patterns.\<close>

definition no_pats :: "clist \<Rightarrow> clist" where
  "no_pats cl = cl\<lparr>cl_pok := False\<rparr>"

text \<open>The switch on the answer: found, not found, or an error.\<close>

definition on_match :: "amres \<Rightarrow> cmd \<Rightarrow> cmd \<Rightarrow> cmd" where
  "on_match r yes no =
     (case r of AmYes \<Rightarrow> yes | AmNo \<Rightarrow> no | AmMemory \<Rightarrow> die_with 451 | _ \<Rightarrow> refuse 451)"

definition match_addr :: "policy \<Rightarrow> clist \<Rightarrow> cmd \<Rightarrow> cmd \<Rightarrow> cmd" where
  "match_addr P cl yes no s =
     (case list_match P cl (se_env s) (se_addr s) of (r, a) \<Rightarrow> on_match r yes no (s\<lparr>se_addr := a\<rparr>))"

definition match_mailfrom :: "policy \<Rightarrow> clist \<Rightarrow> cmd \<Rightarrow> cmd \<Rightarrow> cmd" where
  "match_mailfrom P cl yes no s =
     (case list_match P cl (se_env s) (se_mailfrom s) of (r, a) \<Rightarrow> on_match r yes no (s\<lparr>se_mailfrom := a\<rparr>))"

text \<open>\<^verbatim>\<open>addrallowed\<close>; \<^verbatim>\<open>tls_verify\<close> answers 0 in plain text.\<close>

definition addrallowed :: "policy \<Rightarrow> bytes \<Rightarrow> (int \<Rightarrow> cmd) \<Rightarrow> cmd" where
  "addrallowed P a k s =
     (let r = rcpthosts (po_lib P) (po_match P) (po_rhosts P) a False
      in if r = -1 then die_with 451 s else k r s)"

definition dnscheck :: "policy \<Rightarrow> bytes \<Rightarrow> dnsres" where
  "dnscheck P a =
     (let n = length a; j = lq_rchr (po_lib P) a (CHR ''@'')
      in if a = ''#@[]'' \<or> n = 0 then DnsFine
         else if (case po_nodnschecks P of None \<Rightarrow> False
             | Some m \<Rightarrow> m a \<or> (j + 1 < n \<and> m (drop j a)) \<or> (j = n \<and> m a)) then DnsFine
         else if j + 1 < n then po_mxip P (cstr (drop (j + 1) a))
         else DnsHard)"

section \<open>Lookups of users\<close>

text \<open>
  A line of \<^verbatim>\<open>/etc/passwd\<close> with its line feed. Only the first \<^verbatim>\<open>len\<close> bytes are compared, so that a user name
  that begins with the local part is enough. \<open>True\<close>: no such user.
\<close>

fun pwd_scan :: "libq \<Rightarrow> bytes \<Rightarrow> nat \<Rightarrow> bytes list \<Rightarrow> bool" where
  "pwd_scan L rcpt len [] = True"
| "pwd_scan L rcpt len (l # ls) =
     (let i = lq_chr L l (CHR '':'')
      in if i < length l \<and> take len (cstr (take i l)) = take len (cstr rcpt) then False
         else pwd_scan L rcpt len ls)"

definition check_user_pwd :: "policy \<Rightarrow> bytes \<Rightarrow> nat \<Rightarrow> (int \<Rightarrow> cmd) \<Rightarrow> cmd" where
  "check_user_pwd P rcpt len k =
     (case po_passwd P of None \<Rightarrow> die_with 451
      | Some ls \<Rightarrow> k (if pwd_scan (po_lib P) rcpt len ls then 1 else 0))"

definition err_library :: "sess \<Rightarrow> sess" where
  "err_library = send_code 451"

definition check_user_sql :: "policy \<Rightarrow> bytes \<Rightarrow> (int \<Rightarrow> cmd) \<Rightarrow> cmd" where
  "check_user_sql P rcpt k s =
     (if \<not> po_hasvirtual P \<or> \<not> po_symbol P ''inquery'' then k (-1) (err_library s)
      else case po_user P rcpt of None \<Rightarrow> die_with 451 s
      | Some v \<Rightarrow> k (if v = 4 then 0 else v) s)"

definition recipients_ext :: "policy \<Rightarrow> bytes \<Rightarrow> (int \<Rightarrow> cmd) \<Rightarrow> cmd" where
  "recipients_ext P rcpt k =
     (let r = po_recipients P rcpt
      in if r = -1 \<or> r = -2 \<or> r = -3 \<or> r = 111 then die_with 451 else k (if r = 10 then 0 else r))"

text \<open>The value tells whether it failed, after its reply.\<close>

definition pop_bef_smtp :: "policy \<Rightarrow> bytes \<Rightarrow> sess \<Rightarrow> bool \<times> sess" where
  "pop_bef_smtp P mfrom s =
     (if \<not> po_hasvirtual P \<or> \<not> po_symbol P ''inquery'' then (True, err_library s)
      else case po_relay P mfrom of None \<Rightarrow> (True, send_code 451 s)
      | Some v \<Rightarrow>
          (False, put_env ''AUTHENTICATED'' (if v = 1 then ''1'' else ''0'')
             (if v \<noteq> 0 then s\<lparr>se_authenticated := v, se_relayclient := Some []\<rparr> else s\<lparr>se_authenticated := v\<rparr>)))"

text \<open>The answers 1 and -1 come with a reply.\<close>

definition domain_compare :: "policy \<Rightarrow> bytes \<Rightarrow> bytes \<Rightarrow> sess \<Rightarrow> int \<times> sess" where
  "domain_compare P dom1 dom2 s =
     (if \<not> po_hasvirtual P then (if dom1 \<noteq> dom2 then (1, send_code 553 s) else (0, s))
      else if \<not> po_symbol P ''inquery'' then (-1, err_library s)
      else if dom1 \<noteq> dom2 then
        (case (po_domain P dom1, po_domain P dom2) of
           (Some d1, Some d2) \<Rightarrow> if d1 \<noteq> d2 then (1, send_code 553 s) else (0, s)
         | _ \<Rightarrow> (-1, send_code 451 s))
      else (0, s))"

end
