(* ===== verification/SmtpMail.thy ===== *)
theory SmtpMail
  imports SmtpSess
begin

text \<open>
  \<^verbatim>\<open>smtp_mail\<close> of \<^verbatim>\<open>indimail-mta-x/smtpd.c\<close> with \<^verbatim>\<open>mailfrom_parms\<close>, \<^verbatim>\<open>mailfrom_auth\<close> and
  \<^verbatim>\<open>check_sender\<close>, one definition for each stretch of the handler, in its order.
\<close>

section \<open>The parameters of MAIL\<close>

text \<open>\<^verbatim>\<open>case_starts\<close> on the memory of \<^verbatim>\<open>mfparms\<close>, which keeps the bytes of longer words behind the length.\<close>

definition case_starts :: "matchlib \<Rightarrow> bytes \<Rightarrow> bytes \<Rightarrow> bool" where
  "case_starts M s t \<longleftrightarrow> map (ml_lower M) (take (length t) (cstr s)) = map (ml_lower M) t"

definition mailfrom_size :: "policy \<Rightarrow> bytes \<Rightarrow> sess \<Rightarrow> bool \<times> sess" where
  "mailfrom_size P arg s =
     (let r = of_nat (snd (lq_scan_ulong (po_lib P) arg)) :: 64 word
      in (po_databytes P > 0 \<and> r > po_databytes P, s\<lparr>se_msgsize := r\<rparr>))"

text \<open>The xtext of \<^verbatim>\<open>AUTH=\<close>: \<^verbatim>\<open>+3D\<close> and \<^verbatim>\<open>+2B\<close> are decoded, another plus sign is dropped.\<close>

function auth_text :: "matchlib \<Rightarrow> bytes \<Rightarrow> bytes" where
  "auth_text M [] = []"
| "auth_text M (c # t) =
     (if c = CHR ''+'' then
        (if case_starts M (c # t) ''+3D'' then CHR ''='' # auth_text M (drop 2 t)
         else if case_starts M (c # t) ''+2B'' then CHR ''+'' # auth_text M (drop 2 t)
         else auth_text M t)
      else c # auth_text M t)"
  by pat_completeness auto
termination
  by (relation "measure (\<lambda>(M, s). length s)") auto

text \<open>With a negative length the loop leaves the buffer.\<close>

definition mailfrom_auth :: "policy \<Rightarrow> bytes \<Rightarrow> int \<Rightarrow> cmd" where
  "mailfrom_auth P arg len s =
     (if se_authd s \<noteq> 0 then (True, s)
      else if case_starts (po_match P) arg ''<>'' \<or> 0 \<le> len then
        let u = (if case_starts (po_match P) arg ''<>'' then ''unknown'' else auth_text (po_match P) (take (nat len) arg));
            s1 = s\<lparr>se_user := u @ [NUL]\<rparr>
        in (True, if se_info s = NoInfo
                  then put_env ''AUTHINFO'' (cstr (u @ [NUL])) (put_env ''TCPREMOTEINFO'' (cstr (u @ [NUL])) (s1\<lparr>se_info := UserInfo\<rparr>))
                  else s1)
      else crash s)"

text \<open>A word has ended. \<^verbatim>\<open>mfparms.s\<close> is null until the first byte is stored.\<close>

definition mf_word :: "policy \<Rightarrow> cmd" where
  "mf_word P s =
     (case se_mfmem s of None \<Rightarrow> crash s
      | Some m \<Rightarrow>
        let n = se_mflen s; m0 = m[n := NUL]
        in if se_utf8ok s \<and> case_starts (po_match P) m ''SMTPUTF8'' then (True, s\<lparr>se_utf8 := True\<rparr>)
           else if case_starts (po_match P) m ''SIZE='' then
             (case mailfrom_size P (cstr (drop 5 m0)) (s\<lparr>se_mfmem := Some m0\<rparr>) of
                (big, s1) \<Rightarrow> if big then (False, s1\<lparr>se_flagsize := True\<rparr>) else (True, s1))
           else if case_starts (po_match P) m ''AUTH='' then
             mailfrom_auth P (drop 5 m0) (int n - 5) (s\<lparr>se_mfmem := Some m0\<rparr>)
           else (True, s))"

definition mf_put :: "char \<Rightarrow> sess \<Rightarrow> sess" where
  "mf_put c s =
     (let m = (case se_mfmem s of None \<Rightarrow> [] | Some m \<Rightarrow> m); n = se_mflen s
      in s\<lparr>se_mfmem := Some (take n m @ c # drop (n + 1) m), se_mflen := n + 1\<rparr>)"

fun mf_loop :: "policy \<Rightarrow> bytes \<Rightarrow> sess \<Rightarrow> sess" where
  "mf_loop P [] s = s"
| "mf_loop P (c # cs) s =
     (if c = CHR '' '' \<or> c = NUL then
        (case mf_word P s of (True, s1) \<Rightarrow> mf_loop P cs (s1\<lparr>se_mflen := 0\<rparr>) | (False, s1) \<Rightarrow> s1)
      else mf_loop P cs (mf_put c s))"

definition mailfrom_parms :: "policy \<Rightarrow> bytes \<Rightarrow> cmd" where
  "mailfrom_parms P arg s =
     (let i = lq_chr (po_lib P) arg (CHR ''>''); s0 = s\<lparr>se_mflen := 0\<rparr>;
          s1 = (if 4 < i \<and> i < length arg then mf_loop P (tl arg @ [NUL]) s0 else s0)
      in (\<not> se_ended s1, s1))"

section \<open>check_sender\<close>

text \<open>
  The masquerading test of an authenticated sender: the user of the sender against the user of
  \<open>allowed\<close>, then their domains. The value is the new \<^verbatim>\<open>flag\<close>.
\<close>

definition masq_pass :: "policy \<Rightarrow> bytes \<Rightarrow> bytes \<Rightarrow> bytes \<Rightarrow> bool \<Rightarrow> sess \<Rightarrow> bool \<times> sess" where
  "masq_pass P usr dom1 allowed flag s =
     (let at2 = lq_rchr (po_lib P) allowed (CHR ''@'')
      in if at2 < length allowed then
           (case domain_compare P dom1 (drop (at2 + 1) allowed) s of
              (d, s1) \<Rightarrow> (flag \<or> usr \<noteq> take at2 allowed \<or> d = 1, s1))
         else
           (case se_env s ''DEFAULT_DOMAIN'' of
              None \<Rightarrow> (flag \<or> usr \<noteq> allowed, s)
            | Some dom2 \<Rightarrow> (case domain_compare P dom1 dom2 s of
                (d, s1) \<Rightarrow> (flag \<or> usr \<noteq> allowed \<or> d = 1, s1))))"

text \<open>The loop: one pass, or two when \<^verbatim>\<open>MASQUERADE\<close> has a value. It is left without an answer for the caller.\<close>

definition masq_loop :: "policy \<Rightarrow> bytes \<Rightarrow> bytes \<Rightarrow> bytes option \<Rightarrow> bytes \<Rightarrow> sess \<Rightarrow> sess" where
  "masq_loop P usr dom1 x info s =
     (case x of
        None \<Rightarrow>
          (case masq_pass P usr dom1 info False s of (flag, s1) \<Rightarrow> if flag then send_code 553 s1 else s1)
      | Some v \<Rightarrow>
          (case masq_pass P usr dom1 v False s of (flag, s1) \<Rightarrow>
             if \<not> flag then s1
             else case masq_pass P usr dom1 info flag s1 of (flag, s2) \<Rightarrow> if flag then send_code 553 s2 else s2))"

text \<open>A null \<^verbatim>\<open>remoteinfo\<close> of an authenticated client does not occur; it would be read.\<close>

definition check_masquerade :: "policy \<Rightarrow> cmd" where
  "check_masquerade P s =
     (let x = se_env s ''MASQUERADE''; from = cstr (se_mailfrom s); at1 = lq_rchr (po_lib P) from (CHR ''@'')
      in if x = Some [] \<or> se_authd s = 0 then go s
         else case remote_info s of None \<Rightarrow> crash s
         | Some info \<Rightarrow>
           if at1 < length from then
             addrallowed P from (\<lambda>r. if r = 0 then refuse 553
               else change (masq_loop P (take at1 from) (drop (at1 + 1) from) x info)) s
           else (case x of Some v \<Rightarrow> if v \<noteq> info then refuse 553 s else go s
                 | None \<Rightarrow> if from \<noteq> info then refuse 553 s else go s))"

definition check_spoof :: "policy \<Rightarrow> bool \<Rightarrow> bytes \<Rightarrow> cmd" where
  "check_spoof P isLocal t s =
     (if se_relayclient s = None \<and> se_authd s = 0 then
        (case (if isLocal then (False, s) else pop_bef_smtp P t s) of
           (bad, s1) \<Rightarrow> if bad then (False, s1)
             else if se_authenticated s1 \<noteq> 1 then refuse 530 s1 else (True, s1))
      else go s)"

definition check_account :: "policy \<Rightarrow> bool \<Rightarrow> bytes \<Rightarrow> nat \<Rightarrow> cmd" where
  "check_account P isLocal t at =
     (if isLocal then check_user_pwd P t at (\<lambda>r. if r \<noteq> 0 then refuse 553 else go)
      else if po_hasvirtual P then
        (case po_pwd P t of
           PwdUser inactive nosmtp \<Rightarrow>
             if \<not> po_symbol P ''is_inactive'' then refuse 451
             else if inactive \<or> nosmtp then refuse 553 else go
         | PwdNotFound \<Rightarrow> if \<not> po_symbol P ''userNotFound'' then refuse 451 else refuse 553
         | PwdError \<Rightarrow> refuse 451)
      else refuse 553)"

text \<open>\<open>t_addr\<close> carries its NUL; the steps stop where the function returns a value other than 0.\<close>

definition check_sender_addr :: "policy \<Rightarrow> bytes \<Rightarrow> cmd" where
  "check_sender_addr P t_addr s =
     (case list_match P ((no_pats (po_chksndr P))\<lparr>cl_ok := se_chksndrok s\<rparr>) (se_env s) t_addr of (r, t) \<Rightarrow>
        let b = butlast t; at = lq_rchr (po_lib P) b (CHR ''@'');
            isLocal = (at < length b \<longrightarrow> po_locals P (drop (at + 1) b))
        in also_do (on_match r (change (\<lambda>s. s\<lparr>se_chksndrok := False\<rparr>)) go)
             (if_do se_chksndrok go
               (all_do [check_account P isLocal (cstr t) at, check_spoof P isLocal (cstr t), check_masquerade P])) s)"

definition check_sender :: "policy \<Rightarrow> int \<Rightarrow> int \<Rightarrow> cmd" where
  "check_sender P in_rcpt1 in_rcpt2 s =
     (if in_rcpt1 = 1 then check_sender_addr P (se_addr s) s
      else if in_rcpt2 = 1 then
        (case remote_info s of None \<Rightarrow> crash s | Some i \<Rightarrow> check_sender_addr P (i @ [NUL]) s)
      else go s)"

section \<open>smtp_mail\<close>

definition mail_address :: "policy \<Rightarrow> bytes \<Rightarrow> cmd" where
  "mail_address P arg s =
     (case addrparse (po_lib P) (po_liphost P) (po_ipme P) arg of (ok, a) \<Rightarrow>
        let s1 = (case a of None \<Rightarrow> s | Some b \<Rightarrow> s\<lparr>se_addr := b @ [NUL]\<rparr>)
        in if ok then go s1 else refuse 555 s1)"

definition mail_proto :: cmd where
  "mail_proto s =
     (let p = (if se_utf8 s then ''UTF8ESMTP'' else ''ESMTP'') @ (if has_env ''TLS_PROVIDER'' s then ''S'' else [])
            @ (if se_authd s \<noteq> 0 then ''A'' else [])
      in (True, s\<lparr>se_proto := se_proto s @ p\<rparr>))"

definition mail_host :: "policy \<Rightarrow> cmd" where
  "mail_host P s =
     (let a = cstr (se_addr s); i = lq_rchr (po_lib P) a (CHR ''@'')
      in case tablematch (po_lib P) (po_match P) (se_env s) (po_stale P) ''hostaccess'' (po_remoteip P) (drop i a) of
           None \<Rightarrow> crash s
         | Some r \<Rightarrow> if r = 0 then refuse 553 s else if r = -1 then die_with 451 s else go s)"

definition mail_dns :: "policy \<Rightarrow> cmd" where
  "mail_dns P s =
     (if po_nodns P then go s
      else case dnscheck P (butlast (se_addr s)) of
        DnsHard \<Rightarrow> refuse 553 s | DnsSoft \<Rightarrow> refuse 451 s | DnsMem \<Rightarrow> die_with 451 s | DnsFine \<Rightarrow> go s)"

definition mail_start :: "policy \<Rightarrow> sess \<Rightarrow> sess" where
  "mail_start P s =
     s\<lparr>se_rcptto := [], se_mailfrom := cstr (se_addr s) @ [NUL],
       se_maxerr := (case se_env s ''MAX_RCPT_ERRCOUNT'' of None \<Rightarrow> -1 | Some x \<Rightarrow> ml_scan_int (po_match P) x),
       se_rcptcount := 0, se_errcount := 0\<rparr>"

definition mail_sender :: "policy \<Rightarrow> cmd" where
  "mail_sender P s =
     addrallowed P (cstr (se_addr s)) (\<lambda>in_rcpt1.
       if_do (\<lambda>s. has_env ''CUGMAIL'' s \<and> in_rcpt1 = 0) (refuse 553)
         (\<lambda>s. (case (if se_authenticated s \<noteq> 0 \<or> se_authd s \<noteq> 0 then Some (remote_info s) else None) of
                 None \<Rightarrow> \<lambda>k. k (-1)
               | Some None \<Rightarrow> \<lambda>k. crash
               | Some (Some i) \<Rightarrow> addrallowed P i)
              (\<lambda>in_rcpt2.
                 if po_hasvirtual P \<and> \<not> po_symbol P ''inquery'' then refuse 451
                 else when_do (\<lambda>s. (in_rcpt1 = 1 \<or> in_rcpt2 = 1) \<and> has_env ''CHECKSENDER'' s)
                   (check_sender P in_rcpt1 in_rcpt2)) s)) s"

text \<open>The final lines of a message of several lines; nothing is sent for a message that ends a line or is empty.\<close>

definition err_spf :: "policy \<Rightarrow> bytes \<Rightarrow> sess \<Rightarrow> sess" where
  "err_spf P barf s =
     (let b = (if length barf > 1 then barf @ [NUL] else barf)
      in if b \<noteq> [] \<and> last b \<noteq> LF then send_code 550 s else s)"

definition mail_spf :: "policy \<Rightarrow> cmd" where
  "mail_spf P s =
     (if po_spfbehavior P = 0 \<or> se_relayclient s \<noteq> None then (True, unset_env ''SPFRESULT'' s)
      else
        let r = po_spf P (cstr (se_mailfrom s));
            names = [''pass'', ''none'', ''unknown'', ''neutral'', ''softfail'', ''fail'', ''error''];
            s1 = (if r < length names then put_env ''SPFRESULT'' (names ! r) s else s);
            barf = (r \<in> {1, 2} \<and> po_spfbehavior P \<ge> 6 \<or> r = 3 \<and> po_spfbehavior P \<ge> 5
                 \<or> r = 4 \<and> po_spfbehavior P \<ge> 4 \<or> r = 5 \<and> po_spfbehavior P \<ge> 3)
        in if r = 7 then die_with 451 s1
           else if r = 6 \<and> po_spfbehavior P \<ge> 2 then refuse 451 s1
           else if barf then (case po_spfexp P of None \<Rightarrow> die_with 451 s1 | Some b \<Rightarrow> (False, err_spf P b s1))
           else go s1)"

definition mail_ok :: cmd where
  "mail_ok s = (True, send_code 250 (s\<lparr>se_barelf := has_env ''ALLOW_BARELF'' s, se_seenmail := True\<rparr>))"

definition mail_steps :: "policy \<Rightarrow> bytes \<Rightarrow> cmd list" where
  "mail_steps P arg =
     [change (\<lambda>s. s\<lparr>se_env := po_restore P (se_env s)\<rparr>),
      setup_guard P,
      if_do se_seenhelo go (refuse 503),
      mail_address P arg,
      mail_proto,
      mail_host P,
      change (\<lambda>s. s\<lparr>se_flagsize := False\<rparr>),
      mailfrom_parms P arg,
      when_do (\<lambda>s. has_env ''REQUIREAUTH'' s \<and> se_authd s = 0) (refuse 530),
      match_addr P (no_pats (po_bhsndr P)) (change (put_env ''NULLQUEUE'' ''1'')) go,
      match_addr P (po_bmf P) (refuse 553) go,
      mail_dns P,
      when_do (has_env ''BOUNCEMAIL'') (die_with 553),
      when_do (has_env ''SPAMFILTER'') (match_addr P (no_pats (po_spsndr P)) (change (unset_env ''SPAMFILTER'')) go),
      change (mail_start P),
      when_do (\<lambda>s. se_relayclient s = None)
        (match_mailfrom P (no_pats (po_rmf P)) (change (\<lambda>s. s\<lparr>se_relayclient := Some []\<rparr>)) go),
      mail_sender P,
      mail_spf P,
      when_do se_chkdomok
        (match_mailfrom P ((no_pats (po_chkdom P))\<lparr>cl_ok := True\<rparr>) go (change (\<lambda>s. s\<lparr>se_chkdomok := False\<rparr>))),
      when_do (has_env ''FORCE_TLS'') (refuse 530),
      mail_ok]"

definition smtp_mail :: "policy \<Rightarrow> bytes \<Rightarrow> sess \<Rightarrow> sess" where
  "smtp_mail P arg s = snd (all_do (mail_steps P arg) s)"

end
