(* ===== verification/SmtpCmds.thy ===== *)
theory SmtpCmds
  imports SmtpMail
begin

text \<open>
  The other handlers of \<^verbatim>\<open>indimail-mta-x/smtpd.c\<close>: \<^verbatim>\<open>smtp_rcpt\<close> with \<^verbatim>\<open>addrrelay\<close>, \<^verbatim>\<open>smtp_rset\<close>,
  \<^verbatim>\<open>dohelo\<close> with \<^verbatim>\<open>smtp_helo\<close> and \<^verbatim>\<open>smtp_ehlo\<close>, the frame of \<^verbatim>\<open>smtp_auth\<close>, the tests of \<^verbatim>\<open>smtp_data\<close> before the
  message is read, and the commands without effect; then the session as a step relation.
\<close>

section \<open>smtp_rcpt\<close>

text \<open>Relay probes: \<^verbatim>\<open>@\<close>, \<^verbatim>\<open>%\<close> or \<^verbatim>\<open>!\<close> in front of the last at sign (or anywhere, without one).\<close>

fun addrrelay_scan :: "bytes \<Rightarrow> bool" where
  "addrrelay_scan [] = False"
| "addrrelay_scan (c # t) \<longleftrightarrow> c = CHR ''@'' \<or> c = CHR ''%'' \<or> c = CHR ''!'' \<or> addrrelay_scan t"

definition addrrelay :: "bytes \<Rightarrow> bool" where
  "addrrelay a =
     (let r = dropWhile (\<lambda>c. c \<noteq> CHR ''@'') (rev a)
      in addrrelay_scan (if r = [] then rev a else tl r))"

definition rcpt_address :: "policy \<Rightarrow> bytes \<Rightarrow> cmd" where
  "rcpt_address = mail_address"

definition rcpt_cug :: "policy \<Rightarrow> cmd" where
  "rcpt_cug P =
     when_do (has_env ''CUGMAIL'') (\<lambda>s. addrallowed P (cstr (se_addr s)) (\<lambda>r. if r = 0 then refuse 553 else go) s)"

text \<open>
  \<^verbatim>\<open>srs_domain.len\<close> is decremented at the start even when the file is empty; it is then the largest
  \<^verbatim>\<open>unsigned int\<close>, and nothing is compared. The replies of a failed decoding do not end the handler.
\<close>

definition is_srs :: "policy \<Rightarrow> bytes \<Rightarrow> bool" where
  "is_srs P addr =
     (let n = length addr; at = lq_rchr (po_lib P) (butlast addr) (CHR ''@'');
          len = (if po_srs_domain P = [] then 0 else of_nat (length (po_srs_domain P)) + 1) - 1 :: 32 word;
          cmp = (if len > of_nat n - of_nat at - 2 then len + 1 else of_nat n - of_nat at - 1)
      in len \<noteq> 0 \<and> (case_starts (po_match P) addr ''SRS0='' \<or> case_starts (po_match P) addr ''SRS1='')
         \<and> at + 3 < n
         \<and> take (unat cmp) (po_srs_domain P @ [NUL]) = take (unat cmp) (cstr (drop (at + 1) addr) @ [NUL]))"

definition rcpt_srs :: "policy \<Rightarrow> cmd" where
  "rcpt_srs P =
     if_do (\<lambda>s. is_srs P (se_addr s))
       (\<lambda>s. case po_srsreverse P (cstr (se_addr s)) of
              SrsError \<Rightarrow> go (send_code 451 s)
            | SrsMemory \<Rightarrow> die_with 451 s
            | SrsControl \<Rightarrow> die_with 451 s
            | SrsOff \<Rightarrow> go (send_code 451 s)
            | SrsAddr a \<Rightarrow> go (s\<lparr>se_addr := a @ [NUL]\<rparr>))
       go"

definition rcpt_acl :: "policy \<Rightarrow> cmd" where
  "rcpt_acl P =
     when_do (\<lambda>_. po_acclistok P)
       (\<lambda>s. case mail_acl (po_match P) (se_env s) (se_acclist s) (po_qregex P) (cstr (se_mailfrom s)) (cstr (se_addr s)) of
              (r, l) \<Rightarrow> (if r = 1 then refuse 553 else if r = 0 then go else refuse 451) (s\<lparr>se_acclist := l\<rparr>))"

text \<open>Who may relay: the value of \<^verbatim>\<open>allowed_rcpthosts\<close> is handed on.\<close>

definition rcpt_relay :: "policy \<Rightarrow> int \<Rightarrow> cmd" where
  "rcpt_relay P allowed s =
     (case se_relayclient s of
        Some r \<Rightarrow> (True, s\<lparr>se_addr := butlast (se_addr s) @ r @ [NUL]\<rparr>)
      | None \<Rightarrow>
        if allowed \<noteq> 0 then go s
        else if po_hasvirtual P then
          (case (if has_env ''CHECKRELAY'' s then pop_bef_smtp P (cstr (se_mailfrom s)) s else (False, s)) of
             (bad, s1) \<Rightarrow> if bad then (False, s1) else if se_authenticated s1 \<noteq> 1 then refuse 553 s1 else (True, s1))
        else refuse 553 s)"

text \<open>The number that selects the test of the mailbox: 4 for a recipient of \<^verbatim>\<open>goodrcptto\<close>.\<close>

definition rcpt_mode :: "policy \<Rightarrow> int \<Rightarrow> bytes \<Rightarrow> int" where
  "rcpt_mode P good tmp =
     (if good = 4 then 4
      else if po_hasvirtual P then (if tmp \<noteq> [] then ml_scan_int (po_match P) tmp else 3) else 3)"

definition check_local :: "policy \<Rightarrow> bytes \<Rightarrow> (int \<Rightarrow> cmd) \<Rightarrow> cmd" where
  "check_local P addr k =
     (let b = butlast addr; at = lq_rchr (po_lib P) b (CHR ''@'')
      in if at < length b \<longrightarrow> po_locals P (drop (at + 1) b) then check_user_pwd P (cstr addr) at k
         else check_user_sql P (cstr addr) k)"

definition mailbox_result :: "policy \<Rightarrow> int \<Rightarrow> bytes \<Rightarrow> (int \<Rightarrow> cmd) \<Rightarrow> cmd" where
  "mailbox_result P mode addr k =
     (if mode = 1 then check_local P addr k
      else if mode = 2 then recipients_ext P (cstr addr) (\<lambda>r. if r = 0 then check_local P addr k else k 0)
      else if mode = 4 then k 0
      else recipients_ext P (cstr addr) (\<lambda>r. k (if r = 0 then 1 else 0)))"

definition count_error :: "int \<Rightarrow> sess \<Rightarrow> sess" where
  "count_error r s = (if r > 0 then s\<lparr>se_errcount := se_errcount s + 1\<rparr> else s)"

definition rcpt_verdict :: "int \<Rightarrow> cmd" where
  "rcpt_verdict r s = (if r = 1 \<or> r = 2 \<or> r = 3 then refuse 550 (count_error r s) else go (count_error r s))"

text \<open>The mode is also the new value of \<^verbatim>\<open>isgoodrcpt\<close>, for the rest of the handler.\<close>

definition rcpt_mailbox :: "policy \<Rightarrow> int \<Rightarrow> int \<Rightarrow> (int \<Rightarrow> cmd) \<Rightarrow> cmd" where
  "rcpt_mailbox P allowed good k s =
     (case se_env s ''CHECKRECIPIENT'' of
        None \<Rightarrow> k good s
      | Some tmp \<Rightarrow>
        if allowed \<noteq> 1 then k good s
        else also_do
          (match_addr P ((no_pats (po_chkrcpt P))\<lparr>cl_ok := se_chkrcptok s\<rparr>) (change (\<lambda>s. s\<lparr>se_chkrcptok := False\<rparr>)) go)
          (\<lambda>s. if se_chkrcptok s then k good s
               else also_do (mailbox_result P (rcpt_mode P good tmp) (se_addr s) rcpt_verdict)
                      (k (rcpt_mode P good tmp)) s) s)"

definition rcpt_limits :: "policy \<Rightarrow> cmd" where
  "rcpt_limits P = all_do
     [when_do (\<lambda>s. po_maxrcptcount P > 0 \<and> se_rcptcount s + 1 > po_maxrcptcount P) (refuse 557),
      when_do (\<lambda>s. length (se_mailfrom s) = 1 \<and> se_rcptcount s + 1 > 1) (refuse 553)]"

definition rcpt_ok :: cmd where
  "rcpt_ok s = (True, send_code 250 (s\<lparr>se_rcptcount := se_rcptcount s + 1,
       se_rcptto := se_rcptto s @ CHR ''T'' # cstr (se_addr s) @ [NUL]\<rparr>))"

text \<open>\<^verbatim>\<open>rcpt_errcount\<close> is unsigned, so that the limit is compared as unsigned. From the mailbox on: too many errors, the black hole, the limits, the record.\<close>

definition rcpt_end :: "policy \<Rightarrow> int \<Rightarrow> cmd" where
  "rcpt_end P good = all_do
     [when_do (\<lambda>s. se_maxerr s \<noteq> -1 \<and> se_errcount s \<ge> se_maxerr s mod 2 ^ 32) (refuse 421),
      (if good = 4 then go else match_addr P (no_pats (po_bhrcpt P)) (change (put_env ''NULLQUEUE'' ''1'')) go),
      rcpt_limits P,
      rcpt_ok]"

definition rcpt_good :: "policy \<Rightarrow> (int \<Rightarrow> cmd) \<Rightarrow> cmd" where
  "rcpt_good P k = match_addr P (po_gdrcpt P) (k 4) (k 0)"

definition rcpt_rest :: "policy \<Rightarrow> int \<Rightarrow> cmd" where
  "rcpt_rest P good = all_do
     [(if good = 4 then go else match_addr P (po_badrcpt P) (refuse 553) go),
      rcpt_acl P,
      (\<lambda>s. (if \<not> se_chkdomok s \<and> \<not> has_env ''AUTH_ALL'' s then addrallowed P (cstr (se_addr s)) else (\<lambda>k. k 0))
         (\<lambda>allowed. also_do (rcpt_relay P allowed) (rcpt_mailbox P allowed good (rcpt_end P))) s)]"

definition rcpt_steps :: "policy \<Rightarrow> bytes \<Rightarrow> cmd list" where
  "rcpt_steps P arg =
     [setup_guard P,
      if_do se_seenmail go (refuse 503),
      rcpt_address P arg,
      rcpt_cug P,
      rcpt_srs P,
      when_do (\<lambda>s. addrrelay (se_addr s)) (refuse 550),
      rcpt_good P (rcpt_rest P)]"

definition smtp_rcpt :: "policy \<Rightarrow> bytes \<Rightarrow> sess \<Rightarrow> sess" where
  "smtp_rcpt P arg s = snd (all_do (rcpt_steps P arg) s)"

section \<open>RSET, HELO, EHLO\<close>

definition smtp_rset :: "bytes \<Rightarrow> sess \<Rightarrow> sess" where
  "smtp_rset arg s =
     (if arg \<noteq> [] then send_code 501 s
      else send_code 250 (s\<lparr>se_seenmail := False, se_rcptto := [], se_mailfrom := [], se_addr := []\<rparr>))"

definition same_nocase :: "matchlib \<Rightarrow> bytes \<Rightarrow> bytes \<Rightarrow> bool" where
  "same_nocase M s t \<longleftrightarrow> map (ml_lower M) s = map (ml_lower M) t"

text \<open>The reply of HELO is sent before these tests; those of them that fail send another one.\<close>

definition helo_checks :: "policy \<Rightarrow> bytes \<Rightarrow> cmd" where
  "helo_checks P arg = all_do
     [when_do (\<lambda>s. se_relayclient s = None \<and> has_env ''ENFORCE_FQDN_HELO'' s \<and> CHR ''.'' \<notin> set arg) (die_with 451),
      when_do (\<lambda>_. po_helocheck P) (all_do
        [when_do (\<lambda>_. \<not> same_nocase (po_match P) (po_localip P) (po_remoteip P)
             \<and> (same_nocase (po_match P) (po_localhost P) arg \<or> same_nocase (po_match P) (po_localip P) arg))
           (change (send_code 451)),
         (\<lambda>s. case list_match P (no_pats (po_badhelo P)) (se_env s) (se_helohost s) of (r, h) \<Rightarrow>
            on_match r (refuse 553) go (s\<lparr>se_helohost := h\<rparr>))])]"

text \<open>\<^verbatim>\<open>helohost\<close> is handed to the list without its NUL.\<close>

definition helo_dns :: "policy \<Rightarrow> cmd" where
  "helo_dns P s =
     (let h = se_helohost s; fake = (\<not> same_nocase (po_match P) (po_remotehost P) (tl h));
          s1 = s\<lparr>se_fakehelo := fake\<rparr>
      in if fake \<and> po_helocheck P \<and> \<not> po_nodns P then
           (case dnscheck P h of
              DnsHard \<Rightarrow> refuse 553 s1 | DnsSoft \<Rightarrow> refuse 451 s1 | DnsMem \<Rightarrow> die_with 451 s1 | DnsFine \<Rightarrow> go s1)
         else go s1)"

definition dohelo :: "policy \<Rightarrow> bytes \<Rightarrow> sess \<Rightarrow> sess" where
  "dohelo P arg s =
     snd (all_do [change (\<lambda>s. s\<lparr>se_seenhelo := False, se_helohost := CHR ''@'' # arg\<rparr>),
                  helo_checks P arg, helo_dns P, change (\<lambda>s. s\<lparr>se_seenhelo := True\<rparr>)] s)"

definition smtp_helo :: "policy \<Rightarrow> bytes \<Rightarrow> sess \<Rightarrow> sess" where
  "smtp_helo P arg s =
     snd (all_do [change (\<lambda>s. s\<lparr>se_seenmail := False\<rparr>), setup_guard P, change (send_code 250),
                  change (dohelo P (if arg = [] then po_remotehost P else arg))] s)"

definition smtp_ehlo :: "policy \<Rightarrow> bytes \<Rightarrow> sess \<Rightarrow> sess" where
  "smtp_ehlo P arg s =
     snd (all_do [change (\<lambda>s. s\<lparr>se_seenmail := False\<rparr>), setup_guard P,
                  change (\<lambda>s. if has_env ''SMTPUTF8'' s then s\<lparr>se_utf8ok := True\<rparr> else s), change (send_code 250),
                  change (dohelo P (if arg = [] then po_remotehost P else arg))] s)"

section \<open>AUTH\<close>

text \<open>A method has already answered where it returns -2 or -3.\<close>

definition auth_result :: "authres \<Rightarrow> sess \<Rightarrow> sess" where
  "auth_result a s =
     (let s1 = s\<lparr>se_user := au_user a, se_authd := au_method a, se_replies := se_replies s @ au_replies a\<rparr>;
          s2 = (if au_ret a = 0 then s1\<lparr>se_relayclient := Some []\<rparr> else s1)
      in if au_ret a = 0 \<or> au_ret a = 3 then
           send_code 235 (put_env ''AUTHINFO'' (cstr (au_user a)) (put_env ''TCPREMOTEINFO'' (cstr (au_user a)) (s2\<lparr>se_info := UserInfo\<rparr>)))
         else if au_ret a = 1 \<or> au_ret a = 2 then send_code 535 s2
         else if au_ret a = -1 then send_code 454 s2
         else if au_ret a = -2 \<or> au_ret a = -3 then s2
         else send_code 451 s2)"

definition smtp_auth :: "policy \<Rightarrow> bytes \<Rightarrow> sess \<Rightarrow> sess" where
  "smtp_auth P arg s =
     snd (all_do [setup_guard P,
                  if_do (\<lambda>_. po_authok P) go (refuse 503),
                  when_do (\<lambda>s. se_authd s \<noteq> 0) (refuse 503),
                  when_do se_seenmail (refuse 503),
                  change (auth_result (po_auth P arg))] s)"

section \<open>DATA, up to the message\<close>

definition data_grey :: "policy \<Rightarrow> cmd" where
  "data_grey P s =
     (case po_grey P of
        Some grey \<Rightarrow>
          if se_relayclient s \<noteq> None then go s
          else let r = grey (cstr (se_mailfrom s)) (se_rcptto s)
               in if r = 0 then refuse 450 s else if r = -1 then (False, s)
                  else if r = -2 then die_with 451 s else go s
      | None \<Rightarrow> go s)"

definition data_guard :: "policy \<Rightarrow> bytes \<Rightarrow> cmd" where
  "data_guard P arg = all_do
     [if_do (\<lambda>_. arg = []) go (refuse 501),
      if_do se_seenmail go (refuse 503),
      if_do (\<lambda>s. se_rcptto s \<noteq> [] \<and> se_rcptcount s \<noteq> 0) go (refuse 503),
      data_grey P,
      change (\<lambda>s. s\<lparr>se_seenmail := False\<rparr>),
      when_do se_flagsize (refuse 552)]"

section \<open>Commands without effect\<close>

definition smtp_noop :: "policy \<Rightarrow> bytes \<Rightarrow> sess \<Rightarrow> sess" where
  "smtp_noop P arg s = (if arg \<noteq> [] then send_code 501 s else snd (all_do [setup_guard P, change (send_code 250)] s))"

definition smtp_vrfy :: "policy \<Rightarrow> sess \<Rightarrow> sess" where
  "smtp_vrfy P s = (if po_novrfy P then send_code 502 s else snd (all_do [setup_guard P, change (send_code 252)] s))"

definition smtp_quit :: "sess \<Rightarrow> sess" where
  "smtp_quit s = (send_code 221 s)\<lparr>se_ended := True\<rparr>"

definition err_unimpl :: "sess \<Rightarrow> sess" where
  "err_unimpl = send_code 502"

end
