(* ===== verification/SmtpFrames.thy ===== *)
theory SmtpFrames
  imports SmtpCmds
begin

text \<open>
  What the steps of the handlers leave alone. A \<^emph>\<open>view\<close> is a function of the state; the locales state which
  fields a view does not look at, and prove that whole stretches of the handlers keep every such view.
  They are interpreted on the views that the properties need. \<open>answers\<close> is the same for the replies: a step
  that ends its handler sends exactly one.
\<close>

named_theorems kept_steps \<open>steps that keep a view\<close>
named_theorems answer_steps \<open>steps that end their handler with one reply\<close>

definition kept :: "(sess \<Rightarrow> 'v) \<Rightarrow> cmd \<Rightarrow> bool" where
  "kept g f \<longleftrightarrow> (\<forall>s. g (snd (f s)) = g s)"

lemma kept_also [kept_steps]: "kept g f \<Longrightarrow> kept g h \<Longrightarrow> kept g (also_do f h)"
proof -
  assume a: "kept g f" "kept g h"
  have "g (snd (also_do f h s)) = g s" for s
  proof -
    obtain ok s1 where f: "f s = (ok, s1)" by (metis surj_pair)
    have "g s1 = g s" using a(1) f unfolding kept_def by (metis snd_conv)
    then show ?thesis using a(2) f by (cases ok) (simp_all add: also_do_def kept_def)
  qed
  then show ?thesis by (simp add: kept_def)
qed

lemma kept_go [kept_steps]: "kept g go" "kept g (Pair b)"
  by (simp_all add: kept_def go_def)

lemma kept_all: "(\<And>f. f \<in> set fs \<Longrightarrow> kept g f) \<Longrightarrow> kept g (all_do fs)"
  by (induction fs) (auto simp: all_do_simps kept_also kept_go)

lemma kept_all_list [kept_steps]:
  "kept g (all_do [])" "kept g f \<Longrightarrow> kept g (all_do fs) \<Longrightarrow> kept g (all_do (f # fs))"
  by (simp_all add: all_do_simps kept_also kept_go)

lemma kept_if_do [kept_steps]: "kept g f \<Longrightarrow> kept g h \<Longrightarrow> kept g (if_do b f h)"
  by (simp add: kept_def if_do_def)

lemma kept_if [kept_steps]: "(b \<Longrightarrow> kept g f) \<Longrightarrow> (\<not> b \<Longrightarrow> kept g h) \<Longrightarrow> kept g (if b then f else h)"
  by simp

text \<open>The step may depend on the state in which it is taken.\<close>

lemma kept_here: "(\<And>s. kept g (f s)) \<Longrightarrow> kept g (\<lambda>s. f s s)"
  by (simp add: kept_def)

lemma kept_change: "(\<And>s. g (f s) = g s) \<Longrightarrow> kept g (change f)"
  by (simp add: kept_def change_def)

section \<open>Views that do not see what every handler touches\<close>

locale view =
  fixes g :: "sess \<Rightarrow> 'v" and P :: policy
  assumes blind_replies: "g (s\<lparr>se_replies := r\<rparr>) = g s"
    and blind_ended: "g (s\<lparr>se_ended := e\<rparr>) = g s"
    and blind_lower: "g (s\<lparr>se_addr := map (ml_lower (po_match P)) (se_addr s)\<rparr>) = g s"
    and blind_env: "g (s\<lparr>se_env := v\<rparr>) = g s"
begin

lemma blind_reply [simp]: "g (send_code c s) = g s"
  by (simp add: send_code_def blind_replies)

lemma blind_put [simp]: "g (put_env n v s) = g s" "g (unset_env n s) = g s"
  by (simp_all add: put_env_def unset_env_def blind_env)

lemma blind_ends [simp]: "g (snd (refuse c s)) = g s" "g (snd (die_with c s)) = g s" "g (snd (crash s)) = g s"
  "g (snd (go s)) = g s"
  by (simp_all add: refuse_def die_with_def crash_def go_def blind_ended)

lemma kept_ends: "kept g (refuse c)" "kept g (die_with c)" "kept g crash"
  by (simp_all add: kept_def refuse_def die_with_def crash_def blind_ended)

lemma kept_changes: "kept g (change (put_env n v))" "kept g (change (unset_env n))" "kept g (change (send_code c))"
  "kept g (change (\<lambda>s. s\<lparr>se_env := f (se_env s)\<rparr>))"
  by (simp_all add: kept_def change_def blind_env)

lemma kept_guard: "kept g (setup_guard P)"
  by (simp add: setup_guard_def kept_ends kept_steps split: nat.split)

lemma kept_on_match: "kept g y \<Longrightarrow> kept g n \<Longrightarrow> kept g (on_match r y n)"
  by (simp add: on_match_def kept_ends split: amres.split)

lemma kept_match_addr:
  assumes "kept g y" "kept g n"
  shows "kept g (match_addr P cl y n)"
proof -
  have "g (snd (match_addr P cl y n s)) = g s" for s
  proof -
    have m: "snd (list_match P cl (se_env s) (se_addr s)) = map (ml_lower (po_match P)) (se_addr s)"
      by (simp add: list_match_def address_match_def Let_def)
    obtain r a where ra: "list_match P cl (se_env s) (se_addr s) = (r, a)" by (metis surj_pair)
    have "kept g (on_match r y n)" by (rule kept_on_match [OF assms])
    then show ?thesis using m ra blind_lower [of s] by (simp add: match_addr_def kept_def)
  qed
  then show ?thesis by (simp add: kept_def)
qed

lemma kept_allowed: "(\<And>r. kept g (k r)) \<Longrightarrow> kept g (addrallowed P a k)"
  using kept_ends by (auto simp: kept_def addrallowed_def Let_def)

lemma kept_pwd: "(\<And>r. kept g (k r)) \<Longrightarrow> kept g (check_user_pwd P a n k)"
  by (simp add: check_user_pwd_def kept_ends split: option.split)

lemma kept_sql: "(\<And>r. kept g (k r)) \<Longrightarrow> kept g (check_user_sql P a k)"
  by (auto simp: kept_def check_user_sql_def err_library_def die_with_def blind_ended split: option.split)

lemma kept_recipients: "(\<And>r. kept g (k r)) \<Longrightarrow> kept g (recipients_ext P a k)"
  by (simp add: recipients_ext_def Let_def kept_ends)

lemma kept_mailbox_result: "(\<And>r. kept g (k r)) \<Longrightarrow> kept g (mailbox_result P m a k)"
  by (simp add: mailbox_result_def check_local_def Let_def kept_pwd kept_sql kept_recipients)

lemmas base_steps = kept_ends kept_changes kept_guard kept_on_match kept_match_addr kept_allowed
  kept_pwd kept_sql kept_recipients kept_mailbox_result

end

text \<open>Views that do not see the counters and lists of \<^verbatim>\<open>smtp_rcpt\<close>.\<close>

locale rcpt_view = view +
  assumes blind_errcount: "g (s\<lparr>se_errcount := e\<rparr>) = g s"
    and blind_chkrcptok: "g (s\<lparr>se_chkrcptok := b\<rparr>) = g s"
    and blind_acclist: "g (s\<lparr>se_acclist := l\<rparr>) = g s"
begin

lemma kept_acl: "kept g (rcpt_acl P)"
  unfolding rcpt_acl_def
  by (rule kept_steps) (auto simp: kept_def go_def refuse_def blind_acclist split: prod.split)

lemma kept_verdict: "kept g (rcpt_verdict r)"
  by (simp add: kept_def rcpt_verdict_def count_error_def refuse_def go_def blind_errcount)

lemma kept_mailbox: "(\<And>n. kept g (k n)) \<Longrightarrow> kept g (rcpt_mailbox P a good k)"
proof -
  assume k: "\<And>n. kept g (k n)"
  let ?chk = "match_addr P ((no_pats (po_chkrcpt P))\<lparr>cl_ok := b\<rparr>) (change (\<lambda>s. s\<lparr>se_chkrcptok := False\<rparr>)) go"
  let ?rest = "\<lambda>tmp s. if se_chkrcptok s then k good s
       else also_do (mailbox_result P (rcpt_mode P good tmp) (se_addr s) rcpt_verdict) (k (rcpt_mode P good tmp)) s"
  have m: "kept g (match_addr P ((no_pats (po_chkrcpt P))\<lparr>cl_ok := b\<rparr>) (change (\<lambda>s. s\<lparr>se_chkrcptok := False\<rparr>)) go)" for b
    by (intro kept_match_addr kept_change kept_steps) (simp add: blind_chkrcptok)
  have "kept g (also_do (mailbox_result P (rcpt_mode P good tmp) a rcpt_verdict) (k (rcpt_mode P good tmp)))" for tmp a
    by (intro kept_steps kept_mailbox_result kept_verdict k)
  then have "kept g (?rest tmp)" for tmp using k unfolding kept_def by auto
  then have "kept g (also_do (match_addr P ((no_pats (po_chkrcpt P))\<lparr>cl_ok := b\<rparr>) (change (\<lambda>s. s\<lparr>se_chkrcptok := False\<rparr>)) go)
      (?rest tmp))" for tmp b
    by (intro kept_also m)
  then show ?thesis using k unfolding kept_def rcpt_mailbox_def by (auto split: option.split)
qed

lemma kept_limits: "kept g (rcpt_limits P)"
  unfolding rcpt_limits_def by (intro kept_steps kept_ends)

end

text \<open>Views that do not see the address and who is allowed to relay either: all of \<^verbatim>\<open>smtp_rcpt\<close> but the record.\<close>

locale relay_view = rcpt_view +
  assumes blind_addr: "g (s\<lparr>se_addr := a\<rparr>) = g s"
    and blind_relayclient: "g (s\<lparr>se_relayclient := x\<rparr>) = g s"
    and blind_authenticated: "g (s\<lparr>se_authenticated := n\<rparr>) = g s"
begin

lemma kept_mail_address: "kept g (mail_address P arg)"
  by (auto simp: kept_def mail_address_def Let_def go_def refuse_def blind_addr split: prod.split option.split)

lemma kept_srs: "kept g (rcpt_srs P)"
  by (auto simp: kept_def rcpt_srs_def if_do_def go_def die_with_def blind_addr blind_ended split: srsres.split)

lemma blind_pop: "g (snd (pop_bef_smtp P m s)) = g s"
proof -
  have r: "g (s\<lparr>se_authenticated := n, se_relayclient := x\<rparr>) = g s" for x n
    using blind_relayclient [where s = "s\<lparr>se_authenticated := n\<rparr>" and x = x] blind_authenticated [where s = s and n = n]
    by simp
  show ?thesis
    by (auto simp: pop_bef_smtp_def err_library_def Let_def blind_authenticated r split: option.split)
qed

lemma kept_relay: "kept g (rcpt_relay P a)"
  using blind_pop [of "cstr (se_mailfrom s)" s for s]
  by (auto simp: kept_def rcpt_relay_def go_def refuse_def blind_addr split: option.split prod.split)
     (metis snd_conv)+

end

text \<open>
  Views that do not see what \<^verbatim>\<open>smtp_mail\<close> notes about the client and the parameters of the command: the tests of the
  sender's host, the parameters, the lists.
\<close>

locale words_view = view +
  assumes blind_size: "g (s\<lparr>se_flagsize := b\<rparr>) = g s" "g (s\<lparr>se_msgsize := w\<rparr>) = g s"
    and blind_user: "g (s\<lparr>se_user := u\<rparr>) = g s" "g (s\<lparr>se_info := i\<rparr>) = g s" "g (s\<lparr>se_proto := p\<rparr>) = g s"
    and blind_words: "g (s\<lparr>se_mfmem := m\<rparr>) = g s" "g (s\<lparr>se_mflen := n\<rparr>) = g s" "g (s\<lparr>se_utf8 := b\<rparr>) = g s"
begin

lemma kept_mail_proto: "kept g mail_proto"
  by (simp add: kept_def mail_proto_def Let_def blind_user)

lemma kept_mail_host: "kept g (mail_host P)"
  by (auto simp: kept_def mail_host_def Let_def split: option.split)

lemma kept_mail_dns: "kept g (mail_dns P)"
  by (auto simp: kept_def mail_dns_def split: dnsres.split)

lemma kept_mailfrom_auth: "kept g (mailfrom_auth P a l)"
proof -
  have "g (s\<lparr>se_user := u, se_info := i\<rparr>) = g s" for s u i
    using blind_user(2) [where s = "s\<lparr>se_user := u\<rparr>" and i = i] blind_user(1) [where s = s and u = u] by simp
  then show ?thesis
    by (auto simp: kept_def mailfrom_auth_def Let_def crash_def blind_ended blind_user)
qed

lemma blind_mf_word: "g (snd (mf_word P s)) = g s"
proof (cases "se_mfmem s")
  case None
  then show ?thesis by (simp add: mf_word_def crash_def blind_ended)
next
  case (Some m)
  have a: "g (snd (mailfrom_auth P b l (s\<lparr>se_mfmem := v\<rparr>))) = g s" for b l v
    using kept_mailfrom_auth blind_words(1) [where s = s and m = v] by (simp add: kept_def)
  have z: "g (s\<lparr>se_mfmem := v, se_msgsize := w\<rparr>) = g s" for v w
    using blind_size(2) [where s = "s\<lparr>se_mfmem := v\<rparr>" and w = w] blind_words(1) [where s = s and m = v] by simp
  have f: "g (s\<lparr>se_mfmem := v, se_msgsize := w, se_flagsize := b\<rparr>) = g s" for v w b
    using z blind_size(1) [where s = "s\<lparr>se_mfmem := v, se_msgsize := w\<rparr>" and b = b] by simp
  show ?thesis
    by (auto simp: mf_word_def Some Let_def mailfrom_size_def a z f blind_words(3) split: prod.split)
qed

lemma blind_mf_loop: "g (mf_loop P cs s) = g s"
proof (induction cs arbitrary: s)
  case (Cons c cs)
  have p: "g (mf_put c s) = g s"
    using blind_words(2) [where s = "s\<lparr>se_mfmem := m\<rparr>" and n = n for m n] blind_words(1) [where s = s]
    by (simp add: mf_put_def Let_def)
  obtain ok s1 where w: "mf_word P s = (ok, s1)" by (metis surj_pair)
  have s1: "g s1 = g s" using blind_mf_word [of s] w by simp
  then show ?case
    using Cons.IH [of "s1\<lparr>se_mflen := 0\<rparr>"] Cons.IH [of "mf_put c s"] p w blind_words(2) [where s = s1 and n = 0]
    by (cases ok) simp_all
qed simp

lemma kept_parms: "kept g (mailfrom_parms P arg)"
proof -
  have "g (mf_loop P cs (s\<lparr>se_mflen := 0\<rparr>)) = g s" for cs s
    using blind_mf_loop [of cs "s\<lparr>se_mflen := 0\<rparr>"] blind_words(2) [where s = s and n = 0] by simp
  then show ?thesis by (auto simp: kept_def mailfrom_parms_def Let_def blind_words)
qed

lemmas words_kept = kept_mail_proto kept_mail_host kept_mail_dns kept_parms

end

text \<open>
  Views that also do not see who is allowed to relay, and see the sender only up to
  the case of its letters: all of \<^verbatim>\<open>smtp_mail\<close> but the start of the transaction and its final reply.
\<close>

locale mail_view = relay_view + words_view +
  assumes blind_case: "g (s\<lparr>se_mailfrom := map (ml_lower (po_match P)) (se_mailfrom s)\<rparr>) = g s"
    and blind_flags: "g (s\<lparr>se_chksndrok := b\<rparr>) = g s" "g (s\<lparr>se_chkdomok := b\<rparr>) = g s"
begin

lemma kept_match_mailfrom: "kept g y \<Longrightarrow> kept g n \<Longrightarrow> kept g (match_mailfrom P cl y n)"
proof -
  assume k: "kept g y" "kept g n"
  have "g (snd (match_mailfrom P cl y n s)) = g s" for s
  proof -
    have m: "snd (list_match P cl (se_env s) (se_mailfrom s)) = map (ml_lower (po_match P)) (se_mailfrom s)"
      by (simp add: list_match_def address_match_def Let_def)
    obtain r a where ra: "list_match P cl (se_env s) (se_mailfrom s) = (r, a)" by (metis surj_pair)
    have "kept g (on_match r y n)" by (rule kept_on_match [OF k])
    then show ?thesis using m ra blind_case [of s] by (simp add: match_mailfrom_def kept_def)
  qed
  then show ?thesis by (simp add: kept_def)
qed

lemma kept_mail_spf: "kept g (mail_spf P)"
  by (auto simp: kept_def mail_spf_def Let_def err_spf_def split: option.split)

lemma blind_compare: "g (snd (domain_compare P a b s)) = g s"
  by (auto simp: domain_compare_def err_library_def split: option.split)

lemma blind_pass: "g (snd (masq_pass P u d a f s)) = g s"
  using blind_compare by (auto simp: masq_pass_def Let_def split: option.split prod.split) (metis snd_conv)+

lemma blind_masq: "g (masq_loop P u d x i s) = g s"
  using blind_pass by (auto simp: masq_loop_def split: option.split prod.split) (metis snd_conv)+

lemma kept_masquerade: "kept g (check_masquerade P)"
proof -
  have m: "kept g (addrallowed P a (\<lambda>r. if r = 0 then refuse 553 else change (masq_loop P u d x i)))" for a u d x i
    by (intro kept_allowed kept_steps kept_ends kept_change blind_masq)
  show ?thesis
    using m by (auto simp: kept_def check_masquerade_def Let_def split: option.split)
qed

lemma kept_spoof: "kept g (check_spoof P l t)"
  using blind_pop [of t s for s] kept_ends(1)
  by (auto simp: kept_def check_spoof_def go_def split: prod.split) (metis snd_conv)+

lemma kept_account: "kept g (check_account P l t at)"
  unfolding check_account_def
  by (auto intro!: kept_pwd kept_steps kept_ends split: pwdres.split)

lemma kept_sender_addr: "kept g (check_sender_addr P t)"
proof -
  have c: "kept g (change (\<lambda>s. s\<lparr>se_chksndrok := False\<rparr>))" by (simp add: kept_change blind_flags)
  have "kept g (also_do (on_match r (change (\<lambda>s. s\<lparr>se_chksndrok := False\<rparr>)) go)
       (if_do se_chksndrok go (all_do [check_account P l b n, check_spoof P l b, check_masquerade P])))" for r l b n
    by (intro kept_steps kept_on_match c kept_account kept_spoof kept_masquerade)
  then show ?thesis by (simp add: kept_def check_sender_addr_def Let_def split: prod.split)
qed

lemma kept_sender: "kept g (check_sender P a b)"
  using kept_sender_addr by (auto simp: kept_def check_sender_def split: option.split)

lemma kept_mail_sender: "kept g (mail_sender P)"
proof -
  let ?k = "\<lambda>a b. if po_hasvirtual P \<and> \<not> po_symbol P ''inquery'' then refuse 451
      else when_do (\<lambda>s. (a = 1 \<or> b = 1) \<and> has_env ''CHECKSENDER'' s) (check_sender P a b)"
  have k: "kept g (?k a b)" for a b :: int by (intro kept_steps kept_ends kept_sender)
  have "kept g (if_do (\<lambda>s. has_env ''CUGMAIL'' s \<and> a = 0) (refuse 553)
         (\<lambda>s. (case (if se_authenticated s \<noteq> 0 \<or> se_authd s \<noteq> 0 then Some (remote_info s) else None) of
                 None \<Rightarrow> \<lambda>k. k (-1) | Some None \<Rightarrow> \<lambda>k. crash | Some (Some i) \<Rightarrow> addrallowed P i) (?k a) s))" for a :: int
    using k [of a] kept_allowed [of "?k a"]
    by (intro kept_if_do) (auto simp: kept_def split: option.split)
  then have "kept g (addrallowed P b (\<lambda>a. if_do (\<lambda>s. has_env ''CUGMAIL'' s \<and> a = 0) (refuse 553)
         (\<lambda>s. (case (if se_authenticated s \<noteq> 0 \<or> se_authd s \<noteq> 0 then Some (remote_info s) else None) of
                 None \<Rightarrow> \<lambda>k. k (-1) | Some None \<Rightarrow> \<lambda>k. crash | Some (Some i) \<Rightarrow> addrallowed P i) (?k a) s)))" for b
    by (rule kept_allowed)
  then show ?thesis by (simp add: kept_def mail_sender_def)
qed

lemmas mail_kept = words_kept kept_match_mailfrom kept_mail_spf kept_mail_sender

end

end
