(* ===== verification/SmtpAnswers.thy ===== *)
theory SmtpAnswers
  imports SmtpFrames
begin

text \<open>
  How the handlers answer, and what holds where they go on. \<open>answers f\<close>: a step that goes on says nothing,
  one that does not has sent exactly one reply, not 250, unless the process is gone. \<open>gives C f D\<close>: where the
  step goes on from \<open>C\<close>, \<open>D\<close> holds.
\<close>

section \<open>One reply\<close>

definition replied :: "sess \<Rightarrow> sess \<Rightarrow> bool" where
  "replied s s' \<longleftrightarrow> (\<exists>c. c \<noteq> 250 \<and> se_replies s' = se_replies s @ [c]) \<or> (se_replies s' = se_replies s \<and> se_ended s')"

lemma replied_reply [simp]:
  "c \<noteq> 250 \<Longrightarrow> se_replies s1 = se_replies s \<Longrightarrow> replied s (send_code c s1)"
  "c \<noteq> 250 \<Longrightarrow> se_replies s1 = se_replies s \<Longrightarrow> replied s ((send_code c s1)\<lparr>se_ended := b\<rparr>)"
  by (auto simp: replied_def send_code_def)

lemma replied_cong: "se_replies s1 = se_replies s \<Longrightarrow> replied s1 s' = replied s s'"
  by (simp add: replied_def)

lemma reply_fields [simp]: "se_replies (send_code c s) = se_replies s @ [c]" "se_ended (send_code c s) = se_ended s"
  by (simp_all add: send_code_def)

definition answers :: "cmd \<Rightarrow> bool" where
  "answers f \<longleftrightarrow> (\<forall>s ok s'. f s = (ok, s') \<longrightarrow>
     (if ok then se_replies s' = se_replies s \<and> se_ended s' = se_ended s else replied s s'))"

named_theorems answering \<open>steps that answer\<close>

lemma answersD:
  "answers f \<Longrightarrow> f s = (True, s') \<Longrightarrow> se_replies s' = se_replies s \<and> se_ended s' = se_ended s"
  "answers f \<Longrightarrow> f s = (False, s') \<Longrightarrow> replied s s'"
  unfolding answers_def by (drule spec [of _ s], drule spec, drule spec [of _ s'], drule (1) mp, simp)+

lemma answersI:
  assumes "\<And>s s'. f s = (True, s') \<Longrightarrow> se_replies s' = se_replies s \<and> se_ended s' = se_ended s"
    and "\<And>s s'. f s = (False, s') \<Longrightarrow> replied s s'"
  shows "answers f"
  using assms unfolding answers_def by (metis (full_types))

lemma answers_ends [answering]: "c \<noteq> 250 \<Longrightarrow> answers (refuse c)" "c \<noteq> 250 \<Longrightarrow> answers (die_with c)" "answers crash"
  by (auto simp: answers_def refuse_def die_with_def crash_def) (auto simp: replied_def)

lemma answers_go [answering]: "answers go" "answers (Pair True)"
  by (auto simp: answers_def go_def)

lemma answers_change:
  "(\<And>s. se_replies (f s) = se_replies s \<and> se_ended (f s) = se_ended s) \<Longrightarrow> answers (change f)"
  by (simp add: answers_def change_def)

lemma answers_also [answering]:
  assumes "answers f" "answers h"
  shows "answers (also_do f h)"
proof (rule answersI)
  fix s s'
  obtain b s1 where f: "f s = (b, s1)" by (metis surj_pair)
  show "se_replies s' = se_replies s \<and> se_ended s' = se_ended s" if "also_do f h s = (True, s')"
    using that f answersD(1) [OF assms(1), of s s1] answersD(1) [OF assms(2), of s1 s']
    by (cases b) (simp_all add: also_do_def)
  show "replied s s'" if "also_do f h s = (False, s')"
    using that f answersD [OF assms(1), of s s1] answersD(2) [OF assms(2), of s1 s'] replied_cong [of s1 s s']
    by (cases b) (simp_all add: also_do_def)
qed

lemma answers_all [answering]:
  "answers (all_do [])" "answers f \<Longrightarrow> answers (all_do fs) \<Longrightarrow> answers (all_do (f # fs))"
  by (simp_all add: all_do_simps answering)

text \<open>The step may depend on the state in which it is taken.\<close>

lemma answers_here:
  assumes a: "\<And>s. answers (f s)"
  shows "answers (\<lambda>s. f s s)"
  by (rule answersI) (use answersD [OF a] in blast)+

lemma answers_if_do [answering]: "answers f \<Longrightarrow> answers h \<Longrightarrow> answers (if_do b f h)"
  by (simp add: answers_def if_do_def)

lemma answers_if [answering]: "(b \<Longrightarrow> answers f) \<Longrightarrow> (\<not> b \<Longrightarrow> answers h) \<Longrightarrow> answers (if b then f else h)"
  by simp

lemma answers_guard [answering]: "answers (setup_guard P)"
  by (simp add: setup_guard_def answering split: nat.split)

lemma answers_on_match [answering]: "answers y \<Longrightarrow> answers n \<Longrightarrow> answers (on_match r y n)"
  by (simp add: on_match_def answering split: amres.split)

lemma answers_match_addr [answering]:
  assumes y: "answers y" "answers n"
  shows "answers (match_addr P cl y n)"
proof (rule answersI)
  fix s s' :: sess
  obtain r a where l: "list_match P cl (se_env s) (se_addr s) = (r, a)" by (metis surj_pair)
  note d = answersD [OF answers_on_match [OF y], of r "s\<lparr>se_addr := a\<rparr>" s']
  show "se_replies s' = se_replies s \<and> se_ended s' = se_ended s" if "match_addr P cl y n s = (True, s')"
    using that l d(1) by (simp add: match_addr_def)
  show "replied s s'" if "match_addr P cl y n s = (False, s')"
    using that l d(2) replied_cong [of "s\<lparr>se_addr := a\<rparr>" s s'] by (simp add: match_addr_def)
qed

lemma answers_allowed [answering]: "(\<And>r. answers (k r)) \<Longrightarrow> answers (addrallowed P a k)"
  unfolding addrallowed_def Let_def
  by (cases "rcpthosts (po_lib P) (po_match P) (po_rhosts P) a False = -1") (simp_all add: answers_ends)

lemma answers_address [answering]: "answers (mail_address P arg)"
  by (auto simp: answers_def mail_address_def Let_def go_def refuse_def
      split: prod.split_asm option.split_asm if_splits)

lemma answers_pwd [answering]: "(\<And>r. answers (k r)) \<Longrightarrow> answers (check_user_pwd P a n k)"
  by (simp add: check_user_pwd_def answering split: option.split)

text \<open>The library of the virtual domains, where there is one, has the function \<^verbatim>\<open>inquery\<close>.\<close>

definition library_ok :: "policy \<Rightarrow> bool" where
  "library_ok P \<longleftrightarrow> po_hasvirtual P \<and> po_symbol P ''inquery''"

lemma answers_sql: "library_ok P \<Longrightarrow> (\<And>r. answers (k r)) \<Longrightarrow> answers (check_user_sql P a k)"
proof -
  assume l: "library_ok P" and k: "\<And>r. answers (k r)"
  have e: "check_user_sql P a k = (case po_user P a of None \<Rightarrow> die_with 451 | Some v \<Rightarrow> k (if v = 4 then 0 else v))"
    using l by (auto simp: check_user_sql_def library_ok_def split: option.split)
  show ?thesis unfolding e by (auto intro!: answering k split: option.split)
qed

lemma answers_recipients [answering]: "(\<And>r. answers (k r)) \<Longrightarrow> answers (recipients_ext P a k)"
  by (simp add: recipients_ext_def Let_def answering)

lemma answers_mailbox_result:
  "library_ok P \<or> m = 3 \<or> m = 4 \<Longrightarrow> (\<And>r. answers (k r)) \<Longrightarrow> answers (mailbox_result P m a k)"
  by (auto simp: mailbox_result_def check_local_def Let_def answering answers_sql)

lemma answers_verdict [answering]: "answers (rcpt_verdict r)"
  by (auto simp: answers_def rcpt_verdict_def count_error_def refuse_def go_def split: if_splits)

lemma answers_acl [answering]: "answers (rcpt_acl P)"
  by (auto simp: answers_def rcpt_acl_def if_do_def go_def refuse_def
      split: prod.split_asm if_splits)

lemma answers_relay [answering]: "answers (rcpt_relay P a)"
  by (auto simp: answers_def rcpt_relay_def pop_bef_smtp_def err_library_def put_env_def Let_def refuse_def go_def
      split: option.split_asm prod.split_asm if_splits)

lemma answers_limits [answering]: "answers (rcpt_limits P)"
  unfolding rcpt_limits_def by (intro answering) simp_all

text \<open>A decoding that fails without ending the process: it has sent a reply, and the handler goes on.\<close>

definition srs_fails :: "policy \<Rightarrow> sess \<Rightarrow> bool" where
  "srs_fails P s \<longleftrightarrow> is_srs P (se_addr s) \<and> po_srsreverse P (cstr (se_addr s)) \<in> {SrsError, SrsOff}"

lemma rcpt_srs_cases:
  assumes "rcpt_srs P s = (ok, s')"
  shows "ok \<Longrightarrow> se_replies s' = se_replies s @ (if srs_fails P s then [451] else []) \<and> se_ended s' = se_ended s"
    and "\<not> ok \<Longrightarrow> se_ended s'"
  using assms by (auto simp: rcpt_srs_def srs_fails_def if_do_def go_def die_with_def split: srsres.split_asm if_splits)

lemma answers_put_env [answering]: "answers (change (put_env n v))"
  by (simp add: answers_change put_env_def)

section \<open>The verdict on a recipient\<close>

text \<open>What every part of \<^verbatim>\<open>smtp_rcpt\<close> but the record leaves alone.\<close>

definition env_view :: "sess \<Rightarrow> bytes \<times> int \<times> bytes \<times> bool" where
  "env_view s = (se_rcptto s, se_rcptcount s, se_mailfrom s, se_seenmail s)"

interpretation env: relay_view env_view P for P
  by unfold_locales (simp_all add: env_view_def)

text \<open>
  The handler ends with 250 and a new record, or with another reply and the old envelope; with \<open>r\<close> false the
  replies are left open. A record keeps the limits.
\<close>

definition within :: "policy \<Rightarrow> int \<Rightarrow> bytes \<Rightarrow> bool" where
  "within P n from \<longleftrightarrow> (po_maxrcptcount P > 0 \<longrightarrow> n \<le> po_maxrcptcount P) \<and> (length from = 1 \<longrightarrow> n \<le> 1)"

definition recorded :: "policy \<Rightarrow> bool \<Rightarrow> sess \<Rightarrow> sess \<Rightarrow> bool" where
  "recorded P r s s' \<longleftrightarrow> (r \<longrightarrow> se_replies s' = se_replies s @ [250] \<and> se_ended s' = se_ended s) \<and>
     env_view s' = (se_rcptto s @ CHR ''T'' # cstr (se_addr s') @ [NUL], se_rcptcount s + 1, se_mailfrom s, se_seenmail s) \<and>
     within P (se_rcptcount s + 1) (se_mailfrom s)"

definition decides :: "policy \<Rightarrow> bool \<Rightarrow> cmd \<Rightarrow> bool" where
  "decides P r f \<longleftrightarrow> (\<forall>s ok s'. f s = (ok, s') \<longrightarrow>
     (if ok then recorded P r s s' else (r \<longrightarrow> replied s s') \<and> env_view s' = env_view s))"

named_theorems deciding \<open>handlers that decide\<close>

lemma decidesD:
  "decides P r f \<Longrightarrow> f s = (True, s') \<Longrightarrow> recorded P r s s'"
  "decides P r f \<Longrightarrow> f s = (False, s') \<Longrightarrow> (r \<longrightarrow> replied s s') \<and> env_view s' = env_view s"
  unfolding decides_def by (drule spec [of _ s], drule spec, drule spec [of _ s'], drule (1) mp, simp)+

lemma decidesI:
  assumes "\<And>s s'. f s = (True, s') \<Longrightarrow> recorded P r s s'"
    and "\<And>s s'. f s = (False, s') \<Longrightarrow> (r \<longrightarrow> replied s s') \<and> env_view s' = env_view s"
  shows "decides P r f"
  using assms unfolding decides_def by (metis (full_types))

text \<open>A state that differs in nothing a verdict looks at.\<close>

lemma decides_cong:
  assumes "r \<Longrightarrow> se_replies s1 = se_replies s \<and> se_ended s1 = se_ended s" "env_view s1 = env_view s"
  shows "recorded P r s1 s' = recorded P r s s'" "(r \<longrightarrow> replied s1 s') = (r \<longrightarrow> replied s s')"
  using assms by (auto simp: recorded_def replied_def env_view_def)

lemma decides_also [deciding]:
  assumes a: "r \<Longrightarrow> answers f" and k: "kept env_view f" and h: "decides P r h"
  shows "decides P r (also_do f h)"
proof (rule decidesI)
  fix s s'
  obtain b s1 where f: "f s = (b, s1)" by (metis surj_pair)
  have e: "env_view s1 = env_view s" using k f unfolding kept_def by (metis snd_conv)
  have u: "b \<Longrightarrow> r \<Longrightarrow> se_replies s1 = se_replies s \<and> se_ended s1 = se_ended s"
    using answersD(1) [OF a, of s s1] f by simp
  have c: "b \<Longrightarrow> recorded P r s1 s' = recorded P r s s'" "b \<Longrightarrow> (r \<longrightarrow> replied s1 s') = (r \<longrightarrow> replied s s')"
    by (rule decides_cong [OF u e], assumption, assumption)+
  show "recorded P r s s'" if "also_do f h s = (True, s')"
    using that f c decidesD(1) [OF h, of s1 s'] by (cases b) (simp_all add: also_do_def)
  show "(r \<longrightarrow> replied s s') \<and> env_view s' = env_view s" if "also_do f h s = (False, s')"
    using that f c e decidesD(2) [OF h, of s1 s'] answersD(2) [OF a, of s s1] by (cases b) (simp_all add: also_do_def)
qed

lemma decides_all [deciding]:
  assumes "r \<Longrightarrow> answers f" "kept env_view f" "decides P r (all_do (h # fs))"
  shows "decides P r (all_do (f # h # fs))"
  using assms by (simp add: all_do_simps(2) [of f] decides_also)

lemma decides_record [deciding]: "decides P r (all_do [rcpt_limits P, rcpt_ok])"
proof -
  have e: "all_do [rcpt_limits P, rcpt_ok] s =
      (if po_maxrcptcount P > 0 \<and> se_rcptcount s + 1 > po_maxrcptcount P then (False, send_code 557 s)
       else if length (se_mailfrom s) = 1 \<and> se_rcptcount s + 1 > 1 then (False, send_code 553 s) else rcpt_ok s)" for s
    by (simp add: all_do_simps also_do_def rcpt_limits_def if_do_def go_def refuse_def rcpt_ok_def)
  have "recorded P r s s'" if "rcpt_ok s = (b, s')" "within P (se_rcptcount s + 1) (se_mailfrom s)" for s s' b
    using that by (auto simp: rcpt_ok_def recorded_def env_view_def send_code_def)
  then show ?thesis
    by (intro decidesI) (auto simp: e within_def env.blind_reply rcpt_ok_def split: if_splits)
qed

lemma decides_one [deciding]: "decides P r f \<Longrightarrow> decides P r (all_do [f])"
proof -
  have "all_do [f] = f" by (rule ext) (auto simp: all_do_simps also_do_def split: prod.split bool.split)
  then show "decides P r f \<Longrightarrow> decides P r (all_do [f])" by simp
qed

lemma decides_ends [deciding]: "c \<noteq> 250 \<Longrightarrow> decides P r (refuse c)" "c \<noteq> 250 \<Longrightarrow> decides P r (die_with c)"
  by (auto simp: decides_def refuse_def die_with_def env_view_def send_code_def replied_def)

lemma decides_if [deciding]: "(b \<Longrightarrow> decides P r f) \<Longrightarrow> (\<not> b \<Longrightarrow> decides P r h) \<Longrightarrow> decides P r (if b then f else h)"
  by simp

lemma decides_here:
  assumes d: "\<And>s. decides P r (f s)"
  shows "decides P r (\<lambda>s. f s s)"
  by (rule decidesI) (use decidesD [OF d] in blast)+

lemma decides_ite:
  assumes "decides P r f" "\<And>s. decides P r (h s)"
  shows "decides P r (\<lambda>s. if b s then f s else h s s)"
proof -
  have "decides P r (\<lambda>s. (if b s then f else h s) s)" by (rule decides_here) (simp add: assms)
  then show ?thesis by (simp add: if_distribR cong: if_cong)
qed

lemma decides_match [deciding]:
  assumes y: "decides P r y" "decides P r n"
  shows "decides P r (match_addr P cl y n)"
proof (rule decidesI)
  have o: "decides P r (on_match x y n)" for x
    using y by (simp add: on_match_def deciding split: amres.split)
  fix s s' :: sess
  obtain x a where l: "list_match P cl (se_env s) (se_addr s) = (x, a)" by (metis surj_pair)
  have v: "env_view (s\<lparr>se_addr := a\<rparr>) = env_view s" by (simp add: env_view_def)
  have e: "recorded P r (s\<lparr>se_addr := a\<rparr>) s' = recorded P r s s'" "(r \<longrightarrow> replied (s\<lparr>se_addr := a\<rparr>) s') = (r \<longrightarrow> replied s s')"
    by (rule decides_cong [OF _ v]; simp)+
  note d = decidesD [OF o, of x "s\<lparr>se_addr := a\<rparr>" s', unfolded v]
  show "recorded P r s s'" if "match_addr P cl y n s = (True, s')"
    using that l d(1) e by (simp add: match_addr_def)
  show "(r \<longrightarrow> replied s s') \<and> env_view s' = env_view s" if "match_addr P cl y n s = (False, s')"
    using that l d(2) e by (simp add: match_addr_def)
qed

lemma decides_allowed [deciding]: "(\<And>n. decides P r (k n)) \<Longrightarrow> decides P r (addrallowed P a k)"
  using decides_ends(2) [of 451] by (auto simp: decides_def addrallowed_def Let_def)

lemma decides_end: "decides P r (rcpt_end P good)"
  unfolding rcpt_end_def
  by (intro deciding answering answers_limits env.kept_limits kept_steps env.base_steps) simp_all

lemma decides_mailbox:
  assumes k: "\<And>n. decides P r (k n)" and ok: "r \<Longrightarrow> library_ok P \<or> \<not> po_hasvirtual P"
  shows "decides P r (rcpt_mailbox P a good k)"
proof -
  have c: "answers (change (\<lambda>s. s\<lparr>se_chkrcptok := False\<rparr>))" "kept env_view (change (\<lambda>s. s\<lparr>se_chkrcptok := False\<rparr>))"
    by (simp_all add: answers_change kept_change env_view_def)
  have m: "library_ok P \<or> rcpt_mode P good tmp = 3 \<or> rcpt_mode P good tmp = 4" if r for tmp
    using ok [OF that] by (auto simp: rcpt_mode_def)
  have "decides P r (also_do (mailbox_result P (rcpt_mode P good tmp) b rcpt_verdict) (k (rcpt_mode P good tmp)))" for tmp b
    by (intro decides_also answers_mailbox_result [OF m] answering env.kept_mailbox_result env.kept_verdict k)
  then have "decides P r (\<lambda>s. if se_chkrcptok s then k good s
       else also_do (mailbox_result P (rcpt_mode P good tmp) (se_addr s) rcpt_verdict) (k (rcpt_mode P good tmp)) s)" for tmp
    by (intro decides_ite [where h = "\<lambda>s. also_do (mailbox_result P (rcpt_mode P good tmp) (se_addr s) rcpt_verdict)
        (k (rcpt_mode P good tmp))"] k)
  then have "decides P r (also_do
      (match_addr P ((no_pats (po_chkrcpt P))\<lparr>cl_ok := b\<rparr>) (change (\<lambda>s. s\<lparr>se_chkrcptok := False\<rparr>)) go)
      (\<lambda>s. if se_chkrcptok s then k good s
       else also_do (mailbox_result P (rcpt_mode P good tmp) (se_addr s) rcpt_verdict) (k (rcpt_mode P good tmp)) s))" for b tmp
    by (intro decides_also answering env.kept_match_addr kept_steps c)
  then show ?thesis using k unfolding decides_def rcpt_mailbox_def by (auto split: option.split)
qed

lemma decides_rest:
  assumes "r \<Longrightarrow> library_ok P \<or> \<not> po_hasvirtual P"
  shows "decides P r (rcpt_rest P good)"
proof -
  let ?k = "\<lambda>a. also_do (rcpt_relay P a) (rcpt_mailbox P a good (rcpt_end P))"
  have k: "decides P r (?k a)" for a
    by (intro decides_also answering env.kept_relay decides_mailbox decides_end assms)
  have "decides P r (\<lambda>s. (if \<not> se_chkdomok s \<and> \<not> has_env ''AUTH_ALL'' s then addrallowed P (cstr (se_addr s)) else (\<lambda>k. k 0)) ?k s)"
    by (rule decides_here) (auto intro: decides_allowed k)
  then show ?thesis
    unfolding rcpt_rest_def
    by (intro deciding answering answers_acl env.kept_acl kept_steps env.base_steps) simp_all
qed

text \<open>The handler of RCPT: the steps up to the address, the decoding of SRS, the rest.\<close>

definition rcpt_head :: "policy \<Rightarrow> bytes \<Rightarrow> cmd" where
  "rcpt_head P arg = all_do (take 4 (rcpt_steps P arg))"

definition rcpt_tail :: "policy \<Rightarrow> cmd" where
  "rcpt_tail P = all_do (drop 5 (rcpt_steps P []))"

lemma rcpt_steps_split: "all_do (rcpt_steps P arg) = also_do (rcpt_head P arg) (also_do (rcpt_srs P) (rcpt_tail P))"
proof -
  have "rcpt_steps P arg = take 4 (rcpt_steps P arg) @ rcpt_srs P # drop 5 (rcpt_steps P [])"
    by (simp add: rcpt_steps_def)
  then show ?thesis unfolding rcpt_head_def rcpt_tail_def by (metis all_do_append all_do_simps(2))
qed

lemma rcpt_head_answers: "answers (rcpt_head P arg)" "kept env_view (rcpt_head P arg)"
proof -
  let ?a = "\<lambda>s. addrallowed P (cstr (se_addr s)) (\<lambda>r. if r = 0 then refuse 553 else go)"
  have k: "kept env_view (?a s)" for s by (intro env.base_steps kept_steps)
  have a: "answers (?a s)" for s by (intro answering) simp
  have 1: "kept env_view (rcpt_cug P)"
    unfolding rcpt_cug_def by (intro kept_if_do kept_here [of _ ?a] k kept_go)
  have 2: "answers (rcpt_cug P)"
    unfolding rcpt_cug_def by (intro answers_if_do answers_here [of ?a] a answers_go)
  show "answers (rcpt_head P arg)"
    unfolding rcpt_head_def rcpt_steps_def rcpt_address_def by (simp, intro answering 2) simp_all
  show "kept env_view (rcpt_head P arg)"
    unfolding rcpt_head_def rcpt_steps_def rcpt_address_def
    by (simp, intro kept_steps env.base_steps env.kept_mail_address 1)
qed

lemma rcpt_tail_decides: "(r \<Longrightarrow> library_ok P \<or> \<not> po_hasvirtual P) \<Longrightarrow> decides P r (rcpt_tail P)"
  unfolding rcpt_tail_def rcpt_steps_def rcpt_good_def
  by (simp, intro deciding answering decides_rest kept_steps env.base_steps) simp_all

text \<open>What the whole handler does: the replies, the first of them left by the decoding of SRS, and the record.\<close>

lemma rcpt_decides: "decides P False (all_do (rcpt_steps P arg))"
  unfolding rcpt_steps_split
  by (intro decides_also rcpt_head_answers env.kept_srs rcpt_tail_decides) simp_all

definition srs_reply :: "policy \<Rightarrow> bytes \<Rightarrow> sess \<Rightarrow> nat list" where
  "srs_reply P arg s = (case rcpt_head P arg s of (ok, s1) \<Rightarrow> if ok \<and> srs_fails P s1 then [451] else [])"

lemma smtp_rcpt_outcome:
  assumes lib: "library_ok P \<or> \<not> po_hasvirtual P" and run: "smtp_rcpt P arg s = s'" "\<not> se_ended s'"
  shows "(se_replies s' = se_replies s @ srs_reply P arg s @ [250] \<and> recorded P False s s') \<or>
    (\<exists>c. c \<noteq> 250 \<and> se_replies s' = se_replies s @ srs_reply P arg s @ [c] \<and> env_view s' = env_view s)"
proof -
  obtain b1 s1 where h: "rcpt_head P arg s = (b1, s1)" by (metis surj_pair)
  have e1: "env_view s1 = env_view s" using rcpt_head_answers(2) [of P arg] h unfolding kept_def by (metis snd_conv)
  show ?thesis
  proof (cases b1)
    case False
    then have "s' = s1" using run(1) h by (simp add: smtp_rcpt_def rcpt_steps_split also_do_def)
    then show ?thesis using answersD(2) [OF rcpt_head_answers(1), of P arg s s1] h False run(2) e1
      by (auto simp: replied_def srs_reply_def)
  next
    case True
    then have r1: "se_replies s1 = se_replies s" using answersD(1) [OF rcpt_head_answers(1), of P arg s s1] h by simp
    obtain b2 s2 where d: "rcpt_srs P s1 = (b2, s2)" by (metis surj_pair)
    note sc = rcpt_srs_cases [OF d]
    have e2: "env_view s2 = env_view s" using env.kept_srs [of P] d e1 unfolding kept_def by (metis snd_conv)
    have "b2" if "\<not> se_ended s2" using sc(2) that by blast
    moreover have "\<not> b2 \<Longrightarrow> s' = s2" using run(1) h d True by (simp add: smtp_rcpt_def rcpt_steps_split also_do_def)
    ultimately have b2: b2 using run(2) by blast
    then have r2: "se_replies s2 = se_replies s @ srs_reply P arg s" using sc(1) r1 h True by (simp add: srs_reply_def)
    obtain b3 s3 where t3: "rcpt_tail P s2 = (b3, s3)" by (metis surj_pair)
    then have "s3 = s'" using run(1) h d True b2 by (simp add: smtp_rcpt_def rcpt_steps_split also_do_def)
    then have t: "rcpt_tail P s2 = (b3, s')" using t3 by simp
    note dt = decidesD [OF rcpt_tail_decides [of True P], of s2 s']
    show ?thesis
    proof (cases b3)
      case True
      then have "recorded P True s2 s'" using dt(1) t lib by simp
      then show ?thesis using r2 e2 by (auto simp: recorded_def env_view_def)
    next
      case False
      then have "replied s2 s'" "env_view s' = env_view s2" using dt(2) t lib by simp_all
      then show ?thesis using r2 e2 run(2) by (auto simp: replied_def)
    qed
  qed
qed

end
