(* ===== verification/SmtpTransact.thy ===== *)
theory SmtpTransact
  imports SmtpAnswers SmtpProps QmailQueueFacts
begin

text \<open>
  The session: \<^verbatim>\<open>smtp_data\<close> with the transaction of the session, the commands as steps, the invariant of
  the transaction, and who may relay.
\<close>

section \<open>DATA\<close>

text \<open>
  The environment of \<^verbatim>\<open>smtp_data\<close> is \<open>e\<close> with what the session knows; \<open>q\<close> is the opened
  \<^verbatim>\<open>qmail-queue\<close>, if it could be opened. \<^verbatim>\<open>auth.envrules\<close> has no rule.
\<close>

definition session_env :: "policy \<Rightarrow> data_env \<Rightarrow> sess \<Rightarrow> data_env" where
  "session_env P e s =
     e\<lparr>de_databytes := po_databytes P, de_barelf := se_barelf s, de_mailfrom := cstr (se_mailfrom s),
       de_rcptto := se_rcptto s\<rparr>"

definition verdict_code :: "libq \<Rightarrow> data_verdict \<Rightarrow> nat" where
  "verdict_code L v =
     (case v of Accepted \<Rightarrow> 250 | TooManyHops \<Rightarrow> 554 | TooBig \<Rightarrow> 552 | BareLfRefused \<Rightarrow> 451
      | QueueSays x \<Rightarrow> if take 3 (queue_reply L x) = ''554'' then 554 else 451)"

definition end_proto :: "sess \<Rightarrow> sess" where
  "end_proto s =
     (let p = se_proto s @ (case se_env s ''TLS_PROVIDER'' of None \<Rightarrow> [] | Some x \<Rightarrow> LF # ''  (tls provider '' @ x @ '')'')
      in s\<lparr>se_proto := (if p = [] then [] else p @ [NUL])\<rparr>)"

definition data_cmd ::
  "policy \<Rightarrow> data_env \<Rightarrow> 64 word \<Rightarrow> qmailq option \<Rightarrow> child \<Rightarrow> bytes \<Rightarrow> bytes \<Rightarrow> sess \<Rightarrow> (data_verdict \<times> qmailq) option \<times> sess" where
  "data_cmd P e over opened c arg inp s =
     (case data_guard P arg s of
        (False, s1) \<Rightarrow> (None, s1)
      | (True, s1) \<Rightarrow>
        (case opened of
           None \<Rightarrow> (None, send_code 451 s1)
         | Some q \<Rightarrow>
           let r = smtp_data (po_lib P) (session_env P e s1) over q c inp;
               s2 = send_code (verdict_code (po_lib P) (fst r)) (send_code 354 (end_proto s1))
           in (Some r, if fst r = BareLfRefused then s2\<lparr>se_ended := True\<rparr> else s2)))"

section \<open>The session\<close>

text \<open>
  The steps of MAIL up to the one that replaces the sender, the steps behind it, and the final reply.
\<close>

definition mail_before :: "policy \<Rightarrow> bytes \<Rightarrow> cmd list" where
  "mail_before P arg = take 14 (mail_steps P arg)"

definition mail_after :: "policy \<Rightarrow> bytes \<Rightarrow> cmd list" where
  "mail_after P arg = take 5 (drop 15 (mail_steps P arg))"

lemma mail_steps_split: "mail_steps P arg = mail_before P arg @ [change (mail_start P)] @ mail_after P arg @ [mail_ok]"
  by (simp add: mail_before_def mail_after_def mail_steps_def)

text \<open>
  What a client has done so far, latest first: a MAIL whose sender passed the tests in front of the
  replacement, with the address parsed from its argument and whether the handler got to its end (where it answers 250); a RCPT
  whose handler got to its end, with the address it ends with; the end of a transaction.
\<close>

datatype event = EvMail bytes bool | EvRcpt bytes | EvOver

definition parsed :: "policy \<Rightarrow> bytes \<Rightarrow> bytes" where
  "parsed P arg =
     (case snd (addrparse (po_lib P) (po_liphost P) (po_ipme P) arg) of None \<Rightarrow> [] | Some a \<Rightarrow> cstr a)"

definition mail_events :: "policy \<Rightarrow> bytes \<Rightarrow> sess \<Rightarrow> event list" where
  "mail_events P arg s =
     (if fst (all_do (mail_before P arg) s) then [EvMail (parsed P arg) (fst (all_do (mail_steps P arg) s))] else [])"

definition rcpt_events :: "policy \<Rightarrow> bytes \<Rightarrow> sess \<Rightarrow> event list" where
  "rcpt_events P arg s =
     (case all_do (rcpt_steps P arg) s of (ok, s') \<Rightarrow> if ok then [EvRcpt (cstr (se_addr s'))] else [])"

inductive smtp_step :: "policy \<Rightarrow> sess \<Rightarrow> event list \<Rightarrow> sess \<Rightarrow> bool" for P where
  step_mail: "smtp_step P s (mail_events P arg s) (smtp_mail P arg s)"
| step_rcpt: "smtp_step P s (rcpt_events P arg s) (smtp_rcpt P arg s)"
| step_data: "s' = snd (data_cmd P e over opened c arg inp s) \<Longrightarrow> smtp_step P s (if se_seenmail s' then [] else [EvOver]) s'"
| step_rset: "smtp_step P s (if arg = [] then [EvOver] else []) (smtp_rset arg s)"
| step_helo: "smtp_step P s [EvOver] (smtp_helo P arg s)"
| step_ehlo: "smtp_step P s [EvOver] (smtp_ehlo P arg s)"
| step_auth: "smtp_step P s [] (smtp_auth P arg s)"
| step_noop: "smtp_step P s [] (smtp_noop P arg s)"
| step_vrfy: "smtp_step P s [] (smtp_vrfy P s)"
| step_quit: "smtp_step P s [] (smtp_quit s)"
| step_unknown: "smtp_step P s [] (err_unimpl s)"

text \<open>No transaction has begun when the commands are first read.\<close>

inductive smtp_reach :: "policy \<Rightarrow> sess \<Rightarrow> event list \<Rightarrow> sess \<Rightarrow> bool" for P s0 where
  reach_start: "\<not> se_seenmail s0 \<Longrightarrow> smtp_reach P s0 [] s0"
| reach_step: "smtp_reach P s0 h s \<Longrightarrow> \<not> se_ended s \<Longrightarrow> smtp_step P s es s' \<Longrightarrow> smtp_reach P s0 (es @ h) s'"

text \<open>The transaction that a history leaves: the sender, the recipients, and whether a MAIL was answered with 250 since the last end.\<close>

fun past_sender :: "event list \<Rightarrow> bytes option" where
  "past_sender [] = None"
| "past_sender (EvMail f ok # h) = Some f"
| "past_sender (EvRcpt r # h) = past_sender h"
| "past_sender (EvOver # h) = None"

fun past_rcpts :: "event list \<Rightarrow> bytes list" where
  "past_rcpts [] = []"
| "past_rcpts (EvMail f ok # h) = []"
| "past_rcpts (EvRcpt r # h) = past_rcpts h @ [r]"
| "past_rcpts (EvOver # h) = []"

fun past_open :: "event list \<Rightarrow> bool" where
  "past_open [] = False"
| "past_open (EvMail f ok # h) = (ok \<or> past_open h)"
| "past_open (EvRcpt r # h) = past_open h"
| "past_open (EvOver # h) = False"

section \<open>The transaction\<close>

text \<open>\<^verbatim>\<open>case_lowerb\<close> keeps NULs and at signs apart from all other bytes, and does nothing twice.\<close>

definition lower_ok :: "matchlib \<Rightarrow> bool" where
  "lower_ok M \<longleftrightarrow> (\<forall>c. (ml_lower M c = NUL \<longleftrightarrow> c = NUL) \<and> (ml_lower M c = CHR ''@'' \<longleftrightarrow> c = CHR ''@'')
     \<and> ml_lower M (ml_lower M c) = ml_lower M c)"

definition terminated :: "bytes \<Rightarrow> bool" where
  "terminated m \<longleftrightarrow> (\<exists>f. no_nul f \<and> m = f @ [NUL])"

lemma terminated_lower:
  assumes "lower_ok M"
  shows "terminated (map (ml_lower M) m) = terminated m"
proof (cases m rule: rev_cases)
  case Nil
  then show ?thesis by (simp add: terminated_def)
next
  case (snoc f c)
  have i: "ml_lower M c = NUL \<longleftrightarrow> c = NUL" for c using assms by (simp add: lower_ok_def)
  have "no_nul (map (ml_lower M) f) = no_nul f" by (induction f) (simp_all add: i)
  then show ?thesis using snoc i by (simp add: terminated_def)
qed

text \<open>What the session knows of the transaction; the sender up to the case of its letters, and the address at hand.\<close>

definition fold_case :: "policy \<Rightarrow> bytes \<Rightarrow> bytes" where
  "fold_case P a = (if lower_ok (po_match P) then map (ml_lower (po_match P)) a else [])"

definition transaction :: "policy \<Rightarrow> sess \<Rightarrow> bytes \<times> int \<times> bool \<times> nat \<times> bytes" where
  "transaction P s = (se_rcptto s, se_rcptcount s, se_seenmail s, length (se_mailfrom s), fold_case P (se_mailfrom s))"

definition at_hand :: "policy \<Rightarrow> sess \<Rightarrow> bytes" where
  "at_hand P s = fold_case P (se_addr s)"

lemma fold_case_idem: "fold_case P (map (ml_lower (po_match P)) a) = fold_case P a"
  by (simp add: fold_case_def lower_ok_def)

lemma fold_case_cstr:
  assumes "fold_case P a = fold_case P b"
  shows "fold_case P (cstr a @ [NUL]) = fold_case P (cstr b @ [NUL])"
proof (cases "lower_ok (po_match P)")
  case True
  then have z: "ml_lower (po_match P) c = NUL \<longleftrightarrow> c = NUL" for c by (simp add: lower_ok_def)
  have "map (ml_lower (po_match P)) (cstr x) = cstr (map (ml_lower (po_match P)) x)" for x
    by (induction x) (simp_all add: cstr_def z)
  then show ?thesis using assms True by (simp add: fold_case_def)
qed (simp add: fold_case_def)

interpretation txn: mail_view "transaction P" P for P
  by unfold_locales (auto simp: transaction_def fold_case_idem)

interpretation adr: words_view "at_hand P" P for P
  by unfold_locales (auto simp: at_hand_def fold_case_idem)

text \<open>The session and the history agree.\<close>

definition proper :: "policy \<Rightarrow> event list \<Rightarrow> bytes \<times> int \<times> bool \<times> nat \<times> bytes \<Rightarrow> bool" where
  "proper P h t \<longleftrightarrow> (case t of (rcptto, n, seen, len, from) \<Rightarrow>
     (\<exists>f. past_sender h = Some f \<and> no_nul f \<and> from = fold_case P (f @ [NUL]))
     \<and> list_all no_nul (past_rcpts h) \<and> rcptto = rcpt_records (past_rcpts h) \<and> n = int (length (past_rcpts h))
     \<and> (po_maxrcptcount P > 0 \<longrightarrow> n \<le> po_maxrcptcount P) \<and> (len = 1 \<longrightarrow> n \<le> 1))"

definition in_transaction :: "policy \<Rightarrow> event list \<Rightarrow> sess \<Rightarrow> bool" where
  "in_transaction P h s \<longleftrightarrow> (se_seenmail s \<longrightarrow> past_open h \<and> proper P h (transaction P s))"

lemma kept_before: "kept (transaction P) (all_do (mail_before P arg))"
  unfolding mail_before_def mail_steps_def
  by (simp only: take_Cons_numeral take_Cons' list.simps drop_Cons_numeral)
     (simp, intro kept_steps txn.base_steps txn.mail_kept txn.kept_mail_address kept_change; simp add: txn.blind_size)

lemma kept_after: "kept (transaction P) (all_do (mail_after P arg))"
  unfolding mail_after_def mail_steps_def
  by (simp, intro kept_steps txn.base_steps txn.mail_kept kept_change; simp add: txn.blind_relayclient txn.blind_flags)

text \<open>The address at hand when the sender is replaced is the one parsed from the argument.\<close>

lemma before_parsed:
  assumes "all_do (mail_before P arg) s = (True, s1)"
  shows "fold_case P (cstr (se_addr s1) @ [NUL]) = fold_case P (parsed P arg @ [NUL])"
proof -
  let ?a = "take 3 (mail_before P arg)" and ?b = "drop 4 (mail_before P arg)"
  have e: "mail_before P arg = ?a @ mail_address P arg # ?b" by (simp add: mail_before_def mail_steps_def)
  then have "all_do (mail_before P arg) = also_do (all_do ?a) (also_do (mail_address P arg) (all_do ?b))"
    by (metis all_do_append all_do_simps(2))
  then obtain t u where a: "all_do ?a s = (True, t)" and m: "mail_address P arg t = (True, u)" and b: "all_do ?b u = (True, s1)"
    using assms by (auto simp: also_do_def split: prod.split_asm bool.split_asm)
  have k: "kept (at_hand P) (all_do ?b)"
    unfolding mail_before_def mail_steps_def
    by (simp, intro kept_steps adr.base_steps adr.words_kept kept_change; simp add: adr.blind_size)
  obtain x where x: "snd (addrparse (po_lib P) (po_liphost P) (po_ipme P) arg) = Some x" "se_addr u = x @ [NUL]"
    using m by (auto simp: mail_address_def addrparse_def go_def refuse_def Let_def split: prod.split_asm option.split_asm if_splits)
  have "at_hand P s1 = at_hand P u" using k b unfolding kept_def by (metis snd_conv)
  then have "fold_case P (cstr (se_addr s1) @ [NUL]) = fold_case P (cstr (x @ [NUL]) @ [NUL])"
    unfolding at_hand_def x(2) by (rule fold_case_cstr)
  moreover have "cstr (x @ [NUL]) = cstr x" by (induction x) (simp_all add: cstr_def)
  ultimately show ?thesis using x(1) by (simp add: parsed_def)
qed

lemma smtp_mail_transaction:
  assumes "in_transaction P h s"
  shows "in_transaction P (mail_events P arg s @ h) (smtp_mail P arg s)"
proof -
  obtain b1 s1 where b: "all_do (mail_before P arg) s = (b1, s1)" by (metis surj_pair)
  have k1: "transaction P s1 = transaction P s" using kept_before b unfolding kept_def by (metis snd_conv)
  obtain b2 s2 where a: "all_do (mail_after P arg) (mail_start P s1) = (b2, s2)" by (metis surj_pair)
  have k2: "transaction P s2 = transaction P (mail_start P s1)"
    using kept_after a unfolding kept_def by (metis snd_conv)
  have m: "fst (mail_ok t)" for t by (simp add: mail_ok_def)
  have run: "all_do (mail_steps P arg) s = (if b1 then if b2 then mail_ok s2 else (False, s2) else (False, s1))"
    using a b by (auto simp: mail_steps_split all_do_append all_do_simps also_do_def change_def split: prod.split bool.split)
  show ?thesis
  proof (cases b1)
    case False
    then show ?thesis using assms k1 run b
      by (auto simp: in_transaction_def mail_events_def smtp_mail_def transaction_def)
  next
    case True
    then have ev: "mail_events P arg s = [EvMail (parsed P arg) b2]" using b run m by (simp add: mail_events_def)
    have n: "no_nul (parsed P arg)" by (simp add: parsed_def split: option.split)
    have p: "proper P (EvMail (parsed P arg) b2 # h) (transaction P (mail_start P s1))"
      using n before_parsed [of P arg s s1] b True
      by (auto simp: transaction_def proper_def mail_start_def rcpt_records_def)
    have seen: "se_seenmail s2 = se_seenmail s" using k1 k2 by (simp add: transaction_def mail_start_def)
    show ?thesis
    proof (cases b2)
      case True
      then have "smtp_mail P arg s = snd (mail_ok s2)" using run \<open>b1\<close> by (simp add: smtp_mail_def)
      then show ?thesis using p k2 True unfolding ev
        by (auto simp: in_transaction_def proper_def transaction_def mail_ok_def send_code_def)
    next
      case False
      then have "smtp_mail P arg s = s2" using run \<open>b1\<close> by (simp add: smtp_mail_def)
      then show ?thesis using p k2 seen assms unfolding ev by (simp add: in_transaction_def)
    qed
  qed
qed

lemma rcpt_records_snoc: "rcpt_records rs @ CHR ''T'' # r @ [NUL] = rcpt_records (rs @ [r])"
  by (simp add: rcpt_records_def)

lemma smtp_rcpt_transaction:
  assumes "in_transaction P h s"
  shows "in_transaction P (rcpt_events P arg s @ h) (smtp_rcpt P arg s)"
proof -
  obtain ok s' where f: "all_do (rcpt_steps P arg) s = (ok, s')" by (metis surj_pair)
  note d = decidesD [OF rcpt_decides, of P arg s s']
  show ?thesis
  proof (cases ok)
    case True
    then have "recorded P False s s'" using d(1) f by simp
    then have e: "transaction P s' = (se_rcptto s @ CHR ''T'' # cstr (se_addr s') @ [NUL], se_rcptcount s + 1, se_seenmail s,
        length (se_mailfrom s), fold_case P (se_mailfrom s))"
      and w: "within P (se_rcptcount s + 1) (se_mailfrom s)"
      by (auto simp: recorded_def transaction_def env_view_def)
    have "past_open (EvRcpt (cstr (se_addr s')) # h) \<and> proper P (EvRcpt (cstr (se_addr s')) # h) (transaction P s')"
      if "se_seenmail s"
      using assms that w unfolding e
      by (auto simp: in_transaction_def proper_def transaction_def within_def rcpt_records_snoc)
    then show ?thesis using f True e by (auto simp: in_transaction_def rcpt_events_def smtp_rcpt_def transaction_def)
  next
    case False
    then have "env_view s' = env_view s" using d(2) f by simp
    then show ?thesis using assms f False
      by (auto simp: in_transaction_def rcpt_events_def smtp_rcpt_def transaction_def env_view_def)
  qed
qed

subsection \<open>The other commands\<close>

lemma kept_helo_checks: "kept (transaction P) (helo_checks P arg)"
proof -
  have "kept (transaction P) (\<lambda>s. case list_match P cl (se_env s) (se_helohost s) of (r, h) \<Rightarrow>
      on_match r (refuse 553) go (s\<lparr>se_helohost := h\<rparr>))" for cl
  proof -
    have "kept (transaction P) (on_match r (refuse 553) go)" for r
      by (intro txn.base_steps kept_steps)
    moreover have "transaction P (s\<lparr>se_helohost := h\<rparr>) = transaction P s" for s h by (simp add: transaction_def)
    ultimately show ?thesis by (simp add: kept_def split: prod.split)
  qed
  then show ?thesis unfolding helo_checks_def by (intro kept_steps txn.base_steps) simp_all
qed

lemma kept_dohelo: "transaction P (dohelo P arg s) = transaction P s"
proof -
  have d: "kept (transaction P) (helo_dns P)"
    by (auto simp: kept_def helo_dns_def Let_def refuse_def die_with_def go_def transaction_def send_code_def split: dnsres.split)
  have "kept (transaction P) (all_do [change (\<lambda>s. s\<lparr>se_seenhelo := False, se_helohost := CHR ''@'' # arg\<rparr>),
                  helo_checks P arg, helo_dns P, change (\<lambda>s. s\<lparr>se_seenhelo := True\<rparr>)])"
    by (intro kept_steps kept_change kept_helo_checks d) (simp_all add: transaction_def)
  then show ?thesis by (simp add: kept_def dohelo_def)
qed

lemma ends_transaction:
  assumes "kept (transaction P) (all_do fs)"
  shows "\<not> se_seenmail (snd (all_do (change (\<lambda>s. s\<lparr>se_seenmail := False\<rparr>) # fs) s))"
proof -
  have "transaction P (snd (all_do fs (s\<lparr>se_seenmail := False\<rparr>))) = transaction P (s\<lparr>se_seenmail := False\<rparr>)"
    using assms by (simp add: kept_def)
  then show ?thesis
    by (simp add: transaction_def all_do_simps(2) [of "change f" for f] also_do_def change_def)
qed

lemma helo_ends: "\<not> se_seenmail (smtp_helo P arg s)" "\<not> se_seenmail (smtp_ehlo P arg s)"
proof -
  show "\<not> se_seenmail (smtp_helo P arg s)"
    unfolding smtp_helo_def by (intro ends_transaction [of P] kept_steps txn.base_steps kept_change kept_dohelo)
  show "\<not> se_seenmail (smtp_ehlo P arg s)"
    unfolding smtp_ehlo_def
    by (intro ends_transaction [of P] kept_steps txn.base_steps kept_change kept_dohelo) (simp add: transaction_def)
qed

lemma auth_keeps: "transaction P (smtp_auth P arg s) = transaction P s"
proof -
  have a: "transaction P (auth_result a t) = transaction P t" for a t
    by (simp add: auth_result_def Let_def transaction_def send_code_def put_env_def)
  have "kept (transaction P) (all_do [setup_guard P, if_do (\<lambda>_. po_authok P) go (refuse 503),
      when_do (\<lambda>s. se_authd s \<noteq> 0) (refuse 503), when_do se_seenmail (refuse 503),
      change (auth_result (po_auth P arg))])"
    by (intro kept_steps txn.base_steps kept_change a)
  then show ?thesis by (simp add: kept_def smtp_auth_def)
qed

lemma plain_keeps:
  "transaction P (smtp_noop P arg s) = transaction P s" "transaction P (smtp_vrfy P s) = transaction P s"
  "transaction P (smtp_quit s) = transaction P s" "transaction P (err_unimpl s) = transaction P s"
proof -
  have k: "kept (transaction P) (all_do [setup_guard P, change (send_code c)])" for c
    by (intro kept_steps txn.base_steps)
  then show "transaction P (smtp_noop P arg s) = transaction P s" "transaction P (smtp_vrfy P s) = transaction P s"
    by (simp_all add: kept_def smtp_noop_def smtp_vrfy_def)
  show "transaction P (smtp_quit s) = transaction P s" "transaction P (err_unimpl s) = transaction P s"
    by (simp_all add: smtp_quit_def err_unimpl_def transaction_def send_code_def)
qed

text \<open>The guard of DATA: where it lets the message in, the transaction of \<open>s\<close> has a recipient; it is over then.\<close>

lemma data_grey_cases: "data_grey P s = (ok, s1) \<Longrightarrow> ok \<and> s1 = s \<or> \<not> ok \<and> transaction P s1 = transaction P s"
  by (auto simp: data_grey_def Let_def go_def refuse_def die_with_def transaction_def send_code_def
      split: option.split_asm if_splits)

lemma data_guard_eq:
  "data_guard P arg s =
     (if arg \<noteq> [] then refuse 501 s
      else if \<not> se_seenmail s then refuse 503 s
      else if se_rcptto s = [] \<or> se_rcptcount s = 0 then refuse 503 s
      else case data_grey P s of (False, s1) \<Rightarrow> (False, s1)
        | (True, s1) \<Rightarrow> when_do se_flagsize (refuse 552) (s1\<lparr>se_seenmail := False\<rparr>))"
  by (auto simp: data_guard_def all_do_simps also_do_def if_do_def go_def refuse_def change_def
      split: prod.split bool.split)

lemma data_guard_cases:
  assumes "data_guard P arg s = (ok, s1)"
  shows "ok \<Longrightarrow> s1 = s\<lparr>se_seenmail := False\<rparr> \<and> se_seenmail s \<and> se_rcptto s \<noteq> [] \<and> arg = [] \<and> \<not> se_flagsize s"
    and "\<not> ok \<Longrightarrow> \<not> se_seenmail s1 \<or> transaction P s1 = transaction P s"
proof -
  obtain b s2 where g: "data_grey P s = (b, s2)" by (metis surj_pair)
  show "ok \<Longrightarrow> s1 = s\<lparr>se_seenmail := False\<rparr> \<and> se_seenmail s \<and> se_rcptto s \<noteq> [] \<and> arg = [] \<and> \<not> se_flagsize s"
    using assms data_grey_cases [OF g] by (cases b) (auto simp: data_guard_eq g refuse_def if_do_def go_def split: if_splits)
  show "\<not> ok \<Longrightarrow> \<not> se_seenmail s1 \<or> transaction P s1 = transaction P s"
    using assms data_grey_cases [OF g]
    by (cases b) (auto simp: data_guard_eq g refuse_def if_do_def go_def send_code_def transaction_def split: if_splits)
qed

lemma data_cmd_transaction:
  "\<not> se_seenmail (snd (data_cmd P e over opened c arg inp s)) \<or>
   transaction P (snd (data_cmd P e over opened c arg inp s)) = transaction P s"
proof -
  obtain ok s1 where g: "data_guard P arg s = (ok, s1)" by (metis surj_pair)
  show ?thesis
  proof (cases ok)
    case True
    then have "\<not> se_seenmail s1" using data_guard_cases(1) [OF g] by simp
    then show ?thesis using g True
      by (cases opened) (simp_all add: data_cmd_def Let_def send_code_def end_proto_def)
  next
    case False
    then show ?thesis using data_guard_cases(2) [OF g] g by (simp add: data_cmd_def)
  qed
qed

section \<open>The invariant\<close>

lemma smtp_step_inv:
  assumes "smtp_step P s es s'" "in_transaction P h s"
  shows "in_transaction P (es @ h) s'"
proof -
  have kept: "in_transaction P h s'" if "transaction P s' = transaction P s"
    using that assms(2) by (auto simp: in_transaction_def transaction_def)
  have ended: ?thesis if "\<not> se_seenmail s'" using that by (simp add: in_transaction_def)
  from assms(1) show ?thesis
  proof cases
    case (step_mail arg)
    then show ?thesis using smtp_mail_transaction [OF assms(2)] by simp
  next
    case (step_rcpt arg)
    then show ?thesis using smtp_rcpt_transaction [OF assms(2)] by simp
  next
    case (step_data e over opened c arg inp)
    then show ?thesis using data_cmd_transaction [of P e over opened c arg inp s] kept ended by auto
  next
    case (step_rset arg)
    then show ?thesis using kept ended
      by (cases "arg = []") (simp_all add: smtp_rset_def send_code_def transaction_def)
  next
    case (step_helo arg)
    then show ?thesis using helo_ends(1) ended by simp
  next
    case (step_ehlo arg)
    then show ?thesis using helo_ends(2) ended by simp
  next
    case (step_auth arg)
    then show ?thesis using kept auth_keeps by simp
  qed (use kept plain_keeps in simp_all)
qed

lemma smtp_reach_inv: "smtp_reach P s0 h s \<Longrightarrow> in_transaction P h s"
proof (induction rule: smtp_reach.induct)
  case reach_start
  then show ?case by (simp add: in_transaction_def)
next
  case (reach_step h s es s')
  then show ?case using smtp_step_inv by blast
qed

end
