(* ===== verification/AccessFacts.thy ===== *)
theory AccessFacts
  imports AccessRules
begin

text \<open>
  What the lists of \<open>AccessLists\<close> and \<open>AccessRules\<close> decide, against reference definitions that do not
  mention buffers and positions, and inputs on which the code does not do what it means to.
\<close>

section \<open>Lines ended by a NUL\<close>

definition as_lines :: "bytes list \<Rightarrow> bytes" where
  "as_lines ls = concat (map (\<lambda>l. l @ [NUL]) ls)"

lemma as_lines_simps [simp]: "as_lines [] = []" "as_lines (l # ls) = l @ NUL # as_lines ls"
  by (simp_all add: as_lines_def)

lemma str_at_front: "no_nul l \<Longrightarrow> str_at (pre @ l @ NUL # t) (length pre) = l"
  by (simp add: str_at_def cstr_append_nul)

section \<open>Patterns: the last one that matches decides\<close>

definition negated :: "bytes \<Rightarrow> bool" where
  "negated p \<longleftrightarrow> p \<noteq> [] \<and> hd p = CHR ''!''"

definition pattern_hits :: "matchlib \<Rightarrow> bytes \<Rightarrow> bytes \<Rightarrow> bool" where
  "pattern_hits M addr p \<longleftrightarrow> ml_wildmat M addr (if negated p then tl p else p)"

definition last_hit :: "matchlib \<Rightarrow> bytes \<Rightarrow> bool \<Rightarrow> bytes list \<Rightarrow> bool" where
  "last_hit M addr k ps =
     (let hits = filter (pattern_hits M addr) ps in if hits = [] then k else \<not> negated (last hits))"

lemma last_hit_Cons:
  "last_hit M addr k (p # ps) = last_hit M addr (if pattern_hits M addr p then \<not> negated p else k) ps"
  by (auto simp: last_hit_def Let_def)

lemma wild_loop_step:
  "no_nul p \<Longrightarrow> wild_loop M addr k (p @ NUL # rest) =
     wild_loop M addr (if pattern_hits M (cstr addr) p then \<not> negated p else k) rest"
  by (subst wild_loop.simps)
     (cases k, auto simp: pattern_hits_def negated_def Let_def)

lemma wild_loop_last:
  "list_all no_nul ps \<Longrightarrow> wild_loop M addr k (as_lines ps) = last_hit M (cstr addr) k ps"
proof (induction ps arbitrary: k)
  case Nil
  then show ?case by (simp add: last_hit_def wild_loop.simps [of M addr k "[]"])
next
  case (Cons p ps)
  then show ?case by (simp add: wild_loop_step last_hit_Cons)
qed

lemma address_match_lower: "snd (address_match L M env d fn addr bhf mapbhf w) = map (ml_lower M) addr"
  by (simp add: address_match_def Let_def)

section \<open>rcpthosts: a domain is listed with one of its parents\<close>

text \<open>The domain itself and its parents with the dot in front.\<close>

fun parents :: "bytes \<Rightarrow> bytes list" where
  "parents [] = []"
| "parents (c # t) = (if c = CHR ''.'' then [c # t] else []) @ parents t"

definition domain_keys :: "bytes \<Rightarrow> bytes list" where
  "domain_keys b = (if b = [] then [] else b # parents (tl b))"

lemma parents_iff: "x \<in> set (parents b) \<longleftrightarrow> (\<exists>j < length b. b ! j = CHR ''.'' \<and> x = drop j b)"
proof (induction b)
  case (Cons c t)
  have "(\<exists>j < length (c # t). (c # t) ! j = CHR ''.'' \<and> x = drop j (c # t)) \<longleftrightarrow>
      (c = CHR ''.'' \<and> x = c # t) \<or> (\<exists>j < length t. t ! j = CHR ''.'' \<and> x = drop j t)"
    by (auto simp: less_Suc_eq_0_disj)
  then show ?case using Cons.IH by auto
qed simp

lemma domain_keys_iff: "x \<in> set (domain_keys b) \<longleftrightarrow> (\<exists>j < length b. label_start b j \<and> x = drop j b)"
proof (cases b)
  case (Cons c t)
  have "(\<exists>j < length (c # t). label_start (c # t) j \<and> x = drop j (c # t)) \<longleftrightarrow>
      x = c # t \<or> (\<exists>j < length t. t ! j = CHR ''.'' \<and> x = drop j t)"
    by (auto simp: less_Suc_eq_0_disj label_start_def)
  then show ?thesis using Cons by (simp add: domain_keys_def parents_iff)
qed (simp add: domain_keys_def)

lemma more_loop_one:
  "(\<forall>k. seek k = 0 \<or> seek k = 1) \<Longrightarrow>
   more_loop seek b js = (if \<exists>j \<in> set js. label_start b j \<and> seek (drop j b) = 1 then 1 else 0)"
proof (induction js)
  case (Cons j js)
  then have s: "seek (drop j b) = 0 \<or> seek (drop j b) = 1" by simp
  show ?case using Cons s by auto
qed simp

definition listed :: "rhosts \<Rightarrow> bytes \<Rightarrow> bool" where
  "listed rh k \<longleftrightarrow> (case rh_map rh of None \<Rightarrow> False | Some m \<Rightarrow> m k) \<or>
     (case rh_more rh of None \<Rightarrow> False | Some seek \<Rightarrow> seek k = 1)"

text \<open>The list admits an address exactly when it names the domain, in lower case, or a parent of it.\<close>

lemma rcpthosts_listed:
  assumes L: "libqmail L" and m: "rh_map rh = Some m" and d: "CHR ''@'' \<notin> set d"
    and more: "\<And>seek k. rh_more rh = Some seek \<Longrightarrow> seek k = 0 \<or> seek k = 1"
  shows "rcpthosts L M rh (u @ CHR ''@'' # d) False =
    (if \<exists>k \<in> set (domain_keys (map (ml_lower M) d)). listed rh k then 1 else 0)"
proof -
  let ?b = "map (ml_lower M) d"
  have r: "lq_rchr L (u @ CHR ''@'' # d) (CHR ''@'') = length u" by (rule libqmail.rchr_some [OF L d])
  have dr: "drop (length u + 1) (u @ CHR ''@'' # d) = d" by simp
  have nl: "\<not> length (u @ CHR ''@'' # d) \<le> length u" by simp
  have ex: "(\<exists>k \<in> set (domain_keys ?b). P k) \<longleftrightarrow> (\<exists>j < length ?b. label_start ?b j \<and> P (drop j ?b))" for P
    using domain_keys_iff by metis
  have own: "list_ex (\<lambda>j. label_start ?b j \<and> m (drop j ?b)) [0..<length ?b] \<longleftrightarrow> (\<exists>k \<in> set (domain_keys ?b). m k)"
    unfolding ex by (auto simp: list_ex_iff)
  have seekl: "more_loop seek ?b [0..<length ?b] = (if \<exists>k \<in> set (domain_keys ?b). seek k = 1 then 1 else 0)"
    if "rh_more rh = Some seek" for seek
    using more_loop_one [of seek ?b "[0..<length ?b]"] more [OF that] unfolding ex by auto
  have "rcpthosts L M rh (u @ CHR ''@'' # d) False = (if \<exists>k \<in> set (domain_keys ?b). m k then 1 else case rh_more rh of
      None \<Rightarrow> 0 | Some seek \<Rightarrow> more_loop seek ?b [0..<length ?b])"
    unfolding rcpthosts_def m option.case Let_def r dr by (simp only: nl own if_False simp_thms)
  then show ?thesis
    using seekl by (cases "rh_more rh") (auto simp: listed_def m)
qed

section \<open>mail_acl on a list of rules\<close>

text \<open>A rule: \<^verbatim>\<open>rcpt:\<close> or \<^verbatim>\<open>from:\<close> (or five other bytes), the sender, the recipient.\<close>

type_synonym acl_rule = "bytes \<times> bytes \<times> bytes"

definition rule_text :: "acl_rule \<Rightarrow> bytes" where
  "rule_text u = (case u of (k, s, r) \<Rightarrow> k @ s @ CHR '':'' # r)"

definition wf_rule :: "acl_rule \<Rightarrow> bool" where
  "wf_rule u = (case u of (k, s, r) \<Rightarrow> length k = 5 \<and> no_nul k \<and> no_nul s \<and> no_nul r \<and> CHR '':'' \<notin> set s)"

definition acl_file :: "acl_rule list \<Rightarrow> bytes" where
  "acl_file rs = as_lines (map rule_text rs)"

text \<open>
  The rules that apply, from the first one of the kind \<open>K\<close> on: there is none, or the mail is refused
  unless one of them admits it.
\<close>

definition acl_decide :: "bytes \<Rightarrow> (acl_rule \<Rightarrow> bool) \<Rightarrow> (acl_rule \<Rightarrow> bool) \<Rightarrow> acl_rule list \<Rightarrow> bool option" where
  "acl_decide K applies admits rs =
     (case dropWhile (\<lambda>u. fst u \<noteq> K) (filter applies rs) of [] \<Rightarrow> None | us \<Rightarrow> Some (list_ex admits us))"

fun acl_scan :: "bytes \<Rightarrow> (acl_rule \<Rightarrow> bool) \<Rightarrow> (acl_rule \<Rightarrow> bool) \<Rightarrow> bool \<Rightarrow> acl_rule list \<Rightarrow> int + bool" where
  "acl_scan K P Q rej [] = Inr rej"
| "acl_scan K P Q rej (u # us) =
     (if \<not> P u then acl_scan K P Q rej us
      else if \<not> (rej \<or> fst u = K) then acl_scan K P Q False us
      else if Q u then Inl 0 else acl_scan K P Q True us)"

lemma acl_scan_True: "acl_scan K P Q True us = (if list_ex Q (filter P us) then Inl 0 else Inr True)"
  by (induction us) auto

lemma acl_scan_decide:
  "acl_scan K P Q False us =
     (case acl_decide K P Q us of None \<Rightarrow> Inr False | Some a \<Rightarrow> if a then Inl 0 else Inr True)"
  by (induction us) (auto simp: acl_decide_def acl_scan_True)

text \<open>The patterns compile, so that every comparison ends with 0 or 1.\<close>

definition matcher_total :: "matchlib \<Rightarrow> environ \<Rightarrow> bool \<Rightarrow> bool" where
  "matcher_total M env q \<longleftrightarrow> (\<forall>x p. acl_match M env q x p = 0 \<or> acl_match M env q x p = 1)"

abbreviation acl_hit :: "matchlib \<Rightarrow> environ \<Rightarrow> bool \<Rightarrow> bytes \<Rightarrow> bytes \<Rightarrow> bool" where
  "acl_hit M env q x p \<equiv> acl_match M env q x p = 1"

lemma matcher_wild: "env ''USE_FNMATCH'' = None \<Longrightarrow> matcher_total M env False"
  by (auto simp: matcher_total_def acl_match_def do_match_def)

lemma rule_bytes:
  assumes "wf_rule (k, s, r)" and buf_def: "buf = pre @ rule_text (k, s, r) @ NUL # t"
  shows "acl_colon buf (length pre) = length pre + 5 + length s"
    and "length pre + 5 + length s < length buf" "buf ! (length pre + 5 + length s) = CHR '':''"
    and "length pre + length (str_at buf (length pre)) + 1 = length (pre @ rule_text (k, s, r) @ [NUL])"
    and "str_at (buf[length pre + 5 + length s := NUL]) (length pre + 5 + length s + 1) = r"
    and "str_at (buf[length pre + 5 + length s := NUL]) (length pre + 5) = s"
    and "take 5 (drop (length pre) (buf[length pre + 5 + length s := NUL])) = k"
proof -
  have k: "length k = 5" "no_nul k" "no_nul s" "no_nul r" "CHR '':'' \<notin> set s"
    using assms(1) by (simp_all add: wf_rule_def)
  have b: "buf = (pre @ k) @ s @ CHR '':'' # r @ NUL # t" by (simp add: buf_def rule_text_def)
  have t: "takeWhile (\<lambda>c. c \<noteq> NUL \<and> c \<noteq> CHR '':'') (s @ CHR '':'' # u) = s" for u
    using k(3,5) by (subst takeWhile_append2) (auto simp: no_nul_def)
  have p: "length pre + 5 = length (pre @ k)" using k by simp
  show "acl_colon buf (length pre) = length pre + 5 + length s"
    unfolding acl_colon_def b p using t k(1) by simp
  show "length pre + 5 + length s < length buf" unfolding b using k by simp
  show "buf ! (length pre + 5 + length s) = CHR '':''" unfolding b p by (simp add: nth_append)
  have "no_nul (rule_text (k, s, r))" using k by (simp add: rule_text_def)
  then show "length pre + length (str_at buf (length pre)) + 1 = length (pre @ rule_text (k, s, r) @ [NUL])"
    unfolding buf_def by (simp add: str_at_front)
  have u: "buf[length pre + 5 + length s := NUL] = pre @ k @ s @ NUL # r @ NUL # t"
    unfolding b p by (simp add: list_update_append)
  have c: "length pre + 5 + length s + 1 = length (pre @ k @ s @ [NUL])" using k by simp
  show "str_at (buf[length pre + 5 + length s := NUL]) (length pre + 5 + length s + 1) = r"
    unfolding u c using str_at_front [of r "pre @ k @ s @ [NUL]" t] k by simp
  show "str_at (buf[length pre + 5 + length s := NUL]) (length pre + 5) = s"
    unfolding u using str_at_front [of s "pre @ k" "r @ NUL # t"] k by simp
  show "take 5 (drop (length pre) (buf[length pre + 5 + length s := NUL])) = k"
    unfolding u using k by simp
qed

lemma acl_rcpt_scan:
  "matcher_total M env q \<Longrightarrow> list_all wf_rule rs \<Longrightarrow> b = pre @ acl_file rs \<Longrightarrow> p = length pre \<Longrightarrow>
   fst (acl_rcpt M env q sender rcpt b p rej) =
     acl_scan ''rcpt:'' (\<lambda>u. acl_hit M env q rcpt (snd (snd u))) (\<lambda>u. acl_hit M env q sender (fst (snd u))) rej rs \<and>
   (\<forall>x. fst (acl_rcpt M env q sender rcpt b p rej) = Inr x \<longrightarrow> snd (acl_rcpt M env q sender rcpt b p rej) = b)"
proof (induction rs arbitrary: pre p rej)
  case Nil
  then show ?case by (subst (1 2 3) acl_rcpt.simps) (simp add: acl_file_def)
next
  case (Cons u rs)
  obtain k s r where u: "u = (k, s, r)" by (cases u)
  have w: "wf_rule (k, s, r)" using Cons.prems(2) u by simp
  have b: "b = pre @ rule_text (k, s, r) @ NUL # acl_file rs"
    using Cons.prems(3) by (simp add: acl_file_def u)
  define n where "n = length (pre @ rule_text (k, s, r) @ [NUL])"
  note f = rule_bytes [OF w, OF b, folded n_def]
  have b': "b = (pre @ rule_text (k, s, r) @ [NUL]) @ acl_file rs" by (simp add: b)
  note IH = Cons.IH [OF Cons.prems(1) _ b' n_def, of rej] Cons.IH [OF Cons.prems(1) _ b' n_def, of True] Cons.IH [OF Cons.prems(1) _ b' n_def, of False]
  have ne: "\<not> length b \<le> length pre" using f(2) by simp
  have "acl_rcpt M env q sender rcpt b p rej =
    (if \<not> acl_hit M env q rcpt r then acl_rcpt M env q sender rcpt b n rej
     else if \<not> (rej \<or> k = ''rcpt:'') then acl_rcpt M env q sender rcpt b n False
     else if acl_hit M env q sender s then (Inl 0, b[length pre + 5 + length s := NUL])
     else acl_rcpt M env q sender rcpt b n True)"
    using Cons.prems(1) [unfolded matcher_total_def, rule_format, of rcpt r]
      Cons.prems(1) [unfolded matcher_total_def, rule_format, of sender s]
    by (subst acl_rcpt.simps) (simp only: Cons.prems(4) f ne Let_def if_False if_True simp_thms, auto)
  then show ?case using IH Cons.prems(1,2) by (simp add: u)
qed

lemma acl_from_scan:
  "matcher_total M env q \<Longrightarrow> list_all wf_rule rs \<Longrightarrow> b = pre @ acl_file rs \<Longrightarrow> p = length pre \<Longrightarrow>
   fst (acl_from M env q sender rcpt b p rej) =
     acl_scan ''from:'' (\<lambda>u. acl_hit M env q sender (fst (snd u))) (\<lambda>u. acl_hit M env q rcpt (snd (snd u))) rej rs \<and>
   (\<forall>x. fst (acl_from M env q sender rcpt b p rej) = Inr x \<longrightarrow> snd (acl_from M env q sender rcpt b p rej) = b)"
proof (induction rs arbitrary: pre p rej)
  case Nil
  then show ?case by (subst (1 2 3) acl_from.simps) (simp add: acl_file_def)
next
  case (Cons u rs)
  obtain k s r where u: "u = (k, s, r)" by (cases u)
  have w: "wf_rule (k, s, r)" using Cons.prems(2) u by simp
  have b: "b = pre @ rule_text (k, s, r) @ NUL # acl_file rs"
    using Cons.prems(3) by (simp add: acl_file_def u)
  define n where "n = length (pre @ rule_text (k, s, r) @ [NUL])"
  note f = rule_bytes [OF w, OF b, folded n_def]
  have b': "b = (pre @ rule_text (k, s, r) @ [NUL]) @ acl_file rs" by (simp add: b)
  note IH = Cons.IH [OF Cons.prems(1) _ b' n_def, of rej] Cons.IH [OF Cons.prems(1) _ b' n_def, of True] Cons.IH [OF Cons.prems(1) _ b' n_def, of False]
  have ne: "\<not> length b \<le> length pre" using f(2) by simp
  have "acl_from M env q sender rcpt b p rej =
    (if \<not> acl_hit M env q sender s then acl_from M env q sender rcpt b n rej
     else if \<not> (rej \<or> k = ''from:'') then acl_from M env q sender rcpt b n False
     else if acl_hit M env q rcpt r then (Inl 0, b[length pre + 5 + length s := NUL])
     else acl_from M env q sender rcpt b n True)"
    using Cons.prems(1) [unfolded matcher_total_def, rule_format, of rcpt r]
      Cons.prems(1) [unfolded matcher_total_def, rule_format, of sender s]
    by (subst acl_from.simps) (simp only: Cons.prems(4) f ne Let_def if_False if_True simp_thms, auto)
  then show ?case using IH Cons.prems(1,2) by (simp add: u)
qed

definition acl_verdicts :: "matchlib \<Rightarrow> environ \<Rightarrow> bool \<Rightarrow> bytes \<Rightarrow> bytes \<Rightarrow> acl_rule list \<Rightarrow> bool option \<times> bool option" where
  "acl_verdicts M env q sender rcpt rs =
     (acl_decide ''rcpt:'' (\<lambda>u. acl_hit M env q rcpt (snd (snd u))) (\<lambda>u. acl_hit M env q sender (fst (snd u))) rs,
      acl_decide ''from:'' (\<lambda>u. acl_hit M env q sender (fst (snd u))) (\<lambda>u. acl_hit M env q rcpt (snd (snd u))) rs)"

lemma mail_acl_verdicts:
  assumes "matcher_total M env q" "list_all wf_rule rs" "\<not> acl_exempt sender rcpt"
    and v: "acl_verdicts M env q sender rcpt rs = (r, f)"
  shows "fst (mail_acl M env (acl_file rs) q sender rcpt) =
      (if r = Some True \<or> f = Some True then 0 else if r = None \<and> f = None then 0 else 1)"
    and "\<not> (r = Some True \<or> f = Some True) \<Longrightarrow> snd (mail_acl M env (acl_file rs) q sender rcpt) = acl_file rs"
proof -
  let ?b = "acl_file rs"
  obtain x b1 where R: "acl_rcpt M env q sender rcpt ?b 0 False = (x, b1)" by (metis surj_pair)
  obtain y b2 where F: "acl_from M env q sender rcpt ?b 0 False = (y, b2)" by (metis surj_pair)
  have b: "?b = [] @ acl_file rs" "0 = length []" by simp_all
  have x: "x = (case r of None \<Rightarrow> Inr False | Some a \<Rightarrow> if a then Inl 0 else Inr True)" "\<And>z. x = Inr z \<Longrightarrow> b1 = ?b"
    using acl_rcpt_scan [OF assms(1,2) b, of sender rcpt False] v by (auto simp: acl_scan_decide acl_verdicts_def R)
  have y: "y = (case f of None \<Rightarrow> Inr False | Some a \<Rightarrow> if a then Inl 0 else Inr True)" "\<And>z. y = Inr z \<Longrightarrow> b2 = ?b"
    using acl_from_scan [OF assms(1,2) b, of sender rcpt False] v by (auto simp: acl_scan_decide acl_verdicts_def F)
  have m: "mail_acl M env ?b q sender rcpt = (case x of Inl z \<Rightarrow> (z, b1) | Inr p \<Rightarrow>
      case y of Inl z \<Rightarrow> (z, b2) | Inr g \<Rightarrow> (if p \<or> g then 1 else 0, b2))"
    using assms(3) x(2) F by (auto simp: mail_acl_def R split: sum.split)
  show "fst (mail_acl M env ?b q sender rcpt) =
      (if r = Some True \<or> f = Some True then 0 else if r = None \<and> f = None then 0 else 1)"
    unfolding m using x(1) y(1) by (auto split: option.splits if_splits)
  show "\<not> (r = Some True \<or> f = Some True) \<Longrightarrow> snd (mail_acl M env ?b q sender rcpt) = ?b"
    unfolding m using x y by (auto split: option.splits if_splits sum.splits)
qed

section \<open>The table of domains and hosts\<close>

definition dotted :: "bytes list \<Rightarrow> bytes \<Rightarrow> bytes" where
  "dotted fs t = (case fs of [] \<Rightarrow> t | f # gs \<Rightarrow> f @ concat (map (\<lambda>g. CHR ''.'' # g) gs) @ t)"

definition octet_text :: "bytes \<Rightarrow> bool" where
  "octet_text f \<longleftrightarrow> no_nul f \<and> CHR ''.'' \<notin> set f \<and> length f < 8"

definition octet_hit :: "libq \<Rightarrow> matchlib \<Rightarrow> bytes \<Rightarrow> bytes \<Rightarrow> bool" where
  "octet_hit L M f g \<longleftrightarrow> f = ''*'' \<or> f = g \<or> in_range L M f g"

lemma octet_dotted:
  "octet_text f \<Longrightarrow> octet (dotted (f # fs) (NUL # t)) = Some (f, if fs = [] then t else dotted fs (NUL # t))"
proof -
  assume f: "octet_text f"
  have tw: "takeWhile (\<lambda>c. c \<noteq> NUL \<and> c \<noteq> CHR ''.'') (f @ c # u) = f" if "c = NUL \<or> c = CHR ''.''" for c u
    using f that by (subst takeWhile_append2) (auto simp: octet_text_def no_nul_def)
  show ?thesis
    using f tw [of NUL t] tw [of "CHR ''.''"]
    by (cases fs) (auto simp: octet_def dotted_def octet_text_def)
qed

lemma fill_marks_plain:
  assumes "CHR ''?'' \<notin> set f" "no_nul f" "length f \<le> length b"
  shows "fill_marks f b = f"
proof -
  have "map (\<lambda>(c, d). if c = CHR ''?'' then d else c) (zip f b) = f"
    using assms(1,3)
  proof (induction f arbitrary: b)
    case (Cons c f)
    then show ?case by (cases b) auto
  qed simp
  then show ?thesis using assms(2) by (simp add: fill_marks_def cstr_no_nul)
qed

text \<open>Fields that fit and hold no question mark are compared one by one, and nothing is written outside the arrays.\<close>

lemma inet_loop_fields:
  "length fs = n \<Longrightarrow> length gs = n \<Longrightarrow> length b = 8 \<Longrightarrow> list_all octet_text fs \<Longrightarrow> list_all octet_text gs \<Longrightarrow>
   list_all (\<lambda>f. CHR ''?'' \<notin> set f) fs \<Longrightarrow>
   inet_loop L M n b (dotted fs (NUL # t)) (dotted gs (NUL # u)) = Some (list_all2 (octet_hit L M) fs gs)"
proof (induction n arbitrary: fs gs b)
  case (Suc n)
  obtain f fs' where f: "fs = f # fs'" using Suc.prems(1) by (cases fs) auto
  obtain g gs' where g: "gs = g # gs'" using Suc.prems(2) by (cases gs) auto
  let ?b = "g @ NUL # drop (length g + 1) b"
  have o: "octet_text f" "octet_text g" using Suc.prems f g by simp_all
  have lb: "length ?b = 8" using o(2) Suc.prems(3) by (simp add: octet_text_def)
  have fm: "fill_marks f ?b = f"
    by (rule fill_marks_plain) (use Suc.prems(6) o(1) lb f in \<open>auto simp: octet_text_def\<close>)
  have e: "fs' = [] \<longleftrightarrow> n = 0" "gs' = [] \<longleftrightarrow> n = 0" using Suc.prems(1,2) f g by auto
  show ?case
  proof (cases "n = 0")
    case True
    then show ?thesis using e octet_dotted [OF o(1), of fs' t] octet_dotted [OF o(2), of gs' u] fm
      by (simp add: f g octet_hit_def [of L M f g] Let_def)
  next
    case False
    have "inet_loop L M n ?b (dotted fs' (NUL # t)) (dotted gs' (NUL # u)) = Some (list_all2 (octet_hit L M) fs' gs')"
      by (rule Suc.IH [OF _ _ lb]) (use Suc.prems f g in simp_all)
    then show ?thesis using False e octet_dotted [OF o(1), of fs' t] octet_dotted [OF o(2), of gs' u] fm
      by (simp add: f g octet_hit_def [of L M f g] Let_def)
  qed
qed simp

lemma matchinet_fields:
  assumes "length fs = 4" "length gs = 4" "length b = 8" "list_all octet_text fs" "list_all octet_text gs"
    and "list_all (\<lambda>f. CHR ''?'' \<notin> set f) fs" "\<not> ml_inet M (dotted fs [])" "dotted fs [] \<noteq> dotted gs []"
  shows "matchinet L M b (dotted gs []) (dotted fs (NUL # t)) = Some (list_all2 (octet_hit L M) fs gs)"
proof -
  have d: "dotted fs (NUL # t) = dotted fs [] @ NUL # t" "dotted gs [] @ [NUL] = dotted gs [NUL]" for t
    by (simp_all add: dotted_def split: list.split)
  have "no_nul (dotted fs [])"
    using assms(4) by (auto simp: dotted_def octet_text_def no_nul_def list_all_iff split: list.split)
  then have "cstr (dotted fs (NUL # t)) = dotted fs []" by (simp add: d cstr_append_nul)
  then show ?thesis
    using inet_loop_fields [OF assms(1-6), of L M t "[]"] assms(7,8) by (simp add: matchinet_def d)
qed

section \<open>Where the code goes wrong\<close>

text \<open>Patterns that are compared as they are: enough for examples.\<close>

definition ref_matchlib :: matchlib where
  "ref_matchlib = \<lparr>ml_lower = id, ml_scan_int = (\<lambda>s. int (snd (ref_scan_ulong s))), ml_wildmat = (\<lambda>x p. x = p),
     ml_regex = (\<lambda>x p. if x = p then 1 else 0), ml_fnmatch = (\<lambda>p x. if x = p then 0 else 1),
     ml_cdb = (\<lambda>_ _. CdbMissing), ml_readfile = (\<lambda>_. Some None), ml_constmap = (\<lambda>_ _. False), ml_inet = (\<lambda>_. False)\<rparr>"

text \<open>
  A rule that has admitted its sender keeps the NUL in place of its colon and is no rule any more: later in
  the session anybody may write to the protected recipient.
\<close>

definition ex_acl :: bytes where
  "ex_acl = acl_file [(''rcpt:'', ''ceo@x'', ''all@x'')]"

lemma admitting_rule_is_lost:
  "fst (mail_acl ref_matchlib (\<lambda>_. None) ex_acl False ''mallory@y'' ''all@x'') = 1"
  "fst (mail_acl ref_matchlib (\<lambda>_. None) (snd (mail_acl ref_matchlib (\<lambda>_. None) ex_acl False ''ceo@x'' ''all@x''))
     False ''mallory@y'' ''all@x'') = 0"
  by code_simp+

text \<open>The address of an IPv6 client does not fit the array of eight bytes.\<close>

lemma ipv6_client_overflows:
  "matchinet ref_libq ref_matchlib (replicate 8 NUL) ''2001:db8::1'' (''10.*.*.*'' @ [NUL]) = None"
  by code_simp

text \<open>A line without a colon hides the lines behind it.\<close>

lemma line_without_colon_hides:
  "table_loop ref_libq ref_matchlib (replicate 8 NUL) ''10.9.9.9'' ''@bad.com''
     (as_lines [''bad.com:10.0.0.1'']) 0 0 (False, False) = Some (Inr (True, False))"
  "table_loop ref_libq ref_matchlib (replicate 8 NUL) ''10.9.9.9'' ''@bad.com''
     (as_lines [''hidden'', ''bad.com:10.0.0.1'']) 0 0 (False, False) = Some (Inr (False, False))"
  by code_simp+

end
