(* ===== verification/SmtpRelay.thy ===== *)
theory SmtpRelay
  imports SmtpTransact AccessFacts
begin

text \<open>
  Who may relay: \<^verbatim>\<open>smtp_rcpt\<close> records a recipient only when the client may relay, the recipient's domain is
  listed, or the client has authenticated by POP before.
\<close>

section \<open>What holds where a handler goes on\<close>

definition leads :: "(sess \<Rightarrow> bool) \<Rightarrow> cmd \<Rightarrow> (sess \<Rightarrow> bool) \<Rightarrow> bool" where
  "leads C f D \<longleftrightarrow> (\<forall>s s'. C s \<longrightarrow> f s = (True, s') \<longrightarrow> D s')"

lemma leadsD: "leads C f D \<Longrightarrow> C s \<Longrightarrow> f s = (True, s') \<Longrightarrow> D s'"
  by (auto simp: leads_def)

lemma leads_also: "leads C f D \<Longrightarrow> leads D h E \<Longrightarrow> leads C (also_do f h) E"
  by (auto simp: leads_def also_do_def split: prod.split_asm bool.split_asm)

lemma leads_any: "leads C f (\<lambda>_. True)"
  by (simp add: leads_def)

lemma leads_kept: "kept g f \<Longrightarrow> leads (\<lambda>s. Q (g s)) f (\<lambda>s. Q (g s))"
  by (auto simp: leads_def kept_def) (metis snd_conv)

lemma leads_here: "(\<And>s. C s \<Longrightarrow> leads ((=) s) (f s) D) \<Longrightarrow> leads C (\<lambda>s. f s s) D"
  by (auto simp: leads_def)

lemma leads_weaken: "leads C f D \<Longrightarrow> (\<And>s. C' s \<Longrightarrow> C s) \<Longrightarrow> leads C' f D"
  by (auto simp: leads_def)

lemma leads_match:
  assumes "\<And>s. leads C y D" "leads C n D"
    and "\<And>s. C s \<Longrightarrow> C (s\<lparr>se_addr := map (ml_lower (po_match P)) (se_addr s)\<rparr>)"
  shows "leads C (match_addr P cl y n) D"
proof -
  have o: "leads C (on_match r y n) D" for r
    using assms(1,2) by (auto simp: on_match_def leads_def refuse_def die_with_def split: amres.split)
  have "D s'" if c: "C s" and m: "match_addr P cl y n s = (True, s')" for s s'
  proof -
    obtain r a where l: "list_match P cl (se_env s) (se_addr s) = (r, a)" by (metis surj_pair)
    have "snd (list_match P cl (se_env s) (se_addr s)) = map (ml_lower (po_match P)) (se_addr s)"
      by (simp add: list_match_def address_match_def Let_def)
    then have "C (s\<lparr>se_addr := a\<rparr>)" using l assms(3) [OF c] by simp
    moreover have "on_match r y n (s\<lparr>se_addr := a\<rparr>) = (True, s')" using m l by (simp add: match_addr_def)
    ultimately show ?thesis using leadsD [OF o] by blast
  qed
  then show ?thesis by (auto simp: leads_def)
qed

section \<open>The list of domains does not see the case\<close>

lemma lower_text:
  assumes "lower_ok M"
  shows "cstr (map (ml_lower M) a) = map (ml_lower M) (cstr a)"
    and "map (ml_lower M) (map (ml_lower M) a) = map (ml_lower M) a"
proof -
  have i: "ml_lower M c = NUL \<longleftrightarrow> c = NUL" for c using assms by (simp add: lower_ok_def)
  show "cstr (map (ml_lower M) a) = map (ml_lower M) (cstr a)"
    by (induction a) (simp_all add: cstr_def i)
  show "map (ml_lower M) (map (ml_lower M) a) = map (ml_lower M) a"
    using assms by (simp add: lower_ok_def)
qed

lemma rchr_lower:
  assumes "libqmail L" "lower_ok M"
  shows "lq_rchr L (map (ml_lower M) a) (CHR ''@'') = lq_rchr L a (CHR ''@'')"
proof -
  note rchr = libqmail.rchr_some [OF assms(1)] libqmail.rchr_none [OF assms(1)]
  have i: "ml_lower M c = CHR ''@'' \<longleftrightarrow> c = CHR ''@''" for c using assms(2) by (simp add: lower_ok_def)
  have j: "CHR ''@'' = ml_lower M c \<longleftrightarrow> c = CHR ''@''" for c using i [of c] by metis
  have s: "CHR ''@'' \<in> set (map (ml_lower M) x) \<longleftrightarrow> CHR ''@'' \<in> set x" for x
    by (induction x) (auto simp: j)
  show ?thesis
  proof (cases "CHR ''@'' \<in> set a")
    case True
    then obtain x y where "a = x @ CHR ''@'' # y" "CHR ''@'' \<notin> set y" by (metis split_list_last)
    moreover from this have "CHR ''@'' \<notin> set (map (ml_lower M) y)" using s by blast
    ultimately show ?thesis using rchr(1) [of "CHR ''@''" "map (ml_lower M) y" "map (ml_lower M) x"]
      by (simp add: rchr(1) iffD2 [OF i])
  next
    case False
    then have "CHR ''@'' \<notin> set (map (ml_lower M) a)" using s by blast
    then show ?thesis using False by (simp add: rchr(2))
  qed
qed

lemma rcpthosts_lower:
  assumes "libqmail L" "lower_ok M"
  shows "rcpthosts L M rh (map (ml_lower M) a) False = rcpthosts L M rh a False"
proof -
  have "map (ml_lower M) (drop n (map (ml_lower M) a)) = map (ml_lower M) (drop n a)" for n
    using lower_text(2) [OF assms(2), of "drop n a"] by (simp add: drop_map)
  then show ?thesis
    by (simp add: rcpthosts_def rchr_lower [OF assms] Let_def lower_text(2) [OF assms(2), simplified] del: map_map
        cong: option.case_cong)
qed

section \<open>No open relay\<close>

definition listed_domain :: "policy \<Rightarrow> bytes \<Rightarrow> bool" where
  "listed_domain P a \<longleftrightarrow> rcpthosts (po_lib P) (po_match P) (po_rhosts P) a False \<noteq> 0"

definition may_send :: "policy \<Rightarrow> sess \<Rightarrow> bool" where
  "may_send P s \<longleftrightarrow> se_relayclient s \<noteq> None \<or> se_authenticated s = 1 \<or> listed_domain P (cstr (se_addr s))"

text \<open>The view behind the test: who the client is, and whether its recipient is listed.\<close>

definition standing :: "policy \<Rightarrow> sess \<Rightarrow> bytes option \<times> int \<times> bool" where
  "standing P s = (se_relayclient s, se_authenticated s,
     libqmail (po_lib P) \<and> lower_ok (po_match P) \<and> listed_domain P (cstr (se_addr s)))"

interpretation standing: rcpt_view "standing P" P for P
proof unfold_locales
  show "standing P (s\<lparr>se_addr := map (ml_lower (po_match P)) (se_addr s)\<rparr>) = standing P s" for s
    by (auto simp: standing_def listed_domain_def lower_text(1) rcpthosts_lower)
qed (simp_all add: standing_def)

lemma may_send_standing:
  assumes "libqmail (po_lib P)" "lower_ok (po_match P)"
  shows "may_send P s \<longleftrightarrow> (case standing P s of (r, n, l) \<Rightarrow> r \<noteq> None \<or> n = 1 \<or> l)"
  by (simp add: may_send_def standing_def assms)

lemma kept_end: "kept (standing P) (rcpt_end P good)"
proof -
  have "kept (standing P) rcpt_ok" by (simp add: kept_def rcpt_ok_def send_code_def standing_def)
  then show ?thesis unfolding rcpt_end_def
    by (intro kept_steps standing.base_steps standing.kept_limits)
qed

lemma relay_leads:
  "leads (\<lambda>s. a \<noteq> 0 \<longrightarrow> listed_domain P (cstr (se_addr s))) (rcpt_relay P a) (may_send P)"
  by (auto simp: leads_def rcpt_relay_def may_send_def go_def refuse_def split: option.split_asm prod.split_asm if_splits)

lemma rest_leads:
  assumes "libqmail (po_lib P)" "lower_ok (po_match P)"
  shows "leads (\<lambda>_. True) (rcpt_rest P good) (may_send P)"
proof -
  let ?k = "\<lambda>a. also_do (rcpt_relay P a) (rcpt_mailbox P a good (rcpt_end P))"
  have m: "leads (may_send P) (rcpt_mailbox P a good (rcpt_end P)) (may_send P)" for a
  proof -
    have e: "may_send P = (\<lambda>s. case standing P s of (r, n, l) \<Rightarrow> r \<noteq> None \<or> n = 1 \<or> l)"
      by (rule ext) (rule may_send_standing [OF assms])
    show ?thesis unfolding e by (rule leads_kept [OF standing.kept_mailbox [OF kept_end]])
  qed
  have k: "leads (\<lambda>s. a \<noteq> 0 \<longrightarrow> listed_domain P (cstr (se_addr s))) (?k a) (may_send P)" for a
    by (rule leads_also [OF relay_leads m])
  have al: "leads ((=) s) (addrallowed P (cstr (se_addr s)) ?k) (may_send P)" for s
    using leadsD [OF k, of "rcpthosts (po_lib P) (po_match P) (po_rhosts P) (cstr (se_addr s)) False" s]
    by (auto simp: leads_def addrallowed_def Let_def die_with_def listed_domain_def split: if_splits)
  have "leads (\<lambda>_. True) (\<lambda>s. (if \<not> se_chkdomok s \<and> \<not> has_env ''AUTH_ALL'' s
      then addrallowed P (cstr (se_addr s)) else (\<lambda>k. k 0)) ?k s) (may_send P)"
    by (rule leads_here) (use al k [of 0] in \<open>auto simp: leads_def\<close>)
  then show ?thesis unfolding rcpt_rest_def all_do_simps
    by (intro leads_also [OF leads_any] leads_also [where D = "may_send P"]) (simp_all add: leads_def)
qed

lemma good_leads:
  assumes "libqmail (po_lib P)" "lower_ok (po_match P)"
  shows "leads (\<lambda>_. True) (all_do (rcpt_steps P arg)) (may_send P)"
  unfolding rcpt_steps_def rcpt_good_def all_do_simps
  by (intro leads_also [OF leads_any] leads_also [where D = "may_send P"] leads_match rest_leads assms)
     (simp_all add: leads_def)

end
