(* ===== verification/SmtpExamples.thy ===== *)
theory SmtpExamples
  imports SmtpRelay
begin

text \<open>
  A small configuration and sessions with it: the examples of the properties, and sessions in which the code
  of \<^verbatim>\<open>smtpd.c\<close> does not do what it means to.
\<close>

definition ex_list :: clist where
  "ex_list = \<lparr>cl_fn = ''list'', cl_ok = False, cl_text = [], cl_pok = False, cl_pats = []\<rparr>"

definition ex_policy :: policy where
  "ex_policy = \<lparr>po_lib = ref_libq, po_match = ref_matchlib, po_setup = 0, po_restore = id,
     po_remoteip = ''10.1.1.1'', po_remotehost = ''client'', po_localip = ''10.0.0.1'', po_localhost = ''mx'',
     po_liphost = None, po_ipme = (\<lambda>_. False), po_stale = replicate 8 NUL,
     po_rhosts = \<lparr>rh_map = Some (\<lambda>d. d = ''a.org''), rh_more = None\<rparr>, po_locals = (\<lambda>d. d = ''a.org''),
     po_hasvirtual = False, po_symbol = (\<lambda>_. False), po_pwd = (\<lambda>_. PwdError), po_user = (\<lambda>_. None),
     po_relay = (\<lambda>_. None), po_domain = (\<lambda>_. None), po_passwd = Some [''joe:x:1'' @ [LF]], po_recipients = (\<lambda>_. 10),
     po_nodns = True, po_nodnschecks = None, po_mxip = (\<lambda>_. DnsFine), po_helocheck = False,
     po_badhelo = ex_list, po_bhsndr = ex_list, po_bmf = ex_list, po_spsndr = ex_list, po_rmf = ex_list,
     po_chkdom = ex_list, po_chkrcpt = ex_list, po_chksndr = ex_list, po_gdrcpt = ex_list, po_badrcpt = ex_list,
     po_bhrcpt = ex_list, po_acclistok = False, po_qregex = False, po_spfbehavior = 0, po_spf = (\<lambda>_. 0),
     po_spfexp = Some ''see spf'', po_srs_domain = [], po_srsreverse = (\<lambda>_. SrsOff), po_databytes = 0,
     po_maxrcptcount = 2, po_authok = False,
     po_auth = (\<lambda>_. \<lparr>au_ret = -1, au_user = [], au_method = 0, au_replies = []\<rparr>), po_grey = None, po_novrfy = False\<rparr>"

definition ex_sess :: sess where
  "ex_sess = \<lparr>se_env = (\<lambda>_. None), se_seenhelo = True, se_seenmail = False, se_mailfrom = [], se_rcptto = [],
     se_addr = [], se_rcptcount = 0, se_errcount = 0, se_maxerr = -1, se_flagsize = False, se_msgsize = 0,
     se_relayclient = None, se_authd = 0, se_authenticated = 0, se_info = NoInfo, se_user = [], se_proto = [],
     se_utf8ok = False, se_utf8 = False, se_mfmem = None, se_mflen = 0, se_chkdomok = False, se_chkrcptok = False,
     se_chksndrok = False, se_acclist = [], se_helohost = ''@h'', se_fakehelo = False, se_barelf = False,
     se_replies = [], se_ended = False\<rparr>"

text \<open>After MAIL from \<^verbatim>\<open>u@b.org\<close>.\<close>

definition ex_mailed :: sess where
  "ex_mailed = ex_sess\<lparr>se_addr := ''u@b.org'' @ [NUL], se_proto := ''ESMTP'', se_mflen := 0,
     se_mfmem := Some ''ROM:<u@b.org>'', se_seenmail := True, se_mailfrom := ''u@b.org'' @ [NUL], se_replies := [250]\<rparr>"

lemmas ex_run = all_do_simps also_do_def setup_guard_def ex_policy_def ex_mailed_def ex_sess_def

lemma ex_fields: "po_lib ex_policy = ref_libq" "po_match ex_policy = ref_matchlib" "po_setup ex_policy = 0"
  "po_restore ex_policy = id" "po_liphost ex_policy = None" "po_ipme ex_policy = (\<lambda>_. False)" "po_nodns ex_policy"
  "po_bhsndr ex_policy = ex_list" "po_bmf ex_policy = ex_list" "po_rmf ex_policy = ex_list"
  "po_rhosts ex_policy = \<lparr>rh_map = Some (\<lambda>d. d = ''a.org''), rh_more = None\<rparr>" "po_spfbehavior ex_policy = 0"
  "\<not> po_hasvirtual ex_policy"
  by (simp_all add: ex_policy_def)

lemma ex_parse: "addrparse ref_libq None (\<lambda>_. False) ''FROM:<u@b.org>'' = (True, Some ''u@b.org'')"
  by code_simp

lemma ex_chr: "ref_chr ''FROM:<u@b.org>'' (CHR ''>'') = 13"
  by code_simp

lemma ex_allowed: "addrallowed ex_policy ''u@b.org'' k s = k 0 s"
proof -
  have "rcpthosts ref_libq ref_matchlib \<lparr>rh_map = Some (\<lambda>d. d = ''a.org''), rh_more = None\<rparr> ''u@b.org'' False = 0"
    by code_simp
  then show ?thesis by (simp add: addrallowed_def ex_fields)
qed

lemma ex_table: "tablematch ref_libq ref_matchlib e b f i d = Some 1"
  by (simp add: tablematch_def ref_matchlib_def)

lemma ex_lists:
  "se_env s = (\<lambda>_. None) \<Longrightarrow> match_addr ex_policy (no_pats ex_list) y n s = n (s\<lparr>se_addr := se_addr s\<rparr>)"
  "se_env s = (\<lambda>_. None) \<Longrightarrow> match_addr ex_policy ex_list y n s = n (s\<lparr>se_addr := se_addr s\<rparr>)"
  "se_env s = (\<lambda>_. None) \<Longrightarrow> match_mailfrom ex_policy (no_pats ex_list) y n s = n (s\<lparr>se_mailfrom := se_mailfrom s\<rparr>)"
  by (simp_all add: match_addr_def match_mailfrom_def list_match_def address_match_def cdbmatch_def wildmat_match_def
      ex_list_def no_pats_def ex_policy_def ref_matchlib_def on_match_def Let_def)

text \<open>Words are collected byte by byte.\<close>

lemma mf_loop_word:
  "list_all (\<lambda>c. c \<noteq> CHR '' '' \<and> c \<noteq> NUL) w \<Longrightarrow>
   mf_loop P (w @ cs) (s\<lparr>se_mfmem := Some m, se_mflen := length m\<rparr>) =
   mf_loop P cs (s\<lparr>se_mfmem := Some (m @ w), se_mflen := length (m @ w)\<rparr>)"
proof (induction w arbitrary: m)
  case (Cons c w)
  have "mf_put c (s\<lparr>se_mfmem := Some m, se_mflen := length m\<rparr>) = s\<lparr>se_mfmem := Some (m @ [c]), se_mflen := length (m @ [c])\<rparr>"
    by (simp add: mf_put_def)
  then show ?case using Cons.IH [of "m @ [c]"] Cons.prems by simp
qed simp

lemma mf_first_word:
  "list_all (\<lambda>c. c \<noteq> CHR '' '' \<and> c \<noteq> NUL) (c # w) \<Longrightarrow> se_mfmem s = None \<Longrightarrow> se_mflen s = 0 \<Longrightarrow>
   mf_loop P (c # w @ cs) s = mf_loop P cs (s\<lparr>se_mfmem := Some (c # w), se_mflen := length (c # w)\<rparr>)"
  using mf_loop_word [where w = w and P = P and cs = cs and s = s and m = "[c]"] by (simp add: mf_put_def)

lemma ex_parms:
  "mailfrom_parms ex_policy ''FROM:<u@b.org>'' s = (\<not> se_ended s, s\<lparr>se_mfmem := Some ''ROM:<u@b.org>'', se_mflen := 0\<rparr>)"
  if "se_mfmem s = None" "\<not> se_utf8ok s"
proof -
  let ?t = "s\<lparr>se_mfmem := Some ''ROM:<u@b.org>'', se_mflen := length ''ROM:<u@b.org>''\<rparr>"
  have w: "mf_word ex_policy ?t = (True, ?t)"
    using that by (simp add: mf_word_def case_starts_def cstr_def ex_fields ref_matchlib_def)
  have "mf_loop ex_policy (CHR ''R'' # ''OM:<u@b.org>'' @ [NUL]) (s\<lparr>se_mflen := 0\<rparr>) = mf_loop ex_policy [NUL] ?t"
    using mf_first_word [of "CHR ''R''" "''OM:<u@b.org>''" "s\<lparr>se_mflen := 0\<rparr>" ex_policy "[NUL]"] that
    by (simp del: mf_loop.simps)
  then have "mf_loop ex_policy (''ROM:<u@b.org>'' @ [NUL]) (s\<lparr>se_mflen := 0\<rparr>) = ?t\<lparr>se_mflen := 0\<rparr>"
    using w by simp
  then show ?thesis using that by (simp add: mailfrom_parms_def ex_fields ref_libq_def ex_chr Let_def del: mf_loop.simps)
qed

lemma run_step: "f s = (True, s1) \<Longrightarrow> snd (all_do fs s1) = r \<Longrightarrow> snd (all_do (f # fs) s) = r"
  by (simp add: all_do_simps also_do_def)

lemmas ex_steps = change_def ex_fields setup_guard_def go_def if_do_def mail_address_def ex_parse mail_proto_def has_env_def
  mail_host_def ex_table ex_parms ex_lists mail_dns_def mail_start_def cstr_def mail_sender_def ex_allowed mail_spf_def
  unset_env_def mail_ok_def send_code_def

lemma ex_mail_run: "smtp_mail ex_policy ''FROM:<u@b.org>'' ex_sess = ex_mailed"
  unfolding smtp_mail_def mail_steps_def
  by ((rule run_step, simp add: ex_sess_def ex_steps)+) (simp add: all_do_simps ex_mailed_def ex_sess_def)

lemma ex_lower: "lower_ok (po_match ex_policy)"
  by (simp add: lower_ok_def ex_policy_def ref_matchlib_def)

lemma ex_recorded: "se_rcptto (smtp_rcpt ex_policy ''TO:<joe@a.org>'' ex_mailed) = ''Tjoe@a.org'' @ [NUL]"
  "se_relayclient (smtp_rcpt ex_policy ''TO:<joe@a.org>'' ex_mailed) = None"
  "se_authenticated (smtp_rcpt ex_policy ''TO:<joe@a.org>'' ex_mailed) = 0"
  by (simp add: smtp_rcpt_def rcpt_steps_def ex_run; code_simp)+

lemma ex_data_guard: "fst (data_guard ex_policy [] (smtp_rcpt ex_policy ''TO:<joe@a.org>'' ex_mailed))"
  by (simp add: smtp_rcpt_def rcpt_steps_def ex_run) code_simp

text \<open>The history of the example.\<close>

lemma run_all: "f s = (True, s1) \<Longrightarrow> all_do fs s1 = r \<Longrightarrow> all_do (f # fs) s = r"
  by (simp add: all_do_simps also_do_def)

lemma ex_mail_all: "all_do (mail_steps ex_policy ''FROM:<u@b.org>'') ex_sess = (True, ex_mailed)"
  unfolding mail_steps_def
  by ((rule run_all, simp add: ex_sess_def ex_steps)+) (simp add: all_do_simps ex_mailed_def ex_sess_def)

lemma ex_history:
  "mail_events ex_policy ''FROM:<u@b.org>'' ex_sess = [EvMail ''u@b.org'' True]"
  "rcpt_events ex_policy ''TO:<joe@a.org>'' ex_mailed = [EvRcpt ''joe@a.org'']"
proof -
  have "fst (all_do (mail_before ex_policy ''FROM:<u@b.org>'') ex_sess)"
    using ex_mail_all unfolding mail_steps_split all_do_append
    by (auto simp: also_do_def split: prod.split_asm bool.split_asm)
  then show "mail_events ex_policy ''FROM:<u@b.org>'' ex_sess = [EvMail ''u@b.org'' True]"
    by (simp add: mail_events_def ex_mail_all parsed_def ex_fields ex_parse cstr_def)
  show "rcpt_events ex_policy ''TO:<joe@a.org>'' ex_mailed = [EvRcpt ''joe@a.org'']"
    by (simp add: rcpt_events_def rcpt_steps_def ex_run; code_simp)
qed

section \<open>Where the code goes wrong\<close>

text \<open>
  Without \<^verbatim>\<open>control/srs_domain\<close> every recipient that looks like an SRS address is decoded; the failure sends a
  reply and the handler goes on to the next one.
\<close>

lemma srs_without_configuration:
  "is_srs ex_policy (''SRS0=x@a.org'' @ [NUL])"
  "rcpt_srs ex_policy (ex_mailed\<lparr>se_addr := ''SRS0=x@a.org'' @ [NUL]\<rparr>) =
     (True, send_code 451 (ex_mailed\<lparr>se_addr := ''SRS0=x@a.org'' @ [NUL]\<rparr>))"
proof -
  show i: "is_srs ex_policy (''SRS0=x@a.org'' @ [NUL])" by (simp add: is_srs_def ex_policy_def) code_simp
  have "po_srsreverse ex_policy a = SrsOff" for a by (simp add: ex_policy_def)
  then show "rcpt_srs ex_policy (ex_mailed\<lparr>se_addr := ''SRS0=x@a.org'' @ [NUL]\<rparr>) =
     (True, send_code 451 (ex_mailed\<lparr>se_addr := ''SRS0=x@a.org'' @ [NUL]\<rparr>))"
    using i by (simp add: rcpt_srs_def if_do_def go_def)
qed

text \<open>
  An authenticated client may send under any sender whose domain is listed: the masquerading test writes its
  refusals, and the handler goes on to 250.
\<close>

lemma masquerade_is_not_refused:
  assumes "se_authd s \<noteq> 0" "remote_info s = Some info" "se_env s ''MASQUERADE'' = x" "x \<noteq> Some []"
    and "lq_rchr (po_lib P) (cstr (se_mailfrom s)) (CHR ''@'') < length (cstr (se_mailfrom s))"
    and "rcpthosts (po_lib P) (po_match P) (po_rhosts P) (cstr (se_mailfrom s)) False = 1"
  shows "fst (check_masquerade P s)"
  using assms by (simp add: check_masquerade_def Let_def addrallowed_def change_def)

lemma masquerade_sends_refusals:
  "se_replies (masq_loop ex_policy ''joe'' ''a.org'' None ''eve@b.org'' ex_sess) = [553, 553]"
  by (simp add: masq_loop_def masq_pass_def domain_compare_def ex_policy_def ex_sess_def Let_def send_code_def) code_simp

text \<open>With \<^verbatim>\<open>MASQUERADE\<close> set to a name, a sender without a domain is not compared with anything.\<close>

lemma masquerade_ignores_plain_sender:
  assumes "se_env s ''MASQUERADE'' = Some v" "v \<noteq> []" "se_authd s \<noteq> 0" "remote_info s = Some v"
    and "lq_rchr (po_lib P) (cstr (se_mailfrom s)) (CHR ''@'') = length (cstr (se_mailfrom s))"
  shows "check_masquerade P s = (True, s)"
  using assms by (simp add: check_masquerade_def Let_def go_def)

text \<open>
  A second MAIL that is refused after the sender was replaced leaves the transaction open with the refused
  sender: RCPT and DATA go on with it.
\<close>

lemma refused_sender_stays:
  assumes "po_spfbehavior P = 3" "po_spf P (cstr (se_mailfrom s)) = 5" "po_spfexp P = Some ''no''"
    and "se_relayclient s = None"
  shows "\<not> fst (mail_spf P s)" "se_seenmail (snd (mail_spf P s)) = se_seenmail s"
    and "se_mailfrom (snd (mail_spf P s)) = se_mailfrom s"
  using assms by (simp_all add: mail_spf_def err_spf_def put_env_def send_code_def Let_def)

text \<open>A short word behind \<^verbatim>\<open>AUTH=\<close>, or a second space, makes the length negative.\<close>

lemma auth_word_overruns:
  "mf_word ex_policy (ex_sess\<lparr>se_mfmem := Some ''AUTH=u'', se_mflen := 0\<rparr>) =
     crash (ex_sess\<lparr>se_mfmem := Some ([NUL] @ ''UTH=u''), se_mflen := 0\<rparr>)"
  by (simp add: mf_word_def mailfrom_auth_def case_starts_def cstr_def ex_policy_def ref_matchlib_def ex_sess_def crash_def)

text \<open>The name of HELO loses its last letter before it is looked up.\<close>

lemma badhelo_drops_last_letter:
  "fst (list_match (ex_policy\<lparr>po_match := ref_matchlib\<lparr>ml_constmap := \<lambda>t k. k = ''@x.co''\<rparr>\<rparr>)
     (ex_list\<lparr>cl_ok := True\<rparr>) (\<lambda>_. None) ''@x.com'') = AmYes"
  by (simp add: list_match_def ex_list_def ex_policy_def) code_simp

text \<open>A name that is refused gets two replies, 250 and 553.\<close>

lemma helo_refused_twice:
  assumes "po_setup P = 0" "po_helocheck P" "arg \<noteq> []" "se_relayclient s = Some r"
    and "same_nocase (po_match P) (po_localip P) (po_remoteip P)"
    and "list_match P (no_pats (po_badhelo P)) (se_env s) (CHR ''@'' # arg) = (AmYes, h)"
  shows "se_replies (smtp_helo P arg s) = se_replies s @ [250, 553]" "\<not> se_seenhelo (smtp_helo P arg s)"
  using assms
  by (simp_all add: smtp_helo_def dohelo_def helo_checks_def all_do_simps also_do_def change_def setup_guard_def go_def
      if_do_def send_code_def on_match_def refuse_def)

text \<open>A sender that is not in \<^verbatim>\<open>authdomains\<close> switches the list off for the rest of the session.\<close>

lemma authdomains_is_switched_off:
  assumes "list_match P ((no_pats (po_chkdom P))\<lparr>cl_ok := True\<rparr>) (se_env s) (se_mailfrom s) = (AmNo, a)" "se_chkdomok s"
  shows "\<not> se_chkdomok (snd (when_do se_chkdomok
    (match_mailfrom P ((no_pats (po_chkdom P))\<lparr>cl_ok := True\<rparr>) go (change (\<lambda>s. s\<lparr>se_chkdomok := False\<rparr>))) s))"
  using assms by (simp add: if_do_def match_mailfrom_def on_match_def change_def)

end
