(* ===== verification/SmtpCmdProps.thy ===== *)
theory SmtpCmdProps
  imports SmtpExamples
begin

text \<open>The properties of the SMTP session and of the lists that it consults.\<close>

text \<open>
  C28. No open relay. RCPT records a recipient only when the client may relay (\<^verbatim>\<open>RELAYCLIENT\<close>, a successful
  AUTH, \<^verbatim>\<open>relaymailfrom\<close>), or it has authenticated by POP, or the domain of the recipient, in lower case, or one
  of its parents is in \<^verbatim>\<open>rcpthosts\<close> or \<^verbatim>\<open>morercpthosts.cdb\<close>, whatever the other lists and lookups say. The
  list exists and its cdb file can be read.
\<close>

theorem no_open_relay:
  assumes L: "libqmail (po_lib P)" and M: "lower_ok (po_match P)"
    and rh: "rh_map (po_rhosts P) = Some m" and more: "\<And>seek k. rh_more (po_rhosts P) = Some seek \<Longrightarrow> seek k = 0 \<or> seek k = 1"
    and s': "s' = smtp_rcpt P arg s" "se_rcptto s' \<noteq> se_rcptto s"
    and not_client: "se_relayclient s' = None" "se_authenticated s' \<noteq> 1"
    and r: "cstr (se_addr s') = u @ CHR ''@'' # d" "CHR ''@'' \<notin> set d"
  shows "se_rcptto s' = se_rcptto s @ CHR ''T'' # (u @ CHR ''@'' # d) @ [NUL] \<and>
    (\<exists>k \<in> set (domain_keys (map (ml_lower (po_match P)) d)). listed (po_rhosts P) k)"
proof
  obtain ok t where f: "all_do (rcpt_steps P arg) s = (ok, t)" by (metis surj_pair)
  then have t: "t = s'" using s' by (simp add: smtp_rcpt_def)
  have ok: ok using decidesD(2) [OF rcpt_decides, of P arg s t] f s'(2) t by (cases ok) (auto simp: env_view_def)
  then have "recorded P False s s'" using decidesD(1) [OF rcpt_decides, of P arg s t] f t by simp
  then show "se_rcptto s' = se_rcptto s @ CHR ''T'' # (u @ CHR ''@'' # d) @ [NUL]"
    using r by (simp add: recorded_def env_view_def)
  have "may_send P s'" using leadsD [OF good_leads [OF L M, of arg], of s s'] f t ok by simp
  then have "rcpthosts (po_lib P) (po_match P) (po_rhosts P) (u @ CHR ''@'' # d) False \<noteq> 0"
    using not_client r by (simp add: may_send_def listed_domain_def)
  then show "\<exists>k \<in> set (domain_keys (map (ml_lower (po_match P)) d)). listed (po_rhosts P) k"
    by (subst (asm) rcpthosts_listed [OF L rh r(2)]) (auto dest: more split: if_splits)
qed

lemma no_open_relay_witness:
  "\<exists>k \<in> set (domain_keys (map (ml_lower (po_match ex_policy)) ''a.org'')). listed (po_rhosts ex_policy) k"
proof (rule no_open_relay [THEN conjunct2, of ex_policy "\<lambda>d. d = ''a.org''" "smtp_rcpt ex_policy ''TO:<joe@a.org>'' ex_mailed"
      "''TO:<joe@a.org>''" ex_mailed "''joe''"])
  show "cstr (se_addr (smtp_rcpt ex_policy ''TO:<joe@a.org>'' ex_mailed)) = ''joe'' @ CHR ''@'' # ''a.org''"
    by (simp add: smtp_rcpt_def rcpt_steps_def ex_run; code_simp)
qed (simp_all add: ex_lower ex_recorded, simp_all add: ex_policy_def ref.libqmail_axioms ex_mailed_def ex_sess_def)

text \<open>
  C31. Every RCPT that does not end the process is answered, and the answer is true: after 250 the recipient is recorded,
  exactly as the command left it in \<^verbatim>\<open>addr\<close>, behind the earlier ones, and the limits on recipients hold; after any
  other answer the envelope is as before. There is one answer, unless the recipient is an SRS address (without
  \<^verbatim>\<open>control/srs_domain\<close>, any that begins like one) that cannot be decoded: then a reply 451 comes first
  (\<^verbatim>\<open>srs_reply\<close>), and the handler goes on. The library of the virtual domains, where one is configured, has the function
  \<^verbatim>\<open>inquery\<close>.
\<close>

theorem recipient_is_answered:
  assumes "library_ok P \<or> \<not> po_hasvirtual P" "smtp_rcpt P arg s = s'" "\<not> se_ended s'"
  shows "(se_replies s' = se_replies s @ srs_reply P arg s @ [250] \<and> se_rcptto s' = se_rcptto s @ CHR ''T'' # cstr (se_addr s') @ [NUL]
            \<and> se_rcptcount s' = se_rcptcount s + 1 \<and> se_mailfrom s' = se_mailfrom s
            \<and> (po_maxrcptcount P > 0 \<longrightarrow> se_rcptcount s' \<le> po_maxrcptcount P)
            \<and> (length (se_mailfrom s) = 1 \<longrightarrow> se_rcptcount s' \<le> 1))
       \<or> (\<exists>c. c \<noteq> 250 \<and> se_replies s' = se_replies s @ srs_reply P arg s @ [c] \<and> se_rcptto s' = se_rcptto s
            \<and> se_rcptcount s' = se_rcptcount s \<and> se_mailfrom s' = se_mailfrom s)"
  using smtp_rcpt_outcome [OF assms] by (auto simp: recorded_def env_view_def within_def)

lemma recipient_is_answered_witness:
  "length (se_replies (smtp_rcpt ex_policy ''TO:<joe@c.org>'' ex_mailed)) = length (se_replies ex_mailed) + 1"
proof -
  have "library_ok ex_policy \<or> \<not> po_hasvirtual ex_policy" by (simp add: ex_policy_def)
  moreover have "\<not> se_ended (smtp_rcpt ex_policy ''TO:<joe@c.org>'' ex_mailed)"
    by (simp add: smtp_rcpt_def rcpt_steps_def ex_run; code_simp)
  moreover have "srs_reply ex_policy ''TO:<joe@c.org>'' ex_mailed = []"
    by (simp add: srs_reply_def srs_fails_def rcpt_head_def rcpt_steps_def ex_run is_srs_def; code_simp)
  ultimately show ?thesis
    using recipient_is_answered [of ex_policy "''TO:<joe@c.org>''" ex_mailed "smtp_rcpt ex_policy ''TO:<joe@c.org>'' ex_mailed"] by auto
qed

text \<open>The default installation answers such a recipient twice.\<close>

lemma srs_recipient_is_answered_twice:
  "srs_reply ex_policy ''TO:<SRS0=x@a.org>'' ex_mailed = [451]"
  by (simp add: srs_reply_def srs_fails_def rcpt_head_def rcpt_steps_def ex_run is_srs_def; code_simp)



text \<open>
  C24. The access list admits or refuses as its rules say, whatever their order in the buffer: a mail is admitted
  when a rule that applies to it names its sender (\<^verbatim>\<open>rcpt:\<close>) or its recipient (\<^verbatim>\<open>from:\<close>), refused when rules apply
  and none does, and admitted when none applies; and a list that has not admitted by name is unchanged.
\<close>

theorem access_list_decides:
  assumes "matcher_total M env q" "list_all wf_rule rs" "\<not> acl_exempt sender rcpt"
    and "acl_verdicts M env q sender rcpt rs = (r, f)"
  shows "fst (mail_acl M env (acl_file rs) q sender rcpt) =
      (if r = Some True \<or> f = Some True then 0 else if r = None \<and> f = None then 0 else 1)
    \<and> (\<not> (r = Some True \<or> f = Some True) \<longrightarrow> snd (mail_acl M env (acl_file rs) q sender rcpt) = acl_file rs)"
  using mail_acl_verdicts [OF assms] by simp

lemma access_list_decides_witness:
  "fst (mail_acl ref_matchlib (\<lambda>_. None) (acl_file [(''rcpt:'', ''ceo@x'', ''all@x'')]) False ''eve@y'' ''all@x'') = 1"
proof -
  have v: "acl_verdicts ref_matchlib (\<lambda>_. None) False ''eve@y'' ''all@x'' [(''rcpt:'', ''ceo@x'', ''all@x'')] = (Some False, None)"
    by (simp add: acl_verdicts_def acl_decide_def acl_match_def do_match_def ref_matchlib_def)
  show ?thesis
    using access_list_decides [OF matcher_wild _ _ v] by (simp add: wf_rule_def acl_exempt_def)
qed

end
