(* ===== verification/LocalMbox.thy ===== *)
theory LocalMbox
  imports LibQmail
begin

text \<open>
  \<^verbatim>\<open>indimail-mta-x/qmail-local.c\<close>, delivery to an mbox file: \<^verbatim>\<open>mailfile\<close> appends the message to a file that it
  locks, and \<^verbatim>\<open>gfrom\<close> of \<^verbatim>\<open>gfrom.c\<close> finds the lines that a reader would take for the start of a message. No other
  process writes to the file meanwhile; \<open>me_fault n\<close> says how the \<open>n\<close>-th output call fails.
\<close>

section \<open>Lines\<close>

text \<open>\<^verbatim>\<open>getln\<close> up to a line feed: the line with its line feed, \<^verbatim>\<open>match\<close>, and what is left.\<close>

fun getln :: "bytes \<Rightarrow> bytes \<times> bool \<times> bytes" where
  "getln [] = ([], False, [])"
| "getln (c # b) = (if c = LF then ([c], True, b) else case getln b of (l, m, r) \<Rightarrow> (c # l, m, r))"

lemma getln_append: "getln b = (l, m, r) \<Longrightarrow> b = l @ r"
  by (induction b arbitrary: l) (auto split: if_splits prod.splits)

lemma getln_shorter: "getln b = (l, True, r) \<Longrightarrow> length r < length b"
  by (induction b arbitrary: l) (fastforce split: if_splits prod.splits)+

lemma getln_last: "getln b = (l, False, r) \<Longrightarrow> r = [] \<and> l = b \<and> LF \<notin> set l"
  by (induction b arbitrary: l) (auto split: if_splits prod.splits)

lemma getln_line: "getln b = (l, True, r) \<Longrightarrow> \<exists>k. l = k @ [LF] \<and> LF \<notin> set k"
proof (induction b arbitrary: l)
  case (Cons c b)
  show ?case
  proof (cases "c = LF")
    case True
    then show ?thesis using Cons.prems by auto
  next
    case False
    obtain l' m where g: "getln b = (l', m, r)" and l: "l = c # l'" "m"
      using Cons.prems False by (auto split: prod.splits)
    then obtain k where "l' = k @ [LF]" "LF \<notin> set k" using Cons.IH by auto
    then show ?thesis using l False by (intro exI [of _ "c # k"]) auto
  qed
qed simp

lemma getln_whole: "LF \<notin> set k \<Longrightarrow> getln (k @ LF # r) = (k @ [LF], True, r)"
  by (induction k) auto

lemma getln_short: "LF \<notin> set k \<Longrightarrow> getln k = (k, False, [])"
  by (induction k) auto

section \<open>\<^verbatim>\<open>gfrom\<close>\<close>

fun gfrom :: "bytes \<Rightarrow> bool" where
  "gfrom [] = False"
| "gfrom (c # s) = (if c = CHR ''>'' then gfrom s else 5 \<le> length (c # s) \<and> take 5 (c # s) = ''From '')"

section \<open>\<^verbatim>\<open>mailfile\<close>\<close>

datatype lockres = Locked | Unlocked | Slow    \<comment> \<open>\<^verbatim>\<open>Slow\<close>: the alarm of 30 seconds rings\<close>

record mboxenv =
  me_rewind :: bool
  me_open :: bool
  me_lock :: lockres
  me_spill :: "nat \<Rightarrow> nat"                       \<comment> \<open>how much of the buffer a call writes out\<close>
  me_fault :: "nat \<Rightarrow> (nat \<times> bool) option"       \<comment> \<open>it fails after so many bytes; the quota is exceeded\<close>
  me_readerr :: "nat \<Rightarrow> bool"
  me_trunc :: bool                               \<comment> \<open>\<^verbatim>\<open>seek_trunc\<close> succeeds\<close>

record msg =
  ms_ufline :: bytes
  ms_rpline :: bytes
  ms_dtline :: bytes
  ms_qqeh :: bytes
  ms_mess :: bytes
  ms_sync :: bool              \<comment> \<open>\<^verbatim>\<open>USE_FSYNC\<close> or \<^verbatim>\<open>USE_FDATASYNC\<close>\<close>

record mbox =
  mb_file :: bytes
  mb_buf :: bytes
  mb_calls :: nat
  mb_reads :: nat
  mb_err :: "bool option"      \<comment> \<open>why the delivery stopped: the quota, or another error\<close>

text \<open>An output call that has \<open>k\<close> bytes of the buffer \<open>d\<close> to write.\<close>

definition mwrite :: "mboxenv \<Rightarrow> nat \<Rightarrow> bytes \<Rightarrow> mbox step" where
  "mwrite E k d s =
     (let s1 = s\<lparr>mb_calls := mb_calls s + 1\<rparr>
      in case me_fault E (mb_calls s) of
           None \<Rightarrow> (True, s1\<lparr>mb_file := mb_file s @ take k d, mb_buf := drop k d\<rparr>)
         | Some (n, quota) \<Rightarrow> (False, s1\<lparr>mb_file := mb_file s @ take (min n k) d, mb_err := Some quota\<rparr>))"

definition mput :: "mboxenv \<Rightarrow> bytes \<Rightarrow> mbox step" where
  "mput E b s = mwrite E (me_spill E (mb_calls s)) (mb_buf s @ b) s"

definition mflush :: "mboxenv \<Rightarrow> mbox step" where
  "mflush E s = mwrite E (length (mb_buf s)) (mb_buf s) s"

definition msync :: "mboxenv \<Rightarrow> bool \<Rightarrow> mbox step" where
  "msync E sync s = (if sync then mwrite E 0 (mb_buf s) s else (True, s))"

text \<open>The loop over the lines of the message.\<close>

function copy_lines :: "mboxenv \<Rightarrow> bytes \<Rightarrow> mbox step" where
  "copy_lines E inp s =
     (if me_readerr E (mb_reads s) then (False, s\<lparr>mb_err := Some False\<rparr>)
      else case getln inp of (l, match, rest) \<Rightarrow>
        let s0 = s\<lparr>mb_reads := mb_reads s + 1\<rparr>
        in if \<not> match \<and> l = [] then (True, s0)
           else case all_do [if gfrom l then mput E ''>'' else Pair True, mput E l,
                             if match then Pair True else mput E [LF]] s0 of
                  (False, s1) \<Rightarrow> (False, s1)
                | (True, s1) \<Rightarrow> if match then copy_lines E rest s1 else (True, s1))"
  by pat_completeness auto
termination
  by (relation "measure (\<lambda>(E, inp, s). length inp)") (auto dest!: getln_shorter [OF sym])

declare copy_lines.simps [simp del]

definition mbox_steps :: "mboxenv \<Rightarrow> msg \<Rightarrow> mbox step list" where
  "mbox_steps E h =
     [mput E (ms_ufline h), mput E (ms_rpline h), mput E (ms_dtline h), mput E (cstr (ms_qqeh h)),
      copy_lines E (ms_mess h), mput E [LF], mflush E, msync E (ms_sync h)]"

text \<open>The exit code of the process, or none when \<^verbatim>\<open>mailfile\<close> returns; and the file.\<close>

definition mailfile :: "mboxenv \<Rightarrow> msg \<Rightarrow> bytes \<Rightarrow> nat option \<times> bytes" where
  "mailfile E h old =
     (if \<not> me_rewind E then (Some 111, old)
      else if \<not> me_open E then (Some 111, old)
      else if me_lock E = Slow then (Some 111, old)
      else case all_do (mbox_steps E h) \<lparr>mb_file = old, mb_buf = [], mb_calls = 0, mb_reads = 0, mb_err = None\<rparr> of
             (True, s) \<Rightarrow> (None, mb_file s)
           | (False, s) \<Rightarrow>
               (if mb_err s = Some True then Some 100 else Some 111,
                if me_lock E = Locked \<and> me_trunc E then take (length old) (mb_file s) else mb_file s))"

section \<open>Steps that add to an output\<close>

text \<open>
  A step that gives the bytes \<open>b\<close> to an output, or fails; \<open>safe\<close> is what holds between the states around a step,
  whether it succeeds or not.
\<close>

definition adds :: "('s \<Rightarrow> bytes) \<Rightarrow> (bool \<Rightarrow> 's \<Rightarrow> 's \<Rightarrow> bool) \<Rightarrow> bytes \<Rightarrow> 's step \<Rightarrow> bool" where
  "adds out safe b f \<longleftrightarrow>
     (\<forall>s ok s'. f s = (ok, s') \<longrightarrow> safe ok s s' \<and> (ok \<longrightarrow> out s' = out s @ b))"

lemma addsD: "adds out safe b f \<Longrightarrow> f s = (ok, s') \<Longrightarrow> safe ok s s' \<and> (ok \<longrightarrow> out s' = out s @ b)"
  by (auto simp: adds_def)

locale adding =
  fixes out :: "'s \<Rightarrow> bytes" and safe :: "bool \<Rightarrow> 's \<Rightarrow> 's \<Rightarrow> bool"
  assumes safe_stay: "safe True s s"
    and safe_trans: "safe True s t \<Longrightarrow> safe ok t u \<Longrightarrow> safe ok s u"
begin

lemma adds_skip: "adds out safe [] (Pair True)"
  by (simp add: adds_def safe_stay)

lemma adds_also:
  assumes "adds out safe a f" "adds out safe b g"
  shows "adds out safe (a @ b) (also_do f g)"
  unfolding adds_def
proof (intro allI impI)
  fix s ok s' assume "also_do f g s = (ok, s')"
  then show "safe ok s s' \<and> (ok \<longrightarrow> out s' = out s @ a @ b)"
    using addsD [OF assms(1)] addsD [OF assms(2)] safe_trans
    by (cases "f s") (fastforce simp: also_do_def split: bool.split_asm)
qed

lemma adds_steps: "list_all2 (adds out safe) bs fs \<Longrightarrow> adds out safe (concat bs) (all_do fs)"
  by (induction rule: list_all2_induct) (simp_all add: all_do_simps adds_skip adds_also)

end

section \<open>What is written\<close>

function msg_lines :: "bytes \<Rightarrow> bytes list" where
  "msg_lines b = (case getln b of (l, m, r) \<Rightarrow> if m then l # msg_lines r else if l = [] then [] else [l @ [LF]])"
  by pat_completeness auto
termination
  by (relation "measure length") (auto dest!: getln_shorter [OF sym])

declare msg_lines.simps [simp del]

definition quote_from :: "bytes \<Rightarrow> bytes" where
  "quote_from l = (if gfrom l then CHR ''>'' # l else l)"

definition mbox_head :: "msg \<Rightarrow> bytes" where
  "mbox_head h = ms_rpline h @ ms_dtline h @ cstr (ms_qqeh h)"

definition mbox_text :: "msg \<Rightarrow> bytes" where
  "mbox_text h = ms_ufline h @ mbox_head h @ concat (map quote_from (msg_lines (ms_mess h))) @ [LF]"

text \<open>The file only grows, and with a step that succeeds the output has the given bytes.\<close>

abbreviation mb_out :: "mbox \<Rightarrow> bytes" where "mb_out s \<equiv> mb_file s @ mb_buf s"

definition grows :: "bool \<Rightarrow> mbox \<Rightarrow> mbox \<Rightarrow> bool" where
  "grows ok s s' \<longleftrightarrow> (\<exists>t. mb_file s' = mb_file s @ t)"

interpretation mb: adding mb_out grows
  by unfold_locales (auto simp: grows_def)

lemma adds_mwrite: "mwrite E k d s = (ok, s') \<Longrightarrow> grows ok s s' \<and> (ok \<longrightarrow> mb_out s' = mb_file s @ d)"
  by (auto simp: mwrite_def grows_def Let_def split: option.splits prod.splits)

lemma adds_mput: "adds mb_out grows b (mput E b)"
  unfolding adds_def mput_def using adds_mwrite by fastforce

lemma adds_flush: "adds mb_out grows [] (mflush E)"
  unfolding adds_def mflush_def using adds_mwrite by fastforce

lemma adds_sync: "adds mb_out grows [] (msync E sync)"
  unfolding adds_def msync_def by (auto simp: grows_def dest!: adds_mwrite split: if_splits)

lemma adds_line:
  assumes "getln inp = (l, m, r)"
  shows "adds mb_out grows (quote_from l @ (if m then [] else [LF]))
    (all_do [if gfrom l then mput E ''>'' else Pair True, mput E l, if m then Pair True else mput E [LF]])"
  using mb.adds_steps [of "[if gfrom l then ''>'' else [], l, if m then [] else [LF]]"
      "[if gfrom l then mput E ''>'' else Pair True, mput E l, if m then Pair True else mput E [LF]]"]
  by (cases "gfrom l"; cases m) (simp_all add: quote_from_def adds_mput mb.adds_skip)

lemma gfrom_iff: "gfrom s \<longleftrightarrow> (\<exists>t. dropWhile (\<lambda>c. c = CHR ''>'') s = ''From '' @ t)"
proof (induction s)
  case (Cons c s)
  have "5 \<le> length x \<and> take 5 x = ''From '' \<longleftrightarrow> (\<exists>t. x = ''From '' @ t)" for x :: bytes
  proof
    assume "5 \<le> length x \<and> take 5 x = ''From ''"
    then have "x = ''From '' @ drop 5 x" by (metis append_take_drop_id)
    then show "\<exists>t. x = ''From '' @ t" ..
  qed auto
  note five = this
  show ?case
  proof (cases "c = CHR ''>''")
    case False
    then show ?thesis using five [of "c # s"] by (simp only: gfrom.simps dropWhile.simps if_False)
  qed (simp add: Cons.IH)
qed simp

lemma gfrom_complete: "LF \<notin> set l \<Longrightarrow> gfrom (l @ [LF]) = gfrom l"
proof -
  assume n: "LF \<notin> set l"
  let ?d = "dropWhile (\<lambda>c. c = CHR ''>'')"
  have d: "?d (l @ [LF]) = ?d l @ [LF]"
    by (induction l) auto
  have "LF \<notin> set (?d l)" using n by (meson set_dropWhileD)
  then have "(\<exists>t. ?d l @ [LF] = ''From '' @ t) \<longleftrightarrow> (\<exists>t. ?d l = ''From '' @ t)"
    by (cases "?d l" rule: rev_cases) (auto simp: append_eq_append_conv2 Cons_eq_append_conv append_eq_Cons_conv)
  then show ?thesis by (simp add: gfrom_iff d)
qed

lemma copy_lines_adds: "copy_lines E inp s = (ok, s') \<Longrightarrow>
  grows ok s s' \<and> (ok \<longrightarrow> mb_out s' = mb_out s @ concat (map quote_from (msg_lines inp)))"
proof (induction E inp s arbitrary: ok s' rule: copy_lines.induct)
  case (1 E inp s)
  obtain l m r where g: "getln inp = (l, m, r)" by (metis prod_cases3)
  let ?s0 = "s\<lparr>mb_reads := mb_reads s + 1\<rparr>"
  let ?f = "all_do [if gfrom l then mput E ''>'' else Pair True, mput E l, if m then Pair True else mput E [LF]]"
  obtain b s1 where f: "?f ?s0 = (b, s1)" by (metis surj_pair)
  have a: "(\<exists>t. mb_file s1 = mb_file s @ t) \<and> (b \<longrightarrow> mb_out s1 = mb_out s @ quote_from l @ (if m then [] else [LF]))"
    using addsD [OF adds_line [OF g] f] by (simp add: grows_def)
  show ?case
  proof (cases "me_readerr E (mb_reads s) \<or> \<not> m \<and> l = [] \<or> \<not> b \<or> \<not> m")
    case True
    then show ?thesis using "1.prems" a f g getln_last [of inp l r]
      by (subst (asm) copy_lines.simps)
         (auto simp: grows_def Let_def msg_lines.simps [of inp] quote_from_def gfrom_complete split: if_splits bool.splits)
  next
    case False
    then have "copy_lines E inp s = copy_lines E r s1"
      using f g by (subst copy_lines.simps) (simp add: Let_def)
    then have c: "copy_lines E r s1 = (ok, s')" using 1 by simp
    have ih: "grows ok s1 s' \<and> (ok \<longrightarrow> mb_out s' = mb_out s1 @ concat (map quote_from (msg_lines r)))"
      by (rule "1.IH" [OF _ g [symmetric] refl refl _ f [symmetric] _ _ c]) (use False in auto)
    have "msg_lines inp = l # msg_lines r" using g False by (subst msg_lines.simps) simp
    moreover have "grows ok s s'" using a ih by (auto simp: grows_def)
    moreover have "mb_out s1 = mb_out s @ quote_from l" using a False by simp
    ultimately show ?thesis using ih by (simp only: append.assoc) simp
  qed
qed

lemma mbox_steps_adds: "adds mb_out grows (mbox_text h) (all_do (mbox_steps E h))"
proof -
  have c: "adds mb_out grows (concat (map quote_from (msg_lines m))) (copy_lines E m)" for m
    unfolding adds_def by (blast dest: copy_lines_adds)
  have "adds mb_out grows (concat [ms_ufline h, ms_rpline h, ms_dtline h, cstr (ms_qqeh h),
      concat (map quote_from (msg_lines (ms_mess h))), [LF], [], []]) (all_do (mbox_steps E h))"
    unfolding mbox_steps_def by (rule mb.adds_steps) (simp add: adds_mput adds_flush adds_sync c)
  then show ?thesis by (simp add: mbox_text_def mbox_head_def)
qed

text \<open>When the last calls succeed nothing stays in the buffer.\<close>

lemma mbox_flushed:
  assumes "all_do (mbox_steps E h) s = (True, s')"
  shows "mb_buf s' = []"
proof -
  let ?fs = "[mput E (ms_ufline h), mput E (ms_rpline h), mput E (ms_dtline h), mput E (cstr (ms_qqeh h)),
      copy_lines E (ms_mess h), mput E [LF]]"
  have "mbox_steps E h = ?fs @ [mflush E, msync E (ms_sync h)]" by (simp add: mbox_steps_def)
  then have "also_do (all_do ?fs) (all_do [mflush E, msync E (ms_sync h)]) s = (True, s')"
    using assms by (simp only: all_do_append)
  then obtain t where "all_do [mflush E, msync E (ms_sync h)] t = (True, s')"
    by (auto simp: also_do_def split: prod.split_asm bool.split_asm)
  then show ?thesis
    by (auto simp: all_do_simps also_do_def mflush_def msync_def mwrite_def Let_def split: option.splits if_splits prod.splits)
qed

text \<open>A delivery appends the whole text or, as long as the lock is held, nothing at all.\<close>

lemma mailfile_outcome:
  assumes "mailfile E h old = (c, new)"
  shows "c = None \<and> new = old @ mbox_text h \<or> c \<in> {Some 100, Some 111} \<and> (\<exists>t. new = old @ t)
    \<and> (me_lock E = Locked \<and> me_trunc E \<longrightarrow> new = old)"
proof -
  let ?s = "\<lparr>mb_file = old, mb_buf = [], mb_calls = 0, mb_reads = 0, mb_err = None\<rparr>"
  obtain ok s where f: "all_do (mbox_steps E h) ?s = (ok, s)" by (metis surj_pair)
  have a: "(\<exists>t. mb_file s = old @ t) \<and> (ok \<longrightarrow> mb_file s @ mb_buf s = old @ mbox_text h)"
    using addsD [OF mbox_steps_adds f] by (simp add: grows_def)
  show ?thesis
  proof (cases ok)
    case True
    then show ?thesis using assms a f mbox_flushed [of E h ?s s] by (auto simp: mailfile_def split: if_splits)
  next
    case False
    then show ?thesis using assms a f by (auto simp: mailfile_def split: if_splits)
  qed
qed

text \<open>Without failures the delivery is made.\<close>

definition never_stops :: "'s step \<Rightarrow> bool" where
  "never_stops f \<longleftrightarrow> (\<forall>s. fst (f s))"

lemma never_stops_also: "never_stops f \<Longrightarrow> never_stops g \<Longrightarrow> never_stops (also_do f g)"
  unfolding never_stops_def also_do_def by (metis (mono_tags, lifting) bool.case(1) case_prod_conv prod.collapse)

lemma never_stops_all: "list_all never_stops fs \<Longrightarrow> never_stops (all_do fs)"
  by (induction fs) (simp_all add: all_do_simps never_stops_also, simp add: never_stops_def)

definition mbox_fine :: "mboxenv \<Rightarrow> bool" where
  "mbox_fine E \<longleftrightarrow> me_rewind E \<and> me_open E \<and> me_lock E \<noteq> Slow \<and> (\<forall>n. me_fault E n = None) \<and> (\<forall>n. \<not> me_readerr E n)"

lemma mwrite_fine: "mbox_fine E \<Longrightarrow> fst (mwrite E k d s)"
  by (simp add: mbox_fine_def mwrite_def Let_def)

lemma mput_fine: "mbox_fine E \<Longrightarrow> never_stops (mput E b)"
  by (simp add: never_stops_def mput_def mwrite_fine)

lemma copy_lines_fine: "mbox_fine E \<Longrightarrow> fst (copy_lines E inp s)"
proof (induction E inp s rule: copy_lines.induct)
  case (1 E inp s)
  obtain l m r where g: "getln inp = (l, m, r)" by (metis prod_cases3)
  let ?f = "all_do [if gfrom l then mput E ''>'' else Pair True, mput E l, if m then Pair True else mput E [LF]]"
  obtain b s1 where f: "?f (s\<lparr>mb_reads := mb_reads s + 1\<rparr>) = (b, s1)" by (metis surj_pair)
  have p: "never_stops (Pair True)" by (simp add: never_stops_def)
  have "never_stops ?f" using 1(2) by (intro never_stops_all) (simp add: mput_fine p)
  then have b using f by (metis fst_conv never_stops_def)
  then show ?case
    using "1.IH" [OF _ g [symmetric] refl refl _ f [symmetric]] 1(2) g f
    by (subst copy_lines.simps) (auto simp: Let_def mbox_fine_def)
qed

lemma mailfile_fine:
  assumes "mbox_fine E"
  shows "mailfile E h old = (None, old @ mbox_text h)"
proof -
  have "never_stops (all_do (mbox_steps E h))"
    using assms by (intro never_stops_all)
      (simp add: mbox_steps_def never_stops_def mput_def mflush_def msync_def mwrite_fine copy_lines_fine)
  then have "fst (all_do (mbox_steps E h) s)" for s by (simp add: never_stops_def)
  then have "fst (mailfile E h old) = None"
    using assms by (auto simp: mailfile_def mbox_fine_def split: prod.split bool.split)
      (metis fst_conv)+
  then show ?thesis using mailfile_outcome [of E h old] by (metis insertE option.distinct(1) prod.collapse singletonD)
qed

end
