(* ===== verification/LocalMboxFacts.thy ===== *)
theory LocalMboxFacts
  imports LocalMbox Address
begin

text \<open>
  What a reader finds in an mbox file: the lines that \<^verbatim>\<open>qmail-local\<close> writes before the message, the rule of
  \<^verbatim>\<open>mbox(5)\<close> for reading (every line that starts with \<^verbatim>\<open>From\<close> and a space begins a message, the last line of a message
  is dropped and one \<^verbatim>\<open>>\<close> is taken off the quoted lines), and the proof that reading undoes the deliveries.
\<close>

section \<open>The lines before the message\<close>

text \<open>\<^verbatim>\<open>main\<close> of \<^verbatim>\<open>qmail-local.c\<close>; \<open>qt\<close> is the date of \<^verbatim>\<open>qtime\<close>.\<close>

definition no_lf :: "char \<Rightarrow> char" where
  "no_lf c = (if c = LF then CHR ''_'' else c)"

definition no_blank :: "char \<Rightarrow> char" where
  "no_blank c = (if c = CHR '' '' \<or> c = CHR 0x09 \<or> c = LF then CHR ''-'' else c)"

definition dt_line :: "bytes \<Rightarrow> bytes \<Rightarrow> bytes" where
  "dt_line loc host = map no_lf (''Delivered-To: '' @ loc @ ''@'' @ host) @ [LF]"

definition rp_line :: "libq \<Rightarrow> bytes \<Rightarrow> bytes option" where
  "rp_line L sender = map_option (\<lambda>q. map no_lf (''Return-Path: <'' @ q) @ CHR ''>'' # [LF]) (quote2 L sender)"

definition uf_line :: "bytes \<Rightarrow> bytes \<Rightarrow> bytes" where
  "uf_line sender qt = ''From '' @ (if sender \<noteq> [] then map no_blank sender else ''MAILER-DAEMON '') @ qt"

section \<open>Whole lines\<close>

definition whole :: "bytes \<Rightarrow> bool" where
  "whole b \<longleftrightarrow> b = [] \<or> last b = LF"

definition is_line :: "bytes \<Rightarrow> bool" where
  "is_line l \<longleftrightarrow> (\<exists>k. l = k @ [LF] \<and> LF \<notin> set k)"

definition completed :: "bytes \<Rightarrow> bytes" where
  "completed b = (if whole b then b else b @ [LF])"

lemma whole_append: "whole a \<Longrightarrow> whole b \<Longrightarrow> whole (a @ b)"
  by (cases "b = []") (simp_all add: whole_def)

lemma is_line_whole: "is_line l \<Longrightarrow> whole l"
  by (auto simp: is_line_def whole_def)

lemma msg_lines_Nil [simp]: "msg_lines [] = []"
  by (subst msg_lines.simps) simp

lemma msg_lines_line: "is_line l \<Longrightarrow> msg_lines (l @ b) = l # msg_lines b"
  by (subst msg_lines.simps) (auto simp: is_line_def getln_whole)

lemma msg_lines_concat: "list_all is_line ls \<Longrightarrow> msg_lines (concat ls @ b) = ls @ msg_lines b"
  by (induction ls) (simp_all add: msg_lines_line)

lemma msg_lines_are_lines: "list_all is_line (msg_lines b)"
proof (induction b rule: msg_lines.induct)
  case (1 b)
  obtain l m r where g: "getln b = (l, m, r)" by (metis prod_cases3)
  have "m \<Longrightarrow> is_line l" using g getln_line by (cases m) (auto simp: is_line_def)
  moreover have "\<not> m \<Longrightarrow> is_line (l @ [LF])" using g getln_last by (cases m) (auto simp: is_line_def)
  ultimately show ?case using g 1 [OF g [symmetric] refl]
    by (subst msg_lines.simps) auto
qed

lemma concat_msg_lines: "concat (msg_lines b) = completed b"
proof (induction b rule: msg_lines.induct)
  case (1 b)
  obtain l m r where g: "getln b = (l, m, r)" by (metis prod_cases3)
  show ?case
  proof (cases m)
    case True
    then obtain k where k: "l = k @ [LF]" using g getln_line [of b l r] by auto
    have b: "b = l @ r" using g by (rule getln_append)
    have "concat (msg_lines r) = completed r" using 1 [OF g [symmetric] refl] True by simp
    moreover have "whole b = whole r" unfolding b k by (simp add: whole_def)
    moreover have "msg_lines b = l # msg_lines r" using g True by (subst msg_lines.simps) simp
    ultimately show ?thesis by (simp add: completed_def b)
  next
    case False
    then have "l = b" "LF \<notin> set b" using g getln_last [of b l r] by auto
    moreover have "whole b \<Longrightarrow> b = []" using \<open>LF \<notin> set b\<close> by (metis whole_def last_in_set)
    moreover have "msg_lines b = (if l = [] then [] else [l @ [LF]])" using g False by (subst msg_lines.simps) simp
    ultimately show ?thesis by (auto simp: completed_def whole_def)
  qed
qed

lemma msg_lines_whole: "whole a \<Longrightarrow> msg_lines (a @ b) = msg_lines a @ msg_lines b"
  using msg_lines_concat [OF msg_lines_are_lines, of a b] by (simp add: concat_msg_lines completed_def)

section \<open>Reading\<close>

definition from_line :: "bytes \<Rightarrow> bool" where
  "from_line l \<longleftrightarrow> take 5 l = ''From ''"

definition unquote_from :: "bytes \<Rightarrow> bytes" where
  "unquote_from l = (if gfrom l then tl l else l)"

function mbox_split :: "bytes list \<Rightarrow> (bytes \<times> bytes list) list" where
  "mbox_split [] = []"
| "mbox_split (l # ls) =
     (if from_line l then (l, takeWhile (\<lambda>k. \<not> from_line k) ls) # mbox_split (dropWhile (\<lambda>k. \<not> from_line k) ls)
      else mbox_split ls)"
  by pat_completeness auto
termination
  by (relation "measure length") (simp_all add: le_imp_less_Suc length_dropWhile_le)

definition mbox_messages :: "bytes \<Rightarrow> (bytes \<times> bytes) list" where
  "mbox_messages file = map (\<lambda>(f, ls). (f, concat (map unquote_from (butlast ls)))) (mbox_split (msg_lines file))"

lemma gfrom_take: "gfrom l \<longleftrightarrow> (\<exists>n t. l = replicate n (CHR ''>'') @ ''From '' @ t)"
proof
  assume "gfrom l"
  then obtain t where t: "dropWhile (\<lambda>c. c = CHR ''>'') l = ''From '' @ t" using gfrom_iff by blast
  have "takeWhile (\<lambda>c. c = CHR ''>'') l = replicate (length (takeWhile (\<lambda>c. c = CHR ''>'') l)) (CHR ''>'')"
    by (rule replicate_length_same [symmetric]) (meson set_takeWhileD)
  then show "\<exists>n t. l = replicate n (CHR ''>'') @ ''From '' @ t" using t by (metis takeWhile_dropWhile_id)
next
  assume "\<exists>n t. l = replicate n (CHR ''>'') @ ''From '' @ t"
  then obtain n t where "l = replicate n (CHR ''>'') @ ''From '' @ t" by blast
  moreover have "gfrom (replicate n (CHR ''>'') @ ''From '' @ t)" by (induction n) simp_all
  ultimately show "gfrom l" by simp
qed

lemma from_line_gfrom: "from_line l \<Longrightarrow> gfrom l"
  unfolding gfrom_take from_line_def by (metis append_Nil append_take_drop_id replicate_0)

lemma quote_from_hides: "\<not> from_line (quote_from l)"
  using from_line_gfrom by (auto simp: quote_from_def from_line_def)

lemma unquote_quote: "unquote_from (quote_from l) = l"
  by (simp add: unquote_from_def quote_from_def)

lemma quote_from_line: "is_line l \<Longrightarrow> is_line (quote_from l)"
  by (auto simp: quote_from_def is_line_def intro: exI [of _ "CHR ''>'' # k" for k])

text \<open>The lines before the message are whole lines; none of them looks like the start of another message.\<close>

definition good_head :: "msg \<Rightarrow> bool" where
  "good_head h \<longleftrightarrow> is_line (ms_ufline h) \<and> from_line (ms_ufline h) \<and> whole (mbox_head h)
     \<and> list_all (\<lambda>l. \<not> gfrom l) (msg_lines (mbox_head h))"

definition mbox_body :: "msg \<Rightarrow> bytes list" where
  "mbox_body h = msg_lines (mbox_head h) @ map quote_from (msg_lines (ms_mess h))"

lemma mbox_text_lines:
  assumes "good_head h"
  shows "msg_lines (mbox_text h @ b) = ms_ufline h # mbox_body h @ [LF] # msg_lines b"
proof -
  have q: "list_all is_line (map quote_from (msg_lines (ms_mess h)))"
    using msg_lines_are_lines [of "ms_mess h"] by (auto simp: list_all_iff quote_from_line)
  have n: "is_line [LF]" by (simp add: is_line_def)
  show ?thesis using assms
    by (simp add: mbox_text_def good_head_def msg_lines_line msg_lines_whole msg_lines_concat [OF q]
        msg_lines_line [OF n, simplified] mbox_body_def)
qed

lemma mbox_body_plain: "good_head h \<Longrightarrow> list_all (\<lambda>l. \<not> from_line l) (mbox_body h @ [[LF]])"
  using from_line_gfrom quote_from_hides by (fastforce simp: mbox_body_def good_head_def list_all_iff from_line_def)

lemma takeWhile_plain: "list_all P as \<Longrightarrow> bs = [] \<or> \<not> P (hd bs) \<Longrightarrow> takeWhile P (as @ bs) = as \<and> dropWhile P (as @ bs) = bs"
  by (induction as) (auto simp: neq_Nil_conv takeWhile_eq_Nil_iff dropWhile_eq_self_iff)

lemma mbox_read_texts:
  "list_all good_head hs \<Longrightarrow>
   mbox_split (msg_lines (concat (map mbox_text hs))) = map (\<lambda>h. (ms_ufline h, mbox_body h @ [[LF]])) hs"
proof (induction hs)
  case (Cons h hs)
  let ?r = "msg_lines (concat (map mbox_text hs))"
  have r: "?r = [] \<or> from_line (hd ?r)"
    using Cons.prems by (cases hs) (auto simp: mbox_text_lines good_head_def)
  have "takeWhile (\<lambda>k. \<not> from_line k) ((mbox_body h @ [[LF]]) @ ?r) = mbox_body h @ [[LF]]
      \<and> dropWhile (\<lambda>k. \<not> from_line k) ((mbox_body h @ [[LF]]) @ ?r) = ?r"
    by (rule takeWhile_plain) (use Cons.prems r mbox_body_plain in auto)
  then show ?case using Cons by (simp add: mbox_text_lines good_head_def)
qed simp

lemma unquote_body: "good_head h \<Longrightarrow> concat (map unquote_from (mbox_body h)) = mbox_head h @ completed (ms_mess h)"
proof -
  assume g: "good_head h"
  have "map unquote_from (msg_lines (mbox_head h)) = msg_lines (mbox_head h)"
    by (rule map_idI) (use g in \<open>auto simp: good_head_def list_all_iff unquote_from_def\<close>)
  then show ?thesis using g
    by (simp add: mbox_body_def o_def unquote_quote concat_msg_lines good_head_def completed_def)
qed

lemma mbox_messages_texts:
  "list_all good_head hs \<Longrightarrow>
   mbox_messages (concat (map mbox_text hs)) = map (\<lambda>h. (ms_ufline h, mbox_head h @ completed (ms_mess h))) hs"
  by (simp add: mbox_messages_def mbox_read_texts) (auto simp: unquote_body list_all_iff)

section \<open>A sequence of deliveries\<close>

fun mbox_deliver :: "(mboxenv \<times> msg) list \<Rightarrow> bytes \<Rightarrow> nat option list \<times> bytes" where
  "mbox_deliver [] file = ([], file)"
| "mbox_deliver ((E, h) # ds) file =
     (case mailfile E h file of (c, file') \<Rightarrow> case mbox_deliver ds file' of (cs, f) \<Rightarrow> (c # cs, f))"

lemma mbox_deliver_texts:
  "list_all (\<lambda>(E, h). me_lock E = Locked \<and> me_trunc E) ds \<Longrightarrow> mbox_deliver ds b = (cs, new) \<Longrightarrow>
   new = b @ concat (map mbox_text [h. ((E, h), None) \<leftarrow> zip ds cs])"
proof (induction ds arbitrary: b cs)
  case (Cons d ds)
  obtain E h where d: "d = (E, h)" by (cases d)
  obtain c f1 where m: "mailfile E h b = (c, f1)" by (metis surj_pair)
  obtain cs' where r: "mbox_deliver ds f1 = (cs', new)" "cs = c # cs'"
    using Cons.prems d m by (auto split: prod.splits)
  have "new = f1 @ concat (map mbox_text [h. ((E, h), None) \<leftarrow> zip ds cs'])"
    by (rule Cons.IH [OF _ r(1)]) (use Cons.prems in simp)
  moreover have "f1 = b @ (if c = None then mbox_text h else [])"
    using mailfile_outcome [OF m] Cons.prems d by auto
  ultimately show ?case using r(2) d by (cases c) simp_all
qed simp

end
