(* ===== verification/QmailLocal.thy ===== *)
theory QmailLocal
  imports LocalMboxFacts QmailClient
begin

text \<open>
  \<^verbatim>\<open>indimail-mta-x/qmail-local.c\<close>: the delivery of one message to a local user. The program finds the \<^verbatim>\<open>.qmail\<close>
  file of the address, follows its lines one by one and forwards the message at the end. The arguments
  of the program are C strings. \<open>lc_child n\<close> is what comes of the \<open>n\<close>-th delivery by a child process, \<open>lc_mbox n\<close> the
  environment of the \<open>n\<close>-th delivery to an mbox file, \<open>lc_filter n\<close> what the \<open>n\<close>-th delivery, an internal filter of
  \<^verbatim>\<open>indimail-mta-x/filterit_sub.c\<close>, finds and is asked to do; memory suffices and \<^verbatim>\<open>SANITIZE_ENV\<close> is not set.
\<close>

section \<open>Configuration\<close>

datatype childres = NoRewind | NoFork | Crashed | Exited nat

datatype qmefile = QTemp | QAbsent | QNoStat | QNotRegular | QRegular bool bool "bytes option"
  \<comment> \<open>a regular file: whether others may write to it, its executable bit, what \<^verbatim>\<open>slurpclose\<close> reads\<close>

datatype statres = StatOk | StatTemp | StatNone

datatype srsfwd = SrsFails | SrsKeeps | SrsMakes bytes

record home =
  hm_chdir :: bool
  hm_stat :: bool
  hm_writable :: bool
  hm_sticky :: bool
  hm_localdomains :: "bytes list option option"   \<comment> \<open>an error of \<^verbatim>\<open>control_readfile\<close>, no file, or the domains\<close>

record fwdenv =
  fw_rewind :: bool
  fw_open :: bool
  fw_fdc :: bool
  fw_fault :: "nat \<Rightarrow> bool"
  fw_readerr :: "nat \<Rightarrow> bool"
  fw_srs :: "bytes \<Rightarrow> srsfwd"       \<comment> \<open>\<^verbatim>\<open>srsforward\<close>\<close>
  fw_custom :: bytes
  fw_waited :: bool
  fw_crashed :: bool
  fw_code :: nat
  fw_qp :: nat

text \<open>
  An internal filter runs in the process of \<^verbatim>\<open>qmail-local\<close>. \<open>ft_trouble\<close>: something ends the process before the action is
  complete (a wrong command line, a missing variable, an unreadable message), permanently or temporarily; \<open>ft_action\<close>: the
  action that the command and the message select, with the code that \<^verbatim>\<open>scan_int\<close> leaves; \<open>ft_onmatch\<close>: \<^verbatim>\<open>exit_val_on_match\<close>, 99
  unless \<^verbatim>\<open>-e\<close> was given; \<open>ft_child\<close>: the child of a maildir delivery; \<open>ft_verdict\<close>: what \<^verbatim>\<open>qmail_close\<close> returns to \<^verbatim>\<open>forward\<close>.
\<close>

datatype faction = ActExit int | ActForward | ActMaildir

record filtenv =
  ft_trouble :: "bool option"
  ft_action :: faction
  ft_onmatch :: int
  ft_child :: childres
  ft_verdict :: bytes

record lconf =
  lc_doit :: bool
  lc_user :: bytes
  lc_homedir :: bytes
  lc_local :: bytes
  lc_dash :: bytes
  lc_ext :: bytes
  lc_host :: bytes
  lc_sender :: bytes
  lc_aliasempty :: bytes
  lc_qqeh :: bytes
  lc_mess :: bytes
  lc_sync :: bool
  lc_qtime :: bytes
  lc_lower :: "char \<Rightarrow> char"          \<comment> \<open>\<^verbatim>\<open>case_lowerb\<close>\<close>
  lc_maxdelivered :: "int option"     \<comment> \<open>\<^verbatim>\<open>control_readint\<close>, 0 when there is no file\<close>
  lc_rewind :: bool
  lc_readerr :: "nat \<Rightarrow> bool"
  lc_home :: home
  lc_file :: "bytes \<Rightarrow> qmefile"
  lc_stat :: "bytes \<Rightarrow> statres"
  lc_child :: "nat \<Rightarrow> childres"
  lc_filter :: "nat \<Rightarrow> filtenv"
  lc_envqqeh :: "nat \<Rightarrow> bytes option"  \<comment> \<open>\<^verbatim>\<open>QQEH\<close> after the \<open>n\<close>-th delivery\<close>
  lc_mbox :: "nat \<Rightarrow> mboxenv"
  lc_fwd :: fwdenv

datatype attempt = Maildir bytes | Mbox bytes | Program bytes | Filter bytes | Envdir bytes

record lstate =
  ls_forwardonly :: bool
  ls_flag99 :: bool
  ls_jump :: "bytes option"           \<comment> \<open>the label to go to\<close>
  ls_recips :: "bytes list"
  ls_log :: "attempt list"           \<comment> \<open>the deliveries tried, in order\<close>
  ls_boxes :: "bytes \<Rightarrow> bytes"        \<comment> \<open>the mbox files\<close>
  ls_qqeh :: bytes
  ls_count_file :: nat
  ls_count_forward :: nat
  ls_count_program :: nat
  ls_said :: "(bytes \<times> bytes) list"   \<comment> \<open>what \<^verbatim>\<open>sayit\<close> prints with the option \<^verbatim>\<open>-n\<close>\<close>
  ls_queue :: "qmailq option"         \<comment> \<open>the message handed to \<^verbatim>\<open>qmail-queue\<close>\<close>
  ls_exit :: "nat option"
  ls_out :: bytes

definition stop :: "nat \<Rightarrow> lstate step" where
  "stop c s = (False, s\<lparr>ls_exit := Some c\<rparr>)"

definition blank :: "char \<Rightarrow> bool" where
  "blank c \<longleftrightarrow> c = CHR '' '' \<or> c = CHR 0x09"

section \<open>The deliveries\<close>

text \<open>The exit codes of the child of \<^verbatim>\<open>maildir\<close>; a code of the program, or none to go on.\<close>

definition maildir_code :: "childres \<Rightarrow> nat option" where
  "maildir_code w =
     (case w of Exited n \<Rightarrow> if n = 0 then None else if n = 5 then Some 100 else Some 111 | _ \<Rightarrow> Some 111)"

definition maildir :: "lconf \<Rightarrow> bytes \<Rightarrow> lstate step" where
  "maildir C fn s =
     (let s1 = s\<lparr>ls_log := ls_log s @ [Maildir fn]\<rparr>
      in case maildir_code (lc_child C (length (ls_log s))) of None \<Rightarrow> (True, s1) | Some c \<Rightarrow> stop c s1)"

text \<open>
  The action of a filter returns a code to \<^verbatim>\<open>filterit\<close> or ends \<^verbatim>\<open>qmail-local\<close>: with 100 or 111 after a failure, and
  after a successful \<^verbatim>\<open>forward\<close> with \<^verbatim>\<open>exit_val_on_match\<close>, of which the parent sees the lowest eight bits.
\<close>

datatype filterres = FReturns int | FEnds nat | FForwarded nat

definition take_action :: "filtenv \<Rightarrow> filterres" where
  "take_action F =
     (case ft_trouble F of
        Some permanent \<Rightarrow> FEnds (if permanent then 100 else 111)
      | None \<Rightarrow>
          case ft_action F of
            ActExit i \<Rightarrow> FReturns i
          | ActForward \<Rightarrow>
              if ft_verdict F = [] then FForwarded (nat (ft_onmatch F mod 256))
              else FEnds (if hd (ft_verdict F) = CHR ''D'' then 100 else 111)
          | ActMaildir \<Rightarrow> (case maildir_code (ft_child F) of None \<Rightarrow> FReturns (ft_onmatch F) | Some c \<Rightarrow> FEnds c))"

text \<open>\<^verbatim>\<open>filterit_sub2\<close> runs the command of an internal filter.\<close>

definition filterit :: "lconf \<Rightarrow> bytes \<Rightarrow> lstate step" where
  "filterit C cmd s =
     (let n = length (ls_log s); s1 = s\<lparr>ls_log := ls_log s @ [Filter cmd]\<rparr>
      in case take_action (lc_filter C n) of
           FEnds c \<Rightarrow> stop c s1
         | FForwarded c \<Rightarrow> stop c s1
         | FReturns r \<Rightarrow>
             if r = 0 then (True, case lc_envqqeh C n of None \<Rightarrow> s1 | Some q \<Rightarrow> s1\<lparr>ls_qqeh := q\<rparr>)
             else if r = 100 then stop 100 s1
             else if r = 99 then (True, s1\<lparr>ls_flag99 := True\<rparr>)
             else stop 111 s1)"

definition hard_codes :: "nat list" where
  "hard_codes = [100, 64, 65, 70, 76, 77, 78, 112]"

definition mailprogram :: "lconf \<Rightarrow> bytes \<Rightarrow> lstate step" where
  "mailprogram C prog s =
     (let s1 = s\<lparr>ls_log := ls_log s @ [Program prog]\<rparr>
      in case lc_child C (length (ls_log s)) of
           Exited r \<Rightarrow>
             if r \<in> set hard_codes then stop 100 s1
             else if r = 0 then (True, s1)
             else if r = 99 then (True, s1\<lparr>ls_flag99 := True\<rparr>)
             else stop 111 s1
         | _ \<Rightarrow> stop 111 s1)"

definition local_msg :: "lconf \<Rightarrow> bytes \<Rightarrow> bytes \<Rightarrow> msg" where
  "local_msg C rp qqeh =
     \<lparr>ms_ufline = uf_line (lc_sender C) (lc_qtime C), ms_rpline = rp, ms_dtline = dt_line (lc_local C) (lc_host C),
      ms_qqeh = qqeh, ms_mess = lc_mess C, ms_sync = lc_sync C\<rparr>"

definition mbox_delivery :: "lconf \<Rightarrow> bytes \<Rightarrow> bytes \<Rightarrow> lstate step" where
  "mbox_delivery C rp fn s =
     (case mailfile (lc_mbox C (length (ls_log s))) (local_msg C rp (ls_qqeh s)) (ls_boxes s fn) of (c, new) \<Rightarrow>
        let s1 = s\<lparr>ls_log := ls_log s @ [Mbox fn], ls_boxes := (ls_boxes s)(fn := new)\<rparr>
        in case c of None \<Rightarrow> (True, s1) | Some n \<Rightarrow> stop n s1)"

text \<open>\<^verbatim>\<open>envdir\<close> sets the environment from a directory.\<close>

definition envdir_line :: "lconf \<Rightarrow> bytes \<Rightarrow> lstate step" where
  "envdir_line C dir s =
     (let s1 = s\<lparr>ls_log := ls_log s @ [Envdir dir]\<rparr>
      in case lc_child C (length (ls_log s)) of Exited r \<Rightarrow> if r = 0 then (True, s1) else stop 111 s1 | _ \<Rightarrow> stop 111 s1)"

definition sayit :: "bytes \<Rightarrow> bytes \<Rightarrow> lstate step" where
  "sayit typ cmd s = (True, s\<lparr>ls_said := ls_said s @ [(typ, cmd)]\<rparr>)"

section \<open>One line\<close>

definition count_program :: "lstate step" where
  "count_program s = (True, s\<lparr>ls_count_program := ls_count_program s + 1\<rparr>)"

definition count_file :: "lstate step" where
  "count_file s = (True, s\<lparr>ls_count_file := ls_count_file s + 1\<rparr>)"

text \<open>A \<^verbatim>\<open>.qmail\<close> file with the executable bit may only forward.\<close>

definition not_forwardonly :: "lstate step" where
  "not_forwardonly s = (if ls_forwardonly s then stop 111 s else (True, s))"

definition file_line :: "lconf \<Rightarrow> bytes \<Rightarrow> bytes \<Rightarrow> lstate step" where
  "file_line C rp t =
     all_do [count_file, not_forwardonly,
       if last t = CHR ''/'' then (if lc_doit C then maildir C (cstr t) else sayit ''maildir '' t)
       else (if lc_doit C then mbox_delivery C rp (cstr t) else sayit ''mbox '' t)]"

definition program_line :: "lconf \<Rightarrow> bytes \<Rightarrow> lstate step" where
  "program_line C t =
     (let x = dropWhile blank (cstr (tl t))
      in all_do [count_program, not_forwardonly,
           if lc_doit C then (if take 9 x = ''filterit '' then filterit C x else mailprogram C (cstr (tl t)))
           else sayit ''program '' (tl t)])"

text \<open>\<^verbatim>\<open>?label command\<close>: the jump is taken when there is no command or the command exits with 99.\<close>

definition take_branch :: "bool \<Rightarrow> bytes \<Rightarrow> lstate step" where
  "take_branch always label s =
     (True, if always \<or> ls_flag99 s then s\<lparr>ls_flag99 := False, ls_jump := Some label\<rparr> else s)"

definition branch_run :: "lconf \<Rightarrow> bytes \<Rightarrow> lstate step" where
  "branch_run C cmd =
     (if cmd = [] then Pair True
      else all_do [count_program, not_forwardonly,
             if lc_doit C then mailprogram C (cstr cmd) else sayit ''program '' cmd])"

definition branch_line :: "lconf \<Rightarrow> bytes \<Rightarrow> lstate step" where
  "branch_line C t =
     (let label = takeWhile (\<lambda>c. \<not> blank c) (tl t);
          cmd = dropWhile blank (dropWhile (\<lambda>c. \<not> blank c) (tl t))
      in also_do (branch_run C cmd) (take_branch (cmd = []) (cstr label)))"

definition forward_line :: "lconf \<Rightarrow> bytes \<Rightarrow> lstate step" where
  "forward_line C addr s =
     (let s1 = s\<lparr>ls_count_forward := ls_count_forward s + 1\<rparr>
      in if lc_doit C then (True, s1\<lparr>ls_recips := ls_recips s1 @ [cstr addr]\<rparr>) else sayit ''forward '' addr s1)"

definition do_line :: "lconf \<Rightarrow> bytes \<Rightarrow> bool \<Rightarrow> bytes \<Rightarrow> lstate step" where
  "do_line C rp first t s =
     (if t = [] \<or> hd t = NUL then (if first then stop 111 s else (True, s))
      else if hd t = CHR ''%'' then envdir_line C (cstr (dropWhile blank (cstr (tl t)))) s
      else if hd t = CHR ''#'' \<or> hd t = CHR '':'' then (True, s)
      else if hd t = CHR ''.'' \<or> hd t = CHR ''/'' then file_line C rp t s
      else if hd t = CHR ''|'' then program_line C t s
      else if hd t = CHR ''?'' then branch_line C t s
      else if hd t = CHR ''+'' then (True, if cstr (tl t) = ''list'' then s\<lparr>ls_forwardonly := True\<rparr> else s)
      else if hd t = CHR ''&'' then forward_line C (tl t) s
      else forward_line C t s)"

section \<open>The loop\<close>

text \<open>A line without the spaces and tabs at its end.\<close>

definition trim :: "bytes \<Rightarrow> bytes" where
  "trim l = rev (dropWhile blank (rev l))"

text \<open>
  The search for \<^verbatim>\<open>:label\<close> in the lines that follow; what is left after it. The bytes of the label are
  compared as far as the line goes.
\<close>

definition label_end :: "char \<Rightarrow> bool" where
  "label_end c \<longleftrightarrow> c = NUL \<or> c = CHR 0x09 \<or> c = LF \<or> c = CHR '' ''"

definition label_found :: "bytes \<Rightarrow> bytes \<Rightarrow> bool" where
  "label_found w l \<longleftrightarrow> l \<noteq> [] \<and> hd l = CHR '':'' \<and>
     (let k = takeWhile (\<lambda>c. \<not> label_end c) (tl l) in take (length k) w = k)"

function seek_label :: "bytes \<Rightarrow> bytes \<Rightarrow> bytes" where
  "seek_label w rest =
     (case getln rest of (l, match, r) \<Rightarrow>
        if \<not> match then [] else if label_found w l then r else seek_label w r)"
  by pat_completeness auto
termination
  by (relation "measure (\<lambda>(w, rest). length rest)") (auto dest!: getln_shorter [OF sym])

declare seek_label.simps [simp del]

lemma seek_label_shorter: "length (seek_label w rest) \<le> length rest"
proof (induction w rest rule: seek_label.induct)
  case (1 w rest)
  obtain l m r where g: "getln rest = (l, m, r)" by (metis prod_cases3)
  then have "m \<Longrightarrow> length r < length rest" using getln_shorter [of rest l r] by simp
  then show ?case using 1 [OF g [symmetric] refl] g by (subst seek_label.simps) auto
qed

function local_loop :: "lconf \<Rightarrow> bytes \<Rightarrow> bool \<Rightarrow> bytes \<Rightarrow> lstate step" where
  "local_loop C rp first rest s =
     (case getln rest of (l, match, r) \<Rightarrow>
        if \<not> match then (True, s)
        else case do_line C rp first (trim (butlast l)) s of
          (False, s1) \<Rightarrow> (False, s1)
        | (True, s1) \<Rightarrow>
            if ls_flag99 s1 then (True, s1)
            else local_loop C rp False (case ls_jump s1 of None \<Rightarrow> r | Some w \<Rightarrow> seek_label w r) (s1\<lparr>ls_jump := None\<rparr>))"
  by pat_completeness auto
termination
  by (relation "measure (\<lambda>(C, rp, first, rest, s). length rest)")
     (auto dest!: getln_shorter [OF sym] split: option.split intro: le_less_trans [OF seek_label_shorter])

declare local_loop.simps [simp del]

text \<open>The first pass: how many recipients there can be.\<close>

function count_forwards :: "bytes \<Rightarrow> nat" where
  "count_forwards rest =
     (case getln rest of (l, match, r) \<Rightarrow>
        if \<not> match then 0
        else (if hd l \<in> {CHR ''%'', CHR ''#'', CHR ''.'', CHR ''/'', CHR ''|''} then 0 else 1) + count_forwards r)"
  by pat_completeness auto
termination
  by (relation "measure length") (auto dest!: getln_shorter [OF sym])

declare count_forwards.simps [simp del]

section \<open>Forwarding\<close>

function forward_body :: "(nat \<Rightarrow> bool) \<Rightarrow> nat \<Rightarrow> bytes \<Rightarrow> qmailq \<Rightarrow> qmailq" where
  "forward_body bad n inp q =
     (if bad n then qmail_fail q
      else case getln inp of (l, match, r) \<Rightarrow>
        if match then forward_body bad (n + 1) r (qmail_put l q) else qmail_put l q)"
  by pat_completeness auto
termination
  by (relation "measure (\<lambda>(bad, n, inp, q). length inp)") (auto dest!: getln_shorter [OF sym])

declare forward_body.simps [simp del]

definition forward_head :: "lconf \<Rightarrow> bytes \<Rightarrow> bytes \<Rightarrow> bytes list \<Rightarrow> bytes list" where
  "forward_head C qqeh ueo recips =
     dt_line (lc_local C) (lc_host C) # map (\<lambda>r. ''X-Forwarded-To: '' @ r @ [LF]) recips
       @ [''X-Forwarded-For: '' @ ueo @ [LF], cstr qqeh]"

definition mailforward :: "lconf \<Rightarrow> bytes \<Rightarrow> lstate step" where
  "mailforward C ueo s =
     (let F = lc_fwd C
      in if \<not> fw_rewind F then stop 111 s
         else if \<not> fw_open F then stop 111 s
         else
           let q1 = fold qmail_put (forward_head C (ls_qqeh s) ueo (ls_recips s)) (qmail_opened (fw_fdc F) (fw_fault F));
               q2 = forward_body (fw_readerr F) 0 (lc_mess C) q1
           in case (case fw_srs F ueo of SrsFails \<Rightarrow> None | SrsKeeps \<Rightarrow> Some ueo | SrsMakes u \<Rightarrow> Some u) of
                None \<Rightarrow> stop 111 s
              | Some from \<Rightarrow>
                  let (qqx, q3) = qmail_close (fw_custom F) (fw_waited F) (fw_crashed F) (fw_code F)
                        (fold qmail_to (ls_recips s) (qmail_from from q2));
                      s1 = s\<lparr>ls_queue := Some q3\<rparr>
                  in if qqx = [] then (True, s1) else stop (if hd qqx = CHR ''D'' then 100 else 111) s1)"

section \<open>Before the delivery\<close>

text \<open>\<^verbatim>\<open>bouncexf\<close>: a message that has been here too often is rejected; the exit code, or none.\<close>

function bounce_loop :: "(nat \<Rightarrow> bool) \<Rightarrow> int \<Rightarrow> bytes \<Rightarrow> nat \<Rightarrow> int \<Rightarrow> bytes \<Rightarrow> nat option" where
  "bounce_loop bad limit dtline n found inp =
     (if bad n then Some 111
      else case getln inp of (l, match, r) \<Rightarrow>
        if \<not> match then None
        else if length l \<le> 1 then None
        else let found' = (if length l = length dtline \<and> cstr l = cstr dtline then found + 1 else found)
             in if limit > -1 \<and> found' > limit then Some 100 else bounce_loop bad limit dtline (n + 1) found' r)"
  by pat_completeness auto
termination
  by (relation "measure (\<lambda>(bad, limit, dtline, n, found, inp). length inp)") (auto dest!: getln_shorter [OF sym])

declare bounce_loop.simps [simp del]

definition bouncexf :: "lconf \<Rightarrow> nat option" where
  "bouncexf C =
     (if \<not> lc_rewind C then Some 111
      else case lc_maxdelivered C of
        None \<Rightarrow> Some 111
      | Some limit \<Rightarrow> bounce_loop (lc_readerr C) limit (dt_line (lc_local C) (lc_host C)) 0 0 (lc_mess C))"

definition checkhome :: "libq \<Rightarrow> lconf \<Rightarrow> nat option" where
  "checkhome L C =
     (let H = lc_home C; sender = lc_sender C; j = lq_rchr L sender (CHR ''@'')
      in if \<not> hm_chdir H then Some 111
         else if \<not> hm_stat H then Some 111
         else if hm_writable H then Some 111
         else if hm_sticky H \<and> lc_doit C then Some 111
         else case hm_localdomains H of
           None \<Rightarrow> Some 111
         | Some None \<Rightarrow> None
         | Some (Some domains) \<Rightarrow>
             if int j < int (length sender) - 1 \<and> drop (j + 1) sender \<notin> set domains then Some 100 else None)"

section \<open>The \<^verbatim>\<open>.qmail\<close> file\<close>

definition safeext :: "lconf \<Rightarrow> bytes" where
  "safeext C = map (\<lambda>c. if c = CHR ''.'' then CHR '':'' else c) (map (lc_lower C) (lc_ext C))"

definition qme_name :: "lconf \<Rightarrow> bytes \<Rightarrow> bytes" where
  "qme_name C x = ''.qmail'' @ lc_dash C @ x"

datatype qme = QmeDie | QmeNo | QmeYes bool "bytes option"

definition qmeexists :: "lconf \<Rightarrow> bytes \<Rightarrow> qme" where
  "qmeexists C fn =
     (case lc_file C fn of
        QTemp \<Rightarrow> QmeDie
      | QAbsent \<Rightarrow> QmeNo
      | QNoStat \<Rightarrow> QmeDie
      | QNotRegular \<Rightarrow> QmeNo
      | QRegular writable cutable text \<Rightarrow> if writable then QmeDie else QmeYes cutable text)"

text \<open>The result of \<^verbatim>\<open>qmesearch\<close>: the file found, its name and the value of \<^verbatim>\<open>DEFAULT\<close>.\<close>

datatype found = FoundDie | FoundNone | Found bytes bool "bytes option" "bytes option"

fun qme_default_loop :: "lconf \<Rightarrow> nat \<Rightarrow> found" where
  "qme_default_loop C i =
     (let fn = qme_name C (take i (safeext C) @ ''default'');
          next = (case i of 0 \<Rightarrow> FoundNone | Suc k \<Rightarrow> qme_default_loop C k)
      in if i = 0 \<or> safeext C ! (i - 1) = CHR ''-'' then
           case qmeexists C fn of
             QmeDie \<Rightarrow> FoundDie
           | QmeYes cutable text \<Rightarrow> Found fn cutable text (if i \<le> length (lc_ext C) then Some (drop i (lc_ext C)) else None)
           | QmeNo \<Rightarrow> next
         else next)"

declare qme_default_loop.simps [simp del]

definition qmesearch :: "lconf \<Rightarrow> found" where
  "qmesearch C =
     (let x = safeext C; fn = qme_name C x
      in case qmeexists C fn of
           QmeDie \<Rightarrow> FoundDie
         | QmeYes cutable text \<Rightarrow>
             Found fn cutable text
               (let i = length x - 7
                in if length x \<ge> 7 \<and> drop i x = ''default'' \<and> i \<le> length (lc_ext C) then Some (drop i (lc_ext C)) else None)
         | QmeNo \<Rightarrow> qme_default_loop C (length x))"

definition qmeox :: "lconf \<Rightarrow> bytes \<Rightarrow> statres" where
  "qmeox C dashowner = lc_stat C (qme_name C (safeext C @ dashowner))"

text \<open>The envelope sender of forwarded messages; none when a file cannot be examined.\<close>

definition new_sender :: "lconf \<Rightarrow> bytes option" where
  "new_sender C =
     (if lc_sender C = [] \<or> lc_sender C = ''#@[]'' then Some (lc_sender C)
      else case qmeox C ''-owner'' of
        StatTemp \<Rightarrow> None
      | StatNone \<Rightarrow> Some (lc_sender C)
      | StatOk \<Rightarrow>
          (case qmeox C ''-owner-default'' of
             StatTemp \<Rightarrow> None
           | StatOk \<Rightarrow> Some (lc_local C @ ''-owner-@'' @ lc_host C @ ''-@[]'')
           | StatNone \<Rightarrow> Some (lc_local C @ ''-owner@'' @ lc_host C)))"

text \<open>The instructions and whether only forwarding is allowed.\<close>

definition local_cmds :: "lconf \<Rightarrow> (bool \<times> bytes) option \<Rightarrow> bytes \<times> bool" where
  "local_cmds C file =
     (let (fo, text) = (case file of None \<Rightarrow> (False, []) | Some f \<Rightarrow> f);
          (cmds, fo) = (if text = [] then (lc_aliasempty C, False) else (text, fo))
      in (if cmds = [] \<or> last cmds \<noteq> LF then cmds @ [LF] else cmds, fo))"

section \<open>The program\<close>

definition count_text :: "libq \<Rightarrow> lconf \<Rightarrow> lstate \<Rightarrow> bytes" where
  "count_text L C s =
     ''did '' @ lq_fmt_ulong L (ls_count_file s) @ ''+'' @ lq_fmt_ulong L (ls_count_forward s) @ ''+''
     @ lq_fmt_ulong L (ls_count_program s) @ [LF]
     @ (if ls_queue s \<noteq> None \<and> fw_qp (lc_fwd C) \<noteq> 0 then ''qp '' @ lq_fmt_ulong L (fw_qp (lc_fwd C)) @ [LF] else [])"

definition local_start :: "lconf \<Rightarrow> bool \<Rightarrow> (bytes \<Rightarrow> bytes) \<Rightarrow> lstate" where
  "local_start C fo boxes =
     \<lparr>ls_forwardonly = fo, ls_flag99 = False, ls_jump = None, ls_recips = [], ls_log = [], ls_boxes = boxes,
      ls_qqeh = lc_qqeh C, ls_count_file = 0, ls_count_forward = 0, ls_count_program = 0, ls_said = [],
      ls_queue = None, ls_exit = None, ls_out = []\<rparr>"

text \<open>The instructions, then the message is forwarded once, then the counts are printed.\<close>

definition follow :: "libq \<Rightarrow> lconf \<Rightarrow> bytes \<Rightarrow> bytes \<Rightarrow> bytes \<Rightarrow> lstate step" where
  "follow L C rp ueo cmds =
     all_do [local_loop C rp True cmds,
       \<lambda>s. if ls_recips s \<noteq> [] \<and> lc_doit C then mailforward C ueo s else (True, s),
       \<lambda>s. (True, s\<lparr>ls_out := count_text L C s, ls_exit := Some 0\<rparr>)]"

definition local_run :: "libq \<Rightarrow> lconf \<Rightarrow> bytes \<Rightarrow> (bool \<times> bytes) option \<Rightarrow> (bytes \<Rightarrow> bytes) \<Rightarrow> lstate" where
  "local_run L C rp file boxes =
     (let (cmds, fo) = local_cmds C file; s = local_start C fo boxes
      in case new_sender C of
           None \<Rightarrow> snd (stop 111 s)
         | Some ueo \<Rightarrow> snd (follow L C rp ueo cmds s))"

definition local_main :: "libq \<Rightarrow> lconf \<Rightarrow> (bytes \<Rightarrow> bytes) \<Rightarrow> lstate" where
  "local_main L C boxes =
     (let exit = (\<lambda>c. snd (stop c (local_start C False boxes)))
      in case checkhome L C of
           Some c \<Rightarrow> exit c
         | None \<Rightarrow>
             case (if lc_doit C then bouncexf C else None) of
               Some c \<Rightarrow> exit c
             | None \<Rightarrow>
                 case rp_line L (lc_sender C) of
                   None \<Rightarrow> exit 111
                 | Some rp \<Rightarrow>
                     case qmesearch C of
                       FoundDie \<Rightarrow> exit 111
                     | FoundNone \<Rightarrow> if lc_dash C \<noteq> [] then exit 100 else local_run L C rp None boxes
                     | Found fn cutable text d \<Rightarrow>
                         case text of None \<Rightarrow> exit 111 | Some t \<Rightarrow> local_run L C rp (Some (cutable, t)) boxes)"

section \<open>The environment of the programs\<close>

definition after_dash :: "libq \<Rightarrow> bytes \<Rightarrow> bytes" where
  "after_dash L x = drop (lq_chr L x (CHR ''-'') + 1) x"

definition before_dot :: "libq \<Rightarrow> bytes \<Rightarrow> bytes" where
  "before_dot L x = take (lq_rchr L x (CHR ''.'')) x"

definition local_env :: "libq \<Rightarrow> lconf \<Rightarrow> bytes \<Rightarrow> (bytes \<times> bytes) list" where
  "local_env L C rp =
     (let x2 = after_dash L (lc_ext C); x3 = after_dash L x2; x4 = after_dash L x3;
          h2 = before_dot L (lc_host C); h3 = before_dot L h2; h4 = before_dot L h3
      in [(''HOST'', lc_host C), (''HOME'', lc_homedir C), (''USER'', lc_user C), (''LOCAL'', lc_local C),
          (''RECIPIENT'', lc_local C @ ''@'' @ lc_host C), (''DTLINE'', dt_line (lc_local C) (lc_host C)),
          (''SENDER'', lc_sender C), (''RPLINE'', rp), (''UFLINE'', uf_line (lc_sender C) (lc_qtime C)),
          (''EXT'', lc_ext C), (''EXT2'', x2), (''EXT3'', x3), (''EXT4'', x4),
          (''HOST2'', h2), (''HOST3'', h3), (''HOST4'', h4)])"

end
