(* ===== verification/LocalFacts.thy ===== *)
theory LocalFacts
  imports QmailLocal
begin

text \<open>
  What following a \<^verbatim>\<open>.qmail\<close> file does: each delivery that is tried went well as long as the program goes on, the
  mbox files hold one more text per delivery, the recipients are clean strings, and nothing reaches \<^verbatim>\<open>qmail-queue\<close>
  before the end.
\<close>

section \<open>What a step may do\<close>

definition went_well :: "lconf \<Rightarrow> nat \<Rightarrow> attempt \<Rightarrow> bool" where
  "went_well C n d \<longleftrightarrow>
     (case d of
        Mbox fn \<Rightarrow> True
      | Maildir fn \<Rightarrow> lc_child C n = Exited 0
      | Envdir dir \<Rightarrow> lc_child C n = Exited 0
      | Filter cmd \<Rightarrow> take_action (lc_filter C n) \<in> {FReturns 0, FReturns 99}
      | Program prog \<Rightarrow> lc_child C n \<in> {Exited 0, Exited 99})"

definition all_well :: "lconf \<Rightarrow> nat \<Rightarrow> attempt list \<Rightarrow> bool" where
  "all_well C n ds \<longleftrightarrow> (\<forall>i < length ds. went_well C (n + i) (ds ! i))"

definition boxed :: "lconf \<Rightarrow> bytes \<Rightarrow> nat \<Rightarrow> bytes \<Rightarrow> bytes \<Rightarrow> bool" where
  "boxed C rp n old new \<longleftrightarrow>
     (\<exists>qs. length qs = n \<and> new = old @ concat (map (\<lambda>q. mbox_text (local_msg C rp q)) qs))"

definition clean :: "bytes \<Rightarrow> bool" where
  "clean r \<longleftrightarrow> no_nul r \<and> LF \<notin> set r"

text \<open>
  How the instructions may end the program: with 100 or 111 at any point, or in a filter that has forwarded the message by
  itself, with the code of the filter.
\<close>

definition boxes_grew :: "lconf \<Rightarrow> bytes \<Rightarrow> attempt list \<Rightarrow> (bytes \<Rightarrow> bytes) \<Rightarrow> (bytes \<Rightarrow> bytes) \<Rightarrow> bool" where
  "boxes_grew C rp ds old new \<longleftrightarrow> (\<forall>fn. boxed C rp (length (filter (\<lambda>d. d = Mbox fn) ds)) (old fn) (new fn))"

definition filtered :: "lconf \<Rightarrow> nat \<Rightarrow> attempt list \<Rightarrow> nat option \<Rightarrow> bool" where
  "filtered C n ds c \<longleftrightarrow>
     (\<exists>ds' cmd k. ds = ds' @ [Filter cmd] \<and> all_well C n ds' \<and> take_action (lc_filter C (n + length ds')) = FForwarded k \<and> c = Some k)"

definition ended :: "lconf \<Rightarrow> bytes \<Rightarrow> lstate \<Rightarrow> attempt list \<Rightarrow> lstate \<Rightarrow> bool" where
  "ended C rp s ds s' \<longleftrightarrow> ls_exit s' \<in> {Some 100, Some 111} \<or>
     filtered C (length (ls_log s)) ds (ls_exit s') \<and> boxes_grew C rp ds (ls_boxes s) (ls_boxes s')"

definition follows :: "lconf \<Rightarrow> bytes \<Rightarrow> bool \<Rightarrow> lstate \<Rightarrow> lstate \<Rightarrow> bool" where
  "follows C rp ok s s' \<longleftrightarrow> ls_queue s' = ls_queue s \<and>
     (\<exists>ds. ls_log s' = ls_log s @ ds \<and>
       (if ok then ls_exit s' = ls_exit s \<and> all_well C (length (ls_log s)) ds \<and>
          boxes_grew C rp ds (ls_boxes s) (ls_boxes s')
        else ended C rp s ds s')) \<and>
     (\<exists>rs. ls_recips s' = ls_recips s @ rs \<and> list_all clean rs)"

lemma all_well_Nil [simp]: "all_well C n []"
  by (simp add: all_well_def)

lemma all_well_one [simp]: "all_well C n [d] \<longleftrightarrow> went_well C n d"
  by (simp add: all_well_def)

lemma all_well_append: "all_well C n (a @ b) \<longleftrightarrow> all_well C n a \<and> all_well C (n + length a) b"
proof
  assume w: "all_well C n (a @ b)"
  have "went_well C (n + i) (a ! i)" if "i < length a" for i
    using w that unfolding all_well_def by (metis length_append nth_append trans_less_add1)
  moreover have "went_well C (n + length a + i) (b ! i)" if "i < length b" for i
    using w that unfolding all_well_def by (metis add.assoc length_append nat_add_left_cancel_less nth_append_length_plus)
  ultimately show "all_well C n a \<and> all_well C (n + length a) b" by (simp add: all_well_def)
next
  assume w: "all_well C n a \<and> all_well C (n + length a) b"
  have "went_well C (n + i) ((a @ b) ! i)" if "i < length a + length b" for i
  proof (cases "i < length a")
    case False
    then have "i - length a < length b" using that by simp
    then have "went_well C (n + length a + (i - length a)) (b ! (i - length a))" using w by (simp add: all_well_def)
    then show ?thesis using False by (simp add: nth_append)
  qed (use w in \<open>simp add: all_well_def nth_append\<close>)
  then show "all_well C n (a @ b)" by (simp add: all_well_def)
qed

lemma boxed_none [simp]: "boxed C rp 0 old new \<longleftrightarrow> new = old"
  by (simp add: boxed_def)

lemma boxed_append: "boxed C rp m a b \<Longrightarrow> boxed C rp n b c \<Longrightarrow> boxed C rp (m + n) a c"
  unfolding boxed_def by (metis append.assoc concat_append length_append map_append)

lemma boxes_grew_append: "boxes_grew C rp ds a b \<Longrightarrow> boxes_grew C rp es b c \<Longrightarrow> boxes_grew C rp (ds @ es) a c"
  unfolding boxes_grew_def
proof
  fix fn assume "\<forall>fn. boxed C rp (length (filter (\<lambda>d. d = Mbox fn) ds)) (a fn) (b fn)"
    "\<forall>fn. boxed C rp (length (filter (\<lambda>d. d = Mbox fn) es)) (b fn) (c fn)"
  then show "boxed C rp (length (filter (\<lambda>d. d = Mbox fn) (ds @ es))) (a fn) (c fn)"
    using boxed_append [of C rp _ "a fn" "b fn" _ "c fn"] by simp
qed

lemma boxes_grew_same [simp]: "boxes_grew C rp [] a a"
  by (simp add: boxes_grew_def)

lemma filtered_append: "all_well C n a \<Longrightarrow> filtered C (n + length a) b c \<Longrightarrow> filtered C n (a @ b) c"
  unfolding filtered_def by (metis (no_types, lifting) add.assoc all_well_append append.assoc length_append)

lemma ended_append:
  assumes "ls_log t = ls_log s @ a" "all_well C (length (ls_log s)) a" "boxes_grew C rp a (ls_boxes s) (ls_boxes t)" "ended C rp t b u"
  shows "ended C rp s (a @ b) u"
  using assms filtered_append boxes_grew_append unfolding ended_def by (metis length_append)

interpretation lo: adding "\<lambda>s. []" "follows C rp" for C rp
proof unfold_locales
  show "follows C rp True s s" for C rp s by (auto simp: follows_def)
  show "follows C rp ok s u" if st: "follows C rp True s t" and tu: "follows C rp ok t u" for C rp ok s t u
  proof -
    obtain a rs where a: "ls_log t = ls_log s @ a" "ls_exit t = ls_exit s" "all_well C (length (ls_log s)) a"
        "boxes_grew C rp a (ls_boxes s) (ls_boxes t)"
        "ls_recips t = ls_recips s @ rs" "list_all clean rs" "ls_queue t = ls_queue s"
      using st by (auto simp: follows_def)
    obtain b rs' where b: "ls_log u = ls_log t @ b" "ls_recips u = ls_recips t @ rs'" "list_all clean rs'" "ls_queue u = ls_queue t"
        "if ok then ls_exit u = ls_exit t \<and> all_well C (length (ls_log t)) b \<and>
          boxes_grew C rp b (ls_boxes t) (ls_boxes u) else ended C rp t b u"
      using tu unfolding follows_def by blast
    show ?thesis unfolding follows_def
    proof (intro conjI exI)
      show "ls_log u = ls_log s @ a @ b" "ls_recips u = ls_recips s @ rs @ rs'" "list_all clean (rs @ rs')"
        "ls_queue u = ls_queue s"
        using a b by simp_all
      show "if ok then ls_exit u = ls_exit s \<and> all_well C (length (ls_log s)) (a @ b) \<and>
          boxes_grew C rp (a @ b) (ls_boxes s) (ls_boxes u) else ended C rp s (a @ b) u"
        using a b boxes_grew_append [OF a(4)] ended_append [OF a(1,3,4)] by (auto simp: all_well_append)
    qed
  qed
qed

abbreviation stays :: "lconf \<Rightarrow> bytes \<Rightarrow> lstate step \<Rightarrow> bool" where
  "stays C rp f \<equiv> adds (\<lambda>s. []) (follows C rp) [] f"

lemma staysI: "(\<And>s ok s'. f s = (ok, s') \<Longrightarrow> follows C rp ok s s') \<Longrightarrow> stays C rp f"
  by (simp add: adds_def)

lemma staysD: "stays C rp f \<Longrightarrow> f s = (ok, s') \<Longrightarrow> follows C rp ok s s'"
  by (simp add: adds_def)

lemma stays_also: "stays C rp f \<Longrightarrow> stays C rp g \<Longrightarrow> stays C rp (also_do f g)"
  using lo.adds_also [of C rp "[]" f "[]" g] by simp

lemma stays_all: "list_all (stays C rp) fs \<Longrightarrow> stays C rp (all_do fs)"
  by (induction fs) (simp_all add: all_do_simps lo.adds_skip stays_also)

text \<open>Whether a delivery goes well is decided where it is tried.\<close>

lemma follows_one:
  assumes "ls_log s' = ls_log s @ [d]" "ls_queue s' = ls_queue s" "ls_recips s' = ls_recips s"
    and "if ok then ls_exit s' = ls_exit s \<and> went_well C (length (ls_log s)) d \<and>
        (\<forall>fn. boxed C rp (if d = Mbox fn then 1 else 0) (ls_boxes s fn) (ls_boxes s' fn))
      else ended C rp s [d] s'"
  shows "follows C rp ok s s'"
proof -
  have "length (filter (\<lambda>x. x = Mbox fn) [d]) = (if d = Mbox fn then 1 else 0)" for fn by simp
  then have "\<exists>ds. ls_log s' = ls_log s @ ds \<and>
       (if ok then ls_exit s' = ls_exit s \<and> all_well C (length (ls_log s)) ds \<and>
          boxes_grew C rp ds (ls_boxes s) (ls_boxes s')
        else ended C rp s ds s')"
    using assms(1,4) unfolding boxes_grew_def by (intro exI [of _ "[d]"]) (simp only: all_well_one simp_thms)
  then show ?thesis using assms(2,3) by (auto simp: follows_def)
qed

lemma stays_maildir: "stays C rp (maildir C fn)"
  by (rule staysI, rule follows_one [of _ _ "Maildir fn"])
     (auto simp: maildir_def maildir_code_def stop_def went_well_def ended_def Let_def split: option.splits childres.splits if_splits)

lemma take_action_ends: "take_action F = FEnds c \<Longrightarrow> c \<in> {100, 111}"
  by (auto simp: take_action_def maildir_code_def split: option.splits faction.splits childres.splits if_splits)

lemma filtered_one: "take_action (lc_filter C n) = FForwarded k \<Longrightarrow> filtered C n [Filter cmd] (Some k)"
  unfolding filtered_def by (rule exI [of _ "[]"]) simp

lemma stays_filterit: "stays C rp (filterit C cmd)"
  by (rule staysI, rule follows_one [of _ _ "Filter cmd"])
     (auto simp: filterit_def stop_def went_well_def ended_def boxes_grew_def filtered_one Let_def
       dest: take_action_ends split: option.splits filterres.splits if_splits)

lemma stays_mailprogram: "stays C rp (mailprogram C prog)"
  by (rule staysI, rule follows_one [of _ _ "Program prog"])
     (auto simp: mailprogram_def hard_codes_def stop_def went_well_def ended_def Let_def split: childres.splits if_splits)

lemma stays_envdir: "stays C rp (envdir_line C dir)"
  by (rule staysI, rule follows_one [of _ _ "Envdir dir"])
     (auto simp: envdir_line_def stop_def went_well_def ended_def Let_def split: childres.splits if_splits)

lemma stays_mbox: "stays C rp (mbox_delivery C rp fn)"
proof (rule staysI)
  fix s ok s' assume r: "mbox_delivery C rp fn s = (ok, s')"
  obtain c new where m: "mailfile (lc_mbox C (length (ls_log s))) (local_msg C rp (ls_qqeh s)) (ls_boxes s fn) = (c, new)"
    by (metis surj_pair)
  note o = mailfile_outcome [OF m]
  have b: "c = None \<Longrightarrow> boxed C rp 1 (ls_boxes s fn) new"
    using o unfolding boxed_def by (intro exI [of _ "[ls_qqeh s]"]) auto
  show "follows C rp ok s s'"
    by (rule follows_one [of _ _ "Mbox fn"])
       (use r m o b in \<open>auto simp: mbox_delivery_def stop_def went_well_def ended_def Let_def split: option.splits\<close>)
qed

text \<open>Steps that only count, print or remember.\<close>

lemma follows_none:
  assumes "ls_log s' = ls_log s" "ls_queue s' = ls_queue s" "ls_boxes s' = ls_boxes s"
    and "\<exists>rs. ls_recips s' = ls_recips s @ rs \<and> list_all clean rs"
    and "if ok then ls_exit s' = ls_exit s else ls_exit s' \<in> {Some 100, Some 111}"
  shows "follows C rp ok s s'"
  unfolding follows_def using assms by (auto simp: ended_def)

lemma stays_small: "stays C rp (sayit typ cmd)" "stays C rp count_program" "stays C rp count_file" "stays C rp not_forwardonly"
  by (rule staysI, rule follows_none,
      auto simp: sayit_def count_program_def count_file_def not_forwardonly_def stop_def split: if_splits)+

lemma stays_if: "stays C rp f \<Longrightarrow> stays C rp g \<Longrightarrow> stays C rp (if b then f else g)"
  by simp

lemmas stays_steps = stays_maildir stays_filterit stays_mailprogram stays_envdir stays_mbox stays_small lo.adds_skip

section \<open>One line\<close>

lemma stays_file: "stays C rp (file_line C rp t)"
  unfolding file_line_def by (rule stays_all) (simp add: stays_steps)

lemma stays_program: "stays C rp (program_line C t)"
  unfolding program_line_def Let_def by (rule stays_all) (simp add: stays_steps)

lemma stays_branch: "stays C rp (branch_line C t)"
proof -
  have j: "stays C rp (take_branch always label)" for always label
    by (rule staysI, rule follows_none) (auto simp: take_branch_def)
  show ?thesis unfolding branch_line_def Let_def
    by (rule stays_also [OF _ j]) (simp add: branch_run_def stays_steps stays_all)
qed

lemma clean_cstr: "LF \<notin> set a \<Longrightarrow> clean (cstr a)"
  by (simp add: clean_def) (metis cstr_def set_takeWhileD)

lemma stays_forward: "LF \<notin> set a \<Longrightarrow> stays C rp (forward_line C a)"
  by (rule staysI, rule follows_none)
     (auto simp: forward_line_def sayit_def clean_cstr Let_def split: if_splits)

lemma stays_line: "LF \<notin> set t \<Longrightarrow> stays C rp (do_line C rp first t)"
proof (rule staysI)
  fix s ok s' assume t: "LF \<notin> set t" and r: "do_line C rp first t s = (ok, s')"
  have e: "follows C rp True s (if b then s\<lparr>ls_forwardonly := True\<rparr> else s)" for b
    by (rule follows_none) auto
  have b: "follows C rp False s (s\<lparr>ls_exit := Some 111\<rparr>)"
    by (rule follows_none) auto
  have tl: "LF \<notin> set (tl t)" using t by (cases t) auto
  show "follows C rp ok s s'"
    using r e [of True] e [of False] b staysD [OF stays_envdir] staysD [OF stays_file] staysD [OF stays_program]
      staysD [OF stays_branch] staysD [OF stays_forward [OF t]] staysD [OF stays_forward [OF tl]]
    by (auto simp: do_line_def stop_def split: if_splits)
qed

lemma trim_set: "set (trim l) \<subseteq> set l"
  by (metis set_dropWhileD set_rev subsetI trim_def)

section \<open>The loop\<close>

text \<open>What every line keeps the loop keeps.\<close>

locale line_rel = adding "\<lambda>s. []" R for R :: "bool \<Rightarrow> lstate \<Rightarrow> lstate \<Rightarrow> bool" +
  fixes C :: lconf and rp :: bytes
  assumes jump: "R True s (s\<lparr>ls_jump := None\<rparr>)"
    and line: "LF \<notin> set t \<Longrightarrow> do_line C rp first t s = (ok, s') \<Longrightarrow> R ok s s'"
begin

lemma loop: "local_loop C rp first rest s = (ok, s') \<Longrightarrow> R ok s s'"
proof (induction "length rest" arbitrary: first rest s rule: less_induct)
  case less
  obtain l m r where g: "getln rest = (l, m, r)" by (metis prod_cases3)
  obtain b s1 where d: "do_line C rp first (trim (butlast l)) s = (b, s1)" by (metis surj_pair)
  show ?case
  proof (cases m)
    case False
    then show ?thesis using less.prems g safe_stay by (subst (asm) local_loop.simps) simp
  next
    case True
    then have "LF \<notin> set (butlast l)" using g getln_line [of rest l r] by auto
    then have "LF \<notin> set (trim (butlast l))" using trim_set by blast
    note f = line [OF this d]
    show ?thesis
    proof (cases "b \<and> \<not> ls_flag99 s1")
      case False
      then show ?thesis using less.prems g d True f
        by (subst (asm) local_loop.simps) (auto split: if_splits bool.splits)
    next
      case nx: True
      let ?r = "case ls_jump s1 of None \<Rightarrow> r | Some w \<Rightarrow> seek_label w r" and ?s = "s1\<lparr>ls_jump := None\<rparr>"
      have run: "local_loop C rp False ?r ?s = (ok, s')"
        using less.prems g d True nx by (subst (asm) local_loop.simps) simp
      have "length r < length rest" using g True getln_shorter [of rest l r] by simp
      then have "length ?r < length rest"
        using seek_label_shorter le_less_trans by (cases "ls_jump s1") fastforce+
      then have "R ok ?s s'" using less.hyps run by blast
      moreover have "R True s s1" using f nx by simp
      ultimately show ?thesis using safe_trans jump [of s1] by blast
    qed
  qed
qed

end

interpretation fl: line_rel "follows C rp" C rp for C rp
  by unfold_locales (auto intro: follows_none staysD [OF stays_line])

section \<open>A file that may only forward\<close>

definition only_forwards :: "bool \<Rightarrow> lstate \<Rightarrow> lstate \<Rightarrow> bool" where
  "only_forwards ok s s' \<longleftrightarrow> (ls_forwardonly s \<longrightarrow> ls_forwardonly s' \<and> ls_boxes s' = ls_boxes s \<and>
     (\<exists>ds. ls_log s' = ls_log s @ map Envdir ds))"

lemma only_forwards_guard:
  "all_do (f # not_forwardonly # fs) s = (ok, s') \<Longrightarrow> f \<in> {count_file, count_program} \<Longrightarrow> ls_forwardonly s \<Longrightarrow>
   ls_forwardonly s' \<and> ls_boxes s' = ls_boxes s \<and> ls_log s' = ls_log s"
  by (auto simp: all_do_simps also_do_def not_forwardonly_def count_file_def count_program_def stop_def split: if_splits)

lemma take_branch_fields:
  "ls_forwardonly (snd (take_branch a w s)) = ls_forwardonly s" "ls_boxes (snd (take_branch a w s)) = ls_boxes s"
  "ls_log (snd (take_branch a w s)) = ls_log s" "ls_recips (snd (take_branch a w s)) = ls_recips s"
  by (simp_all add: take_branch_def)

lemma also_doE:
  assumes "also_do f g s = (ok, s')"
  obtains s1 where "f s = (True, s1)" "g s1 = (ok, s')" | "f s = (False, s')" "\<not> ok"
  using assms by (cases "f s") (auto simp: also_do_def split: bool.split_asm)

lemma branch_guard:
  assumes "branch_line C t s = (ok, s')" "ls_forwardonly s"
  shows "ls_forwardonly s' \<and> ls_boxes s' = ls_boxes s \<and> ls_log s' = ls_log s"
proof -
  have run: "ls_forwardonly s1 \<and> ls_boxes s1 = ls_boxes s \<and> ls_log s1 = ls_log s" if "branch_run C cmd s = (b, s1)" for cmd b s1
  proof (cases "cmd = []")
    case False
    then have "all_do [count_program, not_forwardonly,
        if lc_doit C then mailprogram C (cstr cmd) else sayit ''program '' cmd] s = (b, s1)"
      using that by (simp only: branch_run_def if_False)
    then show ?thesis by (rule only_forwards_guard) (simp_all add: assms(2))
  qed (use that assms(2) in \<open>simp add: branch_run_def\<close>)
  obtain cmd a w where "also_do (branch_run C cmd) (take_branch a w) s = (ok, s')"
    using assms(1) by (simp add: branch_line_def Let_def)
  then show ?thesis
  proof (cases rule: also_doE)
    case (1 s1)
    then have "s' = snd (take_branch a w s1)" by simp
    then show ?thesis using run [OF 1(1)] by (simp only: take_branch_fields)
  next
    case 2
    then show ?thesis using run by blast
  qed
qed

lemma only_forwards_line: "do_line C rp first t s = (ok, s') \<Longrightarrow> only_forwards ok s s'"
proof -
  assume r: "do_line C rp first t s = (ok, s')"
  have "ls_forwardonly s' \<and> ls_boxes s' = ls_boxes s \<and> (\<exists>ds. ls_log s' = ls_log s @ map Envdir ds)" if f: "ls_forwardonly s"
  proof -
    have e: "envdir_line C dir s = (ok, s') \<Longrightarrow> ls_forwardonly s' \<and> ls_boxes s' = ls_boxes s \<and>
        (\<exists>ds. ls_log s' = ls_log s @ map Envdir ds)" for dir
      using f by (auto simp: envdir_line_def stop_def Let_def intro!: exI [of _ "[dir]"] split: childres.splits if_splits)
    have w: "forward_line C a s = (ok, s') \<Longrightarrow> ls_forwardonly s' \<and> ls_boxes s' = ls_boxes s \<and> ls_log s' = ls_log s" for a
      using f by (auto simp: forward_line_def sayit_def Let_def split: if_splits)
    have fi: "file_line C rp t s = (ok, s') \<Longrightarrow> ls_forwardonly s' \<and> ls_boxes s' = ls_boxes s \<and> ls_log s' = ls_log s"
      using only_forwards_guard [OF _ _ f] by (auto simp: file_line_def)
    have pr: "program_line C t s = (ok, s') \<Longrightarrow> ls_forwardonly s' \<and> ls_boxes s' = ls_boxes s \<and> ls_log s' = ls_log s"
      using only_forwards_guard [OF _ _ f] by (auto simp: program_line_def Let_def)
    have none: "\<exists>ds. ls_log s = ls_log s @ map Envdir ds" by (rule exI [of _ "[]"]) simp
    show ?thesis
      using r f e w fi pr branch_guard [of C t s ok s'] none
      unfolding do_line_def by (auto simp: stop_def split: if_splits)
  qed
  then show ?thesis by (simp add: only_forwards_def)
qed

interpretation fw: line_rel only_forwards C rp for C rp
proof unfold_locales
  show "only_forwards True s s" for s by (auto simp: only_forwards_def intro: exI [of _ "[]"])
  show "only_forwards ok s u" if "only_forwards True s t" "only_forwards ok t u" for ok s t u
    using that unfolding only_forwards_def by (metis append.assoc map_append)
  show "only_forwards True s (s\<lparr>ls_jump := None\<rparr>)" for s by (auto simp: only_forwards_def intro: exI [of _ "[]"])
  show "do_line C rp first t s = (ok, s') \<Longrightarrow> only_forwards ok s s'" for C rp first t s ok s'
    by (rule only_forwards_line)
qed

section \<open>One delivery per line\<close>

function whole_lines :: "bytes \<Rightarrow> bytes list" where
  "whole_lines b = (case getln b of (l, m, r) \<Rightarrow> if m then l # whole_lines r else [])"
  by pat_completeness auto
termination
  by (relation "measure length") (auto dest!: getln_shorter [OF sym])

declare whole_lines.simps [simp del]

definition may_forward :: "bytes \<Rightarrow> bool" where
  "may_forward l \<longleftrightarrow> hd l \<notin> {CHR ''%'', CHR ''#'', CHR ''.'', CHR ''/'', CHR ''|''}"

lemma count_forwards_lines: "count_forwards b = length (filter may_forward (whole_lines b))"
proof (induction b rule: count_forwards.induct)
  case (1 b)
  obtain l m r where g: "getln b = (l, m, r)" by (metis prod_cases3)
  then show ?case using 1 [OF g [symmetric] refl]
    by (subst count_forwards.simps, subst whole_lines.simps, cases m) (auto simp: may_forward_def [of l])
qed

lemma seek_label_lines: "length (filter P (whole_lines (seek_label w b))) \<le> length (filter P (whole_lines b))"
proof (induction w b rule: seek_label.induct)
  case (1 w b)
  obtain l m r where g: "getln b = (l, m, r)" by (metis prod_cases3)
  have n: "whole_lines [] = []" by (subst whole_lines.simps) simp
  show ?case using 1 [OF g [symmetric] refl] g n
    by (subst seek_label.simps, subst (2) whole_lines.simps) auto
qed

lemma loop_bound:
  assumes line: "\<And>first l s ok s'. is_line l \<Longrightarrow> do_line C rp first (trim (butlast l)) s = (ok, s') \<Longrightarrow>
      f s' \<le> f s + (if P l then 1 else 0)"
    and blind: "\<And>s. f (s\<lparr>ls_jump := None\<rparr>) = f s"
  shows "local_loop C rp first rest s = (ok, s') \<Longrightarrow> f s' \<le> f s + length (filter P (whole_lines rest))"
proof (induction "length rest" arbitrary: first rest s rule: less_induct)
  case less
  obtain l m r where g: "getln rest = (l, m, r)" by (metis prod_cases3)
  obtain b s1 where d: "do_line C rp first (trim (butlast l)) s = (b, s1)" by (metis surj_pair)
  show ?case
  proof (cases m)
    case False
    then show ?thesis using less.prems g by (subst (asm) local_loop.simps) simp
  next
    case True
    then have "is_line l" using g getln_line [of rest l r] by (auto simp: is_line_def)
    note f = line [OF this d]
    have w: "whole_lines rest = l # whole_lines r" using g True by (subst whole_lines.simps) simp
    show ?thesis
    proof (cases "b \<and> \<not> ls_flag99 s1")
      case False
      then show ?thesis using less.prems g d True f w
        by (subst (asm) local_loop.simps) (auto split: if_splits bool.splits)
    next
      case nx: True
      let ?r = "case ls_jump s1 of None \<Rightarrow> r | Some w \<Rightarrow> seek_label w r" and ?s = "s1\<lparr>ls_jump := None\<rparr>"
      have run: "local_loop C rp False ?r ?s = (ok, s')"
        using less.prems g d True nx by (subst (asm) local_loop.simps) simp
      have "length r < length rest" using g True getln_shorter [of rest l r] by simp
      then have "length ?r < length rest"
        using seek_label_shorter le_less_trans by (cases "ls_jump s1") fastforce+
      then have "f s' \<le> f ?s + length (filter P (whole_lines ?r))" using less.hyps run by blast
      moreover have "length (filter P (whole_lines ?r)) \<le> length (filter P (whole_lines r))"
        using seek_label_lines by (cases "ls_jump s1") auto
      ultimately show ?thesis using f w blind [of s1] by auto
    qed
  qed
qed

text \<open>A step that adds at most \<open>n\<close> to what \<open>f\<close> measures.\<close>

definition adds_most :: "(lstate \<Rightarrow> nat) \<Rightarrow> nat \<Rightarrow> lstate step \<Rightarrow> bool" where
  "adds_most f n g \<longleftrightarrow> (\<forall>s. f (snd (g s)) \<le> f s + n)"

lemma within_also: "adds_most f m g \<Longrightarrow> adds_most f n h \<Longrightarrow> adds_most f (m + n) (also_do g h)"
  unfolding adds_most_def
proof
  fix s assume g: "\<forall>s. f (snd (g s)) \<le> f s + m" and h: "\<forall>s. f (snd (h s)) \<le> f s + n"
  obtain ok t where t: "g s = (ok, t)" by (metis surj_pair)
  have "f t \<le> f s + m" "f (snd (h t)) \<le> f t + n" using g [rule_format, of s] h t by simp_all
  then show "f (snd (also_do g h s)) \<le> f s + (m + n)" using t by (cases ok) (simp_all add: also_do_def)
qed

lemma within_skip: "adds_most f 0 (Pair True)"
  by (simp add: adds_most_def)

lemma within_all: "list_all2 (adds_most f) ns gs \<Longrightarrow> adds_most f (sum_list ns) (all_do gs)"
  by (induction rule: list_all2_induct) (simp_all add: all_do_simps within_skip within_also)

definition tried :: "lstate \<Rightarrow> nat" where
  "tried s = length (ls_log s) + length (ls_recips s)"

definition recipients :: "lstate \<Rightarrow> nat" where
  "recipients s = length (ls_recips s)"

lemmas measure_defs = adds_most_def tried_def recipients_def

lemma tried_delivery: "adds_most tried 1 (maildir C fn)" "adds_most tried 1 (filterit C cmd)" "adds_most tried 1 (mailprogram C prog)"
  "adds_most tried 1 (envdir_line C dir)" "adds_most tried 1 (mbox_delivery C rp fn)" "adds_most tried 1 (forward_line C a)"
  by (auto simp: measure_defs maildir_def filterit_def mailprogram_def envdir_line_def mbox_delivery_def forward_line_def
      sayit_def stop_def Let_def split: option.split childres.split filterres.split prod.split)

lemma recipients_delivery: "adds_most recipients 0 (maildir C fn)" "adds_most recipients 0 (filterit C cmd)"
  "adds_most recipients 0 (mailprogram C prog)" "adds_most recipients 0 (envdir_line C dir)"
  "adds_most recipients 0 (mbox_delivery C rp fn)" "adds_most recipients 1 (forward_line C a)"
  by (auto simp: measure_defs maildir_def filterit_def mailprogram_def envdir_line_def mbox_delivery_def forward_line_def
      sayit_def stop_def Let_def split: option.split childres.split filterres.split prod.split)

lemma small_delivery: "f \<in> {tried, recipients} \<Longrightarrow> adds_most f 0 count_file" "f \<in> {tried, recipients} \<Longrightarrow> adds_most f 0 count_program"
  "f \<in> {tried, recipients} \<Longrightarrow> adds_most f 0 not_forwardonly" "f \<in> {tried, recipients} \<Longrightarrow> adds_most f 0 (sayit typ cmd)"
  "f \<in> {tried, recipients} \<Longrightarrow> adds_most f 0 (take_branch a w)"
  by (auto simp: measure_defs count_file_def count_program_def not_forwardonly_def sayit_def stop_def take_branch_def)

lemma within_more: "adds_most f m g \<Longrightarrow> m \<le> n \<Longrightarrow> adds_most f n g"
  unfolding adds_most_def by (meson le_trans nat_add_left_cancel_le)

lemma guarded_within:
  assumes "f \<in> {tried, recipients}" "g \<in> {count_file, count_program}" "adds_most f n h"
  shows "adds_most f n (all_do [g, not_forwardonly, h])"
  using within_all [of f "[0, 0, n]" "[g, not_forwardonly, h]"] assms small_delivery by auto

lemma tried_line: "adds_most tried 1 (do_line C rp first t)"
proof -
  have t: "tried \<in> {tried, recipients}" by simp
  note s = tried_delivery within_more [OF small_delivery(4) [OF t], of 1, simplified]
  have f: "adds_most tried 1 (file_line C rp t)" unfolding file_line_def by (rule guarded_within) (use s in auto)
  have p: "adds_most tried 1 (program_line C t)" unfolding program_line_def Let_def by (rule guarded_within) (use s in auto)
  have r: "adds_most tried 1 (branch_run C cmd)" for cmd
  proof (cases "cmd = []")
    case False
    have "adds_most tried 1 (all_do [count_program, not_forwardonly, if lc_doit C then mailprogram C (cstr cmd) else sayit ''program '' cmd])"
      by (rule guarded_within) (use s in auto)
    then show ?thesis using False by (simp only: branch_run_def if_False)
  qed (simp add: branch_run_def adds_most_def)
  have b: "adds_most tried 1 (branch_line C t)"
    unfolding branch_line_def Let_def using within_also [OF r small_delivery(5) [OF t]] by simp
  show ?thesis
    using f p b s unfolding adds_most_def by (auto simp: do_line_def stop_def tried_def)
qed

lemma recipients_line:
  assumes "t = [] \<or> hd t = hd l"
  shows "adds_most recipients (if may_forward l then 1 else 0) (do_line C rp first t)"
proof -
  have t: "recipients \<in> {tried, recipients}" by simp
  note s = recipients_delivery small_delivery(4) [OF t]
  have f: "adds_most recipients 0 (file_line C rp t)" unfolding file_line_def by (rule guarded_within) (use s in auto)
  have p: "adds_most recipients 0 (program_line C t)" unfolding program_line_def Let_def by (rule guarded_within) (use s in auto)
  have r: "adds_most recipients 0 (branch_run C cmd)" for cmd
  proof (cases "cmd = []")
    case False
    have "adds_most recipients 0 (all_do [count_program, not_forwardonly, if lc_doit C then mailprogram C (cstr cmd) else sayit ''program '' cmd])"
      by (rule guarded_within) (use s in auto)
    then show ?thesis using False by (simp only: branch_run_def if_False)
  qed (simp add: branch_run_def adds_most_def)
  have b: "adds_most recipients 0 (branch_line C t)"
    unfolding branch_line_def Let_def using within_also [OF r small_delivery(5) [OF t]] by simp
  show ?thesis
    using assms f p b s unfolding adds_most_def may_forward_def
    by (auto simp: do_line_def stop_def recipients_def intro: le_SucI)
qed

lemma trim_hd: "trim l = [] \<or> hd (trim l) = hd l"
proof -
  have "\<exists>x. l = trim l @ x"
    unfolding trim_def by (metis rev_append rev_rev_ident takeWhile_dropWhile_id)
  then obtain x where "l = trim l @ x" by blast
  then show ?thesis by (metis hd_append2)
qed

lemma count_lf: "length (whole_lines b) = length (filter (\<lambda>c. c = LF) b)"
proof (induction b rule: whole_lines.induct)
  case (1 b)
  obtain l m r where g: "getln b = (l, m, r)" by (metis prod_cases3)
  show ?case
  proof (cases m)
    case True
    then obtain k where "l = k @ [LF]" "LF \<notin> set k" using g getln_line [of b l r] by auto
    moreover from this have "filter (\<lambda>c. c = LF) k = []" by (auto simp: filter_empty_conv)
    moreover have "b = l @ r" using g by (rule getln_append)
    ultimately show ?thesis using 1 [OF g [symmetric] refl] True g by (subst whole_lines.simps) simp
  next
    case False
    then have "filter (\<lambda>c. c = LF) b = []" using g getln_last [of b l r] by (auto simp: filter_empty_conv)
    then show ?thesis using False g by (subst whole_lines.simps) simp
  qed
qed

lemma loop_tried:
  assumes "local_loop C rp first rest s = (ok, s')"
  shows "tried s' \<le> tried s + length (filter (\<lambda>c. c = LF) rest)"
proof -
  have "tried s' \<le> tried s + length (filter (\<lambda>l. True) (whole_lines rest))"
  proof (rule loop_bound [OF _ _ assms])
    fix first l s ok s' assume "do_line C rp first (trim (butlast l)) s = (ok, s')"
    then show "tried s' \<le> tried s + (if True then 1 else 0)"
      using tried_line [of C rp first "trim (butlast l)"] unfolding adds_most_def if_True by (metis snd_conv)
  qed (simp add: tried_def)
  then show ?thesis by (simp add: count_lf)
qed

lemma loop_recipients:
  assumes "local_loop C rp first rest s = (ok, s')"
  shows "recipients s' \<le> recipients s + count_forwards rest"
  unfolding count_forwards_lines
proof (rule loop_bound [OF _ _ assms])
  fix first l s ok s' assume l: "is_line l" and d: "do_line C rp first (trim (butlast l)) s = (ok, s')"
  have "trim (butlast l) = [] \<or> hd (trim (butlast l)) = hd l"
    using trim_hd [of "butlast l"] l by (cases "butlast l") (auto simp: trim_def is_line_def)
  from recipients_line [OF this, of C rp first] show "recipients s' \<le> recipients s + (if may_forward l then 1 else 0)"
    using d unfolding adds_most_def by (metis snd_conv)
qed (simp add: recipients_def)

end
