(* ===== verification/LocalForward.thy ===== *)
theory LocalForward
  imports LocalFacts
begin

text \<open>
  What forwarding hands to \<^verbatim>\<open>qmail-queue\<close>, and how \<^verbatim>\<open>bouncexf\<close> recognises a message that comes back: the lines of a
  header, the line \<^verbatim>\<open>Delivered-To\<close> among them, and the limit.
\<close>

section \<open>A session with qmail-queue in which no write failed\<close>

lemma qmail_put_mess: "\<not> qq_flagerr (qmail_put b q) \<Longrightarrow> \<not> qq_onenv q \<Longrightarrow>
  \<not> qq_flagerr q \<and> qq_mess (qmail_put b q) = qq_mess q @ b \<and> qq_env (qmail_put b q) = qq_env q \<and> \<not> qq_onenv (qmail_put b q)"
  by (auto simp: qmail_put_def Let_def split: if_splits)

lemma qmail_put_env: "\<not> qq_flagerr (qmail_put b q) \<Longrightarrow> qq_onenv q \<Longrightarrow>
  \<not> qq_flagerr q \<and> qq_env (qmail_put b q) = qq_env q @ b \<and> qq_mess (qmail_put b q) = qq_mess q \<and> qq_onenv (qmail_put b q)"
  by (auto simp: qmail_put_def Let_def split: if_splits)

lemma fold_put_mess: "\<not> qq_flagerr (fold qmail_put bs q) \<Longrightarrow> \<not> qq_onenv q \<Longrightarrow>
  \<not> qq_flagerr q \<and> qq_mess (fold qmail_put bs q) = qq_mess q @ concat bs \<and> qq_env (fold qmail_put bs q) = qq_env q
  \<and> \<not> qq_onenv (fold qmail_put bs q)"
proof (induction bs arbitrary: q)
  case (Cons b bs)
  have n: "\<not> qq_onenv (qmail_put b q)" using Cons.prems(2) by (simp add: qmail_put_def Let_def)
  show ?case using Cons.IH [OF _ n] Cons.prems qmail_put_mess [of b q] by simp
qed simp

lemma forward_body_mess: "\<not> qq_flagerr (forward_body bad n inp q) \<Longrightarrow> \<not> qq_onenv q \<Longrightarrow>
  \<not> qq_flagerr q \<and> qq_mess (forward_body bad n inp q) = qq_mess q @ inp \<and> qq_env (forward_body bad n inp q) = qq_env q
  \<and> \<not> qq_onenv (forward_body bad n inp q)"
proof (induction bad n inp q rule: forward_body.induct)
  case (1 bad n inp q)
  obtain l m r where g: "getln inp = (l, m, r)" by (metis prod_cases3)
  have i: "inp = l @ r" using g by (rule getln_append)
  show ?case
  proof (cases "bad n \<or> \<not> m")
    case True
    have "\<not> m \<Longrightarrow> r = []" using g getln_last [of inp l r] by simp
    then show ?thesis using 1(2,3) True g i qmail_put_mess [of l q]
      by (subst (asm) forward_body.simps, subst (1 2 3) forward_body.simps) (auto simp: qmail_fail_def split: if_splits)
  next
    case False
    then have e: "forward_body bad n inp q = forward_body bad (n + 1) r (qmail_put l q)"
      using g by (subst forward_body.simps) simp
    have "\<not> qq_onenv (qmail_put l q)" using 1(3) by (simp add: qmail_put_def Let_def)
    then show ?thesis using 1(1) [OF _ g [symmetric] refl] 1(2,3) False i qmail_put_mess [of l q] unfolding e by auto
  qed
qed

text \<open>The envelope: a session that ends without an error has written all of it.\<close>

lemma fold_to_env: "\<not> qq_flagerr (fold qmail_to rs q) \<Longrightarrow> qq_onenv q \<Longrightarrow>
  \<not> qq_flagerr q \<and> qq_mess (fold qmail_to rs q) = qq_mess q
  \<and> qq_env (fold qmail_to rs q) = qq_env q @ concat (map (\<lambda>r. ''T'' @ cstr r @ [NUL]) rs) \<and> qq_onenv (fold qmail_to rs q)"
proof (induction rs arbitrary: q)
  case (Cons r rs)
  have o: "qq_onenv (qmail_put b q) = qq_onenv q" for b q by (simp add: qmail_put_def Let_def)
  have n: "qq_onenv (qmail_to r q)" using Cons.prems(2) by (simp add: qmail_to_def qmail_puts_def o)
  have i: "\<not> qq_flagerr (qmail_to r q)" using Cons.IH [OF _ n] Cons.prems(1) by simp
  have t: "\<not> qq_flagerr q \<and> qq_mess (qmail_to r q) = qq_mess q \<and> qq_env (qmail_to r q) = qq_env q @ ''T'' @ cstr r @ [NUL]"
    using i Cons.prems(2) qmail_put_env [of "[NUL]" "qmail_put (cstr r) (qmail_put ''T'' q)"]
      qmail_put_env [of "cstr r" "qmail_put ''T'' q"] qmail_put_env [of "''T''" q]
    by (auto simp: qmail_to_def qmail_puts_def o)
  show ?case using Cons.IH [OF _ n] Cons.prems(1) t by simp
qed simp

lemma qmail_close_clean:
  "\<not> qq_flagerr (snd (qmail_close custom waited crashed code q)) \<Longrightarrow> qq_onenv q \<Longrightarrow>
   \<not> qq_flagerr q \<and> qq_mess (snd (qmail_close custom waited crashed code q)) = qq_mess q
   \<and> qq_env (snd (qmail_close custom waited crashed code q)) = qq_env q @ [NUL]"
  using qmail_put_env [of "[NUL]" q] by (auto simp: qmail_close_def qmail_flush_def Let_def split: if_splits bool.splits)

lemma qmail_from_clean:
  assumes "\<not> qq_flagerr (qmail_from s q)"
  shows "\<not> qq_flagerr q \<and> qq_mess (qmail_from s q) = qq_mess q \<and> qq_env (qmail_from s q) = qq_env q @ ''F'' @ cstr s @ [NUL]
    \<and> qq_onenv (qmail_from s q)"
proof -
  let ?q = "(if fst (qmail_flush q) then snd (qmail_flush q) else (snd (qmail_flush q))\<lparr>qq_flagerr := True\<rparr>)\<lparr>qq_onenv := True\<rparr>"
  have o: "qq_onenv (qmail_put b q) = qq_onenv q" for b q by (simp add: qmail_put_def Let_def)
  have f: "qmail_from s q = qmail_put [NUL] (qmail_put (cstr s) (qmail_put ''F'' ?q))"
    by (simp add: qmail_from_def qmail_puts_def Let_def split: prod.split)
  have "\<not> qq_flagerr ?q \<and> qq_mess (qmail_from s q) = qq_mess ?q \<and> qq_env (qmail_from s q) = qq_env ?q @ ''F'' @ cstr s @ [NUL]
      \<and> qq_onenv (qmail_from s q)"
    using assms qmail_put_env [of "[NUL]" "qmail_put (cstr s) (qmail_put ''F'' ?q)"]
      qmail_put_env [of "cstr s" "qmail_put ''F'' ?q"] qmail_put_env [of "''F''" ?q]
    unfolding f by (simp add: o)
  then show ?thesis by (auto simp: qmail_flush_def split: if_splits)
qed

section \<open>The message that is forwarded\<close>

text \<open>The envelope sender after \<^verbatim>\<open>srsforward\<close>.\<close>

definition fwd_sender :: "lconf \<Rightarrow> bytes \<Rightarrow> bytes" where
  "fwd_sender C ueo = (case fw_srs (lc_fwd C) ueo of SrsMakes u \<Rightarrow> u | _ \<Rightarrow> ueo)"

definition queued_by :: "lconf \<Rightarrow> bytes \<Rightarrow> bytes \<Rightarrow> bytes list \<Rightarrow> qmailq \<Rightarrow> bool" where
  "queued_by C qqeh ueo rs q \<longleftrightarrow> fw_waited (lc_fwd C) \<and> \<not> fw_crashed (lc_fwd C) \<and> fw_code (lc_fwd C) = 0 \<and>
     qq_mess q = concat (forward_head C qqeh ueo rs) @ lc_mess C \<and> qq_env q = envelope (cstr (fwd_sender C ueo)) (map cstr rs)"

lemma mailforward_effect:
  assumes "mailforward C ueo s = (ok, s')" and c: "cstr (take 1023 (fw_custom (lc_fwd C))) \<noteq> []"
  shows "ls_recips s' = ls_recips s \<and> ls_log s' = ls_log s \<and> ls_boxes s' = ls_boxes s \<and> ls_qqeh s' = ls_qqeh s \<and>
    (if ok then ls_exit s' = ls_exit s \<and> (\<exists>q. ls_queue s' = Some q \<and> queued_by C (ls_qqeh s) ueo (ls_recips s) q)
     else ls_exit s' \<in> {Some 100, Some 111})"
proof (cases ok)
  case False
  then show ?thesis using assms(1)
    by (auto simp: mailforward_def stop_def Let_def split: if_splits srsfwd.splits option.splits prod.splits)
next
  case True
  let ?F = "lc_fwd C"
  let ?q0 = "qmail_opened (fw_fdc ?F) (fw_fault ?F)"
  let ?q1 = "fold qmail_put (forward_head C (ls_qqeh s) ueo (ls_recips s)) ?q0"
  let ?q2 = "forward_body (fw_readerr ?F) 0 (lc_mess C) ?q1"
  let ?from = "fwd_sender C ueo"
  let ?q3 = "qmail_from ?from ?q2"
  let ?q4 = "fold qmail_to (ls_recips s) ?q3"
  obtain x q where cl: "qmail_close (fw_custom ?F) (fw_waited ?F) (fw_crashed ?F) (fw_code ?F) ?q4 = (x, q)"
    by (metis surj_pair)
  have r: "x = []" "s' = s\<lparr>ls_queue := Some q\<rparr>"
    using assms(1) True cl
    by (auto simp: mailforward_def fwd_sender_def stop_def Let_def split: if_splits srsfwd.splits)
  have v: "fw_waited ?F" "\<not> fw_crashed ?F" "fw_code ?F = 0" "\<not> qq_flagerr q"
    using qmail_close_accepts [OF c, of "fw_waited ?F" "fw_crashed ?F" "fw_code ?F" ?q4] cl r(1) by auto
  have o: "qq_onenv (qmail_put b q) = qq_onenv q" for b q by (simp add: qmail_put_def Let_def)
  have of: "qq_onenv ?q3" by (simp add: qmail_from_def qmail_puts_def o Let_def split: prod.split)
  have ot: "qq_onenv q \<Longrightarrow> qq_onenv (fold qmail_to rs q)" for rs q
    by (induction rs arbitrary: q) (simp_all add: qmail_to_def qmail_puts_def o)
  have e4: "\<not> qq_flagerr ?q4" "qq_mess q = qq_mess ?q4" "qq_env q = qq_env ?q4 @ [NUL]"
    using qmail_close_clean [of "fw_custom ?F" "fw_waited ?F" "fw_crashed ?F" "fw_code ?F" ?q4] v(4) ot [OF of] cl by auto
  note e3 = fold_to_env [OF e4(1) of]
  have f3: "\<not> qq_flagerr ?q3" using e3 by blast
  note e2 = qmail_from_clean [OF f3]
  have f2: "\<not> qq_flagerr ?q2" using e2 by blast
  have o0: "\<not> qq_onenv ?q0" by (simp add: qmail_opened_def)
  have "qq_onenv (fold qmail_put bs q) = qq_onenv q" for bs q by (induction bs arbitrary: q) (simp_all add: o)
  then have o1: "\<not> qq_onenv ?q1" using o0 by simp
  note e1 = forward_body_mess [OF f2 o1]
  have f1: "\<not> qq_flagerr ?q1" using e1 by blast
  note e0 = fold_put_mess [OF f1 o0]
  have "qq_mess ?q0 = []" "qq_env ?q0 = []" by (simp_all add: qmail_opened_def)
  then have "queued_by C (ls_qqeh s) ueo (ls_recips s) q"
    using v e4 e3 e2 e1 e0 by (simp add: queued_by_def envelope_def o_def)
  then show ?thesis using True r by simp
qed

section \<open>Messages that come back\<close>

text \<open>The lines before the first empty one; a last line without a line feed does not count.\<close>

function header_lines :: "bytes \<Rightarrow> bytes list" where
  "header_lines b = (case getln b of (l, m, r) \<Rightarrow> if m \<and> length l > 1 then l # header_lines r else [])"
  by pat_completeness auto
termination
  by (relation "measure length") (auto dest!: getln_shorter [OF sym])

declare header_lines.simps [simp del]

definition visits :: "bytes \<Rightarrow> bytes \<Rightarrow> nat" where
  "visits dt b = length (filter (\<lambda>l. length l = length dt \<and> cstr l = cstr dt) (header_lines b))"

lemma header_lines_Cons: "is_line l \<Longrightarrow> length l > 1 \<Longrightarrow> header_lines (l @ b) = l # header_lines b"
  by (subst header_lines.simps) (auto simp: is_line_def getln_whole)

text \<open>Bytes that are header lines: whole lines, none of them empty.\<close>

definition header_part :: "bytes \<Rightarrow> bool" where
  "header_part b \<longleftrightarrow> whole b \<and> list_all (\<lambda>l. length l > 1) (msg_lines b)"

lemma header_lines_concat:
  "list_all is_line ls \<Longrightarrow> list_all (\<lambda>l. length l > 1) ls \<Longrightarrow> header_lines (concat ls @ b) = ls @ header_lines b"
  by (induction ls) (simp_all add: header_lines_Cons)

lemma header_part_lines: "header_part a \<Longrightarrow> header_lines (a @ b) = msg_lines a @ header_lines b"
  using header_lines_concat [OF msg_lines_are_lines, of a b]
  by (simp add: header_part_def concat_msg_lines completed_def)

lemma visits_part: "header_part a \<Longrightarrow> visits dt b \<le> visits dt (a @ b)"
  by (simp add: visits_def header_part_lines)

lemma header_part_line: "is_line l \<Longrightarrow> length l > 1 \<Longrightarrow> header_part l"
  using msg_lines_line [of l "[]"] by (simp add: header_part_def is_line_whole)

lemma header_part_append: "header_part a \<Longrightarrow> header_part b \<Longrightarrow> header_part (a @ b)"
  by (simp add: header_part_def whole_append msg_lines_whole)

lemma header_part_Nil: "header_part []"
  by (simp add: header_part_def whole_def)

lemma bounce_loop_visits:
  "(\<forall>k. \<not> bad k) \<Longrightarrow> found \<le> limit \<or> limit \<le> -1 \<Longrightarrow> bounce_loop bad limit dt n found inp =
    (if limit > -1 \<and> found + int (visits dt inp) > limit then Some 100 else None)"
proof (induction bad limit dt n found inp rule: bounce_loop.induct)
  case (1 bad limit dt n found inp)
  obtain l m r where g: "getln inp = (l, m, r)" by (metis prod_cases3)
  let ?hit = "length l = length dt \<and> cstr l = cstr dt"
  let ?f = "if ?hit then found + 1 else found"
  show ?case
  proof (cases "m \<and> length l > 1")
    case False
    then have "visits dt inp = 0" using g unfolding visits_def by (subst header_lines.simps) auto
    moreover have "bounce_loop bad limit dt n found inp = None"
      using False g 1(2) by (cases m; subst bounce_loop.simps) (simp_all add: not_less)
    ultimately show ?thesis using 1(3) by auto
  next
    case True
    then have v: "visits dt inp = (if ?hit then 1 else 0) + visits dt r"
      using g unfolding visits_def by (subst header_lines.simps) auto
    show ?thesis
    proof (cases "limit > -1 \<and> ?f > limit")
      case over: True
      then have "bounce_loop bad limit dt n found inp = Some 100"
        using True g 1(2) by (subst bounce_loop.simps) (simp add: Let_def)
      then show ?thesis using over v by auto
    next
      case False
      then have "bounce_loop bad limit dt n found inp = bounce_loop bad limit dt (n + 1) ?f r"
        using True g 1(2) by (subst bounce_loop.simps) (auto simp: Let_def)
      also have "\<dots> = (if limit > -1 \<and> ?f + int (visits dt r) > limit then Some 100 else None)"
        by (rule 1(1) [OF _ g [symmetric] refl]) (use 1(2) True False in auto)
      finally show ?thesis using v by (cases ?hit) (simp_all add: add.assoc)
    qed
  qed
qed

lemma dt_line_is_line: "is_line (dt_line loc host)" "length (dt_line loc host) > 1"
proof -
  have "LF \<notin> no_lf ` A" for A by (auto simp: no_lf_def)
  then show "is_line (dt_line loc host)" unfolding is_line_def dt_line_def by (metis list.set_map)
qed (simp add: dt_line_def)

text \<open>A forwarded message carries one more line \<^verbatim>\<open>Delivered-To\<close> than the message it was made of.\<close>

lemma visits_forwarded:
  assumes "list_all (\<lambda>r. LF \<notin> set r) rs" "LF \<notin> set ueo" "header_part (cstr qqeh)"
  shows "visits (dt_line (lc_local C) (lc_host C)) (concat (forward_head C qqeh ueo rs) @ m) \<ge>
    visits (dt_line (lc_local C) (lc_host C)) m + 1"
proof -
  let ?dt = "dt_line (lc_local C) (lc_host C)"
  let ?to = "concat (map (\<lambda>r. ''X-Forwarded-To: '' @ r @ [LF]) rs)"
  have field: "header_part (n @ x @ [LF])" if "LF \<notin> set n" "n \<noteq> []" "LF \<notin> set x" for n x :: bytes
    using that by (intro header_part_line) (auto simp: is_line_def intro!: exI [of _ "n @ x"])
  have to: "header_part ?to" using assms(1)
  proof (induction rs)
    case (Cons r rs)
    then have "header_part (''X-Forwarded-To: '' @ r @ [LF])" by (intro field) simp_all
    from header_part_append [OF this Cons.IH] show ?case using Cons.prems by simp
  qed (simp add: header_part_Nil)
  have "header_part (''X-Forwarded-For: '' @ ueo @ [LF])" by (rule field) (use assms(2) in simp_all)
  then have "header_part (?to @ (''X-Forwarded-For: '' @ ueo @ [LF]) @ cstr qqeh)"
    using to assms(3) header_part_append by blast
  from visits_part [OF this, of ?dt m] show ?thesis
    using dt_line_is_line [of "lc_local C" "lc_host C"]
    by (simp add: forward_head_def visits_def header_lines_Cons)
qed

end
