(* ===== verification/LocalMaildir.thy ===== *)
theory LocalMaildir
  imports LocalMbox
begin

text \<open>
  \<^verbatim>\<open>indimail-mta-x/maildir_deliver.c\<close>: delivery to a maildir. The message is written to a file of \<^verbatim>\<open>tmp/\<close> and then
  linked to \<^verbatim>\<open>new/\<close>. The state holds the changes made to the maildir, oldest first; \<open>md_fault n\<close> says how the
  \<open>n\<close>-th call fails, \<open>md_alarm\<close> before which call the alarm of 86400 seconds rings (also after the link, and after the last call).
  A call can fail after it has had its effect: \<^verbatim>\<open>open\<close> and \<^verbatim>\<open>link\<close> are those of \<^verbatim>\<open>syncdir.c\<close>, which return -1 when the
  directory cannot be synced after the change. Memory suffices, and \<^verbatim>\<open>unlink\<close> does not fail.
\<close>

section \<open>The environment and the state\<close>

datatype mop = MCreate bytes | MAppend bytes bytes | MSync bytes | MLink bytes bytes | MUnlink bytes

datatype openres = Opened | AlreadyThere | NoQuota | OpenFailed
  | OpenUnsynced bool   \<comment> \<open>made, but the directory was not synced; the quota was exceeded\<close>

record mdenv =
  md_chdir :: "bool option"                \<comment> \<open>\<^verbatim>\<open>chdir\<close> fails, for a temporary reason\<close>
  md_host :: bytes
  md_pid :: nat
  md_time :: "nat \<Rightarrow> nat \<times> nat"            \<comment> \<open>\<^verbatim>\<open>gettimeofday\<close>: seconds and microseconds\<close>
  md_open :: "nat \<Rightarrow> openres"
  md_xlong :: "nat \<Rightarrow> bytes"               \<comment> \<open>\<^verbatim>\<open>fmt_xlong\<close>\<close>
  md_ino :: nat
  md_dev :: nat
  md_spill :: "nat \<Rightarrow> nat"
  md_fault :: "nat \<Rightarrow> (nat \<times> bool) option" \<comment> \<open>a call fails after so many bytes, or (not 0) after its effect; the quota is exceeded\<close>
  md_chunk :: "nat \<Rightarrow> nat"                 \<comment> \<open>how many bytes a read returns\<close>
  md_readerr :: "nat \<Rightarrow> bool"
  md_alarm :: "nat option"

record mdst =
  md_calls :: nat
  md_reads :: nat
  md_trace :: "mop list"
  md_buf :: bytes
  md_exit :: nat

section \<open>Names\<close>

definition md_hostname :: "bytes \<Rightarrow> bytes" where
  "md_hostname h = concat (map (\<lambda>c. if c = CHR ''/'' then ''057'' else if c = CHR '':'' then ''072'' else [c]) h)"

definition md_tail :: "libq \<Rightarrow> mdenv \<Rightarrow> nat \<Rightarrow> bytes" where
  "md_tail L E usec =
     ''M'' @ lq_fmt_ulong L usec @ ''P'' @ lq_fmt_ulong L (md_pid E) @ ''.'' @ md_hostname (md_host E)"

definition fntmp :: "libq \<Rightarrow> mdenv \<Rightarrow> nat \<times> nat \<Rightarrow> bytes" where
  "fntmp L E tv = ''tmp/'' @ lq_fmt_ulong L (fst tv) @ ''.'' @ md_tail L E (snd tv)"

definition fnnew :: "libq \<Rightarrow> mdenv \<Rightarrow> nat \<times> nat \<Rightarrow> nat \<Rightarrow> bytes" where
  "fnnew L E tv siz = ''new/'' @ lq_fmt_ulong L (fst tv) @ ''.I'' @ md_xlong E (md_ino E) @ ''V'' @ md_xlong E (md_dev E)
     @ md_tail L E (snd tv) @ '',S='' @ lq_fmt_ulong L siz"

section \<open>Calls\<close>

text \<open>The label \<^verbatim>\<open>fail\<close>, the handler \<^verbatim>\<open>sigalrm\<close> and the return after a read error: the file of \<^verbatim>\<open>tmp/\<close> is removed.\<close>

definition md_die :: "bytes \<Rightarrow> nat \<Rightarrow> mdst step" where
  "md_die t c s = (False, s\<lparr>md_trace := md_trace s @ [MUnlink t], md_exit := c\<rparr>)"

definition md_fail :: "bytes \<Rightarrow> bool \<Rightarrow> mdst step" where
  "md_fail t quota = md_die t (if quota then 5 else 1)"

definition md_write :: "mdenv \<Rightarrow> bytes \<Rightarrow> nat \<Rightarrow> bytes \<Rightarrow> mdst step" where
  "md_write E t k d s =
     (if md_alarm E = Some (md_calls s) then md_die t 3 s
      else case md_fault E (md_calls s) of
        None \<Rightarrow> (True, s\<lparr>md_calls := md_calls s + 1, md_trace := md_trace s @ [MAppend t (take k d)], md_buf := drop k d\<rparr>)
      | Some (n, quota) \<Rightarrow> md_fail t quota (s\<lparr>md_trace := md_trace s @ [MAppend t (take (min n k) d)]\<rparr>))"

definition md_put :: "mdenv \<Rightarrow> bytes \<Rightarrow> bytes \<Rightarrow> mdst step" where
  "md_put E t b s = md_write E t (md_spill E (md_calls s)) (md_buf s @ b) s"

definition md_flush :: "mdenv \<Rightarrow> bytes \<Rightarrow> mdst step" where
  "md_flush E t s = md_write E t (length (md_buf s)) (md_buf s) s"

text \<open>A call that changes the maildir by \<open>ops\<close>, perhaps also when it fails.\<close>

definition md_call :: "mdenv \<Rightarrow> bytes \<Rightarrow> mop list \<Rightarrow> mdst step" where
  "md_call E t ops s =
     (if md_alarm E = Some (md_calls s) then md_die t 3 s
      else case md_fault E (md_calls s) of
        None \<Rightarrow> (True, s\<lparr>md_calls := md_calls s + 1, md_trace := md_trace s @ ops\<rparr>)
      | Some (n, quota) \<Rightarrow> md_fail t quota (s\<lparr>md_trace := md_trace s @ (if n = 0 then [] else ops)\<rparr>))"

text \<open>\<^verbatim>\<open>substdio_copy\<close>\<close>

function md_copy :: "mdenv \<Rightarrow> bytes \<Rightarrow> bytes \<Rightarrow> mdst step" where
  "md_copy E t inp s =
     (if md_readerr E (md_reads s) then md_die t 4 s
      else if inp = [] then (True, s)
      else let n = max 1 (md_chunk E (md_reads s))
           in case md_put E t (take n inp) (s\<lparr>md_reads := md_reads s + 1\<rparr>) of
                (False, s1) \<Rightarrow> (False, s1)
              | (True, s1) \<Rightarrow> md_copy E t (drop n inp) s1)"
  by pat_completeness auto
termination
  by (relation "measure (\<lambda>(E, t, inp, s). length inp)") auto

declare md_copy.simps [simp del]

text \<open>The size of the file is what \<^verbatim>\<open>fstat\<close> finds: the bytes written.\<close>

fun written :: "mop list \<Rightarrow> bytes" where
  "written [] = []"
| "written (MAppend n b # ops) = b @ written ops"
| "written (op # ops) = written ops"

definition md_link :: "libq \<Rightarrow> mdenv \<Rightarrow> nat \<times> nat \<Rightarrow> mdst step" where
  "md_link L E tv s =
     md_call E (fntmp L E tv) [MLink (fntmp L E tv) (fnnew L E tv (length (written (md_trace s))))] s"

text \<open>The file of \<^verbatim>\<open>tmp/\<close> is removed and 0 returned; the alarm may still ring, before or after the removal.\<close>

definition md_done :: "mdenv \<Rightarrow> bytes \<Rightarrow> mdst step" where
  "md_done E t s =
     (if md_alarm E = Some (md_calls s) then md_die t 3 s
      else let s1 = s\<lparr>md_calls := md_calls s + 1, md_trace := md_trace s @ [MUnlink t], md_exit := 0\<rparr>
           in if md_alarm E = Some (md_calls s1) then md_die t 3 s1 else (True, s1))"

definition md_body :: "mdenv \<Rightarrow> bytes \<Rightarrow> msg \<Rightarrow> mdst step list" where
  "md_body E t h =
     [if ms_rpline h \<noteq> [] then md_put E t (ms_rpline h) else Pair True,
      if ms_dtline h \<noteq> [] then md_put E t (ms_dtline h) else Pair True,
      md_put E t (cstr (ms_qqeh h)), md_copy E t (ms_mess h)]"

definition md_close :: "libq \<Rightarrow> mdenv \<Rightarrow> nat \<times> nat \<Rightarrow> bool \<Rightarrow> mdst step list" where
  "md_close L E tv sync =
     (let t = fntmp L E tv
      in [md_flush E t, if sync then md_call E t [MSync t] else Pair True,
          md_call E t [], md_call E t [], md_link L E tv, md_done E t])"

text \<open>The names are tried three times: the exit code and the changes, or the time of the name that was free.\<close>

fun md_tmp_loop :: "libq \<Rightarrow> mdenv \<Rightarrow> nat \<Rightarrow> nat \<Rightarrow> (nat \<times> mop list) + (nat \<times> nat)" where
  "md_tmp_loop L E 0 loop = Inl (1, [])"
| "md_tmp_loop L E (Suc left) loop =
     (case md_open E loop of
        Opened \<Rightarrow> Inr (md_time E loop)
      | AlreadyThere \<Rightarrow> md_tmp_loop L E left (loop + 1)
      | NoQuota \<Rightarrow> Inl (5, [])
      | OpenFailed \<Rightarrow> Inl (1, [])
      | OpenUnsynced quota \<Rightarrow> Inl (if quota then 5 else 1, [MCreate (fntmp L E (md_time E loop))]))"

text \<open>The exit code of the process and the changes.\<close>

definition maildir_deliver :: "libq \<Rightarrow> mdenv \<Rightarrow> msg \<Rightarrow> nat \<times> mop list" where
  "maildir_deliver L E h =
     (case md_chdir E of
        Some temp \<Rightarrow> (if temp then 1 else 2, [])
      | None \<Rightarrow>
          case md_tmp_loop L E 3 0 of
            Inl (c, tr) \<Rightarrow> (c, tr)
          | Inr tv \<Rightarrow>
              let s = snd (all_do (md_body E (fntmp L E tv) h @ md_close L E tv (ms_sync h))
                   \<lparr>md_calls = 0, md_reads = 0, md_trace = [MCreate (fntmp L E tv)], md_buf = [], md_exit = 0\<rparr>)
              in (md_exit s, md_trace s))"

section \<open>The maildir\<close>

record mfs =
  mf_names :: "bytes \<Rightarrow> nat option"
  mf_data :: "nat \<Rightarrow> bytes"
  mf_synced :: "nat \<Rightarrow> bool"
  mf_next :: nat

fun mf_do :: "mop \<Rightarrow> mfs \<Rightarrow> mfs" where
  "mf_do (MCreate n) fs = fs\<lparr>mf_names := (mf_names fs)(n := Some (mf_next fs)), mf_data := (mf_data fs)(mf_next fs := []),
     mf_synced := (mf_synced fs)(mf_next fs := False), mf_next := mf_next fs + 1\<rparr>"
| "mf_do (MAppend n b) fs =
     (case mf_names fs n of
        None \<Rightarrow> fs
      | Some i \<Rightarrow> fs\<lparr>mf_data := (mf_data fs)(i := mf_data fs i @ b), mf_synced := (mf_synced fs)(i := False)\<rparr>)"
| "mf_do (MSync n) fs = (case mf_names fs n of None \<Rightarrow> fs | Some i \<Rightarrow> fs\<lparr>mf_synced := (mf_synced fs)(i := True)\<rparr>)"
| "mf_do (MLink m n) fs = fs\<lparr>mf_names := (mf_names fs)(n := mf_names fs m)\<rparr>"
| "mf_do (MUnlink n) fs = fs\<lparr>mf_names := (mf_names fs)(n := None)\<rparr>"

definition mf_run :: "mop list \<Rightarrow> mfs \<Rightarrow> mfs" where
  "mf_run = fold mf_do"

lemma mf_run_simps [simp]: "mf_run [] fs = fs" "mf_run (op # ops) fs = mf_run ops (mf_do op fs)"
  "mf_run (ops @ ops') fs = mf_run ops' (mf_run ops fs)"
  by (simp_all add: mf_run_def)

section \<open>What the steps do\<close>

definition md_text :: "msg \<Rightarrow> bytes" where
  "md_text h = ms_rpline h @ ms_dtline h @ cstr (ms_qqeh h) @ ms_mess h"

text \<open>Changes to the file of \<^verbatim>\<open>tmp/\<close> alone.\<close>

fun touches :: "bytes \<Rightarrow> mop \<Rightarrow> bool" where
  "touches t (MAppend n b) = (n = t)"
| "touches t (MSync n) = (n = t)"
| "touches t (MUnlink n) = (n = t)"
| "touches t op = False"

fun appends :: "bytes \<Rightarrow> mop \<Rightarrow> bool" where
  "appends t (MAppend n b) = (n = t)"
| "appends t op = False"

lemma appends_touches: "appends t op \<Longrightarrow> touches t op"
  by (cases op) simp_all

abbreviation md_out :: "mdst \<Rightarrow> bytes" where "md_out s \<equiv> written (md_trace s) @ md_buf s"

definition tmp_only :: "bytes \<Rightarrow> bool \<Rightarrow> mdst \<Rightarrow> mdst \<Rightarrow> bool" where
  "tmp_only t ok s s' \<longleftrightarrow> (\<exists>ops. md_trace s' = md_trace s @ ops \<and>
     (if ok then list_all (appends t) ops else list_all (touches t) ops \<and> md_exit s' \<in> {1, 3, 4, 5}))"

interpretation md: adding md_out "tmp_only t" for t
proof unfold_locales
  show "tmp_only t True s s" for s by (simp add: tmp_only_def)
  show "tmp_only t ok s u" if st: "tmp_only t True s r" and tu: "tmp_only t ok r u" for ok s r u
  proof -
    obtain a b where a: "md_trace r = md_trace s @ a" "list_all (appends t) a" and b: "md_trace u = md_trace r @ b"
      using st tu by (auto simp: tmp_only_def)
    then have "list_all (touches t) a" by (auto simp: list_all_iff appends_touches)
    then show ?thesis using tu a b by (auto simp: tmp_only_def split: if_splits intro!: exI [of _ "a @ b"])
  qed
qed

lemma written_append [simp]: "written (a @ b) = written a @ written b"
  by (induction a rule: written.induct) simp_all

lemma md_die_safe: "md_die t c s = (ok, s') \<Longrightarrow> c \<in> {1, 3, 4, 5} \<Longrightarrow> tmp_only t ok s s' \<and> \<not> ok"
  by (auto simp: md_die_def tmp_only_def)

lemma md_write_effect:
  "md_write E t k d s = (ok, s') \<Longrightarrow> tmp_only t ok s s' \<and> (ok \<longrightarrow> md_out s' = written (md_trace s) @ d)"
  by (auto simp: md_write_def md_fail_def md_die_def tmp_only_def split: option.splits prod.splits if_splits)

lemma adds_md_put: "adds md_out (tmp_only t) b (md_put E t b)"
  unfolding adds_def md_put_def using md_write_effect by fastforce

lemma adds_md_copy: "adds md_out (tmp_only t) inp (md_copy E t inp)"
proof -
  have "tmp_only t ok s s' \<and> (ok \<longrightarrow> md_out s' = md_out s @ inp)" if "md_copy E t inp s = (ok, s')" for s ok s'
    using that
  proof (induction E t inp s arbitrary: ok s' rule: md_copy.induct)
    case (1 E t inp s)
    let ?n = "max 1 (md_chunk E (md_reads s))" and ?s0 = "s\<lparr>md_reads := md_reads s + 1\<rparr>"
    obtain b s1 where p: "md_put E t (take ?n inp) ?s0 = (b, s1)" by (metis surj_pair)
    have a: "tmp_only t b s s1" "b \<longrightarrow> md_out s1 = md_out s @ take ?n inp"
      using addsD [OF adds_md_put p] by (auto simp: tmp_only_def)
    show ?case
    proof (cases "md_readerr E (md_reads s) \<or> inp = [] \<or> \<not> b")
      case True
      then show ?thesis using "1.prems" a p md.safe_stay [of t s] md_die_safe [of t 4 s ok s']
        by (subst (asm) md_copy.simps) (auto simp: Let_def split: if_splits)
    next
      case False
      then have "md_copy E t (drop ?n inp) s1 = (ok, s')"
        using "1.prems" p by (subst (asm) md_copy.simps) (simp add: Let_def)
      then have i: "tmp_only t ok s1 s'" "ok \<longrightarrow> md_out s' = md_out s1 @ drop ?n inp"
        using False "1.IH" [OF _ _ refl p [symmetric]] by simp_all
      have "md_out s1 @ drop ?n inp = md_out s @ inp" using a False by (metis append.assoc append_take_drop_id)
      then show ?thesis using a(1) i False md.safe_trans [of t s s1 ok s'] by metis
    qed
  qed
  then show ?thesis by (auto simp: adds_def)
qed

lemma adds_md_body: "adds md_out (tmp_only t) (md_text h) (all_do (md_body E t h))"
proof -
  have "adds md_out (tmp_only t) (concat [ms_rpline h, ms_dtline h, cstr (ms_qqeh h), ms_mess h]) (all_do (md_body E t h))"
    unfolding md_body_def by (rule md.adds_steps) (simp add: adds_md_put adds_md_copy md.adds_skip)
  then show ?thesis by (simp add: md_text_def)
qed

lemma md_call_effect: "md_call E t ops s = (ok, s') \<Longrightarrow> list_all (touches t) ops \<Longrightarrow>
  (if ok then md_trace s' = md_trace s @ ops \<and> md_buf s' = md_buf s else tmp_only t False s s')"
  by (auto simp: md_call_def md_fail_def md_die_def tmp_only_def split: option.splits prod.splits if_splits)

text \<open>The exit codes with which the message can be in \<^verbatim>\<open>new/\<close>: 0, or when a call failed after its effect, or the alarm rang.\<close>

definition md_late :: "mdenv \<Rightarrow> bool" where
  "md_late E \<longleftrightarrow> (\<exists>n k quota. md_fault E n = Some (Suc k, quota))"

definition md_fate :: "mdenv \<Rightarrow> nat \<Rightarrow> bool" where
  "md_fate E c \<longleftrightarrow> c = 0 \<or> c = 3 \<and> md_alarm E \<noteq> None \<or> c \<in> {1, 5} \<and> md_late E"

lemma md_link_effect:
  assumes "md_link L E tv s = (ok, s')"
  defines "t \<equiv> fntmp L E tv" and "op \<equiv> MLink (fntmp L E tv) (fnnew L E tv (length (written (md_trace s))))"
  shows "if ok then md_trace s' = md_trace s @ [op]
    else tmp_only t False s s' \<or> md_trace s' = md_trace s @ [op, MUnlink t] \<and> md_fate E (md_exit s')"
  using assms(1)
  by (auto simp: md_link_def t_def op_def md_call_def md_fail_def md_die_def tmp_only_def md_fate_def md_late_def gr0_conv_Suc split: option.splits if_splits)

lemma md_done_effect:
  assumes "md_done E t s = (ok, s')"
  shows "(\<exists>u. md_trace s' = md_trace s @ u \<and> u \<in> {[MUnlink t], [MUnlink t, MUnlink t]}) \<and> md_fate E (md_exit s') \<and> (ok \<longrightarrow> md_exit s' = 0)"
  using assms by (auto simp: md_done_def md_die_def md_fate_def Let_def split: if_splits)

lemma tmp_only_after:
  "tmp_only t False r u \<Longrightarrow> md_trace r = md_trace s @ ops \<Longrightarrow> list_all (touches t) ops \<Longrightarrow> tmp_only t False s u"
  by (fastforce simp: tmp_only_def intro: exI [of _ "ops @ a" for a])

text \<open>After the body: the link is made, or only the file of \<^verbatim>\<open>tmp/\<close> is touched.\<close>

lemma md_close_effect:
  assumes "all_do (md_close L E tv sync) s = (ok, s')"
  defines "t \<equiv> fntmp L E tv"
  shows "(\<exists>u. md_trace s' = md_trace s @ MAppend t (md_buf s) # (if sync then [MSync t] else [])
      @ MLink t (fnnew L E tv (length (md_out s))) # u \<and> u \<in> {[MUnlink t], [MUnlink t, MUnlink t]} \<and> md_fate E (md_exit s') \<and>
      (ok \<longrightarrow> md_exit s' = 0)) \<or> \<not> ok \<and> tmp_only t False s s'"
proof -
  let ?sync = "if sync then [MSync t] else []"
  let ?link = "MLink t (fnnew L E tv (length (md_out s)))"
  obtain b1 s1 where f1: "md_flush E t s = (b1, s1)" by (metis surj_pair)
  show ?thesis
  proof (cases b1)
    case False
    then show ?thesis using assms(1) f1 md_write_effect [of E t "length (md_buf s)" "md_buf s" s False s1]
      by (auto simp: md_close_def all_do_simps also_do_def md_flush_def t_def Let_def)
  next
    case True
    then have t1: "md_trace s1 = md_trace s @ [MAppend t (md_buf s)]" "md_buf s1 = []"
      using f1 by (auto simp: md_flush_def md_write_def md_fail_def md_die_def split: option.splits prod.splits if_splits)
    obtain b2 s2 where f2: "(if sync then md_call E t [MSync t] else Pair True) s1 = (b2, s2)" by (metis surj_pair)
    have t2: "if b2 then md_trace s2 = md_trace s1 @ ?sync else tmp_only t False s1 s2"
      using f2 md_call_effect [of E t "[MSync t]" s1 b2 s2] by (auto split: if_splits)
    obtain b3 s3 where f3: "md_call E t [] s2 = (b3, s3)" by (metis surj_pair)
    obtain b4 s4 where f4: "md_call E t [] s3 = (b4, s4)" by (metis surj_pair)
    obtain b5 s5 where f5: "md_link L E tv s4 = (b5, s5)" by (metis surj_pair)
    obtain b6 s6 where f6: "md_done E t s5 = (b6, s6)" by (metis surj_pair)
    note t3 = md_call_effect [OF f3, simplified] and t4 = md_call_effect [OF f4, simplified]
    note t5 = md_link_effect [OF f5, folded t_def] and t6 = md_done_effect [OF f6]
    have run: "(ok, s') = (if \<not> b2 then (False, s2) else if \<not> b3 then (False, s3) else if \<not> b4 then (False, s4)
        else if \<not> b5 then (False, s5) else (b6, s6))"
      using assms(1) True f1 f2 f3 f4 f5 f6
      by (simp add: md_close_def all_do_simps also_do_def t_def [symmetric] Let_def split: bool.split_asm)
    have l: "list_all (touches t) (MAppend t (md_buf s) # ?sync)" by simp
    show ?thesis
    proof (cases "b2 \<and> b3 \<and> b4")
      case True
      then have t: "md_trace s4 = md_trace s @ MAppend t (md_buf s) # ?sync" using t1 t2 t3 t4 by simp
      then have w: "length (written (md_trace s4)) = length (md_out s)" by simp
      show ?thesis
      proof (cases b5)
        case True
        then show ?thesis using run t5 t6 t w \<open>b2 \<and> b3 \<and> b4\<close> by auto
      next
        case False
        then have e: "\<not> ok" "s' = s5" using run \<open>b2 \<and> b3 \<and> b4\<close> by auto
        have "tmp_only t False s4 s' \<or> md_trace s' = md_trace s4 @ [?link, MUnlink t] \<and> md_fate E (md_exit s')"
          using t5 False unfolding w e(2) by simp
        then show ?thesis using e(1) t l tmp_only_after [of t s4 s' s] by auto
      qed
    next
      case False
      then have "\<not> ok" using run by (auto split: if_splits)
      moreover have "\<exists>r. tmp_only t False r s' \<and> md_trace r \<in> {md_trace s @ [MAppend t (md_buf s)],
          md_trace s @ MAppend t (md_buf s) # ?sync}"
        using False run t1 t2 t3 t4 by (cases b2; cases b3; cases b4) auto
      ultimately show ?thesis using l tmp_only_after by fastforce
    qed
  qed
qed

text \<open>The changes of one delivery, after the creation of the file: it alone is touched, or it is linked.\<close>

definition md_undone :: "bytes \<Rightarrow> nat \<Rightarrow> mop list \<Rightarrow> bool" where
  "md_undone t c ops \<longleftrightarrow> c \<in> {1, 3, 4, 5} \<and> list_all (touches t) ops"

definition md_linked :: "mdenv \<Rightarrow> bytes \<Rightarrow> bytes \<Rightarrow> msg \<Rightarrow> nat \<Rightarrow> mop list \<Rightarrow> bool" where
  "md_linked E t n h c ops \<longleftrightarrow> md_fate E c \<and>
     (\<exists>a u. ops = a @ (if ms_sync h then [MSync t] else []) @ MLink t n # u \<and> u \<in> {[MUnlink t], [MUnlink t, MUnlink t]}
        \<and> list_all (appends t) a \<and> written a = md_text h)"

lemma tmp_only_undone:
  assumes "tmp_only t False s s'" "md_trace s = MCreate t # a" "list_all (appends t) a"
  shows "\<exists>ops. md_trace s' = MCreate t # ops \<and> md_undone t (md_exit s') ops"
proof -
  obtain b where "md_trace s' = md_trace s @ b" "md_undone t (md_exit s') b"
    using assms(1) by (auto simp: tmp_only_def md_undone_def)
  moreover have "list_all (touches t) a" using assms(3) by (auto simp: list_all_iff appends_touches)
  ultimately show ?thesis using assms(2)
    by (intro exI [of _ "a @ b"]) (simp add: md_undone_def)
qed

lemma maildir_deliver_trace:
  assumes "maildir_deliver L E h = (c, tr)"
  shows "c \<in> {1, 2, 5} \<and> tr = [] \<or>
    (\<exists>tv ops. tr = MCreate (fntmp L E tv) # ops \<and>
      (md_undone (fntmp L E tv) c ops \<or> md_linked E (fntmp L E tv) (fnnew L E tv (length (md_text h))) h c ops))"
proof -
  have loop: "md_tmp_loop L E n k = Inl (d, u) \<Longrightarrow> d \<in> {1, 5} \<and> (u = [] \<or> (\<exists>j. u = [MCreate (fntmp L E (md_time E j))]))" for n k d u
    by (induction L E n k rule: md_tmp_loop.induct) (auto split: openres.splits)
  show ?thesis
  proof (cases "md_chdir E = None \<and> (\<exists>tv. md_tmp_loop L E 3 0 = Inr tv)")
    case False
    then have "c \<in> {1, 2, 5} \<and> tr = [] \<or> c \<in> {1, 5} \<and> (\<exists>j. tr = [MCreate (fntmp L E (md_time E j))])"
      using assms loop [of 3 0 c tr] by (auto simp: maildir_deliver_def split: option.splits sum.splits if_splits)
    moreover have "md_undone t c []" if "c \<in> {1, 5}" for t using that by (auto simp: md_undone_def)
    ultimately show ?thesis by blast
  next
    case True
    then obtain tv where tv: "md_chdir E = None" "md_tmp_loop L E 3 0 = Inr tv" by blast
    let ?t = "fntmp L E tv"
    let ?s = "\<lparr>md_calls = 0, md_reads = 0, md_trace = [MCreate ?t], md_buf = [], md_exit = 0\<rparr>"
    obtain ok s where b: "all_do (md_body E ?t h) ?s = (ok, s)" by (metis surj_pair)
    have e: "tmp_only ?t ok ?s s" "ok \<longrightarrow> md_out s = md_text h"
      using addsD [OF adds_md_body b] by simp_all
    have "\<exists>ops. tr = MCreate ?t # ops \<and> (md_undone ?t c ops \<or> md_linked E ?t (fnnew L E tv (length (md_text h))) h c ops)"
    proof (cases ok)
      case False
      then have "c = md_exit s" "tr = md_trace s"
        using assms tv b by (simp_all add: maildir_deliver_def all_do_append also_do_def Let_def)
      then show ?thesis using tmp_only_undone [of ?t ?s s "[]"] e(1) False by auto
    next
      case True
      obtain ok' s' where cl: "all_do (md_close L E tv (ms_sync h)) s = (ok', s')" by (metis surj_pair)
      have ct: "c = md_exit s'" "tr = md_trace s'"
        using assms tv b True cl by (simp_all add: maildir_deliver_def all_do_append also_do_def Let_def)
      obtain a where a: "md_trace s = MCreate ?t # a" "list_all (appends ?t) a"
        using e(1) True by (auto simp: tmp_only_def)
      consider (linked) u where "md_fate E (md_exit s')" "u \<in> {[MUnlink ?t], [MUnlink ?t, MUnlink ?t]}"
          "md_trace s' = md_trace s @ MAppend ?t (md_buf s) #
          (if ms_sync h then [MSync ?t] else []) @ MLink ?t (fnnew L E tv (length (md_out s))) # u"
        | (failed) "tmp_only ?t False s s'"
        using md_close_effect [OF cl] by metis
      then show ?thesis
      proof cases
        case linked
        have "md_linked E ?t (fnnew L E tv (length (md_text h))) h c (tl tr)"
          unfolding md_linked_def ct linked(3) a(1) e(2) [rule_format, OF True]
          using linked(1,2) a e(2) True by (intro conjI exI [of _ "a @ [MAppend ?t (md_buf s)]"] exI [of _ u]) auto
        then show ?thesis using ct linked(3) a(1) by (intro exI [of _ "tl tr"]) simp
      next
        case failed
        then show ?thesis using tmp_only_undone [OF failed a] ct by auto
      qed
    qed
    then show ?thesis by blast
  qed
qed

section \<open>What the maildir holds at every moment\<close>

definition mf_ok :: "mfs \<Rightarrow> bool" where
  "mf_ok fs \<longleftrightarrow> (\<forall>n i. mf_names fs n = Some i \<longrightarrow> i < mf_next fs)"

text \<open>Changes to one file leave the other names and the other files.\<close>

lemma touches_keep:
  "list_all (touches t) ops \<Longrightarrow> mf_names fs t = Some i \<or> mf_names fs t = None \<Longrightarrow>
   (\<forall>n. n \<noteq> t \<longrightarrow> mf_names (mf_run ops fs) n = mf_names fs n) \<and>
   (\<forall>j. j \<noteq> i \<longrightarrow> mf_data (mf_run ops fs) j = mf_data fs j)"
proof (induction ops arbitrary: fs)
  case (Cons op ops)
  have "mf_names (mf_do op fs) t = Some i \<or> mf_names (mf_do op fs) t = None"
    using Cons.prems by (cases op) (auto split: option.splits)
  then show ?case using Cons by (cases op) (auto split: option.splits)
qed simp

lemma appends_write:
  "list_all (appends t) ops \<Longrightarrow> mf_names fs t = Some i \<Longrightarrow>
   mf_names (mf_run ops fs) = mf_names fs \<and> mf_data (mf_run ops fs) = (mf_data fs)(i := mf_data fs i @ written ops)"
proof (induction ops arbitrary: fs)
  case (Cons op ops)
  then show ?case by (cases op) (auto split: option.splits)
qed simp

text \<open>A name of \<^verbatim>\<open>new/\<close> is as it was before, or stands for the whole message, on disk when that is asked for.\<close>

definition in_new :: "bytes \<Rightarrow> bool" where
  "in_new n \<longleftrightarrow> take 4 n = ''new/''"

definition only_whole_new :: "msg \<Rightarrow> mfs \<Rightarrow> mfs \<Rightarrow> bool" where
  "only_whole_new h fs fs' \<longleftrightarrow>
     (\<forall>j < mf_next fs. mf_data fs' j = mf_data fs j) \<and>
     (\<forall>n. in_new n \<and> mf_names fs' n \<noteq> mf_names fs n \<longrightarrow>
        mf_names fs' n = Some (mf_next fs) \<and> mf_data fs' (mf_next fs) = md_text h \<and>
        (ms_sync h \<longrightarrow> mf_synced fs' (mf_next fs)))"

lemma fntmp_not_new: "\<not> in_new (fntmp L E tv)"
  by (simp add: in_new_def fntmp_def)

lemma fnnew_new: "in_new (fnnew L E tv k)"
  by (simp add: in_new_def fnnew_def)

lemma touched_only:
  assumes "list_all (touches t) q" "\<not> in_new t"
  shows "only_whole_new h fs (mf_run (MCreate t # q) fs) \<and> (\<forall>n. in_new n \<longrightarrow> mf_names (mf_run (MCreate t # q) fs) n = mf_names fs n)"
  using touches_keep [OF assms(1), of "mf_do (MCreate t) fs" "mf_next fs"] assms(2)
  by (auto simp: only_whole_new_def)

lemma linked_state:
  assumes "list_all (appends t) a" "written a = md_text h" "\<not> in_new t" "in_new n"
    and u: "u \<in> {[], [MUnlink t], [MUnlink t, MUnlink t]}"
    and fs': "fs' = mf_run (MCreate t # a @ (if ms_sync h then [MSync t] else []) @ MLink t n # u) fs"
  shows "only_whole_new h fs fs' \<and> mf_names fs' n = Some (mf_next fs) \<and> (u \<noteq> [] \<longrightarrow> mf_names fs' t = None)"
proof -
  let ?f1 = "mf_do (MCreate t) fs"
  have w: "mf_names (mf_run a ?f1) = mf_names ?f1"
      "mf_data (mf_run a ?f1) = (mf_data ?f1)(mf_next fs := mf_data ?f1 (mf_next fs) @ written a)"
    using appends_write [OF assms(1), of ?f1 "mf_next fs"] by simp_all
  have "n \<noteq> t" using assms(3,4) by blast
  then show ?thesis
    using u w assms(2-4) unfolding fs' by (auto simp: only_whole_new_def)
qed

lemma maildir_at_every_moment:
  assumes run: "maildir_deliver L E h = (c, p @ r)"
  shows "only_whole_new h fs (mf_run p fs)"
proof -
  have none: "only_whole_new h fs (mf_run [] fs)" by (simp add: only_whole_new_def)
  show ?thesis
  proof (cases p)
    case Nil
    then show ?thesis using none by simp
  next
    case (Cons op q)
    then obtain tv ops where tr: "op = MCreate (fntmp L E tv)" "ops = q @ r" and
      o: "md_undone (fntmp L E tv) c ops \<or> md_linked E (fntmp L E tv) (fnnew L E tv (length (md_text h))) h c ops"
      using maildir_deliver_trace [OF run] by auto
    let ?t = "fntmp L E tv" and ?n = "fnnew L E tv (length (md_text h))"
    have touched: "list_all (touches ?t) q \<Longrightarrow> ?thesis"
      using touched_only [OF _ fntmp_not_new] Cons tr by simp
    show ?thesis
    proof (cases "md_undone ?t c ops")
      case True
      then show ?thesis using touched tr by (simp add: md_undone_def)
    next
      case False
      let ?sy = "if ms_sync h then [MSync ?t] else []"
      have "md_linked E ?t ?n h c (q @ r)" using False o tr by blast
      then obtain a v where a: "q @ r = (a @ ?sy) @ MLink ?t ?n # v" "list_all (appends ?t) a" "written a = md_text h"
          and v: "v \<in> {[MUnlink ?t], [MUnlink ?t, MUnlink ?t]}"
        unfolding md_linked_def append_assoc by blast
      have pre: "list_all (touches ?t) (a @ ?sy)" using a(2) by (auto simp: list_all_iff appends_touches)
      consider us where "q @ us = a @ ?sy" | us where "q = (a @ ?sy) @ us" "us @ r = MLink ?t ?n # v"
        using append_eq_append_conv2 [THEN iffD1, OF a(1)] by blast
      then show ?thesis
      proof cases
        case (1 us)
        then have "list_all (touches ?t) q" using pre by (metis list_all_append)
        then show ?thesis by (rule touched)
      next
        case (2 us)
        then consider "us = []" | u where "us = MLink ?t ?n # u" "u \<in> {[], [MUnlink ?t], [MUnlink ?t, MUnlink ?t]}"
          using v by (cases us) (auto simp: append_eq_Cons_conv)
        then show ?thesis
        proof cases
          case 1
          then show ?thesis using 2(1) pre touched by simp
        next
          case (2 u)
          then show ?thesis
            using linked_state [OF a(2,3) fntmp_not_new fnnew_new 2(2) HOL.refl] Cons tr(1) \<open>q = (a @ ?sy) @ us\<close> by simp
        qed
      qed
    qed
  qed
qed

text \<open>
  At the end the message is in \<^verbatim>\<open>new/\<close> if the exit code is 0; with another code \<^verbatim>\<open>new/\<close> is as before, unless a call failed after
  its effect or the alarm rang.
\<close>

definition in_new_now :: "msg \<Rightarrow> mfs \<Rightarrow> mfs \<Rightarrow> bool" where
  "in_new_now h fs fs' \<longleftrightarrow> (\<exists>n. in_new n \<and> mf_names fs' n = Some (mf_next fs)) \<and> mf_data fs' (mf_next fs) = md_text h \<and>
     (ms_sync h \<longrightarrow> mf_synced fs' (mf_next fs))"

definition same_new :: "mfs \<Rightarrow> mfs \<Rightarrow> bool" where
  "same_new fs fs' \<longleftrightarrow> (\<forall>n. in_new n \<longrightarrow> mf_names fs' n = mf_names fs n)"

lemma maildir_at_the_end:
  assumes run: "maildir_deliver L E h = (c, tr)"
  shows "c \<noteq> 0 \<and> same_new fs (mf_run tr fs) \<or> md_fate E c \<and> in_new_now h fs (mf_run tr fs)"
proof -
  consider "c \<in> {1, 2, 5}" "tr = []" | tv ops where "tr = MCreate (fntmp L E tv) # ops" "md_undone (fntmp L E tv) c ops"
    | tv ops where "tr = MCreate (fntmp L E tv) # ops" "md_linked E (fntmp L E tv) (fnnew L E tv (length (md_text h))) h c ops"
    using maildir_deliver_trace [OF run] by blast
  then show ?thesis
  proof cases
    case (2 tv ops)
    then show ?thesis
      using touched_only [OF _ fntmp_not_new, of L E tv ops] by (auto simp: md_undone_def same_new_def)
  next
    case (3 tv ops)
    let ?t = "fntmp L E tv" and ?n = "fnnew L E tv (length (md_text h))"
    obtain a u where a: "md_fate E c" "ops = a @ (if ms_sync h then [MSync ?t] else []) @ MLink ?t ?n # u"
        "u \<in> {[MUnlink ?t], [MUnlink ?t, MUnlink ?t]}" "list_all (appends ?t) a" "written a = md_text h"
      using 3(2) by (auto simp: md_linked_def)
    let ?w = "mf_run (MCreate ?t # a @ (if ms_sync h then [MSync ?t] else []) @ [MLink ?t ?n]) fs"
    have w: "only_whole_new h fs ?w" "mf_names ?w ?n = Some (mf_next fs)"
      using linked_state [OF a(4,5) fntmp_not_new fnnew_new, of "[]"] by auto
    have "mf_names (mf_do (MCreate ?t) fs) ?t = Some (mf_next fs)" by simp
    note d = appends_write [OF a(4) this]
    have "mf_data ?w (mf_next fs) = md_text h \<and> (ms_sync h \<longrightarrow> mf_synced ?w (mf_next fs))"
      using d a(5) by simp
    moreover have "?n \<noteq> ?t" using fnnew_new fntmp_not_new by metis
    moreover have "mf_data (mf_run u ?w) = mf_data ?w" "mf_synced (mf_run u ?w) = mf_synced ?w"
      "n \<noteq> ?t \<Longrightarrow> mf_names (mf_run u ?w) n = mf_names ?w n" for n
      using a(3) by auto
    moreover have "mf_run tr fs = mf_run u ?w" using 3(1) a(2) by simp
    ultimately have "in_new_now h fs (mf_run tr fs)" using w(2) fnnew_new unfolding in_new_now_def by metis
    then show ?thesis using a(1) by blast
  qed (auto simp: same_new_def)
qed

text \<open>Without failures the message is delivered.\<close>

definition md_fine :: "mdenv \<Rightarrow> bool" where
  "md_fine E \<longleftrightarrow> md_chdir E = None \<and> md_open E 0 = Opened \<and> (\<forall>n. md_fault E n = None) \<and> (\<forall>n. \<not> md_readerr E n) \<and> md_alarm E = None"

lemma md_call_fine: "md_fine E \<Longrightarrow> fst (md_write E t k d s)" "md_fine E \<Longrightarrow> fst (md_call E t ops s)"
  by (simp_all add: md_fine_def md_write_def md_call_def)

lemma md_done_fine: "md_fine E \<Longrightarrow> fst (md_done E t s)"
  by (simp add: md_fine_def md_done_def Let_def)

lemma md_copy_fine: "md_fine E \<Longrightarrow> fst (md_copy E t inp s)"
proof (induction E t inp s rule: md_copy.induct)
  case (1 E t inp s)
  obtain b s1 where p: "md_put E t (take (max 1 (md_chunk E (md_reads s))) inp) (s\<lparr>md_reads := md_reads s + 1\<rparr>) = (b, s1)"
    by (metis surj_pair)
  have b: b using p md_call_fine(1) [OF 1(2)] unfolding md_put_def by (metis fst_conv)
  show ?case
  proof (cases "inp = []")
    case False
    have e: "fst (md_copy E t (drop (max 1 (md_chunk E (md_reads s))) inp) s1)"
      by (rule "1.IH" [OF _ False refl p [symmetric]]) (use 1(2) b in \<open>simp_all add: md_fine_def\<close>)
    then show ?thesis using 1(2) False p b by (subst md_copy.simps) (simp add: md_fine_def)
  qed (use 1(2) in \<open>subst md_copy.simps, simp add: md_fine_def\<close>)
qed

lemma maildir_fine:
  assumes "md_fine E"
  shows "fst (maildir_deliver L E h) = 0"
proof -
  let ?t = "fntmp L E (md_time E 0)"
  let ?s = "\<lparr>md_calls = 0, md_reads = 0, md_trace = [MCreate ?t], md_buf = [], md_exit = 0\<rparr>"
  have b: "never_stops (all_do (md_body E ?t h))" using assms
    by (intro never_stops_all) (simp add: md_body_def never_stops_def md_put_def md_call_fine md_copy_fine)
  have c: "never_stops (all_do (md_close L E (md_time E 0) (ms_sync h)))" using assms
    by (intro never_stops_all)
      (simp add: md_close_def never_stops_def md_flush_def md_link_def md_done_fine md_call_fine Let_def)
  obtain s1 where s1: "all_do (md_body E ?t h) ?s = (True, s1)" using b unfolding never_stops_def by (metis prod.collapse)
  obtain s2 where s2: "all_do (md_close L E (md_time E 0) (ms_sync h)) s1 = (True, s2)"
    using c unfolding never_stops_def by (metis prod.collapse)
  have "md_exit s2 = 0" using md_close_effect [OF s2] by blast
  moreover have "md_tmp_loop L E 3 0 = Inr (md_time E 0)"
    using assms by (simp add: md_fine_def numeral_3_eq_3)
  ultimately show ?thesis using assms s1 s2
    by (simp add: maildir_deliver_def md_fine_def all_do_append also_do_def Let_def)
qed

end
