(* ===== verification/LocalProps.thy ===== *)
theory LocalProps
  imports LocalForward LocalMaildir SpawnReport
begin

text \<open>
  The properties of local delivery: the exit code, what success means, forwarding, the search for the
  \<^verbatim>\<open>.qmail\<close> file, mbox files and maildirs; with an example of each.
\<close>

section \<open>A run of the program\<close>

lemma checkhome_code: "checkhome L C = Some c \<Longrightarrow> c \<in> {100, 111}"
  by (auto simp: checkhome_def Let_def split: if_splits option.splits)

lemma bounce_loop_code: "bounce_loop bad limit dt n found inp = Some c \<Longrightarrow> c \<in> {100, 111}"
proof (induction bad limit dt n found inp rule: bounce_loop.induct)
  case (1 bad limit dt n found inp)
  obtain l m r where g: "getln inp = (l, m, r)" by (metis prod_cases3)
  show ?case using 1(2) 1(1) [OF _ g [symmetric] refl] g
    by (subst (asm) bounce_loop.simps) (auto simp: Let_def split: if_splits)
qed

lemma bouncexf_code: "bouncexf C = Some c \<Longrightarrow> c \<in> {100, 111}"
  using bounce_loop_code by (auto simp: bouncexf_def split: if_splits option.splits)

lemma mailforward_exit: "mailforward C ueo s = (ok, s') \<Longrightarrow>
  ls_log s' = ls_log s \<and> ls_boxes s' = ls_boxes s \<and> (if ok then ls_exit s' = ls_exit s else ls_exit s' \<in> {Some 100, Some 111})"
  by (auto simp: mailforward_def stop_def Let_def split: if_splits srsfwd.splits option.splits prod.splits)

text \<open>What holds of a state in which the instructions have been followed to the end.\<close>

definition done_well :: "lconf \<Rightarrow> bytes \<Rightarrow> (bytes \<Rightarrow> bytes) \<Rightarrow> lstate \<Rightarrow> bool" where
  "done_well C rp boxes s \<longleftrightarrow> all_well C 0 (ls_log s) \<and> boxes_grew C rp (ls_log s) boxes (ls_boxes s)"

text \<open>The other end: the last delivery tried was a filter that forwarded the message by itself and ended the program.\<close>

definition filter_done :: "lconf \<Rightarrow> bytes \<Rightarrow> (bytes \<Rightarrow> bytes) \<Rightarrow> lstate \<Rightarrow> bool" where
  "filter_done C rp boxes s \<longleftrightarrow>
     ls_queue s = None \<and> filtered C 0 (ls_log s) (ls_exit s) \<and> boxes_grew C rp (ls_log s) boxes (ls_boxes s)"

lemma done_well_cong: "ls_log s' = ls_log s \<Longrightarrow> ls_boxes s' = ls_boxes s \<Longrightarrow> done_well C rp boxes s' = done_well C rp boxes s"
  by (simp add: done_well_def)

lemma follow_effect:
  assumes "follow L C rp ueo cmds (local_start C fo boxes) = (ok, s)"
  shows "filter_done C rp boxes s \<or>
    (ls_exit s \<in> {Some 0, Some 100, Some 111} \<and> (ls_queue s \<noteq> None \<or> ls_exit s = Some 0 \<longrightarrow> done_well C rp boxes s)
    \<and> (ls_exit s = Some 0 \<and> ls_recips s \<noteq> [] \<and> lc_doit C \<and> cstr (take 1023 (fw_custom (lc_fwd C))) \<noteq> [] \<longrightarrow>
        (\<exists>q. ls_queue s = Some q \<and> queued_by C (ls_qqeh s) ueo (ls_recips s) q)))"
proof -
  let ?s = "local_start C fo boxes"
  obtain b s1 where lp: "local_loop C rp True cmds ?s = (b, s1)" by (metis surj_pair)
  have f: "follows C rp b ?s s1" by (rule fl.loop [OF lp])
  have q1: "ls_queue s1 = None" using f by (simp add: follows_def local_start_def)
  show ?thesis
  proof (cases b)
    case False
    then have "s = s1" using assms lp by (simp add: follow_def all_do_simps also_do_def)
    moreover have "ended C rp ?s (ls_log s1) s1" using f False by (simp add: follows_def local_start_def)
    ultimately show ?thesis using q1 by (auto simp: ended_def filter_done_def local_start_def)
  next
    case True
    then have w: "done_well C rp boxes s1" "ls_exit s1 = None"
      using f by (auto simp: follows_def done_well_def local_start_def)
    show ?thesis
    proof (cases "ls_recips s1 \<noteq> [] \<and> lc_doit C")
      case False
      then show ?thesis using assms lp True w q1 by (auto simp: follow_def all_do_simps also_do_def done_well_def)
    next
      case fwd: True
      obtain b2 s2 where mf: "mailforward C ueo s1 = (b2, s2)" by (metis surj_pair)
      note x = mailforward_exit [OF mf] and e = mailforward_effect [OF mf]
      have s: "s = (if b2 then s2\<lparr>ls_out := count_text L C s2, ls_exit := Some 0\<rparr> else s2)"
        using assms lp True fwd mf by (simp add: follow_def all_do_simps also_do_def split: bool.split_asm)
      have "done_well C rp boxes s" using w(1) x s by (simp add: done_well_def)
      then show ?thesis using x e w(2) s by (cases b2) auto
    qed
  qed
qed

lemma local_run_effect:
  assumes s_def: "s = local_run L C rp file boxes"
  shows "filter_done C rp boxes s \<or>
    (ls_exit s \<in> {Some 0, Some 100, Some 111} \<and> (ls_queue s \<noteq> None \<or> ls_exit s = Some 0 \<longrightarrow> done_well C rp boxes s)
    \<and> (ls_exit s = Some 0 \<and> ls_recips s \<noteq> [] \<and> lc_doit C \<and> cstr (take 1023 (fw_custom (lc_fwd C))) \<noteq> [] \<longrightarrow>
        (\<exists>q ueo. new_sender C = Some ueo \<and> ls_queue s = Some q \<and> queued_by C (ls_qqeh s) ueo (ls_recips s) q)))"
proof -
  obtain cmds fo where c: "local_cmds C file = (cmds, fo)" by (metis surj_pair)
  show ?thesis
  proof (cases "new_sender C")
    case None
    then show ?thesis unfolding s_def by (simp add: local_run_def c stop_def local_start_def)
  next
    case (Some ueo)
    obtain ok t where f: "follow L C rp ueo cmds (local_start C fo boxes) = (ok, t)" by (metis surj_pair)
    then have "s = t" using Some unfolding s_def by (simp add: local_run_def c)
    then show ?thesis using follow_effect [OF f] Some by blast
  qed
qed

text \<open>The program stops early or runs the instructions of the file it found.\<close>

lemma local_main_cases:
  obtains (early) c where "local_main L C boxes = snd (stop c (local_start C False boxes))" "c \<in> {100, 111}"
  | (run) rp fl where "local_main L C boxes = local_run L C rp fl boxes" "rp_line L (lc_sender C) = Some rp"
proof -
  have "(\<exists>c. local_main L C boxes = snd (stop c (local_start C False boxes)) \<and> c \<in> {100, 111}) \<or>
      (\<exists>rp file. local_main L C boxes = local_run L C rp file boxes \<and> rp_line L (lc_sender C) = Some rp)"
    using checkhome_code [of L C] bouncexf_code [of C]
    by (auto simp: local_main_def Let_def split: option.split found.split)
  then show ?thesis using early run by blast
qed

section \<open>An example\<close>

definition ex_mboxenv :: mboxenv where
  "ex_mboxenv = \<lparr>me_rewind = True, me_open = True, me_lock = Locked, me_spill = (\<lambda>n. n), me_fault = (\<lambda>n. None),
     me_readerr = (\<lambda>n. False), me_trunc = True\<rparr>"

definition ex_fwd :: fwdenv where
  "ex_fwd = \<lparr>fw_rewind = True, fw_open = True, fw_fdc = True, fw_fault = (\<lambda>n. False), fw_readerr = (\<lambda>n. False),
     fw_srs = (\<lambda>u. SrsKeeps), fw_custom = ''Zx'', fw_waited = True, fw_crashed = False, fw_code = 0, fw_qp = 7\<rparr>"

definition ex_filter :: filtenv where
  "ex_filter = \<lparr>ft_trouble = None, ft_action = ActForward, ft_onmatch = 99, ft_child = Exited 0, ft_verdict = []\<rparr>"

definition ex_qmail :: bytes where
  "ex_qmail = ''# to amy'' @ [LF] @ ''&amy@c.org '' @ [LF] @ ''|prog'' @ [LF]"

definition ex_local :: lconf where
  "ex_local = \<lparr>lc_doit = True, lc_user = ''joe'', lc_homedir = ''/home/joe'', lc_local = ''joe'', lc_dash = [], lc_ext = [],
     lc_host = ''a.org'', lc_sender = ''u@b.org'', lc_aliasempty = ''./Mailbox'', lc_qqeh = [],
     lc_mess = ''Subject: x'' @ [LF, LF] @ ''From me'' @ [LF], lc_sync = True, lc_qtime = ''Thu Jan  1 00:00:00 1970'' @ [LF],
     lc_lower = (\<lambda>c. c), lc_maxdelivered = Some 0, lc_rewind = True, lc_readerr = (\<lambda>n. False),
     lc_home = \<lparr>hm_chdir = True, hm_stat = True, hm_writable = False, hm_sticky = False, hm_localdomains = Some None\<rparr>,
     lc_file = (\<lambda>n. if n = ''.qmail'' then QRegular False False (Some ex_qmail) else QAbsent),
     lc_stat = (\<lambda>n. StatNone), lc_child = (\<lambda>n. Exited 0), lc_filter = (\<lambda>n. ex_filter), lc_envqqeh = (\<lambda>n. None), lc_mbox = (\<lambda>n. ex_mboxenv),
     lc_fwd = ex_fwd\<rparr>"

section \<open>Exit codes\<close>

text \<open>
  C39. \<^verbatim>\<open>qmail-local\<close> always ends. Its code is 0, 100 or 111, which \<^verbatim>\<open>qmail-lspawn\<close> reports as a success, a permanent and a
  temporary failure, unless a filter of the instructions has forwarded the message by itself: then everything
  tried before it went well, and the program ends with the code that the filter was told to use.
\<close>

theorem local_delivery_is_reported:
  "\<exists>c. ls_exit (local_main L C boxes) = Some c \<and>
     (c \<in> {0, 100, 111} \<and>
        take 1 (lspawn_report user \<lparr>ws_crashed = False, ws_code = c\<rparr> out) = (if c = 0 then ''K'' else if c = 100 then ''D'' else ''Z'') \<or>
      (\<exists>ds cmd. ls_log (local_main L C boxes) = ds @ [Filter cmd] \<and> all_well C 0 ds \<and>
         take_action (lc_filter C (length ds)) = FForwarded c))"
proof -
  have "(\<exists>rp. filter_done C rp boxes (local_main L C boxes)) \<or> ls_exit (local_main L C boxes) \<in> {Some 0, Some 100, Some 111}"
  proof (cases rule: local_main_cases [of L C boxes])
    case (early c)
    then show ?thesis by (auto simp: stop_def)
  next
    case (run rp fl)
    then show ?thesis using local_run_effect [of _ L C rp fl boxes] by auto
  qed
  then show ?thesis
  proof
    assume "\<exists>rp. filter_done C rp boxes (local_main L C boxes)"
    then show ?thesis by (auto simp: filter_done_def filtered_def)
  next
    assume "ls_exit (local_main L C boxes) \<in> {Some 0, Some 100, Some 111}"
    then obtain c where "ls_exit (local_main L C boxes) = Some c" "c \<in> {0, 100, 111}" by auto
    moreover from this(2) have "take 1 (lspawn_report user \<lparr>ws_crashed = False, ws_code = c\<rparr> out) =
        (if c = 0 then ''K'' else if c = 100 then ''D'' else ''Z'')"
      by (auto simp: lspawn_report_def qlx_defs Let_def)
    ultimately show ?thesis by blast
  qed
qed

text \<open>
  Such a code need not be one of the three: with the default code 99 the sender is told that the delivery failed, although the
  message was forwarded; with \<^verbatim>\<open>-e 0\<close> the program reports success and drops the recipients that it has collected.
\<close>

definition ex_filter_lines :: bytes where
  "ex_filter_lines = ''&amy@c.org'' @ [LF] @ ''|filterit -a forward'' @ [LF]"

definition ex_filtered :: "int \<Rightarrow> lconf" where
  "ex_filtered n = ex_local\<lparr>lc_file := (\<lambda>n. QRegular False False (Some ex_filter_lines)),
     lc_filter := (\<lambda>k. ex_filter\<lparr>ft_onmatch := n\<rparr>)\<rparr>"

lemma forwarded_and_reported_as_failed:
  "ls_exit (local_main ref_libq (ex_filtered 99) (\<lambda>fn. [])) = Some 99"
  "take 1 (lspawn_report [] \<lparr>ws_crashed = False, ws_code = 99\<rparr> []) = ''D''"
  by code_simp+

lemma recipients_dropped_with_success:
  "ls_exit (local_main ref_libq (ex_filtered 0) (\<lambda>fn. [])) = Some 0"
  "ls_recips (local_main ref_libq (ex_filtered 0) (\<lambda>fn. [])) = [''amy@c.org'']"
  "ls_queue (local_main ref_libq (ex_filtered 0) (\<lambda>fn. [])) = None"
  by code_simp+

section \<open>Success\<close>



section \<open>The instructions\<close>

text \<open>
  C23. Following the instructions of a \<^verbatim>\<open>.qmail\<close> file ends after at most one delivery or recipient per line, whatever its
  branches; the recipients fit the array that the first pass made room for; and a file with the
  executable bit delivers to no file and runs no program.
\<close>

theorem one_delivery_per_line:
  fixes C :: lconf
  assumes s: "s = snd (local_loop C rp True cmds (local_start C fo boxes))"
  shows "length (ls_log s) + length (ls_recips s) \<le> length (filter (\<lambda>c. c = LF) cmds) \<and>
    length (ls_recips s) \<le> count_forwards cmds \<and>
    (fo \<longrightarrow> ls_boxes s = boxes \<and> (\<exists>ds. ls_log s = map Envdir ds))"
proof -
  obtain ok where r: "local_loop C rp True cmds (local_start C fo boxes) = (ok, s)" using s by (metis prod.collapse)
  have "only_forwards ok (local_start C fo boxes) s" by (rule fw.loop [OF r])
  then show ?thesis using loop_tried [OF r] loop_recipients [OF r]
    by (auto simp: tried_def recipients_def only_forwards_def local_start_def)
qed

lemma one_delivery_per_line_witness:
  "ls_log (snd (local_loop ex_local [] True (''&amy'' @ [LF] @ ''|prog'' @ [LF]) (local_start ex_local True (\<lambda>fn. [])))) = []"
proof -
  let ?s = "snd (local_loop ex_local [] True (''&amy'' @ [LF] @ ''|prog'' @ [LF]) (local_start ex_local True (\<lambda>fn. [])))"
  have "ls_count_program ?s = 1" "ls_exit ?s = Some 111" "length (ls_recips ?s) = 1" by code_simp+
  moreover have "count_forwards (''&amy'' @ [LF] @ ''|prog'' @ [LF]) = 1" by code_simp
  moreover obtain ds where "ls_log ?s = map Envdir ds"
    using one_delivery_per_line [OF refl, of ex_local "[]" "''&amy'' @ [LF] @ ''|prog'' @ [LF]" True "\<lambda>fn. []"] by blast
  moreover have "ls_log ?s = [] \<or> hd (ls_log ?s) = Program ''prog''" by code_simp
  ultimately show ?thesis by (cases ds) auto
qed

section \<open>Mail loops\<close>

text \<open>
  C36. A message that an address forwards and that comes back is forwarded at most as often as \<^verbatim>\<open>maxdeliveredto\<close> allows:
  whatever header lines it gathers on its way, after one forwarding more than the limit the program
  rejects it with code 100, delivers it nowhere and forwards it no further.
\<close>

theorem forwarding_loops_end:
  fixes C :: "nat \<Rightarrow> lconf"
  assumes fwd: "\<And>i. i < n \<Longrightarrow> queued_by (C i) (qqeh i) (ueo i) (rs i) (q i)"
    and same: "\<And>i. lc_local (C i) = loc \<and> lc_host (C i) = host"
    and tidy: "\<And>i. i < n \<Longrightarrow> header_part (cstr (qqeh i)) \<and> LF \<notin> set (ueo i) \<and> list_all (\<lambda>r. LF \<notin> set r) (rs i)"
    and hop: "\<And>i. i < n \<Longrightarrow> header_part (pre i) \<and> lc_mess (C (Suc i)) = pre i @ qq_mess (q i)"
    and lim: "lc_maxdelivered (C n) = Some k" "0 \<le> k" "k < int n"
    and run: "checkhome L (C n) = None" "lc_doit (C n)" "lc_rewind (C n)" "\<And>j. \<not> lc_readerr (C n) j"
  shows "ls_exit (local_main L (C n) boxes) = Some 100 \<and> ls_log (local_main L (C n) boxes) = [] \<and>
    ls_queue (local_main L (C n) boxes) = None"
proof -
  let ?dt = "dt_line loc host"
  have "i \<le> n \<Longrightarrow> i \<le> visits ?dt (lc_mess (C i))" for i
  proof (induction i)
    case (Suc i)
    have "visits ?dt (lc_mess (C i)) + 1 \<le> visits ?dt (qq_mess (q i))"
      using visits_forwarded [of "rs i" "ueo i" "qqeh i" "C i"] tidy [of i] fwd [of i] same Suc.prems
      by (simp add: queued_by_def)
    moreover have "visits ?dt (qq_mess (q i)) \<le> visits ?dt (lc_mess (C (Suc i)))"
      using hop [of i] Suc.prems visits_part by simp
    ultimately show ?case using Suc by simp
  qed simp
  from this [of n] have "bouncexf (C n) = Some 100"
    using lim run(3,4) same [of n] by (simp add: bouncexf_def bounce_loop_visits)
  then show ?thesis using run(1,2) by (simp add: local_main_def Let_def stop_def local_start_def)
qed

lemma forwarding_loops_end_witness:
  "\<exists>q. ls_queue (local_main ref_libq ex_local (\<lambda>fn. [])) = Some q \<and>
     ls_exit (local_main ref_libq (ex_local\<lparr>lc_mess := ''Received: x'' @ [LF] @ qq_mess q\<rparr>) (\<lambda>fn. [])) = Some 100"
proof -
  let ?s = "local_main ref_libq ex_local (\<lambda>fn. [])"
  have e: "ls_exit ?s = Some 0" "ls_recips ?s = [''amy@c.org'']" "ls_qqeh ?s = []" by code_simp+
  have c: "cstr (take 1023 (fw_custom (lc_fwd ex_local))) \<noteq> []" by code_simp
  have ns: "new_sender ex_local = Some ''u@b.org''" and l: "ls_log ?s = [Program ''prog'']" by code_simp+
  obtain rp fl where r: "?s = local_run ref_libq ex_local rp fl (\<lambda>fn. [])"
    using e(1) by (cases rule: local_main_cases [of ref_libq ex_local "\<lambda>fn. []"]) (auto simp: stop_def)
  obtain q where q: "ls_queue ?s = Some q" "queued_by ex_local [] ''u@b.org'' [''amy@c.org''] q"
    using local_run_effect [OF r] e c ns l by (auto simp: ex_local_def filter_done_def filtered_def)
  let ?C = "\<lambda>i::nat. if i = 0 then ex_local else ex_local\<lparr>lc_mess := ''Received: x'' @ [LF] @ qq_mess q\<rparr>"
  have h: "header_part (''Received: x'' @ [LF])"
    by (rule header_part_line) (simp_all add: is_line_def)
  have ch: "checkhome ref_libq (?C 1) = None" by (simp add: checkhome_def Let_def ex_local_def)
  have "ls_exit (local_main ref_libq (?C 1) (\<lambda>fn. [])) = Some 100"
    by (rule forwarding_loops_end [where n = 1 and qqeh = "\<lambda>i. []" and ueo = "\<lambda>i. ''u@b.org''"
        and rs = "\<lambda>i. [''amy@c.org'']" and q = "\<lambda>i. q" and loc = "''joe''" and host = "''a.org''"
        and pre = "\<lambda>i. ''Received: x'' @ [LF]" and k = 0, THEN conjunct1])
       (use q(2) h ch in \<open>simp_all add: header_part_Nil cstr_def ex_local_def\<close>)
  then show ?thesis using q(1) by simp
qed

section \<open>The search for the file\<close>

text \<open>The names in the order of \<^verbatim>\<open>dot-qmail(5)\<close>: the address itself, then the longest prefix that ends at a dash.\<close>

definition qme_names :: "lconf \<Rightarrow> bytes list" where
  "qme_names C = qme_name C (safeext C) #
     map (\<lambda>i. qme_name C (take i (safeext C) @ ''default''))
       (filter (\<lambda>i. i = 0 \<or> safeext C ! (i - 1) = CHR ''-'') (rev [0..<Suc (length (safeext C))]))"

definition settled :: "lconf \<Rightarrow> bytes option \<Rightarrow> found \<Rightarrow> bool" where
  "settled C fn r \<longleftrightarrow>
     (case fn of
        None \<Rightarrow> r = FoundNone
      | Some n \<Rightarrow> (case qmeexists C n of
          QmeDie \<Rightarrow> r = FoundDie
        | QmeYes cutable text \<Rightarrow> \<exists>d. r = Found n cutable text d
        | QmeNo \<Rightarrow> False))"

lemma qme_default_settled:
  "settled C (find (\<lambda>fn. qmeexists C fn \<noteq> QmeNo)
      (map (\<lambda>i. qme_name C (take i (safeext C) @ ''default''))
         (filter (\<lambda>i. i = 0 \<or> safeext C ! (i - 1) = CHR ''-'') (rev [0..<Suc i])))) (qme_default_loop C i)"
proof (induction i)
  case 0
  then show ?case by (subst qme_default_loop.simps) (auto simp: settled_def split: qme.split)
next
  case (Suc i)
  let ?fn = "qme_name C (take (Suc i) (safeext C) @ ''default'')"
  show ?case
  proof (cases "safeext C ! i = CHR ''-'' \<and> qmeexists C ?fn \<noteq> QmeNo")
    case True
    then show ?thesis by (subst qme_default_loop.simps) (auto simp: settled_def Let_def split: qme.split)
  next
    case False
    then have "qme_default_loop C (Suc i) = qme_default_loop C i"
      by (subst qme_default_loop.simps) (auto simp: Let_def split: qme.split)
    then show ?thesis using Suc False by auto
  qed
qed

text \<open>
  C29. \<^verbatim>\<open>qmesearch\<close> uses the first file of the documented list that exists, is a regular file and is readable, stops
  with a temporary error at one that cannot be examined or that others may write to, and looks at no other name; the
  part of a name that comes from the address never contains a dot.
\<close>

theorem qmail_file_search:
  "settled C (find (\<lambda>fn. qmeexists C fn \<noteq> QmeNo) (qme_names C)) (qmesearch C) \<and>
   list_all (\<lambda>fn. \<exists>x. fn = ''.qmail'' @ lc_dash C @ x \<and> CHR ''.'' \<notin> set x) (qme_names C)"
proof
  show "settled C (find (\<lambda>fn. qmeexists C fn \<noteq> QmeNo) (qme_names C)) (qmesearch C)"
    using qme_default_settled [of C "length (safeext C)"]
    by (cases "qmeexists C (qme_name C (safeext C))") (simp_all add: qme_names_def qmesearch_def settled_def Let_def)
  have s: "CHR ''.'' \<notin> set (safeext C)" by (auto simp: safeext_def)
  moreover have "CHR ''.'' \<notin> set (take i (safeext C) @ ''default'')" for i using s by (auto dest: in_set_takeD)
  ultimately show "list_all (\<lambda>fn. \<exists>x. fn = ''.qmail'' @ lc_dash C @ x \<and> CHR ''.'' \<notin> set x) (qme_names C)"
    by (auto simp: qme_names_def qme_name_def list_all_iff)
qed

section \<open>Maildirs\<close>

definition ex_mdenv :: mdenv where
  "ex_mdenv = \<lparr>md_chdir = None, md_host = ''h'', md_pid = 9, md_time = (\<lambda>n. (5, 6)), md_open = (\<lambda>n. Opened), md_xlong = (\<lambda>n. ''a''),
     md_ino = 1, md_dev = 2, md_spill = (\<lambda>n. n), md_fault = (\<lambda>n. None), md_chunk = (\<lambda>n. 4), md_readerr = (\<lambda>n. False),
     md_alarm = None\<rparr>"

definition ex_local_msg :: msg where
  "ex_local_msg = \<lparr>ms_ufline = ''From u'' @ [LF], ms_rpline = ''R'' @ [LF], ms_dtline = ''D'' @ [LF], ms_qqeh = [], ms_mess = ''x'' @ [LF],
     ms_sync = True\<rparr>"

text \<open>
  C20. At every moment of a delivery to a maildir, whatever fails and wherever the machine stops, a name of \<^verbatim>\<open>new/\<close> that was not
  there before stands for the whole message (on disk, when that is asked for), and the files that were there are as before.
  At the end the message is in \<^verbatim>\<open>new/\<close> if the exit code is 0; with another code no name of \<^verbatim>\<open>new/\<close> has changed, with two
  exceptions in which the message has been delivered and will be delivered again: with code 1 or 5 when the directory could not be
  synced after the link was made (\<open>md_late\<close>: \<^verbatim>\<open>link\<close> of \<^verbatim>\<open>syncdir.c\<close> fails), with code 3 when the alarm rings between the
  link and the end of the process.
\<close>

theorem maildir_is_reliable:
  assumes "maildir_deliver L E h = (c, p @ r)"
  shows "only_whole_new h fs (mf_run p fs) \<and> 
    (c = 0 \<longrightarrow> in_new_now h fs (mf_run (p @ r) fs)) \<and>
    (c \<noteq> 0 \<longrightarrow> same_new fs (mf_run (p @ r) fs) \<or>
       in_new_now h fs (mf_run (p @ r) fs) \<and> (c = 3 \<and> md_alarm E \<noteq> None \<or> c \<in> {1, 5} \<and> md_late E))"
  using maildir_at_every_moment [OF assms, of fs] maildir_at_the_end [OF assms, of fs] by (auto simp: md_fate_def)

lemma maildir_is_reliable_witness:
  "in_new_now ex_local_msg \<lparr>mf_names = (\<lambda>n. None), mf_data = (\<lambda>i. []), mf_synced = (\<lambda>i. True), mf_next = 0\<rparr>
     (mf_run (snd (maildir_deliver ref_libq ex_mdenv ex_local_msg))
        \<lparr>mf_names = (\<lambda>n. None), mf_data = (\<lambda>i. []), mf_synced = (\<lambda>i. True), mf_next = 0\<rparr>)"
proof -
  have "md_fine ex_mdenv" by (simp add: md_fine_def ex_mdenv_def)
  then have "maildir_deliver ref_libq ex_mdenv ex_local_msg = (0, snd (maildir_deliver ref_libq ex_mdenv ex_local_msg) @ [])"
    using maildir_fine by (simp add: prod_eq_iff)
  from maildir_is_reliable [OF this] show ?thesis by simp
qed

text \<open>Both exceptions do occur.\<close>

lemma delivered_with_an_error:
  "fst (maildir_deliver ref_libq (ex_mdenv\<lparr>md_fault := \<lambda>n. if n = 8 then Some (1, False) else None\<rparr>) ex_local_msg) = 1"
  "fst (maildir_deliver ref_libq (ex_mdenv\<lparr>md_alarm := Some 9\<rparr>) ex_local_msg) = 3"
  by code_simp+

section \<open>Mbox files\<close>

text \<open>The lines that \<^verbatim>\<open>main\<close> writes before a message make a good head.\<close>

lemma good_local_head:
  assumes "rp_line L (lc_sender C) = Some rp" "is_line (lc_qtime C)" "whole (cstr q)"
    "list_all (\<lambda>l. \<not> gfrom l) (msg_lines (cstr q))"
  shows "good_head (local_msg C rp q)"
proof -
  obtain k where k: "lc_qtime C = k @ [LF]" "LF \<notin> set k" using assms(2) by (auto simp: is_line_def)
  have m: "LF \<notin> set (map no_blank x)" "LF \<notin> set (map no_lf x)" for x by (auto simp: no_blank_def no_lf_def)
  have uf: "is_line (uf_line (lc_sender C) (lc_qtime C))"
    unfolding is_line_def uf_line_def k(1)
    by (rule exI [of _ "''From '' @ (if lc_sender C \<noteq> [] then map no_blank (lc_sender C) else ''MAILER-DAEMON '') @ k"])
       (use k(2) m in auto)
  have fl: "from_line (uf_line (lc_sender C) (lc_qtime C))" by (simp add: from_line_def uf_line_def)
  obtain x where rp: "rp = map no_lf (''Return-Path: <'' @ x) @ CHR ''>'' # [LF]"
    using assms(1) by (auto simp: rp_line_def)
  have r: "is_line rp" unfolding is_line_def rp
    by (rule exI [of _ "map no_lf (''Return-Path: <'' @ x) @ [CHR ''>'']"]) (auto simp: no_lf_def)
  let ?dt = "dt_line (lc_local C) (lc_host C)"
  have d: "is_line ?dt" by (rule dt_line_is_line)
  have "\<not> gfrom rp" by (simp add: rp no_lf_def)
  moreover have "\<not> gfrom ?dt" by (simp add: dt_line_def no_lf_def)
  ultimately show ?thesis using uf fl assms(3,4) r d
    by (simp add: good_head_def local_msg_def mbox_head_def msg_lines_line whole_append is_line_whole)
qed

text \<open>
  C9. An mbox file that \<^verbatim>\<open>qmail-local\<close> made and locked holds exactly the messages whose delivery succeeded, each with its own
  \<^verbatim>\<open>Return-Path\<close> and \<^verbatim>\<open>Delivered-To\<close> lines and its bytes unchanged, with a line feed at the end: reading the file by
  the rules of \<^verbatim>\<open>mbox(5)\<close> returns them, in order, whatever the senders and the messages contain and whichever deliveries
  failed half-way.
\<close>

theorem mbox_holds_what_was_delivered:
  assumes "\<forall>(E, h) \<in> set ds. me_lock E = Locked \<and> me_trunc E \<and> (\<exists>L C rp q. h = local_msg C rp q \<and>
      rp_line L (lc_sender C) = Some rp \<and> is_line (lc_qtime C) \<and> whole (cstr q) \<and> list_all (\<lambda>l. \<not> gfrom l) (msg_lines (cstr q)))"
    and "mbox_deliver ds [] = (cs, new)"
  shows "mbox_messages new = [(ms_ufline h, mbox_head h @ completed (ms_mess h)). ((E, h), None) \<leftarrow> zip ds cs]"
proof -
  let ?hs = "[h. ((E, h), None) \<leftarrow> zip ds cs]"
  have "list_all (\<lambda>(E, h). me_lock E = Locked \<and> me_trunc E) ds" using assms(1) by (auto simp: list_all_iff)
  from mbox_deliver_texts [OF this assms(2)] have n: "new = concat (map mbox_text ?hs)" by simp
  have "\<forall>(E, h) \<in> set ds. good_head h" using assms(1) good_local_head by fastforce
  then have "list_all good_head ?hs"
    by (auto simp: list_all_iff split: option.splits dest!: set_zip_leftD)
  then have "mbox_messages new = map (\<lambda>h. (ms_ufline h, mbox_head h @ completed (ms_mess h))) ?hs"
    unfolding n by (rule mbox_messages_texts)
  then show ?thesis by (simp add: map_concat o_def prod.case_distrib option.case_distrib cong: prod.case_cong option.case_cong)
qed

lemma mbox_holds_what_was_delivered_witness:
  "mbox_messages (snd (mbox_deliver [(ex_mboxenv, local_msg ex_local (''Return-Path: <u@b.org>'' @ [LF]) [])] [])) =
     [(uf_line ''u@b.org'' (lc_qtime ex_local),
       ''Return-Path: <u@b.org>'' @ [LF] @ dt_line ''joe'' ''a.org'' @ completed (lc_mess ex_local))]"
proof -
  let ?h = "local_msg ex_local (''Return-Path: <u@b.org>'' @ [LF]) []"
  have f: "mbox_fine ex_mboxenv" by (simp add: mbox_fine_def ex_mboxenv_def)
  have d: "mbox_deliver [(ex_mboxenv, ?h)] [] = ([None], mbox_text ?h)" by (simp add: mailfile_fine [OF f])
  have r: "rp_line ref_libq (lc_sender ex_local) = Some (''Return-Path: <u@b.org>'' @ [LF])" by code_simp
  have q: "is_line (lc_qtime ex_local)" by (simp add: ex_local_def is_line_def)
  have "mbox_messages (mbox_text ?h) = [(ms_ufline ?h, mbox_head ?h @ completed (ms_mess ?h))]"
    by (subst mbox_holds_what_was_delivered [OF _ d])
       (use r q in \<open>auto simp: ex_mboxenv_def whole_def cstr_def intro!: exI\<close>)
  then show ?thesis unfolding d by (simp add: local_msg_def mbox_head_def cstr_def ex_local_def)
qed

section \<open>Where the code does not do what its manual says\<close>

text \<open>
  The label that ends a jump is compared only as far as the label of the target goes: \<^verbatim>\<open>?foobar\<close> stops at \<^verbatim>\<open>:foo\<close>, and any
  branch at a line that is just a colon.
\<close>

lemma jump_to_a_shorter_label:
  "label_found ''foobar'' ('':foo'' @ [LF]) \<and> label_found ''foobar'' ('':'' @ [LF])"
  by (simp add: label_found_def label_end_def)

text \<open>Between the sender and the date of the \<^verbatim>\<open>From\<close> line there is no space unless the date begins with one.\<close>

lemma sender_runs_into_the_date: "uf_line ''u@b.org'' ''Thu Jan'' = ''From u@b.orgThu Jan''"
  by (simp add: uf_line_def no_blank_def)

end
