(* ===== verification/Ip6.thy ===== *)
theory Ip6
  imports Ip4
begin

text \<open>
  IPv6 addresses as text: the rest of \<^verbatim>\<open>indimail-mta-x/ip.c\<close>. As in \<^verbatim>\<open>Ip4\<close>, a pointer into a C string is the
  list of the bytes up to its NUL, and a scanner returns the number of bytes it read and the address, nothing for 0.
\<close>

type_synonym ip6 = "nat list"     \<comment> \<open>the sixteen bytes \<^verbatim>\<open>d[]\<close>\<close>

definition ip6_ok :: "ip6 \<Rightarrow> bool" where
  "ip6_ok ip \<longleftrightarrow> length ip = 16 \<and> (\<forall>d \<in> set ip. d \<le> 255)"

text \<open>The functions on hexadecimal numbers of \<^verbatim>\<open>libqmail\<close>, parameters with their documented laws.\<close>

record hexlib =
  hx_fmt_xlong :: "nat \<Rightarrow> bytes"
  hx_scan_xlong :: "bytes \<Rightarrow> nat \<times> nat"      \<comment> \<open>digits read and their value\<close>
  hx_fmt_hexbyte :: "nat \<Rightarrow> bytes"

definition hex_val :: "char \<Rightarrow> nat option" where
  "hex_val c =
     (let n = of_char c :: nat
      in if 48 \<le> n \<and> n \<le> 57 then Some (n - 48)
         else if 97 \<le> n \<and> n \<le> 102 then Some (n - 87)
         else if 65 \<le> n \<and> n \<le> 70 then Some (n - 55) else None)"

definition is_hex :: "char \<Rightarrow> bool" where
  "is_hex c \<longleftrightarrow> hex_val c \<noteq> None"

locale hexnum =
  fixes X :: hexlib
  assumes fmt_xlong_digits: "hx_fmt_xlong X n \<noteq> [] \<and> list_all is_hex (hx_fmt_xlong X n)"
    and fmt_xlong_len: "n < 16 ^ k \<Longrightarrow> 0 < k \<Longrightarrow> length (hx_fmt_xlong X n) \<le> k"
    and scan_xlong_len: "fst (hx_scan_xlong X s) = length (takeWhile is_hex s)"
    and scan_xlong: "t = [] \<or> \<not> is_hex (hd t) \<Longrightarrow>
      hx_scan_xlong X (hx_fmt_xlong X n @ t) = (length (hx_fmt_xlong X n), n)"
    and fmt_hexbyte_len: "length (hx_fmt_hexbyte X n) = 2"

section \<open>Printing\<close>

definition V4mappedprefix :: "nat list" where
  "V4mappedprefix = [0, 0, 0, 0, 0, 0, 0, 0, 0, 0, 255, 255]"

definition V6any :: "nat list" where
  "V6any = replicate 16 0"

text \<open>
  The loop of \<^verbatim>\<open>ip6_fmt\<close>: \<open>ip\<close> is the address, the list what is left of it from byte \<^verbatim>\<open>j\<close> on. The flags
  are \<^verbatim>\<open>compressing\<close> and \<^verbatim>\<open>compressed\<close>.
\<close>

fun ip6_groups :: "libq \<Rightarrow> hexlib \<Rightarrow> ip6 \<Rightarrow> nat list \<Rightarrow> bool \<Rightarrow> bool \<Rightarrow> bytes" where
  "ip6_groups L X ip (a # b # r) compressing compressed =
     (let j = length ip - length (a # b # r); temp = a * 256 + b
      in if j = 12 \<and> take 12 ip = V4mappedprefix
         then ip4_fmt L (drop 12 ip) @ (if compressing then '':'' else [])
         else if temp = 0 \<and> \<not> compressed
         then (if \<not> compressing \<and> j = 0 then '':'' else []) @ ip6_groups L X ip r True compressed
         else (if compressing then '':'' else []) @ hx_fmt_xlong X temp @ (if j < 14 then '':'' else []) @
           ip6_groups L X ip r False (compressed \<or> compressing))"
| "ip6_groups L X ip r compressing compressed = (if compressing then '':'' else [])"

definition ip6_fmt :: "libq \<Rightarrow> hexlib \<Rightarrow> ip6 \<Rightarrow> bytes" where
  "ip6_fmt L X ip = ip6_groups L X ip ip False False"

text \<open>What \<^verbatim>\<open>ip6_fmt_flat\<close> and \<^verbatim>\<open>ip6_fmt_exp\<close> write, and the length they return.\<close>

definition ip6_fmt_flat :: "hexlib \<Rightarrow> ip6 \<Rightarrow> bytes \<times> nat" where
  "ip6_fmt_flat X ip = (let s = concat (map (hx_fmt_hexbyte X) ip) in (s, length s - 1))"

definition ip6_fmt_exp :: "hexlib \<Rightarrow> ip6 \<Rightarrow> bytes \<times> nat" where
  "ip6_fmt_exp X ip =
     (let s = concat (map (\<lambda>j. hx_fmt_hexbyte X (ip ! (2 * j)) @ hx_fmt_hexbyte X (ip ! (2 * j + 1)) @ '':'') [0..<8])
      in (s, length s - 1))"

section \<open>Reading\<close>

definition char_at :: "bytes \<Rightarrow> nat \<Rightarrow> char" where
  "char_at s i = (if i < length s then s ! i else NUL)"

definition two_bytes :: "nat \<Rightarrow> nat list" where
  "two_bytes u = [u div 256 mod 256, u mod 256]"     \<comment> \<open>\<^verbatim>\<open>u >> 8\<close> and \<^verbatim>\<open>u & 255\<close>, each stored in a byte\<close>

text \<open>
  The part after the two colons, one round of its loop: the result, or where the next round reads, \<^verbatim>\<open>len\<close>,
  \<^verbatim>\<open>prefixlen\<close> (changed when a dot follows that is not part of an IPv4 address) and the buffer \<^verbatim>\<open>suffix\<close>.
\<close>

definition suffix_round ::
  "libq \<Rightarrow> hexlib \<Rightarrow> bytes \<Rightarrow> nat \<Rightarrow> nat \<Rightarrow> nat list \<Rightarrow> (nat \<times> nat list) + (bytes \<times> nat \<times> nat \<times> nat list)" where
  "suffix_round L X s len prefixlen suffix =
     (if (char_at s 0 = CHR '':'') = (suffix = []) then Inl (len, suffix)
      else
        let s = (if char_at s 0 = CHR '':'' then tl s else s);
            len = (if suffix = [] then len else len + 1);
            (i, u) = hx_scan_xlong X s
        in if i = 0 then Inl (len - 1, suffix)
           else
             let dotted = (length suffix + prefixlen \<le> 12 \<and> char_at s i = CHR ''.'') in
             case (if dotted then ip4_scan L s else None) of
               Some (j, d) \<Rightarrow> Inl (len + j, suffix @ d)
             | None \<Rightarrow>
                 let prefixlen = (if dotted then 12 - length suffix else prefixlen)
                 in if prefixlen + length suffix + 2 = 16 then Inl (len + i, suffix @ two_bytes u)
                    else Inr (drop i s, len + i, prefixlen, suffix @ two_bytes u))"

lemma two_bytes_length [simp]: "length (two_bytes u) = 2" "two_bytes u \<noteq> []"
  by (simp_all add: two_bytes_def)

lemma suffix_round_grows:
  "suffix_round L X s len p suffix = Inr (s', len', p', suffix') \<Longrightarrow> \<exists>u. suffix' = suffix @ two_bytes u"
  by (auto simp: suffix_round_def Let_def split: if_splits prod.splits option.splits)

text \<open>The guard on the buffer \<^verbatim>\<open>suffix[16]\<close> is not in the code: it is never met (\<open>suffix_room\<close> below).\<close>

function scan_suffix :: "libq \<Rightarrow> hexlib \<Rightarrow> bytes \<Rightarrow> nat \<Rightarrow> nat \<Rightarrow> nat list \<Rightarrow> nat \<times> nat list" where
  "scan_suffix L X s len prefixlen suffix =
     (if 16 \<le> length suffix then (len, suffix)
      else case suffix_round L X s len prefixlen suffix of
             Inl r \<Rightarrow> r
           | Inr (s', len', prefixlen', suffix') \<Rightarrow> scan_suffix L X s' len' prefixlen' suffix')"
  by pat_completeness auto
termination
  by (relation "measure (\<lambda>(L, X, s, len, prefixlen, suffix). 16 - length suffix)") (auto dest: suffix_round_grows)

declare scan_suffix.simps [simp del]

text \<open>
  The part before them, when the text does not start with the two colons: one round of its loop, as above. \<open>pre\<close> is the part
  of the address that is written.
\<close>

definition prefix_round ::
  "libq \<Rightarrow> hexlib \<Rightarrow> bytes \<Rightarrow> nat \<Rightarrow> nat list \<Rightarrow> (nat \<times> ip6) option + (bytes \<times> nat \<times> nat list)" where
  "prefix_round L X s len pre =
     (let colon = (char_at s 0 = CHR '':'');
          s = (if colon then tl s else s);
          len = (if colon then len + 1 else len);
          (i, u) = hx_scan_xlong X s
      in if i = 0 then Inl None
         else if length pre = 12 \<and> char_at s i = CHR ''.'' then Inl (map_option (\<lambda>(j, d). (j + len, pre @ d)) (ip4_scan L s))
         else if length pre + 2 = 16 then Inl (Some (len + i, pre @ two_bytes u))
         else Inr (drop i s, len + i, pre @ two_bytes u))"

lemma prefix_round_grows:
  "prefix_round L X s len pre = Inr (s', len', pre') \<Longrightarrow> \<exists>u. pre' = pre @ two_bytes u"
  by (auto simp: prefix_round_def Let_def split: if_splits prod.splits)

text \<open>
  The whole loop and the end of the function. The bytes of the address that were not written are 0; a long suffix
  overwrites the end of the prefix. The guard on \<^verbatim>\<open>d[16]\<close> is not in the code either.
\<close>

function scan_prefix :: "libq \<Rightarrow> hexlib \<Rightarrow> bytes \<Rightarrow> nat \<Rightarrow> nat list \<Rightarrow> (nat \<times> ip6) option" where
  "scan_prefix L X s len pre =
     (if 16 \<le> length pre then None
      else if char_at s 0 = CHR '':'' \<and> char_at s 1 = CHR '':'' then
        let (n, suffix) = scan_suffix L X (drop 2 s) (len + 2) (length pre) []
        in Some (n, take (16 - length suffix) (pre @ replicate (16 - length pre) 0) @ suffix)
      else case prefix_round L X s len pre of
             Inl r \<Rightarrow> r
           | Inr (s', len', pre') \<Rightarrow> scan_prefix L X s' len' pre')"
  by pat_completeness auto
termination
  by (relation "measure (\<lambda>(L, X, s, len, pre). 16 - length pre)") (auto dest: prefix_round_grows)

declare scan_prefix.simps [simp del]

definition ip6_scan :: "libq \<Rightarrow> hexlib \<Rightarrow> bytes \<Rightarrow> (nat \<times> ip6) option" where
  "ip6_scan L X s =
     (case ip4_scan L s of
        Some (i, d) \<Rightarrow> Some (i, take 12 (if d = take 4 V6any then V6any else V4mappedprefix) @ d)
      | None \<Rightarrow> scan_prefix L X s 0 [])"

definition ip6_scanbracket :: "libq \<Rightarrow> hexlib \<Rightarrow> bytes \<Rightarrow> (nat \<times> ip6) option" where
  "ip6_scanbracket L X s =
     (if char_at s 0 \<noteq> CHR ''['' then None
      else case ip6_scan L X (tl s) of None \<Rightarrow> None
           | Some (len, ip) \<Rightarrow>
             if len = 0 \<or> char_at s (len + 1) \<noteq> CHR '']'' then None else Some (len + 2, ip))"


section \<open>Buffers\<close>

lemma two_bytes_le [simp]: "d \<in> set (two_bytes u) \<Longrightarrow> d \<le> 255"
  by (auto simp: two_bytes_def)

lemma two_bytes_all [simp]: "\<forall>d \<in> set (two_bytes u). d \<le> 255"
  by simp

definition suffix_fits :: "nat \<Rightarrow> nat list \<Rightarrow> bool" where
  "suffix_fits p suffix \<longleftrightarrow> even (length suffix) \<and> even p \<and> length suffix + p < 16 \<and> (\<forall>d \<in> set suffix. d \<le> 255)"

lemma even_room: "even a \<Longrightarrow> even b \<Longrightarrow> a + b < 16 \<Longrightarrow> a + b + 2 \<le> 16" for a b :: nat
  by presburger

lemma suffix_fits_two: "suffix_fits p suffix \<Longrightarrow> length suffix + p + 2 \<le> 16"
  using even_room by (auto simp: suffix_fits_def)

lemma suffix_round_stop:
  assumes "suffix_round L X s len p suffix = Inl (n, r)" "suffix_fits p suffix"
  shows "length r + p \<le> 16 \<and> (\<forall>d \<in> set r. d \<le> 255)"
  using assms suffix_fits_two [OF assms(2)]
  by (auto simp: suffix_round_def suffix_fits_def ip4_ok_def Let_def split: if_splits prod.splits option.splits dest!: ip4_scan_ok)

lemma suffix_round_next:
  assumes "suffix_round L X s len p suffix = Inr (s', len', p', suffix')" "suffix_fits p suffix"
  shows "suffix_fits p' suffix' \<and> p \<le> p'"
proof -
  obtain u where u: "suffix' = suffix @ two_bytes u" using suffix_round_grows [OF assms(1)] by blast
  have p': "p' = p \<or> length suffix + p \<le> 12 \<and> p' = 12 - length suffix" and ne: "p' + length suffix + 2 \<noteq> 16"
    using assms(1) by (auto simp: suffix_round_def Let_def split: if_splits prod.splits option.splits)
  have "even p'" "length suffix + p' < 16" "p \<le> p'"
    using p' assms(2) by (auto simp: suffix_fits_def)
  moreover have "length suffix + p' + 2 < 16"
    using calculation ne assms(2) even_room [of "length suffix" p'] by (simp add: suffix_fits_def)
  ultimately show ?thesis using assms(2) u by (auto simp: suffix_fits_def)
qed

text \<open>The buffer of the suffix has room: with the prefix it is never more than the address.\<close>

lemma suffix_room:
  "suffix_fits p suffix \<Longrightarrow> length (snd (scan_suffix L X s len p suffix)) + p \<le> 16 \<and>
     (\<forall>d \<in> set (snd (scan_suffix L X s len p suffix)). d \<le> 255)"
proof (induction L X s len p suffix rule: scan_suffix.induct)
  case (1 L X s len p suffix)
  have l: "\<not> 16 \<le> length suffix" using "1.prems" by (auto simp: suffix_fits_def)
  show ?case
  proof (cases "suffix_round L X s len p suffix")
    case (Inl r)
    then show ?thesis
      using suffix_round_stop [of L X s len p suffix "fst r" "snd r"] "1.prems" l by (simp add: scan_suffix.simps [of _ _ s])
  next
    case (Inr x)
    obtain s' len' p' suffix' where x: "x = (s', len', p', suffix')" by (cases x)
    have "scan_suffix L X s len p suffix = scan_suffix L X s' len' p' suffix'"
      using l Inr x by (subst scan_suffix.simps) simp
    then show ?thesis
      using "1.IH" [OF l Inr x [symmetric]] suffix_round_next [OF Inr [unfolded x] "1.prems"] x by force
  qed
qed

lemma scan_prefix_ok:
  "even (length pre) \<Longrightarrow> \<forall>d \<in> set pre. d \<le> 255 \<Longrightarrow> scan_prefix L X s len pre = Some (n, ip) \<Longrightarrow> ip6_ok ip"
proof (induction L X s len pre rule: scan_prefix.induct)
  case (1 L X s len pre)
  have l: "\<not> 16 \<le> length pre" using "1.prems"(3) by (auto simp: scan_prefix.simps [of _ _ s] split: if_splits)
  show ?case
  proof (cases "char_at s 0 = CHR '':'' \<and> char_at s 1 = CHR '':''")
    case True
    have f: "suffix_fits (length pre) []" using "1.prems"(1) l by (simp add: suffix_fits_def)
    show ?thesis
      using "1.prems"(2,3) l True suffix_room [OF f, of L X "drop 2 s" "len + 2"]
      by (auto simp: scan_prefix.simps [of _ _ s] ip6_ok_def split: prod.splits dest!: in_set_takeD)
  next
    case False
    show ?thesis
    proof (cases "prefix_round L X s len pre")
      case (Inl r)
      then have r: "r = Some (n, ip)" using "1.prems"(3) False l by (auto simp: scan_prefix.simps [of _ _ s])
      show ?thesis
        using Inl [unfolded r] "1.prems"(2)
        by (auto simp: prefix_round_def ip6_ok_def ip4_ok_def Let_def split: if_splits prod.splits dest!: ip4_scan_ok)
    next
      case (Inr x)
      obtain s' len' pre' where x: "x = (s', len', pre')" by (cases x)
      obtain u where u: "pre' = pre @ two_bytes u" using prefix_round_grows [OF Inr [unfolded x]] by blast
      have "scan_prefix L X s' len' pre' = Some (n, ip)"
        using "1.prems"(3) False l Inr x by (simp add: scan_prefix.simps [of _ _ s] split: if_splits)
      moreover have "even (length pre')" "\<forall>d \<in> set pre'. d \<le> 255" using "1.prems"(1,2) u by (auto simp: two_bytes_le)
      ultimately show ?thesis using "1.IH" [OF l False Inr] x by auto
    qed
  qed
qed

lemma ip6_scan_ok:
  assumes "ip6_scan L X s = Some (n, ip)"
  shows "ip6_ok ip"
proof (cases "ip4_scan L s")
  case None
  then show ?thesis using assms scan_prefix_ok [of "[]" L X s 0 n ip] by (simp add: ip6_scan_def)
next
  case (Some x)
  obtain i d where x: "x = (i, d)" by (cases x)
  have v: "length (take 12 V6any) = 12" "length (take 12 V4mappedprefix) = 12"
    "\<forall>x \<in> set (take 12 V6any). x \<le> 255" "\<forall>x \<in> set (take 12 V4mappedprefix). x \<le> 255"
    by (simp_all add: V6any_def V4mappedprefix_def numeral_eq_Suc)
  show ?thesis
    using assms Some x ip4_scan_ok [of L s i d] v by (auto simp: ip6_scan_def ip6_ok_def ip4_ok_def split: if_splits)
qed

section \<open>Concrete functions with the documented behaviour\<close>

definition hex_digit :: "nat \<Rightarrow> char" where
  "hex_digit n = (if n < 10 then char_of (48 + n) else char_of (87 + n))"

fun ref_fmt_xlong :: "nat \<Rightarrow> bytes" where
  "ref_fmt_xlong n = (if n < 16 then [hex_digit n] else ref_fmt_xlong (n div 16) @ [hex_digit (n mod 16)])"

declare ref_fmt_xlong.simps [simp del]

definition ref_scan_xlong :: "bytes \<Rightarrow> nat \<times> nat" where
  "ref_scan_xlong s = (let ds = takeWhile is_hex s in (length ds, fold (\<lambda>c v. 16 * v + the (hex_val c)) ds 0))"

definition ref_hexlib :: hexlib where
  "ref_hexlib = \<lparr>hx_fmt_xlong = ref_fmt_xlong, hx_scan_xlong = ref_scan_xlong,
     hx_fmt_hexbyte = (\<lambda>n. [hex_digit (n div 16 mod 16), hex_digit (n mod 16)])\<rparr>"

lemma hex_digit_val: "n < 16 \<Longrightarrow> hex_val (hex_digit n) = Some n"
  by (auto simp: hex_val_def hex_digit_def)

lemma ref_xlong_digits: "ref_fmt_xlong n \<noteq> [] \<and> list_all is_hex (ref_fmt_xlong n)"
proof (induction n rule: ref_fmt_xlong.induct)
  case (1 n)
  have d: "k < 16 \<Longrightarrow> is_hex (hex_digit k)" for k by (simp add: is_hex_def hex_digit_val)
  show ?case using 1 d [of n] d [of "n mod 16"] by (subst (1 2) ref_fmt_xlong.simps) auto
qed

lemma ref_xlong_value: "fold (\<lambda>c v. 16 * v + the (hex_val c)) (ref_fmt_xlong n) 0 = n"
proof (induction n rule: ref_fmt_xlong.induct)
  case (1 n)
  show ?case using 1 hex_digit_val [of n] hex_digit_val [of "n mod 16"] by (subst ref_fmt_xlong.simps) auto
qed

lemma ref_xlong_len: "n < 16 ^ k \<Longrightarrow> 0 < k \<Longrightarrow> length (ref_fmt_xlong n) \<le> k"
proof (induction k arbitrary: n)
  case (Suc k)
  show ?case
  proof (cases "n < 16")
    case True
    then show ?thesis by (subst ref_fmt_xlong.simps) simp
  next
    case False
    then have "0 < k" using Suc.prems by (cases k) auto
    moreover have "n div 16 < 16 ^ k" using Suc.prems(1) by (simp add: less_mult_imp_div_less)
    ultimately have "length (ref_fmt_xlong (n div 16)) \<le> k" using Suc.IH by blast
    then show ?thesis using False by (subst ref_fmt_xlong.simps) simp
  qed
qed simp

interpretation ref: hexnum ref_hexlib
proof unfold_locales
  fix s t :: bytes and n k :: nat
  show "hx_fmt_xlong ref_hexlib n \<noteq> [] \<and> list_all is_hex (hx_fmt_xlong ref_hexlib n)"
    by (simp add: ref_hexlib_def ref_xlong_digits)
  show "n < 16 ^ k \<Longrightarrow> 0 < k \<Longrightarrow> length (hx_fmt_xlong ref_hexlib n) \<le> k"
    by (simp add: ref_hexlib_def ref_xlong_len)
  show "fst (hx_scan_xlong ref_hexlib s) = length (takeWhile is_hex s)"
    by (simp add: ref_hexlib_def ref_scan_xlong_def Let_def)
  show "length (hx_fmt_hexbyte ref_hexlib n) = 2" by (simp add: ref_hexlib_def)
  assume "t = [] \<or> \<not> is_hex (hd t)"
  then have "takeWhile is_hex (ref_fmt_xlong n @ t) = ref_fmt_xlong n"
    using ref_xlong_digits [of n] by (cases t) (auto simp: list_all_iff takeWhile_eq_all_conv takeWhile_tail)
  then show "hx_scan_xlong ref_hexlib (hx_fmt_xlong ref_hexlib n @ t) = (length (hx_fmt_xlong ref_hexlib n), n)"
    by (simp add: ref_hexlib_def ref_scan_xlong_def ref_xlong_value)
qed

end
