(* ===== verification/GreyStore.thy ===== *)
theory GreyStore
  imports Ip6 AccessRules
begin

text \<open>
  \<^verbatim>\<open>indimail-mta-x/qmail-greyd.c\<close>, the greylisting daemon: its records and what it does with them. The records are
  objects of an explicit store, since they point at each other: \<^verbatim>\<open>prev\<close> and \<^verbatim>\<open>next\<close> link all of them by age,
  \<^verbatim>\<open>ip_prev\<close> and \<^verbatim>\<open>ip_next\<close> those of one client, and the hash table of \<^verbatim>\<open>hsearch(3)\<close> leads from the text of an address to the
  first record of the client. The build is the one of the \<^verbatim>\<open>Makefile\<close>: \<^verbatim>\<open>IPV6\<close> and \<^verbatim>\<open>DYNAMIC_BUF\<close> are defined.

  What has no defined result is a value: \<open>Undefined\<close> stands for a null or uninitialised pointer that is followed, an
  object used after \<^verbatim>\<open>free\<close>, a buffer overrun, a division by zero; \<open>Forever\<close> for a loop that does not end; \<open>Died n\<close> for the
  end of the daemon with exit code \<open>n\<close>. Memory suffices.
\<close>

datatype fault = Undefined | Forever | Died nat

type_synonym 'a gres = "fault + 'a"

definition gbind :: "'a gres \<Rightarrow> ('a \<Rightarrow> 'b gres) \<Rightarrow> 'b gres" where
  "gbind x f = (case x of Inl e \<Rightarrow> Inl e | Inr a \<Rightarrow> f a)"

lemma gbind_simps [simp]: "gbind (Inr a) f = f a" "gbind (Inl e) f = Inl e"
  by (simp_all add: gbind_def)

section \<open>The records\<close>

datatype gptr = Null | Addr nat | Junk     \<comment> \<open>\<open>Junk\<close>: never assigned\<close>

abbreviation "RECORD_NEW \<equiv> (0 :: int)"
abbreviation "RECORD_EARLY \<equiv> (1 :: int)"
abbreviation "RECORD_STALE \<equiv> (2 :: int)"
abbreviation "RECORD_WHITE \<equiv> (3 :: int)"
abbreviation "RECORD_OK \<equiv> (4 :: int)"
abbreviation "RECORD_GREY \<equiv> (5 :: int)"
abbreviation "RECORD_BOUNCE \<equiv> (6 :: int)"

record greylst =
  gl_ip :: ip6
  gl_ip_str :: bytes              \<comment> \<open>up to its NUL; the field has 72 bytes (\<^verbatim>\<open>IPFMT\<close>)\<close>
  gl_rpath :: bytes
  gl_rcpt :: bytes                \<comment> \<open>the \<^verbatim>\<open>rcptlen\<close> bytes \<^verbatim>\<open>Trcpt1\0Trcpt2\0...\<close>\<close>
  gl_timestamp :: int
  gl_attempts :: "int option"     \<comment> \<open>none: never assigned\<close>
  gl_status :: int
  gl_prev :: gptr
  gl_next :: gptr
  gl_ip_prev :: gptr
  gl_ip_next :: gptr

record greyd =
  g_mem :: "nat \<Rightarrow> greylst option"     \<comment> \<open>the objects allocated and not freed\<close>
  g_fresh :: nat                       \<comment> \<open>the addresses below it have been used\<close>
  g_head :: gptr
  g_tail :: gptr
  g_count :: int                       \<comment> \<open>\<^verbatim>\<open>grey_count\<close>\<close>
  g_hash :: "bytes \<Rightarrow> nat option"
  g_room :: nat                        \<comment> \<open>the argument of \<^verbatim>\<open>hcreate\<close>\<close>
  g_hcount :: nat
  g_allocated :: nat                   \<comment> \<open>\<^verbatim>\<open>h_allocated\<close>\<close>

definition deref :: "greyd \<Rightarrow> gptr \<Rightarrow> greylst gres" where
  "deref s p =
     (case p of Addr a \<Rightarrow> (case g_mem s a of Some r \<Rightarrow> Inr r | None \<Rightarrow> Inl Undefined) | _ \<Rightarrow> Inl Undefined)"

definition assign :: "(greylst \<Rightarrow> greylst) \<Rightarrow> gptr \<Rightarrow> greyd \<Rightarrow> greyd gres" where
  "assign f p s =
     gbind (deref s p) (\<lambda>r. case p of Addr a \<Rightarrow> Inr (s\<lparr>g_mem := (g_mem s)(a := Some (f r))\<rparr>) | _ \<Rightarrow> Inl Undefined)"

definition free_at :: "nat \<Rightarrow> greyd \<Rightarrow> greyd" where
  "free_at a s = s\<lparr>g_mem := (g_mem s)(a := None)\<rparr>"

section \<open>The options and the white list\<close>

record gconf =
  gc_hash_size :: nat                  \<comment> \<open>\<^verbatim>\<open>main\<close> refuses 0 for all of these but the \<^verbatim>\<open>timeout\<close>\<close>
  gc_timeout :: nat
  gc_min_resend :: nat
  gc_resend_window :: nat
  gc_free_interval :: nat
  gc_whitefn :: "bytes option"
  gc_whitelist :: "bytes option"       \<comment> \<open>the lines of the file, if \<^verbatim>\<open>whitelistok\<close>\<close>
  gc_cdb :: "(bytes \<Rightarrow> int) option"     \<comment> \<open>\<^verbatim>\<open>cdb_seek\<close> in \<^verbatim>\<open>whitefn.cdb\<close>, if there is such a file\<close>
  gc_field2 :: bytes                   \<comment> \<open>what the stack holds where \<^verbatim>\<open>matchinet\<close> has \<^verbatim>\<open>field2\<close>\<close>

text \<open>\<^verbatim>\<open>cdb_matchaddr\<close> of \<^verbatim>\<open>cdb_match.c\<close>; \<^verbatim>\<open>CDB_LSEEK_ERR\<close> is -2. The file can be opened if it exists.\<close>

definition cdb_matchaddr :: "(bytes \<Rightarrow> int) option \<Rightarrow> bytes \<Rightarrow> int" where
  "cdb_matchaddr cdb addr = (if addr = [] then 0
      else case cdb of
             None \<Rightarrow> 0
           | Some seek \<Rightarrow> if seek addr = -1 then -2 else if seek addr = 0 then 0 else 1)"

text \<open>
  \<^verbatim>\<open>cidr2IPrange\<close>: the addresses as numbers of 32 bits. A shift by a negative number or by 32 is undefined.
\<close>

definition build_ip :: "ip4 \<Rightarrow> nat" where
  "build_ip d = ((d ! 0 * 256 + d ! 1) * 256 + d ! 2) * 256 + d ! 3"

definition cidr2IPrange :: "libq \<Rightarrow> bytes \<Rightarrow> int \<Rightarrow> (nat \<times> nat) option gres" where
  "cidr2IPrange L ipaddr m =
     (case ip4_scan L ipaddr of
        None \<Rightarrow> Inr None
      | Some (_, d) \<Rightarrow>
        if m < 1 \<or> 32 < m then Inl Undefined
        else let w = 2 ^ nat (32 - m); lo = build_ip d - build_ip d mod w in Inr (Some (lo, lo + (w - 1))))"

text \<open>
  The loop of \<^verbatim>\<open>ip_match\<close> over the lines from \<open>content\<close> on. \<open>m0\<close> is \<^verbatim>\<open>scan_int\<close>'s variable, which keeps its value when
  there is no number.
\<close>

function ip_lines :: "libq \<Rightarrow> matchlib \<Rightarrow> bytes \<Rightarrow> bytes \<Rightarrow> int option \<Rightarrow> bytes \<Rightarrow> int gres" where
  "ip_lines L M field2 ipaddr m0 content =
     (if content = [] then Inr 0
      else
        let line = cstr content; x = lq_chr L line (CHR ''/''); rest = drop (length line + 1) content
        in if x < length line then
             let num = drop (x + 1) line;
                 m1 = (if num \<noteq> [] \<and> (is_digit (hd num) \<or> hd num = CHR ''-'') then Some (ml_scan_int M num) else m0)
             in case m1 of
                  None \<Rightarrow> Inl Undefined
                | Some m \<Rightarrow>
                  (case cidr2IPrange L (take x line) m of
                     Inl e \<Rightarrow> Inl e
                   | Inr None \<Rightarrow> Inr (-1)
                   | Inr (Some (lo, hi)) \<Rightarrow>
                     (case ip4_scan L ipaddr of
                        None \<Rightarrow> Inr 0
                      | Some (_, d) \<Rightarrow>
                        if lo \<le> build_ip d \<and> build_ip d \<le> hi then Inr 1 else ip_lines L M field2 ipaddr m1 rest))
           else case matchinet L M field2 ipaddr content of
                  None \<Rightarrow> Inl Undefined
                | Some True \<Rightarrow> Inr 1
                | Some False \<Rightarrow> ip_lines L M field2 ipaddr m0 rest)"
  by pat_completeness auto
termination
  by (relation "measure (\<lambda>(L, M, f, ip, m, c). length c)") (auto simp: length_greater_0_conv)

declare ip_lines.simps [simp del]

text \<open>\<open>None\<close> as the list: \<^verbatim>\<open>content\<close> and \<^verbatim>\<open>ptrmap\<close> are null.\<close>

definition ip_match :: "libq \<Rightarrow> matchlib \<Rightarrow> gconf \<Rightarrow> bytes \<Rightarrow> bytes option \<Rightarrow> int gres" where
  "ip_match L M conf ipaddr content =
     (case (case gc_whitefn conf of
              Some fn \<Rightarrow> let x = cdb_matchaddr (gc_cdb conf) ipaddr in if x = -2 then Some (Inl (Died 111)) else Some (Inr x)
            | None \<Rightarrow> if content \<noteq> None \<and> ml_constmap M (the content) ipaddr then Some (Inr 1) else None) of
        Some r \<Rightarrow> r
      | None \<Rightarrow> (case content of None \<Rightarrow> Inr 0 | Some c \<Rightarrow> ip_lines L M (gc_field2 conf) ipaddr None c))"

definition is_white :: "libq \<Rightarrow> matchlib \<Rightarrow> gconf \<Rightarrow> bytes \<Rightarrow> bool gres" where
  "is_white L M conf ip =
     gbind (ip_match L M conf ip (gc_whitelist conf)) (\<lambda>x. if x = 1 then Inr True else if x = 0 then Inr False else Inl (Died 1))"

section \<open>The hash table\<close>

text \<open>
  The last record of a client, from the record at \<open>a\<close> on. The bound is the number of addresses: a walk that is
  longer has met an address twice and does not end.
\<close>

fun chain_end :: "nat \<Rightarrow> greyd \<Rightarrow> nat \<Rightarrow> nat gres" where
  "chain_end 0 s a = Inl Forever"
| "chain_end (Suc n) s a =
     gbind (deref s (Addr a)) (\<lambda>r.
       case gl_ip_next r of Null \<Rightarrow> Inr a | Addr b \<Rightarrow> chain_end n s b | Junk \<Rightarrow> Inl Undefined)"

text \<open>One record into the table (the body of the loop in \<^verbatim>\<open>create_hash\<close>). False: the table is full.\<close>

definition hash_add :: "nat \<Rightarrow> greyd \<Rightarrow> (bool \<times> greyd) gres" where
  "hash_add a s =
     gbind (deref s (Addr a)) (\<lambda>r.
       case g_hash s (gl_ip_str r) of
         None \<Rightarrow>
           if g_room s \<le> g_hcount s then Inr (False, s)
           else Inr (True, s\<lparr>g_hash := (g_hash s)(gl_ip_str r \<mapsto> a), g_hcount := g_hcount s + 1\<rparr>)
       | Some e \<Rightarrow>
           gbind (chain_end (g_fresh s) s e) (\<lambda>z.
           gbind (assign (\<lambda>x. x\<lparr>gl_ip_next := Addr a\<rparr>) (Addr z) s) (\<lambda>s.
           gbind (assign (\<lambda>x. x\<lparr>gl_ip_next := Null, gl_ip_prev := Addr z\<rparr>) (Addr a) s) (\<lambda>s.
           Inr (True, s)))))"

fun hash_all :: "nat \<Rightarrow> gptr \<Rightarrow> greyd \<Rightarrow> (bool \<times> greyd) gres" where
  "hash_all n Null s = Inr (True, s)"
| "hash_all n Junk s = Inl Undefined"
| "hash_all 0 (Addr a) s = Inl Forever"
| "hash_all (Suc n) (Addr a) s =
     gbind (hash_add a s) (\<lambda>(ok, s).
       if ok then gbind (deref s (Addr a)) (\<lambda>r. hash_all n (gl_next r) s) else Inr (False, s))"

definition create_hash :: "gconf \<Rightarrow> nat option \<Rightarrow> greyd \<Rightarrow> (bool \<times> greyd) gres" where
  "create_hash conf new s =
     (let s = (if new = None then s\<lparr>g_hash := \<lambda>_. None, g_allocated := 0, g_hcount := 0\<rparr> else s)
      in if g_hcount s mod gc_hash_size conf = 0 then
           let again = (0 < g_allocated s);
               s = s\<lparr>g_allocated := g_allocated s + 1\<rparr>;
               s = (if again then s\<lparr>g_hash := \<lambda>_. None, g_hcount := 0\<rparr> else s);
               new = (if again then None else new);
               n = 125 * gc_hash_size conf * g_allocated s
           in if 2 ^ 31 \<le> n then Inl Undefined
              else
                let s = s\<lparr>g_room := n div 100\<rparr>
                in (case new of Some a \<Rightarrow> hash_add a s | None \<Rightarrow> hash_all (g_fresh s) (g_head s) s)
         else (case new of Some a \<Rightarrow> hash_add a s | None \<Rightarrow> hash_all (g_fresh s) (g_head s) s))"

section \<open>Expiry, search, addition\<close>

text \<open>Conversions between the types of C: \<^verbatim>\<open>unsigned long\<close>, \<^verbatim>\<open>time_t\<close> and \<^verbatim>\<open>int\<close>.\<close>

definition u64 :: "int \<Rightarrow> int" where
  "u64 x = x mod 2 ^ 64"

definition s64 :: "int \<Rightarrow> int" where
  "s64 x = (x + 2 ^ 63) mod 2 ^ 64 - 2 ^ 63"

definition s32 :: "int \<Rightarrow> int" where
  "s32 x = (x + 2 ^ 31) mod 2 ^ 32 - 2 ^ 31"

definition expire_one :: "nat \<Rightarrow> greyd \<Rightarrow> (gptr \<times> greyd) gres" where
  "expire_one a s =
     (let s = s\<lparr>g_count := g_count s - 1\<rparr> in
      gbind (deref s (Addr a)) (\<lambda>r.
      gbind (if g_head s = Addr a
             then assign (\<lambda>x. x\<lparr>gl_prev := Null\<rparr>) (gl_next r) (s\<lparr>g_head := gl_next r\<rparr>)
             else Inr s) (\<lambda>s.
      gbind (deref s (Addr a)) (\<lambda>r.
      gbind (assign (\<lambda>x. x\<lparr>gl_next := gl_next r\<rparr>) (gl_prev r) s) (\<lambda>s.
      gbind (deref s (Addr a)) (\<lambda>r.
      gbind (assign (\<lambda>x. x\<lparr>gl_prev := gl_prev r\<rparr>) (gl_next r) s) (\<lambda>s.
      gbind (deref s (Addr a)) (\<lambda>r. Inr (gl_next r, free_at a s)))))))))"

fun expire_loop :: "nat \<Rightarrow> int \<Rightarrow> gptr \<Rightarrow> greyd \<Rightarrow> greyd gres" where
  "expire_loop n start Null s = Inr s"
| "expire_loop n start Junk s = Inl Undefined"
| "expire_loop 0 start (Addr a) s = Inl Forever"
| "expire_loop (Suc n) start (Addr a) s =
     gbind (deref s (Addr a)) (\<lambda>r.
       if start \<le> gl_timestamp r then expire_loop n start (gl_next r) s
       else gbind (expire_one a s) (\<lambda>(p, s). expire_loop n start p s))"

definition expire_records :: "gconf \<Rightarrow> int \<Rightarrow> greyd \<Rightarrow> greyd gres" where
  "expire_records conf cur_time s =
     gbind (expire_loop (g_fresh s) (s64 (cur_time - int (gc_timeout conf))) (g_head s) s) (\<lambda>s.
     gbind (create_hash conf None s) (\<lambda>(ok, s). if ok then Inr s else Inl (Died 1)))"

text \<open>Is there a record that is not older than \<open>start\<close>?\<close>

fun any_recent :: "nat \<Rightarrow> int \<Rightarrow> gptr \<Rightarrow> greyd \<Rightarrow> bool gres" where
  "any_recent n start Null s = Inr False"
| "any_recent n start Junk s = Inl Undefined"
| "any_recent 0 start (Addr a) s = Inl Forever"
| "any_recent (Suc n) start (Addr a) s =
     gbind (deref s (Addr a)) (\<lambda>r. if gl_timestamp r < start then any_recent n start (gl_next r) s else Inr True)"

text \<open>\<^verbatim>\<open>str_diffn\<close> compares as many bytes as the sender of the request has.\<close>

definition same_triplet :: "ip6 \<Rightarrow> bytes \<Rightarrow> bytes \<Rightarrow> greylst \<Rightarrow> bool" where
  "same_triplet ip rpath rcpt r \<longleftrightarrow> gl_ip r = ip \<and> take (length rpath) (gl_rpath r) = rpath \<and> gl_rcpt r = rcpt"

fun find_chain :: "nat \<Rightarrow> ip6 \<Rightarrow> bytes \<Rightarrow> bytes \<Rightarrow> gptr \<Rightarrow> greyd \<Rightarrow> nat option gres" where
  "find_chain n ip rpath rcpt Null s = Inr None"
| "find_chain n ip rpath rcpt Junk s = Inl Undefined"
| "find_chain 0 ip rpath rcpt (Addr a) s = Inl Forever"
| "find_chain (Suc n) ip rpath rcpt (Addr a) s =
     gbind (deref s (Addr a)) (\<lambda>r.
       if same_triplet ip rpath rcpt r then Inr (Some a) else find_chain n ip rpath rcpt (gl_ip_next r) s)"

text \<open>What happens to a record that is found, and the result.\<close>

definition judge :: "gconf \<Rightarrow> int \<Rightarrow> bytes \<Rightarrow> greylst \<Rightarrow> int \<times> greylst" where
  "judge conf cur_time rpath r =
     (let r = r\<lparr>gl_attempts := map_option (\<lambda>n. n + 1) (gl_attempts r)\<rparr>
      in if (gl_status r = RECORD_GREY \<or> gl_status r = RECORD_OK) \<and>
            u64 (gl_timestamp r) > u64 (cur_time - int (gc_timeout conf))
         then (RECORD_OK, r\<lparr>gl_timestamp := cur_time, gl_status := RECORD_OK\<rparr>)
         else if cur_time < gl_timestamp r + s32 (int (gc_min_resend conf))
         then (RECORD_EARLY, r\<lparr>gl_status := RECORD_EARLY\<rparr>)
         else if cur_time > gl_timestamp r + s32 (int (gc_resend_window conf))
         then (RECORD_STALE, r\<lparr>gl_timestamp := cur_time, gl_status := RECORD_STALE\<rparr>)
         else let st = (if rpath \<noteq> [] then RECORD_GREY else RECORD_BOUNCE)
              in (st, r\<lparr>gl_timestamp := cur_time, gl_status := st\<rparr>))"

text \<open>Is the client on the white list, as far as \<^verbatim>\<open>search_record\<close> asks?\<close>

definition client_white :: "libq \<Rightarrow> matchlib \<Rightarrow> gconf \<Rightarrow> bytes \<Rightarrow> bool gres" where
  "client_white L M conf ip = (if gc_whitelist conf \<noteq> None then is_white L M conf ip else Inr False)"

text \<open>
  \<^verbatim>\<open>search_record\<close>: the result and \<open>*store\<close>. Its end, after the records of the client have been looked up:
\<close>

definition search_hash ::
  "libq \<Rightarrow> hexlib \<Rightarrow> gconf \<Rightarrow> int \<Rightarrow> bytes \<Rightarrow> bytes \<Rightarrow> bytes \<Rightarrow> greyd \<Rightarrow> ((int \<times> gptr) \<times> greyd) gres" where
  "search_hash L X conf cur_time remoteip rpath rcpt s =
     (case ip6_scan L X remoteip of
        None \<Rightarrow> Inr ((RECORD_NEW, Null), s)
      | Some (_, r_ip) \<Rightarrow>
        (case g_hash s remoteip of
           None \<Rightarrow> Inr ((RECORD_NEW, Null), s)
         | Some e \<Rightarrow>
           gbind (find_chain (g_fresh s) r_ip rpath rcpt (Addr e) s) (\<lambda>f.
             case f of
               None \<Rightarrow> Inr ((RECORD_NEW, Null), s)
             | Some a \<Rightarrow>
               gbind (deref s (Addr a)) (\<lambda>r.
               gbind (assign (\<lambda>r. snd (judge conf cur_time rpath r)) (Addr a) s) (\<lambda>s.
               Inr ((fst (judge conf cur_time rpath r), Addr a), s))))))"

definition search_record ::
  "libq \<Rightarrow> hexlib \<Rightarrow> matchlib \<Rightarrow> gconf \<Rightarrow> int \<Rightarrow> bytes \<Rightarrow> bytes \<Rightarrow> bytes \<Rightarrow> greyd \<Rightarrow> ((int \<times> gptr) \<times> greyd) gres" where
  "search_record L X M conf cur_time remoteip rpath rcpt s =
     gbind (client_white L M conf remoteip) (\<lambda>white.
     if white then Inr ((RECORD_WHITE, Null), s)
     else if g_head s = Null then Inr ((RECORD_NEW, Null), s)
     else gbind (deref s (g_head s)) (\<lambda>h.
     let old = cur_time - int (gc_timeout conf); fr_int = s32 (int (gc_free_interval conf)) in
     gbind (if u64 old > u64 (gl_timestamp h) then
              if fr_int = 0 then Inl Undefined
              else if cur_time mod fr_int = 0
              then gbind (expire_records conf cur_time s) (\<lambda>s. Inr (g_head s \<noteq> Null, s))
              else gbind (any_recent (g_fresh s) (s64 old) (g_head s) s) (\<lambda>b. Inr (b, s))
            else Inr (True, s)) (\<lambda>(go_on, s).
     if go_on then search_hash L X conf cur_time remoteip rpath rcpt s else Inr ((RECORD_NEW, Null), s))))"

text \<open>\<^verbatim>\<open>add_record\<close> with \<^verbatim>\<open>copy_grey\<close>: whether it succeeds, and \<open>*grey\<close>. The record is linked before it is filled.\<close>

definition add_record ::
  "libq \<Rightarrow> hexlib \<Rightarrow> int \<Rightarrow> bytes \<Rightarrow> bytes \<Rightarrow> bytes \<Rightarrow> greyd \<Rightarrow> ((bool \<times> gptr) \<times> greyd) gres" where
  "add_record L X now ip rpath rcpt s =
     (let a = g_fresh s;
          r = \<lparr>gl_ip = [], gl_ip_str = [], gl_rpath = [], gl_rcpt = [], gl_timestamp = now, gl_attempts = Some 1,
               gl_status = RECORD_NEW, gl_prev = (if g_head s = Null then Null else g_tail s), gl_next = Null,
               gl_ip_prev = Null, gl_ip_next = Null\<rparr>;
          s1 = s\<lparr>g_mem := (g_mem s)(a := Some r), g_fresh := a + 1, g_tail := Addr a, g_count := g_count s + 1\<rparr>
      in gbind (if g_head s = Null then Inr (s1\<lparr>g_head := Addr a\<rparr>)
                else assign (\<lambda>x. x\<lparr>gl_next := Addr a\<rparr>) (g_tail s) s1) (\<lambda>s2.
         if 72 \<le> length ip then Inl Undefined
         else case ip6_scan L X ip of
                None \<Rightarrow> Inr ((False, Addr a), free_at a s2)
              | Some (_, d) \<Rightarrow>
                gbind (assign (\<lambda>x. x\<lparr>gl_ip := d, gl_ip_str := ip, gl_rpath := rpath, gl_rcpt := rcpt\<rparr>) (Addr a) s2) (\<lambda>s3.
                Inr ((True, Addr a), s3))))"

end
