(* ===== verification/GreyInv.thy ===== *)
theory GreyInv
  imports GreyStore
begin

text \<open>
  The store of the greylisting daemon seen as a list: what the links and the hash table of \<^verbatim>\<open>qmail-greyd.c\<close> promise, and
  what its loops return when they keep it.
\<close>

section \<open>Linked records\<close>

fun chained :: "(greylst \<Rightarrow> gptr) \<Rightarrow> (nat \<Rightarrow> greylst option) \<Rightarrow> gptr \<Rightarrow> nat list \<Rightarrow> bool" where
  "chained nx m p [] \<longleftrightarrow> p = Null"
| "chained nx m p (a # as) \<longleftrightarrow> p = Addr a \<and> (\<exists>r. m a = Some r \<and> chained nx m (nx r) as)"

fun backs :: "(nat \<Rightarrow> greylst option) \<Rightarrow> gptr \<Rightarrow> nat list \<Rightarrow> bool" where
  "backs m p [] \<longleftrightarrow> True"
| "backs m p (a # as) \<longleftrightarrow> (\<exists>r. m a = Some r \<and> gl_prev r = p) \<and> backs m (Addr a) as"

lemma chained_cong:
  "(\<And>a. a \<in> set as \<Longrightarrow> map_option nx (m a) = map_option nx (m' a)) \<Longrightarrow> chained nx m p as = chained nx m' p as"
proof (induction as arbitrary: p)
  case (Cons a as)
  have "map_option nx (m a) = map_option nx (m' a)" using Cons.prems by simp
  moreover have "chained nx m q as = chained nx m' q as" for q using Cons by simp
  ultimately show ?case by (cases "m a"; cases "m' a") auto
qed simp

lemma backs_cong:
  "(\<And>a. a \<in> set as \<Longrightarrow> map_option gl_prev (m a) = map_option gl_prev (m' a)) \<Longrightarrow> backs m p as = backs m' p as"
proof (induction as arbitrary: p)
  case (Cons a as)
  have "map_option gl_prev (m a) = map_option gl_prev (m' a)" using Cons.prems by simp
  moreover have "backs m q as = backs m' q as" for q using Cons by simp
  ultimately show ?case by (cases "m a"; cases "m' a") auto
qed simp

lemma chained_alive: "chained nx m p as \<Longrightarrow> a \<in> set as \<Longrightarrow> m a \<noteq> None"
  by (induction as arbitrary: p) auto

lemma chained_Null: "chained nx m Null as \<longleftrightarrow> as = []"
  by (cases as) auto

lemma deref_Addr: "deref s (Addr a) = (case g_mem s a of Some r \<Rightarrow> Inr r | None \<Rightarrow> Inl Undefined)"
  by (simp add: deref_def)

lemma assign_Addr: "g_mem s a = Some r \<Longrightarrow> assign f (Addr a) s = Inr (s\<lparr>g_mem := (g_mem s)(a \<mapsto> f r)\<rparr>)"
  by (simp add: assign_def deref_def)

section \<open>The loops\<close>

lemma chain_end_last:
  "chained gl_ip_next (g_mem s) (Addr a) as \<Longrightarrow> length as \<le> n \<Longrightarrow> chain_end n s a = Inr (last as)"
proof (induction n arbitrary: a as)
  case 0
  then show ?case by (cases as) auto
next
  case (Suc n)
  from Suc.prems obtain r bs where as: "as = a # bs" "g_mem s a = Some r" "chained gl_ip_next (g_mem s) (gl_ip_next r) bs"
    by (cases as) auto
  show ?case
  proof (cases bs)
    case Nil
    then show ?thesis using as by (simp add: deref_def)
  next
    case (Cons b cs)
    then show ?thesis using as Suc.IH [of b bs] Suc.prems(2) by (simp add: deref_def)
  qed
qed

lemma any_recent_eq:
  "chained gl_next (g_mem s) p as \<Longrightarrow> length as \<le> n \<Longrightarrow>
   any_recent n start p s = Inr (\<exists>a \<in> set as. start \<le> gl_timestamp (the (g_mem s a)))"
proof (induction as arbitrary: n p)
  case Nil
  then show ?case by (cases n) simp_all
next
  case (Cons a as)
  then obtain r k where "g_mem s a = Some r" "chained gl_next (g_mem s) (gl_next r) as" "p = Addr a" "n = Suc k" "length as \<le> k"
    by (cases n) auto
  then show ?case using Cons.IH [of "gl_next r" k] by (auto simp: deref_def)
qed

lemma find_chain_eq:
  "chained gl_ip_next (g_mem s) p as \<Longrightarrow> length as \<le> n \<Longrightarrow>
   find_chain n ip rpath rcpt p s = Inr (find (\<lambda>a. same_triplet ip rpath rcpt (the (g_mem s a))) as)"
proof (induction as arbitrary: n p)
  case Nil
  then show ?case by (cases n) simp_all
next
  case (Cons a as)
  then obtain r k where "g_mem s a = Some r" "chained gl_ip_next (g_mem s) (gl_ip_next r) as" "p = Addr a" "n = Suc k" "length as \<le> k"
    by (cases n) auto
  then show ?case using Cons.IH [of "gl_ip_next r" k] by (auto simp: deref_def)
qed

section \<open>The hash table\<close>

definition own :: "(nat \<Rightarrow> greylst option) \<Rightarrow> bytes \<Rightarrow> nat list \<Rightarrow> nat list" where
  "own m k xs = filter (\<lambda>a. map_option gl_ip_str (m a) = Some k) xs"

lemma own_simps [simp]:
  "own m k [] = []" "own m k (xs @ ys) = own m k xs @ own m k ys"
  "own m k (a # xs) = (if map_option gl_ip_str (m a) = Some k then a # own m k xs else own m k xs)"
  by (simp_all add: own_def)

lemma own_mem: "a \<in> set (own m k xs) \<longleftrightarrow> a \<in> set xs \<and> map_option gl_ip_str (m a) = Some k"
  by (auto simp: own_def)

lemma own_length: "length (own m k xs) \<le> length xs"
  by (simp add: own_def)

lemma own_distinct: "distinct xs \<Longrightarrow> distinct (own m k xs)"
  by (simp add: own_def)

lemma own_cong: "(\<And>a. map_option gl_ip_str (m a) = map_option gl_ip_str (m' a)) \<Longrightarrow> own m k xs = own m' k xs"
  by (simp add: own_def)

text \<open>
  The records of each client are chained in their order: all of them, or, while the table is made anew, those that have
  been entered (\<open>ps\<close> of \<open>xs\<close>). A client of whom at most one was entered still has a chain from the earlier table.
\<close>

definition hptr :: "nat option \<Rightarrow> gptr" where
  "hptr x = (case x of None \<Rightarrow> Null | Some a \<Rightarrow> Addr a)"

lemma hptr_simps [simp]: "hptr None = Null" "hptr (Some a) = Addr a"
  by (simp_all add: hptr_def)

definition hashed :: "(nat \<Rightarrow> greylst option) \<Rightarrow> (bytes \<Rightarrow> nat option) \<Rightarrow> nat list \<Rightarrow> bool" where
  "hashed m h xs \<longleftrightarrow> (\<forall>k. chained gl_ip_next m (hptr (h k)) (own m k xs))"

definition entered :: "(nat \<Rightarrow> greylst option) \<Rightarrow> (bytes \<Rightarrow> nat option) \<Rightarrow> nat list \<Rightarrow> nat list \<Rightarrow> bytes \<Rightarrow> bool" where
  "entered m h xs ps k \<longleftrightarrow>
     h k = (case own m k ps of [] \<Rightarrow> None | e # _ \<Rightarrow> Some e) \<and>
     (if length (own m k ps) \<le> 1
      then own m k xs = [] \<or> (\<exists>i. chained gl_ip_next m (Addr (hd (own m k xs))) (take (Suc i) (own m k xs)))
      else chained gl_ip_next m (Addr (hd (own m k ps))) (own m k ps))"

lemma entered_cong:
  assumes "entered m h xs ps k" "own m' k ps' = own m k ps" "own m' k xs = own m k xs" "h' k = h k"
    "\<And>p q. set q \<subseteq> set (own m k xs) \<Longrightarrow> chained gl_ip_next m' p q = chained gl_ip_next m p q"
    "set (own m k ps) \<subseteq> set (own m k xs)"
  shows "entered m' h' xs ps' k"
  using assms(1,4) assms(5) [OF assms(6)] assms(5) [OF set_take_subset] unfolding entered_def assms(2,3) by simp

lemma entered_whole: "(\<And>k. entered m h xs xs k) \<Longrightarrow> hashed m h xs"
  unfolding hashed_def
proof
  fix k
  assume a: "\<And>k. entered m h xs xs k"
  show "chained gl_ip_next m (hptr (h k)) (own m k xs)"
    using a [of k] by (cases "own m k xs") (auto simp: entered_def split: if_splits)
qed

lemma hashed_entered: "hashed m h xs \<Longrightarrow> entered m h xs xs k"
  unfolding hashed_def entered_def
  by (drule spec [of _ k], cases "own m k xs"; cases "h k") auto

text \<open>A new record, not yet chained, and a table that is empty again.\<close>

lemma entered_new:
  assumes "hashed m h xs" "m a = Some r" "gl_ip_next r = Null"
  shows "entered m h (xs @ [a]) xs k"
proof -
  have e: "entered m h xs xs k" by (rule hashed_entered [OF assms(1)])
  have "chained gl_ip_next m (hptr (h k)) (own m k xs)" using assms(1) by (simp add: hashed_def)
  then show ?thesis
    using e assms(2,3)
    by (cases "own m k xs"; cases "h k") (auto simp: entered_def chained_Null split: if_splits intro: exI [of _ 0])
qed

lemma entered_fresh:
  assumes "entered m h xs ps k" "ps = xs \<or> (\<exists>a. xs = ps @ [a])"
  shows "entered m (\<lambda>_. None) xs [] k"
proof (cases "own m k ps")
  case Nil
  then show ?thesis using assms by (auto simp: entered_def)
next
  case (Cons e q)
  let ?q = "own m k ps"
  obtain t where t: "own m k xs = ?q @ t" using assms(2) by auto
  have "\<exists>i. chained gl_ip_next m (Addr (hd (own m k xs))) (take (Suc i) (own m k xs))"
  proof (cases "length ?q \<le> 1")
    case True
    then show ?thesis using assms(1) Cons t by (auto simp: entered_def)
  next
    case False
    have "take (Suc (length q)) (own m k xs) = ?q" using t Cons by simp
    moreover have "chained gl_ip_next m (Addr (hd (own m k xs))) ?q" using assms(1) False t Cons by (simp add: entered_def)
    ultimately show ?thesis by metis
  qed
  then show ?thesis by (simp add: entered_def)
qed

text \<open>The records keep everything but \<^verbatim>\<open>ip_next\<close> and \<^verbatim>\<open>ip_prev\<close>.\<close>

definition relinked :: "greylst \<Rightarrow> greylst" where
  "relinked r = r\<lparr>gl_ip_next := Null, gl_ip_prev := Null\<rparr>"

definition same_records :: "(nat \<Rightarrow> greylst option) \<Rightarrow> (nat \<Rightarrow> greylst option) \<Rightarrow> bool" where
  "same_records m m' \<longleftrightarrow> (\<forall>a. map_option relinked (m a) = map_option relinked (m' a))"

lemma same_records_field:
  assumes "same_records m m'" "\<And>r. f (relinked r) = f r"
  shows "map_option f (m a) = map_option f (m' a)"
proof -
  have "map_option f x = map_option f (map_option relinked x)" for x
    using assms(2) by (simp add: option.map_comp comp_def)
  then show ?thesis using assms(1) unfolding same_records_def by metis
qed

lemma relinked_fields:
  "gl_ip_str (relinked r) = gl_ip_str r" "gl_next (relinked r) = gl_next r" "gl_prev (relinked r) = gl_prev r"
  "gl_ip (relinked r) = gl_ip r" "gl_rpath (relinked r) = gl_rpath r" "gl_rcpt (relinked r) = gl_rcpt r"
  "gl_timestamp (relinked r) = gl_timestamp r" "gl_status (relinked r) = gl_status r"
  by (simp_all add: relinked_def)

lemmas same_ip_str = same_records_field [where f = gl_ip_str, OF _ relinked_fields(1)]
lemmas same_next = same_records_field [where f = gl_next, OF _ relinked_fields(2)]
lemmas same_prev = same_records_field [where f = gl_prev, OF _ relinked_fields(3)]

lemma same_records_refl: "same_records m m"
  by (simp add: same_records_def)

lemma same_records_trans: "same_records m m' \<Longrightarrow> same_records m' m'' \<Longrightarrow> same_records m m''"
  by (simp add: same_records_def)

lemma same_records_alive: "same_records m m' \<Longrightarrow> (m a = None) = (m' a = None)"
  by (auto simp: same_records_def) (metis map_option_is_None)+

lemma chained_extend:
  assumes "chained gl_ip_next m p q" "q \<noteq> []" "distinct (q @ [a])" "m a = Some r" "m (last q) = Some z" "nx = gl_ip_next"
  shows "chained gl_ip_next (m(last q \<mapsto> z\<lparr>gl_ip_next := Addr a\<rparr>, a \<mapsto> r\<lparr>gl_ip_next := Null, gl_ip_prev := b\<rparr>)) p (q @ [a])"
  using assms
proof (induction q arbitrary: p)
  case (Cons x q)
  show ?case
  proof (cases "q = []")
    case True
    then show ?thesis using Cons.prems by auto
  next
    case False
    obtain rx where rx: "p = Addr x" "m x = Some rx" "chained gl_ip_next m (gl_ip_next rx) q"
      using Cons.prems(1) by auto
    have "x \<noteq> last q" "x \<noteq> a" using Cons.prems(3) False by auto
    moreover have "chained gl_ip_next (m(last q \<mapsto> z\<lparr>gl_ip_next := Addr a\<rparr>, a \<mapsto> r\<lparr>gl_ip_next := Null, gl_ip_prev := b\<rparr>)) (gl_ip_next rx) (q @ [a])"
      by (rule Cons.IH [OF rx(3) False]) (use Cons.prems False in auto)
    ultimately show ?thesis using rx(1,2) False by (simp only: last.simps if_False chained.simps append_Cons) auto
  qed
qed simp

lemma hash_add_step:
  assumes s: "\<And>k. entered (g_mem s) (g_hash s) xs ps k" and xs: "xs = ps @ a # rest" "distinct xs" "\<forall>x \<in> set xs. g_mem s x \<noteq> None"
    and n: "length xs \<le> g_fresh s" and r: "g_mem s a = Some r"
    and room: "own (g_mem s) (gl_ip_str r) ps = [] \<Longrightarrow> g_hcount s < g_room s"
  shows "\<exists>m'. hash_add a s = Inr (True, s\<lparr>g_mem := m',
           g_hash := (if own (g_mem s) (gl_ip_str r) ps = [] then (g_hash s)(gl_ip_str r \<mapsto> a) else g_hash s),
           g_hcount := (if own (g_mem s) (gl_ip_str r) ps = [] then g_hcount s + 1 else g_hcount s)\<rparr>) \<and>
         same_records (g_mem s) m' \<and>
         (\<forall>k. entered m' (if own (g_mem s) (gl_ip_str r) ps = [] then (g_hash s)(gl_ip_str r \<mapsto> a) else g_hash s) xs (ps @ [a]) k)"
proof (cases "own (g_mem s) (gl_ip_str r) ps")
  case Nil
  have h: "g_hash s (gl_ip_str r) = None" using s [of "gl_ip_str r"] Nil by (simp add: entered_def)
  have "entered (g_mem s) ((g_hash s)(gl_ip_str r \<mapsto> a)) xs (ps @ [a]) k" for k
    using s [of k] Nil r by (cases "k = gl_ip_str r") (auto simp: entered_def xs(1) split: list.split)
  then show ?thesis
    using h room Nil r by (intro exI [of _ "g_mem s"]) (auto simp: hash_add_def deref_def same_records_def)
next
  case (Cons e q')
  let ?m = "g_mem s" and ?k = "gl_ip_str r"
  let ?q = "own ?m ?k ps"
  have h: "g_hash s ?k = Some e" using s [of ?k] Cons by (simp add: entered_def)
  have ys: "own ?m ?k xs = ?q @ a # own ?m ?k rest" using xs(1) r by simp
  have ap: "a \<notin> set ps" "distinct (?q @ [a])" using xs(1,2) own_distinct [of ps] by (auto simp: own_mem)
  have "\<exists>zs. zs \<noteq> [] \<and> chained gl_ip_next ?m (Addr e) zs \<and> set zs \<subseteq> set (own ?m ?k xs) \<and> length zs \<le> length xs \<and>
      (zs = ?q \<or> (\<exists>t. ?q = [e] \<and> zs = e # a # t \<and> distinct zs))"
  proof (cases "length ?q \<le> 1")
    case True
    then have q: "?q = [e]" using Cons by (cases q') auto
    obtain i where i: "chained gl_ip_next ?m (Addr e) (take (Suc i) (own ?m ?k xs))"
      using s [of ?k] True ys q by (auto simp: entered_def)
    have d: "distinct (take (Suc i) (own ?m ?k xs))" using own_distinct [OF xs(2)] by simp
    have l: "length (take (Suc i) (own ?m ?k xs)) \<le> length xs" using own_length [of ?m ?k xs] by simp
    show ?thesis
    proof (cases i)
      case 0
      then show ?thesis using i ys q l by (intro exI [of _ "[e]"]) auto
    next
      case (Suc j)
      then show ?thesis
        using i ys q l d set_take_subset [of "Suc i" "own ?m ?k xs"]
        by (intro exI [of _ "take (Suc i) (own ?m ?k xs)"]) auto
    qed
  next
    case False
    then have "chained gl_ip_next ?m (Addr e) ?q" using s [of ?k] Cons by (simp add: entered_def)
    moreover have "set ?q \<subseteq> set (own ?m ?k xs)" using ys by auto
    moreover have "length ?q \<le> length xs" using own_length [of ?m ?k ps] xs(1) by simp
    ultimately show ?thesis using Cons by (intro exI [of _ ?q]) simp
  qed
  then obtain zs where zs: "zs \<noteq> []" "chained gl_ip_next ?m (Addr e) zs" "set zs \<subseteq> set (own ?m ?k xs)" "length zs \<le> length xs"
    "zs = ?q \<or> (\<exists>t. ?q = [e] \<and> zs = e # a # t \<and> distinct zs)" by blast
  have ce: "chain_end (g_fresh s) s e = Inr (last zs)"
    by (rule chain_end_last [OF zs(2)]) (use zs(4) n in simp)
  have zl: "last zs \<in> set (own ?m ?k xs)" using zs(1,3) by auto
  then obtain z where z: "?m (last zs) = Some z" "gl_ip_str z = ?k" by (auto simp: own_mem)
  define m1 where "m1 = ?m(last zs \<mapsto> z\<lparr>gl_ip_next := Addr a\<rparr>)"
  obtain r1 where r1: "m1 a = Some r1" "relinked r1 = relinked r" "gl_ip_str r1 = ?k"
    using r z by (cases "last zs = a") (auto simp: m1_def relinked_def)
  define m2 where "m2 = m1(a \<mapsto> r1\<lparr>gl_ip_next := Null, gl_ip_prev := Addr (last zs)\<rparr>)"
  have res: "hash_add a s = Inr (True, s\<lparr>g_mem := m2\<rparr>)"
    using h r ce z r1 by (simp add: hash_add_def deref_def assign_def m1_def m2_def)
  have same: "same_records ?m m2"
    using z r r1 by (auto simp: same_records_def m2_def m1_def relinked_def)
  have own_eq: "own ?m k l = own m2 k l" for k l
    by (rule own_cong) (rule same_ip_str [OF same])
  have ownm2: "own m2 k l = own ?m k l" for k l using own_eq by simp
  have "chained gl_ip_next m2 (Addr e) (?q @ [a])"
  proof (cases "zs = ?q")
    case True
    then have "last zs \<noteq> a" using zs(1) ap(2) by (metis distinct_append last_in_set list.set_intros(1) disjoint_iff)
    then have "m1 a = Some r" "r1 = r" using r r1(1) by (simp_all add: m1_def)
    then show ?thesis
      using chained_extend [OF zs(2,1), of a r z gl_ip_next "Addr (last zs)"] ap(2) True z(1) r by (simp add: m2_def m1_def)
  next
    case False
    then obtain t where t: "?q = [e]" "zs = e # a # t" "distinct zs" using zs(5) by auto
    have "last zs \<in> set (a # t)" unfolding t(2) using last_in_set [of "a # t"] by simp
    then have "e \<noteq> last zs" using t(2,3) by auto
    moreover obtain re where "?m e = Some re" "gl_ip_next re = Addr a" "e \<noteq> a"
      using zs(2) t(2,3) by auto
    ultimately show ?thesis using t by (auto simp: m2_def m1_def)
  qed
  then have key: "entered m2 (g_hash s) xs (ps @ [a]) ?k"
  proof -
    assume f: "chained gl_ip_next m2 (Addr e) (?q @ [a])"
    have "own m2 ?k (ps @ [a]) = ?q @ [a]" using r by (simp only: ownm2) simp
    then show ?thesis using h Cons f unfolding entered_def by (simp del: own_simps)
  qed
  have other: "entered m2 (g_hash s) xs (ps @ [a]) k" if "k \<noteq> ?k" for k
  proof -
    have "m2 x = ?m x" if "x \<in> set (own ?m k l)" for x l
      using that \<open>k \<noteq> ?k\<close> z r by (auto simp: own_mem m2_def m1_def)
    then have f: "set q \<subseteq> set (own ?m k xs) \<Longrightarrow> chained gl_ip_next m2 p q = chained gl_ip_next ?m p q" for p q
      by (intro chained_cong) (metis subsetD)
    have "own m2 k (ps @ [a]) = own ?m k ps" unfolding ownm2 using that r by simp
    moreover have "set (own ?m k ps) \<subseteq> set (own ?m k xs)" using xs(1) by auto
    ultimately show ?thesis using entered_cong [OF s [of k], of m2 "ps @ [a]" "g_hash s"] f ownm2 by blast
  qed
  show ?thesis
  proof (intro exI [of _ m2] conjI allI)
    show "same_records ?m m2" by (rule same)
    have "s\<lparr>g_mem := m2, g_hash := g_hash s, g_hcount := g_hcount s\<rparr> = s\<lparr>g_mem := m2\<rparr>" by simp
    then show "hash_add a s = Inr (True, s\<lparr>g_mem := m2, g_hash := (if ?q = [] then (g_hash s)(?k \<mapsto> a) else g_hash s),
        g_hcount := (if ?q = [] then g_hcount s + 1 else g_hcount s)\<rparr>)"
      using res Cons by simp
    show "entered m2 (if ?q = [] then (g_hash s)(?k \<mapsto> a) else g_hash s) xs (ps @ [a]) k" for k
      using key other Cons by (cases "k = ?k") simp_all
  qed
qed

text \<open>All records of a list, and the table with one record more or made anew.\<close>

definition client_keys :: "(nat \<Rightarrow> greylst option) \<Rightarrow> nat list \<Rightarrow> bytes set" where
  "client_keys m xs = (\<lambda>a. gl_ip_str (the (m a))) ` set xs"

lemma client_keys_same:
  assumes "same_records m m'"
  shows "client_keys m xs = client_keys m' xs"
proof -
  have "gl_ip_str (the (m a)) = gl_ip_str (the (m' a))" for a
    using same_ip_str [OF assms, of a] same_records_alive [OF assms, of a] by (cases "m a"; cases "m' a") auto
  then show ?thesis by (simp add: client_keys_def)
qed

lemma own_empty: "\<forall>a \<in> set ps. m a \<noteq> None \<Longrightarrow> own m k ps = [] \<longleftrightarrow> k \<notin> client_keys m ps"
  by (force simp: own_def filter_empty_conv client_keys_def)

lemma client_keys_snoc:
  "\<forall>a \<in> set ps. m a \<noteq> None \<Longrightarrow> m a = Some r \<Longrightarrow>
   card (client_keys m (ps @ [a])) = (if own m (gl_ip_str r) ps = [] then card (client_keys m ps) + 1 else card (client_keys m ps))"
  by (subst own_empty) (auto simp: client_keys_def insert_absorb)

lemma client_keys_mono: "card (client_keys m ps) \<le> card (client_keys m (ps @ qs))"
  by (rule card_mono) (auto simp: client_keys_def)

lemma hash_add_ok:
  assumes "\<And>k. entered (g_mem s) (g_hash s) xs ps k" "xs = ps @ a # rest" "distinct xs" "\<forall>x \<in> set xs. g_mem s x \<noteq> None"
    "length xs \<le> g_fresh s" "g_hcount s = card (client_keys (g_mem s) ps)" "card (client_keys (g_mem s) xs) \<le> g_room s"
  shows "\<exists>m' h'. hash_add a s = Inr (True, s\<lparr>g_mem := m', g_hash := h', g_hcount := card (client_keys m' (ps @ [a]))\<rparr>) \<and>
    same_records (g_mem s) m' \<and> (\<forall>k. entered m' h' xs (ps @ [a]) k)"
proof -
  obtain r where r: "g_mem s a = Some r" using assms(2,4) by auto
  have alive: "\<forall>x \<in> set ps. g_mem s x \<noteq> None" using assms(2,4) by auto
  have c: "card (client_keys (g_mem s) (ps @ [a])) =
      (if own (g_mem s) (gl_ip_str r) ps = [] then g_hcount s + 1 else g_hcount s)"
    using client_keys_snoc [of ps "g_mem s" a, OF alive r] assms(6) by simp
  have "card (client_keys (g_mem s) (ps @ [a])) \<le> g_room s"
    using client_keys_mono [of "g_mem s" "ps @ [a]" rest] assms(2,7) by simp
  then have "own (g_mem s) (gl_ip_str r) ps = [] \<Longrightarrow> g_hcount s < g_room s" using c by simp
  from hash_add_step [OF assms(1,2,3,4,5) r this] obtain m' where m': "hash_add a s = Inr (True, s\<lparr>g_mem := m',
           g_hash := (if own (g_mem s) (gl_ip_str r) ps = [] then (g_hash s)(gl_ip_str r \<mapsto> a) else g_hash s),
           g_hcount := (if own (g_mem s) (gl_ip_str r) ps = [] then g_hcount s + 1 else g_hcount s)\<rparr>)"
      "same_records (g_mem s) m'"
      "\<forall>k. entered m' (if own (g_mem s) (gl_ip_str r) ps = [] then (g_hash s)(gl_ip_str r \<mapsto> a) else g_hash s) xs (ps @ [a]) k"
    by blast
  have "card (client_keys m' (ps @ [a])) = (if own (g_mem s) (gl_ip_str r) ps = [] then g_hcount s + 1 else g_hcount s)"
    using c client_keys_same [OF m'(2)] by simp
  then show ?thesis
    using m'(1) m'(2,3)
    by (intro exI [of _ m'] exI [of _ "if own (g_mem s) (gl_ip_str r) ps = [] then (g_hash s)(gl_ip_str r \<mapsto> a) else g_hash s"]) simp
qed

lemma hash_all_ok:
  assumes "\<And>k. entered (g_mem s) (g_hash s) xs ps k" "xs = ps @ rest" "distinct xs" "\<forall>x \<in> set xs. g_mem s x \<noteq> None"
    "length xs \<le> g_fresh s" "g_hcount s = card (client_keys (g_mem s) ps)" "card (client_keys (g_mem s) xs) \<le> g_room s"
    "chained gl_next (g_mem s) p rest" "length rest \<le> n"
  shows "\<exists>m' h'. hash_all n p s = Inr (True, s\<lparr>g_mem := m', g_hash := h', g_hcount := card (client_keys m' xs)\<rparr>) \<and>
    same_records (g_mem s) m' \<and> hashed m' h' xs"
  using assms
proof (induction rest arbitrary: n p s ps)
  case Nil
  have "hash_all n p s = Inr (True, s)" using Nil.prems(8) by (cases n) simp_all
  moreover have "s = s\<lparr>g_mem := g_mem s, g_hash := g_hash s, g_hcount := card (client_keys (g_mem s) xs)\<rparr>"
    using Nil.prems(2,6) by simp
  ultimately show ?case
    using entered_whole [of "g_mem s" "g_hash s" xs] Nil.prems(1,2) same_records_refl by (metis append_Nil2)
next
  case (Cons a rest)
  obtain k where n: "n = Suc k" "length rest \<le> k" using Cons.prems(9) by (cases n) auto
  obtain m' h' where m: "hash_add a s = Inr (True, s\<lparr>g_mem := m', g_hash := h', g_hcount := card (client_keys m' (ps @ [a]))\<rparr>)"
      "same_records (g_mem s) m'" "\<forall>k. entered m' h' xs (ps @ [a]) k"
    using hash_add_ok [OF Cons.prems(1-7)] by blast
  define s1 where "s1 = s\<lparr>g_mem := m', g_hash := h', g_hcount := card (client_keys m' (ps @ [a]))\<rparr>"
  have alive: "g_mem s x = None \<longleftrightarrow> m' x = None" for x by (rule same_records_alive [OF m(2)])
  have nx: "map_option gl_next (g_mem s x) = map_option gl_next (m' x)" for x
    by (rule same_next [OF m(2)])
  obtain r where r: "p = Addr a" "g_mem s a = Some r" "chained gl_next (g_mem s) (gl_next r) rest"
    using Cons.prems(8) by auto
  obtain r' where r': "m' a = Some r'" "gl_next r' = gl_next r" using nx [of a] r(2) by (cases "m' a") auto
  have "chained gl_next (g_mem s) q rest = chained gl_next m' q rest" for q by (rule chained_cong) (rule nx)
  then have "chained gl_next m' (gl_next r') rest" using r(3) r'(2) by simp
  moreover have "client_keys (g_mem s) xs = client_keys m' xs" by (rule client_keys_same [OF m(2)])
  moreover have f: "g_mem s1 = m'" "g_hash s1 = h'" "g_fresh s1 = g_fresh s" "g_room s1 = g_room s"
    "g_hcount s1 = card (client_keys m' (ps @ [a]))" by (simp_all add: s1_def)
  ultimately have "\<exists>m'' h''. hash_all k (gl_next r') s1 = Inr (True, s1\<lparr>g_mem := m'', g_hash := h'', g_hcount := card (client_keys m'' xs)\<rparr>) \<and>
      same_records (g_mem s1) m'' \<and> hashed m'' h'' xs"
    by (intro Cons.IH [of s1 "ps @ [a]"]) (use m(3) Cons.prems(2-5,7) n(2) alive in \<open>simp_all add: f\<close>)
  then obtain m'' h'' where h: "hash_all k (gl_next r') s1 = Inr (True, s1\<lparr>g_mem := m'', g_hash := h'', g_hcount := card (client_keys m'' xs)\<rparr>)"
      "same_records m' m''" "hashed m'' h'' xs" using f(1) by metis
  have "hash_all n p s = hash_all k (gl_next r') s1"
    using m(1) r(1) r'(1) n by (simp add: s1_def deref_def)
  then show ?case using h same_records_trans [OF m(2) h(2)] by (auto simp: s1_def)
qed

end
