(* ===== verification/Greyd.thy ===== *)
theory Greyd
  imports GreyStore LocalMbox
begin

text \<open>
  The requests of \<^verbatim>\<open>qmail-greyd.c\<close>: one turn of its main loop, the context file, and its client \<^verbatim>\<open>greylist.c\<close>. Signals are
  handled between requests. The clock is read by \<^verbatim>\<open>search_record\<close> and again by \<^verbatim>\<open>add_record\<close>: \<open>now\<close> and \<open>now'\<close>.
\<close>

section \<open>The answer\<close>

definition answer_of :: "int \<Rightarrow> bytes" where
  "answer_of st =
     (if st = RECORD_EARLY then [NUL, CHR 0x02] else if st = RECORD_STALE then [NUL, CHR 0x03]
      else if st = RECORD_WHITE then [CHR 0x01, CHR 0x01] else if st = RECORD_OK then [CHR 0x01, CHR 0x02]
      else if st = RECORD_GREY then [CHR 0x01, CHR 0x03] else if st = RECORD_BOUNCE then [CHR 0x01, CHR 0x04]
      else [CHR ''0'', CHR 0x05])"

text \<open>\<^verbatim>\<open>send_response\<close>: the datagram it sends, \<open>*grey\<close> and \<open>*record_added\<close>.\<close>

definition send_response ::
  "libq \<Rightarrow> hexlib \<Rightarrow> matchlib \<Rightarrow> gconf \<Rightarrow> int \<Rightarrow> int \<Rightarrow> bytes \<Rightarrow> bytes \<Rightarrow> bytes \<Rightarrow> greyd \<Rightarrow> ((bytes \<times> gptr \<times> bool) \<times> greyd) gres" where
  "send_response L X M conf now now' ip rpath rcpt s =
     gbind (search_record L X M conf now ip rpath rcpt s) (\<lambda>((st, grey), s).
       if st = RECORD_NEW then
         gbind (add_record L X now' ip rpath rcpt s) (\<lambda>((ok, grey), s).
           Inr (if ok then (([NUL, CHR 0x01], grey, True), s) else (([NUL, CHR 0x04], grey, False), s)))
       else Inr ((answer_of st, grey, False), s))"

section \<open>One request\<close>

text \<open>
  The memory at \<^verbatim>\<open>rdata\<close> keeps what earlier requests left behind the present one; \<^verbatim>\<open>client_ip\<close> and \<^verbatim>\<open>rpath\<close> point into it
  (as offsets; \<open>None\<close>: null, or the memory has moved) and keep their values from one request to the next.
\<close>

record gmain =
  gm_db :: greyd
  gm_rdata :: bytes
  gm_client_ip :: "nat option"
  gm_rpath :: "nat option"

definition receive :: "bytes \<Rightarrow> gmain \<Rightarrow> gmain gres" where
  "receive pkt s =
     (let n = length pkt; rdata_len = length (gm_rdata s);
          moved = s\<lparr>gm_rdata := pkt, gm_client_ip := None, gm_rpath := None\<rparr>
      in if rdata_len < n then Inr moved
         else if n = 0 then Inl Undefined     \<comment> \<open>\<^verbatim>\<open>rdata_len/n\<close>\<close>
         else if rdata_len div n > 2 then Inr moved
         else Inr (s\<lparr>gm_rdata := pkt @ drop n (gm_rdata s)\<rparr>))"

record gscan =
  gs_state :: nat
  gs_client_ip :: "nat option"
  gs_rpath :: "nat option"
  gs_head :: "nat option"       \<comment> \<open>\<^verbatim>\<open>rcpt_head\<close>\<close>
  gs_rcptlen :: nat

text \<open>One field at \<open>ptr\<close>; every field is printed from its second byte on.\<close>

definition scan_field :: "bytes \<Rightarrow> nat \<Rightarrow> nat \<Rightarrow> gscan \<Rightarrow> (nat \<times> gscan) gres" where
  "scan_field buf n ptr g =
     (let c = buf ! ptr;
          g = (if c = CHR ''I'' then g\<lparr>gs_client_ip := Some (ptr + 1), gs_state := gs_state g + 1\<rparr>
               else if c = CHR ''F'' then g\<lparr>gs_rpath := Some (ptr + 1), gs_state := gs_state g + 1\<rparr>
               else if c = CHR ''T'' \<and> gs_head g = None then g\<lparr>gs_head := Some ptr\<rparr> else g)
      in if no_nul (drop (ptr + 1) buf) then Inl Undefined
         else
           let len = length (cstr (drop ptr buf)) + 1;
               g = (if c = CHR ''T'' then g\<lparr>gs_rcptlen := gs_rcptlen g + len\<rparr> else g);
               g = (if ptr + len = n then g\<lparr>gs_state := 0\<rparr> else g)
           in Inr (ptr + len, g))"

function scan_fields :: "bytes \<Rightarrow> nat \<Rightarrow> nat \<Rightarrow> gscan \<Rightarrow> gscan gres" where
  "scan_fields buf n ptr g =
     (if ptr + 1 < n
      then case scan_field buf n ptr g of Inl e \<Rightarrow> Inl e | Inr (ptr', g') \<Rightarrow> scan_fields buf n ptr' g'
      else Inr g)"
  by pat_completeness auto
termination
  by (relation "measure (\<lambda>(buf, n, ptr, g). n - ptr)") (auto simp: scan_field_def Let_def split: if_splits)

declare scan_fields.simps [simp del]

text \<open>The C string at an offset.\<close>

definition text_at :: "bytes \<Rightarrow> nat option \<Rightarrow> bytes gres" where
  "text_at buf p =
     (case p of None \<Rightarrow> Inl Undefined
      | Some i \<Rightarrow> if i \<le> length buf \<and> \<not> no_nul (drop i buf) then Inr (cstr (drop i buf)) else Inl Undefined)"

text \<open>The answer to a request that could be read, and the new record in the hash table.\<close>

definition greyd_answer ::
  "libq \<Rightarrow> hexlib \<Rightarrow> matchlib \<Rightarrow> gconf \<Rightarrow> int \<Rightarrow> int \<Rightarrow> bytes \<Rightarrow> bytes \<Rightarrow> bytes \<Rightarrow> greyd \<Rightarrow> (bytes \<times> greyd) gres" where
  "greyd_answer L X M conf now now' ip rpath rcpt db =
     gbind (send_response L X M conf now now' ip rpath rcpt db) (\<lambda>((reply, grey, added), db).
     gbind (if grey = Null then Inr db else gbind (deref db grey) (\<lambda>_. Inr db)) (\<lambda>db.
     gbind (case grey of
              Addr a \<Rightarrow> if added then gbind (create_hash conf (Some a) db) (\<lambda>(ok, db). if ok then Inr db else Inl (Died 1)) else Inr db
            | _ \<Rightarrow> Inr db) (\<lambda>db.
     Inr (reply, db))))"

text \<open>One datagram: the reply, if there is one, and the next state of the daemon.\<close>

definition greyd_request ::
  "libq \<Rightarrow> hexlib \<Rightarrow> matchlib \<Rightarrow> gconf \<Rightarrow> int \<Rightarrow> int \<Rightarrow> bytes \<Rightarrow> gmain \<Rightarrow> (bytes option \<times> gmain) gres" where
  "greyd_request L X M conf now now' pkt s =
     gbind (receive pkt s) (\<lambda>s.
     if gm_rdata s ! 0 \<noteq> CHR ''I'' then Inr (None, s)
     else
       gbind (scan_fields (gm_rdata s) (length pkt) 0
                \<lparr>gs_state = 0, gs_client_ip = gm_client_ip s, gs_rpath = gm_rpath s, gs_head = None, gs_rcptlen = 0\<rparr>) (\<lambda>g.
       let s = s\<lparr>gm_client_ip := gs_client_ip g, gm_rpath := gs_rpath g\<rparr> in
       if gs_state g \<noteq> 2 \<or> gs_rcptlen g = 0 then Inr (None, s)
       else
         gbind (text_at (gm_rdata s) (gs_client_ip g)) (\<lambda>ip.
         gbind (text_at (gm_rdata s) (gs_rpath g)) (\<lambda>rpath.
         gbind (greyd_answer L X M conf now now' ip rpath
                  (take (gs_rcptlen g) (drop (the (gs_head g)) (gm_rdata s))) (gm_db s)) (\<lambda>(reply, db).
         Inr (Some reply, s\<lparr>gm_db := db\<rparr>))))))"

text \<open>The daemon with nothing loaded.\<close>

definition greyd_empty :: greyd where
  "greyd_empty = \<lparr>g_mem = \<lambda>_. None, g_fresh = 0, g_head = Null, g_tail = Null, g_count = 0, g_hash = \<lambda>_. None, g_room = 0,
     g_hcount = 0, g_allocated = 0\<rparr>"

definition greyd_main :: "greyd \<Rightarrow> gmain" where
  "greyd_main db = \<lparr>gm_db = db, gm_rdata = [], gm_client_ip = None, gm_rpath = None\<rparr>"

section \<open>The context file\<close>

text \<open>\<^verbatim>\<open>save_context\<close>: the bytes written for one record, and the new contents of the file (\<open>old\<close> is what it was).\<close>

definition context_line :: "libq \<Rightarrow> greylst \<Rightarrow> bytes" where
  "context_line L r =
     gl_ip_str r @ [NUL] @ gl_rpath r @ [NUL] @ lq_fmt_ulong L (length (gl_rcpt r)) @ [NUL] @ gl_rcpt r @
     lq_fmt_ulong L (nat (u64 (gl_timestamp r))) @ [NUL] @ [char_of (nat (gl_status r))] @ [LF]"

fun save_loop :: "libq \<Rightarrow> gconf \<Rightarrow> int \<Rightarrow> nat \<Rightarrow> gptr \<Rightarrow> greyd \<Rightarrow> bytes gres" where
  "save_loop L conf now n Null s = Inr []"
| "save_loop L conf now n Junk s = Inl Undefined"
| "save_loop L conf now 0 (Addr a) s = Inl Forever"
| "save_loop L conf now (Suc n) (Addr a) s =
     gbind (deref s (Addr a)) (\<lambda>r.
     gbind (save_loop L conf now n (gl_next r) s) (\<lambda>out.
     Inr ((if u64 (gl_timestamp r) < u64 (now - int (gc_timeout conf)) then [] else context_line L r) @ out)))"

definition save_context :: "libq \<Rightarrow> gconf \<Rightarrow> int \<Rightarrow> greyd \<Rightarrow> bytes option \<Rightarrow> bytes option gres" where
  "save_context L conf now s old =
     (if g_count s = 0 then Inr old else gbind (save_loop L conf now (g_fresh s) (g_head s) s) (\<lambda>out. Inr (Some out)))"

text \<open>
  A field of a line, up to its NUL, and what is behind it. Outside the line lies memory without a defined value.
\<close>

definition line_field :: "bytes \<Rightarrow> (bytes \<times> bytes) gres" where
  "line_field s = (if no_nul s then Inl Undefined else Inr (cstr s, drop (length (cstr s) + 1) s))"

definition line_number :: "libq \<Rightarrow> bytes \<Rightarrow> nat gres" where
  "line_number L f = (let (i, u) = lq_scan_ulong L f in if i = 0 then Inl Undefined else Inr u)"

text \<open>The line with the NUL appended: address, sender, recipients, time and status.\<close>

definition parse_line :: "libq \<Rightarrow> bytes \<Rightarrow> (bytes \<times> bytes \<times> bytes \<times> nat \<times> char) gres" where
  "parse_line L line =
     gbind (line_field line) (\<lambda>(ip, s).
     gbind (line_field s) (\<lambda>(rpath, s).
     gbind (line_field s) (\<lambda>(f, s).
     gbind (line_number L f) (\<lambda>rcptlen.
     if length s < rcptlen then Inl Undefined
     else
       gbind (line_field (drop rcptlen s)) (\<lambda>(f, t).
       gbind (line_number L f) (\<lambda>timestamp.
       if t = [] then Inl Undefined else Inr (ip, rpath, take rcptlen s, timestamp, hd t)))))))"

text \<open>
  One record of \<^verbatim>\<open>load_context\<close>. It is linked and entered into the table before it is filled, and \<^verbatim>\<open>attempts\<close>, \<^verbatim>\<open>ip_prev\<close> and
  \<^verbatim>\<open>ip_next\<close> are not assigned. False: an address that cannot be read; the record is freed and the loading ends.
\<close>

definition load_record ::
  "libq \<Rightarrow> hexlib \<Rightarrow> gconf \<Rightarrow> bytes \<Rightarrow> bytes \<Rightarrow> bytes \<Rightarrow> int \<Rightarrow> int \<Rightarrow> greyd \<Rightarrow> (bool \<times> greyd) gres" where
  "load_record L X conf ip rpath rcpt timestamp status s =
     (let a = g_fresh s;
          r = \<lparr>gl_ip = [], gl_ip_str = ip, gl_rpath = [], gl_rcpt = [], gl_timestamp = timestamp, gl_attempts = None,
               gl_status = status, gl_prev = (if g_head s = Null then Null else g_tail s), gl_next = Null,
               gl_ip_prev = Junk, gl_ip_next = Junk\<rparr>;
          s1 = s\<lparr>g_mem := (g_mem s)(a := Some r), g_fresh := a + 1, g_tail := Addr a\<rparr>
      in gbind (if g_head s = Null then Inr (s1\<lparr>g_head := Addr a\<rparr>)
                else assign (\<lambda>x. x\<lparr>gl_next := Addr a\<rparr>) (g_tail s) s1) (\<lambda>s2.
         if 72 \<le> length ip then Inl Undefined
         else gbind (create_hash conf (Some a) s2) (\<lambda>(ok, s3).
           if \<not> ok then Inl (Died 1)
           else
             let s4 = s3\<lparr>g_count := g_count s3 + 1\<rparr>
             in case ip6_scan L X ip of
                  None \<Rightarrow> Inr (False, free_at a s4)
                | Some (_, d) \<Rightarrow>
                  gbind (assign (\<lambda>x. x\<lparr>gl_ip := d, gl_rpath := rpath, gl_rcpt := rcpt\<rparr>) (Addr a) s4) (\<lambda>s5. Inr (True, s5)))))"

text \<open>
  One round of the loop of \<^verbatim>\<open>load_context\<close>: whether it goes on, the state and the rest of the file. \<open>verbose\<close> says whether the
  option is above 1: only then are expired records left out.
\<close>

definition load_round ::
  "libq \<Rightarrow> hexlib \<Rightarrow> gconf \<Rightarrow> bool \<Rightarrow> int \<Rightarrow> bytes \<Rightarrow> greyd \<Rightarrow> (bool \<times> greyd) gres" where
  "load_round L X conf verbose now line s =
     gbind (parse_line L (line @ [NUL])) (\<lambda>(ip, rpath, rcpt, timestamp, status).
       if verbose \<and> u64 (int timestamp) < u64 (now - int (gc_timeout conf)) then Inr (True, s)
       else load_record L X conf ip rpath rcpt (s64 (int timestamp)) (schar status) s)"

function load_loop :: "libq \<Rightarrow> hexlib \<Rightarrow> gconf \<Rightarrow> bool \<Rightarrow> int \<Rightarrow> bytes \<Rightarrow> greyd \<Rightarrow> greyd gres" where
  "load_loop L X conf verbose now file s =
     (if file = [] then Inr s
      else case load_round L X conf verbose now (fst (getln file)) s of
             Inl e \<Rightarrow> Inl e
           | Inr (ok, s') \<Rightarrow>
             if ok \<and> fst (snd (getln file)) then load_loop L X conf verbose now (snd (snd (getln file))) s' else Inr s')"
  by pat_completeness auto
termination
proof (relation "measure (\<lambda>(L, X, conf, v, now, file, s). length file)", goal_cases)
  case (2 L X conf v now b s r ok s')
  then show ?case using getln_shorter [of b "fst (getln b)" "snd (snd (getln b))"] by simp (metis prod.collapse)
qed simp

declare load_loop.simps [simp del]

definition load_context :: "libq \<Rightarrow> hexlib \<Rightarrow> gconf \<Rightarrow> bool \<Rightarrow> int \<Rightarrow> bytes option \<Rightarrow> greyd gres" where
  "load_context L X conf verbose now f =
     (case f of None \<Rightarrow> Inr greyd_empty | Some b \<Rightarrow> load_loop L X conf verbose now b greyd_empty)"

section \<open>The client\<close>

text \<open>The datagram that \<^verbatim>\<open>greylist\<close> sends, and its result: the answer, or nothing in time.\<close>

definition grey_packet :: "bytes \<Rightarrow> bytes \<Rightarrow> bytes \<Rightarrow> bytes" where
  "grey_packet connectingip from tolist = ''I'' @ connectingip @ [NUL] @ ''F'' @ from @ [NUL] @ tolist @ [NUL]"

definition greylist_result :: "bytes option \<Rightarrow> int" where
  "greylist_result reply = (case reply of None \<Rightarrow> -1 | Some r \<Rightarrow> if r ! 0 = NUL then 0 else 1)"

end
