(* ===== verification/GreyFacts.thy ===== *)
theory GreyFacts
  imports GreyInv Greyd
begin

text \<open>
  The greylisting daemon as a list of records: what its store is like between two requests, and what
  \<^verbatim>\<open>create_hash\<close>, \<^verbatim>\<open>search_record\<close> and \<^verbatim>\<open>add_record\<close> do to that list.
\<close>

section \<open>The invariant\<close>

definition linked_ok :: "libq \<Rightarrow> hexlib \<Rightarrow> greyd \<Rightarrow> nat list \<Rightarrow> bool" where
  "linked_ok L X s xs \<longleftrightarrow>
     chained gl_next (g_mem s) (g_head s) xs \<and> distinct xs \<and> (\<forall>a \<in> set xs. a < g_fresh s) \<and>
     (xs \<noteq> [] \<longrightarrow> g_tail s = Addr (last xs)) \<and> backs (g_mem s) Null xs \<and> g_count s = int (length xs) \<and>
     (\<forall>a \<in> set xs. \<exists>r n. g_mem s a = Some r \<and> ip6_scan L X (gl_ip_str r) = Some (n, gl_ip r))"

definition table_ok :: "gconf \<Rightarrow> greyd \<Rightarrow> nat list \<Rightarrow> bool" where
  "table_ok conf s xs \<longleftrightarrow>
     hashed (g_mem s) (g_hash s) xs \<and> g_hcount s = card (client_keys (g_mem s) xs) \<and>
     g_hcount s \<le> gc_hash_size conf * g_allocated s \<and>
     (g_allocated s \<noteq> 0 \<longrightarrow> g_room s = 125 * gc_hash_size conf * g_allocated s div 100)"

definition grey_ok :: "libq \<Rightarrow> hexlib \<Rightarrow> gconf \<Rightarrow> greyd \<Rightarrow> nat list \<Rightarrow> bool" where
  "grey_ok L X conf s xs \<longleftrightarrow> linked_ok L X s xs \<and> table_ok conf s xs"

lemma linked_alive: "linked_ok L X s xs \<Longrightarrow> \<forall>a \<in> set xs. g_mem s a \<noteq> None"
  by (auto simp: linked_ok_def)

lemma linked_length:
  assumes "linked_ok L X s xs"
  shows "length xs \<le> g_fresh s"
proof -
  have "set xs \<subseteq> {..<g_fresh s}" "distinct xs" using assms by (auto simp: linked_ok_def)
  then show ?thesis using card_mono [of "{..<g_fresh s}" "set xs"] by (simp add: distinct_card)
qed

lemma linked_same:
  assumes "linked_ok L X s xs" "same_records (g_mem s) (g_mem s')"
    "g_head s' = g_head s" "g_tail s' = g_tail s" "g_fresh s' = g_fresh s" "g_count s' = g_count s"
  shows "linked_ok L X s' xs"
proof -
  have "chained gl_next (g_mem s') p xs = chained gl_next (g_mem s) p xs" for p
    by (rule chained_cong) (rule same_next [OF assms(2), symmetric])
  moreover have "backs (g_mem s') p xs = backs (g_mem s) p xs" for p
    by (rule backs_cong) (rule same_prev [OF assms(2), symmetric])
  moreover have "\<exists>r' n. g_mem s' a = Some r' \<and> ip6_scan L X (gl_ip_str r') = Some (n, gl_ip r')"
    if m: "g_mem s a = Some r" and i: "ip6_scan L X (gl_ip_str r) = Some (n, gl_ip r)" for a r n
  proof -
    obtain r' where r': "g_mem s' a = Some r'"
      using same_records_alive [OF assms(2), of a] m by (cases "g_mem s' a") auto
    then have "relinked r = relinked r'" using assms(2) m unfolding same_records_def by (metis option.map(2) option.inject)
    then have "gl_ip_str r = gl_ip_str r'" "gl_ip r = gl_ip r'" by (metis relinked_fields(1), metis relinked_fields(4))
    then show ?thesis using r' i by auto
  qed
  ultimately show ?thesis using assms(1,3-6) by (simp add: linked_ok_def) blast
qed

lemma room_enough: "n \<le> 125 * n div (100 :: nat)"
  by (simp add: less_eq_div_iff_mult_less_eq)

lemma client_keys_le:
  "\<forall>a \<in> set ps. m a \<noteq> None \<Longrightarrow> m a = Some r \<Longrightarrow> card (client_keys m (ps @ [a])) \<le> card (client_keys m ps) + 1"
  by (simp add: client_keys_snoc)

text \<open>The table takes the record that was just linked; it is made anew when as many clients as it was made for are in it.\<close>

lemma create_hash_new:
  assumes lk: "linked_ok L X s (xs @ [a])" and tb: "table_ok conf s xs" and r: "g_mem s a = Some r" "gl_ip_next r = Null"
    and hs: "0 < gc_hash_size conf" "125 * gc_hash_size conf * (g_allocated s + 1) < 2 ^ 31"
  shows "\<exists>s'. create_hash conf (Some a) s = Inr (True, s') \<and> grey_ok L X conf s' (xs @ [a]) \<and>
    same_records (g_mem s) (g_mem s') \<and> g_allocated s' \<le> g_allocated s + 1 \<and> g_fresh s' = g_fresh s"
proof -
  let ?hs = "gc_hash_size conf" and ?al = "g_allocated s" and ?m = "g_mem s"
  note alive = linked_alive [OF lk] and len = linked_length [OF lk]
  have alive': "\<forall>x \<in> set xs. ?m x \<noteq> None" using alive by simp
  have dist: "distinct (xs @ [a])" and fol: "chained gl_next ?m (g_head s) (xs @ [a])"
    using lk by (simp_all add: linked_ok_def)
  have ent: "entered ?m (g_hash s) (xs @ [a]) xs k" for k
    using entered_new [of ?m "g_hash s" xs a r k] r tb by (simp add: table_ok_def)
  have hc: "g_hcount s = card (client_keys ?m xs)" "g_hcount s \<le> ?hs * ?al" using tb by (simp_all add: table_ok_def)
  have keys: "card (client_keys ?m (xs @ [a])) \<le> g_hcount s + 1" using client_keys_le [OF alive' r(1)] hc(1) by simp
  have fin: "\<exists>s'. Inr (True, t\<lparr>g_mem := m', g_hash := h', g_hcount := card (client_keys m' (xs @ [a]))\<rparr>) = (Inr (True, s') :: (bool \<times> greyd) gres) \<and>
      grey_ok L X conf s' (xs @ [a]) \<and> same_records ?m (g_mem s') \<and> g_allocated s' \<le> ?al + 1 \<and> g_fresh s' = g_fresh s"
    if "same_records ?m m'" "hashed m' h' (xs @ [a])" "g_allocated t \<le> ?al + 1" "g_hcount s + 1 \<le> ?hs * g_allocated t"
      "g_allocated t \<noteq> 0 \<longrightarrow> g_room t = 125 * ?hs * g_allocated t div 100"
      "g_head t = g_head s" "g_tail t = g_tail s" "g_fresh t = g_fresh s" "g_count t = g_count s" for t m' h'
  proof -
    let ?s' = "t\<lparr>g_mem := m', g_hash := h', g_hcount := card (client_keys m' (xs @ [a]))\<rparr>"
    have "linked_ok L X ?s' (xs @ [a])" by (rule linked_same [OF lk]) (use that in simp_all)
    moreover have "table_ok conf ?s' (xs @ [a])"
      using that(2,4,5) keys client_keys_same [OF that(1), of "xs @ [a]"] by (simp add: table_ok_def)
    ultimately show ?thesis using that(1,3,8) by (simp add: grey_ok_def)
  qed
  show ?thesis
  proof (cases "g_hcount s mod ?hs = 0")
    case False
    have "g_hcount s \<noteq> ?hs * ?al" using False by auto
    then have lt: "g_hcount s + 1 \<le> ?hs * ?al" using hc(2) by simp
    then have al: "?al \<noteq> 0" by (cases "?al") auto
    have room: "card (client_keys ?m (xs @ [a])) \<le> g_room s"
      using tb al keys lt room_enough [of "?hs * ?al"] by (simp add: table_ok_def mult.assoc)
    from hash_add_ok [where rest = "[]" and a = a, OF ent _ dist alive len hc(1) room] obtain m' h' where
      m': "hash_add a s = Inr (True, s\<lparr>g_mem := m', g_hash := h', g_hcount := card (client_keys m' (xs @ [a]))\<rparr>)"
        "same_records ?m m'" "\<And>k. entered m' h' (xs @ [a]) (xs @ [a]) k" by auto
    show ?thesis
      using fin [OF m'(2) entered_whole [OF m'(3)], of s] lt tb False m'(1) by (simp add: create_hash_def Let_def table_ok_def)
  next
    case True
    show ?thesis
    proof (cases "?al = 0")
      case T: True
      have "client_keys ?m xs = {}" using hc T by (simp add: client_keys_def)
      then have xs: "xs = []" by (simp add: client_keys_def)
      define t where "t = s\<lparr>g_allocated := 1, g_room := 125 * ?hs div 100\<rparr>"
      have room: "card (client_keys (g_mem t) (xs @ [a])) \<le> g_room t"
        using keys hc(2) T hs(1) room_enough [of ?hs] by (simp add: t_def)
      have e: "\<And>k. entered (g_mem t) (g_hash t) (xs @ [a]) xs k" using ent by (simp add: t_def)
      have "\<exists>m' h'. hash_add a t = Inr (True, t\<lparr>g_mem := m', g_hash := h', g_hcount := card (client_keys m' (xs @ [a]))\<rparr>) \<and>
          same_records (g_mem t) m' \<and> (\<forall>k. entered m' h' (xs @ [a]) (xs @ [a]) k)"
        by (rule hash_add_ok [where rest = "[]" and a = a, OF e _ dist _ _ _ room]) (use alive len hc in \<open>simp_all add: t_def\<close>)
      then obtain m' h' where
        m': "hash_add a t = Inr (True, t\<lparr>g_mem := m', g_hash := h', g_hcount := card (client_keys m' (xs @ [a]))\<rparr>)"
          "same_records ?m m'" "\<And>k. entered m' h' (xs @ [a]) (xs @ [a]) k" by (auto simp: t_def)
      have "create_hash conf (Some a) s = hash_add a t"
        using True T hs(2) by (simp add: create_hash_def Let_def t_def)
      then show ?thesis
        using fin [OF m'(2) entered_whole [OF m'(3)], of t] m'(1) hc(2) hs(1) T by (simp add: t_def)
    next
      case F: False
      define t where "t = s\<lparr>g_allocated := ?al + 1, g_hash := \<lambda>_. None, g_hcount := 0, g_room := 125 * ?hs * (?al + 1) div 100\<rparr>"
      have step: "?hs * ?al + 1 \<le> ?hs * (?al + 1)" using hs(1) by simp
      have room: "card (client_keys (g_mem t) (xs @ [a])) \<le> g_room t"
        using keys hc(2) step room_enough [of "?hs * (?al + 1)"] by (simp add: t_def mult.assoc)
      have e: "\<And>k. entered (g_mem t) (g_hash t) (xs @ [a]) [] k" using entered_fresh [OF ent] by (simp add: t_def)
      have "\<exists>m' h'. hash_all (g_fresh s) (g_head s) t = Inr (True, t\<lparr>g_mem := m', g_hash := h', g_hcount := card (client_keys m' (xs @ [a]))\<rparr>) \<and>
          same_records (g_mem t) m' \<and> hashed m' h' (xs @ [a])"
        by (rule hash_all_ok [where rest = "xs @ [a]", OF e _ dist _ _ _ room])
          (use alive len fol in \<open>simp_all add: t_def client_keys_def\<close>)
      then obtain m' h' where
        m': "hash_all (g_fresh s) (g_head s) t = Inr (True, t\<lparr>g_mem := m', g_hash := h', g_hcount := card (client_keys m' (xs @ [a]))\<rparr>)"
          "same_records ?m m'" "hashed m' h' (xs @ [a])" by (auto simp: t_def)
      have "create_hash conf (Some a) s = hash_all (g_fresh s) (g_head s) t"
        using True F hs(2) by (simp add: create_hash_def Let_def t_def)
      then show ?thesis
        using fin [OF m'(2,3), of t] m'(1) hc(2) step by (simp add: t_def)
    qed
  qed
qed

end
