(* ===== verification/GreySpec.thy ===== *)
theory GreySpec
  imports GreyFacts
begin

text \<open>
  The daemon's own rules on a plain list of records, and the proof that its linked store follows them: every request
  on the store has the effect of \<open>grey_step\<close> on the list. The rules are read from \<^verbatim>\<open>search_record\<close> and its callers and not from
  the manual page, from which they depart in two points. \<^verbatim>\<open>qmail-greyd(8)\<close> lets a client that was successful
  before pass for any sender and recipient, the code (\<^verbatim>\<open>qmail-greyd.c:623\<close>) looks for a record of the same client and the same
  recipients; and the code compares the senders only as far as the present one goes (\<^verbatim>\<open>qmail-greyd.c:625\<close>).
\<close>

section \<open>The rules on a list\<close>

record grec =
  gr_ip :: bytes
  gr_from :: bytes
  gr_rcpt :: bytes
  gr_time :: int
  gr_status :: int

text \<open>A record is found by the client, the recipients and the beginning of the sender, as in \<^verbatim>\<open>search_hash\<close>.\<close>

definition matches :: "bytes \<Rightarrow> bytes \<Rightarrow> bytes \<Rightarrow> grec \<Rightarrow> bool" where
  "matches ip from rcpt g \<longleftrightarrow> gr_ip g = ip \<and> take (length from) (gr_from g) = from \<and> gr_rcpt g = rcpt"

text \<open>A record that was let through before stays so within the timeout; otherwise the second try must fall into the window.\<close>

definition verdict :: "gconf \<Rightarrow> int \<Rightarrow> bytes \<Rightarrow> grec \<Rightarrow> int \<times> grec" where
  "verdict conf now from g =
     (if gr_status g \<in> {RECORD_GREY, RECORD_OK} \<and> now - int (gc_timeout conf) < gr_time g
      then (RECORD_OK, g\<lparr>gr_time := now, gr_status := RECORD_OK\<rparr>)
      else if now < gr_time g + int (gc_min_resend conf) then (RECORD_EARLY, g\<lparr>gr_status := RECORD_EARLY\<rparr>)
      else if gr_time g + int (gc_resend_window conf) < now then (RECORD_STALE, g\<lparr>gr_time := now, gr_status := RECORD_STALE\<rparr>)
      else if from \<noteq> [] then (RECORD_GREY, g\<lparr>gr_time := now, gr_status := RECORD_GREY\<rparr>)
      else (RECORD_BOUNCE, g\<lparr>gr_time := now, gr_status := RECORD_BOUNCE\<rparr>))"

fun amend :: "('a \<Rightarrow> bool) \<Rightarrow> 'a \<Rightarrow> 'a list \<Rightarrow> 'a list" where
  "amend P y [] = []"
| "amend P y (x # xs) = (if P x then y # xs else x # amend P y xs)"

text \<open>
  One request by the rules of the code: the reply and the new list; nothing when the oldest record is too old in a second in which expired records are
  removed. \<open>white\<close> says whether the client is on the white list.
\<close>

definition grey_step :: "gconf \<Rightarrow> bool \<Rightarrow> int \<Rightarrow> int \<Rightarrow> bytes \<Rightarrow> bytes \<Rightarrow> bytes \<Rightarrow> grec list \<Rightarrow> (bytes \<times> grec list) option" where
  "grey_step conf white now now' ip from rcpt gs =
     (let old = (\<lambda>g. gr_time g < now - int (gc_timeout conf));
          new = ([NUL, CHR 0x01], gs @ [\<lparr>gr_ip = ip, gr_from = from, gr_rcpt = rcpt, gr_time = now', gr_status = RECORD_NEW\<rparr>])
      in if white then Some ([CHR 0x01, CHR 0x01], gs)
         else if gs \<noteq> [] \<and> old (hd gs) \<and> now mod int (gc_free_interval conf) = 0 then None
         else if list_all old gs then Some new
         else case find (matches ip from rcpt) gs of
                None \<Rightarrow> Some new
              | Some g \<Rightarrow>
                let (st, g') = verdict conf now from g in Some (answer_of st, amend (matches ip from rcpt) g' gs))"

section \<open>The store as a list\<close>

definition grec_of :: "greylst \<Rightarrow> grec" where
  "grec_of r = \<lparr>gr_ip = gl_ip_str r, gr_from = gl_rpath r, gr_rcpt = gl_rcpt r, gr_time = gl_timestamp r, gr_status = gl_status r\<rparr>"

definition grecs :: "greyd \<Rightarrow> nat list \<Rightarrow> grec list" where
  "grecs s xs = map (\<lambda>a. grec_of (the (g_mem s a))) xs"

lemma grec_of_fields [simp]:
  "gr_ip (grec_of r) = gl_ip_str r" "gr_from (grec_of r) = gl_rpath r" "gr_rcpt (grec_of r) = gl_rcpt r"
  "gr_time (grec_of r) = gl_timestamp r" "gr_status (grec_of r) = gl_status r"
  by (simp_all add: grec_of_def)

lemma grecs_same:
  assumes "same_records (g_mem s) (g_mem s')"
  shows "grecs s xs = grecs s' xs"
proof -
  have "grec_of (the (g_mem s a)) = grec_of (the (g_mem s' a))" for a
  proof -
    have "grec_of (relinked r) = grec_of r" for r by (simp add: grec_of_def relinked_def)
    from same_records_field [OF assms, of grec_of a, OF this] same_records_alive [OF assms, of a]
    show ?thesis by (cases "g_mem s a"; cases "g_mem s' a") auto
  qed
  then show ?thesis by (simp add: grecs_def)
qed

text \<open>Times and options for which the arithmetic of the types of C is that of the integers.\<close>

definition conf_ok :: "gconf \<Rightarrow> bool" where
  "conf_ok conf \<longleftrightarrow> 0 < gc_hash_size conf \<and> gc_min_resend conf < 2 ^ 31 \<and> gc_resend_window conf < 2 ^ 31 \<and>
     0 < gc_free_interval conf \<and> gc_free_interval conf < 2 ^ 31"

definition time_ok :: "gconf \<Rightarrow> int \<Rightarrow> bool" where
  "time_ok conf now \<longleftrightarrow> int (gc_timeout conf) \<le> now \<and> now < 2 ^ 62"

definition times_ok :: "grec list \<Rightarrow> bool" where
  "times_ok gs \<longleftrightarrow> (\<forall>g \<in> set gs. 0 \<le> gr_time g \<and> gr_time g < 2 ^ 62)"

lemma u64_id: "0 \<le> x \<Longrightarrow> x < 2 ^ 64 \<Longrightarrow> u64 x = x"
  by (simp add: u64_def)

lemma s64_id: "0 \<le> x \<Longrightarrow> x < 2 ^ 63 \<Longrightarrow> s64 x = x"
  by (simp add: s64_def)

lemma s32_id: "0 \<le> x \<Longrightarrow> x < 2 ^ 31 \<Longrightarrow> s32 x = x"
  by (simp add: s32_def)

lemma s32_nat: "n < 2 ^ 31 \<Longrightarrow> s32 (int n) = int n"
  by (rule s32_id) simp_all

lemma judge_verdict:
  assumes "conf_ok conf" "time_ok conf now" "0 \<le> gl_timestamp r" "gl_timestamp r < 2 ^ 62"
  shows "fst (judge conf now from r) = fst (verdict conf now from (grec_of r)) \<and>
    grec_of (snd (judge conf now from r)) = snd (verdict conf now from (grec_of r))"
proof -
  have u: "u64 (gl_timestamp r) = gl_timestamp r" "u64 (now - int (gc_timeout conf)) = now - int (gc_timeout conf)"
    using assms(2-4) by (auto simp: time_ok_def intro!: u64_id)
  have s: "s32 (int (gc_min_resend conf)) = int (gc_min_resend conf)" "s32 (int (gc_resend_window conf)) = int (gc_resend_window conf)"
    using assms(1) by (auto simp: conf_ok_def intro!: s32_nat)
  show ?thesis by (simp add: judge_def verdict_def u s Let_def grec_of_def)
qed

lemma judge_keeps:
  "gl_ip (snd (judge conf now from r)) = gl_ip r" "gl_ip_str (snd (judge conf now from r)) = gl_ip_str r"
  "gl_next (snd (judge conf now from r)) = gl_next r" "gl_prev (snd (judge conf now from r)) = gl_prev r"
  "gl_ip_next (snd (judge conf now from r)) = gl_ip_next r"
  by (simp_all add: judge_def Let_def)

section \<open>One record changed\<close>

lemma linked_update:
  assumes "linked_ok L X s xs" "g_mem s a = Some r" "gl_next r' = gl_next r" "gl_prev r' = gl_prev r"
    "gl_ip_str r' = gl_ip_str r" "gl_ip r' = gl_ip r"
  shows "linked_ok L X (s\<lparr>g_mem := (g_mem s)(a \<mapsto> r')\<rparr>) xs"
proof -
  let ?m = "(g_mem s)(a \<mapsto> r')"
  have "chained gl_next ?m p xs = chained gl_next (g_mem s) p xs" for p
    by (rule chained_cong) (simp add: assms(2,3))
  moreover have "backs ?m p xs = backs (g_mem s) p xs" for p
    by (rule backs_cong) (simp add: assms(2,4))
  ultimately show ?thesis using assms(1,2,5,6) by (auto simp: linked_ok_def)
qed

lemma table_update:
  assumes "table_ok conf s xs" "g_mem s a = Some r" "gl_ip_next r' = gl_ip_next r" "gl_ip_str r' = gl_ip_str r"
  shows "table_ok conf (s\<lparr>g_mem := (g_mem s)(a \<mapsto> r')\<rparr>) xs"
proof -
  let ?m = "(g_mem s)(a \<mapsto> r')"
  have "own ?m k xs = own (g_mem s) k xs" for k by (rule own_cong) (simp add: assms(2,4))
  moreover have "chained gl_ip_next ?m p q = chained gl_ip_next (g_mem s) p q" for p q
    by (rule chained_cong) (simp add: assms(2,3))
  moreover have "client_keys ?m xs = client_keys (g_mem s) xs" unfolding client_keys_def by (rule image_cong) (simp_all add: assms(2,4))
  ultimately show ?thesis using assms(1) by (simp add: table_ok_def hashed_def)
qed

lemma find_amend:
  assumes "find (\<lambda>a. P (f a)) xs = Some x" "distinct xs"
  shows "find P (map f xs) = Some (f x) \<and> map (f(x := y)) xs = amend P y (map f xs) \<and> x \<in> set xs"
  using assms
proof (induction xs)
  case (Cons z xs)
  have "map (f(x := y)) xs = map f xs" if "x \<notin> set xs" using that by auto
  then show ?case using Cons by (auto split: if_splits)
qed simp

lemma find_none: "find (\<lambda>a. P (f a)) xs = None \<Longrightarrow> find P (map f xs) = None"
  by (auto simp: find_None_iff)

lemma find_filter: "find P (filter Q xs) = find (\<lambda>a. Q a \<and> P a) xs"
  by (induction xs) auto

section \<open>Search and addition\<close>

lemma search_hash_eq:
  assumes ok: "grey_ok L X conf s xs" and ip: "ip6_scan L X ip = Some (n, d)"
  shows "search_hash L X conf now ip from rcpt s =
    (case find (\<lambda>a. matches ip from rcpt (grec_of (the (g_mem s a)))) xs of
       None \<Rightarrow> Inr ((RECORD_NEW, Null), s)
     | Some a \<Rightarrow> let r = the (g_mem s a); (st, r') = judge conf now from r
         in Inr ((st, Addr a), s\<lparr>g_mem := (g_mem s)(a \<mapsto> r')\<rparr>))"
proof -
  have lk: "linked_ok L X s xs" and h: "chained gl_ip_next (g_mem s) (hptr (g_hash s ip)) (own (g_mem s) ip xs)"
    using ok by (simp_all add: grey_ok_def table_ok_def hashed_def)
  have "length (own (g_mem s) ip xs) \<le> g_fresh s" using own_length linked_length [OF lk] le_trans by blast
  note fc = find_chain_eq [OF h this, of d "from" rcpt]
  have "(map_option gl_ip_str (g_mem s a) = Some ip \<and> same_triplet d from rcpt (the (g_mem s a))) =
      matches ip from rcpt (grec_of (the (g_mem s a)))" if a: "a \<in> set xs" for a
  proof -
    obtain r k where r: "g_mem s a = Some r" "ip6_scan L X (gl_ip_str r) = Some (k, gl_ip r)"
      using lk a by (auto simp: linked_ok_def)
    then show ?thesis using ip by (auto simp: same_triplet_def matches_def)
  qed
  then have f: "find (\<lambda>a. same_triplet d from rcpt (the (g_mem s a))) (own (g_mem s) ip xs) =
      find (\<lambda>a. matches ip from rcpt (grec_of (the (g_mem s a)))) xs"
    unfolding own_def find_filter by (intro find_cong) auto
  show ?thesis
  proof (cases "g_hash s ip")
    case None
    then have "own (g_mem s) ip xs = []" using h by (simp add: chained_Null)
    then show ?thesis using None ip f by (simp add: search_hash_def)
  next
    case (Some e)
    show ?thesis
    proof (cases "find (\<lambda>a. matches ip from rcpt (grec_of (the (g_mem s a)))) xs")
      case None
      then show ?thesis using Some ip f fc by (simp add: search_hash_def)
    next
      case (Some a)
      then have "a \<in> set xs" by (auto simp: find_Some_iff)
      then obtain r where "g_mem s a = Some r" using linked_alive [OF lk] by auto
      then show ?thesis
        using Some \<open>g_hash s ip = Some e\<close> ip f fc by (simp add: search_hash_def deref_def assign_Addr Let_def split: prod.split)
    qed
  qed
qed

text \<open>Expired records are removed only when the oldest one is among them, and then its null \<^verbatim>\<open>prev\<close> is followed.\<close>

lemma expire_head:
  assumes "linked_ok L X s (a # xs)" "gl_timestamp (the (g_mem s a)) < s64 (now - int (gc_timeout conf))"
  shows "expire_records conf now s = Inl Undefined"
proof -
  obtain r where r: "g_mem s a = Some r" "g_head s = Addr a" "gl_prev r = Null" "chained gl_next (g_mem s) (gl_next r) xs"
    using assms(1) by (auto simp: linked_ok_def)
  obtain k where k: "g_fresh s = Suc k" using linked_length [OF assms(1)] by (cases "g_fresh s") auto
  have "expire_one a s = Inl Undefined"
  proof (cases xs)
    case Nil
    then show ?thesis using r by (simp add: expire_one_def deref_def assign_def)
  next
    case (Cons b ys)
    then obtain r' where "gl_next r = Addr b" "g_mem s b = Some r'" "a \<noteq> b"
      using r assms(1) by (auto simp: linked_ok_def)
    then show ?thesis using r by (simp add: expire_one_def deref_def assign_def)
  qed
  then show ?thesis using assms(2) r k by (simp add: expire_records_def deref_def)
qed

lemma search_record_eq:
  assumes ok: "grey_ok L X conf s xs" and c: "conf_ok conf" "time_ok conf now" "times_ok (grecs s xs)"
    and w: "client_white L M conf ip = Inr white"
  shows "search_record L X M conf now ip from rcpt s =
    (let old = (\<lambda>g. gr_time g < now - int (gc_timeout conf)); gs = grecs s xs in
     if white then Inr ((RECORD_WHITE, Null), s)
     else if gs \<noteq> [] \<and> old (hd gs) \<and> now mod int (gc_free_interval conf) = 0 then Inl Undefined
     else if list_all old gs then Inr ((RECORD_NEW, Null), s)
     else search_hash L X conf now ip from rcpt s)"
proof -
  have lk: "linked_ok L X s xs" using ok by (simp add: grey_ok_def)
  have fi: "s32 (int (gc_free_interval conf)) = int (gc_free_interval conf)" "int (gc_free_interval conf) \<noteq> 0"
    using c(1) by (auto simp: conf_ok_def intro: s32_nat)
  let ?old = "now - int (gc_timeout conf)"
  have o: "u64 ?old = ?old" "s64 ?old = ?old" using c(2) by (auto simp: time_ok_def intro!: u64_id s64_id)
  show ?thesis
  proof (cases xs)
    case Nil
    then have "g_head s = Null" using lk by (simp add: linked_ok_def)
    then show ?thesis using w Nil by (simp add: search_record_def grecs_def)
  next
    case (Cons a as)
    then obtain r where r: "g_mem s a = Some r" "g_head s = Addr a" using lk by (auto simp: linked_ok_def)
    have t: "0 \<le> gl_timestamp r" "gl_timestamp r < 2 ^ 62" using c(3) Cons r by (simp_all add: times_ok_def grecs_def)
    have u: "u64 (gl_timestamp r) = gl_timestamp r" using t by (intro u64_id) auto
    have ar: "any_recent (g_fresh s) ?old (Addr a) s = Inr (\<not> list_all (\<lambda>g. gr_time g < ?old) (grecs s xs))"
      using any_recent_eq [of s "Addr a" xs "g_fresh s" ?old] lk r linked_length [OF lk]
      by (auto simp: linked_ok_def grecs_def list_all_iff not_less)
    have ex: "gl_timestamp r < ?old \<Longrightarrow> expire_records conf now s = Inl Undefined"
      using expire_head [of L X s a as now conf] lk Cons r o by simp
    show ?thesis
      using w r u o fi ar ex Cons by (auto simp: search_record_def deref_def Let_def grecs_def)
  qed
qed

lemma chained_append:
  assumes "chained gl_next m p xs" "xs \<noteq> []" "distinct xs" "a \<notin> set xs" "m (last xs) = Some z" "gl_next r = Null"
  shows "chained gl_next (m(last xs \<mapsto> z\<lparr>gl_next := Addr a\<rparr>, a \<mapsto> r)) p (xs @ [a])"
  using assms
proof (induction xs arbitrary: p)
  case (Cons x q)
  show ?case
  proof (cases "q = []")
    case True
    then show ?thesis using Cons.prems by auto
  next
    case False
    obtain rx where rx: "p = Addr x" "m x = Some rx" "chained gl_next m (gl_next rx) q"
      using Cons.prems(1) by auto
    have "x \<noteq> last q" "x \<noteq> a" using Cons.prems(3,4) False by auto
    moreover have "chained gl_next (m(last q \<mapsto> z\<lparr>gl_next := Addr a\<rparr>, a \<mapsto> r)) (gl_next rx) (q @ [a])"
      by (rule Cons.IH [OF rx(3) False]) (use Cons.prems False in auto)
    ultimately show ?thesis using rx(1,2) False by (simp only: last.simps if_False chained.simps append_Cons) auto
  qed
qed simp

lemma backs_snoc:
  "backs m p (xs @ [a]) \<longleftrightarrow> backs m p xs \<and> (\<exists>r. m a = Some r \<and> gl_prev r = (if xs = [] then p else Addr (last xs)))"
  by (induction xs arbitrary: p) auto

lemma table_cong:
  assumes "table_ok conf s xs" "\<And>x. x \<in> set xs \<Longrightarrow> map_option gl_ip_next (m x) = map_option gl_ip_next (g_mem s x)"
    "\<And>x. x \<in> set xs \<Longrightarrow> map_option gl_ip_str (m x) = map_option gl_ip_str (g_mem s x)" "\<forall>x \<in> set xs. g_mem s x \<noteq> None"
    "g_mem s' = m" "g_hash s' = g_hash s" "g_hcount s' = g_hcount s" "g_allocated s' = g_allocated s" "g_room s' = g_room s"
  shows "table_ok conf s' xs"
proof -
  have o: "own m k xs = own (g_mem s) k xs" for k
    unfolding own_def by (rule filter_cong) (simp_all add: assms(3))
  moreover have "chained gl_ip_next m p (own m k xs) = chained gl_ip_next (g_mem s) p (own m k xs)" for p k
    by (rule chained_cong) (simp add: own_mem assms(2))
  moreover have "client_keys m xs = client_keys (g_mem s) xs"
    unfolding client_keys_def
  proof (rule image_cong)
    fix x assume "x \<in> set xs"
    then show "gl_ip_str (the (m x)) = gl_ip_str (the (g_mem s x))" using assms(3) [of x] assms(4) by (cases "m x"; cases "g_mem s x") auto
  qed simp
  ultimately show ?thesis using assms(1,5-9) by (simp add: table_ok_def hashed_def)
qed

lemma add_record_eq:
  assumes ok: "grey_ok L X conf s xs" and ip: "ip6_scan L X ip = Some (n, d)" "length ip < 72"
  shows "\<exists>s' r. add_record L X now ip from rcpt s = Inr ((True, Addr (g_fresh s)), s') \<and>
    linked_ok L X s' (xs @ [g_fresh s]) \<and> table_ok conf s' xs \<and> g_mem s' (g_fresh s) = Some r \<and> gl_ip_next r = Null \<and>
    grecs s' (xs @ [g_fresh s]) = grecs s xs @
      [\<lparr>gr_ip = ip, gr_from = from, gr_rcpt = rcpt, gr_time = now, gr_status = RECORD_NEW\<rparr>] \<and>
    g_allocated s' = g_allocated s"
proof -
  let ?a = "g_fresh s"
  have lk: "linked_ok L X s xs" and tb: "table_ok conf s xs" using ok by (simp_all add: grey_ok_def)
  have new: "?a \<notin> set xs" using lk by (auto simp: linked_ok_def)
  have alive: "\<forall>x \<in> set xs. g_mem s x \<noteq> None" by (rule linked_alive [OF lk])
  have hd: "g_head s = Null \<longleftrightarrow> xs = []" using lk by (cases xs) (auto simp: linked_ok_def)
  define r where "r = \<lparr>gl_ip = d, gl_ip_str = ip, gl_rpath = from, gl_rcpt = rcpt, gl_timestamp = now, gl_attempts = Some 1,
               gl_status = RECORD_NEW, gl_prev = (if xs = [] then Null else g_tail s), gl_next = Null,
               gl_ip_prev = Null, gl_ip_next = Null\<rparr>"
  define m where "m = (if xs = [] then (g_mem s)(?a \<mapsto> r)
    else (g_mem s)(last xs \<mapsto> (the (g_mem s (last xs)))\<lparr>gl_next := Addr ?a\<rparr>, ?a \<mapsto> r))"
  define s' where "s' = s\<lparr>g_mem := m, g_fresh := ?a + 1, g_tail := Addr ?a, g_count := g_count s + 1,
    g_head := (if xs = [] then Addr ?a else g_head s)\<rparr>"
  have last: "xs \<noteq> [] \<Longrightarrow> g_tail s = Addr (last xs) \<and> last xs \<in> set xs \<and> (\<exists>z. g_mem s (last xs) = Some z)"
    using lk alive by (auto simp: linked_ok_def)
  have res: "add_record L X now ip from rcpt s = Inr ((True, Addr ?a), s')"
  proof (cases "xs = []")
    case True
    then show ?thesis using ip hd by (cases s) (simp add: add_record_def assign_def deref_def s'_def m_def r_def Let_def)
  next
    case False
    then obtain z where "g_mem s (last xs) = Some z" "g_tail s = Addr (last xs)" "last xs \<noteq> ?a" using last new by metis
    then show ?thesis
      using ip hd False by (cases s) (simp add: add_record_def assign_def deref_def s'_def m_def r_def fun_upd_twist Let_def)
  qed
  have same: "map_option f (m x) = map_option f (g_mem s x)"
    if "x \<in> set xs" "\<And>r p. f (r\<lparr>gl_next := p\<rparr>) = f r" for f :: "greylst \<Rightarrow> 'b" and x
    using that new last by (auto simp: m_def)
  have ma: "m ?a = Some r" by (simp add: m_def)
  have old: "grec_of (the (m x)) = grec_of (the (g_mem s x))" if "x \<in> set xs" for x
    using same [OF that, of grec_of] alive that by (cases "m x"; cases "g_mem s x") (auto simp: grec_of_def)
  have "linked_ok L X s' (xs @ [?a])"
  proof -
    have "chained gl_next m (g_head s') (xs @ [?a])"
      using lk last new chained_append [of "g_mem s" "g_head s" xs ?a _ r] by (auto simp: s'_def m_def r_def linked_ok_def)
    moreover have "backs m Null (xs @ [?a])"
      using lk last ma backs_cong [of xs m "g_mem s" Null, OF same] by (auto simp: backs_snoc r_def linked_ok_def)
    moreover have "\<exists>r n. m x = Some r \<and> ip6_scan L X (gl_ip_str r) = Some (n, gl_ip r)" if x: "x \<in> set xs" for x
    proof -
      obtain r0 n0 where "g_mem s x = Some r0" "ip6_scan L X (gl_ip_str r0) = Some (n0, gl_ip r0)"
        using lk x by (auto simp: linked_ok_def)
      then show ?thesis using same [OF x, of "\<lambda>r. (gl_ip_str r, gl_ip r)"] by (cases "m x") auto
    qed
    ultimately show ?thesis using lk new ma ip by (auto simp: linked_ok_def s'_def r_def less_Suc_eq)
  qed
  moreover have "table_ok conf s' xs"
    by (rule table_cong [OF tb, of m]) (use alive in \<open>simp_all add: same s'_def\<close>)
  moreover have "grecs s' (xs @ [?a]) = grecs s xs @
      [\<lparr>gr_ip = ip, gr_from = from, gr_rcpt = rcpt, gr_time = now, gr_status = RECORD_NEW\<rparr>]"
    using old ma by (simp add: grecs_def s'_def grec_of_def r_def)
  moreover have "g_mem s' ?a = Some r" "gl_ip_next r = Null" "g_allocated s' = g_allocated s"
    using ma by (simp_all add: s'_def r_def)
  ultimately show ?thesis using res by blast
qed

section \<open>One answer\<close>

theorem greyd_answer_refines:
  assumes ok: "grey_ok L X conf s xs" and c: "conf_ok conf" "time_ok conf now" "times_ok (grecs s xs)"
    and w: "client_white L M conf ip = Inr white" and ip: "ip6_scan L X ip = Some (n, d)" "length ip < 72"
    and room: "125 * gc_hash_size conf * (g_allocated s + 1) < 2 ^ 31"
  shows "case grey_step conf white now now' ip from rcpt (grecs s xs) of
      None \<Rightarrow> greyd_answer L X M conf now now' ip from rcpt s = Inl Undefined
    | Some (reply, gs) \<Rightarrow> \<exists>s' xs'. greyd_answer L X M conf now now' ip from rcpt s = Inr (reply, s') \<and>
        grey_ok L X conf s' xs' \<and> grecs s' xs' = gs \<and> g_allocated s' \<le> g_allocated s + 1"
proof -
  let ?gs = "grecs s xs"
  let ?old = "\<lambda>g. gr_time g < now - int (gc_timeout conf)"
  have lk: "linked_ok L X s xs" and tb: "table_ok conf s xs" using ok by (simp_all add: grey_ok_def)
  note sr = search_record_eq [OF ok c w, of "from" rcpt]
  have add: "\<exists>s' xs'. greyd_answer L X M conf now now' ip from rcpt s = Inr ([NUL, CHR 0x01], s') \<and>
      grey_ok L X conf s' xs' \<and> grecs s' xs' = ?gs @ [\<lparr>gr_ip = ip, gr_from = from, gr_rcpt = rcpt, gr_time = now', gr_status = RECORD_NEW\<rparr>] \<and>
      g_allocated s' \<le> g_allocated s + 1"
    if new: "search_record L X M conf now ip from rcpt s = Inr ((RECORD_NEW, Null), s)"
  proof -
    let ?a = "g_fresh s"
    obtain s1 r where s1: "add_record L X now' ip from rcpt s = Inr ((True, Addr ?a), s1)"
        "linked_ok L X s1 (xs @ [?a])" "table_ok conf s1 xs" "g_mem s1 ?a = Some r" "gl_ip_next r = Null"
        "grecs s1 (xs @ [?a]) = ?gs @ [\<lparr>gr_ip = ip, gr_from = from, gr_rcpt = rcpt, gr_time = now', gr_status = RECORD_NEW\<rparr>]"
        "g_allocated s1 = g_allocated s"
      using add_record_eq [OF ok ip, of now' "from" rcpt] by blast
    obtain s2 where s2: "create_hash conf (Some ?a) s1 = Inr (True, s2)" "grey_ok L X conf s2 (xs @ [?a])"
        "same_records (g_mem s1) (g_mem s2)" "g_allocated s2 \<le> g_allocated s1 + 1"
      using create_hash_new [OF s1(2-5)] c(1) room s1(7) by (auto simp: conf_ok_def)
    have "greyd_answer L X M conf now now' ip from rcpt s = Inr ([NUL, CHR 0x01], s2)"
      using new s1(1,4) s2(1) by (simp add: greyd_answer_def send_response_def deref_def)
    then show ?thesis using s2 s1(6,7) grecs_same [OF s2(3)] by auto
  qed
  consider (white) white | (due) "\<not> white" "?gs \<noteq> [] \<and> ?old (hd ?gs) \<and> now mod int (gc_free_interval conf) = 0"
    | (old) "\<not> white" "\<not> (?gs \<noteq> [] \<and> ?old (hd ?gs) \<and> now mod int (gc_free_interval conf) = 0)" "list_all ?old ?gs"
    | (search) "\<not> white" "\<not> (?gs \<noteq> [] \<and> ?old (hd ?gs) \<and> now mod int (gc_free_interval conf) = 0)" "\<not> list_all ?old ?gs"
    by blast
  then show ?thesis
  proof cases
    case white
    then show ?thesis
      using sr ok by (auto simp: grey_step_def greyd_answer_def send_response_def answer_of_def)
  next
    case due
    then show ?thesis using sr by (simp add: grey_step_def greyd_answer_def send_response_def Let_def)
  next
    case old
    then have "search_record L X M conf now ip from rcpt s = Inr ((RECORD_NEW, Null), s)" using sr by (simp only: Let_def if_False if_True)
    from add [OF this] old show ?thesis by (simp only: grey_step_def Let_def if_False if_True option.case prod.case)
  next
    case search
    then have s0: "search_record L X M conf now ip from rcpt s = search_hash L X conf now ip from rcpt s"
      using sr by (simp only: Let_def if_False)
    let ?P = "\<lambda>a. matches ip from rcpt (grec_of (the (g_mem s a)))"
    show ?thesis
    proof (cases "find ?P xs")
      case None
      then have "search_record L X M conf now ip from rcpt s = Inr ((RECORD_NEW, Null), s)"
        using s0 search_hash_eq [OF ok ip(1), of now "from" rcpt] by simp
      moreover have "find (matches ip from rcpt) ?gs = None" unfolding grecs_def by (rule find_none) (rule None)
      ultimately show ?thesis using add search by (simp only: grey_step_def Let_def if_False if_True option.case prod.case)
    next
      case (Some a)
      have a: "a \<in> set xs" using Some by (auto simp: find_Some_iff)
      then obtain r where r: "g_mem s a = Some r" using linked_alive [OF lk] by auto
      obtain st r' where j: "judge conf now from r = (st, r')" by fastforce
      have t: "0 \<le> gl_timestamp r" "gl_timestamp r < 2 ^ 62" using c(3) a r by (auto simp: times_ok_def grecs_def)
      have v: "verdict conf now from (grec_of r) = (st, grec_of r')"
        using judge_verdict [OF c(1,2) t, of "from"] j by (metis fst_conv snd_conv prod.collapse)
      let ?s' = "s\<lparr>g_mem := (g_mem s)(a \<mapsto> r')\<rparr>"
      have k: "gl_ip r' = gl_ip r" "gl_ip_str r' = gl_ip_str r" "gl_next r' = gl_next r" "gl_prev r' = gl_prev r" "gl_ip_next r' = gl_ip_next r"
        using judge_keeps [of conf now "from" r] j by simp_all
      have ok': "grey_ok L X conf ?s' xs"
        using linked_update [OF lk r k(3,4,2,1)] table_update [OF tb r k(5,2)] by (simp add: grey_ok_def)
      have st: "st \<noteq> RECORD_NEW" using j by (auto simp: judge_def Let_def split: if_splits)
      have dist: "distinct xs" using lk by (simp add: linked_ok_def)
      have f: "find (matches ip from rcpt) ?gs = Some (grec_of r)" "grecs ?s' xs = amend (matches ip from rcpt) (grec_of r') ?gs"
      proof -
        from find_amend [of "matches ip from rcpt" "\<lambda>a. grec_of (the (g_mem s a))" xs a "grec_of r'", OF Some dist]
        show "find (matches ip from rcpt) ?gs = Some (grec_of r)" using r by (simp add: grecs_def)
        from find_amend [of "matches ip from rcpt" "\<lambda>a. grec_of (the (g_mem s a))" xs a "grec_of r'", OF Some dist]
        have "map ((\<lambda>a. grec_of (the (g_mem s a)))(a := grec_of r')) xs = amend (matches ip from rcpt) (grec_of r') ?gs"
          by (simp add: grecs_def)
        moreover have "grecs ?s' xs = map ((\<lambda>a. grec_of (the (g_mem s a)))(a := grec_of r')) xs"
          by (simp add: grecs_def)
        ultimately show "grecs ?s' xs = amend (matches ip from rcpt) (grec_of r') ?gs" by simp
      qed
      have "greyd_answer L X M conf now now' ip from rcpt s = Inr (answer_of st, ?s')"
        using s0 search_hash_eq [OF ok ip(1), of now "from" rcpt] Some r j st
        by (simp add: greyd_answer_def send_response_def deref_def)
      moreover have "grey_step conf white now now' ip from rcpt ?gs = Some (answer_of st, amend (matches ip from rcpt) (grec_of r') ?gs)"
        using search f(1) v by (simp only: grey_step_def Let_def if_False option.case prod.case)
      ultimately show ?thesis using ok' f(2) by auto
    qed
  qed
qed

end
