(* ===== verification/GreyRuns.thy ===== *)
theory GreyRuns
  imports GreySpec QmailQueueFacts
begin

text \<open>
  Requests of the client \<^verbatim>\<open>greylist.c\<close> and runs of the daemon: a datagram is read as it was written, and a run on the store is the
  run on the list.
\<close>

section \<open>A datagram is read\<close>

lemma rcpt_fields_simps [simp]: "rcpt_records [] = []" "rcpt_records (r # rs) = CHR ''T'' # r @ NUL # rcpt_records rs"
  by (simp_all add: rcpt_records_def)

lemma scan_field_text:
  assumes "no_nul (c # t)" "length p + length t + 2 < n"
  shows "scan_field (p @ (c # t) @ NUL # rest) n (length p) g =
    Inr (length p + length t + 2,
      let g = (if c = CHR ''I'' then g\<lparr>gs_client_ip := Some (length p + 1), gs_state := gs_state g + 1\<rparr>
               else if c = CHR ''F'' then g\<lparr>gs_rpath := Some (length p + 1), gs_state := gs_state g + 1\<rparr>
               else if c = CHR ''T'' \<and> gs_head g = None then g\<lparr>gs_head := Some (length p)\<rparr> else g)
      in if c = CHR ''T'' then g\<lparr>gs_rcptlen := gs_rcptlen g + length t + 2\<rparr> else g)"
proof -
  have "cstr (c # t @ NUL # rest) = c # t" using cstr_append_nul [of "c # t" rest] assms(1) by simp
  then show ?thesis using assms by (simp add: scan_field_def Let_def nth_append add.assoc)
qed

lemma scan_rcpts:
  assumes "\<forall>r \<in> set rs. no_nul r" "length p + length (rcpt_records rs) + 1 = n" "p \<noteq> []"
  shows "scan_fields (p @ rcpt_records rs @ NUL # rest) n (length p) g =
    Inr (g\<lparr>gs_head := (if gs_head g = None \<and> rs \<noteq> [] then Some (length p) else gs_head g),
      gs_rcptlen := gs_rcptlen g + length (rcpt_records rs)\<rparr>)"
  using assms
proof (induction rs arbitrary: p g)
  case Nil
  then show ?case by (subst scan_fields.simps) simp
next
  case (Cons r rs)
  let ?p = "p @ CHR ''T'' # r @ [NUL]"
  have f: "scan_field (p @ (CHR ''T'' # r) @ NUL # rcpt_records rs @ NUL # rest) n (length p) g =
    Inr (length p + length r + 2,
      g\<lparr>gs_head := (if gs_head g = None then Some (length p) else gs_head g), gs_rcptlen := gs_rcptlen g + length r + 2\<rparr>)"
    using scan_field_text [of "CHR ''T''" r p n "rcpt_records rs @ NUL # rest" g] Cons.prems by (auto simp: Let_def)
  have "scan_fields (p @ rcpt_records (r # rs) @ NUL # rest) n (length p) g =
      scan_fields (?p @ rcpt_records rs @ NUL # rest) n (length ?p)
        (g\<lparr>gs_head := (if gs_head g = None then Some (length p) else gs_head g), gs_rcptlen := gs_rcptlen g + length r + 2\<rparr>)"
    using f Cons.prems(2) by (subst scan_fields.simps) simp
  also have "\<dots> = Inr (g\<lparr>gs_head := (if gs_head g = None \<and> r # rs \<noteq> [] then Some (length p) else gs_head g),
      gs_rcptlen := gs_rcptlen g + length (rcpt_records (r # rs))\<rparr>)"
    using Cons.IH [of ?p] Cons.prems by (auto simp: Let_def)
  finally show ?case .
qed

lemma scan_packet:
  assumes "no_nul ip" "no_nul from" "\<forall>r \<in> set rs. no_nul r" "rs \<noteq> []" "gs_state g = 0" "gs_head g = None" "gs_rcptlen g = 0"
  shows "scan_fields (grey_packet ip from (rcpt_records rs) @ rest) (length (grey_packet ip from (rcpt_records rs))) 0 g =
    Inr \<lparr>gs_state = 2, gs_client_ip = Some 1, gs_rpath = Some (length ip + 3), gs_head = Some (length ip + length from + 4),
      gs_rcptlen = length (rcpt_records rs)\<rparr>"
proof -
  let ?n = "length (grey_packet ip from (rcpt_records rs))"
  let ?i = "CHR ''I'' # ip @ [NUL]" and ?f = "CHR ''F'' # from @ [NUL]"
  let ?g1 = "g\<lparr>gs_client_ip := Some 1, gs_state := 1\<rparr>"
  let ?g2 = "?g1\<lparr>gs_rpath := Some (length ip + 3), gs_state := 2\<rparr>"
  have n: "?n = length ip + length from + length (rcpt_records rs) + 5" by (simp add: grey_packet_def)
  have b: "grey_packet ip from (rcpt_records rs) @ rest = [] @ (CHR ''I'' # ip) @ NUL # (CHR ''F'' # from) @ NUL # rcpt_records rs @ NUL # rest"
    by (simp add: grey_packet_def)
  have s1: "scan_field (grey_packet ip from (rcpt_records rs) @ rest) ?n 0 g = Inr (length ip + 2, ?g1)"
    unfolding b using scan_field_text [of "CHR ''I''" ip "[]" ?n "(CHR ''F'' # from) @ NUL # rcpt_records rs @ NUL # rest" g] assms(1,5) n
    by (simp add: Let_def)
  have s2: "scan_field (grey_packet ip from (rcpt_records rs) @ rest) ?n (length ip + 2) ?g1 = Inr (length ip + length from + 4, ?g2)"
    using scan_field_text [of "CHR ''F''" "from" ?i ?n "rcpt_records rs @ NUL # rest" ?g1] assms(2) n
    by (simp add: Let_def grey_packet_def numeral_eq_Suc)
  have "scan_fields (grey_packet ip from (rcpt_records rs) @ rest) ?n 0 g =
      scan_fields ((?i @ ?f) @ rcpt_records rs @ NUL # rest) ?n (length (?i @ ?f)) ?g2"
    using s1 s2 n by (subst scan_fields.simps, simp, subst scan_fields.simps) (simp add: grey_packet_def numeral_eq_Suc)
  also have "\<dots> = Inr (?g2\<lparr>gs_head := Some (length ip + length from + 4), gs_rcptlen := length (rcpt_records rs)\<rparr>)"
    using scan_rcpts [OF assms(3), of "?i @ ?f" ?n rest ?g2] n assms(4,6,7) by simp
  finally show ?thesis by simp
qed

lemma greyd_request_reads:
  assumes "no_nul ip" "no_nul from" "\<forall>r \<in> set rs. no_nul r" "rs \<noteq> []"
  shows "\<exists>s'. greyd_request L X M conf now now' (grey_packet ip from (rcpt_records rs)) s =
    gbind (greyd_answer L X M conf now now' ip from (rcpt_records rs) (gm_db s)) (\<lambda>(reply, db). Inr (Some reply, s'\<lparr>gm_db := db\<rparr>))"
proof -
  let ?p = "grey_packet ip from (rcpt_records rs)"
  have ne: "length ?p \<noteq> 0" by (simp add: grey_packet_def)
  obtain s1 rest where s1: "receive ?p s = Inr s1" "gm_rdata s1 = ?p @ rest" "gm_db s1 = gm_db s"
  proof (cases "length (gm_rdata s) < length ?p \<or> length (gm_rdata s) div length ?p > 2")
    case True
    then show ?thesis using ne that [of _ "[]"] by (auto simp: receive_def Let_def)
  next
    case False
    then show ?thesis using ne that [of _ "drop (length ?p) (gm_rdata s)"] by (auto simp: receive_def Let_def)
  qed
  have h: "gm_rdata s1 ! 0 = CHR ''I''" by (simp add: s1(2) grey_packet_def)
  have i: "text_at (gm_rdata s1) (Some 1) = Inr ip"
    using assms(1) cstr_append_nul [of ip] by (simp add: s1(2) text_at_def grey_packet_def)
  have f: "text_at (gm_rdata s1) (Some (length ip + 3)) = Inr from"
    using assms(2) cstr_append_nul [of "from"] by (simp add: s1(2) text_at_def grey_packet_def numeral_eq_Suc)
  have t: "take (length (rcpt_records rs)) (drop (length ip + length from + 4) (gm_rdata s1)) = rcpt_records rs"
    by (simp add: s1(2) grey_packet_def numeral_eq_Suc)
  have l: "rcpt_records rs \<noteq> []" using assms(4) by (cases rs) simp_all
  show ?thesis
    using scan_packet [OF assms, of "\<lparr>gs_state = 0, gs_client_ip = gm_client_ip s1, gs_rpath = gm_rpath s1, gs_head = None, gs_rcptlen = 0\<rparr>" rest]
      s1 h i f t l
    by (intro exI [of _ "s1\<lparr>gm_client_ip := Some 1, gm_rpath := Some (length ip + 3)\<rparr>"]) (simp add: greyd_request_def)
qed

section \<open>Runs\<close>

record greq =
  rq_now :: int
  rq_now' :: int        \<comment> \<open>when \<^verbatim>\<open>add_record\<close> reads the clock\<close>
  rq_ip :: bytes
  rq_from :: bytes
  rq_rcpts :: "bytes list"

definition rq_packet :: "greq \<Rightarrow> bytes" where
  "rq_packet q = grey_packet (rq_ip q) (rq_from q) (rcpt_records (rq_rcpts q))"

fun greyd_run :: "libq \<Rightarrow> hexlib \<Rightarrow> matchlib \<Rightarrow> gconf \<Rightarrow> greq list \<Rightarrow> gmain \<Rightarrow> (bytes option list \<times> gmain) gres" where
  "greyd_run L X M conf [] s = Inr ([], s)"
| "greyd_run L X M conf (q # qs) s =
     gbind (greyd_request L X M conf (rq_now q) (rq_now' q) (rq_packet q) s) (\<lambda>(reply, s).
     gbind (greyd_run L X M conf qs s) (\<lambda>(replies, s). Inr (reply # replies, s)))"

fun grey_spec :: "gconf \<Rightarrow> (bytes \<Rightarrow> bool) \<Rightarrow> greq list \<Rightarrow> grec list \<Rightarrow> (bytes list \<times> grec list) option" where
  "grey_spec conf W [] gs = Some ([], gs)"
| "grey_spec conf W (q # qs) gs =
     (case grey_step conf (W (rq_ip q)) (rq_now q) (rq_now' q) (rq_ip q) (rq_from q) (rcpt_records (rq_rcpts q)) gs of
        None \<Rightarrow> None
      | Some (reply, gs') \<Rightarrow> map_option (\<lambda>(replies, gs). (reply # replies, gs)) (grey_spec conf W qs gs'))"

text \<open>What \<^verbatim>\<open>smtpd.c\<close> sends: an address that can be read, texts without a NUL, at least one recipient.\<close>

definition rq_ok :: "libq \<Rightarrow> hexlib \<Rightarrow> matchlib \<Rightarrow> gconf \<Rightarrow> (bytes \<Rightarrow> bool) \<Rightarrow> greq \<Rightarrow> bool" where
  "rq_ok L X M conf W q \<longleftrightarrow>
     time_ok conf (rq_now q) \<and> 0 \<le> rq_now' q \<and> rq_now' q < 2 ^ 62 \<and>
     ip6_scan L X (rq_ip q) \<noteq> None \<and> length (rq_ip q) < 72 \<and> no_nul (rq_ip q) \<and> no_nul (rq_from q) \<and>
     (\<forall>r \<in> set (rq_rcpts q). no_nul r) \<and> rq_rcpts q \<noteq> [] \<and> client_white L M conf (rq_ip q) = Inr (W (rq_ip q))"

lemma amend_mem: "g \<in> set (amend P y gs) \<Longrightarrow> g = y \<or> g \<in> set gs"
  by (induction gs) (auto split: if_splits)

lemma verdict_time: "snd (verdict conf now from g) = g' \<Longrightarrow> gr_time g' \<in> {now, gr_time g}"
  by (auto simp: verdict_def split: if_splits)

lemma grey_step_cases:
  assumes "grey_step conf white now now' ip from rcpt gs = Some (reply, gs')"
  obtains (white) "white" "gs' = gs" "reply = [CHR 0x01, CHR 0x01]"
  | (new) "\<not> white" "reply = [NUL, CHR 0x01]"
      "gs' = gs @ [\<lparr>gr_ip = ip, gr_from = from, gr_rcpt = rcpt, gr_time = now', gr_status = RECORD_NEW\<rparr>]"
  | (found) g st g' where "\<not> white" "g \<in> set gs" "matches ip from rcpt g" "verdict conf now from g = (st, g')"
      "reply = answer_of st" "gs' = amend (matches ip from rcpt) g' gs"
proof (cases white)
  case True
  then show ?thesis using assms that(1) by (simp add: grey_step_def)
next
  case False
  show ?thesis
  proof (cases "find (matches ip from rcpt) gs")
    case None
    then show ?thesis using assms False that(2) by (auto simp: grey_step_def Let_def split: if_splits)
  next
    case (Some g)
    then have "g \<in> set gs" "matches ip from rcpt g" by (auto simp: find_Some_iff)
    then show ?thesis
      using assms False Some that(2,3) by (auto simp: grey_step_def Let_def split: if_splits prod.splits)
  qed
qed

lemma times_ok_step:
  assumes "times_ok gs" "time_ok conf now" "0 \<le> now'" "now' < 2 ^ 62"
    "grey_step conf white now now' ip from rcpt gs = Some (reply, gs')"
  shows "times_ok gs'"
  using assms(5)
proof (cases rule: grey_step_cases)
  case (found g st g')
  have "gr_time g' \<in> {now, gr_time g}" using verdict_time [of conf now "from" g g'] found(4) by simp
  then show ?thesis using assms(1,2) found(2,6) by (auto simp: times_ok_def time_ok_def dest!: amend_mem)
qed (use assms(1,3,4) in \<open>auto simp: times_ok_def\<close>)

lemma greyd_run_spec:
  assumes "grey_ok L X conf (gm_db s) xs" "conf_ok conf" "times_ok (grecs (gm_db s) xs)"
    "125 * gc_hash_size conf * (g_allocated (gm_db s) + length qs) < 2 ^ 31" "\<forall>q \<in> set qs. rq_ok L X M conf W q"
  shows "case grey_spec conf W qs (grecs (gm_db s) xs) of
      None \<Rightarrow> greyd_run L X M conf qs s = Inl Undefined
    | Some (replies, gs) \<Rightarrow> \<exists>s' xs'. greyd_run L X M conf qs s = Inr (map Some replies, s') \<and>
        grey_ok L X conf (gm_db s') xs' \<and> grecs (gm_db s') xs' = gs"
  using assms
proof (induction qs arbitrary: s xs)
  case Nil
  then show ?case by auto
next
  case (Cons q qs)
  let ?gs = "grecs (gm_db s) xs" and ?rc = "rcpt_records (rq_rcpts q)"
  have q: "rq_ok L X M conf W q" using Cons.prems(5) by simp
  obtain n d where ip: "ip6_scan L X (rq_ip q) = Some (n, d)" "length (rq_ip q) < 72" using q by (auto simp: rq_ok_def)
  have room: "125 * gc_hash_size conf * (g_allocated (gm_db s) + 1) < 2 ^ 31"
    by (rule le_less_trans [OF _ Cons.prems(4)]) (intro mult_left_mono, simp_all)
  note ans = greyd_answer_refines [OF Cons.prems(1,2) _ Cons.prems(3) _ ip room, of "rq_now q" M "W (rq_ip q)" "rq_now' q" "rq_from q" ?rc]
  obtain s1 where s1: "greyd_request L X M conf (rq_now q) (rq_now' q) (rq_packet q) s =
      gbind (greyd_answer L X M conf (rq_now q) (rq_now' q) (rq_ip q) (rq_from q) ?rc (gm_db s)) (\<lambda>(reply, db). Inr (Some reply, s1\<lparr>gm_db := db\<rparr>))"
    using greyd_request_reads [of "rq_ip q" "rq_from q" "rq_rcpts q" L X M conf "rq_now q" "rq_now' q" s] q
    by (auto simp: rq_ok_def rq_packet_def)
  show ?case
  proof (cases "grey_step conf (W (rq_ip q)) (rq_now q) (rq_now' q) (rq_ip q) (rq_from q) ?rc ?gs")
    case None
    then show ?thesis using ans q s1 by (simp add: rq_ok_def)
  next
    case (Some x)
    obtain reply gs' where x: "x = (reply, gs')" by (cases x)
    obtain db ys where db: "greyd_answer L X M conf (rq_now q) (rq_now' q) (rq_ip q) (rq_from q) ?rc (gm_db s) = Inr (reply, db)"
        "grey_ok L X conf db ys" "grecs db ys = gs'" "g_allocated db \<le> g_allocated (gm_db s) + 1"
      using ans Some x q by (auto simp: rq_ok_def)
    have t: "times_ok (grecs db ys)"
      using times_ok_step [OF Cons.prems(3) _ _ _ Some [unfolded x]] q db(3) by (simp add: rq_ok_def)
    have "125 * gc_hash_size conf * (g_allocated db + length qs) < 2 ^ 31"
      by (rule le_less_trans [OF _ Cons.prems(4)]) (intro mult_left_mono, use db(4) in simp_all)
    then have ih: "case grey_spec conf W qs gs' of
        None \<Rightarrow> greyd_run L X M conf qs (s1\<lparr>gm_db := db\<rparr>) = Inl Undefined
      | Some (replies, gs) \<Rightarrow> \<exists>s' xs'. greyd_run L X M conf qs (s1\<lparr>gm_db := db\<rparr>) = Inr (map Some replies, s') \<and>
          grey_ok L X conf (gm_db s') xs' \<and> grecs (gm_db s') xs' = gs"
      using Cons.IH [of "s1\<lparr>gm_db := db\<rparr>" ys] db(2,3) Cons.prems(2,5) t by simp
    have run: "greyd_run L X M conf (q # qs) s =
        gbind (greyd_run L X M conf qs (s1\<lparr>gm_db := db\<rparr>)) (\<lambda>(replies, s). Inr (Some reply # replies, s))"
      using s1 db(1) by simp
    show ?thesis
    proof (cases "grey_spec conf W qs gs'")
      case None
      then show ?thesis using ih run Some x by simp
    next
      case (Some y)
      obtain replies gs where y: "y = (replies, gs)" by (cases y)
      then show ?thesis
        using ih run Some \<open>grey_step conf (W (rq_ip q)) (rq_now q) (rq_now' q) (rq_ip q) (rq_from q) ?rc ?gs = Some x\<close> x by auto
    qed
  qed
qed

lemma greyd_empty_ok: "0 < gc_hash_size conf \<Longrightarrow> grey_ok L X conf greyd_empty []"
  by (simp add: grey_ok_def linked_ok_def table_ok_def hashed_def greyd_empty_def client_keys_def)

section \<open>No first try passes\<close>

text \<open>
  Every record stands for a request of its triplet; one that was let through, for a second one after the least time.
  \<open>tried_before\<close> is what the code asks for: an earlier request of the client for the same recipients and a sender
  that begins like the present one.
\<close>

definition accounted :: "gconf \<Rightarrow> greq list \<Rightarrow> int \<Rightarrow> grec \<Rightarrow> bool" where
  "accounted conf P T g \<longleftrightarrow> gr_time g \<le> T \<and>
     (\<exists>q \<in> set P. rq_ip q = gr_ip g \<and> rq_from q = gr_from g \<and> rcpt_records (rq_rcpts q) = gr_rcpt g \<and> rq_now q \<le> gr_time g \<and>
       (gr_status g \<in> {RECORD_GREY, RECORD_OK} \<longrightarrow> rq_now q + int (gc_min_resend conf) \<le> gr_time g))"

definition tried_before :: "gconf \<Rightarrow> greq list \<Rightarrow> greq \<Rightarrow> bool" where
  "tried_before conf P q \<longleftrightarrow>
     (\<exists>p \<in> set P. rq_ip p = rq_ip q \<and> rcpt_records (rq_rcpts p) = rcpt_records (rq_rcpts q) \<and>
       take (length (rq_from q)) (rq_from p) = rq_from q \<and> rq_now p + int (gc_min_resend conf) \<le> rq_now q)"

lemma accounted_later: "accounted conf P T g \<Longrightarrow> T \<le> T' \<Longrightarrow> set P \<subseteq> set P' \<Longrightarrow> accounted conf P' T' g"
  by (force simp: accounted_def)

lemma grey_step_tried:
  assumes step: "grey_step conf white (rq_now q) (rq_now' q) (rq_ip q) (rq_from q) (rcpt_records (rq_rcpts q)) gs = Some (reply, gs')"
    and acc: "\<forall>g \<in> set gs. accounted conf P T g" and t: "T \<le> rq_now q" "rq_now q \<le> rq_now' q"
  shows "(\<forall>g \<in> set gs'. accounted conf (P @ [q]) (rq_now' q) g) \<and>
    (reply ! 0 \<noteq> NUL \<longrightarrow> \<not> white \<longrightarrow> tried_before conf P q)"
proof -
  have later: "\<forall>g \<in> set gs. accounted conf (P @ [q]) (rq_now' q) g"
  proof
    fix g assume "g \<in> set gs"
    then show "accounted conf (P @ [q]) (rq_now' q) g" using acc t accounted_later [of conf P T g "rq_now' q" "P @ [q]"] by auto
  qed
  from step show ?thesis
proof (cases rule: grey_step_cases)
  case white
  then show ?thesis using later by simp
next
  case new
  have "accounted conf (P @ [q]) (rq_now' q)
      \<lparr>gr_ip = rq_ip q, gr_from = rq_from q, gr_rcpt = rcpt_records (rq_rcpts q), gr_time = rq_now' q, gr_status = RECORD_NEW\<rparr>"
    using t by (auto simp: accounted_def)
  then show ?thesis using new later by simp
next
  case (found g st g')
  obtain p where p: "p \<in> set P" "rq_ip p = gr_ip g" "rq_from p = gr_from g" "rcpt_records (rq_rcpts p) = gr_rcpt g"
      "rq_now p \<le> gr_time g" "gr_status g \<in> {RECORD_GREY, RECORD_OK} \<longrightarrow> rq_now p + int (gc_min_resend conf) \<le> gr_time g"
      "gr_time g \<le> T"
    using acc found(2) by (auto simp: accounted_def)
  have same: "gr_ip g' = gr_ip g" "gr_from g' = gr_from g" "gr_rcpt g' = gr_rcpt g"
    using found(4) by (auto simp: verdict_def split: if_splits)
  have times: "rq_now p \<le> gr_time g' \<and> gr_time g' \<le> rq_now q \<and>
      (gr_status g' \<in> {RECORD_GREY, RECORD_OK} \<longrightarrow> rq_now p + int (gc_min_resend conf) \<le> gr_time g') \<and>
      (answer_of st ! 0 \<noteq> NUL \<longrightarrow> rq_now p + int (gc_min_resend conf) \<le> rq_now q)"
    using found(4) p(5-7) t by (auto simp: verdict_def answer_of_def split: if_splits)
  have "accounted conf (P @ [q]) (rq_now' q) g'"
    using times same p(1-4) t by (auto simp: accounted_def)
  moreover have "answer_of st ! 0 \<noteq> NUL \<longrightarrow> tried_before conf P q"
    using times p(1-4) found(3) by (auto simp: tried_before_def matches_def)
  ultimately show ?thesis using later found(5,6) by (auto dest!: amend_mem)
qed
qed

fun clock_ok :: "int \<Rightarrow> greq list \<Rightarrow> bool" where
  "clock_ok T [] \<longleftrightarrow> True"
| "clock_ok T (q # qs) \<longleftrightarrow> T \<le> rq_now q \<and> rq_now q \<le> rq_now' q \<and> clock_ok (rq_now' q) qs"

lemma grey_spec_tried:
  assumes "grey_spec conf W qs gs = Some (replies, gs')" "\<forall>g \<in> set gs. accounted conf P T g" "clock_ok T qs"
    "i < length qs" "replies ! i ! 0 \<noteq> NUL" "\<not> W (rq_ip (qs ! i))"
  shows "tried_before conf (P @ take i qs) (qs ! i)"
  using assms
proof (induction qs arbitrary: gs P T i replies)
  case (Cons q qs)
  from Cons.prems(1) obtain reply gs1 rs where
    step: "grey_step conf (W (rq_ip q)) (rq_now q) (rq_now' q) (rq_ip q) (rq_from q) (rcpt_records (rq_rcpts q)) gs = Some (reply, gs1)"
    and rest: "grey_spec conf W qs gs1 = Some (rs, gs')" and rs: "replies = reply # rs"
    by (auto split: option.splits prod.splits)
  have st: "(\<forall>g \<in> set gs1. accounted conf (P @ [q]) (rq_now' q) g) \<and>
      (reply ! 0 \<noteq> NUL \<longrightarrow> \<not> W (rq_ip q) \<longrightarrow> tried_before conf P q)"
    by (rule grey_step_tried [OF step, of P T]) (use Cons.prems(2,3) in simp_all)
  show ?case
  proof (cases i)
    case 0
    then show ?thesis using st Cons.prems(3,5,6) rs by simp
  next
    case (Suc k)
    then show ?thesis
      using Cons.IH [OF rest, of "P @ [q]" "rq_now' q" k] st Cons.prems(3-6) rs by simp
  qed
qed simp

lemma grey_spec_length: "grey_spec conf W qs gs = Some (replies, gs') \<Longrightarrow> length replies = length qs"
  by (induction qs arbitrary: gs replies) (auto split: option.splits prod.splits)

end
