(* ===== verification/GreyContext.thy ===== *)
theory GreyContext
  imports GreyRuns
begin

text \<open>
  The context file of the greylisting daemon: \<^verbatim>\<open>load_context\<close> after \<^verbatim>\<open>save_context\<close>.
\<close>

section \<open>What is saved\<close>

definition unexpired :: "gconf \<Rightarrow> int \<Rightarrow> grec \<Rightarrow> bool" where
  "unexpired conf now g \<longleftrightarrow> now - int (gc_timeout conf) \<le> gr_time g"

lemma save_loop_eq:
  assumes "time_ok conf now"
  shows "chained gl_next (g_mem s) p xs \<Longrightarrow> length xs \<le> n \<Longrightarrow> times_ok (grecs s xs) \<Longrightarrow>
    save_loop L conf now n p s =
      Inr (concat (map (\<lambda>a. context_line L (the (g_mem s a))) (filter (\<lambda>a. unexpired conf now (grec_of (the (g_mem s a)))) xs)))"
proof (induction xs arbitrary: n p)
  case Nil
  then show ?case by (cases n) simp_all
next
  case (Cons a xs)
  obtain r k where r: "p = Addr a" "g_mem s a = Some r" "chained gl_next (g_mem s) (gl_next r) xs" "n = Suc k" "length xs \<le> k"
    using Cons.prems(1,2) by (cases n) auto
  have t: "0 \<le> gl_timestamp r" "gl_timestamp r < 2 ^ 62" using Cons.prems(3) r(2) by (simp_all add: times_ok_def grecs_def)
  have u: "u64 (gl_timestamp r) = gl_timestamp r" "u64 (now - int (gc_timeout conf)) = now - int (gc_timeout conf)"
    using t assms by (auto simp: time_ok_def intro!: u64_id)
  have "times_ok (grecs s xs)" using Cons.prems(3) by (simp add: times_ok_def grecs_def)
  from Cons.IH [OF r(3,5) this] show ?case using r(1,2,4) u by (simp add: deref_def unexpired_def not_less)
qed

section \<open>One line\<close>

definition storable :: "libq \<Rightarrow> hexlib \<Rightarrow> grec \<Rightarrow> bool" where
  "storable L X g \<longleftrightarrow>
     ip6_scan L X (gr_ip g) \<noteq> None \<and> length (gr_ip g) < 72 \<and> no_nul (gr_ip g) \<and> no_nul (gr_from g) \<and>
     LF \<notin> set (gr_ip g @ gr_from g @ gr_rcpt g) \<and> 0 \<le> gr_time g \<and> gr_time g < 2 ^ 62 \<and> 0 \<le> gr_status g \<and> gr_status g < 7"

lemma line_field_text: "no_nul f \<Longrightarrow> line_field (f @ NUL # t) = Inr (f, t)"
  by (simp add: line_field_def cstr_append_nul)

context libqmail
begin

lemma line_number_fmt: "line_number L (lq_fmt_ulong L n) = Inr n"
  using fmt_ulong_digits [of n] by (simp add: line_number_def scan_fmt_nul)

lemma fmt_no_lf: "LF \<notin> set (lq_fmt_ulong L n)"
proof -
  have "\<not> is_digit LF" by (simp add: is_digit_def)
  then show ?thesis using fmt_ulong_digits [of n] by (auto simp: list_all_iff)
qed

lemma parse_context_line:
  assumes "no_nul (gl_ip_str r)" "no_nul (gl_rpath r)"
  shows "parse_line L (context_line L r @ [NUL]) =
    Inr (gl_ip_str r, gl_rpath r, gl_rcpt r, nat (u64 (gl_timestamp r)), char_of (nat (gl_status r)))"
  using assms line_field_text [OF fmt_ulong_no_nul] line_number_fmt
  by (simp add: parse_line_def context_line_def line_field_text)

lemma small_status:
  assumes "0 \<le> st" "st < 7"
  shows "schar (char_of (nat st)) = st \<and> (char_of (nat st) :: char) \<noteq> LF"
proof -
  have "of_char (char_of (nat st) :: char) = nat st" using assms by simp
  moreover have "schar (char_of (nat st)) = st" using assms schar_char_of [of "nat st"] by simp
  moreover have "(char_of (nat st) :: char) \<noteq> LF"
  proof
    assume "(char_of (nat st) :: char) = LF"
    then have "of_char (char_of (nat st) :: char) = (10 :: nat)" by simp
    then show False using assms by simp
  qed
  ultimately show ?thesis by simp
qed

lemma getln_context_line:
  assumes "storable L X (grec_of r)"
  shows "getln (context_line L r @ t) = (context_line L r, True, t)"
proof -
  obtain k where k: "context_line L r = k @ [LF]" "LF \<notin> set k"
    using assms fmt_no_lf small_status [of "gl_status r"]
    by (simp add: context_line_def storable_def) (metis (no_types, opaque_lifting) append.assoc append_Cons append_Nil Un_iff insert_iff list.set(1,2) set_append empty_iff)
  then show ?thesis using getln_whole [of k t] by simp
qed

end

section \<open>What is loaded\<close>

text \<open>
  The records while a context is loaded: linked as usual, but the chains of the clients are not there. The table leads
  from every address to a record, and no client has two.
\<close>

definition loaded :: "gconf \<Rightarrow> greyd \<Rightarrow> nat list \<Rightarrow> bool" where
  "loaded conf s xs \<longleftrightarrow>
     chained gl_next (g_mem s) (g_head s) xs \<and> distinct xs \<and> (\<forall>a \<in> set xs. a < g_fresh s) \<and>
     (xs \<noteq> [] \<longrightarrow> g_tail s = Addr (last xs)) \<and>
     distinct (map gr_ip (grecs s xs)) \<and> dom (g_hash s) = set (map gr_ip (grecs s xs)) \<and>
     g_hcount s = length xs \<and> g_hcount s \<le> gc_hash_size conf * g_allocated s \<and>
     (g_allocated s \<noteq> 0 \<longrightarrow> g_room s = 125 * gc_hash_size conf * g_allocated s div 100)"

lemma hash_add_fresh:
  "g_mem s a = Some r \<Longrightarrow> g_hash s (gl_ip_str r) = None \<Longrightarrow> g_hcount s < g_room s \<Longrightarrow>
   hash_add a s = Inr (True, s\<lparr>g_hash := (g_hash s)(gl_ip_str r \<mapsto> a), g_hcount := g_hcount s + 1\<rparr>)"
  by (simp add: hash_add_def deref_def)

lemma hash_all_distinct:
  assumes "chained gl_next (g_mem s) p rest" "distinct (map (\<lambda>a. gl_ip_str (the (g_mem s a))) rest)"
    "\<forall>a \<in> set rest. g_hash s (gl_ip_str (the (g_mem s a))) = None" "g_hcount s + length rest \<le> g_room s" "length rest \<le> n"
  shows "\<exists>h. hash_all n p s = Inr (True, s\<lparr>g_hash := h, g_hcount := g_hcount s + length rest\<rparr>) \<and>
    dom h = dom (g_hash s) \<union> (\<lambda>a. gl_ip_str (the (g_mem s a))) ` set rest"
  using assms
proof (induction rest arbitrary: n p s)
  case Nil
  then show ?case by (intro exI [of _ "g_hash s"]) (cases n; simp)
next
  case (Cons a rest)
  obtain r k where r: "p = Addr a" "g_mem s a = Some r" "chained gl_next (g_mem s) (gl_next r) rest" "n = Suc k" "length rest \<le> k"
    using Cons.prems(1,5) by (cases n) auto
  define t where "t = s\<lparr>g_hash := (g_hash s)(gl_ip_str r \<mapsto> a), g_hcount := g_hcount s + 1\<rparr>"
  have add: "hash_add a s = Inr (True, t)" unfolding t_def
    by (rule hash_add_fresh [OF r(2)]) (use Cons.prems(3,4) r(2) in simp_all)
  have "\<exists>h. hash_all k (gl_next r) t = Inr (True, t\<lparr>g_hash := h, g_hcount := g_hcount t + length rest\<rparr>) \<and>
      dom h = dom (g_hash t) \<union> (\<lambda>a. gl_ip_str (the (g_mem t a))) ` set rest"
    by (rule Cons.IH) (use Cons.prems(2,3,4) r in \<open>auto simp: t_def image_iff\<close>)
  then show ?case using add r(1,2,4) by (auto simp: t_def deref_def)
qed

text \<open>\<^verbatim>\<open>create_hash\<close> for the record that was just linked, the last of \<open>xs @ [a]\<close>.\<close>

lemma create_hash_loading:
  assumes f: "chained gl_next (g_mem s) (g_head s) (xs @ [a])" "length (xs @ [a]) \<le> g_fresh s"
    and d: "distinct (map (\<lambda>a. gl_ip_str (the (g_mem s a))) (xs @ [a]))"
    and h: "dom (g_hash s) = (\<lambda>a. gl_ip_str (the (g_mem s a))) ` set xs" "g_hcount s = length xs"
      "g_hcount s \<le> gc_hash_size conf * g_allocated s"
      "g_allocated s \<noteq> 0 \<longrightarrow> g_room s = 125 * gc_hash_size conf * g_allocated s div 100"
    and c: "0 < gc_hash_size conf" "125 * gc_hash_size conf * (g_allocated s + 1) < 2 ^ 31"
  shows "\<exists>hh rm al. create_hash conf (Some a) s =
      Inr (True, s\<lparr>g_hash := hh, g_hcount := length (xs @ [a]), g_room := rm, g_allocated := al\<rparr>) \<and>
    dom hh = (\<lambda>a. gl_ip_str (the (g_mem s a))) ` set (xs @ [a]) \<and> length (xs @ [a]) \<le> gc_hash_size conf * al \<and>
    (al \<noteq> 0 \<longrightarrow> rm = 125 * gc_hash_size conf * al div 100) \<and> al \<le> g_allocated s + 1"
proof -
  let ?hs = "gc_hash_size conf" and ?al = "g_allocated s"
  obtain r where r: "g_mem s a = Some r" using chained_alive [OF f(1), of a] by auto
  have new: "g_hash s (gl_ip_str r) = None"
  proof (rule ccontr)
    assume "g_hash s (gl_ip_str r) \<noteq> None"
    then have "gl_ip_str r \<in> (\<lambda>a. gl_ip_str (the (g_mem s a))) ` set xs" using h(1) by blast
    then show False using d r by auto
  qed
  have add: "hash_add a t = Inr (True, t\<lparr>g_hash := (g_hash s)(gl_ip_str r \<mapsto> a), g_hcount := g_hcount s + 1\<rparr>)"
    if "g_mem t = g_mem s" "g_hash t = g_hash s" "g_hcount t = g_hcount s" "g_hcount s < g_room t" for t
    using hash_add_fresh [of t a r] that r new by simp
  show ?thesis
  proof (cases "g_hcount s mod ?hs = 0")
    case False
    then have "g_hcount s \<noteq> ?hs * ?al" by auto
    then have lt: "g_hcount s < ?hs * ?al" using h(3) by simp
    then have al: "?al \<noteq> 0" by (cases ?al) auto
    have "g_hcount s < g_room s" using lt al h(4) room_enough [of "?hs * ?al"] by (simp add: mult.assoc)
    moreover have "create_hash conf (Some a) s = hash_add a s" using False by (simp add: create_hash_def)
    moreover have "s\<lparr>g_hash := hh, g_hcount := n\<rparr> = s\<lparr>g_hash := hh, g_hcount := n, g_room := g_room s, g_allocated := ?al\<rparr>" for hh n
      by simp
    moreover have "dom ((g_hash s)(gl_ip_str r \<mapsto> a)) = (\<lambda>a. gl_ip_str (the (g_mem s a))) ` set (xs @ [a])"
      using h(1) r by auto
    ultimately show ?thesis
      using add [of s] h(2,4) lt
      by (intro exI [of _ "(g_hash s)(gl_ip_str r \<mapsto> a)"] exI [of _ "g_room s"] exI [of _ ?al]) simp
  next
    case True
    show ?thesis
    proof (cases "?al = 0")
      case T: True
      have "?hs \<le> 125 * ?hs div 100" by (rule room_enough)
      then have "g_hcount s < 125 * ?hs div 100" using h(3) T c(1) by simp
      moreover have "create_hash conf (Some a) s = hash_add a (s\<lparr>g_allocated := 1, g_room := 125 * ?hs div 100\<rparr>)"
        using True T c(2) by (simp add: create_hash_def Let_def)
      moreover have "dom ((g_hash s)(gl_ip_str r \<mapsto> a)) = (\<lambda>a. gl_ip_str (the (g_mem s a))) ` set (xs @ [a])"
        using h(1) r by auto
      ultimately show ?thesis
        using T add [of "s\<lparr>g_allocated := 1, g_room := 125 * ?hs div 100\<rparr>"] h(2,3) c(1)
        by (intro exI [of _ "(g_hash s)(gl_ip_str r \<mapsto> a)"] exI [of _ "125 * ?hs div 100"] exI [of _ 1]) simp
    next
      case F: False
      define t where "t = s\<lparr>g_allocated := ?al + 1, g_hash := \<lambda>_. None, g_hcount := 0, g_room := 125 * ?hs * (?al + 1) div 100\<rparr>"
      have step: "length (xs @ [a]) \<le> ?hs * (?al + 1)" using h(2,3) c(1) by simp
      have "\<exists>hh. hash_all (g_fresh s) (g_head s) t = Inr (True, t\<lparr>g_hash := hh, g_hcount := g_hcount t + length (xs @ [a])\<rparr>) \<and>
          dom hh = dom (g_hash t) \<union> (\<lambda>a. gl_ip_str (the (g_mem t a))) ` set (xs @ [a])"
        by (rule hash_all_distinct)
          (use f d step room_enough [of "?hs * (?al + 1)"] in \<open>simp_all add: t_def mult.assoc\<close>)
      then obtain hh where "hash_all (g_fresh s) (g_head s) t = Inr (True, t\<lparr>g_hash := hh, g_hcount := length (xs @ [a])\<rparr>)"
          "dom hh = (\<lambda>a. gl_ip_str (the (g_mem s a))) ` set (xs @ [a])" by (auto simp: t_def)
      moreover have "create_hash conf (Some a) s = hash_all (g_fresh s) (g_head s) t"
        using True F c(2) by (simp add: create_hash_def Let_def t_def)
      ultimately show ?thesis
        using step by (intro exI [of _ hh] exI [of _ "125 * ?hs * (?al + 1) div 100"] exI [of _ "?al + 1"]) (simp add: t_def)
    qed
  qed
qed

lemma loaded_record:
  assumes l: "loaded conf s xs" and ip: "ip6_scan L X ip = Some (n, d)" "length ip < 72" "ip \<notin> set (map gr_ip (grecs s xs))"
    and c: "0 < gc_hash_size conf" "125 * gc_hash_size conf * (g_allocated s + 1) < 2 ^ 31"
  shows "\<exists>s'. load_record L X conf ip rpath rcpt ts st s = Inr (True, s') \<and> loaded conf s' (xs @ [g_fresh s]) \<and>
    grecs s' (xs @ [g_fresh s]) = grecs s xs @ [\<lparr>gr_ip = ip, gr_from = rpath, gr_rcpt = rcpt, gr_time = ts, gr_status = st\<rparr>] \<and>
    g_allocated s' \<le> g_allocated s + 1"
proof -
  let ?a = "g_fresh s" and ?hs = "gc_hash_size conf"
  have fol: "chained gl_next (g_mem s) (g_head s) xs" and dist: "distinct xs" and below: "\<forall>a \<in> set xs. a < ?a"
    and tail: "xs \<noteq> [] \<longrightarrow> g_tail s = Addr (last xs)" and keys: "distinct (map gr_ip (grecs s xs))"
    using l by (simp_all add: loaded_def)
  have new: "?a \<notin> set xs" using below by auto
  have alive: "\<forall>x \<in> set xs. g_mem s x \<noteq> None" using chained_alive [OF fol] by blast
  have hd: "g_head s = Null \<longleftrightarrow> xs = []" using fol by (cases xs) auto
  define r where "r = \<lparr>gl_ip = [], gl_ip_str = ip, gl_rpath = [], gl_rcpt = [], gl_timestamp = ts, gl_attempts = None,
               gl_status = st, gl_prev = (if xs = [] then Null else g_tail s), gl_next = Null,
               gl_ip_prev = Junk, gl_ip_next = Junk\<rparr>"
  define r' where "r' = r\<lparr>gl_ip := d, gl_rpath := rpath, gl_rcpt := rcpt\<rparr>"
  define m where "m = (if xs = [] then (g_mem s)(?a \<mapsto> r)
    else (g_mem s)(last xs \<mapsto> (the (g_mem s (last xs)))\<lparr>gl_next := Addr ?a\<rparr>, ?a \<mapsto> r))"
  define s2 where "s2 = s\<lparr>g_mem := m, g_fresh := ?a + 1, g_tail := Addr ?a, g_head := (if xs = [] then Addr ?a else g_head s)\<rparr>"
  have last: "xs \<noteq> [] \<Longrightarrow> g_tail s = Addr (last xs) \<and> last xs \<in> set xs \<and> (\<exists>z. g_mem s (last xs) = Some z)"
    using tail alive by auto
  have ma: "m ?a = Some r" by (simp add: m_def)
  have same: "map_option f (m x) = map_option f (g_mem s x)"
    if "x \<in> set xs" "\<And>r p. f (r\<lparr>gl_next := p\<rparr>) = f r" for f :: "greylst \<Rightarrow> 'b" and x
    using that new last by (auto simp: m_def)
  have old: "f (the (m x)) = f (the (g_mem s x))" if "x \<in> set xs" "\<And>r p. f (r\<lparr>gl_next := p\<rparr>) = f r" for f :: "greylst \<Rightarrow> 'b" and x
    using same [OF that] alive that(1) by (cases "m x"; cases "g_mem s x") auto
  have fol': "chained gl_next m (g_head s2) (xs @ [?a])"
    using fol dist last new chained_append [of "g_mem s" "g_head s" xs ?a _ r] by (auto simp: s2_def m_def r_def)
  have names: "map (\<lambda>a. gl_ip_str (the (m a))) xs = map gr_ip (grecs s xs)"
    using old [of _ gl_ip_str] by (simp add: grecs_def)
  have keyset: "(\<lambda>a. gl_ip_str (the (m a))) ` set xs = set (map gr_ip (grecs s xs))"
    using arg_cong [OF names, of set] by simp
  have len: "length (xs @ [?a]) \<le> ?a + 1"
    using below dist card_mono [of "{..<?a}" "set xs"] by (simp add: distinct_card subset_eq)
  have "\<exists>hh rm al. create_hash conf (Some ?a) s2 =
      Inr (True, s2\<lparr>g_hash := hh, g_hcount := length (xs @ [?a]), g_room := rm, g_allocated := al\<rparr>) \<and>
    dom hh = (\<lambda>a. gl_ip_str (the (g_mem s2 a))) ` set (xs @ [?a]) \<and> length (xs @ [?a]) \<le> ?hs * al \<and>
    (al \<noteq> 0 \<longrightarrow> rm = 125 * ?hs * al div 100) \<and> al \<le> g_allocated s2 + 1"
  proof (rule create_hash_loading)
    show "distinct (map (\<lambda>a. gl_ip_str (the (g_mem s2 a))) (xs @ [?a]))"
      using names keys ip(3) ma keyset by (simp add: s2_def r_def)
    show "dom (g_hash s2) = (\<lambda>a. gl_ip_str (the (g_mem s2 a))) ` set xs" using l keyset by (simp add: s2_def loaded_def)
  qed (use l fol' len c in \<open>simp_all add: s2_def loaded_def\<close>)
  then obtain hh rm al where ch: "create_hash conf (Some ?a) s2 =
      Inr (True, s2\<lparr>g_hash := hh, g_hcount := length (xs @ [?a]), g_room := rm, g_allocated := al\<rparr>)"
    "dom hh = (\<lambda>a. gl_ip_str (the (m a))) ` set (xs @ [?a])" "length (xs @ [?a]) \<le> ?hs * al"
    "al \<noteq> 0 \<longrightarrow> rm = 125 * ?hs * al div 100" "al \<le> g_allocated s + 1"
    by (auto simp: s2_def)
  define s' where "s' = s2\<lparr>g_hash := hh, g_hcount := length (xs @ [?a]), g_room := rm, g_allocated := al,
    g_count := g_count s + 1, g_mem := m(?a \<mapsto> r')\<rparr>"
  have link: "(if g_head s = Null then Inr (s\<lparr>g_mem := (g_mem s)(?a := Some r), g_fresh := ?a + 1, g_tail := Addr ?a\<rparr>\<lparr>g_head := Addr ?a\<rparr>)
      else assign (\<lambda>x. x\<lparr>gl_next := Addr ?a\<rparr>) (g_tail s) (s\<lparr>g_mem := (g_mem s)(?a := Some r), g_fresh := ?a + 1, g_tail := Addr ?a\<rparr>)) = Inr s2"
  proof (cases "xs = []")
    case True
    then show ?thesis using hd by (cases s) (simp add: s2_def m_def)
  next
    case False
    then obtain z where "g_mem s (last xs) = Some z" "g_tail s = Addr (last xs)" "last xs \<noteq> ?a" using last new by metis
    then show ?thesis using hd False by (cases s) (simp add: assign_def deref_def s2_def m_def fun_upd_twist)
  qed
  have rr: "r = \<lparr>gl_ip = [], gl_ip_str = ip, gl_rpath = [], gl_rcpt = [], gl_timestamp = ts, gl_attempts = None,
               gl_status = st, gl_prev = (if g_head s = Null then Null else g_tail s), gl_next = Null,
               gl_ip_prev = Junk, gl_ip_next = Junk\<rparr>" by (simp add: r_def hd)
  have "load_record L X conf ip rpath rcpt ts st s = (if 72 \<le> length ip then Inl Undefined
      else gbind (create_hash conf (Some ?a) s2) (\<lambda>(ok, s3).
           if \<not> ok then Inl (Died 1)
           else case ip6_scan L X ip of
                  None \<Rightarrow> Inr (False, free_at ?a (s3\<lparr>g_count := g_count s3 + 1\<rparr>))
                | Some (_, d) \<Rightarrow>
                  gbind (assign (\<lambda>x. x\<lparr>gl_ip := d, gl_rpath := rpath, gl_rcpt := rcpt\<rparr>) (Addr ?a) (s3\<lparr>g_count := g_count s3 + 1\<rparr>))
                    (\<lambda>s5. Inr (True, s5))))"
    unfolding load_record_def Let_def rr [symmetric] link gbind_simps by (rule refl)
  then have res: "load_record L X conf ip rpath rcpt ts st s = Inr (True, s')"
    using ch(1) ip(1,2) ma by (simp add: assign_def deref_def s'_def r'_def) (simp add: s2_def ma)
  have "grecs s' (xs @ [?a]) = grecs s xs @ [\<lparr>gr_ip = ip, gr_from = rpath, gr_rcpt = rcpt, gr_time = ts, gr_status = st\<rparr>]"
    using old [of _ grec_of] new by (auto simp: grecs_def s'_def r'_def r_def grec_of_def)
  moreover have "loaded conf s' (xs @ [?a])"
  proof -
    have "chained gl_next (m(?a \<mapsto> r')) (g_head s2) (xs @ [?a]) = chained gl_next m (g_head s2) (xs @ [?a])"
      by (rule chained_cong) (simp add: ma r'_def r_def)
    then show ?thesis
      using fol' dist new below calculation ch(2-4) keyset keys ip(3) ma by (auto simp: loaded_def s'_def s2_def r_def)
  qed
  ultimately show ?thesis using res ch(5) by (auto simp: s'_def)
qed

section \<open>The whole file\<close>

lemma load_loop_line:
  "f \<noteq> [] \<Longrightarrow> getln f = (line, True, rest) \<Longrightarrow> load_loop L X conf verbose now f s =
     (case load_round L X conf verbose now line s of Inl e \<Rightarrow> Inl e
      | Inr (ok, s') \<Rightarrow> if ok then load_loop L X conf verbose now rest s' else Inr s')"
  by (subst load_loop.simps) (simp split: sum.split)

lemma s64_u64: "0 \<le> t \<Longrightarrow> t < 2 ^ 62 \<Longrightarrow> s64 (int (nat (u64 t))) = t"
  using u64_id [of t] s64_id [of t] by simp

context libqmail
begin

lemma load_loop_lines:
  assumes "loaded conf s xs" "\<forall>r \<in> set rs. storable L X (grec_of r)" "distinct (map gr_ip (grecs s xs) @ map gl_ip_str rs)"
    "time_ok conf now" "0 < gc_hash_size conf" "125 * gc_hash_size conf * (g_allocated s + length rs) < 2 ^ 31"
  shows "\<exists>s' xs'. load_loop L X conf verbose now (concat (map (context_line L) rs)) s = Inr s' \<and> loaded conf s' xs' \<and>
    grecs s' xs' = grecs s xs @ filter (\<lambda>g. verbose \<longrightarrow> unexpired conf now g) (map grec_of rs)"
  using assms
proof (induction rs arbitrary: s xs)
  case Nil
  then show ?case by (auto simp: load_loop.simps)
next
  case (Cons r rs)
  let ?line = "context_line L r" and ?rest = "concat (map (context_line L) rs)"
  have st: "storable L X (grec_of r)" using Cons.prems(2) by simp
  have nn: "no_nul (gl_ip_str r)" "no_nul (gl_rpath r)" and t: "0 \<le> gl_timestamp r" "gl_timestamp r < 2 ^ 62"
    and sta: "0 \<le> gl_status r" "gl_status r < 7" and ipl: "length (gl_ip_str r) < 72"
    using st by (simp_all add: storable_def)
  obtain n d where ip: "ip6_scan L X (gl_ip_str r) = Some (n, d)" using st by (auto simp: storable_def)
  have u: "int (nat (u64 (gl_timestamp r))) = gl_timestamp r" "u64 (gl_timestamp r) = gl_timestamp r"
      "u64 (now - int (gc_timeout conf)) = now - int (gc_timeout conf)"
    using t u64_id [of "gl_timestamp r"] Cons.prems(4) by (auto simp: time_ok_def intro!: u64_id)
  have round: "load_round L X conf verbose now ?line s =
      (if verbose \<and> \<not> unexpired conf now (grec_of r) then Inr (True, s)
       else load_record L X conf (gl_ip_str r) (gl_rpath r) (gl_rcpt r) (gl_timestamp r) (gl_status r) s)"
    using parse_context_line [OF nn] s64_u64 [OF t] small_status [OF sta] u
    by (auto simp: load_round_def unexpired_def)
  have ne: "concat (map (context_line L) (r # rs)) \<noteq> []" by (simp add: context_line_def)
  have loop: "load_loop L X conf verbose now (concat (map (context_line L) (r # rs))) s =
      (case load_round L X conf verbose now ?line s of Inl e \<Rightarrow> Inl e
       | Inr (ok, s') \<Rightarrow> if ok then load_loop L X conf verbose now ?rest s' else Inr s')"
    by (rule load_loop_line [OF ne]) (simp add: getln_context_line [OF st])
  show ?case
  proof (cases "verbose \<and> \<not> unexpired conf now (grec_of r)")
    case True
    have "125 * gc_hash_size conf * (g_allocated s + length rs) < 2 ^ 31"
      by (rule le_less_trans [OF _ Cons.prems(6)]) (intro mult_left_mono, simp_all)
    then show ?thesis using Cons.IH [OF Cons.prems(1)] Cons.prems(2-5) loop round True by simp
  next
    case False
    have new: "gl_ip_str r \<notin> set (map gr_ip (grecs s xs))" using Cons.prems(3) by simp
    have b: "125 * gc_hash_size conf * (g_allocated s + 1) < 2 ^ 31"
      by (rule le_less_trans [OF _ Cons.prems(6)]) (intro mult_left_mono, simp_all)
    from loaded_record [OF Cons.prems(1) ip ipl new Cons.prems(5) b, of "gl_rpath r" "gl_rcpt r" "gl_timestamp r" "gl_status r"]
    obtain s1 where s1: "load_record L X conf (gl_ip_str r) (gl_rpath r) (gl_rcpt r) (gl_timestamp r) (gl_status r) s = Inr (True, s1)"
        "loaded conf s1 (xs @ [g_fresh s])" "grecs s1 (xs @ [g_fresh s]) = grecs s xs @ [grec_of r]" "g_allocated s1 \<le> g_allocated s + 1"
      by (auto simp: grec_of_def)
    have b1: "125 * gc_hash_size conf * (g_allocated s1 + length rs) < 2 ^ 31"
      by (rule le_less_trans [OF _ Cons.prems(6)]) (intro mult_left_mono, use s1(4) in simp_all)
    have k1: "distinct (map gr_ip (grecs s1 (xs @ [g_fresh s])) @ map gl_ip_str rs)"
      unfolding s1(3) using Cons.prems(3) by auto
    from Cons.IH [OF s1(2) _ k1 Cons.prems(4,5) b1] Cons.prems(2) obtain s' xs' where
      "load_loop L X conf verbose now ?rest s1 = Inr s'" "loaded conf s' xs'"
      "grecs s' xs' = grecs s1 (xs @ [g_fresh s]) @ filter (\<lambda>g. verbose \<longrightarrow> unexpired conf now g) (map grec_of rs)" by auto
    then show ?thesis using loop round False s1(1,3) by auto
  qed
qed

end

lemma loaded_empty: "loaded conf greyd_empty []"
  by (simp add: loaded_def greyd_empty_def grecs_def)

end
