(* ===== verification/Ip6Facts.thy ===== *)
theory Ip6Facts
  imports Ip6
begin

text \<open>
  The text of an IPv6 address is read back: \<^verbatim>\<open>ip6_scan\<close> of \<^verbatim>\<open>indimail-mta-x/ip.c\<close> undoes \<^verbatim>\<open>ip6_fmt\<close>, whatever is
  compressed. What \<^verbatim>\<open>ip6_fmt\<close> writes is described on the list of the eight 16-bit groups first.
\<close>

fun words :: "nat list \<Rightarrow> nat list" where
  "words (a # b # r) = (a * 256 + b) # words r"
| "words r = []"

fun colons :: "hexlib \<Rightarrow> nat list \<Rightarrow> bytes" where
  "colons X [] = []"
| "colons X [w] = hx_fmt_xlong X w"
| "colons X (w # ws) = hx_fmt_xlong X w @ '':'' @ colons X ws"

lemma words_bytes:
  "even (length r) \<Longrightarrow> \<forall>d \<in> set r. d \<le> 255 \<Longrightarrow> concat (map two_bytes (words r)) = r"
  by (induction r rule: words.induct) (auto simp: two_bytes_def)

lemma words_length: "length (words r) = length r div 2"
  by (induction r rule: words.induct) auto

section \<open>What is printed\<close>

definition plain_address :: "ip6 \<Rightarrow> bool" where
  "plain_address ip \<longleftrightarrow> length ip = 16 \<and> take 12 ip \<noteq> V4mappedprefix"

lemma groups_compressed:
  "plain_address ip \<Longrightarrow> even (length r) \<Longrightarrow> length r \<le> 16 \<Longrightarrow>
   ip6_groups L X ip r False True = colons X (words r)"
proof (induction r rule: words.induct)
  case (1 a b r)
  show ?case
  proof (cases r)
    case Nil
    then show ?thesis using 1 by (simp add: plain_address_def)
  next
    case (Cons c t)
    then obtain d u where "r = c # d # u" using "1.prems"(2) by (cases t) auto
    then show ?thesis using 1 by (simp add: plain_address_def)
  qed
qed simp_all

abbreviation nonzero :: "nat \<Rightarrow> bool" where
  "nonzero \<equiv> \<lambda>w. w \<noteq> 0"

lemma groups_compressing:
  "plain_address ip \<Longrightarrow> even (length r) \<Longrightarrow> length r \<le> 14 \<Longrightarrow>
   ip6_groups L X ip r True False = '':'' @ colons X (dropWhile (\<lambda>w. w = 0) (words r))"
proof (induction r rule: words.induct)
  case (1 a b r)
  have l: "length ip = 16" "take 12 ip \<noteq> V4mappedprefix" using "1.prems"(1) by (simp_all add: plain_address_def)
  show ?case
  proof (cases "a * 256 + b = 0")
    case True
    then show ?thesis using 1 l by simp
  next
    case False
    have "colons X (words (a # b # r)) = hx_fmt_xlong X (a * 256 + b) @ (if r = [] then [] else '':'') @ colons X (words r)"
    proof (cases r)
      case (Cons c t)
      then obtain d u where "r = c # d # u" using "1.prems"(2) by (cases t) auto
      then show ?thesis by simp
    qed simp
    moreover have "(14 - length r < 14) = (r \<noteq> [])" using "1.prems"(3) by (cases r) auto
    ultimately show ?thesis
      using groups_compressed [OF "1.prems"(1), of r L X] "1.prems"(2,3) False l by (auto simp: Let_def)
  qed
qed simp_all

definition head_text :: "hexlib \<Rightarrow> nat list \<Rightarrow> bytes" where
  "head_text X ws = concat (map (\<lambda>w. hx_fmt_xlong X w @ '':'') ws)"

lemma head_colons: "ws \<noteq> [] \<Longrightarrow> head_text X ws = colons X ws @ '':''"
  by (induction X ws rule: colons.induct) (simp_all add: head_text_def)

lemma groups_text:
  "plain_address ip \<Longrightarrow> even (length r) \<Longrightarrow> length r \<le> 16 \<Longrightarrow>
   ip6_groups L X ip r False False =
     (if 0 \<notin> set (words r) then colons X (words r)
      else head_text X (takeWhile nonzero (words r)) @ (if length r = 16 \<and> hd (words r) = 0 then '':'' else []) @
        '':'' @ colons X (dropWhile (\<lambda>w. w = 0) (dropWhile nonzero (words r))))"
proof (induction r rule: words.induct)
  case (1 a b r)
  have l: "length ip = 16" "take 12 ip \<noteq> V4mappedprefix" using "1.prems"(1) by (simp_all add: plain_address_def)
  have r: "even (length r)" "length r \<le> 14" using "1.prems"(2,3) by simp_all
  show ?case
  proof (cases "a * 256 + b = 0")
    case True
    then show ?thesis
      using groups_compressing [OF "1.prems"(1) r, of L X] l r(2) by (auto simp: head_text_def)
  next
    case False
    have "colons X (words (a # b # r)) = hx_fmt_xlong X (a * 256 + b) @ (if r = [] then [] else '':'') @ colons X (words r)"
    proof (cases r)
      case (Cons c t)
      then obtain d u where "r = c # d # u" using "1.prems"(2) by (cases t) auto
      then show ?thesis by simp
    qed simp
    moreover have "(14 - length r < 14) = (r \<noteq> [])" using r(2) by (cases r) auto
    moreover have "length r \<noteq> 16" using r(2) by simp
    moreover have "ip6_groups L X ip (a # b # r) False False =
        hx_fmt_xlong X (a * 256 + b) @ (if r \<noteq> [] then '':'' else []) @ ip6_groups L X ip r False False"
      using False l calculation(2) by (auto simp: Let_def)
    moreover have "0 \<in> set (words r) \<Longrightarrow> r \<noteq> []" by auto
    ultimately show ?thesis
      using "1.IH" [OF "1.prems"(1) r(1)] r(2) False by (auto simp: head_text_def)
  qed
qed simp_all


section \<open>What is read\<close>

definition ends_number :: "bytes \<Rightarrow> bool" where
  "ends_number t \<longleftrightarrow> (t = [] \<or> \<not> is_hex (hd t) \<and> hd t \<noteq> CHR ''.'')"

lemma is_hex_chars [simp]: "\<not> is_hex (CHR '':'')" "\<not> is_hex (CHR ''.'')" "\<not> is_hex NUL" "\<not> is_hex (CHR '']'')"
  by (simp_all add: is_hex_def hex_val_def)

lemma is_digit_hex: "is_digit c \<Longrightarrow> is_hex c"
  by (simp add: is_digit_def is_hex_def hex_val_def)

lemma char_at_append [simp]: "char_at (s @ t) (length s) = char_at t 0"
  by (simp add: char_at_def nth_append)

lemma char_at_0: "char_at s 0 = (if s = [] then NUL else hd s)"
  by (cases s) (simp_all add: char_at_def)

lemma char_at_Suc [simp]: "char_at (c # s) (Suc i) = char_at s i"
  by (simp add: char_at_def)

lemma scan_prefix_round:
  "length pre < 16 \<Longrightarrow> \<not> (char_at s 0 = CHR '':'' \<and> char_at s 1 = CHR '':'') \<Longrightarrow>
   scan_prefix L X s len pre =
     (case prefix_round L X s len pre of Inl r \<Rightarrow> r | Inr (s', len', pre') \<Rightarrow> scan_prefix L X s' len' pre')"
  using scan_prefix.simps [of L X s len pre] by (auto simp: not_le [symmetric])

lemma scan_prefix_colons:
  "length pre < 16 \<Longrightarrow> scan_prefix L X ('':'' @ '':'' @ r) len pre =
     (let (n, suffix) = scan_suffix L X r (len + 2) (length pre) []
      in Some (n, take (16 - length suffix) (pre @ replicate (16 - length pre) 0) @ suffix))"
  by (subst scan_prefix.simps) (simp add: char_at_def)

definition whole_text :: "bytes \<Rightarrow> nat" where
  "whole_text s = (if drop (length s - 2) s = ''::'' then length s - 1 else length s)"

lemma whole_text_colons: "whole_text (s @ ''::'') = length s + 1"
  by (simp add: whole_text_def)

lemma whole_text_last: "s \<noteq> [] \<Longrightarrow> last s \<noteq> CHR '':'' \<Longrightarrow> whole_text s = length s"
  by (auto simp: whole_text_def) (metis drop_eq_Nil last.simps last_drop list.distinct(1) not_less)

locale ip_text = libqmail L + hexnum X for L X
begin

lemma scan_none: "s = [] \<or> \<not> is_hex (hd s) \<Longrightarrow> fst (hx_scan_xlong X s) = 0"
  by (cases s) (auto simp: scan_xlong_len)

lemma hex_head: "is_hex (hd (hx_fmt_xlong X w @ t))" "hx_fmt_xlong X w @ t \<noteq> []"
  using fmt_xlong_digits [of w] by (cases "hx_fmt_xlong X w"; simp)+

lemma hex_first: "char_at (hx_fmt_xlong X w @ t) 0 \<noteq> CHR '':''"
  using hex_head [of w t] by (auto simp: char_at_0)

lemma scan_number: "ends_number t \<Longrightarrow> hx_scan_xlong X (hx_fmt_xlong X w @ t) = (length (hx_fmt_xlong X w), w)"
  by (rule scan_xlong) (auto simp: ends_number_def)

lemma number_pos: "length (hx_fmt_xlong X w) \<noteq> 0"
  using fmt_xlong_digits [of w] by simp

lemma no_dot: "ends_number t \<Longrightarrow> char_at t 0 \<noteq> CHR ''.''"
  by (auto simp: ends_number_def char_at_0)

text \<open>One group of each part.\<close>

lemma suffix_group:
  assumes "ends_number t" "c = (suffix \<noteq> [])" "length suffix < 16"
  shows "scan_suffix L X ((if c then '':'' else []) @ hx_fmt_xlong X w @ t) len p suffix =
    (let len' = len + (if c then 1 else 0) + length (hx_fmt_xlong X w)
     in if p + length suffix + 2 = 16 then (len', suffix @ two_bytes w)
        else scan_suffix L X t len' p (suffix @ two_bytes w))"
proof -
  have "suffix_round L X ((if c then '':'' else []) @ hx_fmt_xlong X w @ t) len p suffix =
    (let len' = len + (if c then 1 else 0) + length (hx_fmt_xlong X w)
     in if p + length suffix + 2 = 16 then Inl (len', suffix @ two_bytes w) else Inr (t, len', p, suffix @ two_bytes w))"
    using assms scan_number [OF assms(1), of w] number_pos [of w] no_dot [OF assms(1)] hex_first [of w t]
    by (cases "suffix = []") (auto simp: suffix_round_def Let_def char_at_0)
  then show ?thesis using assms(3) by (subst scan_suffix.simps) (simp add: Let_def)
qed

lemma suffix_end:
  assumes "ends_number t" "char_at t 0 \<noteq> CHR '':''"
  shows "scan_suffix L X t len p [] = (len - 1, [])" "suffix \<noteq> [] \<Longrightarrow> scan_suffix L X t len p suffix = (len, suffix)"
proof -
  have "fst (hx_scan_xlong X t) = 0" using assms(1) by (intro scan_none) (auto simp: ends_number_def)
  then show "scan_suffix L X t len p [] = (len - 1, [])"
    using assms(2) by (subst scan_suffix.simps) (auto simp: suffix_round_def Let_def split: prod.split)
  show "suffix \<noteq> [] \<Longrightarrow> scan_suffix L X t len p suffix = (len, suffix)"
    using assms(2) by (subst scan_suffix.simps) (auto simp: suffix_round_def)
qed

lemma prefix_group:
  assumes "ends_number t" "length pre < 16"
  shows "scan_prefix L X ((if c then '':'' else []) @ hx_fmt_xlong X w @ t) len pre =
    (let len' = len + (if c then 1 else 0) + length (hx_fmt_xlong X w)
     in if length pre + 2 = 16 then Some (len', pre @ two_bytes w)
        else scan_prefix L X t len' (pre @ two_bytes w))"
proof -
  have f: "char_at (hx_fmt_xlong X w @ t) 0 \<noteq> CHR '':''" by (rule hex_first)
  have two: "\<not> (char_at ((if c then '':'' else []) @ hx_fmt_xlong X w @ t) 0 = CHR '':'' \<and>
      char_at ((if c then '':'' else []) @ hx_fmt_xlong X w @ t) 1 = CHR '':'')"
    using f by (cases c) auto
  have "prefix_round L X ((if c then '':'' else []) @ hx_fmt_xlong X w @ t) len pre =
    (let len' = len + (if c then 1 else 0) + length (hx_fmt_xlong X w)
     in if length pre + 2 = 16 then Inl (Some (len', pre @ two_bytes w)) else Inr (t, len', pre @ two_bytes w))"
    using scan_number [OF assms(1), of w] number_pos [of w] no_dot [OF assms(1)] f
    by (cases c) (auto simp: prefix_round_def Let_def char_at_0)
  then show ?thesis
    using scan_prefix_round [OF assms(2) two, of L X len] by (simp add: Let_def)
qed

text \<open>All groups of each part.\<close>

lemma suffix_groups:
  assumes "ws \<noteq> []" "ends_number t" "char_at t 0 \<noteq> CHR '':''" "c = (suffix \<noteq> [])" "p + length suffix + 2 * length ws \<le> 16"
  shows "scan_suffix L X ((if c then '':'' else []) @ colons X ws @ t) len p suffix =
    (len + (if c then 1 else 0) + length (colons X ws), suffix @ concat (map two_bytes ws))"
  using assms
proof (induction ws arbitrary: len suffix c rule: induct_list012)
  case (2 w)
  then show ?case using suffix_group [of t c suffix w len p] suffix_end [of t] by (auto simp: Let_def)
next
  case (3 w v vs)
  have e: "ends_number ('':'' @ colons X (v # vs) @ t)" by (simp add: ends_number_def)
  show ?case
    using "3.IH"(2) [of True "suffix @ two_bytes w"] "3.prems" suffix_group [OF e "3.prems"(4), of w len p] by (auto simp: Let_def add.assoc)
qed simp

lemma prefix_groups:
  assumes "ws \<noteq> []" "length pre + 2 * length ws < 16"
  shows "scan_prefix L X ((if c then '':'' else []) @ colons X ws @ '':'' @ r) len pre =
    scan_prefix L X ('':'' @ r) (len + (if c then 1 else 0) + length (colons X ws)) (pre @ concat (map two_bytes ws))"
  using assms
proof (induction ws arbitrary: len pre c rule: induct_list012)
  case (2 w)
  have e: "ends_number ('':'' @ r)" by (simp add: ends_number_def)
  show ?case using 2 prefix_group [OF e, of pre c w len] by (auto simp: Let_def)
next
  case (3 w v vs)
  have e: "ends_number ('':'' @ colons X (v # vs) @ '':'' @ r)" by (simp add: ends_number_def)
  show ?case
    using "3.IH"(2) [of "pre @ two_bytes w" True] "3.prems" prefix_group [OF e, of pre c w len] by (auto simp: Let_def add.assoc)
qed simp

lemma prefix_whole:
  assumes "ws \<noteq> []" "length pre + 2 * length ws = 16" "ends_number t"
  shows "scan_prefix L X ((if c then '':'' else []) @ colons X ws @ t) len pre =
    Some (len + (if c then 1 else 0) + length (colons X ws), pre @ concat (map two_bytes ws))"
  using assms
proof (induction ws arbitrary: len pre c rule: induct_list012)
  case (2 w)
  then show ?case using prefix_group [of t pre c w len] by (auto simp: Let_def)
next
  case (3 w v vs)
  have e: "ends_number ('':'' @ colons X (v # vs) @ t)" by (simp add: ends_number_def)
  show ?case
    using "3.IH"(2) [of "pre @ two_bytes w" True] "3.prems" prefix_group [OF e, of pre c w len] by (auto simp: Let_def add.assoc)
qed simp

text \<open>A text of this form is not taken for an IPv4 address.\<close>

lemma not_ip4:
  assumes "list_all is_hex h" "u = [] \<or> hd u \<noteq> CHR ''.'' \<and> \<not> is_digit (hd u)"
  shows "ip4_scan L (h @ u) = None"
proof -
  have d: "drop (fst (lq_scan_ulong L s)) s = dropWhile is_digit s" for s
    by (simp add: scan_ulong_len dropWhile_eq_drop)
  have "scan_dot (dropWhile is_digit (h @ u)) = None"
    using assms
  proof (induction h)
    case Nil
    then show ?case by (cases u) (auto simp: scan_dot_def)
  next
    case (Cons c h)
    then show ?case by (auto simp: scan_dot_def)
  qed
  then show ?thesis
    using d [of "h @ u"] by (auto simp: ip4_scan_def scan_octet_def Let_def split: prod.splits)
qed

lemma colons_not_ip4: "length ws > 1 \<Longrightarrow> ip4_scan L (colons X ws @ t) = None"
proof (induction ws rule: induct_list012)
  case (3 w v vs)
  show ?case
    using not_ip4 [of "hx_fmt_xlong X w" "'':'' @ colons X (v # vs) @ t"] fmt_xlong_digits [of w] by (simp add: is_digit_def)
qed simp_all

text \<open>Reading back what was printed.\<close>

lemma colons_last: "ws \<noteq> [] \<Longrightarrow> colons X ws \<noteq> [] \<and> is_hex (last (colons X ws))"
proof (induction ws rule: induct_list012)
  case (2 w)
  then show ?case using fmt_xlong_digits [of w] by (auto simp: list_all_iff)
qed auto

lemma scan_plain:
  assumes "plain_address ip" "ip6_ok ip" "ends_number t" "char_at t 0 \<noteq> CHR '':''"
  shows "ip6_scan L X (ip6_fmt L X ip @ t) = Some (whole_text (ip6_fmt L X ip), ip)"
proof -
  let ?ws = "words ip"
  have l: "length ip = 16" "\<forall>d \<in> set ip. d \<le> 255" "length ?ws = 8"
    using assms(2) by (simp_all add: ip6_ok_def words_length)
  have b: "concat (map two_bytes ?ws) = ip" by (rule words_bytes) (use l in simp_all)
  have ne: "?ws \<noteq> []" using l(3) by (cases ?ws) auto
  show ?thesis
  proof (cases "0 \<in> set ?ws")
    case False
    then have f: "ip6_fmt L X ip = colons X ?ws"
      using groups_text [OF assms(1), of ip L X] l by (simp add: ip6_fmt_def)
    have "whole_text (colons X ?ws) = length (colons X ?ws)"
      by (rule whole_text_last) (use colons_last [of ?ws] l(3) in \<open>fastforce simp: is_hex_def hex_val_def\<close>)+
    then show ?thesis
      using f colons_not_ip4 [of ?ws t] prefix_whole [of ?ws "[]" t False 0] assms(3) l b ne
      by (auto simp: ip6_scan_def)
  next
    case True
    define A where "A = takeWhile nonzero ?ws"
    define R where "R = dropWhile nonzero ?ws"
    define B where "B = dropWhile (\<lambda>w. w = 0) R"
    define k where "k = length (takeWhile (\<lambda>w. w = 0) R)"
    have R: "R \<noteq> []" "hd R = 0" using True hd_dropWhile [of nonzero ?ws] by (auto simp: R_def)
    have k: "0 < k" using R by (cases R) (simp_all add: k_def)
    have z: "takeWhile (\<lambda>w. w = 0) R = replicate k 0"
      unfolding k_def by (rule replicate_eqI) (auto dest: set_takeWhileD)
    have ws: "?ws = A @ replicate k 0 @ B"
      using z takeWhile_dropWhile_id [of "\<lambda>w. w = 0" R] takeWhile_dropWhile_id [of nonzero ?ws]
      by (simp add: A_def B_def R_def)
    have len: "length A + k + length B = 8" using l(3) ws by (metis add.assoc length_append length_replicate)
    have "hd ?ws = 0 \<longleftrightarrow> A = []"
      using l(3) by (cases ?ws) (auto simp: A_def)
    then have f: "ip6_fmt L X ip = colons X A @ '':'' @ '':'' @ colons X B"
      using groups_text [OF assms(1), of ip L X] l True head_colons [of A X]
      by (auto simp: ip6_fmt_def A_def R_def B_def head_text_def)
    have none: "ip4_scan L (ip6_fmt L X ip @ t) = None"
    proof (cases A)
      case Nil
      then show ?thesis using f not_ip4 [of "[]" "ip6_fmt L X ip @ t"] by (simp add: is_digit_def)
    next
      case (Cons w v)
      then show ?thesis
        using f not_ip4 [of "hx_fmt_xlong X w" "'':'' @ '':'' @ colons X B @ t"] colons_not_ip4 [of A "'':'' @ '':'' @ colons X B @ t"] fmt_xlong_digits [of w]
        by (cases v) (simp_all add: is_digit_def)
    qed
    have pre: "scan_prefix L X (colons X A @ '':'' @ '':'' @ colons X B @ t) 0 [] =
        scan_prefix L X ('':'' @ '':'' @ colons X B @ t) (length (colons X A)) (concat (map two_bytes A))"
      using prefix_groups [of A "[]" False "'':'' @ colons X B @ t" 0] len k by (cases "A = []") auto
    have two: "length (concat (map two_bytes ws)) = 2 * length ws" for ws
      by (induction ws) auto
    have suf: "scan_suffix L X (colons X B @ t) n (2 * length A) [] =
        (if B = [] then (n - 1, []) else (n + length (colons X B), concat (map two_bytes B)))" for n
      using suffix_groups [of B t False "[]" "2 * length A" n] suffix_end [OF assms(3,4)] assms(3,4) len k by auto
    have ip: "take (16 - 2 * length B) (concat (map two_bytes A) @ replicate (16 - 2 * length A) 0) @ concat (map two_bytes B) = ip"
    proof -
      have z0: "replicate (2 * n) 0 = concat (map two_bytes (replicate n 0))" for n
        by (induction n) (simp_all add: two_bytes_def)
      have n: "16 - 2 * length A = 2 * k + 2 * length B" using len by simp
      have "concat (map two_bytes A) @ replicate (16 - 2 * length A) 0 =
          concat (map two_bytes (A @ replicate k 0)) @ replicate (2 * length B) 0"
        unfolding n replicate_add z0 [of k] by simp
      moreover have "length (concat (map two_bytes (A @ replicate k 0))) = 16 - 2 * length B"
        using len two [of "A @ replicate k 0"] by simp
      ultimately show ?thesis using b by (simp add: ws del: map_append concat_append map_replicate)  (simp add: ws)
    qed
    have w: "whole_text (ip6_fmt L X ip) = (if B = [] then length (colons X A) + 1 else length (colons X A) + 2 + length (colons X B))"
    proof (cases "B = []")
      case True
      then show ?thesis using f whole_text_colons [of "colons X A"] by simp
    next
      case False
      then have "colons X B \<noteq> []" "last (colons X B) \<noteq> CHR '':''" using colons_last [of B] is_hex_chars(1) by metis+
      then show ?thesis using f whole_text_last [of "ip6_fmt L X ip"] False by simp
    qed
    have "scan_prefix L X ('':'' @ '':'' @ colons X B @ t) (length (colons X A)) (concat (map two_bytes A)) =
        Some (whole_text (ip6_fmt L X ip), ip)"
      using scan_prefix_colons [of "concat (map two_bytes A)" L X "colons X B @ t" "length (colons X A)"] suf ip w two len k
      by (cases "B = []") simp_all
    then show ?thesis using none pre f by (simp add: ip6_scan_def)
  qed
qed

lemma ip4_fmt_head: "char_at (ip4_fmt L d @ t) 0 \<noteq> CHR '':''" "fst (hx_scan_xlong X (ip4_fmt L d @ t)) = length (lq_fmt_ulong L (d ! 0))"
proof -
  have h: "lq_fmt_ulong L (d ! 0) \<noteq> []" "list_all is_hex (lq_fmt_ulong L (d ! 0))"
    using fmt_ulong_digits [of "d ! 0"] is_digit_hex by (auto simp: list_all_iff)
  then show "char_at (ip4_fmt L d @ t) 0 \<noteq> CHR '':''"
    by (cases "lq_fmt_ulong L (d ! 0)") (auto simp: char_at_0 ip4_fmt_def)
  show "fst (hx_scan_xlong X (ip4_fmt L d @ t)) = length (lq_fmt_ulong L (d ! 0))"
    using h(2) by (simp add: scan_xlong_len ip4_fmt_def takeWhile_append list_all_iff)
qed

lemma ip4_fmt_last: "ip4_fmt L d \<noteq> [] \<and> is_digit (last (ip4_fmt L d))"
  using fmt_ulong_digits [of "d ! 3"] by (auto simp: ip4_fmt_def list_all_iff)

lemma mapped_text:
  assumes "length d = 4"
  shows "ip6_fmt L X (V4mappedprefix @ d) = ''::'' @ hx_fmt_xlong X 65535 @ '':'' @ ip4_fmt L d"
proof -
  obtain a b e f where d: "d = [a, b, e, f]"
    using assms by (auto simp: numeral_eq_Suc length_Suc_conv)
  show ?thesis by (simp add: ip6_fmt_def V4mappedprefix_def d)
qed

lemma mapped_bytes: "replicate 10 0 @ 255 # 255 # d = V4mappedprefix @ d"
proof -
  have "replicate 10 0 = [0, 0, 0, 0, 0, 0, 0, 0, 0, 0 :: nat]" by (simp add: numeral_eq_Suc)
  then show ?thesis by (simp add: V4mappedprefix_def)
qed

lemma scan_mapped:
  assumes "ip4_ok d" "t = [] \<or> \<not> is_digit (hd t)"
  shows "ip6_scan L X (ip6_fmt L X (V4mappedprefix @ d) @ t) =
    Some (whole_text (ip6_fmt L X (V4mappedprefix @ d)), V4mappedprefix @ d)"
proof -
  let ?h = "hx_fmt_xlong X 65535" and ?q = "ip4_fmt L d"
  have d: "length d = 4" using assms(1) by (simp add: ip4_ok_def)
  have e: "ends_number ('':'' @ ?q @ t)" by (simp add: ends_number_def)
  have two: "two_bytes 65535 = [255, 255]" by (simp add: two_bytes_def)
  obtain u where u: "hx_scan_xlong X (?q @ t) = (length (lq_fmt_ulong L (d ! 0)), u)"
    using ip4_fmt_head(2) [of d t] by (cases "hx_scan_xlong X (?q @ t)") auto
  have dot: "char_at (?q @ t) (length (lq_fmt_ulong L (d ! 0))) = CHR ''.''"
    by (simp add: ip4_fmt_def char_at_def nth_append)
  have q: "suffix_round L X ('':'' @ ?q @ t) n 0 [255, 255] = Inl (n + 1 + length ?q, [255, 255] @ d)" for n
    using u dot ip4_scan_fmt [OF assms] fmt_ulong_digits [of "d ! 0"] by (simp add: suffix_round_def Let_def char_at_0)
  have "scan_suffix L X (?h @ '':'' @ ?q @ t) 2 0 [] = (2 + length ?h + 1 + length ?q, [255, 255] @ d)"
    using suffix_group [OF e, of False "[]" 65535 2 0] q [of "2 + length ?h"]
    by (simp add: two scan_suffix.simps [of L X "CHR '':'' # (?q @ t)"] Let_def)
  moreover have "ip4_scan L (''::'' @ ?h @ '':'' @ ?q @ t) = None"
    using not_ip4 [of "[]" "''::'' @ ?h @ '':'' @ ?q @ t"] by (simp add: is_digit_def)
  moreover have "whole_text (''::'' @ ?h @ '':'' @ ?q) = 2 + length ?h + 1 + length ?q"
  proof -
    have "last (''::'' @ ?h @ '':'' @ ?q) \<noteq> CHR '':''" using ip4_fmt_last [of d] by (auto simp: is_digit_def)
    then show ?thesis using whole_text_last [of "''::'' @ ?h @ '':'' @ ?q"] by simp
  qed
  ultimately show ?thesis
    using scan_prefix_colons [of "[]" L X "?h @ '':'' @ ?q @ t" 0] d
    by (simp add: mapped_text ip6_scan_def mapped_bytes numeral_2_eq_2)
qed

lemma ip6_scan_fmt:
  assumes "ip6_ok ip" "ends_number t" "char_at t 0 \<noteq> CHR '':''"
  shows "ip6_scan L X (ip6_fmt L X ip @ t) = Some (whole_text (ip6_fmt L X ip), ip)"
proof (cases "take 12 ip = V4mappedprefix")
  case True
  then have "ip = V4mappedprefix @ drop 12 ip" by (metis append_take_drop_id)
  moreover have "ip4_ok (drop 12 ip)" using assms(1) by (auto simp: ip6_ok_def ip4_ok_def dest: in_set_dropD)
  moreover have "t = [] \<or> \<not> is_digit (hd t)" using assms(2) is_digit_hex by (auto simp: ends_number_def)
  ultimately show ?thesis using scan_mapped by metis
next
  case False
  then show ?thesis using scan_plain [OF _ assms] assms(1) by (simp add: plain_address_def ip6_ok_def)
qed

text \<open>The text fits the buffers of the callers (\<^verbatim>\<open>IPFMT\<close> is 72).\<close>

lemma colons_length: "\<forall>w \<in> set ws. w < 65536 \<Longrightarrow> length (colons X ws) \<le> 5 * length ws"
proof (induction ws rule: induct_list012)
  case (2 w)
  then show ?case using fmt_xlong_len [of w 4] by simp
next
  case (3 w v vs)
  then show ?case using fmt_xlong_len [of w 4] by simp
qed simp

lemma bracket_of_colons:
  assumes "ip6_ok ip" "drop (length (ip6_fmt L X ip) - 2) (ip6_fmt L X ip) = ''::''"
  shows "ip6_scanbracket L X (''['' @ ip6_fmt L X ip @ '']'') = None"
proof -
  let ?f = "ip6_fmt L X ip"
  obtain s where f: "?f = s @ ''::''" using assms(2) by (metis append_take_drop_id)
  have l: "2 \<le> length ?f" using f by simp
  have "char_at (?f @ '']'') (length ?f - 1) = CHR '':''" by (simp add: f char_at_def nth_append)
  moreover have "ip6_scan L X (?f @ '']'') = Some (length ?f - 1, ip)"
    using ip6_scan_fmt [OF assms(1), of "'']''"] assms(2) by (simp add: ends_number_def whole_text_def char_at_0)
  moreover have "char_at (''['' @ ?f @ '']'') (length ?f) = char_at (?f @ '']'') (length ?f - 1)"
    using l by (cases "length ?f") auto
  ultimately show ?thesis using l by (simp add: ip6_scanbracket_def char_at_0)
qed

end

interpretation ref: ip_text ref_libq ref_hexlib
  by unfold_locales

section \<open>The properties\<close>

text \<open>
  C33. Every IPv6 address that \<^verbatim>\<open>ip6_fmt\<close> writes is read back by \<^verbatim>\<open>ip6_scan\<close>, whatever is compressed or mapped and
  whatever follows that is no part of an address. The length returned is that of the text, but one less when it ends with
  the two colons.
\<close>

theorem ip6_text_roundtrip:
  assumes "libqmail L" "hexnum X" "ip6_ok ip" "t = [] \<or> \<not> is_hex (hd t) \<and> hd t \<notin> {CHR ''.'', CHR '':''}"
  shows "ip6_scan L X (ip6_fmt L X ip @ t) =
    Some (if drop (length (ip6_fmt L X ip) - 2) (ip6_fmt L X ip) = ''::''
          then length (ip6_fmt L X ip) - 1 else length (ip6_fmt L X ip), ip)"
  using ip_text.ip6_scan_fmt [OF _ assms(3), of L X t] assms
  by (auto simp: ip_text_def whole_text_def ends_number_def char_at_0)

lemma ip6_text_roundtrip_witness:
  "ip6_scan ref_libq ref_hexlib (ip6_fmt ref_libq ref_hexlib [254, 128, 0, 0, 0, 0, 0, 0, 0, 0, 0, 0, 0, 0, 0, 1] @ '']'') =
     Some (7, [254, 128, 0, 0, 0, 0, 0, 0, 0, 0, 0, 0, 0, 0, 0, 1])"
proof -
  have f: "ip6_fmt ref_libq ref_hexlib [254, 128, 0, 0, 0, 0, 0, 0, 0, 0, 0, 0, 0, 0, 0, 1] = ''fe80::1''"
    by (simp add: ip6_fmt_def V4mappedprefix_def ref_hexlib_def ref_fmt_xlong.simps hex_digit_def char_of_def bit_Suc_0_iff)
  show ?thesis
    using ip6_text_roundtrip [OF ref.libqmail_axioms ref.hexnum_axioms, of "[254, 128, 0, 0, 0, 0, 0, 0, 0, 0, 0, 0, 0, 0, 0, 1]" "'']''"]
    unfolding f by (simp add: ip6_ok_def)
qed

text \<open>The literal of an address whose text ends with the two colons is refused.\<close>

lemma literal_of_any_is_refused: "ip6_scanbracket ref_libq ref_hexlib ''[::]'' = None"
proof -
  have "ip6_fmt ref_libq ref_hexlib V6any = ''::''" by (simp add: ip6_fmt_def V4mappedprefix_def V6any_def numeral_eq_Suc)
  then show ?thesis using ref.bracket_of_colons [of V6any] by (simp add: V6any_def ip6_ok_def)
qed

text \<open>\<^verbatim>\<open>ip6_fmt_flat\<close> has no separator to drop, but returns one byte less than it writes.\<close>

lemma flat_length_is_short: "hexnum X \<Longrightarrow> ip6_ok ip \<Longrightarrow> length (fst (ip6_fmt_flat X ip)) = 32 \<and> snd (ip6_fmt_flat X ip) = 31"
proof -
  assume "hexnum X" "ip6_ok ip"
  then have "length (concat (map (hx_fmt_hexbyte X) xs)) = 2 * length xs" for xs
    by (induction xs) (simp_all add: hexnum.fmt_hexbyte_len)
  then show ?thesis using \<open>ip6_ok ip\<close> by (simp add: ip6_fmt_flat_def ip6_ok_def)
qed

end
