(* ===== verification/GreyProps.thy ===== *)
theory GreyProps
  imports GreyContext Ip6Facts AccessFacts
begin

text \<open>
  The properties of the greylisting daemon \<^verbatim>\<open>qmail-greyd.c\<close>: its linked store does what its rules say on a plain list as
  long as no record expires, nobody passes at the first try, and the situations in which it goes wrong or departs from
  \<^verbatim>\<open>qmail-greyd(8)\<close>.
\<close>

section \<open>An example\<close>

definition ex_conf :: gconf where
  "ex_conf = \<lparr>gc_hash_size = 8, gc_timeout = 604800, gc_min_resend = 300, gc_resend_window = 43200, gc_free_interval = 300,
     gc_whitefn = None, gc_whitelist = None, gc_cdb = None, gc_field2 = []\<rparr>"

definition ex_try :: "int \<Rightarrow> greq" where
  "ex_try t = \<lparr>rq_now = t, rq_now' = t, rq_ip = ''10.0.0.1'', rq_from = ''a@b'', rq_rcpts = [''c@d'']\<rparr>"

lemma ex_address: "ip6_scan ref_libq ref_hexlib ''10.0.0.1'' = Some (8, [0, 0, 0, 0, 0, 0, 0, 0, 0, 0, 255, 255, 10, 0, 0, 1])"
proof -
  have r: "replicate 4 (0 :: nat) = [0, 0, 0, 0]" by (simp add: numeral_eq_Suc)
  show ?thesis
  by (simp add: r ip6_scan_def ip4_scan_def scan_octet_def scan_dot_def ref_libq_def ref_scan_ulong_def is_digit_def digit_val_def
      V6any_def V4mappedprefix_def Let_def)
qed

lemma ex_try_ok: "t \<in> {1000000, 1000100, 1000400} \<Longrightarrow> rq_ok ref_libq ref_hexlib M ex_conf (\<lambda>_. False) (ex_try t)"
  by (auto simp: rq_ok_def ex_try_def ex_conf_def time_ok_def client_white_def ex_address)

lemma ex_conf_ok: "conf_ok ex_conf"
  by (simp add: conf_ok_def ex_conf_def)

lemma ex_spec:
  "map_option fst (grey_spec ex_conf (\<lambda>_. False) [ex_try 1000000, ex_try 1000100, ex_try 1000400] []) =
     Some [[NUL, CHR 0x01], [NUL, CHR 0x02], [CHR 0x01, CHR 0x03]]"
  by (simp add: grey_step_def ex_try_def ex_conf_def matches_def verdict_def answer_of_def)

section \<open>The properties\<close>



text \<open>
  What the code asks for before it lets a client through is more than the manual page does: an earlier request for the same
  recipients and for a sender that begins like the present one, at least the minimum time before.
\<close>

lemma passing_needs_a_triplet:
  assumes "conf_ok conf" "\<forall>q \<in> set qs. rq_ok L X M conf W q" "125 * gc_hash_size conf * length qs < 2 ^ 31" "clock_ok T qs"
    "greyd_run L X M conf qs (greyd_main greyd_empty) = Inr (replies, s)" "i < length qs"
    "greylist_result (replies ! i) = 1" "\<not> W (rq_ip (qs ! i))"
  shows "tried_before conf (take i qs) (qs ! i)"
proof -
  let ?s = "greyd_main greyd_empty"
  have "grey_ok L X conf (gm_db ?s) []" using greyd_empty_ok assms(1) by (simp add: greyd_main_def conf_ok_def)
  from greyd_run_spec [OF this assms(1) _ _ assms(2)] assms(3,5) obtain rs gs
    where g: "grey_spec conf W qs [] = Some (rs, gs)" and r: "replies = map Some rs"
    by (auto simp: greyd_main_def greyd_empty_def grecs_def times_ok_def split: option.splits)
  have "rs ! i ! 0 \<noteq> NUL"
    using assms(6,7) r grey_spec_length [OF g] by (auto simp: greylist_result_def split: if_splits)
  then show ?thesis using grey_spec_tried [OF g, of "[]" T i] assms(4,6,8) by simp
qed

text \<open>
  C18. No first try passes: a client that is not on the white list is let through only when it has asked before, at least the
  minimum time earlier. This much the code and \<^verbatim>\<open>qmail-greyd(8)\<close> agree on, also for a client that was
  successful before (its first success needed an earlier request); \<open>passing_needs_a_triplet\<close> has what the code requires
  beyond it. The clock does not run backwards.
\<close>

theorem no_first_try_passes:
  assumes "conf_ok conf" "\<forall>q \<in> set qs. rq_ok L X M conf W q" "125 * gc_hash_size conf * length qs < 2 ^ 31" "clock_ok T qs"
    "greyd_run L X M conf qs (greyd_main greyd_empty) = Inr (replies, s)" "i < length qs"
    "greylist_result (replies ! i) = 1" "\<not> W (rq_ip (qs ! i))"
  shows "\<exists>p \<in> set (take i qs). rq_ip p = rq_ip (qs ! i) \<and> rq_now p + int (gc_min_resend conf) \<le> rq_now (qs ! i)"
  using passing_needs_a_triplet [OF assms] unfolding tried_before_def by blast

lemma no_first_try_passes_witness:
  "\<exists>p \<in> set [ex_try 1000000, ex_try 1000100]. rq_ip p = rq_ip (ex_try 1000400) \<and> rq_now p + 300 \<le> rq_now (ex_try 1000400)"
proof -
  let ?qs = "[ex_try 1000000, ex_try 1000100, ex_try 1000400]"
  have q: "\<forall>q \<in> set ?qs. rq_ok ref_libq ref_hexlib ref_matchlib ex_conf (\<lambda>_. False) q"
    using ex_try_ok by simp
  have n: "125 * gc_hash_size ex_conf * length ?qs < 2 ^ 31" by (simp add: ex_conf_def)
  have e: "grey_ok ref_libq ref_hexlib ex_conf (gm_db (greyd_main greyd_empty)) []"
    using greyd_empty_ok by (simp add: greyd_main_def ex_conf_def)
  obtain gs where g: "grey_spec ex_conf (\<lambda>_. False) ?qs [] = Some ([[NUL, CHR 0x01], [NUL, CHR 0x02], [CHR 0x01, CHR 0x03]], gs)"
    using ex_spec by auto
  obtain s where run: "greyd_run ref_libq ref_hexlib ref_matchlib ex_conf ?qs (greyd_main greyd_empty) =
      Inr ([Some [NUL, CHR 0x01], Some [NUL, CHR 0x02], Some [CHR 0x01, CHR 0x03]], s)"
    using greyd_run_spec [OF e ex_conf_ok _ _ q] n g by (auto simp: greyd_main_def greyd_empty_def grecs_def times_ok_def)
  show ?thesis
    using no_first_try_passes [OF ex_conf_ok q n _ run, of 0 2] by (simp add: greylist_result_def ex_try_def ex_conf_def)
qed

section \<open>A restart\<close>

text \<open>
  The context file keeps the records: what is saved at the end and loaded at the start are the records that had not
  expired, in their order, provided that no client has two of them and no text has a line feed.
\<close>

theorem context_survives_restart:
  assumes "libqmail L" "grey_ok L X conf s xs" "xs \<noteq> []" "conf_ok conf" "time_ok conf now" "time_ok conf later"
    "\<forall>g \<in> set (grecs s xs). storable L X g" "distinct (map gr_ip (grecs s xs))" "125 * gc_hash_size conf * length xs < 2 ^ 31"
  shows "\<exists>f s' xs'. save_context L conf now s old = Inr (Some f) \<and> load_context L X conf verbose later (Some f) = Inr s' \<and>
    chained gl_next (g_mem s') (g_head s') xs' \<and>
    grecs s' xs' = filter (\<lambda>g. unexpired conf now g \<and> (verbose \<longrightarrow> unexpired conf later g)) (grecs s xs)"
proof -
  let ?rs = "map (\<lambda>a. the (g_mem s a)) (filter (\<lambda>a. unexpired conf now (grec_of (the (g_mem s a)))) xs)"
  have lk: "linked_ok L X s xs" using assms(2) by (simp add: grey_ok_def)
  have t: "times_ok (grecs s xs)" using assms(7) by (auto simp: times_ok_def storable_def)
  have fo: "chained gl_next (g_mem s) (g_head s) xs" "g_count s \<noteq> 0" using lk assms(3) by (auto simp: linked_ok_def)
  have save: "save_context L conf now s old = Inr (Some (concat (map (context_line L) ?rs)))"
    using save_loop_eq [OF assms(5) fo(1) linked_length [OF lk] t, of L] fo(2) by (simp add: save_context_def comp_def)
  have recs: "map grec_of ?rs = filter (unexpired conf now) (grecs s xs)"
    by (simp add: grecs_def filter_map comp_def)
  have st: "\<forall>r \<in> set ?rs. storable L X (grec_of r)" using assms(7) by (auto simp: grecs_def)
  have "map gl_ip_str ?rs = map gr_ip (filter (unexpired conf now) (grecs s xs))"
    unfolding recs [symmetric] by simp
  then have ds: "distinct (map gr_ip (grecs greyd_empty []) @ map gl_ip_str ?rs)"
    using assms(8) by (simp add: grecs_def distinct_map_filter)
  have "length ?rs \<le> length xs" by simp
  then have sz: "125 * gc_hash_size conf * (g_allocated greyd_empty + length ?rs) < 2 ^ 31"
    by (intro le_less_trans [OF _ assms(9)] mult_left_mono) (simp_all add: greyd_empty_def)
  have hs: "0 < gc_hash_size conf" using assms(4) by (simp add: conf_ok_def)
  from libqmail.load_loop_lines [OF assms(1) loaded_empty st ds assms(6) hs sz, of verbose] obtain s' xs' where
    "load_loop L X conf verbose later (concat (map (context_line L) ?rs)) greyd_empty = Inr s'" "loaded conf s' xs'"
    "grecs s' xs' = grecs greyd_empty [] @ filter (\<lambda>g. verbose \<longrightarrow> unexpired conf later g) (map grec_of ?rs)" by blast
  then show ?thesis
    using save unfolding recs
    by (intro exI [of _ "concat (map (context_line L) ?rs)"] exI [of _ s'] exI [of _ xs'])
      (simp add: load_context_def loaded_def grecs_def filter_filter conj_commute)
qed

text \<open>Two records of one client in the file: the chain is entered through a pointer that was never assigned.\<close>

lemma load_first:
  assumes "ip6_scan L X ip = Some (n, d)" "length ip < 72" "0 < gc_hash_size conf" "125 * gc_hash_size conf < 2 ^ 31"
  shows "\<exists>s r. load_record L X conf ip rpath rcpt ts st greyd_empty = Inr (True, s) \<and> g_mem s 0 = Some r \<and> gl_ip_next r = Junk \<and>
    gl_ip_str r = ip \<and> gl_ip r = d \<and> gl_rpath r = rpath \<and> gl_rcpt r = rcpt \<and> gl_timestamp r = ts \<and>
    g_hash s = [ip \<mapsto> 0] \<and> g_fresh s = 1 \<and> g_head s = Addr 0 \<and> g_tail s = Addr 0 \<and> g_hcount s = 1"
proof -
  have "0 < 125 * gc_hash_size conf div 100" using room_enough [of "gc_hash_size conf"] assms(3) by simp
  then show ?thesis
    using assms by (simp add: load_record_def greyd_empty_def create_hash_def hash_add_def assign_def deref_def Let_def)
qed

lemma second_record_of_a_client:
  assumes "libqmail L" "storable L X (grec_of r)" "storable L X (grec_of r')" "gl_ip_str r' = gl_ip_str r"
    "time_ok conf now" "1 < gc_hash_size conf" "125 * gc_hash_size conf < 2 ^ 31"
  shows "load_context L X conf False now (Some (context_line L r @ context_line L r' @ rest)) = Inl Undefined"
proof -
  obtain n d where ip: "ip6_scan L X (gl_ip_str r) = Some (n, d)" using assms(2) by (auto simp: storable_def)
  have len: "length (gl_ip_str r) < 72" using assms(2) by (simp add: storable_def)
  have hs: "0 < gc_hash_size conf" using assms(6) by simp
  have rd: "load_round L X conf False now (context_line L x) t =
      load_record L X conf (gl_ip_str x) (gl_rpath x) (gl_rcpt x) (gl_timestamp x) (gl_status x) t"
    if "storable L X (grec_of x)" for x t
    using that libqmail.parse_context_line [OF assms(1), of x] s64_u64 [of "gl_timestamp x"] libqmail.small_status [OF assms(1), of "gl_status x"]
    by (simp add: load_round_def storable_def)
  obtain s r1 where s: "load_record L X conf (gl_ip_str r) (gl_rpath r) (gl_rcpt r) (gl_timestamp r) (gl_status r) greyd_empty = Inr (True, s)"
    "g_mem s 0 = Some r1" "gl_ip_next r1 = Junk" "g_hash s = [gl_ip_str r \<mapsto> 0]" "g_fresh s = 1" "g_head s = Addr 0" "g_tail s = Addr 0"
    "g_hcount s = 1"
    using load_first [OF ip len hs assms(7), of "gl_rpath r" "gl_rcpt r" "gl_timestamp r" "gl_status r"] by auto
  have two: "load_record L X conf (gl_ip_str r') (gl_rpath r') (gl_rcpt r') (gl_timestamp r') (gl_status r') s = Inl Undefined"
    using s(2-8) assms(4,6) len
    by (simp add: load_record_def create_hash_def hash_add_def assign_def deref_def Let_def)
  have loop: "load_loop L X conf False now (context_line L x @ t) u =
      (case load_round L X conf False now (context_line L x) u of Inl e \<Rightarrow> Inl e
       | Inr (ok, s') \<Rightarrow> if ok then load_loop L X conf False now t s' else Inr s')"
    if "storable L X (grec_of x)" for x t u
    by (rule load_loop_line) (use libqmail.getln_context_line [OF assms(1) that] in \<open>simp_all add: context_line_def\<close>)
  show ?thesis
    using loop [OF assms(2), of "context_line L r' @ rest" greyd_empty] loop [OF assms(3), of rest s]
      rd [OF assms(2)] rd [OF assms(3)] s(1) two
    by (simp add: load_context_def)
qed

section \<open>Requests without a defined result\<close>

text \<open>An empty datagram at the start: the length of the buffer is divided by 0.\<close>

lemma empty_datagram: "greyd_request L X M conf now now' [] (greyd_main db) = Inl Undefined"
  by (simp add: greyd_request_def receive_def greyd_main_def)

text \<open>An address that cannot be read: the record is freed, stays the head of the list, and is read for the log.\<close>

lemma invalid_address:
  assumes "client_white L M conf ip = Inr False" "ip6_scan L X ip = None"
  shows "greyd_answer L X M conf now now' ip from rcpt greyd_empty = Inl Undefined"
proof (cases "length ip < 72")
  case True
  then show ?thesis
    using assms by (simp add: greyd_answer_def send_response_def search_record_def add_record_def greyd_empty_def free_at_def deref_def Let_def)
next
  case False
  then show ?thesis
    using assms by (simp add: greyd_answer_def send_response_def search_record_def add_record_def greyd_empty_def Let_def)
qed

text \<open>An address that is longer than the field for it; the datagram is the only bound.\<close>

lemma long_address:
  assumes "client_white L M conf ip = Inr False" "72 \<le> length ip"
  shows "greyd_answer L X M conf now now' ip from rcpt greyd_empty = Inl Undefined"
  using assms by (simp add: greyd_answer_def send_response_def search_record_def add_record_def greyd_empty_def Let_def)

text \<open>The lines of the white list are never looked at: with the option \<^verbatim>\<open>-w\<close> the answer of the cdb file is final.\<close>

lemma white_list_lines_unused:
  assumes "gc_whitefn conf = Some fn"
  shows "client_white L M (conf\<lparr>gc_whitelist := Some lines\<rparr>) ip = client_white L M (conf\<lparr>gc_whitelist := Some []\<rparr>) ip"
  using assms by (simp add: client_white_def is_white_def ip_match_def Let_def split: option.split)

text \<open>A bounce is let through at once on the record of an ordinary sender.\<close>

lemma bounce_uses_any_record:
  "\<exists>gs. grey_step ex_conf False 2000000 2000000 ''10.0.0.1'' [] rc
     [\<lparr>gr_ip = ''10.0.0.1'', gr_from = ''a@b'', gr_rcpt = rc, gr_time = 1999000, gr_status = RECORD_OK\<rparr>] =
     Some ([CHR 0x01, CHR 0x02], gs)"
  by (simp add: grey_step_def ex_conf_def matches_def verdict_def answer_of_def)

end
