(* ===== verification/Spec2Isabelle.thy ===== *)
theory Spec2Isabelle
  imports SendExample SendSchedule SpawnInv SpawnReport QmailClean QmailClient Tcpto TodoProps AddressFacts SmtpCmdProps LocalProps GreyProps
begin

text \<open>
  Verification of the mail transfer path of indimail-mta: the programs that bring messages in and out over SMTP, the queue
  with its manager and helper processes, local delivery, greylisting, and the formats they exchange. Paths below are under
  \<^verbatim>\<open>src/indimail-mta-x/\<close>.

  \<^bold>\<open>How the parts interact.\<close> \<^verbatim>\<open>smtpd.c\<close> talks to a client: it decides on sender and recipients with the control files and
  their matchers (\<^verbatim>\<open>rcpthosts.c\<close>, \<^verbatim>\<open>do_match.c\<close>, \<^verbatim>\<open>qregex.c\<close>, \<^verbatim>\<open>mail_acl.c\<close>, \<^verbatim>\<open>tablematch.c\<close>), may ask the greylisting daemon
  (\<^verbatim>\<open>greylist.c\<close>, \<^verbatim>\<open>qmail-greyd.c\<close>), receives the message and hands it, with its envelope, to \<^verbatim>\<open>qmail-queue.c\<close> (through
  \<^verbatim>\<open>qmail.c\<close>), which stores \<^verbatim>\<open>mess/\<close>, \<^verbatim>\<open>intd/\<close> and \<^verbatim>\<open>todo/\<close>. \<^verbatim>\<open>todo-proc.c\<close> splits the envelope into \<^verbatim>\<open>info/id\<close>, \<^verbatim>\<open>local/id\<close>
  and \<^verbatim>\<open>remote/id\<close> and announces the message to the queue manager \<^verbatim>\<open>qmail-send.c\<close>. For each
  channel the manager keeps a priority queue of messages by their next attempt (\<^verbatim>\<open>prioq.c\<close>), opens a job for the
  message that is due, reads its recipient list record by record, and sends a delivery command for each record of
  type \<^verbatim>\<open>T\<close> to a spawn process (\<^verbatim>\<open>spawn.c\<close> with \<^verbatim>\<open>qmail-lspawn.c\<close> or \<^verbatim>\<open>qmail-rspawn.c\<close>), which runs \<^verbatim>\<open>qmail-local.c\<close> or
  \<^verbatim>\<open>qmail-remote.c\<close> and answers with a report. A report K or D marks the record done (D adds to a bounce), Z leaves
  it. When nothing is left of a list it is removed; when both are gone \<^verbatim>\<open>qmail-clean.c\<close> is asked to remove the
  message. \<^verbatim>\<open>tcpto.c\<close> keeps the table of hosts that timed out.

  \<^bold>\<open>Theories.\<close>
  \<^item> \<^verbatim>\<open>MtaPrelude\<close>: bytes, C strings, NUL-terminated records, signed \<^verbatim>\<open>char\<close>, handlers as lists of steps (\<open>all_do\<close>).
    \<^verbatim>\<open>LibQmail\<close>: the external library \<^verbatim>\<open>libqmail\<close>, a parameter of the model with its documented laws as the locale
    \<^verbatim>\<open>libqmail\<close>, interpreted on executable functions.
  \<^item> \<^verbatim>\<open>Prioq\<close> (\<^verbatim>\<open>prioq.c\<close>): the heap as a list, the loops \<^verbatim>\<open>prioq_up\<close> and \<^verbatim>\<open>prioq_down\<close>; an interface of priority queues
    as a locale and its interpretation on the heap.
  \<^item> \<^verbatim>\<open>SendState\<close>, \<^verbatim>\<open>SendJobs\<close>, \<^verbatim>\<open>SendDeliver\<close>, \<^verbatim>\<open>SendPass\<close>, \<^verbatim>\<open>SendMain\<close> (\<^verbatim>\<open>qmail-send.c\<close>, by its sections): the static
    variables are the record \<open>qsend\<close>, with the files of the queue and the results of system calls (clock, failures,
    pipes) as a world inside it; each function of the C file is a definition of the same name; one iteration of the main
    loop is \<open>send_iter\<close> (with the signals that arrive while it waits), a run is \<open>send_run\<close>.
  \<^item> \<^verbatim>\<open>SendFrame\<close>, \<^verbatim>\<open>SendFiles\<close>, \<^verbatim>\<open>SendInv\<close>, \<^verbatim>\<open>SendOpen\<close>, \<^verbatim>\<open>SendRead\<close>, \<^verbatim>\<open>SendReport\<close>, \<^verbatim>\<open>SendQueues\<close>, \<^verbatim>\<open>SendReach\<close>: what each
    operation leaves alone, the invariant of jobs, deliveries, passes and lists, its preservation by every handler, the heaps, and the
    reachable states (inductive; the environment may fail any call and send any bytes). \<open>send_reach\<close> are the states of the runs in
    which no re-read of the controls raises a concurrency above the tables made at start-up; \<open>send_trace\<close> has them all. \<^verbatim>\<open>SendFacts\<close>, \<^verbatim>\<open>SendSchedule\<close>: facts on
    single operations. \<^verbatim>\<open>SendExample\<close>: a complete run, evaluated.
  \<^item> \<^verbatim>\<open>QueueNames\<close> (\<^verbatim>\<open>fmtqfn.c\<close>, \<^verbatim>\<open>fnmake_*\<close>): paths. \<^verbatim>\<open>Spawn\<close>, \<^verbatim>\<open>SpawnReport\<close>, \<^verbatim>\<open>SpawnInv\<close> (\<^verbatim>\<open>spawn.c\<close>, \<^verbatim>\<open>qmail-lspawn.c\<close>,
    \<^verbatim>\<open>qmail-rspawn.c\<close>): the command parser, the delivery slots, the reports. \<^verbatim>\<open>QmailClean\<close> (\<^verbatim>\<open>qmail-clean.c\<close>). \<^verbatim>\<open>QmailClient\<close>
    (\<^verbatim>\<open>qmail.c\<close>). \<^verbatim>\<open>Tcpto\<close> (\<^verbatim>\<open>tcpto.c\<close>): the table as its bytes, and as a map from hosts to counts and times.
  \<^item> \<^verbatim>\<open>QmailQueue\<close>, \<^verbatim>\<open>QmailQueueFacts\<close>, \<^verbatim>\<open>QmailQueueLive\<close>, \<^verbatim>\<open>QueueProps\<close> (\<^verbatim>\<open>qmail-queue.c\<close>): the files written, synced and linked,
    every call with its failures, as a trace that is replayed on a file system. \<^verbatim>\<open>TodoProc\<close>, \<^verbatim>\<open>TodoFacts\<close>, \<^verbatim>\<open>TodoProps\<close>
    (\<^verbatim>\<open>todo-proc.c\<close>): the envelope read record by record, the three files, the announcement.
  \<^item> \<^verbatim>\<open>SmtpData\<close>, \<^verbatim>\<open>SmtpFacts\<close>, \<^verbatim>\<open>SmtpSession\<close>, \<^verbatim>\<open>SmtpProps\<close> (\<^verbatim>\<open>smtpd.c\<close>: \<^verbatim>\<open>put\<close>, \<^verbatim>\<open>blast\<close>, \<^verbatim>\<open>spfreceived\<close>, \<^verbatim>\<open>smtp_data\<close>;
    \<^verbatim>\<open>received.c\<close>; \<^verbatim>\<open>qmail-remote.c\<close>: \<^verbatim>\<open>blast\<close>): the transfer of a message. \<^verbatim>\<open>QmailRemote\<close>, \<^verbatim>\<open>QmailRemoteFacts\<close>
    (\<^verbatim>\<open>qmail-remote.c\<close>: \<^verbatim>\<open>smtpcode\<close>, \<^verbatim>\<open>ehlo\<close>, \<^verbatim>\<open>smtp\<close> from MAIL on, the report). \<^verbatim>\<open>Address\<close>, \<^verbatim>\<open>AddressFacts\<close> (\<^verbatim>\<open>quote.c\<close>,
    \<^verbatim>\<open>addrparse\<close>, \<^verbatim>\<open>addrmangle\<close>). \<^verbatim>\<open>Ip4\<close>, \<^verbatim>\<open>Ip6\<close>, \<^verbatim>\<open>Ip6Facts\<close> (\<^verbatim>\<open>ip.c\<close>).
  \<^item> \<^verbatim>\<open>AccessLists\<close>, \<^verbatim>\<open>AccessRules\<close>, \<^verbatim>\<open>AccessFacts\<close> (\<^verbatim>\<open>do_match.c\<close>, \<^verbatim>\<open>qregex.c\<close>, \<^verbatim>\<open>rcpthosts.c\<close>, \<^verbatim>\<open>mail_acl.c\<close>, \<^verbatim>\<open>tablematch.c\<close>): the
    matchers. \<^verbatim>\<open>SmtpSess\<close>, \<^verbatim>\<open>SmtpMail\<close>, \<^verbatim>\<open>SmtpCmds\<close>, \<^verbatim>\<open>SmtpTransact\<close> (\<^verbatim>\<open>smtpd.c\<close>: the commands of a session): the static variables are
    the record \<open>sess\<close>, a handler is a list of steps in the order of the code. \<^verbatim>\<open>SmtpFrames\<close>, \<^verbatim>\<open>SmtpAnswers\<close>, \<^verbatim>\<open>SmtpRelay\<close>,
    \<^verbatim>\<open>SmtpExamples\<close>, \<^verbatim>\<open>SmtpCmdProps\<close>: what steps keep, what they answer, when a recipient may be relayed, examples, the properties.
  \<^item> \<^verbatim>\<open>LocalMbox\<close>, \<^verbatim>\<open>LocalMboxFacts\<close>, \<^verbatim>\<open>LocalMaildir\<close>, \<^verbatim>\<open>QmailLocal\<close> (\<^verbatim>\<open>gfrom.c\<close>, \<^verbatim>\<open>maildir_deliver.c\<close>, \<^verbatim>\<open>qmail-local.c\<close>): mbox files and
    their reader, maildirs as a trace of file operations, the interpretation of a \<^verbatim>\<open>.qmail\<close> file. \<^verbatim>\<open>LocalFacts\<close>, \<^verbatim>\<open>LocalForward\<close>,
    \<^verbatim>\<open>LocalProps\<close>: what a run of lines does, forwarding and its loops, the properties.
  \<^item> \<^verbatim>\<open>GreyStore\<close>, \<^verbatim>\<open>Greyd\<close> (\<^verbatim>\<open>qmail-greyd.c\<close>, \<^verbatim>\<open>greylist.c\<close>): the records as objects of a store that point at each other, the hash
    table, requests and the context file; null and dangling pointers, overruns and divisions by zero are the value \<open>Undefined\<close>.
    \<^verbatim>\<open>GreyInv\<close>, \<^verbatim>\<open>GreyFacts\<close>, \<^verbatim>\<open>GreySpec\<close>, \<^verbatim>\<open>GreyRuns\<close>, \<^verbatim>\<open>GreyContext\<close>, \<^verbatim>\<open>GreyProps\<close>: the invariant of the store, greylisting on a
    plain list and the refinement, restarts, the properties.

  \<^bold>\<open>What is shown.\<close> Safety of the queue: a list is removed only when nothing in it is to do, array accesses are in bounds,
  reference counts are exact, removal of a message is requested only when the files that the code asks for are gone (C1 to C5, C10). The schedule
  (C5, C6, C13). From the client to the queue: a message is announced only when it and its envelope are complete, is accepted exactly
  when it was announced without a later failure of \<^verbatim>\<open>qmail-queue\<close>, with the sender and recipients of the commands of its
  transaction, and reaches the queues its envelope names (C11, C34, C37, C38, C40).
  Who may send what: no recipient outside the lists without permission, a true answer for each recipient, access lists decide as
  they read (C24, C28, C31); no first try passes greylisting, whose linked store does what the program's own rules do on a list (C7, C18). The formats and
  pipes between the processes are read as they were written (C14, C21, C25, C33, C35), commands are flushed and answered (C12, C15, C16),
  and a success is reported only when it is earned (C17, C19, C26, C32, C39). Text from outside cannot change the structure of a
  bounce or a trace line (C8, C30), and a message ends only where the standard says (C27). Local delivery: mbox files give back what was
  delivered, a maildir never shows half a message, deliveries are bounded by the lines of the file, the file is found as documented,
  forwarding loops end (C9, C20, C23, C29, C36). The table of timeouts refines a map (C22).
  Several statements name the exceptions in which the code does not do what it means to, each shown by an example: controls re-read
  above the tables (C2), failed syncs of a directory (C20, C38, C40), filters that end \<^verbatim>\<open>qmail-local\<close> (C19, C39), the second reply
  for an SRS address (C31), the refused MAIL that replaces the sender (C34).

  \<^bold>\<open>Bounds and termination.\<close> Most loops are total functions: structural or with a measure (the length of the input still to be
  read, the size of the heap, the bits of the square root). \<^verbatim>\<open>blast\<close> of the server reads a converted line feed twice, its
  measure is \<open>2 * length + (1 unless a CR was seen)\<close>. The loops of the greylisting daemon over linked records have as fuel the number
  of addresses ever used, which a walk without a cycle cannot exceed; running out is the value \<open>Forever\<close>, and the invariant excludes it.
  A run of the queue manager is finite because
  the list of environments is; nothing is claimed about how many iterations the daemon makes. Counters of 64 bits are words where a wrap is
  possible (\<^verbatim>\<open>BytesToOverflow\<close>, \<^verbatim>\<open>msg_size\<close>) or converted explicitly (times of the greylisting daemon), elsewhere mathematical
  integers with the bound stated as a hypothesis.

  \<^bold>\<open>Parameters and assumptions.\<close> The library \<^verbatim>\<open>libqmail\<close>; system calls and their failures; the clock; the contents of files; what other
  processes write to a pipe; \<^verbatim>\<open>date822fmt\<close>; \<^verbatim>\<open>dns_cname\<close>; whether an address is local. The SMTP session is one in plain text, without
  plugins, BATV, \<^verbatim>\<open>from.envrules\<close>, \<^verbatim>\<open>auth.envrules\<close> and \<^verbatim>\<open>domainqueue\<close>; authentication methods, the recipients extension, greylisting, SRS and
  SPF are parameters; of a reply the code is kept. \<^verbatim>\<open>link\<close>, \<^verbatim>\<open>unlink\<close> and \<^verbatim>\<open>open\<close> are those of \<^verbatim>\<open>syncdir.c\<close>, which fail after
  the change was made when its directory cannot be synced; the timers of \<^verbatim>\<open>qmail-queue\<close> and of a maildir delivery may ring at any moment.
  C11, C38 and C40 suppose that neither a quarantine address nor a virus scanner is configured. Local delivery: memory suffices,
  \<^verbatim>\<open>unlink\<close> of a temporary file succeeds, nobody else writes
  to the mbox while it is locked; which action a \<^verbatim>\<open>filterit\<close> command selects for a message, and \<^verbatim>\<open>envdir\<close>, are parameters. The greylisting daemon: memory suffices, files
  can be written, signals come between requests; the build is that of the \<^verbatim>\<open>Makefile\<close> (\<^verbatim>\<open>IPV6\<close>, \<^verbatim>\<open>DYNAMIC_BUF\<close>).

  \<^bold>\<open>Not modelled.\<close> In \<^verbatim>\<open>qmail-send.c\<close>: the text of the bounce message that \<^verbatim>\<open>injectbounce\<close> writes, plugins, the shared memory of the
  dynamic queue. In \<^verbatim>\<open>spawn.c\<close>: \<^verbatim>\<open>SPAWN\<close> itself (fork, exec, the lookup of users). In \<^verbatim>\<open>smtpd.c\<close>: the commands of authentication,
  TLS and ETRN behind their frames, the scanning of content in \<^verbatim>\<open>put\<close>, log lines. In \<^verbatim>\<open>qmail-queue.c\<close>: header rewriting, archiving, the
  virus scanner. In \<^verbatim>\<open>todo-proc.c\<close>: the scan of the directory, chunks, signals. In \<^verbatim>\<open>qmail-remote.c\<close>: DNS, TLS, AUTH, QMTP. In
  \<^verbatim>\<open>qmail-local.c\<close>: the command line, \<^verbatim>\<open>SANITIZE_ENV\<close>. In \<^verbatim>\<open>qmail-greyd.c\<close>: options, sockets, log output. The variants \<^verbatim>\<open>slowq-send.c\<close> and
  \<^verbatim>\<open>qmta-send.c\<close> of the queue manager (near copies of \<^verbatim>\<open>qmail-send.c\<close>), \<^verbatim>\<open>qmail-inject.c\<close>, the clients of DNS, DKIM, SPF and SRS,
  \<^verbatim>\<open>control.c\<close> and the lookup of users, and the packages \<^verbatim>\<open>daemontools-x\<close>, \<^verbatim>\<open>ucspi-tcp-x\<close>, \<^verbatim>\<open>libdkim2-x\<close>, \<^verbatim>\<open>libsrs2-x\<close> with
  the tools around them are left out.
\<close>

section \<open>The queue manager\<close>

text \<open>
  C1, C3, C4 and C5 speak of the states of \<open>send_reach\<close>: those of the runs in which no controls are re-read that raise a
  concurrency above the tables. After such a re-read the code may access its tables outside their bounds (C2).
\<close>

text \<open>
  C1. A recipient list is removed only when no recipient in it is still to do, unless the log says
  that marking a recipient of it failed.
\<close>

theorem lists_removed_only_when_done:
  assumes "send_reach L s" "SUnlink (FChan c i) b \<in> set (w_trace (sw s))" "LTwice (FChan c i) \<notin> set (logs s)"
  shows "todo_pos b = {}"
  using mgr_inv_reach [OF assms(1)] assms(2,3)
  by (auto simp: mgr_inv_def send_inv_def unlinks_ok_def unlinked_def twice_def)

lemma lists_removed_only_when_done_witness:
  "SUnlink (FChan 0 12) (''Damy@b'' @ [NUL]) \<in> set (w_trace (sw ex_s3)) \<and> todo_pos (''Damy@b'' @ [NUL]) = {}"
proof -
  have m: "SUnlink (FChan 0 12) (''Damy@b'' @ [NUL]) \<in> set (w_trace (sw ex_s3))"
    by (simp add: ex_s3_def ex_world_def)
  have l: "LTwice (FChan 0 12) \<notin> set (logs ex_s3)" by (simp add: ex_s3_def)
  show ?thesis using lists_removed_only_when_done [OF ex_reach(4) m l] m by blast
qed

text \<open>
  C2. In every run, unless controls were re-read after \<^verbatim>\<open>SIGHUP\<close> that raise a concurrency above the size of the tables, no
  array of delivery slots is accessed outside its bounds, and the counter of a channel counts its slots in use. (After such
  a re-read the code does access them outside: \<^verbatim>\<open>reread_concurrency_overruns\<close>.)
\<close>

theorem delivery_slots_in_bounds:
  assumes "send_trace L ov s"
  shows "ov \<or> \<not> ub s \<and> concurrencyused s c = length (filter d_used (del s c)) \<and> concurrencyused s c \<le> length (del s c)"
  using mgr_inv_trace [OF assms] by (auto simp: mgr_inv_def send_inv_def slots_ok_def nused_def)

lemma delivery_slots_in_bounds_witness:
  "\<not> ub ex_s1 \<and> concurrencyused ex_s1 0 = length (filter d_used (del ex_s1 0)) \<and> concurrencyused ex_s1 0 \<le> length (del ex_s1 0)"
  using delivery_slots_in_bounds [OF ex_reach(2)] by simp

text \<open>
  C3. The reference count of a job is the number of its deliveries under way, plus one while its list
  is being read.
\<close>

theorem reference_counts_exact:
  assumes "send_reach L s" "j < length (jo s)"
  shows "j_refs (jo s ! j) =
    int (length (filter (\<lambda>d. d_used d \<and> d_j d = j) (del s (j_channel (jo s ! j))))) +
    (if ps_id (pass s (j_channel (jo s ! j))) \<noteq> 0 \<and> ps_j (pass s (j_channel (jo s ! j))) = j then 1 else 0)"
proof -
  have "size (outs D c j) = length (filter (\<lambda>d. d_used d \<and> d_j d = j) (D c))" for D c
    by (simp add: outs_def flip: mset_filter)
  then show ?thesis
    using mgr_inv_reach [OF assms(1)] assms(2)
    by (auto simp: mgr_inv_def send_inv_def refs_ok_def nrefs_def passof_def)
qed

lemma reference_counts_exact_witness: "j_refs (jo ex_s1 ! 0) = 2"
  using reference_counts_exact [OF ex_reach(2), of 0]
  by (simp add: ex_s1_def ex_a1_def ex_s0_def ex_job_def)

text \<open>
  C4. An open job knows its list: of the recipients in the part of the list that was read, no more
  are still to do than the job counts, and every delivery under way refers to a record marked to do
  or done.
\<close>

theorem open_jobs_know_their_list:
  assumes "send_reach L s" "j < length (jo s)" "0 < j_refs (jo s ! j)" "ch = j_channel (jo s ! j)" "i = j_id (jo s ! j)"
    "files s (FChan ch i) = Some x" "LTwice (FChan ch i) \<notin> set (logs s)"
  shows "int (card (todo_pos (f_data x) \<inter> seen (j_hiteof (jo s ! j)) (passof (pass s) ch j))) \<le> j_numtodo (jo s ! j) \<and>
    (\<forall>d \<in> set (del s ch). d_used d \<and> d_j d = j \<longrightarrow>
       d_mpos d < length (f_data x) \<and> f_data x ! d_mpos d \<in> {CHR ''T'', CHR ''D''})"
proof -
  have "job_at s j (jo s ! j)"
    using mgr_inv_reach [OF assms(1)] assms(2,3) by (auto simp: mgr_inv_def send_inv_def jobs_ok_def)
  moreover have "cdata s ch i = Some (f_data x)" using assms(6) by (simp add: cdata_def)
  moreover have "(ch, i) \<notin> twice s" using assms(7) by (simp add: twice_def)
  ultimately obtain U where U: "int (card U) = j_numtodo (jo s ! j)" "finite U"
    "\<forall>p \<in># outs (del s) ch j. p < length (f_data x) \<and> f_data x ! p \<in> {CHR ''T'', CHR ''D''}"
    "todo_pos (f_data x) \<inter> seen (j_hiteof (jo s ! j)) (passof (pass s) ch j) \<subseteq> U"
    using assms(4,5) by (auto simp: job_at_def job_ok_def job_todo_def)
  have "d_mpos d \<in># outs (del s) ch j" if "d \<in> set (del s ch)" "d_used d" "d_j d = j" for d
    using that by (force simp: outs_def)
  then show ?thesis using U card_mono [OF U(2,4)] by auto
qed

lemma open_jobs_know_their_list_witness:
  "int (card (todo_pos (''Tamy@b'' @ [NUL]) \<inter> seen False (passof (pass ex_s1) 0 0))) \<le> 1"
proof -
  have e: "jo ex_s1 ! 0 = ex_job" "length (jo ex_s1) = 2" "logs ex_s1 = [LStart 1 12 0 ''amy@b'']"
    "files ex_s1 (FChan 0 12) = Some \<lparr>f_data = ''Tamy@b'' @ [NUL], f_mtime = 1000, f_atime = 1000\<rparr>"
    by (simp_all add: ex_s1_def ex_world_def ex_files_def)
  show ?thesis
    using open_jobs_know_their_list [OF ex_reach(2), of 0 0 12] by (simp add: e) (simp add: ex_job_def)
qed

text \<open>
  C5. In every queue of a reachable state the head is the message that is due first, and no entry has
  the number 0.
\<close>

theorem queue_head_is_due_first:
  assumes "send_reach L s" "pe \<in> set (pqchan s c)"
  shows "pe_id pe \<noteq> 0 \<and> (\<exists>h. prioq_get (pqchan s c) = Some h \<and> pe_dt h \<le> pe_dt pe)"
proof -
  have g: "pq_good (pqchan s c)" using mgr_inv_reach [OF assms(1)] by (simp add: mgr_inv_def queues_ok_def)
  then have "pq_le Pmin (pqchan s c ! 0) pe" using pmin.get_least assms(2) by (simp add: pq_good_def)
  moreover have "pqchan s c \<noteq> []" using assms(2) by auto
  ultimately show ?thesis using g assms(2) by (auto simp: pq_good_def pq_le_def)
qed

lemma queue_head_is_due_first_witness:
  "pe_id \<lparr>pe_dt = 1000, pe_id = 12, pe_delayed = False\<rparr> \<noteq> 0 \<and>
   (\<exists>h. prioq_get (pqchan ex_s0 0) = Some h \<and> pe_dt h \<le> pe_dt \<lparr>pe_dt = 1000, pe_id = 12, pe_delayed = False\<rparr>)"
  by (rule queue_head_is_due_first [OF ex_reach(1)]) (simp add: ex_s0_def)

text \<open>
  C6. The binary heap of \<^verbatim>\<open>prioq.c\<close> sorts: elements inserted in any order come out by time, all of
  them, each once.
\<close>

theorem prioq_sorts:
  "sorted_wrt (\<lambda>a b. pe_dt a \<le> pe_dt b)
     (pq_drain (prioq_del Pmin) (length es) (fold (\<lambda>e q. snd (snd (prioq_insert True Pmin Pmin q e))) es [])) \<and>
   mset (pq_drain (prioq_del Pmin) (length es) (fold (\<lambda>e q. snd (snd (prioq_insert True Pmin Pmin q e))) es [])) = mset es"
proof -
  let ?q = "fold (\<lambda>e q. snd (snd (prioq_insert True Pmin Pmin q e))) es []"
  have "pq_heap Pmin (fold (\<lambda>e q. snd (snd (prioq_insert True Pmin Pmin q e))) es q) \<and>
      mset (fold (\<lambda>e q. snd (snd (prioq_insert True Pmin Pmin q e))) es q) = mset es + mset q" if "pq_heap Pmin q" for q
    using that by (induction es arbitrary: q) (simp_all add: prioq_insert_min pmin.inv_ins pmin.mset_ins)
  from this [of "[]"] have q: "pq_heap Pmin ?q" "mset ?q = mset es" using pmin.inv_empty by simp_all
  have len: "length ?q = length es" using q(2) by (rule mset_eq_length)
  show ?thesis
    using pmin.drain_sorted [OF q(1)] pmin.mset_drain [OF q(1)] len q(2)
    by (simp add: pq_le_def [abs_def])
qed

text \<open>
  A message that could not be delivered is tried again strictly later, for every age below
  \<^verbatim>\<open>2^32\<close> seconds: the integer square root is exact there.
\<close>

theorem retry_is_later:
  assumes "recent_t - birth < 2 ^ 32"
  shows "recent_t < nextretry recent_t birth c \<and>
    (birth \<le> recent_t \<longrightarrow>
      (let r = squareroot (recent_t - birth) in r * r \<le> recent_t - birth \<and> recent_t - birth < (r + 1) * (r + 1)))"
  using nextretry_later [OF assms] squareroot_root [of "recent_t - birth"] assms by (simp add: Let_def)

lemma retry_is_later_witness: "(2018 :: int) < nextretry 2018 1000 0"
  using retry_is_later [of 2018 1000 0] by simp

text \<open>
  C8. The text added to a bounce cannot fake a second paragraph: the recipient is on one line, and no
  line inside the text is empty, whatever the recipient and the report are.
\<close>

theorem bounce_text_is_one_paragraph:
  "LF \<notin> set (bounce_head L vd recip) \<and>
   (\<forall>k \<in> {k. Suc k + 2 < length (bouncetext L vd recip report)}.
      \<not> (bouncetext L vd recip report ! k = LF \<and> bouncetext L vd recip report ! Suc k = LF))"
  using bounce_head_one_line bouncetext_no_blank by blast

lemma bounce_text_is_one_paragraph_witness:
  "LF \<notin> set (bounce_head ref_libq (\<lambda>_. None) (''a'' @ [LF] @ ''b@c'')) \<and>
   Suc 6 + 2 < length (bouncetext ref_libq (\<lambda>_. None) (''a'' @ [LF] @ ''b@c'') ([LF, LF] @ ''x'')) \<and>
   \<not> (bouncetext ref_libq (\<lambda>_. None) (''a'' @ [LF] @ ''b@c'') ([LF, LF] @ ''x'') ! 6 = LF \<and>
      bouncetext ref_libq (\<lambda>_. None) (''a'' @ [LF] @ ''b@c'') ([LF, LF] @ ''x'') ! 7 = LF)"
proof -
  have l: "Suc 6 + 2 < length (bouncetext ref_libq (\<lambda>_. None) (''a'' @ [LF] @ ''b@c'') ([LF, LF] @ ''x''))"
    by (simp add: bouncetext_def bounce_head_def stripvdomprepend_def ref_libq_def ref_rchr_def ref_chr_def Let_def)
  show ?thesis
    using bounce_text_is_one_paragraph [of ref_libq "\<lambda>_. None" "''a'' @ [LF] @ ''b@c''" "[LF, LF] @ ''x''"] l
    by (metis (no_types, lifting) Suc_numeral semiring_norm(5) mem_Collect_eq)
qed

text \<open>
  A recipient is marked by writing one byte of its list, or the log says that it could not be
  done and nothing on disk has changed.
\<close>

theorem markdone_writes_one_byte:
  "\<exists>w. markdone c i pos s = slog (LTwice (FChan c i)) (s\<lparr>sw := w\<rparr>) \<and> w_files w = files s \<and> w_trace w = w_trace (sw s) \<or>
   markdone c i pos s = s\<lparr>sw := w\<rparr> \<and> w_trace w = SMark c i pos # w_trace (sw s) \<and>
     (\<exists>x t. files s (FChan c i) = Some x \<and>
        w_files w = (files s)(FChan c i \<mapsto> x\<lparr>f_data := (f_data x)[pos := CHR ''D''], f_mtime := t\<rparr>))"
  by (rule markdone_effect)

text \<open>
  C10. At the end of a message (\<^verbatim>\<open>messdone\<close>) the queue manager asks for the removal of its files at most once, and only when
  both recipient lists and \<^verbatim>\<open>todo\<close> do not exist and \<^verbatim>\<open>info\<close> has been removed. One turn of the cleanup scan
  (\<^verbatim>\<open>cleanup_do\<close>) asks at most once, for the message of the directory entry it read, and only when \<^verbatim>\<open>info\<close> and
  \<^verbatim>\<open>todo\<close> of it do not exist; it does not look at the recipient lists. In a request \<open>(i, a, b)\<close>, \<open>a\<close> and \<open>b\<close> say whether
  \<^verbatim>\<open>info/i\<close> and \<^verbatim>\<open>todo/i\<close> existed when it was made.
\<close>

theorem removal_requests_are_safe:
  "(cleans (messdone L i s) = cleans s \<or>
    cleans (messdone L i s) = (i, False, False) # cleans s \<and>
      files s (FChan 0 i) = None \<and> files s (FChan 1 i) = None \<and> files s (FTodo i) = None) \<and>
   (cleans (cleanup_do ossified ent s) = cleans s \<or>
    (\<exists>k. ent = DirId k \<and> cleans (cleanup_do ossified ent s) = (k, False, False) # cleans s \<and>
       files s (FInfo k) = None \<and> files s (FTodo k) = None))"
  using messdone_cleans cleanup_do_cleans by blast

text \<open>
  A message announced by \<^verbatim>\<open>todo-proc\<close> enters exactly the queues that the announcement names, due
  at once; one without recipients goes to the queue of finished messages.
\<close>

theorem announced_message_is_queued:
  fixes s :: qsend and i :: nat
  assumes "libqmail L" "todo_flags f = Some cs"
  defines "pe \<equiv> \<lparr>pe_dt = w_time (sw s) (w_tick (sw s)), pe_id = i, pe_delayed = junk s\<rparr>"
  shows "mset (pqchan (todo_del L (f # lq_fmt_ulong L i) s) c) = mset (pqchan s c) + (if c \<in> set cs then {#pe#} else {#}) \<and>
    mset (pqdone (todo_del L (f # lq_fmt_ulong L i) s)) = mset (pqdone s) + (if cs = [] then {#pe#} else {#})"
  unfolding pe_def using libqmail.todo_del_announced [OF assms(1,2), of i s] by simp

lemma announced_message_is_queued_witness:
  "mset (pqchan (todo_del ref_libq (CHR ''B'' # lq_fmt_ulong ref_libq 77) ex_s0) 1) =
     {#\<lparr>pe_dt = 2017, pe_id = 77, pe_delayed = False\<rparr>#}"
  using announced_message_is_queued [OF ref.libqmail_axioms, of "CHR ''B''" "[0, 1]" 77 ex_s0 1]
  by (simp add: todo_flags_def junk_def answer_def) (simp add: ex_s0_def ex_world_def ex_init_def)

text \<open>
  C12. Every byte of a command reaches the spawn process once and in order as long as writes make
  progress: after at most as many writes as there are bytes left, the buffer is empty.
\<close>

theorem command_is_flushed:
  assumes "flagspawnalive s c" "comm_pos s c < length (comm_buf s c)" "\<forall>n \<in> set ns. 0 < n"
    "length (comm_buf s c) - comm_pos s c \<le> length ns"
  shows "comm_out (fold (\<lambda>n. comm_do_chan c (Some (WSome n))) ns s) c = comm_out s c @ drop (comm_pos s c) (comm_buf s c) \<and>
    comm_buf (fold (\<lambda>n. comm_do_chan c (Some (WSome n))) ns s) c = []"
  by (rule comm_flush [OF assms])

lemma command_is_flushed_witness:
  "comm_out (fold (\<lambda>n. comm_do_chan 0 (Some (WSome n))) (replicate 100 1) ex_s1) 0 = ex_msg"
proof -
  have f: "flagspawnalive ex_s1 0" "comm_pos ex_s1 0 = 0" "comm_buf ex_s1 0 = ex_msg" "comm_out ex_s1 0 = []"
    by (simp_all add: ex_s1_def ex_a1_def ex_s0_def ex_init_def)
  have l: "0 < length ex_msg" "length ex_msg \<le> 100" by (simp_all add: ex_msg_def)
  show ?thesis using command_is_flushed [of ex_s1 0 "replicate 100 1"] f l by simp
qed

text \<open>
  C13. A restart keeps the schedule: what \<^verbatim>\<open>pqfinish\<close> saves, \<^verbatim>\<open>pqadd\<close> reads back, so that the message
  is due at the same time again.
\<close>

theorem schedule_survives_restart:
  assumes "\<not> faulty_ever s" "c \<in> set chans" "pq_heap Pmin (pqchan s c)" "distinct (map pe_id (pqchan s c))"
    "pe \<in> set (pqchan s c)" "files s (FChan c (pe_id pe)) \<noteq> None"
    "\<not> faulty_ever t" "files t = files (pqfinish s)" "files t (FInfo (pe_id pe)) \<noteq> None" "files t (FTodo (pe_id pe)) = None"
  shows "\<lparr>pe_dt = pe_dt pe, pe_id = pe_id pe, pe_delayed = False\<rparr> \<in> set (pqchan (pqadd (pe_id pe) False t) c)"
proof -
  obtain x where x: "files s (FChan c (pe_id pe)) = Some x" using assms(6) by blast
  have "files t (FChan c (pe_id pe)) = Some (x\<lparr>f_mtime := pe_dt pe, f_atime := pe_dt pe\<rparr>)"
    using pqfinish_times [OF assms(1-5)] assms(8) x by (simp add: stamped_def)
  from pqadd_restores [OF assms(7,9,10,2) this] show ?thesis by simp
qed

lemma schedule_survives_restart_witness:
  "\<lparr>pe_dt = 1000, pe_id = 12, pe_delayed = False\<rparr> \<in> set (pqchan (pqadd 12 False (pqfinish ex_s0)) 0)"
proof -
  have q: "pqchan ex_s0 0 = [\<lparr>pe_dt = 1000, pe_id = 12, pe_delayed = False\<rparr>]" "pqchan ex_s0 1 = []"
    "sw ex_s0 = ex_world\<lparr>w_tick := 17\<rparr>"
    by (simp_all add: ex_s0_def)
  have nf: "\<not> faulty_ever ex_s0" "\<not> faulty_ever (pqfinish ex_s0)"
    by (simp_all add: pqfinish_def pqfinish_chan_faults) (simp_all add: faulty_ever_def q ex_world_def)
  have f: "files (pqfinish ex_s0) (FInfo 12) \<noteq> None" "files (pqfinish ex_s0) (FTodo 12) = None"
    by (simp_all add: pqfinish_def q q(2) [unfolded One_nat_def] prioq_get_def sys_utimes_def lookup_file_def faulty_def put_file_def tickw_def
        prioq_del_def ex_world_def ex_files_def Let_def prioq_down_end)
  have c: "files ex_s0 (FChan 0 12) \<noteq> None" by (simp add: q ex_world_def ex_files_def)
  show ?thesis
    using schedule_survives_restart [OF nf(1), of 0 "\<lparr>pe_dt = 1000, pe_id = 12, pe_delayed = False\<rparr>" "pqfinish ex_s0"] q nf f c
    by (simp add: pq_heap_def)
qed

section \<open>Between the queue manager and the spawn processes\<close>

text \<open>
  C14. What \<^verbatim>\<open>comm_write\<close> sends, \<^verbatim>\<open>getcmd\<close> of \<^verbatim>\<open>spawn.c\<close> reads: after the bytes of a command the spawn
  process carries out exactly that delivery, with the sender rewritten by \<^verbatim>\<open>senderadd\<close>.
\<close>

lemma no_nul_take_drop: "no_nul s \<Longrightarrow> no_nul (take n s)" "no_nul s \<Longrightarrow> no_nul (drop n s)"
  by (auto simp: no_nul_def dest: in_set_takeD in_set_dropD)

lemma senderadd_no_nul: "no_nul sender \<Longrightarrow> no_nul recip \<Longrightarrow> no_nul (senderadd L sender recip)"
  by (simp add: senderadd_def Let_def no_nul_take_drop)

theorem command_roundtrip:
  assumes "libqmail L" "0 < csplit" "delnum < 32768" "no_nul sender" "no_nul qqeh" "no_nul envh" "no_nul recip"
    "sp_stage s = 0" "mem_ok s"
  shows "fold (cmd_byte L) (comm_msg L csplit delnum i sender qqeh envh recip) s =
    (docmd L (with_cmd delnum (fnmake_split L csplit i) (senderadd L sender recip) qqeh envh recip s))
      \<lparr>sp_flagabort := False, sp_stage := 0\<rparr>"
proof -
  have m: "no_nul (fnmake_split L csplit i)"
    using libqmail.fnmake_split_eq [OF assms(1,2)] libqmail.fmt_ulong_no_nul [OF assms(1)] by simp
  have e: "comm_msg L csplit delnum i sender qqeh envh recip =
      encode_cmd delnum (fnmake_split L csplit i) (senderadd L sender recip) qqeh envh recip"
    by (simp add: comm_msg_def encode_cmd_def)
  show ?thesis
    unfolding e by (rule getcmd_reads) (use assms m senderadd_no_nul in auto)
qed

definition ex_env :: docenv where
  "ex_env = \<lparr>de_mem = True, de_open = True, de_fstat = True, de_regular = True, de_owner = True, de_pipe = True,
     de_mem2 = True, de_put = (\<lambda>_. True), de_unset = True, de_spawn = 4711\<rparr>"

definition ex_spawnd :: spawnd where
  "ex_spawnd = spawn_init 1 0 (\<lambda>_. ex_env) (\<lambda>_. True)"

definition ex_cmd :: bytes where
  "ex_cmd = encode_cmd 0 ''12/12'' ''joe@a'' [] [] ''amy@b''"

lemma ex_cmd_result:
  "fold (cmd_byte ref_libq) ex_cmd ex_spawnd =
     (docmd ref_libq (with_cmd 0 ''12/12'' ''joe@a'' [] [] ''amy@b'' ex_spawnd))\<lparr>sp_flagabort := False, sp_stage := 0\<rparr>"
  unfolding ex_cmd_def by (rule getcmd_reads) (simp_all add: ex_spawnd_def spawn_init_def mem_ok_def)

lemma command_roundtrip_witness:
  "fold (cmd_byte ref_libq) (comm_msg ref_libq 23 0 12 ''joe@a'' [] [] ''amy@b'') ex_spawnd =
     (docmd ref_libq (with_cmd 0 (fnmake_split ref_libq 23 12) (senderadd ref_libq ''joe@a'' ''amy@b'') [] [] ''amy@b'' ex_spawnd))
       \<lparr>sp_flagabort := False, sp_stage := 0\<rparr>"
  by (rule command_roundtrip [OF ref.libqmail_axioms]) (simp_all add: ex_spawnd_def spawn_init_def mem_ok_def)

text \<open>
  C15. Every command that a spawn process has carried out is answered once or belongs to a delivery
  under way, and what it wrote is the size of its table followed by exactly these answers.
\<close>

theorem spawn_answers_every_command:
  assumes "libqmail L" "spawn_reach L rep k s"
  shows "sp_cmds s = length (replies (sp_events s)) + length (filter dv_used (sp_d s)) \<and>
    (sp_flagwriting s \<longrightarrow>
       sp_out s = [char_of k, char_of (k div 256)] @ concat (map (\<lambda>(n, t). encode_reply n t) (replies (sp_events s))))"
  using libqmail.spawn_reach_ok [OF assms] by (simp add: spawn_ok_def spawn_inv_def nbusy_def)

definition ex_spawnd1 :: spawnd where
  "ex_spawnd1 = spawn_round ref_libq (lspawn_report []) (Some (RData ex_cmd)) (\<lambda>_. None) ex_spawnd"

lemma ex_spawnd1_reach: "spawn_reach ref_libq (lspawn_report []) 1 ex_spawnd1"
proof -
  have r: "spawn_reach ref_libq (lspawn_report []) 1 ex_spawnd" unfolding ex_spawnd_def by (rule spawn_reach.init)
  show ?thesis unfolding ex_spawnd1_def
    by (rule spawn_reach.round [OF r]) (simp add: ex_spawnd_def spawn_finished_def spawn_init_def)
qed

lemma ex_spawnd1_state:
  "sp_cmds ex_spawnd1 = 1"
  "sp_events ex_spawnd1 = [SpStart 0 ''12/12'' ''joe@a'' [] ''amy@b'' [(''MESSID'', ''12/12'')]]"
proof -
  have id: "fold (\<lambda>i s. s) xs s = s" for xs :: "nat list" and s :: spawnd by (induction xs) simp_all
  have "ex_spawnd1 = fold (cmd_byte ref_libq) ex_cmd ex_spawnd"
    by (simp add: ex_spawnd1_def spawn_round_def getcmd_def ex_spawnd_def spawn_init_def id)
  then have e: "ex_spawnd1 = (docmd ref_libq (with_cmd 0 ''12/12'' ''joe@a'' [] [] ''amy@b'' ex_spawnd))\<lparr>sp_flagabort := False, sp_stage := 0\<rparr>"
    by (simp only: ex_cmd_result)
  have bad: "\<not> bad_messid (''12/12'' @ [NUL])" by (simp add: bad_messid_def is_digit_def numeral_eq_Suc upt_rec)
  have at: "lq_rchr ref_libq (''amy@b'' @ [NUL]) CHR ''@'' < length (''amy@b'' @ [NUL])"
    by (rule ref.rchr_found_iff [THEN iffD2]) simp
  have docmd: "docmd ref_libq (with_cmd 0 ''12/12'' ''joe@a'' [] [] ''amy@b'' ex_spawnd) =
    (let s = with_cmd 0 ''12/12'' ''joe@a'' [] [] ''amy@b'' ex_spawnd in
     s\<lparr>sp_cmds := 1, sp_d := [\<lparr>dv_used = True, dv_pid = 4711, dv_wstat = \<lparr>ws_crashed = False, ws_code = 0\<rparr>, dv_output = []\<rparr>],
       sp_events := [SpStart 0 ''12/12'' ''joe@a'' [] ''amy@b'' [(''MESSID'', ''12/12'')]]\<rparr>)"
    using bad at
    by (simp add: docmd_def docmd_refuse_def docmd_trouble_def with_cmd_def ex_spawnd_def spawn_init_def ex_env_def
        set_env_variables_def env_puts_def map_filter_def cstr_def)
  show "sp_cmds ex_spawnd1 = 1"
    "sp_events ex_spawnd1 = [SpStart 0 ''12/12'' ''joe@a'' [] ''amy@b'' [(''MESSID'', ''12/12'')]]"
    unfolding e docmd by (simp_all add: Let_def)
qed

lemma spawn_answers_every_command_witness:
  "1 = length (replies (sp_events ex_spawnd1)) + length (filter dv_used (sp_d ex_spawnd1))"
  using spawn_answers_every_command [OF ref.libqmail_axioms ex_spawnd1_reach] by (simp add: ex_spawnd1_state)

text \<open>
  C16. A delivery is only started for a message name made of digits and slashes, for a recipient with
  a host, in a slot of the table: nothing from the pipe can name another file.
\<close>

theorem spawn_starts_safe_deliveries:
  assumes "libqmail L" "spawn_reach L rep k s" "SpStart n m sender qqeh recip vars \<in> set (sp_events s)"
  shows "n < k \<and> safe_messid m \<and> CHR ''@'' \<in> set recip"
proof -
  have "list_all (start_ok k) (sp_events s)"
    using libqmail.spawn_reach_ok [OF assms(1,2)] by (simp add: spawn_ok_def spawn_inv_def)
  then have "start_ok k (SpStart n m sender qqeh recip vars)" using assms(3) by (simp add: list_all_iff)
  then show ?thesis by (simp add: start_ok_def)
qed

lemma spawn_starts_safe_deliveries_witness: "(0::nat) < 1 \<and> safe_messid ''12/12'' \<and> CHR ''@'' \<in> set ''amy@b''"
  by (rule spawn_starts_safe_deliveries [OF ref.libqmail_axioms ex_spawnd1_reach, of 0 _ "''joe@a''" "[]" _ "[(''MESSID'', ''12/12'')]"])
     (simp add: ex_spawnd1_state)

text \<open>
  C17. Success is reported to the queue manager only for a child that ended normally: \<^verbatim>\<open>qmail-lspawn\<close>
  says \<^verbatim>\<open>K\<close> exactly for exit code 0, \<^verbatim>\<open>qmail-rspawn\<close> only when \<^verbatim>\<open>qmail-remote\<close> accepted the recipient and the
  first part of its output that has a verdict is the verdict \<^verbatim>\<open>K\<close>.
\<close>

theorem success_reports_are_earned:
  "(lspawn_report user w out = CHR ''K'' # t \<longleftrightarrow> \<not> ws_crashed w \<and> ws_code w = 0 \<and> t = cstr out) \<and>
   (rspawn_report oob w out = CHR ''K'' # t \<longrightarrow>
      \<not> ws_crashed w \<and> ws_code w = 0 \<and> out \<noteq> [] \<and> out ! 0 \<notin> {CHR ''s'', CHR ''h''} \<and>
      (\<exists>vs. List.map_filter part_verdict (parts [] out) = 1 # vs))"
proof -
  have scan: "rspawn_scan out 0 [0..<length out] =
      (case List.map_filter part_verdict (parts [] out) of [] \<Rightarrow> -1 | v # _ \<Rightarrow> v)"
    using rspawn_scan_parts [of "[]" "[]" out] by simp
  have "\<exists>vs. List.map_filter part_verdict (parts [] out) = 1 # vs" if "rspawn_scan out 0 [0..<length out] = 1"
    using that unfolding scan by (cases "List.map_filter part_verdict (parts [] out)") auto
  then show ?thesis
    using lspawn_report_K by (auto simp: rspawn_report_def Let_def split: if_splits)
qed

lemma success_reports_are_earned_witness:
  "(\<exists>vs. List.map_filter part_verdict (parts [] (''r'' @ [NUL] @ ''Kok'' @ [NUL])) = 1 # vs)"
proof -
  have "rspawn_report [] \<lparr>ws_crashed = False, ws_code = 0\<rparr> (''r'' @ [NUL] @ ''Kok'' @ [NUL]) =
      CHR ''K'' # tl (rspawn_report [] \<lparr>ws_crashed = False, ws_code = 0\<rparr> (''r'' @ [NUL] @ ''Kok'' @ [NUL]))"
    by (simp add: rspawn_report_def Let_def upt_rec)
  then show ?thesis
    using success_reports_are_earned [of "[]" "\<lparr>ws_crashed = False, ws_code = 0\<rparr>" "''r'' @ [NUL] @ ''Kok'' @ [NUL]"]
    by blast
qed

section \<open>Files, messages and hosts\<close>

text \<open>
  \<^verbatim>\<open>qmail-clean\<close> answers a well-formed request with one byte, unlinks at most the two files of
  that message, and says \<^verbatim>\<open>+\<close> exactly when neither removal failed.
\<close>

theorem clean_request_is_exact:
  fixes s :: cleand
  assumes "libqmail L" "prefix = ''foop/'' \<or> prefix = ''todo/''" "n < 2 ^ 64"
  defines "t \<equiv> clean_request L (prefix @ lq_fmt_ulong L n @ [NUL]) s"
    and "paths \<equiv> (if prefix = ''foop/'' then req_paths L s ''mess/'' True n else req_paths L s ''todo/'' (cl_bigtodo s) n)"
  shows "\<exists>k r. cl_unlinks t = cl_unlinks s @ take k paths \<and> cl_responses t = cl_responses s @ [r] \<and>
    (r = CHR ''+'' \<longleftrightarrow> cl_sys s (length (cl_unlinks s)) \<noteq> UErr \<and> cl_sys s (Suc (length (cl_unlinks s))) \<noteq> UErr)"
proof -
  have p: "req_paths L (s\<lparr>cl_id := n\<rparr>) q b n = req_paths L s q b n" for q b by (simp add: req_paths_def)
  have r: "t = (if prefix = ''foop/'' then clean_pair L ''mess/'' True (s\<lparr>cl_id := n\<rparr>)
      else clean_pair L ''todo/'' (cl_bigtodo s) (s\<lparr>cl_id := n\<rparr>))"
    unfolding t_def by (rule libqmail.clean_request_wellformed [OF assms(1-3)])
  show ?thesis
    using clean_pair_result [of L "''mess/''" True "s\<lparr>cl_id := n\<rparr>"]
      clean_pair_result [of L "''todo/''" "cl_bigtodo s" "s\<lparr>cl_id := n\<rparr>"]
    unfolding r paths_def p by (auto simp: p)
qed

definition ex_cleand :: cleand where
  "ex_cleand = \<lparr>cl_responses = [], cl_unlinks = [], cl_sys = (\<lambda>_. UOk), cl_id = 0, cl_loop = 0, cl_bigtodo = False, cl_split = 23\<rparr>"

lemma clean_request_is_exact_witness:
  "cl_responses (clean_request ref_libq (''foop/'' @ lq_fmt_ulong ref_libq 12 @ [NUL]) ex_cleand) = ''+''"
  using clean_request_is_exact [OF ref.libqmail_axioms, of "''foop/''" 12 ex_cleand] by (auto simp: ex_cleand_def)

text \<open>
  Distinct queue files have distinct path names, in every directory layout.
\<close>

theorem queue_file_names_are_distinct:
  assumes "libqmail L" "fnmake L k b f = fnmake L k b g"
    "\<forall>c i. f = FChan c i \<longrightarrow> c < 2" "\<forall>c i. g = FChan c i \<longrightarrow> c < 2"
  shows "f = g"
  using libqmail.fnmake_distinct [OF assms(1,2)] assms(3,4) by blast

lemma queue_file_names_are_distinct_witness: "FChan 1 12 = FChan 1 12 \<and> fnmake ref_libq 23 False (FChan 1 12) = fnmake ref_libq 23 False (FChan 1 12)"
  using queue_file_names_are_distinct [OF ref.libqmail_axioms, of 23 False "FChan 1 12" "FChan 1 12"] by simp

text \<open>
  \<^verbatim>\<open>qmail_close\<close> reports that the message was accepted exactly when the child ended with code 0
  and no write to it failed, provided a custom error is not an empty text; any other verdict starts
  with the code for a permanent or a temporary failure.
\<close>

theorem accepted_only_if_queued:
  assumes "cstr (take 1023 custom) \<noteq> []"
  shows "fst (qmail_close custom waited crashed code q) = [] \<longleftrightarrow>
    waited \<and> \<not> crashed \<and> code = 0 \<and> \<not> qq_flagerr (snd (qmail_close custom waited crashed code q))"
  by (rule qmail_close_accepts [OF assms])

lemma accepted_only_if_queued_witness:
  "fst (qmail_close ''Dno'' True False 88 (qmail_opened True (\<lambda>_. False))) \<noteq> []"
  using accepted_only_if_queued [of "''Dno''" True False 88 "qmail_opened True (\<lambda>_. False)"] by (simp add: cstr_def)

text \<open>
  C21. The envelope that \<^verbatim>\<open>qmail_from\<close>, \<^verbatim>\<open>qmail_to\<close> and \<^verbatim>\<open>qmail_close\<close> write is read back as the sender
  and the recipients, in order.
\<close>

theorem envelope_roundtrip:
  assumes "\<not> qq_flagerr q" "\<forall>n. \<not> qq_fault q n" "qq_env q = []"
  shows "read_envelope (qq_env (snd (qmail_close custom waited crashed code (fold qmail_to rs (qmail_from s q))))) =
    Some (cstr s, map cstr rs)"
  unfolding qmail_session_envelope [OF assms] by (rule read_envelope_inverse) (simp_all add: list_all_iff)

lemma envelope_roundtrip_witness:
  "read_envelope (qq_env (snd (qmail_close [] True False 0
     (fold qmail_to [''amy@b'', ''ben@c''] (qmail_from ''joe@a'' (qmail_opened False (\<lambda>_. False))))))) =
   Some (''joe@a'', [''amy@b'', ''ben@c''])"
  using envelope_roundtrip [of "qmail_opened False (\<lambda>_. False)" "[]" True False 0 "[''amy@b'', ''ben@c'']" "''joe@a''"]
  by (simp add: qmail_opened_def cstr_def)

text \<open>
  C22. The table of hosts that timed out refines a map from hosts to a counter and a time: a report changes the entry of its
  host as the abstract operation \<open>tcp_report\<close> says and leaves the entries of all other hosts alone. The exception is a
  timeout of a host that has no entry: it takes one slot, which counts no timeout, or, if all slots count some, one of least
  weight; every host that was not found in that slot keeps its entry.
\<close>

theorem timeout_report_refines:
  assumes "ix_ok ix" "0 \<le> tm" "tm < 2 ^ 32" "0 < tcp_size f" "flagerr \<or> there"
    and g_def: "g = tcp_put (tcpto_err ix flagerr tol tm there (Some f)) f"
  shows "tcp_view g ix = tcp_report flagerr tol tm (tcp_view f ix) \<and>
    ((\<forall>y. ix_ok y \<and> \<not> same_host y ix \<longrightarrow> tcp_view g y = tcp_view f y) \<or>
     tcp_view f ix = None \<and> flagerr \<and>
     (\<exists>j < tcp_size f.
        (trec f j ! 4 = NUL \<or> (\<forall>k < tcp_size f. trec f k ! 4 \<noteq> NUL \<and> tcp_weight (trec f j) \<le> tcp_weight (trec f k))) \<and>
        (\<forall>y. ix_ok y \<and> \<not> same_host y ix \<and> tcp_find y f (tcp_size f) \<noteq> Some j \<longrightarrow> tcp_view g y = tcp_view f y)))"
  using tcpto_err_view [OF assms(1-5)] tcpto_err_others [OF assms(1,4,5) g_def] unfolding g_def tcp_others_def by blast

definition ex_host :: ipmx where
  "ex_host = \<lparr>ix_af = 2, ix_addr = replicate 16 (CHR ''a'')\<rparr>"

lemma timeout_report_refines_witness:
  "tcp_view (tcp_put (tcpto_err ex_host True 120 1000 False (Some (replicate 32 NUL))) (replicate 32 NUL)) ex_host = Some (1, 1000)"
proof -
  have "schar NUL = 0" by (simp add: schar_eq_zero)
  then have "\<not> tcp_match ex_host (trec (replicate 32 NUL) 0)"
    by (simp add: tcp_match_def ex_host_def trec_def)
  then have n: "tcp_view (replicate 32 NUL) ex_host = None"
    by (simp add: tcp_view_def tcp_find_def tcp_size_def)
  show ?thesis
    using timeout_report_refines [OF _ _ _ _ _ refl, of ex_host 1000 "replicate 32 NUL" True False 120, THEN conjunct1] n
    by (simp add: ix_ok_def ex_host_def tcp_size_def tcp_report_def)
qed

text \<open>
  Two timeouts in a row, the second after the tolerance has passed, make \<^verbatim>\<open>tcpto\<close> skip the host
  until the waiting time is over; one timeout alone does not.
\<close>

theorem two_timeouts_defer:
  fixes f :: bytes
  assumes "ix_ok ix" "0 < tcp_size f" "tcp_view f ix = None" "0 \<le> t1" "t1 < 2 ^ 32" "0 \<le> t2" "t2 < 2 ^ 32" "tol + t1 \<le> t2"
  defines "f1 \<equiv> tcp_put (tcpto_err ix True tol t1 False (Some f)) f"
  defines "f2 \<equiv> tcp_put (tcpto_err ix True tol t2 True (Some f1)) f1"
  shows "fst (tcpto ix mb t pid (Some f1)) = False \<and> fst (tcpto ix mb t pid (Some f2)) = (t - t2 < min_wait mb pid)"
proof -
  have v1: "tcp_view f1 ix = Some (1, t1)"
    unfolding f1_def using tcpto_err_view [OF assms(1,4,5,2)] assms(3) by (simp add: tcp_report_def)
  have "0 < tcp_size f1"
  proof (rule ccontr)
    assume "\<not> 0 < tcp_size f1"
    then have "tcp_view f1 ix = None" by (simp add: tcp_view_def tcp_find_def)
    then show False using v1 by simp
  qed
  then have "tcp_view f2 ix = Some (2, t2)"
    unfolding f2_def using tcpto_err_view [OF assms(1,6,7)] v1 assms(8) by (simp add: tcp_report_def bump_count_def)
  then show ?thesis using v1 by (simp add: tcpto_view)
qed

lemma two_timeouts_defer_witness:
  "fst (tcpto ex_host 3600 2100 7
     (Some (tcp_put (tcpto_err ex_host True 120 2000 True
        (Some (tcp_put (tcpto_err ex_host True 120 1000 False (Some (replicate 32 NUL))) (replicate 32 NUL))))
        (tcp_put (tcpto_err ex_host True 120 1000 False (Some (replicate 32 NUL))) (replicate 32 NUL)))))"
proof -
  have "schar NUL = 0" by (simp add: schar_eq_zero)
  then have "\<not> tcp_match ex_host (trec (replicate 32 NUL) 0)"
    by (simp add: tcp_match_def ex_host_def trec_def)
  then have n: "tcp_view (replicate 32 NUL) ex_host = None"
    by (simp add: tcp_view_def tcp_find_def tcp_size_def)
  show ?thesis
    using two_timeouts_defer [of ex_host "replicate 32 NUL" 1000 2000 120 3600 2100 7] n
    by (simp add: ix_ok_def ex_host_def tcp_size_def min_wait_def MIN_PENALTY_def)
qed

end
